(* ===== verification/Gma_Prelude.thy ===== *)
theory Gma_Prelude
  imports Main "HOL-Library.AList" "HOL-Library.Word" "HOL-Library.Monad_Syntax" "HOL-Library.Code_Target_Nat"
begin

text \<open>
  Shared vocabulary of the development: names for the machine-integer types, the two standard
  containers the C++ code is built from (\<^verbatim>\<open>std::unordered_map\<close> and \<^verbatim>\<open>std::map\<close>) as association
  lists with unique keys, the contract of a strict key order as a locale, and the lemmas about
  sums and sequences the component theories use.

  An \<^verbatim>\<open>unordered_map\<close> is an association list whose order stands for the unspecified iteration
  order; look-up is \<^const>\<open>map_of\<close>, assignment \<^const>\<open>AList.update\<close>, erasure \<^const>\<open>AList.delete\<close>,
  size \<^const>\<open>length\<close>. A \<^verbatim>\<open>std::map\<close> is an association list kept strictly sorted by its comparator;
  only insertion depends on the order.
\<close>

section \<open>Machine integers\<close>

type_synonym u32 = "32 word"
type_synonym u64 = "64 word"

named_theorems umap_simps \<open>facts about association lists used as unordered maps\<close>
named_theorems u64_simps \<open>exact arithmetic of 64-bit unsigned words\<close>

lemma unat_add_no_overflow [u64_simps]:
  fixes a b :: u64
  assumes "unat a + unat b < 2 ^ 64"
  shows "unat (a + b) = unat a + unat b"
  using assms by (simp add: unat_word_ariths)

lemma unat_diff_le [u64_simps]:
  fixes a b :: u64
  assumes "b \<le> a"
  shows "unat (a - b) = unat a - unat b"
  using assms by (simp add: unat_sub)

lemma unat_lt_2_64 [simp]: "unat (a :: u64) < 18446744073709551616"
  using unsigned_less [of a] by simp

section \<open>Unordered maps\<close>

type_synonym ('k, 'v) umap = "('k \<times> 'v) list"

abbreviation um_wf :: "('k, 'v) umap \<Rightarrow> bool" where
  "um_wf m \<equiv> distinct (map fst m)"

text \<open>\<^verbatim>\<open>m.emplace(k, v)\<close>: an existing entry is kept.\<close>

definition um_emplace :: "'k \<Rightarrow> 'v \<Rightarrow> ('k, 'v) umap \<Rightarrow> ('k, 'v) umap" where
  "um_emplace k v m = (case map_of m k of Some _ \<Rightarrow> m | None \<Rightarrow> AList.update k v m)"

lemma um_find_emplace [umap_simps]:
  "map_of (um_emplace k v m) = (case map_of m k of Some _ \<Rightarrow> map_of m | None \<Rightarrow> (map_of m)(k \<mapsto> v))"
  by (auto simp: um_emplace_def update_conv' split: option.splits)

lemma um_find_update [umap_simps]: "map_of (AList.update k v m) = (map_of m)(k \<mapsto> v)"
  by (rule update_conv')

lemma um_find_delete [umap_simps]: "map_of (AList.delete k m) = (map_of m)(k := None)"
  by (rule delete_conv')

lemma um_wf_update [simp]: "um_wf m \<Longrightarrow> um_wf (AList.update k v m)"
  by (rule distinct_update)

lemma um_wf_delete [simp]: "um_wf m \<Longrightarrow> um_wf (AList.delete k m)"
  by (rule distinct_delete)

lemma um_wf_emplace [simp]: "um_wf m \<Longrightarrow> um_wf (um_emplace k v m)"
  by (simp add: um_emplace_def split: option.split)

lemma length_update_new: "map_of m k = None \<Longrightarrow> length (AList.update k v m) = Suc (length m)"
  by (induction m) (auto split: if_splits)

lemma length_update_old: "map_of m k \<noteq> None \<Longrightarrow> length (AList.update k v m) = length m"
  by (induction m) (auto split: if_splits)

lemma length_update_le: "length (AList.update k v m) \<le> Suc (length m)"
  by (cases "map_of m k = None") (auto simp: length_update_new length_update_old)

lemma length_delete_present:
  "um_wf m \<Longrightarrow> map_of m k \<noteq> None \<Longrightarrow> Suc (length (AList.delete k m)) = length m"
proof (induction m)
  case (Cons a m)
  obtain k' v where a: "a = (k', v)" by (cases a)
  show ?case
  proof (cases "k = k'")
    case True
    then have "AList.delete k m = m"
      using Cons.prems by (auto simp: a AList.delete_eq filter_id_conv image_iff)
    then show ?thesis using True by (simp add: a AList.delete_eq)
  next
    case False
    then show ?thesis using Cons by (auto simp: a AList.delete_eq)
  qed
qed simp

lemma map_of_Some_iff_mem: "um_wf m \<Longrightarrow> map_of m k = Some v \<longleftrightarrow> (k, v) \<in> set m"
  by (simp add: map_of_eq_Some_iff)

lemma mem_delete [simp]: "x \<in> set (AList.delete k m) \<longleftrightarrow> x \<in> set m \<and> fst x \<noteq> k"
  by (auto simp: AList.delete_eq)

lemma map_of_append_new: "map_of m k = None \<Longrightarrow> map_of (m @ [(k, v)]) = (map_of m)(k \<mapsto> v)"
  by (rule ext) (auto simp: map_add_def split: option.splits)

section \<open>Ordered maps\<close>

text \<open>
  Assignment in a \<^verbatim>\<open>std::map\<close> with comparator \<open>lt\<close>: replace the entry of an equal key, or
  insert in front of the first key that is greater.
\<close>

fun om_set :: "('k \<Rightarrow> 'k \<Rightarrow> bool) \<Rightarrow> 'k \<Rightarrow> 'v \<Rightarrow> ('k \<times> 'v) list \<Rightarrow> ('k \<times> 'v) list" where
  "om_set lt k v [] = [(k, v)]"
| "om_set lt k v ((a, b) # m) =
     (if lt k a then (k, v) # (a, b) # m
      else if k = a then (k, v) # m
      else (a, b) # om_set lt k v m)"

abbreviation om_wf :: "('k \<Rightarrow> 'k \<Rightarrow> bool) \<Rightarrow> ('k \<times> 'v) list \<Rightarrow> bool" where
  "om_wf lt m \<equiv> sorted_wrt lt (map fst m)"

lemma fst_set_om_set: "fst ` set (om_set lt k v m) = insert k (fst ` set m)"
  by (induction lt k v m rule: om_set.induct) (simp_all add: insert_commute)

text \<open>
  The contract of a \<^verbatim>\<open>std::map\<close> comparator (a strict total order) and what the container then
  promises: look-up after assignment and erasure, preservation of sortedness, and that the first
  entry is the least key.
\<close>

locale key_order =
  fixes lt :: "'k \<Rightarrow> 'k \<Rightarrow> bool"
  assumes lt_irrefl: "\<not> lt x x"
    and lt_trans: "lt x y \<Longrightarrow> lt y z \<Longrightarrow> lt x z"
    and lt_total: "x \<noteq> y \<Longrightarrow> lt x y \<or> lt y x"
begin

lemma lt_asym: "lt x y \<Longrightarrow> \<not> lt y x"
  using lt_irrefl lt_trans by blast

lemma wf_distinct: "om_wf lt m \<Longrightarrow> um_wf m"
  by (induction m) (auto simp: lt_irrefl)

lemma wf_set: "om_wf lt m \<Longrightarrow> om_wf lt (om_set lt k v m)"
proof (induction m)
  case (Cons a m)
  obtain a1 a2 where a: "a = (a1, a2)" by (cases a)
  have le: "\<forall>x \<in> fst ` set m. lt a1 x" and wf: "om_wf lt m" using Cons.prems by (auto simp: a)
  show ?case
  proof (cases "lt k a1 \<or> k = a1")
    case True
    then show ?thesis using Cons.prems by (auto simp: a intro: lt_trans)
  next
    case False
    then have "lt a1 k" using lt_total by blast
    then show ?thesis using False le Cons.IH [OF wf] fst_set_om_set [of lt k v m] by (auto simp: a)
  qed
qed simp

lemma wf_delete: "om_wf lt m \<Longrightarrow> om_wf lt (AList.delete k m)"
  by (induction m) (auto simp: AList.delete_eq)

lemma find_set: "om_wf lt m \<Longrightarrow> map_of (om_set lt k v m) = (map_of m)(k \<mapsto> v)"
proof (induction m)
  case (Cons a m)
  obtain a1 a2 where a: "a = (a1, a2)" by (cases a)
  show ?case using Cons by (auto simp: a lt_irrefl fun_eq_iff)
qed auto

lemma first_least:
  "om_wf lt ((k, v) # m) \<Longrightarrow> map_of ((k, v) # m) k' = Some v' \<Longrightarrow> k' = k \<or> lt k k'"
  by (auto dest!: map_of_SomeD split: if_splits)

end

interpretation less_order: key_order "(<) :: int \<Rightarrow> int \<Rightarrow> bool"
  by unfold_locales auto

interpretation greater_order: key_order "(>) :: int \<Rightarrow> int \<Rightarrow> bool"
  by unfold_locales auto

section \<open>Sums along lists\<close>

lemma sum_list_delete:
  fixes f :: "'b \<Rightarrow> nat"
  assumes "um_wf m" and "map_of m k = Some x"
  shows "sum_list (map (\<lambda>(_, y). f y) m) = f x + sum_list (map (\<lambda>(_, y). f y) (AList.delete k m))"
  using assms
proof (induction m)
  case (Cons a m)
  obtain k' v where a: "a = (k', v)" by (cases a)
  show ?case
  proof (cases "k = k'")
    case True
    then have "AList.delete k m = m"
      using Cons.prems by (auto simp: a AList.delete_eq filter_id_conv image_iff)
    then show ?thesis using True Cons.prems by (simp add: a AList.delete_eq)
  next
    case False
    then show ?thesis using Cons by (auto simp: a AList.delete_eq)
  qed
qed simp

lemma member_le_sum_list_map:
  fixes f :: "'a \<Rightarrow> nat"
  shows "x \<in> set xs \<Longrightarrow> f x \<le> sum_list (map f xs)"
  by (induction xs) auto

end
