(* ===== verification/Order_Book.thy ===== *)
theory Order_Book
  imports Gma_Prelude
begin

text \<open>
  The per-symbol limit order book, \<^verbatim>\<open>connectors/market/src/book/OrderBook.cpp\<close> with its header.

  Prices are integer ticks; sizes, identifiers and priorities are 64-bit words. A price ladder
  (\<^verbatim>\<open>std::map\<close> with \<^verbatim>\<open>GreaterP\<close> or \<^verbatim>\<open>LessP\<close>) is an association list sorted by the side's
  comparator. A level's \<^verbatim>\<open>std::list<Order>\<close> is the list of its nodes in order; a list iterator
  is the address of a node, and \<open>next_node\<close> is the allocator's next fresh address (the fields keep their C++ names without the trailing underscore). Following an
  iterator to a node that the list does not contain (a dangling iterator) is undefined behaviour,
  which an operation reports by returning \<^const>\<open>None\<close>: an operation that returns \<^const>\<open>Some\<close> has
  followed valid iterators only. Logging is not modelled.

  The theory ends with the representation invariant, the abstraction to FIFO queues per side and
  price, and the lemmas that every operation keeps the former and implements its counterpart on
  the latter.
\<close>

section \<open>Data\<close>

datatype Side = Bid | Ask

datatype Aggressor = Unknown | Buy | Sell

type_synonym Price = int

record FeedScope =
  fs_feedId :: u32
  fs_epoch :: u32

record OrderKey =
  k_id :: u64
  k_feedId :: u32
  k_epoch :: u32
  k_synthetic :: bool

record Order =
  o_id :: u64
  o_side :: Side
  o_price :: Price
  o_size :: u64
  o_priority :: u64
  o_feedId :: u32
  o_epoch :: u32
  o_synthetic :: bool

type_synonym node = nat

record PriceLevel =
  orders :: "(node \<times> Order) list"
  totalSize :: u64

record LevelAgg =
  agg_totalSize :: u64
  agg_orderCount :: u32

record LevelSnapshotEntry =
  e_side :: Side
  e_price :: Price
  e_totalSize :: u64
  e_orderCount :: "u32 option"

record Locator =
  l_side :: Side
  l_price :: Price
  l_it :: node

record OrderBook =
  bids :: "(Price \<times> PriceLevel) list"
  asks :: "(Price \<times> PriceLevel) list"
  bidsAgg :: "(Price \<times> LevelAgg) list"
  asksAgg :: "(Price \<times> LevelAgg) list"
  byId :: "(OrderKey, Locator) umap"
  synthCounters :: "(u64, u64) umap"
  next_node :: node

definition OrderBook_init :: OrderBook where
  "OrderBook_init = \<lparr> bids = [], asks = [], bidsAgg = [], asksAgg = [], byId = [],
     synthCounters = [], next_node = 0 \<rparr>"

text \<open>The comparators \<^verbatim>\<open>GreaterP\<close> and \<^verbatim>\<open>LessP\<close>, selected by side.\<close>

fun side_lt :: "Side \<Rightarrow> Price \<Rightarrow> Price \<Rightarrow> bool" where
  "side_lt Bid a b = (a > b)"
| "side_lt Ask a b = (a < b)"

fun ladder :: "Side \<Rightarrow> OrderBook \<Rightarrow> (Price \<times> PriceLevel) list" where
  "ladder Bid b = bids b"
| "ladder Ask b = asks b"

fun set_ladder :: "Side \<Rightarrow> (Price \<times> PriceLevel) list \<Rightarrow> OrderBook \<Rightarrow> OrderBook" where
  "set_ladder Bid l b = b \<lparr> bids := l \<rparr>"
| "set_ladder Ask l b = b \<lparr> asks := l \<rparr>"

fun ladderAgg :: "Side \<Rightarrow> OrderBook \<Rightarrow> (Price \<times> LevelAgg) list" where
  "ladderAgg Bid b = bidsAgg b"
| "ladderAgg Ask b = asksAgg b"

fun set_ladderAgg :: "Side \<Rightarrow> (Price \<times> LevelAgg) list \<Rightarrow> OrderBook \<Rightarrow> OrderBook" where
  "set_ladderAgg Bid l b = b \<lparr> bidsAgg := l \<rparr>"
| "set_ladderAgg Ask l b = b \<lparr> asksAgg := l \<rparr>"

section \<open>Keys and synthetic identifiers\<close>

definition scopeKey :: "FeedScope \<Rightarrow> u64" where
  "scopeKey s = or (push_bit 32 (ucast (fs_feedId s))) (ucast (fs_epoch s))"

definition makeKeyFromOrder :: "Order \<Rightarrow> OrderKey" where
  "makeKeyFromOrder o1 = \<lparr> k_id = o_id o1, k_feedId = o_feedId o1, k_epoch = o_epoch o1,
     k_synthetic = o_synthetic o1 \<rparr>"

definition makeKey :: "u64 \<Rightarrow> FeedScope \<Rightarrow> bool \<Rightarrow> OrderKey" where
  "makeKey i s synthetic = \<lparr> k_id = i, k_feedId = fs_feedId s, k_epoch = fs_epoch s,
     k_synthetic = synthetic \<rparr>"

definition nextSyntheticId :: "FeedScope \<Rightarrow> OrderBook \<Rightarrow> u64 \<times> OrderBook" where
  "nextSyntheticId s b = (let k = scopeKey s in
     case map_of (synthCounters b) k of
       None \<Rightarrow> (1, b \<lparr> synthCounters := AList.update k 2 (synthCounters b) \<rparr>)
     | Some v \<Rightarrow> (v, b \<lparr> synthCounters := AList.update k (v + 1) (synthCounters b) \<rparr>))"

section \<open>Level helpers\<close>

definition findLevel :: "Side \<Rightarrow> Price \<Rightarrow> OrderBook \<Rightarrow> PriceLevel option" where
  "findLevel s p b = map_of (ladder s b) p"

text \<open>Writing through the reference (or pointer) to a level.\<close>

definition putLevel :: "Side \<Rightarrow> Price \<Rightarrow> PriceLevel \<Rightarrow> OrderBook \<Rightarrow> OrderBook" where
  "putLevel s p l b = set_ladder s (om_set (side_lt s) p l (ladder s b)) b"

definition getOrCreateLevel :: "Side \<Rightarrow> Price \<Rightarrow> OrderBook \<Rightarrow> PriceLevel \<times> OrderBook" where
  "getOrCreateLevel s p b = (case findLevel s p b of
       Some l \<Rightarrow> (l, b)
     | None \<Rightarrow> let l = \<lparr> orders = [], totalSize = 0 \<rparr> in (l, putLevel s p l b))"

definition eraseLevelIfEmpty :: "Side \<Rightarrow> Price \<Rightarrow> OrderBook \<Rightarrow> OrderBook" where
  "eraseLevelIfEmpty s p b = (case findLevel s p b of
       Some l \<Rightarrow> if orders l = [] then set_ladder s (AList.delete p (ladder s b)) b else b
     | None \<Rightarrow> b)"

definition findAggLevel :: "Side \<Rightarrow> Price \<Rightarrow> OrderBook \<Rightarrow> LevelAgg option" where
  "findAggLevel s p b = map_of (ladderAgg s b) p"

definition putAggLevel :: "Side \<Rightarrow> Price \<Rightarrow> LevelAgg \<Rightarrow> OrderBook \<Rightarrow> OrderBook" where
  "putAggLevel s p l b = set_ladderAgg s (om_set (side_lt s) p l (ladderAgg s b)) b"

definition getOrCreateAggLevel :: "Side \<Rightarrow> Price \<Rightarrow> OrderBook \<Rightarrow> LevelAgg \<times> OrderBook" where
  "getOrCreateAggLevel s p b = (case findAggLevel s p b of
       Some l \<Rightarrow> (l, b)
     | None \<Rightarrow> let l = \<lparr> agg_totalSize = 0, agg_orderCount = 0 \<rparr> in (l, putAggLevel s p l b))"

definition eraseAggLevelIfEmpty :: "Side \<Rightarrow> Price \<Rightarrow> OrderBook \<Rightarrow> OrderBook" where
  "eraseAggLevelIfEmpty s p b = (case findAggLevel s p b of
       Some l \<Rightarrow> if agg_totalSize l = 0 then set_ladderAgg s (AList.delete p (ladderAgg s b)) b else b
     | None \<Rightarrow> b)"

section \<open>Core operations\<close>

text \<open>\<^verbatim>\<open>orders.push_back(o)\<close> on a level, with the address of the new node.\<close>

definition push_back :: "Side \<Rightarrow> Price \<Rightarrow> Order \<Rightarrow> OrderBook \<Rightarrow> node \<times> OrderBook" where
  "push_back s p o1 b = (case getOrCreateLevel s p b of (l, b1) \<Rightarrow>
     (next_node b1,
      putLevel s p (l \<lparr> orders := orders l @ [(next_node b1, o1)], totalSize := totalSize l + o_size o1 \<rparr>)
        (b1 \<lparr> next_node := next_node b1 + 1 \<rparr>)))"

text \<open>The guarded subtraction of \<open>sz\<close>, the erasure of node \<open>n\<close>, and \<^verbatim>\<open>eraseLevelIfEmpty\<close>.\<close>

definition unlink :: "Side \<Rightarrow> Price \<Rightarrow> PriceLevel \<Rightarrow> node \<Rightarrow> u64 \<Rightarrow> Price \<Rightarrow> OrderBook \<Rightarrow> OrderBook" where
  "unlink s p lvl n sz q b = eraseLevelIfEmpty s q
     (putLevel s p (lvl \<lparr> orders := AList.delete n (orders lvl),
        totalSize := (if totalSize lvl \<ge> sz then totalSize lvl - sz else 0) \<rparr>) b)"

definition deleteImpl :: "OrderKey \<Rightarrow> OrderBook \<Rightarrow> (bool \<times> OrderBook) option" where
  "deleteImpl key b = (case map_of (byId b) key of
       None \<Rightarrow> Some (False, b)
     | Some loc \<Rightarrow> (case findLevel (l_side loc) (l_price loc) b of
           None \<Rightarrow> Some (False, b \<lparr> byId := AList.delete key (byId b) \<rparr>)
         | Some lvl \<Rightarrow> (case map_of (orders lvl) (l_it loc) of
               None \<Rightarrow> None
             | Some o1 \<Rightarrow>
                 (let b1 = unlink (l_side loc) (l_price loc) lvl (l_it loc) (o_size o1) (l_price loc) b
                  in Some (True, b1 \<lparr> byId := AList.delete key (byId b1) \<rparr>)))))"

definition addImpl :: "Order \<Rightarrow> OrderBook \<Rightarrow> (bool \<times> OrderBook) option" where
  "addImpl o1 b = (let key = makeKeyFromOrder o1 in
     case (case map_of (byId b) key of None \<Rightarrow> Some (False, b) | Some _ \<Rightarrow> deleteImpl key b) of
       None \<Rightarrow> None
     | Some (_, b1) \<Rightarrow> (case push_back (o_side o1) (o_price o1) o1 b1 of (n, b2) \<Rightarrow>
         Some (True, b2 \<lparr> byId := um_emplace key
           \<lparr> l_side = o_side o1, l_price = o_price o1, l_it = n \<rparr> (byId b2) \<rparr>)))"

definition updateImpl ::
  "OrderKey \<Rightarrow> Price option \<Rightarrow> u64 option \<Rightarrow> OrderBook \<Rightarrow> (bool \<times> OrderBook) option" where
  "updateImpl key newPrice newSize b = (case map_of (byId b) key of
       None \<Rightarrow> Some (False, b)
     | Some loc \<Rightarrow> (case findLevel (l_side loc) (l_price loc) b of
           None \<Rightarrow> Some (False, b \<lparr> byId := AList.delete key (byId b) \<rparr>)
         | Some lvl \<Rightarrow> (case map_of (orders lvl) (l_it loc) of
               None \<Rightarrow> None
             | Some ord \<Rightarrow>
                 (let oldPrice = o_price ord; oldSize = o_size ord;
                      tgtPrice = (case newPrice of Some p \<Rightarrow> p | None \<Rightarrow> oldPrice);
                      tgtSize = (case newSize of Some z \<Rightarrow> z | None \<Rightarrow> oldSize)
                  in if tgtSize = 0 then
                       (let b1 = unlink (l_side loc) (l_price loc) lvl (l_it loc) oldSize oldPrice b
                        in Some (True, b1 \<lparr> byId := AList.delete key (byId b1) \<rparr>))
                     else if tgtPrice = oldPrice then
                       (if tgtSize = oldSize then Some (False, b)
                        else Some (True, putLevel (l_side loc) (l_price loc)
                          (lvl \<lparr> totalSize := (if tgtSize > oldSize then totalSize lvl + (tgtSize - oldSize)
                                             else totalSize lvl - (oldSize - tgtSize)),
                                 orders := AList.update (l_it loc) (ord \<lparr> o_size := tgtSize \<rparr>) (orders lvl) \<rparr>) b))
                     else
                       (let b1 = unlink (l_side loc) (l_price loc) lvl (l_it loc) oldSize oldPrice b
                        in case push_back (l_side loc) tgtPrice
                                 (ord \<lparr> o_price := tgtPrice, o_size := tgtSize \<rparr>) b1 of (n, b2) \<Rightarrow>
                           Some (True, b2 \<lparr> byId := AList.update key
                             (loc \<lparr> l_price := tgtPrice, l_it := n \<rparr>) (byId b2) \<rparr>))))))"

text \<open>
  \<^verbatim>\<open>priorityImpl\<close>: \<^verbatim>\<open>splice\<close> moves the node to the back of its list and keeps its address.
\<close>

definition priorityImpl :: "OrderKey \<Rightarrow> u64 \<Rightarrow> OrderBook \<Rightarrow> (bool \<times> OrderBook) option" where
  "priorityImpl key newPriority b = (case map_of (byId b) key of
       None \<Rightarrow> Some (False, b)
     | Some loc \<Rightarrow> (case findLevel (l_side loc) (l_price loc) b of
           None \<Rightarrow> Some (False, b \<lparr> byId := AList.delete key (byId b) \<rparr>)
         | Some lvl \<Rightarrow> (case map_of (orders lvl) (l_it loc) of
               None \<Rightarrow> None
             | Some ord \<Rightarrow>
                 if o_priority ord = newPriority then Some (False, b)
                 else (let ord1 = ord \<lparr> o_priority := newPriority \<rparr>;
                           os1 = AList.update (l_it loc) ord1 (orders lvl);
                           os2 = (if l_it loc \<noteq> fst (last os1)
                                  then AList.delete (l_it loc) os1 @ [(l_it loc, ord1)] else os1)
                       in Some (True, putLevel (l_side loc) (l_price loc) (lvl \<lparr> orders := os2 \<rparr>) b)))))"

fun consume_loop ::
  "u64 \<Rightarrow> (node \<times> Order) list \<Rightarrow> u64 \<Rightarrow> (OrderKey, Locator) umap
     \<Rightarrow> u64 \<times> (node \<times> Order) list \<times> u64 \<times> (OrderKey, Locator) umap" where
  "consume_loop remaining [] tot m = (remaining, [], tot, m)"
| "consume_loop remaining ((n, top0) # os) tot m =
     (if remaining = 0 then (remaining, (n, top0) # os, tot, m)
      else let tk = (if o_size top0 \<le> remaining then o_size top0 else remaining);
               top1 = top0 \<lparr> o_size := o_size top0 - tk \<rparr>
           in if o_size top1 = 0
              then consume_loop (remaining - tk) os (tot - tk) (AList.delete (makeKeyFromOrder top1) m)
              else (remaining - tk, (n, top1) # os, tot - tk, m))"

definition consumeAtLevel :: "Side \<Rightarrow> Price \<Rightarrow> u64 \<Rightarrow> OrderBook \<Rightarrow> u64 \<times> OrderBook" where
  "consumeAtLevel passive price qty b = (case findLevel passive price b of
       None \<Rightarrow> (0, b)
     | Some lvl \<Rightarrow>
         if qty = 0 then (0, b)
         else (case consume_loop qty (orders lvl) (totalSize lvl) (byId b) of
           (remaining, os, tot, m) \<Rightarrow>
             (qty - remaining,
              eraseLevelIfEmpty passive price
                (putLevel passive price (lvl \<lparr> orders := os, totalSize := tot \<rparr>) (b \<lparr> byId := m \<rparr>)))))"

definition clearPerOrderUnlocked :: "OrderBook \<Rightarrow> OrderBook" where
  "clearPerOrderUnlocked b = b \<lparr> bids := [], asks := [], byId := [] \<rparr>"

definition clearAggregatedUnlocked :: "OrderBook \<Rightarrow> OrderBook" where
  "clearAggregatedUnlocked b = b \<lparr> bidsAgg := [], asksAgg := [] \<rparr>"

section \<open>Public operations\<close>

definition scope0 :: FeedScope where
  "scope0 = \<lparr> fs_feedId = 0, fs_epoch = 0 \<rparr>"

definition applyAdd :: "Order \<Rightarrow> OrderBook \<Rightarrow> (bool \<times> OrderBook) option" where
  "applyAdd o1 b = addImpl (o1 \<lparr> o_feedId := 0, o_epoch := 0 \<rparr>) b"

text \<open>The copy of the order that the scoped overloads of \<^verbatim>\<open>applyAdd\<close> insert.\<close>

definition scopedCopy :: "Order \<Rightarrow> FeedScope \<Rightarrow> bool \<Rightarrow> OrderBook \<Rightarrow> Order \<times> OrderBook" where
  "scopedCopy o1 scope idMissing b =
     (let copy = o1 \<lparr> o_feedId := fs_feedId scope, o_epoch := fs_epoch scope \<rparr>
      in if idMissing \<or> o_id copy = 0
         then (case nextSyntheticId scope b of (i, b1) \<Rightarrow> (copy \<lparr> o_synthetic := True, o_id := i \<rparr>, b1))
         else (copy, b))"

definition applyAddScoped :: "Order \<Rightarrow> FeedScope \<Rightarrow> bool \<Rightarrow> OrderBook \<Rightarrow> (bool \<times> OrderBook) option" where
  "applyAddScoped o1 scope idMissing b =
     (case scopedCopy o1 scope idMissing b of (copy, b1) \<Rightarrow> addImpl copy b1)"

definition applyAddGetKey ::
  "Order \<Rightarrow> FeedScope \<Rightarrow> bool \<Rightarrow> OrderBook \<Rightarrow> (OrderKey \<times> OrderBook) option" where
  "applyAddGetKey o1 scope idMissing b =
     (case scopedCopy o1 scope idMissing b of (copy, b1) \<Rightarrow>
        (case addImpl copy b1 of None \<Rightarrow> None | Some (_, b2) \<Rightarrow> Some (makeKeyFromOrder copy, b2)))"

definition applyUpdate ::
  "OrderKey \<Rightarrow> Price option \<Rightarrow> u64 option \<Rightarrow> OrderBook \<Rightarrow> (bool \<times> OrderBook) option" where
  "applyUpdate key newPrice newSize b = updateImpl key newPrice newSize b"

definition applyUpdateId ::
  "u64 \<Rightarrow> Price option \<Rightarrow> u64 option \<Rightarrow> OrderBook \<Rightarrow> (bool \<times> OrderBook) option" where
  "applyUpdateId i newPrice newSize b = updateImpl (makeKey i scope0 False) newPrice newSize b"

definition applyDelete :: "OrderKey \<Rightarrow> OrderBook \<Rightarrow> (bool \<times> OrderBook) option" where
  "applyDelete key b = deleteImpl key b"

definition applyDeleteId :: "u64 \<Rightarrow> OrderBook \<Rightarrow> (bool \<times> OrderBook) option" where
  "applyDeleteId i b = deleteImpl (makeKey i scope0 False) b"

definition applyPriority :: "OrderKey \<Rightarrow> u64 \<Rightarrow> OrderBook \<Rightarrow> (bool \<times> OrderBook) option" where
  "applyPriority key newPriority b = priorityImpl key newPriority b"

definition applyPriorityId :: "u64 \<Rightarrow> u64 \<Rightarrow> OrderBook \<Rightarrow> (bool \<times> OrderBook) option" where
  "applyPriorityId i newPriority b = priorityImpl (makeKey i scope0 False) newPriority b"

text \<open>The passive side of a trade: the aggressor's opposite, or inferred from the top of book.\<close>

definition passiveSide :: "Price \<Rightarrow> Aggressor \<Rightarrow> OrderBook \<Rightarrow> Side option" where
  "passiveSide tradePrice aggr b = (case aggr of
       Buy \<Rightarrow> Some Ask
     | Sell \<Rightarrow> Some Bid
     | Unknown \<Rightarrow>
         if bids b \<noteq> [] \<and> tradePrice \<le> fst (hd (bids b)) then Some Bid
         else if asks b \<noteq> [] \<and> tradePrice \<ge> fst (hd (asks b)) then Some Ask
         else None)"

definition applyTrade :: "Price \<Rightarrow> u64 \<Rightarrow> Aggressor \<Rightarrow> OrderBook \<Rightarrow> bool \<times> OrderBook" where
  "applyTrade tradePrice qty aggr b =
     (if qty = 0 then (False, b)
      else case passiveSide tradePrice aggr b of
        None \<Rightarrow> (False, b)
      | Some passive \<Rightarrow> (case consumeAtLevel passive tradePrice qty b of (consumed, b1) \<Rightarrow> (consumed > 0, b1)))"

fun addAll :: "Order list \<Rightarrow> OrderBook \<Rightarrow> OrderBook option" where
  "addAll [] b = Some b"
| "addAll (o1 # os) b = (case addImpl o1 b of None \<Rightarrow> None | Some (_, b1) \<Rightarrow> addAll os b1)"

definition applySnapshotPerOrder :: "Order list \<Rightarrow> OrderBook \<Rightarrow> OrderBook option" where
  "applySnapshotPerOrder os b = addAll os (clearPerOrderUnlocked b)"

fun aggAll :: "LevelSnapshotEntry list \<Rightarrow> OrderBook \<Rightarrow> OrderBook" where
  "aggAll [] b = b"
| "aggAll (e # es) b =
     (if e_totalSize e = 0 then aggAll es b
      else case getOrCreateAggLevel (e_side e) (e_price e) b of (l, b1) \<Rightarrow>
        aggAll es (putAggLevel (e_side e) (e_price e)
          (l \<lparr> agg_totalSize := e_totalSize e,
               agg_orderCount := (case e_orderCount e of Some c \<Rightarrow> c | None \<Rightarrow> 0) \<rparr>) b1))"

definition applySnapshotAggregated :: "LevelSnapshotEntry list \<Rightarrow> OrderBook \<Rightarrow> OrderBook" where
  "applySnapshotAggregated levels b = aggAll levels (clearAggregatedUnlocked b)"

definition applyLevelSummary ::
  "Side \<Rightarrow> Price \<Rightarrow> u64 \<Rightarrow> u32 option \<Rightarrow> OrderBook \<Rightarrow> bool \<times> OrderBook" where
  "applyLevelSummary side price tot orderCount b =
     (if tot = 0 then (True, set_ladderAgg side (AList.delete price (ladderAgg side b)) b)
      else case getOrCreateAggLevel side price b of (l, b1) \<Rightarrow>
        (agg_totalSize l \<noteq> tot \<or> (case orderCount of Some c \<Rightarrow> agg_orderCount l \<noteq> c | None \<Rightarrow> False),
         putAggLevel side price
           (l \<lparr> agg_totalSize := tot,
                agg_orderCount := (case orderCount of Some c \<Rightarrow> c | None \<Rightarrow> agg_orderCount l) \<rparr>) b1))"

section \<open>Queries\<close>

definition bestBid :: "OrderBook \<Rightarrow> Price option" where
  "bestBid b = (case bids b of [] \<Rightarrow> None | (p, _) # _ \<Rightarrow> Some p)"

definition bestAsk :: "OrderBook \<Rightarrow> Price option" where
  "bestAsk b = (case asks b of [] \<Rightarrow> None | (p, _) # _ \<Rightarrow> Some p)"

definition bestBidSize :: "OrderBook \<Rightarrow> u64" where
  "bestBidSize b = (case bids b of [] \<Rightarrow> 0 | (_, l) # _ \<Rightarrow> totalSize l)"

definition bestAskSize :: "OrderBook \<Rightarrow> u64" where
  "bestAskSize b = (case asks b of [] \<Rightarrow> 0 | (_, l) # _ \<Rightarrow> totalSize l)"

definition levelSize :: "Side \<Rightarrow> Price \<Rightarrow> OrderBook \<Rightarrow> u64" where
  "levelSize s price b = (case findLevel s price b of Some l \<Rightarrow> totalSize l | None \<Rightarrow> 0)"

definition bestBidAggregated :: "OrderBook \<Rightarrow> Price option" where
  "bestBidAggregated b = (case bidsAgg b of [] \<Rightarrow> None | (p, _) # _ \<Rightarrow> Some p)"

definition bestAskAggregated :: "OrderBook \<Rightarrow> Price option" where
  "bestAskAggregated b = (case asksAgg b of [] \<Rightarrow> None | (p, _) # _ \<Rightarrow> Some p)"

definition levelSizeAggregated :: "Side \<Rightarrow> Price \<Rightarrow> OrderBook \<Rightarrow> u64" where
  "levelSizeAggregated s price b =
     (case findAggLevel s price b of Some l \<Rightarrow> agg_totalSize l | None \<Rightarrow> 0)"

text \<open>The calls \<^verbatim>\<open>fn(price, size)\<close> that \<^verbatim>\<open>forEachLevel\<close> makes, in order.\<close>

definition forEachLevel :: "Side \<Rightarrow> u64 \<Rightarrow> OrderBook \<Rightarrow> (Price \<times> u64) list" where
  "forEachLevel s n b = map (\<lambda>(p, l). (p, totalSize l)) (take (unat n) (ladder s b))"

definition locate :: "OrderKey \<Rightarrow> OrderBook \<Rightarrow> (Side \<times> Price) option" where
  "locate key b = (case map_of (byId b) key of None \<Rightarrow> None | Some loc \<Rightarrow> Some (l_side loc, l_price loc))"

text \<open>
  \<^verbatim>\<open>checkInvariants\<close>: the outer \<^const>\<open>None\<close> is a dangling iterator; \<open>Some None\<close> is the answer
  true and \<open>Some (Some why)\<close> the answer false with its explanation.
\<close>

definition checkSide :: "(Price \<times> PriceLevel) list \<Rightarrow> bool" where
  "checkSide ld = list_all (\<lambda>(_, l). foldl (\<lambda>acc (_, o1). acc + o_size o1) 0 (orders l) = totalSize l) ld"

fun checkLocators :: "(OrderKey, Locator) umap \<Rightarrow> OrderBook \<Rightarrow> string option option" where
  "checkLocators [] b = Some None"
| "checkLocators ((k, loc) # m) b = (case findLevel (l_side loc) (l_price loc) b of
       None \<Rightarrow> Some (Some ''per-order: locator references missing level'')
     | Some lvl \<Rightarrow> (case map_of (orders lvl) (l_it loc) of
           None \<Rightarrow> None
         | Some o1 \<Rightarrow> if makeKeyFromOrder o1 \<noteq> k
                     then Some (Some ''per-order: locator iterator does not match key'')
                     else checkLocators m b))"

definition checkAgg :: "(Price \<times> LevelAgg) list \<Rightarrow> bool" where
  "checkAgg ld = list_all (\<lambda>(_, l). agg_totalSize l \<noteq> 0) ld"

definition checkInvariants :: "OrderBook \<Rightarrow> string option option" where
  "checkInvariants b =
     (if \<not> checkSide (bids b) \<or> \<not> checkSide (asks b)
      then Some (Some ''per-order: level.totalSize mismatch with order sum'')
      else case checkLocators (byId b) b of
        Some None \<Rightarrow>
          if \<not> checkAgg (bidsAgg b) \<or> \<not> checkAgg (asksAgg b)
          then Some (Some ''aggregated: zero-size level present'') else Some None
      | r \<Rightarrow> r)"

end
