(* ===== verification/Order_Book_Inv.thy ===== *)
theory Order_Book_Inv
  imports Order_Book
begin

text \<open>
  The representation invariant of the order book and its preservation. The state of a book is
  seen through two functions: \<open>findLevel\<close>, the ladders, and \<open>deref\<close>, the order an iterator
  points to. The index \<open>byId\<close> is correct when it is the inverse of \<open>deref\<close> (\<open>index_ok\<close>); each
  level is correct when its nodes are distinct and allocated, carry the side and price of the
  level, and its \<open>totalSize\<close> is the exact sum of the sizes (\<open>level_ok\<close>).
\<close>

section \<open>Ladders\<close>

interpretation side_order: key_order "side_lt s" for s
  by unfold_locales (cases s; auto)+

lemma ladder_set_ladder [simp]: "ladder s (set_ladder s' l b) = (if s = s' then l else ladder s b)"
  by (cases s; cases s') auto

lemma set_ladder_frame [simp]:
  "byId (set_ladder s l b) = byId b" "next_node (set_ladder s l b) = next_node b"
  "synthCounters (set_ladder s l b) = synthCounters b"
  "ladderAgg s' (set_ladder s l b) = ladderAgg s' b"
  by (cases s; cases s'; simp)+

lemma set_ladder_twice [simp]: "set_ladder s l (set_ladder s l' b) = set_ladder s l b"
  by (cases s) auto

lemma set_ladder_byId [simp]:
  "set_ladder s l (b\<lparr>byId := m\<rparr>) = (set_ladder s l b)\<lparr>byId := m\<rparr>"
  "set_ladder s l (b\<lparr>next_node := n\<rparr>) = (set_ladder s l b)\<lparr>next_node := n\<rparr>"
  by (cases s; simp)+

lemma ladder_frame [simp]:
  "ladder s (b\<lparr>byId := m\<rparr>) = ladder s b" "ladder s (b\<lparr>next_node := n\<rparr>) = ladder s b"
  "ladder s (b\<lparr>synthCounters := c\<rparr>) = ladder s b" "ladder s (b\<lparr>bidsAgg := x\<rparr>) = ladder s b"
  "ladder s (b\<lparr>asksAgg := x\<rparr>) = ladder s b"
  by (cases s; simp)+

lemma ladder_set_ladderAgg [simp]: "ladder s (set_ladderAgg s' l b) = ladder s b"
  by (cases s; cases s') auto

definition ladders_sorted :: "OrderBook \<Rightarrow> bool" where
  "ladders_sorted b \<longleftrightarrow> om_wf (side_lt Bid) (bids b) \<and> om_wf (side_lt Ask) (asks b)"

lemma ladders_sortedD: "ladders_sorted b \<Longrightarrow> om_wf (side_lt s) (ladder s b)"
  by (cases s) (auto simp: ladders_sorted_def)

lemma ladders_sortedI: "(\<And>s. om_wf (side_lt s) (ladder s b)) \<Longrightarrow> ladders_sorted b"
  unfolding ladders_sorted_def by (metis ladder.simps)

named_theorems level_simps \<open>look-up of levels after the level operations\<close>

lemma findLevel_frame [level_simps]:
  "findLevel s p (b\<lparr>byId := m\<rparr>) = findLevel s p b" "findLevel s p (b\<lparr>next_node := n\<rparr>) = findLevel s p b"
  "findLevel s p (b\<lparr>synthCounters := c\<rparr>) = findLevel s p b"
  by (simp_all add: findLevel_def)

lemma findLevel_putLevel [level_simps]:
  "ladders_sorted b \<Longrightarrow>
    findLevel s p (putLevel s' p' l b) = (if s = s' \<and> p = p' then Some l else findLevel s p b)"
  using side_order.find_set [OF ladders_sortedD] by (auto simp: findLevel_def putLevel_def)

lemma sorted_frame [level_simps]:
  "ladders_sorted (b\<lparr>byId := m\<rparr>) = ladders_sorted b" "ladders_sorted (b\<lparr>next_node := n\<rparr>) = ladders_sorted b"
  "ladders_sorted (b\<lparr>synthCounters := c\<rparr>) = ladders_sorted b"
  by (simp_all add: ladders_sorted_def)

lemma sorted_putLevel [level_simps]: "ladders_sorted b \<Longrightarrow> ladders_sorted (putLevel s p l b)"
  by (rule ladders_sortedI) (auto simp: putLevel_def ladders_sortedD intro!: side_order.wf_set)

lemma putLevel_frame [level_simps]:
  "byId (putLevel s p l b) = byId b" "next_node (putLevel s p l b) = next_node b"
  "synthCounters (putLevel s p l b) = synthCounters b"
  "ladderAgg s' (putLevel s p l b) = ladderAgg s' b"
  by (simp_all add: putLevel_def)

lemma putLevel_byId [level_simps]:
  "putLevel s p l (b\<lparr>byId := m\<rparr>) = (putLevel s p l b)\<lparr>byId := m\<rparr>"
  by (simp add: putLevel_def)

lemma om_set_twice: "om_wf (side_lt s) m \<Longrightarrow> om_set (side_lt s) k v (om_set (side_lt s) k w m) = om_set (side_lt s) k v m"
  by (induction m) (auto simp: side_order.lt_irrefl)

lemma putLevel_twice [level_simps]:
  "ladders_sorted b \<Longrightarrow> putLevel s p l (putLevel s p l' b) = putLevel s p l b"
  by (simp add: putLevel_def om_set_twice ladders_sortedD)

lemma sorted_eraseLevel [level_simps]: "ladders_sorted b \<Longrightarrow> ladders_sorted (eraseLevelIfEmpty s p b)"
  by (auto simp: eraseLevelIfEmpty_def ladders_sortedD split: option.split
      intro!: ladders_sortedI side_order.wf_delete)

lemma eraseLevel_frame [level_simps]:
  "byId (eraseLevelIfEmpty s p b) = byId b" "next_node (eraseLevelIfEmpty s p b) = next_node b"
  "synthCounters (eraseLevelIfEmpty s p b) = synthCounters b"
  "ladderAgg s' (eraseLevelIfEmpty s p b) = ladderAgg s' b"
  by (simp_all add: eraseLevelIfEmpty_def split: option.split)

lemma findLevel_eraseLevel [level_simps]:
  "findLevel s p (eraseLevelIfEmpty s' p' b) =
     (case findLevel s p b of
        Some l \<Rightarrow> if s = s' \<and> p = p' \<and> orders l = [] then None else Some l
      | None \<Rightarrow> None)"
  by (auto simp: eraseLevelIfEmpty_def findLevel_def delete_conv' split: option.splits)

section \<open>The invariant\<close>

definition deref :: "OrderBook \<Rightarrow> Locator \<Rightarrow> Order option" where
  "deref b loc = (case findLevel (l_side loc) (l_price loc) b of
     None \<Rightarrow> None | Some l \<Rightarrow> map_of (orders l) (l_it loc))"

definition lsum :: "(node \<times> Order) list \<Rightarrow> nat" where
  "lsum os = sum_list (map (\<lambda>(_, o1). unat (o_size o1)) os)"

definition level_ok :: "Side \<Rightarrow> Price \<Rightarrow> node \<Rightarrow> PriceLevel \<Rightarrow> bool" where
  "level_ok s p nx l \<longleftrightarrow> um_wf (orders l) \<and>
     list_all (\<lambda>(n, o1). n < nx \<and> o_side o1 = s \<and> o_price o1 = p) (orders l) \<and>
     unat (totalSize l) = lsum (orders l)"

definition index_ok :: "(Locator \<Rightarrow> Order option) \<Rightarrow> (OrderKey \<Rightarrow> Locator option) \<Rightarrow> bool" where
  "index_ok D M \<longleftrightarrow> (\<forall>k loc. M k = Some loc \<longleftrightarrow> (\<exists>o1. D loc = Some o1 \<and> makeKeyFromOrder o1 = k))"

text \<open>The invariant inside an operation, where the level being worked on may be empty.\<close>

definition book_core :: "OrderBook \<Rightarrow> bool" where
  "book_core b \<longleftrightarrow> ladders_sorted b \<and> um_wf (byId b) \<and>
     (\<forall>s p l. findLevel s p b = Some l \<longrightarrow> level_ok s p (next_node b) l) \<and>
     index_ok (deref b) (map_of (byId b))"

definition no_empty :: "OrderBook \<Rightarrow> bool" where
  "no_empty b \<longleftrightarrow> (\<forall>s p l. findLevel s p b = Some l \<longrightarrow> orders l \<noteq> [])"

text \<open>
  The representation invariant, in an executable form: ladders sorted, keys of the index unique,
  levels correct and non-empty, every index entry points to an order with that key, and every
  order in a level is indexed.
\<close>

definition ladder_ok :: "Side \<Rightarrow> OrderBook \<Rightarrow> bool" where
  "ladder_ok s b \<longleftrightarrow> om_wf (side_lt s) (ladder s b) \<and>
     list_all (\<lambda>(p, l). level_ok s p (next_node b) l \<and> orders l \<noteq> [] \<and>
       list_all (\<lambda>(n, o1). map_of (byId b) (makeKeyFromOrder o1)
          = Some \<lparr> l_side = s, l_price = p, l_it = n \<rparr>) (orders l)) (ladder s b)"

definition book_inv :: "OrderBook \<Rightarrow> bool" where
  "book_inv b \<longleftrightarrow> ladder_ok Bid b \<and> ladder_ok Ask b \<and> um_wf (byId b) \<and>
     list_all (\<lambda>(k, loc). case deref b loc of None \<Rightarrow> False | Some o1 \<Rightarrow> makeKeyFromOrder o1 = k) (byId b)"

definition agg_inv :: "OrderBook \<Rightarrow> bool" where
  "agg_inv b \<longleftrightarrow> om_wf (side_lt Bid) (bidsAgg b) \<and> om_wf (side_lt Ask) (asksAgg b) \<and>
     checkAgg (bidsAgg b) \<and> checkAgg (asksAgg b)"

lemma om_find_mem: "om_wf (side_lt s) m \<Longrightarrow> map_of m k = Some v \<longleftrightarrow> (k, v) \<in> set m"
  by (simp add: side_order.wf_distinct)

lemma book_inv_imp_core:
  assumes "book_inv b"
  shows "book_core b" and "no_empty b"
proof -
  have lad: "ladder_ok s b" for s using assms by (cases s) (simp_all add: book_inv_def)
  have sorted: "ladders_sorted b" using lad by (auto simp: ladder_ok_def intro: ladders_sortedI)
  have lv: "level_ok s p (next_node b) l \<and> orders l \<noteq> [] \<and>
      (\<forall>(n, o1) \<in> set (orders l). map_of (byId b) (makeKeyFromOrder o1) = Some \<lparr>l_side = s, l_price = p, l_it = n\<rparr>)"
    if "findLevel s p b = Some l" for s p l
    using lad [of s] that by (auto simp: ladder_ok_def findLevel_def list_all_iff dest!: map_of_SomeD)
  have wf: "um_wf (byId b)" using assms by (simp add: book_inv_def)
  have "index_ok (deref b) (map_of (byId b))" unfolding index_ok_def
  proof (intro allI iffI)
    fix k loc assume "map_of (byId b) k = Some loc"
    then have "(k, loc) \<in> set (byId b)" by (rule map_of_SomeD)
    then show "\<exists>o1. deref b loc = Some o1 \<and> makeKeyFromOrder o1 = k"
      using assms by (fastforce simp: book_inv_def list_all_iff split: option.splits)
  next
    fix k loc assume "\<exists>o1. deref b loc = Some o1 \<and> makeKeyFromOrder o1 = k"
    then show "map_of (byId b) k = Some loc"
      by (cases loc) (fastforce simp: deref_def dest: lv map_of_SomeD split: option.splits)
  qed
  then show "book_core b" using sorted wf lv by (simp add: book_core_def)
  show "no_empty b" using lv by (simp add: no_empty_def)
qed

lemma core_imp_book_inv:
  assumes core: "book_core b" and ne: "no_empty b"
  shows "book_inv b"
proof -
  have sorted: "om_wf (side_lt s) (ladder s b)" for s
    using core by (auto simp: book_core_def ladders_sortedD)
  have find: "findLevel s p b = Some l" if "(p, l) \<in> set (ladder s b)" for s p l
    using that by (simp add: findLevel_def om_find_mem [OF sorted])
  have idx: "index_ok (deref b) (map_of (byId b))" using core by (simp add: book_core_def)
  have lad: "ladder_ok s b" for s unfolding ladder_ok_def list_all_iff
  proof (intro conjI sorted ballI, clarify)
    fix p l assume "(p, l) \<in> set (ladder s b)"
    then have f: "findLevel s p b = Some l" by (rule find)
    then have lo: "level_ok s p (next_node b) l" and "orders l \<noteq> []"
      using core ne by (auto simp: book_core_def no_empty_def)
    moreover have "map_of (byId b) (makeKeyFromOrder o1) = Some \<lparr>l_side = s, l_price = p, l_it = n\<rparr>"
      if "(n, o1) \<in> set (orders l)" for n o1
    proof -
      have "map_of (orders l) n = Some o1" using lo that by (simp add: level_ok_def)
      then have "deref b \<lparr>l_side = s, l_price = p, l_it = n\<rparr> = Some o1" using f by (simp add: deref_def)
      then show ?thesis using idx unfolding index_ok_def by blast
    qed
    ultimately show "level_ok s p (next_node b) l \<and> orders l \<noteq> [] \<and>
        (\<forall>x\<in>set (orders l). case x of (n, o1) \<Rightarrow>
           map_of (byId b) (makeKeyFromOrder o1) = Some \<lparr>l_side = s, l_price = p, l_it = n\<rparr>)" by auto
  qed
  have "case deref b loc of None \<Rightarrow> False | Some o1 \<Rightarrow> makeKeyFromOrder o1 = k"
    if "(k, loc) \<in> set (byId b)" for k loc
  proof -
    have "map_of (byId b) k = Some loc" using that core by (simp add: book_core_def)
    then show ?thesis using idx unfolding index_ok_def by fastforce
  qed
  then show ?thesis using lad core by (auto simp: book_inv_def book_core_def list_all_iff)
qed

lemma book_inv_iff: "book_inv b \<longleftrightarrow> book_core b \<and> no_empty b"
  using book_inv_imp_core core_imp_book_inv by blast

section \<open>The index as the inverse of dereferencing\<close>

lemma index_ok_remove:
  "index_ok D M \<Longrightarrow> D loc = Some o1 \<Longrightarrow> index_ok (D(loc := None)) (M(makeKeyFromOrder o1 := None))"
  unfolding index_ok_def fun_upd_apply by (metis option.distinct(1) option.inject)

lemma index_ok_insert:
  "index_ok D M \<Longrightarrow> M (makeKeyFromOrder o1) = None \<Longrightarrow> D loc = None \<Longrightarrow>
    index_ok (D(loc \<mapsto> o1)) (M(makeKeyFromOrder o1 \<mapsto> loc))"
  unfolding index_ok_def fun_upd_apply by (metis option.distinct(1) option.inject)

lemma index_ok_modify:
  "index_ok D M \<Longrightarrow> D loc = Some o1 \<Longrightarrow> makeKeyFromOrder o2 = makeKeyFromOrder o1 \<Longrightarrow>
    index_ok (D(loc \<mapsto> o2)) M"
  unfolding index_ok_def fun_upd_apply by (metis option.inject)

lemma lsum_simps [simp]:
  "lsum [] = 0" "lsum ((n, o1) # os) = unat (o_size o1) + lsum os" "lsum (os @ os') = lsum os + lsum os'"
  by (simp_all add: lsum_def)

lemma lsum_delete:
  "um_wf os \<Longrightarrow> map_of os n = Some o1 \<Longrightarrow> lsum os = unat (o_size o1) + lsum (AList.delete n os)"
  unfolding lsum_def by (rule sum_list_delete)

lemma lsum_update:
  "um_wf os \<Longrightarrow> map_of os n = Some o1 \<Longrightarrow>
    lsum (AList.update n o2 os) + unat (o_size o1) = lsum os + unat (o_size o2)"
proof (induction os)
  case (Cons x os)
  then show ?case by (cases x) (auto split: if_splits)
qed simp

lemma coreD:
  assumes "book_core b"
  shows "ladders_sorted b" "um_wf (byId b)" "index_ok (deref b) (map_of (byId b))"
    "findLevel s p b = Some l \<Longrightarrow> level_ok s p (next_node b) l"
  using assms by (simp_all add: book_core_def)

lemma coreI:
  assumes "ladders_sorted b" "um_wf (byId b)" "index_ok (deref b) (map_of (byId b))"
    "\<And>s p l. findLevel s p b = Some l \<Longrightarrow> level_ok s p (next_node b) l"
  shows "book_core b"
  using assms by (simp add: book_core_def)

text \<open>What the index says about the order a key names.\<close>

lemma core_locate:
  assumes "book_core b" and "map_of (byId b) k = Some loc"
  obtains l o1 where "findLevel (l_side loc) (l_price loc) b = Some l"
    and "map_of (orders l) (l_it loc) = Some o1" and "deref b loc = Some o1"
    and "makeKeyFromOrder o1 = k" and "o_side o1 = l_side loc" and "o_price o1 = l_price loc"
    and "o_size o1 \<le> totalSize l"
proof -
  obtain o1 where o1: "deref b loc = Some o1" "makeKeyFromOrder o1 = k"
    using assms coreD(3) unfolding index_ok_def by blast
  then obtain l where l: "findLevel (l_side loc) (l_price loc) b = Some l" "map_of (orders l) (l_it loc) = Some o1"
    by (auto simp: deref_def split: option.splits)
  have lo: "level_ok (l_side loc) (l_price loc) (next_node b) l" using assms(1) l(1) by (rule coreD(4))
  then have "unat (o_size o1) \<le> unat (totalSize l)"
    using lsum_delete [of "orders l", OF _ l(2)] by (simp add: level_ok_def)
  then have "o_size o1 \<le> totalSize l" by (simp add: word_le_nat_alt)
  moreover have "o_side o1 = l_side loc \<and> o_price o1 = l_price loc"
    using lo l(2) by (auto simp: level_ok_def list_all_iff dest: map_of_SomeD)
  ultimately show ?thesis using that l o1 by blast
qed

text \<open>An order in a level is found through the index.\<close>

lemma core_indexed:
  assumes "book_core b" "findLevel s p b = Some l" "map_of (orders l) n = Some o1"
  shows "map_of (byId b) (makeKeyFromOrder o1) = Some \<lparr>l_side = s, l_price = p, l_it = n\<rparr>"
proof -
  have "deref b \<lparr>l_side = s, l_price = p, l_it = n\<rparr> = Some o1" using assms by (simp add: deref_def)
  then show ?thesis using coreD(3) [OF assms(1)] unfolding index_ok_def by blast
qed

section \<open>Dereferencing after the level operations\<close>

lemma deref_frame [level_simps]:
  "deref (b\<lparr>byId := m\<rparr>) = deref b" "deref (b\<lparr>next_node := n\<rparr>) = deref b"
  "deref (b\<lparr>synthCounters := c\<rparr>) = deref b"
  by (simp_all add: deref_def level_simps fun_eq_iff)

lemma deref_putLevel:
  assumes "ladders_sorted b" "findLevel s p b = Some l" "map_of os' = (map_of (orders l))(n := x)"
  shows "deref (putLevel s p (l\<lparr>orders := os', totalSize := t\<rparr>) b) =
    (deref b)(\<lparr>l_side = s, l_price = p, l_it = n\<rparr> := x)"
  using assms by (auto simp: deref_def level_simps fun_eq_iff)

lemma deref_putLevel_new:
  assumes "ladders_sorted b" "findLevel s p b = None" "map_of os' = Map.empty(n := x)"
  shows "deref (putLevel s p \<lparr>orders = os', totalSize = t\<rparr> b) =
    (deref b)(\<lparr>l_side = s, l_price = p, l_it = n\<rparr> := x)"
  using assms by (auto simp: deref_def level_simps fun_eq_iff)

lemma deref_eraseLevel [level_simps]: "deref (eraseLevelIfEmpty s p b) = deref b"
  by (auto simp: deref_def level_simps fun_eq_iff split: option.splits)

section \<open>The elementary changes\<close>

text \<open>Removing a node together with its index entry.\<close>

lemma core_remove:
  assumes core: "book_core b" and f: "findLevel s p b = Some l" and o1: "map_of (orders l) n = Some o1"
  shows "book_core ((putLevel s p (l\<lparr>orders := AList.delete n (orders l), totalSize := totalSize l - o_size o1\<rparr>) b)
    \<lparr>byId := AList.delete (makeKeyFromOrder o1) (byId b)\<rparr>)"
    (is "book_core (?b1\<lparr>byId := _\<rparr>)")
proof (rule coreI)
  have lo: "level_ok s p (next_node b) l" using core f by (rule coreD(4))
  let ?l = "l\<lparr>orders := AList.delete n (orders l), totalSize := totalSize l - o_size o1\<rparr>"
  have sum: "lsum (orders l) = unat (o_size o1) + lsum (AList.delete n (orders l))"
    using lo o1 by (intro lsum_delete) (simp_all add: level_ok_def)
  then have "o_size o1 \<le> totalSize l" using lo by (simp add: level_ok_def word_le_nat_alt)
  then have "level_ok s p (next_node b) ?l"
    using lo sum by (auto simp: level_ok_def list_all_iff u64_simps)
  then show "level_ok s' p' (next_node (?b1\<lparr>byId := AList.delete (makeKeyFromOrder o1) (byId b)\<rparr>)) l'"
    if "findLevel s' p' (?b1\<lparr>byId := AList.delete (makeKeyFromOrder o1) (byId b)\<rparr>) = Some l'" for s' p' l'
    using that core by (auto simp: level_simps coreD split: if_splits)
  have "deref b \<lparr>l_side = s, l_price = p, l_it = n\<rparr> = Some o1" using f o1 by (simp add: deref_def)
  from index_ok_remove [OF coreD(3) [OF core] this]
  show "index_ok (deref (?b1\<lparr>byId := AList.delete (makeKeyFromOrder o1) (byId b)\<rparr>))
     (map_of (byId (?b1\<lparr>byId := AList.delete (makeKeyFromOrder o1) (byId b)\<rparr>)))"
    by (simp add: level_simps umap_simps deref_putLevel [OF coreD(1) [OF core] f])
qed (use core in \<open>auto simp: level_simps coreD\<close>)

text \<open>Replacing the order of a node, in place or moved to the back.\<close>

lemma core_modify:
  assumes core: "book_core b" and f: "findLevel s p b = Some l" and o1: "map_of (orders l) n = Some o1"
    and os: "map_of os' = (map_of (orders l))(n \<mapsto> o2)" "um_wf os'" "lsum os' = unat t"
    and o2: "makeKeyFromOrder o2 = makeKeyFromOrder o1" "o_side o2 = o_side o1" "o_price o2 = o_price o1"
  shows "book_core (putLevel s p (l\<lparr>orders := os', totalSize := t\<rparr>) b)"
proof (rule coreI)
  have lo: "level_ok s p (next_node b) l" using core f by (rule coreD(4))
  have old: "n' < next_node b \<and> o_side o' = s \<and> o_price o' = p" if "map_of (orders l) n' = Some o'" for n' o'
    using lo that by (auto simp: level_ok_def list_all_iff dest: map_of_SomeD)
  have "n' < next_node b \<and> o_side o' = s \<and> o_price o' = p" if "(n', o') \<in> set os'" for n' o'
  proof -
    have "((map_of (orders l))(n \<mapsto> o2)) n' = Some o'" using that os by (metis map_of_eq_Some_iff)
    then show ?thesis using old o1 o2 by (cases "n' = n") auto
  qed
  then have "level_ok s p (next_node b) (l\<lparr>orders := os', totalSize := t\<rparr>)"
    using os by (auto simp: level_ok_def list_all_iff)
  then show "level_ok s' p' (next_node (putLevel s p (l\<lparr>orders := os', totalSize := t\<rparr>) b)) l'"
    if "findLevel s' p' (putLevel s p (l\<lparr>orders := os', totalSize := t\<rparr>) b) = Some l'" for s' p' l'
    using that core by (auto simp: level_simps coreD split: if_splits)
  have "deref b \<lparr>l_side = s, l_price = p, l_it = n\<rparr> = Some o1" using f o1 by (simp add: deref_def)
  from index_ok_modify [OF coreD(3) [OF core] this o2(1)]
  show "index_ok (deref (putLevel s p (l\<lparr>orders := os', totalSize := t\<rparr>) b))
     (map_of (byId (putLevel s p (l\<lparr>orders := os', totalSize := t\<rparr>) b)))"
    by (simp add: level_simps deref_putLevel [OF coreD(1) [OF core] f os(1)])
qed (use core in \<open>auto simp: level_simps coreD\<close>)

end
