(* ===== verification/Order_Book_Spec.thy ===== *)
theory Order_Book_Spec
  imports Order_Book_Inv
begin

text \<open>
  What the order book promises, and that the code keeps the promise. The abstract book maps a
  side and a price to the queue of the orders resting there, oldest first. Each operation of the
  abstract book is one line; the lemmas \<open>*_refines\<close> show, from the representation invariant, that
  the code follows valid iterators only, keeps the invariant, and changes the abstract book by
  exactly that operation.
\<close>

section \<open>The abstract book\<close>

type_synonym spec_book = "Side \<Rightarrow> Price \<Rightarrow> Order list"

definition book_view :: "OrderBook \<Rightarrow> spec_book" where
  "book_view b s p = (case findLevel s p b of None \<Rightarrow> [] | Some l \<Rightarrow> map snd (orders l))"

definition spec_delete :: "OrderKey \<Rightarrow> spec_book \<Rightarrow> spec_book" where
  "spec_delete k A = (\<lambda>s p. filter (\<lambda>o1. makeKeyFromOrder o1 \<noteq> k) (A s p))"

definition spec_add :: "Order \<Rightarrow> spec_book \<Rightarrow> spec_book" where
  "spec_add o1 A = (\<lambda>s p. spec_delete (makeKeyFromOrder o1) A s p @
     (if s = o_side o1 \<and> p = o_price o1 then [o1] else []))"

definition spec_resize :: "OrderKey \<Rightarrow> u64 \<Rightarrow> spec_book \<Rightarrow> spec_book" where
  "spec_resize k z A = (\<lambda>s p. map (\<lambda>o1. if makeKeyFromOrder o1 = k then o1\<lparr>o_size := z\<rparr> else o1) (A s p))"

definition spec_move_back :: "OrderKey \<Rightarrow> u64 \<Rightarrow> spec_book \<Rightarrow> spec_book" where
  "spec_move_back k q A = (\<lambda>s p. spec_delete k A s p @
     map (\<lambda>o1. o1\<lparr>o_priority := q\<rparr>) (filter (\<lambda>o1. makeKeyFromOrder o1 = k) (A s p)))"

text \<open>A trade of \<open>q\<close> fills a queue from the front.\<close>

fun fill :: "nat \<Rightarrow> Order list \<Rightarrow> Order list" where
  "fill q [] = []"
| "fill q (o1 # os) =
     (if q = 0 then o1 # os
      else if unat (o_size o1) \<le> q then fill (q - unat (o_size o1)) os
      else o1\<lparr>o_size := o_size o1 - of_nat q\<rparr> # os)"

definition qsum :: "Order list \<Rightarrow> nat" where
  "qsum os = sum_list (map (\<lambda>o1. unat (o_size o1)) os)"

definition spec_fill :: "Side \<Rightarrow> Price \<Rightarrow> nat \<Rightarrow> spec_book \<Rightarrow> spec_book" where
  "spec_fill s p q A = A(s := (A s)(p := fill q (A s p)))"

definition spec_empty :: spec_book where
  "spec_empty = (\<lambda>_ _. [])"

text \<open>The amount resting on a level, and the absence of overflow when an order joins it.\<close>

definition fits :: "Order \<Rightarrow> OrderBook \<Rightarrow> bool" where
  "fits o1 b \<longleftrightarrow> unat (levelSize (o_side o1) (o_price o1) b) + unat (o_size o1) < 2 ^ 64"

lemma qsum_simps [simp]: "qsum [] = 0" "qsum (o1 # os) = unat (o_size o1) + qsum os"
  by (simp_all add: qsum_def)

lemma qsum_map_snd: "qsum (map snd os) = lsum os"
  by (induction os) auto

lemma view_level: "findLevel s p b = Some l \<Longrightarrow> book_view b s p = map snd (orders l)"
  by (simp add: book_view_def)

lemma view_frame [level_simps]:
  "book_view (b\<lparr>byId := m\<rparr>) = book_view b" "book_view (b\<lparr>next_node := n\<rparr>) = book_view b"
  "book_view (b\<lparr>synthCounters := c\<rparr>) = book_view b"
  "book_view (eraseLevelIfEmpty s p b) = book_view b"
  by (auto simp: book_view_def level_simps fun_eq_iff split: option.splits)

lemma view_putLevel [level_simps]:
  "ladders_sorted b \<Longrightarrow> book_view (putLevel s p l b) = (book_view b)(s := (book_view b s)(p := map snd (orders l)))"
  by (auto simp: book_view_def level_simps fun_eq_iff)

text \<open>\<open>levelSize\<close> is the exact sum of the sizes in the queue.\<close>

lemma core_levelSize: "book_core b \<Longrightarrow> unat (levelSize s p b) = qsum (book_view b s p)"
  using coreD(4) [of b s p] by (auto simp: levelSize_def book_view_def level_ok_def qsum_map_snd split: option.splits)

text \<open>Orders of one level have distinct keys; other levels hold other keys.\<close>

lemma view_key_unique:
  assumes core: "book_core b" and f: "findLevel s p b = Some l" and o1: "map_of (orders l) n = Some o1"
  shows "spec_delete (makeKeyFromOrder o1) (book_view b) =
    (book_view b)(s := (book_view b s)(p := map snd (AList.delete n (orders l))))"
proof (intro ext)
  fix s' p'
  have uniq: "n' = n \<and> s' = s \<and> p' = p"
    if "findLevel s' p' b = Some l'" "(n', o') \<in> set (orders l')" "makeKeyFromOrder o' = makeKeyFromOrder o1" for l' n' o'
  proof -
    have "map_of (orders l') n' = Some o'"
      using that coreD(4) [OF core that(1)] by (simp add: level_ok_def)
    from core_indexed [OF core that(1) this] core_indexed [OF core f o1] that(3) show ?thesis by simp
  qed
  show "spec_delete (makeKeyFromOrder o1) (book_view b) s' p' =
    ((book_view b)(s := (book_view b s)(p := map snd (AList.delete n (orders l))))) s' p'"
  proof (cases "findLevel s' p' b")
    case None
    then show ?thesis using f by (auto simp: spec_delete_def book_view_def)
  next
    case (Some l')
    show ?thesis
    proof (cases "s' = s \<and> p' = p")
      case True
      then have l': "l' = l" using Some f by simp
      have nd: "um_wf (orders l)" using coreD(4) [OF core f] by (simp add: level_ok_def)
      have "(makeKeyFromOrder (snd x) \<noteq> makeKeyFromOrder o1) = (fst x \<noteq> n)" if "x \<in> set (orders l)" for x
      proof -
        have "map_of (orders l) (fst x) = Some (snd x)" using that nd by simp
        then show ?thesis using uniq [OF Some, of "fst x" "snd x"] that o1 by (auto simp: l')
      qed
      then have "filter (\<lambda>x. makeKeyFromOrder (snd x) \<noteq> makeKeyFromOrder o1) (orders l) = AList.delete n (orders l)"
        by (auto simp: AList.delete_eq intro!: filter_cong)
      then show ?thesis using True f
        by (simp add: spec_delete_def book_view_def filter_map o_def)
    next
      case False
      then have "filter (\<lambda>o1'. makeKeyFromOrder o1' \<noteq> makeKeyFromOrder o1) (map snd (orders l')) = map snd (orders l')"
        using uniq [OF Some] by (force simp: filter_id_conv)
      then show ?thesis using False Some by (auto simp: spec_delete_def book_view_def)
    qed
  qed
qed

lemma view_no_key:
  assumes core: "book_core b" and k: "map_of (byId b) k = None"
  shows "spec_delete k (book_view b) = book_view b"
proof (intro ext)
  fix s p
  have "makeKeyFromOrder o1 \<noteq> k" if "findLevel s p b = Some l" "(n, o1) \<in> set (orders l)" for l n o1
  proof -
    have "map_of (orders l) n = Some o1" using that coreD(4) [OF core that(1)] by (simp add: level_ok_def)
    from core_indexed [OF core that(1) this] k show ?thesis by auto
  qed
  then show "spec_delete k (book_view b) s p = book_view b s p"
    by (force simp: spec_delete_def book_view_def filter_id_conv split: option.split)
qed

section \<open>Deletion\<close>

lemma no_empty_frame [level_simps]:
  "no_empty (b\<lparr>byId := m\<rparr>) = no_empty b" "no_empty (b\<lparr>synthCounters := c\<rparr>) = no_empty b"
  by (simp_all add: no_empty_def level_simps)

lemma no_empty_erase:
  "ladders_sorted b \<Longrightarrow> no_empty b \<Longrightarrow> no_empty (eraseLevelIfEmpty s p (putLevel s p l b))"
  by (auto simp: no_empty_def level_simps split: option.splits if_splits)

lemma core_erase: "book_core b \<Longrightarrow> book_core (eraseLevelIfEmpty s p b)"
  by (rule coreI) (auto simp: level_simps coreD split: option.splits if_splits)

lemma eraseLevel_byId: "eraseLevelIfEmpty s p (b\<lparr>byId := m\<rparr>) = (eraseLevelIfEmpty s p b)\<lparr>byId := m\<rparr>"
  by (simp add: eraseLevelIfEmpty_def level_simps split: option.split)

text \<open>Unlinking the node of a located order and dropping its index entry.\<close>

lemma unlink_refines:
  assumes core: "book_core b" and ne: "no_empty b" and f: "findLevel s p b = Some l"
    and o1: "map_of (orders l) n = Some o1" and le: "o_size o1 \<le> totalSize l"
  defines "b1 \<equiv> unlink s p l n (o_size o1) p b"
  shows "book_core (b1\<lparr>byId := AList.delete (makeKeyFromOrder o1) (byId b)\<rparr>)"
    and "no_empty b1" and "byId b1 = byId b" and "next_node b1 = next_node b"
    and "synthCounters b1 = synthCounters b"
    and "book_view b1 = spec_delete (makeKeyFromOrder o1) (book_view b)"
proof -
  have b1: "b1 = eraseLevelIfEmpty s p
      (putLevel s p (l\<lparr>orders := AList.delete n (orders l), totalSize := totalSize l - o_size o1\<rparr>) b)"
    using le by (simp add: b1_def unlink_def)
  show "book_core (b1\<lparr>byId := AList.delete (makeKeyFromOrder o1) (byId b)\<rparr>)"
    using core_erase [OF core_remove [OF core f o1]] by (simp add: b1 eraseLevel_byId)
  show "no_empty b1" unfolding b1 using coreD(1) [OF core] ne by (rule no_empty_erase)
  show "book_view b1 = spec_delete (makeKeyFromOrder o1) (book_view b)"
    by (simp add: b1 level_simps coreD(1) [OF core] view_key_unique [OF core f o1])
qed (simp_all add: b1_def unlink_def level_simps)

lemma deleteImpl_refines:
  assumes "book_inv b"
  obtains b' where "deleteImpl k b = Some (map_of (byId b) k \<noteq> None, b')" and "book_inv b'"
    and "book_view b' = spec_delete k (book_view b)"
    and "map_of (byId b') = (map_of (byId b))(k := None)"
    and "next_node b' = next_node b" and "synthCounters b' = synthCounters b"
proof (cases "map_of (byId b) k")
  case None
  then show ?thesis using assms that [of b]
    by (simp add: deleteImpl_def view_no_key book_inv_iff fun_upd_idem)
next
  case (Some loc)
  have core: "book_core b" and ne: "no_empty b" using assms by (simp_all add: book_inv_iff)
  obtain l o1 where l: "findLevel (l_side loc) (l_price loc) b = Some l" "map_of (orders l) (l_it loc) = Some o1"
    "makeKeyFromOrder o1 = k" "o_size o1 \<le> totalSize l"
    using core_locate [OF core Some] by metis
  note u = unlink_refines [OF core ne l(1,2,4)]
  show ?thesis
    by (rule that [of "(unlink (l_side loc) (l_price loc) l (l_it loc) (o_size o1) (l_price loc) b)
          \<lparr>byId := AList.delete k (byId b)\<rparr>"])
      (use u l in \<open>simp_all add: Some deleteImpl_def book_inv_iff level_simps umap_simps\<close>)
qed

section \<open>Insertion\<close>

lemma push_back_eq:
  assumes "ladders_sorted b"
  shows "push_back s p o1 b = (next_node b,
    putLevel s p \<lparr>orders = (case findLevel s p b of None \<Rightarrow> [] | Some l \<Rightarrow> orders l) @ [(next_node b, o1)],
                  totalSize = levelSize s p b + o_size o1\<rparr> (b\<lparr>next_node := next_node b + 1\<rparr>))"
proof (cases "findLevel s p b")
  case None
  have "(putLevel s p l b)\<lparr>next_node := n\<rparr> = putLevel s p l (b\<lparr>next_node := n\<rparr>)" for l n
    by (simp add: putLevel_def)
  then show ?thesis using None assms
    by (simp add: push_back_def getOrCreateLevel_def levelSize_def level_simps Let_def)
next
  case (Some l)
  then show ?thesis by (cases l) (simp add: push_back_def getOrCreateLevel_def levelSize_def)
qed

lemma byId_push_back: "push_back s p o1 b = (n, b') \<Longrightarrow> byId b' = byId b"
  by (auto simp: push_back_def getOrCreateLevel_def level_simps Let_def split: option.splits prod.splits)

lemma push_back_refines:
  assumes core: "book_core b" and ne: "no_empty b" and fits: "fits o1 b"
    and new: "map_of (byId b) (makeKeyFromOrder o1) = None"
    and pb: "push_back (o_side o1) (o_price o1) o1 b = (n, b1)"
    and m: "map_of m = (map_of (byId b))(makeKeyFromOrder o1 \<mapsto> \<lparr>l_side = o_side o1, l_price = o_price o1, l_it = n\<rparr>)"
      "um_wf m"
  shows "book_inv (b1\<lparr>byId := m\<rparr>)" and "book_view b1 = spec_add o1 (book_view b)"
    and "byId b1 = byId b" and "synthCounters b1 = synthCounters b"
proof -
  define s p where "s = o_side o1" and "p = o_price o1"
  define os where "os = (case findLevel s p b of None \<Rightarrow> [] | Some l \<Rightarrow> orders l)"
  define l where "l = \<lparr>orders = os @ [(next_node b, o1)], totalSize = levelSize s p b + o_size o1\<rparr>"
  note sorted = coreD(1) [OF core]
  have b1: "b1 = putLevel s p l (b\<lparr>next_node := next_node b + 1\<rparr>)" and n: "n = next_node b"
    using pb push_back_eq [OF sorted, of "o_side o1" "o_price o1" o1] by (auto simp: s_def p_def os_def l_def)
  have os: "um_wf os" "list_all (\<lambda>(n, o1). n < next_node b \<and> o_side o1 = s \<and> o_price o1 = p) os"
    "unat (levelSize s p b) = lsum os"
    using coreD(4) [OF core, of s p] by (auto simp: os_def level_ok_def levelSize_def split: option.split)
  have fresh: "map_of os (next_node b) = None" using os(2) by (auto simp: list_all_iff map_of_eq_None_iff)
  have "level_ok s p (next_node b + 1) l"
    using os fresh fits by (auto simp: level_ok_def l_def list_all_iff map_of_eq_None_iff fits_def s_def p_def u64_simps)
  moreover have "level_ok s' p' (next_node b + 1) l'" if "findLevel s' p' b = Some l'" for s' p' l'
    using coreD(4) [OF core that] by (auto simp: level_ok_def list_all_iff)
  ultimately have levels: "level_ok s' p' (next_node b + 1) l'" if "findLevel s' p' b1 = Some l'" for s' p' l'
    using that sorted by (auto simp: b1 level_simps split: if_splits)
  have "deref b1 = (deref b)(\<lparr>l_side = s, l_price = p, l_it = n\<rparr> \<mapsto> o1)"
    using sorted fresh by (auto simp: b1 deref_def level_simps l_def os_def n map_add_def fun_eq_iff
      split: option.splits)
  moreover have "deref b \<lparr>l_side = s, l_price = p, l_it = n\<rparr> = None"
    using fresh by (simp add: deref_def os_def n split: option.splits)
  ultimately have "index_ok (deref b1) (map_of m)"
    using index_ok_insert [OF coreD(3) [OF core] new] m by (simp add: s_def p_def)
  then have "book_core (b1\<lparr>byId := m\<rparr>)"
    using levels sorted m by (intro coreI) (auto simp: level_simps b1)
  moreover have "no_empty b1" using ne sorted by (auto simp: no_empty_def b1 level_simps l_def)
  ultimately show "book_inv (b1\<lparr>byId := m\<rparr>)" by (simp add: book_inv_iff level_simps)
  show "book_view b1 = spec_add o1 (book_view b)"
    using sorted view_no_key [OF core new]
    by (auto simp: b1 level_simps spec_add_def l_def os_def book_view_def s_def p_def fun_eq_iff split: option.split)
qed (use pb push_back_eq [OF coreD(1) [OF core], of "o_side o1" "o_price o1" o1] in \<open>auto simp: level_simps\<close>)

lemma qsum_filter_le: "qsum (filter P os) \<le> qsum os"
  by (induction os) auto

lemma fits_delete:
  assumes "book_core b" "book_core b'" "book_view b' = spec_delete k (book_view b)" "fits o1 b"
  shows "fits o1 b'"
proof -
  have "unat (levelSize (o_side o1) (o_price o1) b') \<le> unat (levelSize (o_side o1) (o_price o1) b)"
    using assms by (simp add: core_levelSize spec_delete_def qsum_filter_le)
  then show ?thesis using assms(4) by (simp add: fits_def)
qed

lemma spec_add_delete: "spec_add o1 (spec_delete (makeKeyFromOrder o1) A) = spec_add o1 A"
  by (simp add: spec_add_def spec_delete_def fun_eq_iff)

lemma addImpl_refines:
  assumes inv: "book_inv b" and fits: "fits o1 b"
  obtains b' where "addImpl o1 b = Some (True, b')" and "book_inv b'"
    and "book_view b' = spec_add o1 (book_view b)" and "synthCounters b' = synthCounters b"
    and "map_of (byId b') (makeKeyFromOrder o1) = Some \<lparr>l_side = o_side o1, l_price = o_price o1, l_it = next_node b\<rparr>"
proof -
  let ?k = "makeKeyFromOrder o1"
  obtain b1 r where d: "(case map_of (byId b) ?k of None \<Rightarrow> Some (False, b) | Some _ \<Rightarrow> deleteImpl ?k b) = Some (r, b1)"
    and b1: "book_inv b1" "book_view b1 = spec_delete ?k (book_view b)" "map_of (byId b1) ?k = None"
      "next_node b1 = next_node b" "synthCounters b1 = synthCounters b"
  proof (cases "map_of (byId b) ?k")
    case None
    then show ?thesis using inv that [of False b] by (simp add: view_no_key book_inv_iff)
  next
    case (Some loc)
    obtain b' where "deleteImpl ?k b = Some (True, b')" "book_inv b'" "book_view b' = spec_delete ?k (book_view b)"
      "map_of (byId b') = (map_of (byId b))(?k := None)" "next_node b' = next_node b" "synthCounters b' = synthCounters b"
      using deleteImpl_refines [OF inv, of ?k] Some by auto
    then show ?thesis using that [of True b'] by (simp add: Some)
  qed
  have core: "book_core b" "book_core b1" "no_empty b1" using inv b1 by (simp_all add: book_inv_iff)
  have fits1: "fits o1 b1" using core(1,2) b1(2) fits by (rule fits_delete)
  obtain n b2 where pb: "push_back (o_side o1) (o_price o1) o1 b1 = (n, b2)" by fastforce
  have n: "n = next_node b" using pb push_back_eq [OF coreD(1) [OF core(2)], of "o_side o1" "o_price o1" o1] b1(4) by simp
  let ?m = "um_emplace ?k \<lparr>l_side = o_side o1, l_price = o_price o1, l_it = n\<rparr> (byId b2)"
  have by2: "byId b2 = byId b1" using pb push_back_eq [OF coreD(1) [OF core(2)], of "o_side o1" "o_price o1" o1] by (auto simp: level_simps)
  have m: "map_of ?m = (map_of (byId b1))(?k \<mapsto> \<lparr>l_side = o_side o1, l_price = o_price o1, l_it = n\<rparr>)" "um_wf ?m"
    using b1(3) coreD(2) [OF core(2)] by (simp_all add: umap_simps by2)
  note p = push_back_refines [OF core(2,3) fits1 b1(3) pb m]
  show ?thesis
    by (rule that [of "b2\<lparr>byId := ?m\<rparr>"])
      (use p d pb b1 m n in \<open>simp_all add: addImpl_def level_simps spec_add_delete\<close>)
qed

section \<open>Update and priority\<close>

text \<open>A key names one node of one level.\<close>

lemma core_key_inj:
  assumes core: "book_core b" and f: "findLevel s p b = Some l" and o1: "map_of (orders l) n = Some o1"
    and f': "findLevel s' p' b = Some l'" and o': "(n', o') \<in> set (orders l')"
    and k: "makeKeyFromOrder o' = makeKeyFromOrder o1"
  shows "s' = s \<and> p' = p \<and> n' = n \<and> o' = o1"
proof -
  have m: "map_of (orders l') n' = Some o'" using coreD(4) [OF core f'] o' by (simp add: level_ok_def)
  from core_indexed [OF core f' m] core_indexed [OF core f o1] k have "s' = s \<and> p' = p \<and> n' = n" by simp
  then show ?thesis using m o1 f f' by simp
qed

lemma view_key_inj:
  assumes "book_core b" "findLevel s p b = Some l" "map_of (orders l) n = Some o1"
    and "o' \<in> set (book_view b s' p')" "makeKeyFromOrder o' = makeKeyFromOrder o1"
  shows "s' = s \<and> p' = p \<and> o' = o1"
proof -
  obtain l' n' where "findLevel s' p' b = Some l'" "(n', o') \<in> set (orders l')"
    using assms(4) by (cases "findLevel s' p' b") (auto simp: book_view_def)
  from core_key_inj [OF assms(1-3) this assms(5)] show ?thesis by simp
qed

lemma alist_last:
  "um_wf xs \<Longrightarrow> map_of xs n = Some v \<Longrightarrow> fst (last xs) = n \<Longrightarrow> AList.delete n xs @ [(n, v)] = xs"
proof (induction xs rule: rev_induct)
  case (snoc x xs)
  then have "map_of xs n = None" by (auto simp: map_of_eq_None_iff)
  moreover from this have "AList.delete n xs = xs" by (simp add: map_of_eq_None_iff delete_idem)
  ultimately show ?case using snoc.prems by (cases x) (auto simp: AList.delete_eq map_add_def)
qed simp

lemma filter_fst_eq: "um_wf os \<Longrightarrow> map_of os n = Some v \<Longrightarrow> filter (\<lambda>x. fst x = n) os = [(n, v)]"
  by (induction os) (force simp: filter_empty_conv split: if_splits)+

lemma view_filter_key:
  assumes core: "book_core b" and f: "findLevel s p b = Some l" and o1: "map_of (orders l) n = Some o1"
  shows "filter (\<lambda>o'. makeKeyFromOrder o' = makeKeyFromOrder o1) (book_view b s' p') =
    (if s' = s \<and> p' = p then [o1] else [])"
proof (cases "s' = s \<and> p' = p")
  case True
  have nd: "um_wf (orders l)" using coreD(4) [OF core f] by (simp add: level_ok_def)
  have "(makeKeyFromOrder (snd x) = makeKeyFromOrder o1) = (fst x = n)" if "x \<in> set (orders l)" for x
    using core_key_inj [OF core f o1 f, of "fst x" "snd x"] that o1 nd
    by (metis map_of_eq_Some_iff option.inject prod.collapse)
  then have "filter (\<lambda>x. makeKeyFromOrder (snd x) = makeKeyFromOrder o1) (orders l) = [(n, o1)]"
    unfolding filter_fst_eq [OF nd o1, symmetric] by (rule filter_cong [OF refl])
  then show ?thesis using True f by (simp add: book_view_def filter_map o_def)
next
  case False
  then show ?thesis using view_key_inj [OF core f o1] by (auto simp: filter_empty_conv)
qed

lemma update_map_snd:
  assumes "um_wf os" "map_of os n = Some o1"
    "\<And>n' o'. (n', o') \<in> set os \<Longrightarrow> P o' \<longleftrightarrow> n' = n"
  shows "map snd (AList.update n (f o1) os) = map (\<lambda>o'. if P o' then f o' else o') (map snd os)"
  using assms
proof (induction os)
  case (Cons x os)
  obtain n' o' where x: "x = (n', o')" by (cases x)
  show ?case
  proof (cases "n' = n")
    case True
    then have "(n, b) \<notin> set os" for b using Cons.prems(1) by (auto simp: x image_iff)
    then have "\<not> P o''" if "o'' \<in> set (map snd os)" for o'' using that Cons.prems(3) by force
    then have "map (\<lambda>o'. if P o' then f o' else o') (map snd os) = map snd os" by (intro map_idI) simp
    then show ?thesis using True Cons.prems by (auto simp: x)
  next
    case False
    have "map snd (AList.update n (f o1) os) = map (\<lambda>o'. if P o' then f o' else o') (map snd os)"
      using Cons False by (intro Cons.IH) (auto simp: x)
    then show ?thesis using False Cons.prems(3) by (auto simp: x)
  qed
qed simp

text \<open>The update requested of an order that rests in the book, on the abstract book.\<close>

definition tgt_price :: "Order \<Rightarrow> Price option \<Rightarrow> Price" where
  "tgt_price ord np = (case np of Some p \<Rightarrow> p | None \<Rightarrow> o_price ord)"

definition tgt_size :: "Order \<Rightarrow> u64 option \<Rightarrow> u64" where
  "tgt_size ord nz = (case nz of Some z \<Rightarrow> z | None \<Rightarrow> o_size ord)"

definition spec_update :: "Order \<Rightarrow> Price option \<Rightarrow> u64 option \<Rightarrow> spec_book \<Rightarrow> spec_book" where
  "spec_update ord np nz A =
     (if tgt_size ord nz = 0 then spec_delete (makeKeyFromOrder ord) A
      else if tgt_price ord np = o_price ord then spec_resize (makeKeyFromOrder ord) (tgt_size ord nz) A
      else spec_add (ord\<lparr>o_price := tgt_price ord np, o_size := tgt_size ord nz\<rparr>) A)"

definition update_fits :: "Order \<Rightarrow> Price option \<Rightarrow> u64 option \<Rightarrow> OrderBook \<Rightarrow> bool" where
  "update_fits ord np nz b \<longleftrightarrow>
     (if tgt_price ord np = o_price ord
      then unat (levelSize (o_side ord) (o_price ord) b) + unat (tgt_size ord nz) < 2 ^ 64 + unat (o_size ord)
      else fits (ord\<lparr>o_price := tgt_price ord np, o_size := tgt_size ord nz\<rparr>) b)"

lemma makeKey_upd [simp]:
  "makeKeyFromOrder (o1\<lparr>o_size := z\<rparr>) = makeKeyFromOrder o1"
  "makeKeyFromOrder (o1\<lparr>o_price := p\<rparr>) = makeKeyFromOrder o1"
  "makeKeyFromOrder (o1\<lparr>o_priority := q\<rparr>) = makeKeyFromOrder o1"
  by (simp_all add: makeKeyFromOrder_def)

lemma view_resize:
  assumes core: "book_core b" and f: "findLevel s p b = Some l" and o1: "map_of (orders l) n = Some o1"
  shows "spec_resize (makeKeyFromOrder o1) z (book_view b) =
    (book_view b)(s := (book_view b s)(p := map snd (AList.update n (o1\<lparr>o_size := z\<rparr>) (orders l))))"
proof (intro ext)
  fix s' p'
  note inj = core_key_inj [OF core f o1]
  have nd: "um_wf (orders l)" using coreD(4) [OF core f] by (simp add: level_ok_def)
  show "spec_resize (makeKeyFromOrder o1) z (book_view b) s' p' =
    ((book_view b)(s := (book_view b s)(p := map snd (AList.update n (o1\<lparr>o_size := z\<rparr>) (orders l))))) s' p'"
  proof (cases "s' = s \<and> p' = p")
    case True
    have "makeKeyFromOrder o' = makeKeyFromOrder o1 \<longleftrightarrow> n' = n" if "(n', o') \<in> set (orders l)" for n' o'
      using inj [OF f that] that nd o1 by (metis map_of_eq_Some_iff option.inject)
    from update_map_snd [OF nd o1, of "\<lambda>o'. makeKeyFromOrder o' = makeKeyFromOrder o1" "\<lambda>o'. o'\<lparr>o_size := z\<rparr>", OF this]
    show ?thesis using True f by (simp add: spec_resize_def book_view_def)
  next
    case False
    then have "makeKeyFromOrder o' \<noteq> makeKeyFromOrder o1" if "o' \<in> set (book_view b s' p')" for o'
      using that view_key_inj [OF core f o1] by blast
    then have "map (\<lambda>o1'. if makeKeyFromOrder o1' = makeKeyFromOrder o1 then o1'\<lparr>o_size := z\<rparr> else o1') (book_view b s' p')
       = book_view b s' p'" by (intro map_idI) simp
    then show ?thesis using False by (auto simp: spec_resize_def)
  qed
qed

lemma spec_resize_same:
  assumes "\<And>s p o'. o' \<in> set (A s p) \<Longrightarrow> makeKeyFromOrder o' = k \<Longrightarrow> o_size o' = z"
  shows "spec_resize k z A = A"
  using assms by (fastforce simp: spec_resize_def fun_eq_iff intro!: map_idI)

lemma updateImpl_missing: "map_of (byId b) k = None \<Longrightarrow> updateImpl k np nz b = Some (False, b)"
  by (simp add: updateImpl_def)

lemma updateImpl_found:
  fixes np :: "Price option" and nz :: "u64 option"
  assumes "map_of (byId b) k = Some loc" "findLevel (l_side loc) (l_price loc) b = Some l"
    "map_of (orders l) (l_it loc) = Some ord"
  defines "z \<equiv> tgt_size ord nz" and "p \<equiv> tgt_price ord np"
    and "b1 \<equiv> unlink (l_side loc) (l_price loc) l (l_it loc) (o_size ord) (o_price ord) b"
  shows "updateImpl k np nz b =
    (if z = 0 then Some (True, b1\<lparr>byId := AList.delete k (byId b1)\<rparr>)
     else if p = o_price ord then
       (if z = o_size ord then Some (False, b)
        else Some (True, putLevel (l_side loc) (l_price loc)
          (l\<lparr>totalSize := (if z > o_size ord then totalSize l + (z - o_size ord) else totalSize l - (o_size ord - z)),
             orders := AList.update (l_it loc) (ord\<lparr>o_size := z\<rparr>) (orders l)\<rparr>) b))
     else case push_back (l_side loc) p (ord\<lparr>o_price := p, o_size := z\<rparr>) b1 of (n, b2) \<Rightarrow>
       Some (True, b2\<lparr>byId := AList.update k (loc\<lparr>l_price := p, l_it := n\<rparr>) (byId b2)\<rparr>))"
  unfolding assms(4-6) by (simp add: updateImpl_def assms(1-3) Let_def tgt_price_def tgt_size_def)

text \<open>Resizing in place.\<close>

lemma update_in_place:
  assumes core: "book_core b" and ne: "no_empty b"
    and f: "findLevel s p b = Some l" and o1: "map_of (orders l) n = Some ord"
    and ord: "o_side ord = s" "o_price ord = p"
    and bound: "unat (totalSize l) + unat z < 2 ^ 64 + unat (o_size ord)"
  defines "t \<equiv> (if z > o_size ord then totalSize l + (z - o_size ord) else totalSize l - (o_size ord - z))"
  defines "b' \<equiv> putLevel s p (l\<lparr>totalSize := t, orders := AList.update n (ord\<lparr>o_size := z\<rparr>) (orders l)\<rparr>) b"
  shows "book_inv b'" and "book_view b' = spec_resize (makeKeyFromOrder ord) z (book_view b)"
    and "synthCounters b' = synthCounters b" and "byId b' = byId b"
proof -
  have lo: "um_wf (orders l)" "unat (totalSize l) = lsum (orders l)"
    using coreD(4) [OF core f] by (simp_all add: level_ok_def)
  have sum: "lsum (AList.update n (ord\<lparr>o_size := z\<rparr>) (orders l)) + unat (o_size ord) = lsum (orders l) + unat z"
    using lsum_update [OF lo(1) o1, of "ord\<lparr>o_size := z\<rparr>"] by simp
  have le: "unat (o_size ord) \<le> lsum (orders l)" using lsum_delete [OF lo(1) o1] by simp
  have "lsum (AList.update n (ord\<lparr>o_size := z\<rparr>) (orders l)) = unat t"
  proof (cases "z > o_size ord")
    case True
    then have "unat (z - o_size ord) = unat z - unat (o_size ord)" "unat (o_size ord) < unat z"
      using unat_diff_le [OF less_imp_le] by (auto simp: word_less_nat_alt)
    then show ?thesis using True sum lo(2) bound by (simp add: t_def u64_simps)
  next
    case False
    then have d: "unat (o_size ord - z) = unat (o_size ord) - unat z" "unat z \<le> unat (o_size ord)"
      using unat_diff_le [of z "o_size ord"] by (auto simp: not_less word_le_nat_alt)
    then have "o_size ord - z \<le> totalSize l" using le lo(2) by (simp add: word_le_nat_alt)
    then show ?thesis using False sum d lo(2) le by (simp add: t_def u64_simps)
  qed
  then have "book_core (putLevel s p (l\<lparr>orders := AList.update n (ord\<lparr>o_size := z\<rparr>) (orders l), totalSize := t\<rparr>) b)"
    using lo by (intro core_modify [OF core f o1, where ?o2.0 = "ord\<lparr>o_size := z\<rparr>"]) (simp_all add: umap_simps)
  then have "book_core b'" by (cases l) (simp add: b'_def)
  moreover have "no_empty b'"
    using ne coreD(1) [OF core] o1 by (auto simp: b'_def no_empty_def level_simps split: if_splits)
  ultimately show "book_inv b'" by (simp add: book_inv_iff)
  show "book_view b' = spec_resize (makeKeyFromOrder ord) z (book_view b)"
    using coreD(1) [OF core] by (simp add: b'_def level_simps view_resize [OF core f o1])
qed (simp_all add: b'_def level_simps)

lemma push_back_byId:
  "push_back s p o1 (b\<lparr>byId := m\<rparr>) = (case push_back s p o1 b of (n, b') \<Rightarrow> (n, b'\<lparr>byId := m\<rparr>))"
proof -
  have "putLevel s p l (b\<lparr>byId := m, next_node := n\<rparr>) = putLevel s p l (b\<lparr>next_node := n\<rparr>)\<lparr>byId := m\<rparr>" for l n b
    by (simp add: putLevel_def)
  then show ?thesis
    by (simp add: push_back_def getOrCreateLevel_def level_simps Let_def split: option.split prod.split)
qed

lemma updateImpl_refines:
  assumes inv: "book_inv b" and k: "map_of (byId b) k = Some loc" and ord: "deref b loc = Some ord"
    and fits: "update_fits ord np nz b"
  obtains b' where
    "updateImpl k np nz b =
       Some (tgt_size ord nz = 0 \<or> tgt_price ord np \<noteq> o_price ord \<or> tgt_size ord nz \<noteq> o_size ord, b')"
    and "book_inv b'" and "book_view b' = spec_update ord np nz (book_view b)"
    and "synthCounters b' = synthCounters b"
proof -
  have core: "book_core b" and ne: "no_empty b" using inv by (simp_all add: book_inv_iff)
  obtain l where l: "findLevel (l_side loc) (l_price loc) b = Some l" "map_of (orders l) (l_it loc) = Some ord"
    "makeKeyFromOrder ord = k" "o_side ord = l_side loc" "o_price ord = l_price loc" "o_size ord \<le> totalSize l"
    using core_locate [OF core k] ord by (metis option.inject)
  define b1 where "b1 = unlink (l_side loc) (l_price loc) l (l_it loc) (o_size ord) (o_price ord) b"
  then have b1': "b1 = unlink (l_side loc) (l_price loc) l (l_it loc) (o_size ord) (l_price loc) b" by (simp add: l(5))
  note u = unlink_refines [OF core ne l(1,2,6), folded b1', unfolded l(3)]
  let ?p = "tgt_price ord np" and ?z = "tgt_size ord nz"
  note defs = updateImpl_found [OF k l(1,2), folded b1_def] spec_update_def l(3)
  consider (del) "?z = 0" | (same) "?z \<noteq> 0" "?p = o_price ord" "?z = o_size ord"
    | (resize) "?z \<noteq> 0" "?p = o_price ord" "?z \<noteq> o_size ord" | (migrate) "?z \<noteq> 0" "?p \<noteq> o_price ord" by blast
  then show ?thesis
  proof cases
    case del
    show ?thesis
      by (rule that [of "b1\<lparr>byId := AList.delete k (byId b1)\<rparr>"])
        (use u del in \<open>simp_all add: defs level_simps book_inv_iff\<close>)
  next
    case same
    have "o_size o' = ?z" if "o' \<in> set (book_view b s p)" "makeKeyFromOrder o' = k" for s p o'
      using that same(3) view_key_inj [OF core l(1,2) that(1)] l(3) by simp
    then have "spec_resize k ?z (book_view b) = book_view b" by (rule spec_resize_same)
    then show ?thesis by (intro that [of b]) (use inv same in \<open>simp_all add: defs\<close>)
  next
    case resize
    have bound: "unat (totalSize l) + unat ?z < 2 ^ 64 + unat (o_size ord)"
      using fits resize l by (simp add: update_fits_def levelSize_def)
    have spec: "spec_update ord np nz (book_view b) = spec_resize k ?z (book_view b)"
      using resize by (simp add: defs)
    show ?thesis
      by (rule that [OF _ update_in_place(1,2,3) [OF core ne l(1,2,4,5) bound, unfolded l(3), folded spec]])
        (use resize in \<open>simp add: defs\<close>)
  next
    case migrate
    let ?o = "ord\<lparr>o_price := ?p, o_size := ?z\<rparr>" and ?b2 = "b1\<lparr>byId := AList.delete k (byId b)\<rparr>"
    have core2: "book_core ?b2" and ne2: "no_empty ?b2" and view2: "book_view ?b2 = spec_delete k (book_view b)"
      using u l by (simp_all add: level_simps)
    have fits2: "fits ?o ?b2" using fits_delete [OF core core2 view2] fits migrate by (simp add: update_fits_def)
    obtain n b3 where pb: "push_back (o_side ?o) (o_price ?o) ?o ?b2 = (n, b3)" by fastforce
    have pb1: "push_back (l_side loc) ?p ?o b1 = (n, b3\<lparr>byId := byId b\<rparr>)"
      using pb u(3) l(4) by (auto simp: push_back_byId byId_push_back split: prod.splits)
    let ?m = "AList.update k (loc\<lparr>l_price := ?p, l_it := n\<rparr>) (byId b)"
    have "map_of ?m = (map_of (byId ?b2))(makeKeyFromOrder ?o \<mapsto> \<lparr>l_side = o_side ?o, l_price = o_price ?o, l_it = n\<rparr>)"
      using l by (cases loc) (simp add: umap_simps)
    from push_back_refines [OF core2 ne2 fits2 _ pb this] coreD(2) [OF core]
    have r: "book_inv (b3\<lparr>byId := ?m\<rparr>)" "book_view b3 = spec_add ?o (book_view ?b2)"
      "synthCounters b3 = synthCounters b"
      using u(5) l by (simp_all add: umap_simps)
    show ?thesis
      by (rule that [of "b3\<lparr>byId := ?m\<rparr>"])
        (use migrate r pb1 view2 spec_add_delete [of ?o] in \<open>simp_all add: defs level_simps\<close>)
  qed
qed

lemma priorityImpl_refines:
  assumes inv: "book_inv b" and k: "map_of (byId b) k = Some loc" and ord: "deref b loc = Some ord"
  obtains b' where "priorityImpl k q b = Some (o_priority ord \<noteq> q, b')" and "book_inv b'"
    and "book_view b' = (if o_priority ord = q then book_view b else spec_move_back k q (book_view b))"
    and "synthCounters b' = synthCounters b" and "byId b' = byId b"
proof (cases "o_priority ord = q")
  case True
  then show ?thesis using that [of b] assms
    by (auto simp: priorityImpl_def deref_def split: option.splits)
next
  case False
  have core: "book_core b" and ne: "no_empty b" using inv by (simp_all add: book_inv_iff)
  obtain s p n where loc: "loc = \<lparr>l_side = s, l_price = p, l_it = n\<rparr>" by (cases loc)
  obtain l where f: "findLevel s p b = Some l" and o1: "map_of (orders l) n = Some ord" and ok: "makeKeyFromOrder ord = k"
    using core_locate [OF core k] ord by (auto simp: loc)
  have lo: "um_wf (orders l)" "unat (totalSize l) = lsum (orders l)"
    using coreD(4) [OF core f] by (simp_all add: level_ok_def)
  let ?o = "ord\<lparr>o_priority := q\<rparr>"
  let ?os1 = "AList.update n ?o (orders l)"
  let ?os = "AList.delete n (orders l) @ [(n, ?o)]"
  have nd: "um_wf ?os1" using lo by simp
  have del: "AList.delete n ?os1 = AList.delete n (orders l)"
    by (rule delete_update_same)
  have os: "?os1 = ?os" if "n = fst (last ?os1)"
    using alist_last [OF nd, of n ?o] that by (auto simp: umap_simps del)
  let ?b = "putLevel s p (l\<lparr>orders := ?os\<rparr>) b"
  have mo: "map_of ?os = (map_of (orders l))(n \<mapsto> ?o)"
    by (rule ext) (simp add: del umap_simps map_add_def split: option.split)
  have sum: "lsum ?os = unat (totalSize l)" using lsum_delete [OF lo(1) o1] lo(2) by (simp add: del)
  have "book_core (putLevel s p (l\<lparr>orders := ?os, totalSize := totalSize l\<rparr>) b)"
    using lo mo sum by (intro core_modify [OF core f o1 mo]) (auto simp: del)
  then have inv': "book_inv ?b"
    using ne coreD(1) [OF core] by (auto simp: book_inv_iff no_empty_def level_simps split: if_splits)
  have view: "book_view ?b = spec_move_back k q (book_view b)"
    using view_key_unique [OF core f o1] view_filter_key [OF core f o1] coreD(1) [OF core] ok
    by (auto simp: spec_move_back_def level_simps fun_eq_iff del)
  show ?thesis
    by (rule that [of ?b]) (use inv' view False os f o1 k loc in \<open>simp_all add: priorityImpl_def Let_def level_simps del\<close>)
qed

section \<open>Trades\<close>

lemma om_set_same: "om_wf (side_lt s) m \<Longrightarrow> map_of m k = Some v \<Longrightarrow> om_set (side_lt s) k v m = m"
proof (induction m)
  case (Cons a m)
  then have "side_lt s (fst a) k" if "fst a \<noteq> k"
    using that by (cases a) (force dest: map_of_SomeD)
  then have "\<not> side_lt s k (fst a)" if "fst a \<noteq> k" using that side_order.lt_asym by blast
  then show ?case using Cons by (cases a) (auto simp: side_order.lt_irrefl)
qed simp

lemma putLevel_same: "ladders_sorted b \<Longrightarrow> findLevel s p b = Some l \<Longrightarrow> putLevel s p l b = b"
  by (cases s) (simp_all add: putLevel_def findLevel_def om_set_same ladders_sorted_def)

lemma putLevel_byId_same: "(putLevel s p l b)\<lparr>byId := byId b\<rparr> = putLevel s p l b"
  by (cases s) (simp_all add: putLevel_def)

lemma qsum_fill: "qsum (fill q os) = qsum os - q"
proof (induction q os rule: fill.induct)
  case (2 q o1 os)
  have "unat (o_size o1 - of_nat q) = unat (o_size o1) - q" if "\<not> unat (o_size o1) \<le> q"
  proof -
    have "q < 2 ^ 64" using that order.strict_trans [OF _ unat_lt_2_64 [of "o_size o1"], of q] by simp
    then have "unat (of_nat q :: u64) = q" by (simp add: unsigned_of_nat take_bit_nat_eq_self)
    then show ?thesis using that unat_diff_le [of "of_nat q" "o_size o1"] by (simp add: word_le_nat_alt)
  qed
  then show ?case using 2 by (simp add: add.commute)
qed simp

lemma fill_0 [simp]: "fill 0 os = os"
  by (cases os) auto

lemma consume_loop_refines:
  assumes "book_core b" "findLevel s p b = Some l"
    and "consume_loop r (orders l) (totalSize l) (byId b) = (r', os', t', m')"
  shows "book_core ((putLevel s p (l\<lparr>orders := os', totalSize := t'\<rparr>) b)\<lparr>byId := m'\<rparr>) \<and>
    map snd os' = fill (unat r) (map snd (orders l)) \<and>
    unat r' = unat r - min (unat r) (qsum (map snd (orders l)))"
  using assms
proof (induction "orders l" arbitrary: b l r)
  case Nil
  then have "l\<lparr>orders := [], totalSize := totalSize l\<rparr> = l" by simp
  moreover have "os' = []" "t' = totalSize l" "m' = byId b" "r' = r" using Nil by (simp_all add: Nil(1) [symmetric])
  ultimately show ?case using Nil by (simp add: putLevel_same coreD(1))
next
  case (Cons x os)
  obtain n top0 where x: "x = (n, top0)" by (cases x)
  have ol: "orders l = (n, top0) # os" using Cons(2) x by simp
  have o1: "map_of (orders l) n = Some top0" by (simp add: ol)
  have lo: "um_wf (orders l)" "unat (totalSize l) = lsum (orders l)"
    using coreD(4) [OF Cons.prems(1,2)] by (simp_all add: level_ok_def)
  note sorted = coreD(1) [OF Cons.prems(1)]
  consider (zero) "r = 0" | (full) "r \<noteq> 0" "o_size top0 \<le> r" | (part) "r \<noteq> 0" "r < o_size top0"
    by (metis not_less)
  then show ?case
  proof cases
    case zero
    then have "r' = r \<and> os' = orders l \<and> t' = totalSize l \<and> m' = byId b"
      using Cons.prems(3) by (simp add: ol)
    then show ?thesis using zero Cons.prems(1,2) sorted by (simp add: putLevel_same)
  next
    case full
    define l1 where "l1 = l\<lparr>orders := AList.delete n (orders l), totalSize := totalSize l - o_size top0\<rparr>"
    define b1 where "b1 = (putLevel s p l1 b)\<lparr>byId := AList.delete (makeKeyFromOrder top0) (byId b)\<rparr>"
    have "book_core b1" unfolding b1_def l1_def using Cons.prems(1,2) o1 by (rule core_remove)
    moreover have "AList.delete n (orders l) = os" using lo(1) by (simp add: ol AList.delete_eq filter_id_conv) force
    then have os: "os = orders l1" by (simp add: l1_def)
    moreover have f1: "findLevel s p b1 = Some l1" using sorted by (simp add: b1_def level_simps)
    moreover have "consume_loop (r - o_size top0) (orders l1) (totalSize l1) (byId b1) = (r', os', t', m')"
      using Cons.prems(3) full os [symmetric] by (simp add: ol l1_def b1_def Let_def)
    ultimately have ih: "book_core ((putLevel s p (l1\<lparr>orders := os', totalSize := t'\<rparr>) b1)\<lparr>byId := m'\<rparr>) \<and>
      map snd os' = fill (unat (r - o_size top0)) (map snd (orders l1)) \<and>
      unat r' = unat (r - o_size top0) - min (unat (r - o_size top0)) (qsum (map snd (orders l1)))"
      by (intro Cons.hyps(1))
    have "putLevel s p (l1\<lparr>orders := os', totalSize := t'\<rparr>) b1\<lparr>byId := m'\<rparr>
        = putLevel s p (l\<lparr>orders := os', totalSize := t'\<rparr>) b\<lparr>byId := m'\<rparr>"
      using sorted by (simp add: b1_def l1_def level_simps)
    moreover have "unat (r - o_size top0) = unat r - unat (o_size top0)" "unat (o_size top0) \<le> unat r" "unat r \<noteq> 0"
      using full unat_diff_le [OF full(2)] by (simp_all add: word_le_nat_alt unat_eq_0)
    ultimately show ?thesis using ih full os [symmetric] by (auto simp: ol min_def)
  next
    case part
    let ?top = "top0\<lparr>o_size := o_size top0 - r\<rparr>"
    have u: "unat (o_size top0 - r) = unat (o_size top0) - unat r" "unat r < unat (o_size top0)"
      using part unat_diff_le [of r "o_size top0"] by (simp_all add: word_less_nat_alt word_le_nat_alt)
    have nz: "o_size top0 - r \<noteq> 0" "\<not> o_size top0 \<le> r" using part by auto
    have res: "r' = 0" "os' = (n, ?top) # os" "t' = totalSize l - r" "m' = byId b"
      using Cons.prems(3) part(1) nz by (auto simp: ol Let_def)
    have "r \<le> totalSize l" using u lo(2) by (simp add: ol word_le_nat_alt)
    then have t: "lsum os' = unat t'" using lo(2) u unat_diff_le by (simp add: res ol)
    have "book_core (putLevel s p (l\<lparr>orders := os', totalSize := t'\<rparr>) b)"
      using lo t by (intro core_modify [OF Cons.prems(1,2) o1, where ?o2.0 = ?top]) (auto simp: res ol)
    then show ?thesis using u part by (simp add: res ol unat_eq_0 putLevel_byId_same)
  qed
qed

lemma consumeAtLevel_refines:
  assumes inv: "book_inv b"
  obtains c b' where "consumeAtLevel s p q b = (c, b')" and "book_inv b'"
    and "book_view b' = spec_fill s p (unat q) (book_view b)"
    and "unat c = min (unat q) (qsum (book_view b s p))" and "synthCounters b' = synthCounters b"
proof -
  have core: "book_core b" and ne: "no_empty b" using inv by (simp_all add: book_inv_iff)
  note sorted = coreD(1) [OF core]
  show ?thesis
  proof (cases "findLevel s p b = None \<or> q = 0")
    case True
    then have "consumeAtLevel s p q b = (0, b)" by (auto simp: consumeAtLevel_def split: option.split)
    moreover have "fill (unat q) (book_view b s p) = book_view b s p" "min (unat q) (qsum (book_view b s p)) = 0"
      using True by (auto simp: book_view_def)
    ultimately show ?thesis using that [of 0 b] inv by (simp add: spec_fill_def)
  next
    case False
    then obtain l where f: "findLevel s p b = Some l" and q: "q \<noteq> 0" by auto
    obtain r' os' t' m' where cl: "consume_loop q (orders l) (totalSize l) (byId b) = (r', os', t', m')"
      by (metis prod_cases4)
    let ?b1 = "(putLevel s p (l\<lparr>orders := os', totalSize := t'\<rparr>) b)\<lparr>byId := m'\<rparr>"
    note c = consume_loop_refines [OF core f cl]
    have b': "consumeAtLevel s p q b = (q - r', eraseLevelIfEmpty s p ?b1)"
      using q by (simp add: consumeAtLevel_def f cl level_simps)
    have "book_core (eraseLevelIfEmpty s p ?b1)" using c by (intro core_erase) simp
    moreover have "no_empty (eraseLevelIfEmpty s p ?b1)"
      using no_empty_erase [OF sorted ne] by (simp add: eraseLevel_byId level_simps)
    ultimately have "book_inv (eraseLevelIfEmpty s p ?b1)" by (simp add: book_inv_iff)
    moreover have "book_view (eraseLevelIfEmpty s p ?b1) = spec_fill s p (unat q) (book_view b)"
      using c sorted by (simp add: level_simps spec_fill_def view_level [OF f])
    moreover have "unat (q - r') = min (unat q) (qsum (book_view b s p))"
      using c unat_diff_le [of r' q] by (auto simp: view_level [OF f] word_le_nat_alt)
    ultimately show ?thesis using that b' by (simp add: level_simps)
  qed
qed

section \<open>Snapshots\<close>

lemma clear_inv: "book_inv (clearPerOrderUnlocked b)"
  by (simp add: book_inv_def clearPerOrderUnlocked_def ladder_ok_def)

lemma clear_view: "book_view (clearPerOrderUnlocked b) = spec_empty"
proof (intro ext)
  show "book_view (clearPerOrderUnlocked b) s p = spec_empty s p" for s p
    by (cases s) (simp_all add: book_view_def findLevel_def clearPerOrderUnlocked_def spec_empty_def)
qed

text \<open>The orders of a snapshot, added one after the other to the abstract book.\<close>

definition spec_load :: "Order list \<Rightarrow> spec_book \<Rightarrow> spec_book" where
  "spec_load os A = fold spec_add os A"

lemma qsum_append [simp]: "qsum (xs @ ys) = qsum xs + qsum ys"
  by (simp add: qsum_def)

lemma qsum_spec_add_le: "qsum (spec_add o1 A s p) \<le> qsum (A s p) + unat (o_size o1)"
  using qsum_filter_le [of "\<lambda>x. makeKeyFromOrder x \<noteq> makeKeyFromOrder o1" "A s p"]
  by (auto simp: spec_add_def spec_delete_def)

lemma addAll_refines:
  assumes "book_inv b" and "\<And>s p. qsum (book_view b s p) + qsum os < 2 ^ 64"
  shows "\<exists>b'. addAll os b = Some b' \<and> book_inv b' \<and> book_view b' = spec_load os (book_view b)
    \<and> synthCounters b' = synthCounters b"
  using assms
proof (induction os arbitrary: b)
  case (Cons o1 os)
  have "fits o1 b" using Cons.prems(2) [of "o_side o1" "o_price o1"] Cons.prems(1)
    by (simp add: fits_def core_levelSize book_inv_iff)
  then obtain b1 where b1: "addImpl o1 b = Some (True, b1)" "book_inv b1" "book_view b1 = spec_add o1 (book_view b)"
    "synthCounters b1 = synthCounters b"
    using addImpl_refines [OF Cons.prems(1)] by blast
  have "qsum (book_view b1 s p) + qsum os < 2 ^ 64" for s p
    using Cons.prems(2) [of s p] qsum_spec_add_le [of o1 "book_view b" s p] by (simp add: b1)
  from Cons.IH [OF b1(2) this] show ?case by (simp add: b1 spec_load_def)
qed (simp add: spec_load_def)

section \<open>Aggregated levels\<close>

lemma agg_frame:
  "bidsAgg b' = bidsAgg b \<Longrightarrow> asksAgg b' = asksAgg b \<Longrightarrow> agg_inv b' = agg_inv b"
  by (simp add: agg_inv_def)

definition agg_side_ok :: "Side \<Rightarrow> (Price \<times> LevelAgg) list \<Rightarrow> bool" where
  "agg_side_ok s ld \<longleftrightarrow> om_wf (side_lt s) ld \<and> (\<forall>p l. map_of ld p = Some l \<longrightarrow> agg_totalSize l \<noteq> 0)"

lemma agg_inv_sides: "agg_inv b \<longleftrightarrow> (\<forall>s. agg_side_ok s (ladderAgg s b))"
proof -
  have "checkAgg ld \<longleftrightarrow> (\<forall>p l. map_of ld p = Some l \<longrightarrow> agg_totalSize l \<noteq> 0)" if "om_wf (side_lt s) ld" for s ld
    by (force simp: checkAgg_def list_all_iff om_find_mem [OF that])
  then have "om_wf (side_lt s) ld \<and> checkAgg ld \<longleftrightarrow> agg_side_ok s ld" for s ld by (auto simp: agg_side_ok_def)
  then show ?thesis unfolding agg_inv_def by (metis (full_types) Side.exhaust ladderAgg.simps)
qed

lemma ladderAgg_set [simp]: "ladderAgg s (set_ladderAgg s' l b) = (if s = s' then l else ladderAgg s b)"
  by (cases s; cases s') auto

lemma set_ladderAgg_twice [simp]: "set_ladderAgg s l (set_ladderAgg s l' b) = set_ladderAgg s l b"
  by (cases s) auto

lemma set_ladderAgg_frame [simp]: "byId (set_ladderAgg s l b) = byId b" "next_node (set_ladderAgg s l b) = next_node b"
  "synthCounters (set_ladderAgg s l b) = synthCounters b"
  by (cases s; simp)+

lemma agg_put:
  assumes "agg_inv b" "agg_totalSize l \<noteq> 0"
  shows "agg_inv (set_ladderAgg s (om_set (side_lt s) p l (ladderAgg s b)) b)"
proof -
  have ok: "agg_side_ok s' (ladderAgg s' b)" for s' using assms(1) by (simp add: agg_inv_sides)
  then have wf: "om_wf (side_lt s) (ladderAgg s b)" by (simp add: agg_side_ok_def)
  have "agg_side_ok s (om_set (side_lt s) p l (ladderAgg s b))"
    using side_order.wf_set [OF wf] side_order.find_set [OF wf] ok [of s] assms(2) by (auto simp: agg_side_ok_def)
  then show ?thesis using ok by (simp add: agg_inv_sides)
qed

text \<open>Reading or creating an aggregated level and then writing it is one assignment.\<close>

lemma agg_write:
  assumes "agg_inv b" and "getOrCreateAggLevel s p b = (l, b1)"
  shows "putAggLevel s p l' b1 = set_ladderAgg s (om_set (side_lt s) p l' (ladderAgg s b)) b"
  using assms
  by (auto simp: getOrCreateAggLevel_def putAggLevel_def Let_def om_set_twice agg_inv_sides agg_side_ok_def
      split: option.splits)

end
