(* ===== verification/Order_Book_Thms.thy ===== *)
theory Order_Book_Thms
  imports Order_Book_Spec
begin

text \<open>
  The correctness theorems of the order book: every sequence of public operations that does not
  overflow a level's 64-bit total is free of dangling iterators, keeps the representation
  invariant and the code's own \<open>checkInvariants\<close>; each public operation implements its
  counterpart on the abstract book; the top-of-book, depth and size queries report the abstract
  book; synthetic identifiers are unique within a scope.
\<close>

section \<open>Sequences of operations\<close>

datatype book_op =
    OpAdd Order
  | OpAddScoped Order FeedScope bool
  | OpAddGetKey Order FeedScope bool
  | OpUpdate OrderKey "Price option" "u64 option"
  | OpUpdateId u64 "Price option" "u64 option"
  | OpDelete OrderKey
  | OpDeleteId u64
  | OpPriority OrderKey u64
  | OpPriorityId u64 u64
  | OpTrade Price u64 Aggressor
  | OpSnapshotPerOrder "Order list"
  | OpSnapshotAggregated "LevelSnapshotEntry list"
  | OpLevelSummary Side Price u64 "u32 option"

fun exec_op :: "book_op \<Rightarrow> OrderBook \<Rightarrow> OrderBook option" where
  "exec_op (OpAdd o1) b = map_option snd (applyAdd o1 b)"
| "exec_op (OpAddScoped o1 sc miss) b = map_option snd (applyAddScoped o1 sc miss b)"
| "exec_op (OpAddGetKey o1 sc miss) b = map_option snd (applyAddGetKey o1 sc miss b)"
| "exec_op (OpUpdate k np nz) b = map_option snd (applyUpdate k np nz b)"
| "exec_op (OpUpdateId i np nz) b = map_option snd (applyUpdateId i np nz b)"
| "exec_op (OpDelete k) b = map_option snd (applyDelete k b)"
| "exec_op (OpDeleteId i) b = map_option snd (applyDeleteId i b)"
| "exec_op (OpPriority k q) b = map_option snd (applyPriority k q b)"
| "exec_op (OpPriorityId i q) b = map_option snd (applyPriorityId i q b)"
| "exec_op (OpTrade p q a) b = Some (snd (applyTrade p q a b))"
| "exec_op (OpSnapshotPerOrder os) b = applySnapshotPerOrder os b"
| "exec_op (OpSnapshotAggregated es) b = Some (applySnapshotAggregated es b)"
| "exec_op (OpLevelSummary s p t c) b = Some (snd (applyLevelSummary s p t c b))"

text \<open>An update fits when the order it names, if there is one, fits with its new size and price.\<close>

definition key_update_fits :: "OrderKey \<Rightarrow> Price option \<Rightarrow> u64 option \<Rightarrow> OrderBook \<Rightarrow> bool" where
  "key_update_fits k np nz b = (case map_of (byId b) k of None \<Rightarrow> True
     | Some loc \<Rightarrow> (case deref b loc of None \<Rightarrow> True | Some ord \<Rightarrow> update_fits ord np nz b))"

text \<open>No 64-bit level total overflows when the operation runs in \<open>b\<close>.\<close>

fun op_fits :: "book_op \<Rightarrow> OrderBook \<Rightarrow> bool" where
  "op_fits (OpAdd o1) b = fits o1 b"
| "op_fits (OpAddScoped o1 sc miss) b = fits o1 b"
| "op_fits (OpAddGetKey o1 sc miss) b = fits o1 b"
| "op_fits (OpUpdate k np nz) b = key_update_fits k np nz b"
| "op_fits (OpUpdateId i np nz) b = key_update_fits (makeKey i scope0 False) np nz b"
| "op_fits (OpSnapshotPerOrder os) b = (qsum os < 2 ^ 64)"
| "op_fits _ b = True"

fun book_run :: "book_op list \<Rightarrow> OrderBook \<Rightarrow> OrderBook option" where
  "book_run [] b = Some b"
| "book_run (op # ops) b = (case exec_op op b of None \<Rightarrow> None | Some b' \<Rightarrow> book_run ops b')"

fun ops_fit :: "book_op list \<Rightarrow> OrderBook \<Rightarrow> bool" where
  "ops_fit [] b = True"
| "ops_fit (op # ops) b = (op_fits op b \<and> (case exec_op op b of None \<Rightarrow> True | Some b' \<Rightarrow> ops_fit ops b'))"

section \<open>Preservation\<close>

lemma inv_synth: "book_inv (b\<lparr>synthCounters := c\<rparr>) = book_inv b"
  by (simp add: book_inv_iff book_core_def level_simps)

lemma scopedCopy_frame:
  assumes "scopedCopy o1 sc miss b = (copy, b1)"
  shows "book_inv b1 = book_inv b" "book_view b1 = book_view b" "o_side copy = o_side o1" "o_price copy = o_price o1"
    "o_size copy = o_size o1" "o_priority copy = o_priority o1" "o_feedId copy = fs_feedId sc" "o_epoch copy = fs_epoch sc"
    "fits copy b1 = fits o1 b" "ladderAgg s b1 = ladderAgg s b" "byId b1 = byId b"
  using assms
  by (cases s; auto simp: scopedCopy_def nextSyntheticId_def Let_def inv_synth level_simps fits_def levelSize_def
      split: if_splits option.splits)+

text \<open>The aggregated ladders are untouched by the per-order operations.\<close>

lemma agg_untouched:
  "deleteImpl k b = Some (r, b') \<Longrightarrow> ladderAgg s b' = ladderAgg s b"
  "push_back s' p o1 b = (n, b') \<Longrightarrow> ladderAgg s b' = ladderAgg s b"
  "ladderAgg s (unlink s' p l n z q b) = ladderAgg s b"
  "ladderAgg s (b\<lparr>byId := m\<rparr>) = ladderAgg s b"
proof -
  show byId: "ladderAgg s (b\<lparr>byId := m\<rparr>) = ladderAgg s b" for b m by (cases s) simp_all
  show un: "ladderAgg s (unlink s' p l n z q b) = ladderAgg s b" for s' p l n z q b
    by (simp add: unlink_def level_simps)
  have "ladderAgg s (b\<lparr>next_node := n\<rparr>) = ladderAgg s b" for b n by (cases s) simp_all
  then show "push_back s' p o1 b = (n, b') \<Longrightarrow> ladderAgg s b' = ladderAgg s b"
    by (auto simp: push_back_def getOrCreateLevel_def level_simps Let_def split: option.splits prod.splits)
  show "deleteImpl k b = Some (r, b') \<Longrightarrow> ladderAgg s b' = ladderAgg s b"
    by (auto simp: deleteImpl_def Let_def un byId split: option.splits)
qed

lemma agg_addImpl: "addImpl o1 b = Some (r, b') \<Longrightarrow> ladderAgg s b' = ladderAgg s b"
  by (auto simp: addImpl_def Let_def agg_untouched(4) split: option.splits prod.splits
      dest!: agg_untouched(1,2) [where s = s])

lemma agg_updateImpl: "updateImpl k np nz b = Some (r, b') \<Longrightarrow> ladderAgg s b' = ladderAgg s b"
  by (auto simp: updateImpl_def Let_def agg_untouched(3,4) level_simps split: option.splits prod.splits if_splits
      dest!: agg_untouched(2))

lemma agg_priorityImpl: "priorityImpl k q b = Some (r, b') \<Longrightarrow> ladderAgg s b' = ladderAgg s b"
  by (auto simp: priorityImpl_def Let_def agg_untouched(4) level_simps split: option.splits if_splits)

lemma agg_addAll: "addAll os b = Some b' \<Longrightarrow> ladderAgg s b' = ladderAgg s b"
  by (induction os arbitrary: b) (auto split: option.splits dest: agg_addImpl)

lemma agg_trade: "ladderAgg s (snd (applyTrade p q a b)) = ladderAgg s b"
  by (auto simp: applyTrade_def consumeAtLevel_def level_simps agg_untouched(4) split: option.splits prod.splits)

lemma update_total:
  assumes "book_inv b" "key_update_fits k np nz b"
  shows "\<exists>r b'. updateImpl k np nz b = Some (r, b') \<and> book_inv b'"
proof (cases "map_of (byId b) k")
  case None
  then show ?thesis using assms by (auto simp: updateImpl_missing)
next
  case (Some loc)
  then obtain ord where ord: "deref b loc = Some ord"
    using assms(1) core_locate [of b k loc] by (auto simp: book_inv_iff)
  then have "update_fits ord np nz b" using assms(2) Some by (simp add: key_update_fits_def)
  from updateImpl_refines [OF assms(1) Some ord this] show ?thesis by metis
qed

lemma priority_total:
  assumes "book_inv b"
  shows "\<exists>r b'. priorityImpl k q b = Some (r, b') \<and> book_inv b'"
proof (cases "map_of (byId b) k")
  case None
  then show ?thesis using assms by (auto simp: priorityImpl_def)
next
  case (Some loc)
  then obtain ord where ord: "deref b loc = Some ord"
    using assms(1) core_locate [of b k loc] by (auto simp: book_inv_iff)
  from priorityImpl_refines [OF assms(1) Some ord] show ?thesis by metis
qed

lemma add_total:
  assumes "book_inv b" "fits o1 b"
  shows "\<exists>r b'. addImpl o1 b = Some (r, b') \<and> book_inv b'"
  using addImpl_refines [OF assms] by metis

lemma delete_total: "book_inv b \<Longrightarrow> \<exists>r b'. deleteImpl k b = Some (r, b') \<and> book_inv b'"
  using deleteImpl_refines [of b k] by metis

lemma trade_inv:
  assumes "book_inv b"
  shows "book_inv (snd (applyTrade p q a b))"
proof -
  have "book_inv (snd (consumeAtLevel s p q b))" for s
    using consumeAtLevel_refines [OF assms, of s p q] by (metis snd_conv)
  then show ?thesis using assms by (auto simp: applyTrade_def split: option.split prod.splits) (metis snd_conv)+
qed

lemma inv_ladderAgg: "book_inv (set_ladderAgg s l b) = book_inv b"
proof -
  have f: "findLevel s' p' (set_ladderAgg s l b) = findLevel s' p' b" for s' p' by (simp add: findLevel_def)
  have "deref (set_ladderAgg s l b) = deref b" by (simp add: deref_def f fun_eq_iff)
  moreover have "ladders_sorted (set_ladderAgg s l b) = ladders_sorted b"
    by (cases s) (simp_all add: ladders_sorted_def)
  ultimately show ?thesis by (simp add: book_inv_iff book_core_def no_empty_def f)
qed

lemma inv_putAgg: "book_inv (putAggLevel s p l b) = book_inv b"
  by (simp add: putAggLevel_def inv_ladderAgg)

lemma inv_getAgg: "getOrCreateAggLevel s p b = (l, b') \<Longrightarrow> book_inv b' = book_inv b"
  by (auto simp: getOrCreateAggLevel_def Let_def inv_putAgg split: option.splits)

lemma aggAll_inv: "book_inv b \<Longrightarrow> book_inv (aggAll es b)"
  by (induction es arbitrary: b) (auto simp: inv_putAgg inv_getAgg split: prod.split)

lemma aggAll_agg_inv: "agg_inv b \<Longrightarrow> agg_inv (aggAll es b)"
  by (induction es arbitrary: b) (auto simp: agg_write agg_put split: prod.split)

lemma agg_delete: "agg_inv b \<Longrightarrow> agg_inv (set_ladderAgg s (AList.delete p (ladderAgg s b)) b)"
  by (auto simp: agg_inv_sides agg_side_ok_def umap_simps side_order.wf_delete split: if_splits)

lemma exec_op_total:
  assumes inv: "book_inv b" and fits: "op_fits op b"
  shows "\<exists>b'. exec_op op b = Some b' \<and> book_inv b'"
proof (cases op)
  case (OpAdd o1)
  then have "fits (o1\<lparr>o_feedId := 0, o_epoch := 0\<rparr>) b" using fits by (simp add: fits_def)
  from add_total [OF inv this] show ?thesis by (auto simp: OpAdd applyAdd_def)
next
  case (OpAddScoped o1 sc miss)
  obtain copy b1 where c: "scopedCopy o1 sc miss b = (copy, b1)" by fastforce
  then have "book_inv b1" "fits copy b1" using inv fits scopedCopy_frame [OF c] OpAddScoped by simp_all
  from add_total [OF this] show ?thesis by (auto simp: OpAddScoped applyAddScoped_def c)
next
  case (OpAddGetKey o1 sc miss)
  obtain copy b1 where c: "scopedCopy o1 sc miss b = (copy, b1)" by fastforce
  then have "book_inv b1" "fits copy b1" using inv fits scopedCopy_frame [OF c] OpAddGetKey by simp_all
  from add_total [OF this] show ?thesis by (auto simp: OpAddGetKey applyAddGetKey_def c)
next
  case (OpUpdate k np nz)
  then have "key_update_fits k np nz b" using fits by simp
  from update_total [OF inv this] show ?thesis by (auto simp: OpUpdate applyUpdate_def)
next
  case (OpUpdateId i np nz)
  then have "key_update_fits (makeKey i scope0 False) np nz b" using fits by simp
  from update_total [OF inv this] show ?thesis by (auto simp: OpUpdateId applyUpdateId_def)
next
  case (OpDelete k)
  then show ?thesis using delete_total [OF inv, of k] by (auto simp: applyDelete_def)
next
  case (OpDeleteId i)
  then show ?thesis using delete_total [OF inv, of "makeKey i scope0 False"] by (auto simp: applyDeleteId_def)
next
  case (OpPriority k q)
  from priority_total [OF inv, of k q] show ?thesis by (auto simp: OpPriority applyPriority_def)
next
  case (OpPriorityId i q)
  from priority_total [OF inv, of "makeKey i scope0 False" q] show ?thesis by (auto simp: OpPriorityId applyPriorityId_def)
next
  case (OpTrade p q a)
  then show ?thesis using trade_inv [OF inv] by simp
next
  case (OpSnapshotPerOrder os)
  have "qsum (book_view (clearPerOrderUnlocked b) s p) + qsum os < 2 ^ 64" for s p
    using fits OpSnapshotPerOrder by (simp add: clear_view spec_empty_def)
  from addAll_refines [OF clear_inv this] show ?thesis by (auto simp: OpSnapshotPerOrder applySnapshotPerOrder_def)
next
  case (OpSnapshotAggregated es)
  have "book_inv (set_ladderAgg Ask [] (set_ladderAgg Bid [] b))" using inv by (simp only: inv_ladderAgg)
  then have "book_inv (clearAggregatedUnlocked b)" by (simp add: clearAggregatedUnlocked_def)
  then show ?thesis by (simp add: OpSnapshotAggregated applySnapshotAggregated_def aggAll_inv)
next
  case (OpLevelSummary s p t c)
  then show ?thesis using inv
    by (auto simp: applyLevelSummary_def inv_ladderAgg inv_putAgg inv_getAgg split: prod.split)
qed

lemma exec_op_agg:
  assumes "agg_inv b" "exec_op op b = Some b'"
  shows "agg_inv b'"
proof -
  have same: "agg_inv b'" if "\<And>s. ladderAgg s b' = ladderAgg s b"
    using that assms(1) by (simp add: agg_inv_sides)
  show ?thesis
  proof (cases op)
    case (OpTrade p q a)
    then show ?thesis using assms(2) by (intro same) (auto simp: agg_trade)
  next
    case (OpLevelSummary s p t c)
    then show ?thesis using assms
      by (auto simp: applyLevelSummary_def agg_delete agg_write agg_put split: prod.splits)
  next
    case (OpSnapshotAggregated es)
    have "agg_inv (clearAggregatedUnlocked b)" by (simp add: agg_inv_def clearAggregatedUnlocked_def checkAgg_def)
    then show ?thesis using assms OpSnapshotAggregated by (auto simp: applySnapshotAggregated_def aggAll_agg_inv)
  next
    case (OpSnapshotPerOrder os)
    have "ladderAgg s (clearPerOrderUnlocked b) = ladderAgg s b" for s
      by (cases s) (simp_all add: clearPerOrderUnlocked_def)
    then show ?thesis using assms OpSnapshotPerOrder by (intro same) (auto simp: applySnapshotPerOrder_def dest: agg_addAll)
  qed (use assms(2) in \<open>auto intro!: same simp: applyAdd_def applyAddScoped_def applyAddGetKey_def applyUpdate_def
      applyUpdateId_def applyDelete_def applyDeleteId_def applyPriority_def applyPriorityId_def
      agg_addImpl agg_updateImpl agg_priorityImpl agg_untouched(1) scopedCopy_frame(10) split: prod.splits option.splits\<close>)
qed

section \<open>The code's own consistency check\<close>

lemma foldl_sizes:
  "unat acc + lsum os < 2 ^ 64 \<Longrightarrow> unat (foldl (\<lambda>acc (_, o1). acc + o_size o1) acc os) = unat acc + lsum os"
proof (induction os arbitrary: acc)
  case (Cons x os)
  obtain n o1 where x: "x = (n, o1)" by (cases x)
  have "unat (acc + o_size o1) = unat acc + unat (o_size o1)" using Cons.prems by (intro unat_add_no_overflow) (simp add: x)
  then show ?case using Cons.IH [of "acc + o_size o1"] Cons.prems by (simp add: x)
qed simp

lemma level_ok_sum:
  assumes "level_ok s p nx l"
  shows "foldl (\<lambda>acc (_, o1). acc + o_size o1) 0 (orders l) = totalSize l"
proof -
  have "lsum (orders l) < 2 ^ 64" using assms unat_lt_2_64 [of "totalSize l"] by (simp add: level_ok_def del: unat_lt_2_64)
  then have "unat (foldl (\<lambda>acc (_, o1). acc + o_size o1) 0 (orders l)) = lsum (orders l)" using foldl_sizes [of 0] by simp
  then show ?thesis using assms by (simp add: level_ok_def word_unat_eq_iff)
qed

lemma checkSide_ok: "book_inv b \<Longrightarrow> checkSide (ladder s b)"
  by (cases s) (auto simp: book_inv_def ladder_ok_def checkSide_def list_all_iff dest!: level_ok_sum)

lemma checkLocators_ok:
  assumes "list_all (\<lambda>(k, loc). case deref b loc of None \<Rightarrow> False | Some o1 \<Rightarrow> makeKeyFromOrder o1 = k) m"
  shows "checkLocators m b = Some None"
  using assms by (induction m) (auto simp: deref_def split: option.splits)

lemma checkInvariants_ok: "book_inv b \<Longrightarrow> agg_inv b \<Longrightarrow> checkInvariants b = Some None"
  using checkSide_ok [of b Bid] checkSide_ok [of b Ask] checkLocators_ok [of b "byId b"]
  by (simp add: checkInvariants_def book_inv_def agg_inv_def)

lemma init_inv: "book_inv OrderBook_init" "agg_inv OrderBook_init"
  by (simp_all add: book_inv_def agg_inv_def ladder_ok_def OrderBook_init_def checkAgg_def)

lemma book_run_inv:
  "ops_fit ops b \<Longrightarrow> book_inv b \<Longrightarrow> agg_inv b \<Longrightarrow> \<exists>b'. book_run ops b = Some b' \<and> book_inv b' \<and> agg_inv b'"
proof (induction ops arbitrary: b)
  case (Cons op ops)
  then obtain b1 where "exec_op op b = Some b1" "book_inv b1" using exec_op_total by fastforce
  moreover from this Cons.prems have "agg_inv b1" using exec_op_agg by blast
  ultimately show ?case using Cons by simp
qed simp

section \<open>Theorems\<close>

definition demo_order :: "u64 \<Rightarrow> Side \<Rightarrow> Price \<Rightarrow> u64 \<Rightarrow> Order" where
  "demo_order i s p z = \<lparr> o_id = i, o_side = s, o_price = p, o_size = z, o_priority = 0, o_feedId = 0, o_epoch = 0,
     o_synthetic = False \<rparr>"

definition demo_ops :: "book_op list" where
  "demo_ops = [OpAdd (demo_order 1 Bid 100 10), OpAdd (demo_order 2 Bid 100 5), OpAdd (demo_order 3 Bid 99 7),
     OpAddGetKey (demo_order 0 Ask 102 4) scope0 True, OpUpdateId 3 (Some 98) (Some 9)]"

definition demo_book :: OrderBook where
  "demo_book = (case book_run demo_ops OrderBook_init of Some b \<Rightarrow> b | None \<Rightarrow> OrderBook_init)"

text \<open>C1. Any sequence of public book operations in which no level total overflows 64 bits runs
  without following a dangling iterator, and ends in a book that satisfies the representation
  invariant and passes \<open>checkInvariants\<close>.\<close>

theorem book_run_safe:
  assumes "ops_fit ops OrderBook_init"
  shows "\<exists>b. book_run ops OrderBook_init = Some b \<and> book_inv b \<and> agg_inv b \<and> checkInvariants b = Some None"
  using book_run_inv [OF assms init_inv] checkInvariants_ok by blast

theorem book_run_safe_witness:
  "ops_fit demo_ops OrderBook_init \<and>
   (\<exists>b. book_run demo_ops OrderBook_init = Some b \<and> book_inv b \<and> agg_inv b \<and> checkInvariants b = Some None)"
proof -
  have "ops_fit demo_ops OrderBook_init" by code_simp
  with book_run_safe [of demo_ops] show ?thesis by blast
qed

lemma demo_book_inv: "book_inv demo_book"
  by code_simp

text \<open>C4. Adding an order (any overload goes through the same copy) puts it at the back of the
  queue of its side and price, after removing an order with the same key; the returned key
  locates it.\<close>

theorem applyAddGetKey_refines:
  assumes "book_inv b" and "fits o1 b"
  shows "\<exists>copy b1 b'. scopedCopy o1 sc miss b = (copy, b1) \<and>
    applyAddGetKey o1 sc miss b = Some (makeKeyFromOrder copy, b') \<and>
    applyAddScoped o1 sc miss b = Some (True, b') \<and> book_inv b' \<and>
    book_view b' = spec_add copy (book_view b) \<and>
    locate (makeKeyFromOrder copy) b' = Some (o_side o1, o_price o1)"
proof -
  obtain copy b1 where c: "scopedCopy o1 sc miss b = (copy, b1)" by fastforce
  note fr = scopedCopy_frame [OF c]
  have "book_inv b1" "fits copy b1" using assms fr by simp_all
  then obtain b' where "addImpl copy b1 = Some (True, b')" "book_inv b'" "book_view b' = spec_add copy (book_view b1)"
    "map_of (byId b') (makeKeyFromOrder copy) = Some \<lparr>l_side = o_side copy, l_price = o_price copy, l_it = next_node b1\<rparr>"
    using addImpl_refines by metis
  then show ?thesis using c fr by (simp add: applyAddGetKey_def applyAddScoped_def locate_def)
qed

theorem applyAddGetKey_refines_witness:
  "\<exists>copy b1 b'. scopedCopy (demo_order 0 Ask 102 6) scope0 True demo_book = (copy, b1) \<and>
    applyAddGetKey (demo_order 0 Ask 102 6) scope0 True demo_book = Some (makeKeyFromOrder copy, b') \<and>
    applyAddScoped (demo_order 0 Ask 102 6) scope0 True demo_book = Some (True, b') \<and> book_inv b' \<and>
    book_view b' = spec_add copy (book_view demo_book) \<and>
    locate (makeKeyFromOrder copy) b' = Some (o_side (demo_order 0 Ask 102 6), o_price (demo_order 0 Ask 102 6))"
proof -
  have "fits (demo_order 0 Ask 102 6) demo_book" by code_simp
  then show ?thesis by (rule applyAddGetKey_refines [OF demo_book_inv])
qed

text \<open>C2. Updating an order that rests in the book: a target size of zero removes it; a new size
  at the same price keeps its place in the queue; a new price moves it to the back of the queue at
  that price. The result is true exactly when something changed, and an unknown key changes
  nothing.\<close>

theorem applyUpdate_refines:
  assumes "book_inv b" and "key_update_fits k np nz b"
  shows "(case map_of (byId b) k of
      None \<Rightarrow> applyUpdate k np nz b = Some (False, b)
    | Some loc \<Rightarrow> \<exists>ord b'. deref b loc = Some ord \<and> makeKeyFromOrder ord = k \<and>
        applyUpdate k np nz b =
          Some (tgt_size ord nz = 0 \<or> tgt_price ord np \<noteq> o_price ord \<or> tgt_size ord nz \<noteq> o_size ord, b') \<and>
        book_inv b' \<and> book_view b' = spec_update ord np nz (book_view b))"
proof (cases "map_of (byId b) k")
  case None
  then show ?thesis by (simp add: applyUpdate_def updateImpl_missing)
next
  case (Some loc)
  obtain ord where ord: "deref b loc = Some ord" "makeKeyFromOrder ord = k"
    using assms(1) core_locate [OF _ Some] unfolding book_inv_iff by metis
  then have "update_fits ord np nz b" using assms(2) Some by (simp add: key_update_fits_def)
  from updateImpl_refines [OF assms(1) Some ord(1) this] obtain b' where
    "updateImpl k np nz b =
       Some (tgt_size ord nz = 0 \<or> tgt_price ord np \<noteq> o_price ord \<or> tgt_size ord nz \<noteq> o_size ord, b')"
    "book_inv b'" "book_view b' = spec_update ord np nz (book_view b)" by metis
  then show ?thesis using Some ord by (auto simp: applyUpdate_def)
qed

theorem applyUpdate_refines_witness:
  "(case map_of (byId demo_book) (makeKey 1 scope0 False) of
      None \<Rightarrow> applyUpdate (makeKey 1 scope0 False) (Some 99) None demo_book = Some (False, demo_book)
    | Some loc \<Rightarrow> \<exists>ord b'. deref demo_book loc = Some ord \<and> makeKeyFromOrder ord = makeKey 1 scope0 False \<and>
        applyUpdate (makeKey 1 scope0 False) (Some 99) None demo_book =
          Some (tgt_size ord None = 0 \<or> tgt_price ord (Some 99) \<noteq> o_price ord \<or> tgt_size ord None \<noteq> o_size ord, b') \<and>
        book_inv b' \<and> book_view b' = spec_update ord (Some 99) None (book_view demo_book))"
proof -
  have "key_update_fits (makeKey 1 scope0 False) (Some 99) None demo_book" by code_simp
  then show ?thesis by (rule applyUpdate_refines [OF demo_book_inv])
qed

text \<open>Deleting a key removes exactly the order with that key, if there is one, and reports
  whether there was; afterwards the key locates nothing.\<close>

theorem applyDelete_refines:
  assumes "book_inv b"
  shows "\<exists>b'. applyDelete k b = Some (locate k b \<noteq> None, b') \<and> book_inv b' \<and>
    book_view b' = spec_delete k (book_view b) \<and> locate k b' = None \<and> (\<forall>k'. k' \<noteq> k \<longrightarrow> locate k' b' = locate k' b)"
proof -
  have "(locate k b \<noteq> None) = (map_of (byId b) k \<noteq> None)" by (simp add: locate_def split: option.split)
  moreover obtain b' where "deleteImpl k b = Some (map_of (byId b) k \<noteq> None, b')" "book_inv b'"
    "book_view b' = spec_delete k (book_view b)" "map_of (byId b') = (map_of (byId b))(k := None)"
    using deleteImpl_refines [OF assms, of k] by metis
  ultimately show ?thesis by (intro exI [of _ b']) (simp add: applyDelete_def locate_def)
qed

theorem applyDelete_refines_witness:
  "\<exists>b'. applyDelete (makeKey 2 scope0 False) demo_book = Some (locate (makeKey 2 scope0 False) demo_book \<noteq> None, b') \<and>
    book_inv b' \<and> book_view b' = spec_delete (makeKey 2 scope0 False) (book_view demo_book) \<and>
    locate (makeKey 2 scope0 False) b' = None \<and>
    (\<forall>k'. k' \<noteq> makeKey 2 scope0 False \<longrightarrow> locate k' b' = locate k' demo_book)"
  by (rule applyDelete_refines [OF demo_book_inv])

text \<open>A priority change moves the order to the back of the queue of its own level, with the
  new priority and the same size and price; an unchanged priority or an unknown key changes
  nothing.\<close>

theorem applyPriority_refines:
  assumes "book_inv b"
  shows "(case map_of (byId b) k of
      None \<Rightarrow> applyPriority k q b = Some (False, b)
    | Some loc \<Rightarrow> \<exists>ord b'. deref b loc = Some ord \<and> makeKeyFromOrder ord = k \<and>
        applyPriority k q b = Some (o_priority ord \<noteq> q, b') \<and> book_inv b' \<and>
        book_view b' = (if o_priority ord = q then book_view b else spec_move_back k q (book_view b)))"
proof (cases "map_of (byId b) k")
  case None
  then show ?thesis by (simp add: applyPriority_def priorityImpl_def)
next
  case (Some loc)
  obtain ord where ord: "deref b loc = Some ord" "makeKeyFromOrder ord = k"
    using assms(1) core_locate [OF _ Some] unfolding book_inv_iff by metis
  obtain b' where "priorityImpl k q b = Some (o_priority ord \<noteq> q, b')" "book_inv b'"
    "book_view b' = (if o_priority ord = q then book_view b else spec_move_back k q (book_view b))"
    using priorityImpl_refines [OF assms(1) Some ord(1)] by metis
  then show ?thesis using Some ord by (auto simp: applyPriority_def)
qed

theorem applyPriority_refines_witness:
  "(case map_of (byId demo_book) (makeKey 1 scope0 False) of
      None \<Rightarrow> applyPriority (makeKey 1 scope0 False) 9 demo_book = Some (False, demo_book)
    | Some loc \<Rightarrow> \<exists>ord b'. deref demo_book loc = Some ord \<and> makeKeyFromOrder ord = makeKey 1 scope0 False \<and>
        applyPriority (makeKey 1 scope0 False) 9 demo_book = Some (o_priority ord \<noteq> 9, b') \<and> book_inv b' \<and>
        book_view b' = (if o_priority ord = 9 then book_view demo_book
                        else spec_move_back (makeKey 1 scope0 False) 9 (book_view demo_book)))"
  by (rule applyPriority_refines [OF demo_book_inv])

lemma view_ladder:
  assumes "book_inv b"
  shows "book_view b s p \<noteq> [] \<longleftrightarrow> p \<in> set (map fst (ladder s b))"
proof -
  have "findLevel s p b = None \<longleftrightarrow> p \<notin> set (map fst (ladder s b))" by (simp add: findLevel_def map_of_eq_None_iff)
  then show ?thesis using assms by (auto simp: book_view_def book_inv_iff no_empty_def split: option.splits)
qed

lemma ladder_level:
  assumes "book_inv b" "(p, l) \<in> set (ladder s b)"
  shows "unat (totalSize l) = qsum (book_view b s p)"
proof -
  have "om_wf (side_lt s) (ladder s b)" using assms(1) by (cases s) (auto simp: book_inv_def ladder_ok_def)
  then have "findLevel s p b = Some l" using assms(2) by (simp add: findLevel_def om_find_mem)
  then show ?thesis using core_levelSize [of b s p] assms(1) by (simp add: book_inv_iff levelSize_def)
qed

lemma ladder_sorted: "book_inv b \<Longrightarrow> om_wf (side_lt s) (ladder s b)"
  by (cases s) (auto simp: book_inv_def ladder_ok_def)

lemma ladder_head:
  assumes "book_inv b" "ladder s b = (p, l) # ld"
  shows "book_view b s p \<noteq> [] \<and> unat (totalSize l) = qsum (book_view b s p) \<and>
    (\<forall>p'. book_view b s p' \<noteq> [] \<longrightarrow> p' = p \<or> side_lt s p p')"
  using ladder_sorted [OF assms(1), of s] ladder_level [OF assms(1), of p l s] view_ladder [OF assms(1), of s]
  by (auto simp: assms(2))

lemma ladder_Nil: "book_inv b \<Longrightarrow> ladder s b = [] \<Longrightarrow> book_view b s p = []"
  using view_ladder [of b s p] by simp

text \<open>The top of book is the best price of each side at which an order rests, and its size
  is the exact sum of the orders there.\<close>

theorem top_of_book:
  assumes "book_inv b"
  shows "(case bestBid b of
        None \<Rightarrow> (\<forall>p. book_view b Bid p = []) \<and> bestBidSize b = 0
      | Some p \<Rightarrow> book_view b Bid p \<noteq> [] \<and> (\<forall>p'. book_view b Bid p' \<noteq> [] \<longrightarrow> p' \<le> p) \<and>
          unat (bestBidSize b) = qsum (book_view b Bid p)) \<and>
    (case bestAsk b of
        None \<Rightarrow> (\<forall>p. book_view b Ask p = []) \<and> bestAskSize b = 0
      | Some p \<Rightarrow> book_view b Ask p \<noteq> [] \<and> (\<forall>p'. book_view b Ask p' \<noteq> [] \<longrightarrow> p \<le> p') \<and>
          unat (bestAskSize b) = qsum (book_view b Ask p))"
  using ladder_head [OF assms, of Bid] ladder_head [OF assms, of Ask] ladder_Nil [OF assms, of Bid] ladder_Nil [OF assms, of Ask]
  by (force simp: bestBid_def bestAsk_def bestBidSize_def bestAskSize_def split: list.split prod.split)

theorem top_of_book_witness:
  "(case bestBid demo_book of
        None \<Rightarrow> (\<forall>p. book_view demo_book Bid p = []) \<and> bestBidSize demo_book = 0
      | Some p \<Rightarrow> book_view demo_book Bid p \<noteq> [] \<and> (\<forall>p'. book_view demo_book Bid p' \<noteq> [] \<longrightarrow> p' \<le> p) \<and>
          unat (bestBidSize demo_book) = qsum (book_view demo_book Bid p)) \<and>
    (case bestAsk demo_book of
        None \<Rightarrow> (\<forall>p. book_view demo_book Ask p = []) \<and> bestAskSize demo_book = 0
      | Some p \<Rightarrow> book_view demo_book Ask p \<noteq> [] \<and> (\<forall>p'. book_view demo_book Ask p' \<noteq> [] \<longrightarrow> p \<le> p') \<and>
          unat (bestAskSize demo_book) = qsum (book_view demo_book Ask p))"
  by (rule top_of_book [OF demo_book_inv])

text \<open>\<open>forEachLevel\<close> reports the best \<open>n\<close> price levels of a side, best first, each once, with
  the exact resting size, and leaves out a level only in favour of \<open>n\<close> better ones.\<close>

theorem forEachLevel_best:
  fixes s :: Side and n :: u64
  assumes "book_inv b"
  defines "out \<equiv> forEachLevel s n b"
  shows "sorted_wrt (side_lt s) (map fst out) \<and>
    (\<forall>p z. (p, z) \<in> set out \<longrightarrow> book_view b s p \<noteq> [] \<and> unat z = qsum (book_view b s p)) \<and>
    length out \<le> unat n \<and>
    (\<forall>p. book_view b s p \<noteq> [] \<longrightarrow> p \<in> set (map fst out) \<or>
       (length out = unat n \<and> (\<forall>p'\<in>set (map fst out). side_lt s p' p)))"
proof (intro conjI allI impI)
  note wf = ladder_sorted [OF assms(1), of s]
  let ?ld = "ladder s b"
  have fst_out: "map fst out = take (unat n) (map fst ?ld)"
    by (simp add: out_def forEachLevel_def take_map [symmetric] case_prod_beta o_def)
  show "sorted_wrt (side_lt s) (map fst out)" using wf by (simp add: fst_out sorted_wrt_take)
  show "length out \<le> unat n" by (simp add: out_def forEachLevel_def)
  fix p
  show "book_view b s p \<noteq> []" "unat z = qsum (book_view b s p)" if "(p, z) \<in> set out" for z
  proof -
    from that obtain l where l: "(p, l) \<in> set ?ld" "z = totalSize l"
      by (auto simp: out_def forEachLevel_def dest: in_set_takeD)
    show "unat z = qsum (book_view b s p)" using ladder_level [OF assms(1) l(1)] l(2) by simp
    show "book_view b s p \<noteq> []" using view_ladder [OF assms(1)] l(1) by force
  qed
  assume "book_view b s p \<noteq> []"
  then have p: "p \<in> set (map fst ?ld)" using view_ladder [OF assms(1)] by simp
  have split: "map fst ?ld = map fst out @ drop (unat n) (map fst ?ld)" by (simp add: fst_out)
  show "p \<in> set (map fst out) \<or> (length out = unat n \<and> (\<forall>p'\<in>set (map fst out). side_lt s p' p))"
  proof (cases "p \<in> set (map fst out)")
    case False
    then have d: "p \<in> set (drop (unat n) (map fst ?ld))" using p by (metis split Un_iff set_append)
    then have "length out = unat n"
      by (metis drop_all fst_out length_map length_take list.set(1) empty_iff linorder_not_le min.absorb4 min.commute nat_le_linear)
    moreover have "sorted_wrt (side_lt s) (map fst out @ drop (unat n) (map fst ?ld))" using wf split by simp
    then have "\<forall>p'\<in>set (map fst out). side_lt s p' p" using d by (simp add: sorted_wrt_append)
    ultimately show ?thesis by simp
  qed simp
qed

theorem forEachLevel_best_witness:
  "forEachLevel Bid 1 demo_book = [(100, 15)] \<and> unat (15 :: u64) = qsum (book_view demo_book Bid 100) \<and>
   \<not> (\<exists>p. book_view demo_book Bid p \<noteq> [] \<and> p > 100)"
proof -
  have out: "forEachLevel Bid 1 demo_book = [(100, 15)]" by code_simp
  from forEachLevel_best [OF demo_book_inv, of Bid 1] show ?thesis by (auto simp: out)
qed

lemma passiveSide_Unknown:
  "passiveSide p Unknown b =
    (if (case bestBid b of Some bb \<Rightarrow> p \<le> bb | None \<Rightarrow> False) then Some Bid
     else if (case bestAsk b of Some ba \<Rightarrow> p \<ge> ba | None \<Rightarrow> False) then Some Ask else None)"
  by (auto simp: passiveSide_def bestBid_def bestAsk_def split: list.split)

text \<open>C3. A trade fills the queue at its price on the passive side from the front and touches
  nothing else; the passive side is opposite to a known aggressor, and otherwise the bid side at
  or below the best bid, the ask side at or above the best ask. The size resting there drops by the
  traded quantity (or to zero), and the result tells whether anything was consumed.\<close>

theorem applyTrade_fills:
  assumes "book_inv b"
  shows "\<exists>r b'. applyTrade p q a b = (r, b') \<and> book_inv b' \<and>
    (case (case a of Buy \<Rightarrow> Some Ask | Sell \<Rightarrow> Some Bid
           | Unknown \<Rightarrow> if (case bestBid b of Some bb \<Rightarrow> p \<le> bb | None \<Rightarrow> False) then Some Bid
                       else if (case bestAsk b of Some ba \<Rightarrow> p \<ge> ba | None \<Rightarrow> False) then Some Ask else None) of
       None \<Rightarrow> \<not> r \<and> b' = b
     | Some s \<Rightarrow> book_view b' = spec_fill s p (unat q) (book_view b) \<and>
         unat (levelSize s p b') = unat (levelSize s p b) - unat q \<and>
         (r \<longleftrightarrow> q \<noteq> 0 \<and> levelSize s p b \<noteq> 0))"
proof -
  have ps: "(case a of Buy \<Rightarrow> Some Ask | Sell \<Rightarrow> Some Bid
      | Unknown \<Rightarrow> if (case bestBid b of Some bb \<Rightarrow> p \<le> bb | None \<Rightarrow> False) then Some Bid
                  else if (case bestAsk b of Some ba \<Rightarrow> p \<ge> ba | None \<Rightarrow> False) then Some Ask else None)
      = passiveSide p a b"
    by (cases a) (simp_all add: passiveSide_Unknown, simp_all add: passiveSide_def)
  show ?thesis unfolding ps
  proof (cases "passiveSide p a b")
    case None
    then show "\<exists>r b'. applyTrade p q a b = (r, b') \<and> book_inv b' \<and> (case passiveSide p a b of
       None \<Rightarrow> \<not> r \<and> b' = b
     | Some s \<Rightarrow> book_view b' = spec_fill s p (unat q) (book_view b) \<and>
         unat (levelSize s p b') = unat (levelSize s p b) - unat q \<and> (r \<longleftrightarrow> q \<noteq> 0 \<and> levelSize s p b \<noteq> 0))"
      using assms by (auto simp: applyTrade_def)
  next
    case (Some s)
    obtain c b' where c: "consumeAtLevel s p q b = (c, b')" "book_inv b'" "book_view b' = spec_fill s p (unat q) (book_view b)"
      "unat c = min (unat q) (qsum (book_view b s p))"
      using consumeAtLevel_refines [OF assms, of s p q] by metis
    have sz: "unat (levelSize s p b') = unat (levelSize s p b) - unat q"
      using assms c by (simp add: core_levelSize book_inv_iff spec_fill_def qsum_fill)
    have pos: "(c > 0) = (q \<noteq> 0 \<and> levelSize s p b \<noteq> 0)"
      using c(4) core_levelSize [of b s p] assms by (auto simp: book_inv_iff word_greater_zero_iff unat_eq_0 [symmetric] min_def)
    have zero: "q = 0 \<Longrightarrow> b' = b" using c(1) by (auto simp: consumeAtLevel_def split: option.splits)
    show "\<exists>r b'. applyTrade p q a b = (r, b') \<and> book_inv b' \<and> (case passiveSide p a b of
       None \<Rightarrow> \<not> r \<and> b' = b
     | Some s \<Rightarrow> book_view b' = spec_fill s p (unat q) (book_view b) \<and>
         unat (levelSize s p b') = unat (levelSize s p b) - unat q \<and> (r \<longleftrightarrow> q \<noteq> 0 \<and> levelSize s p b \<noteq> 0))"
      using Some c sz pos zero by (intro exI [of _ "q \<noteq> 0 \<and> levelSize s p b \<noteq> 0"] exI [of _ b']) (simp add: applyTrade_def)
  qed
qed

theorem applyTrade_fills_witness:
  "\<exists>r b'. applyTrade 100 12 Sell demo_book = (r, b') \<and> book_inv b' \<and>
    (case (case Sell of Buy \<Rightarrow> Some Ask | Sell \<Rightarrow> Some Bid
           | Unknown \<Rightarrow> if (case bestBid demo_book of Some bb \<Rightarrow> (100 :: int) \<le> bb | None \<Rightarrow> False) then Some Bid
                       else if (case bestAsk demo_book of Some ba \<Rightarrow> 100 \<ge> ba | None \<Rightarrow> False) then Some Ask else None) of
       None \<Rightarrow> \<not> r \<and> b' = demo_book
     | Some s \<Rightarrow> book_view b' = spec_fill s 100 (unat (12 :: u64)) (book_view demo_book) \<and>
         unat (levelSize s 100 b') = unat (levelSize s 100 demo_book) - unat (12 :: u64) \<and>
         (r \<longleftrightarrow> (12 :: u64) \<noteq> 0 \<and> levelSize s 100 demo_book \<noteq> 0))"
  by (rule applyTrade_fills [OF demo_book_inv])

text \<open>A per-order snapshot replaces the whole per-order book by its orders, taken in sequence,
  whatever the book held before, and keeps the aggregated levels.\<close>

theorem applySnapshotPerOrder_replaces:
  assumes "qsum os < 2 ^ 64"
  shows "\<exists>b'. applySnapshotPerOrder os b = Some b' \<and> book_inv b' \<and> book_view b' = spec_load os spec_empty \<and>
    ladderAgg s b' = ladderAgg s b"
proof -
  have "qsum (book_view (clearPerOrderUnlocked b) s p) + qsum os < 2 ^ 64" for s p
    using assms by (simp add: clear_view spec_empty_def)
  from addAll_refines [OF clear_inv this] obtain b' where
    "addAll os (clearPerOrderUnlocked b) = Some b'" "book_inv b'" "book_view b' = spec_load os spec_empty"
    unfolding clear_view by blast
  moreover have "ladderAgg s (clearPerOrderUnlocked b) = ladderAgg s b"
    by (cases s) (simp_all add: clearPerOrderUnlocked_def)
  ultimately show ?thesis using agg_addAll [of os "clearPerOrderUnlocked b" b' s] by (simp add: applySnapshotPerOrder_def)
qed

theorem applySnapshotPerOrder_replaces_witness:
  "\<exists>b'. applySnapshotPerOrder [demo_order 7 Bid 90 3, demo_order 8 Ask 95 2] demo_book = Some b' \<and> book_inv b' \<and>
    book_view b' = spec_load [demo_order 7 Bid 90 3, demo_order 8 Ask 95 2] spec_empty \<and>
    ladderAgg Bid b' = ladderAgg Bid demo_book"
proof -
  have "qsum [demo_order 7 Bid 90 3, demo_order 8 Ask 95 2] < 2 ^ 64" by code_simp
  then show ?thesis by (rule applySnapshotPerOrder_replaces)
qed

text \<open>The 64-bit totals do wrap: two orders whose sizes add up to more than 64 bits, followed
  by the deletion of the first, leave a level whose total the code's own check rejects.\<close>

theorem overflow_detected:
  "map_option checkInvariants (book_run
     [OpAdd (demo_order 1 Bid 100 18446744073709551615), OpAdd (demo_order 2 Bid 100 2), OpDeleteId 1] OrderBook_init)
   = Some (Some (Some ''per-order: level.totalSize mismatch with order sum''))"
  by code_simp

section \<open>Synthetic identifiers\<close>

lemma scopeKey_feedId: "ucast (drop_bit 32 (scopeKey sc)) = fs_feedId sc"
  by (rule bit_word_eqI) (auto simp: scopeKey_def bit_simps dest: bit_imp_le_length)

lemma scopeKey_epoch: "ucast (scopeKey sc) = fs_epoch sc"
  by (rule bit_word_eqI) (auto simp: scopeKey_def bit_simps)

lemma scopeKey_inj: "scopeKey sc = scopeKey sc' \<longleftrightarrow> sc = sc'"
  by (metis scopeKey_feedId scopeKey_epoch FeedScope.equality old.unit.exhaust)

text \<open>Successive identifier requests from interleaved scopes.\<close>

fun synth_run :: "FeedScope list \<Rightarrow> OrderBook \<Rightarrow> u64 list" where
  "synth_run [] b = []"
| "synth_run (sc # scs) b = (case nextSyntheticId sc b of (i, b1) \<Rightarrow> i # synth_run scs b1)"

definition next_id :: "OrderBook \<Rightarrow> FeedScope \<Rightarrow> u64" where
  "next_id b sc = (case map_of (synthCounters b) (scopeKey sc) of None \<Rightarrow> 1 | Some v \<Rightarrow> v)"

lemma nextSyntheticId_eq:
  "nextSyntheticId sc b = (next_id b sc, b1) \<Longrightarrow> next_id b1 sc' = (if sc' = sc then next_id b sc + 1 else next_id b sc')"
  by (auto simp: nextSyntheticId_def next_id_def Let_def umap_simps scopeKey_inj split: option.splits)

lemma synth_run_ids:
  assumes "i < length scs"
  shows "synth_run scs b ! i = next_id b (scs ! i) + of_nat (count_list (take i scs) (scs ! i))"
  using assms
proof (induction scs arbitrary: b i)
  case (Cons sc scs)
  obtain b1 where n: "nextSyntheticId sc b = (next_id b sc, b1)"
    by (cases "map_of (synthCounters b) (scopeKey sc)") (auto simp: nextSyntheticId_def next_id_def Let_def)
  show ?case
  proof (cases i)
    case (Suc j)
    then have "synth_run scs b1 ! j = next_id b1 (scs ! j) + of_nat (count_list (take j scs) (scs ! j))"
      using Cons by simp
    then show ?thesis using Suc n nextSyntheticId_eq [OF n] by (simp add: add.assoc)
  qed (use n in simp)
qed simp

text \<open>Starting from a new book, the synthetic identifiers handed out for interleaved feed
  scopes are never zero and never repeat within a scope, as long as fewer than 2^64 - 1 are
  requested.\<close>

theorem synthetic_ids_unique:
  assumes "length scs < 2 ^ 64 - 1"
  shows "distinct (zip scs (synth_run scs OrderBook_init)) \<and> 0 \<notin> set (synth_run scs OrderBook_init)"
proof -
  let ?ids = "synth_run scs OrderBook_init"
  have len: "length ?ids = length scs" for b
  proof -
    have "length (synth_run scs b) = length scs" for b
      by (induction scs arbitrary: b) (auto split: prod.split)
    then show ?thesis .
  qed
  have id: "unat (?ids ! i) = 1 + count_list (take i scs) (scs ! i)" if i: "i < length scs" for i
  proof -
    have "count_list (take i scs) (scs ! i) \<le> length scs"
      using count_le_length [of "take i scs" "scs ! i"] by simp
    then have "1 + count_list (take i scs) (scs ! i) < 2 ^ 64" using assms by simp
    moreover have "?ids ! i = of_nat (1 + count_list (take i scs) (scs ! i))"
      using synth_run_ids [OF i, of OrderBook_init] by (simp add: next_id_def OrderBook_init_def)
    ultimately show ?thesis by (simp add: unsigned_of_nat take_bit_nat_eq_self del: of_nat_Suc of_nat_add)
  qed
  have lt: "count_list (take i scs) (scs ! i) < count_list (take j scs) (scs ! i)" if "i < j" "j < length scs" for i j
  proof -
    have "take j scs = take i scs @ (scs ! i) # drop (Suc i) (take j scs)"
      using id_take_nth_drop [of i "take j scs"] that by (simp add: min_absorb1)
    then have "count_list (take j scs) (scs ! i) = count_list (take i scs) (scs ! i) + 1
        + count_list (drop (Suc i) (take j scs)) (scs ! i)"
      by (metis (no_types, opaque_lifting) add.assoc count_list.simps(2) count_list_append add.commute)
    then show ?thesis by simp
  qed
  have "?ids ! i \<noteq> ?ids ! j" if "i < length scs" "j < length scs" "i \<noteq> j" "scs ! i = scs ! j" for i j
    using id [OF that(1)] id [OF that(2)] lt [of i j] lt [of j i] that by (metis linorder_neqE_nat less_irrefl nat_add_left_cancel_less)
  then have "distinct (zip scs ?ids)" by (auto simp: distinct_conv_nth len)
  moreover have "x \<noteq> 0" if "x \<in> set ?ids" for x
    using that id len by (auto simp: in_set_conv_nth unat_eq_0 [symmetric])
  ultimately show ?thesis by blast
qed

theorem synthetic_ids_unique_witness:
  "distinct (zip [scope0, scope0\<lparr>fs_epoch := 1\<rparr>, scope0] (synth_run [scope0, scope0\<lparr>fs_epoch := 1\<rparr>, scope0] OrderBook_init)) \<and>
   0 \<notin> set (synth_run [scope0, scope0\<lparr>fs_epoch := 1\<rparr>, scope0] OrderBook_init)"
  by (rule synthetic_ids_unique) simp

end
