(* ===== verification/Ieee_Double.thy ===== *)
theory Ieee_Double
  imports Complex_Main Gma_Prelude "HOL-Library.Log_Nat"
begin

text \<open>
  The C++ type \<^verbatim>\<open>double\<close>: IEEE 754 binary64 with round-to-nearest, ties to even. A value is a
  NaN (payloads are not distinguished), an infinity or a zero with its sign, or a non-zero finite
  number, kept as the rational it stands for. An operation computes the exact rational result and
  rounds it. The second half of the theory proves the facts of rounding the components use: the
  relative error, monotonicity, and exactness on numbers that fit in 53 bits.
\<close>

section \<open>Values\<close>

datatype double = DNaN | DInf bool | DZero bool | DFin rat

fun dval :: "double \<Rightarrow> rat" where
  "dval (DFin r) = r"
| "dval _ = 0"

fun dneg_sign :: "double \<Rightarrow> bool" where
  "dneg_sign DNaN = False"
| "dneg_sign (DInf s) = s"
| "dneg_sign (DZero s) = s"
| "dneg_sign (DFin r) = (r < 0)"

fun isnan :: "double \<Rightarrow> bool" where
  "isnan DNaN = True"
| "isnan _ = False"

fun isinf :: "double \<Rightarrow> bool" where
  "isinf (DInf _) = True"
| "isinf _ = False"

definition isfinite :: "double \<Rightarrow> bool" where
  "isfinite x \<longleftrightarrow> \<not> isnan x \<and> \<not> isinf x"

section \<open>Rounding\<close>

text \<open>The binary exponent of a positive rational: \<open>2 ^ ilog2 x \<le> x < 2 ^ (ilog2 x + 1)\<close>.\<close>

definition ilog2 :: "rat \<Rightarrow> int" where
  "ilog2 x = (case quotient_of x of (n, d) \<Rightarrow>
     let e = bitlen n - bitlen d in if power_int 2 e \<le> x then e else e - 1)"

definition round_even :: "rat \<Rightarrow> int" where
  "round_even x = (let f = \<lfloor>x\<rfloor>; d = x - of_int f
     in if d < 1 / 2 then f else if d > 1 / 2 then f + 1 else if even f then f else f + 1)"

definition ulp_exp :: "rat \<Rightarrow> int" where
  "ulp_exp x = max (ilog2 x - 52) (- 1074)"

definition rnd_pos :: "rat \<Rightarrow> rat" where
  "rnd_pos x = (if x = 0 then 0
     else let u = power_int 2 (ulp_exp x) in of_int (round_even (x / u)) * u)"

definition rnd :: "rat \<Rightarrow> rat" where
  "rnd x = (if x < 0 then - rnd_pos (- x) else rnd_pos x)"

text \<open>The double nearest to \<open>x\<close>; \<open>z\<close> is the sign of an exact zero.\<close>

definition round_double :: "bool \<Rightarrow> rat \<Rightarrow> double" where
  "round_double z x = (let r = rnd x
     in if x = 0 then DZero z
        else if r = 0 then DZero (x < 0)
        else if \<bar>r\<bar> \<ge> 2 ^ 1024 then DInf (x < 0)
        else DFin r)"

definition dlit :: "rat \<Rightarrow> double" where
  "dlit x = round_double False x"

definition double_of_int :: "int \<Rightarrow> double" where
  "double_of_int n = round_double False (of_int n)"

section \<open>Operations\<close>

fun dminus :: "double \<Rightarrow> double" where
  "dminus DNaN = DNaN"
| "dminus (DInf s) = DInf (\<not> s)"
| "dminus (DZero s) = DZero (\<not> s)"
| "dminus (DFin r) = DFin (- r)"

fun dabs :: "double \<Rightarrow> double" where
  "dabs DNaN = DNaN"
| "dabs (DInf s) = DInf False"
| "dabs (DZero s) = DZero False"
| "dabs (DFin r) = DFin \<bar>r\<bar>"

fun dadd :: "double \<Rightarrow> double \<Rightarrow> double" where
  "dadd DNaN _ = DNaN"
| "dadd _ DNaN = DNaN"
| "dadd (DInf s) (DInf t) = (if s = t then DInf s else DNaN)"
| "dadd (DInf s) _ = DInf s"
| "dadd _ (DInf t) = DInf t"
| "dadd (DZero s) (DZero t) = DZero (s \<and> t)"
| "dadd x y = round_double False (dval x + dval y)"

definition dsub :: "double \<Rightarrow> double \<Rightarrow> double" where
  "dsub x y = dadd x (dminus y)"

fun dmul :: "double \<Rightarrow> double \<Rightarrow> double" where
  "dmul DNaN _ = DNaN"
| "dmul _ DNaN = DNaN"
| "dmul (DInf s) (DZero t) = DNaN"
| "dmul (DZero s) (DInf t) = DNaN"
| "dmul (DInf s) y = DInf (s \<noteq> dneg_sign y)"
| "dmul x (DInf t) = DInf (dneg_sign x \<noteq> t)"
| "dmul x y = round_double (dneg_sign x \<noteq> dneg_sign y) (dval x * dval y)"

fun ddiv :: "double \<Rightarrow> double \<Rightarrow> double" where
  "ddiv DNaN _ = DNaN"
| "ddiv _ DNaN = DNaN"
| "ddiv (DInf s) (DInf t) = DNaN"
| "ddiv (DInf s) y = DInf (s \<noteq> dneg_sign y)"
| "ddiv x (DInf t) = DZero (dneg_sign x \<noteq> t)"
| "ddiv (DZero s) (DZero t) = DNaN"
| "ddiv x (DZero t) = DInf (dneg_sign x \<noteq> t)"
| "ddiv x y = round_double (dneg_sign x \<noteq> dneg_sign y) (dval x / dval y)"

text \<open>Comparisons are false on NaN; \<open>dlt\<close> is \<^verbatim>\<open>a < b\<close>.\<close>

fun dlt :: "double \<Rightarrow> double \<Rightarrow> bool" where
  "dlt DNaN _ = False"
| "dlt _ DNaN = False"
| "dlt (DInf s) (DInf t) = (s \<and> \<not> t)"
| "dlt (DInf s) _ = s"
| "dlt _ (DInf t) = (\<not> t)"
| "dlt x y = (dval x < dval y)"

fun deq :: "double \<Rightarrow> double \<Rightarrow> bool" where
  "deq DNaN _ = False"
| "deq _ DNaN = False"
| "deq (DInf s) (DInf t) = (s = t)"
| "deq (DInf s) _ = False"
| "deq _ (DInf t) = False"
| "deq x y = (dval x = dval y)"

definition dle :: "double \<Rightarrow> double \<Rightarrow> bool" where
  "dle x y \<longleftrightarrow> dlt x y \<or> deq x y"

definition copysign :: "double \<Rightarrow> double \<Rightarrow> double" where
  "copysign x y = (if dneg_sign (dabs x) = dneg_sign y then dabs x else dminus (dabs x))"

text \<open>Rounding to an integer, halves away from zero: \<^verbatim>\<open>std::round\<close> and \<^verbatim>\<open>std::llround\<close>. The
  latter has no specified result outside the range of \<^verbatim>\<open>int64_t\<close>.\<close>

definition round_away :: "rat \<Rightarrow> int" where
  "round_away x = (if x < 0 then - \<lfloor>- x + 1 / 2\<rfloor> else \<lfloor>x + 1 / 2\<rfloor>)"

fun dround :: "double \<Rightarrow> double" where
  "dround (DFin r) = (let n = round_away r in if n = 0 then DZero (r < 0) else DFin (of_int n))"
| "dround x = x"

definition int64_min :: int where "int64_min = - (2 ^ 63)"

definition int64_max :: int where "int64_max = 2 ^ 63 - 1"

definition llround :: "double \<Rightarrow> int option" where
  "llround x = (if isfinite x then
       (let n = round_away (dval x) in if int64_min \<le> n \<and> n \<le> int64_max then Some n else None)
     else None)"

section \<open>The binary exponent\<close>

abbreviation pow2 :: "int \<Rightarrow> rat" where
  "pow2 e \<equiv> power_int 2 e"

lemma pow2_pos [simp]: "0 < pow2 e"
  by (simp add: zero_less_power_int)

lemma pow2_mono: "pow2 a \<le> pow2 b \<longleftrightarrow> a \<le> b"
proof
  show "pow2 a \<le> pow2 b" if "a \<le> b" using that by (intro power_int_increasing) auto
  show "a \<le> b" if le: "pow2 a \<le> pow2 b"
  proof (rule ccontr)
    assume "\<not> a \<le> b"
    then have "pow2 b < pow2 a" by (intro power_int_strict_increasing) auto
    then show False using le by simp
  qed
qed

lemma pow2_less: "pow2 a < pow2 b \<longleftrightarrow> a < b"
  using pow2_mono [of b a] by (simp add: not_le [symmetric])

lemma pow2_add: "pow2 (a + b) = pow2 a * pow2 b"
  by (simp add: power_int_add)

lemma pow2_diff: "pow2 (a - b) = pow2 a / pow2 b"
  by (simp add: power_int_diff)

lemma pow2_1: "pow2 (e + 1) = 2 * pow2 e"
  by (simp add: power_int_add)

lemma pow2_nat: "0 \<le> e \<Longrightarrow> pow2 e = of_int (2 ^ nat e)"
  by (simp add: power_int_def)

lemma bitlen_rat:
  assumes "0 < n"
  shows "pow2 (bitlen n - 1) \<le> of_int n" and "of_int n < pow2 (bitlen n)"
proof -
  have b: "2 ^ nat (bitlen n - 1) \<le> n" "n < 2 ^ nat (bitlen n)" using bitlen_bounds [OF assms] by auto
  have "0 < bitlen n" using b(2) assms by (cases "bitlen n \<le> 0") auto
  then have "pow2 (bitlen n - 1) = of_int (2 ^ nat (bitlen n - 1))" "pow2 (bitlen n) = of_int (2 ^ nat (bitlen n))"
    by (simp_all only: pow2_nat)
  then show "pow2 (bitlen n - 1) \<le> of_int n" and "of_int n < pow2 (bitlen n)"
    using b by (simp_all only: of_int_le_iff of_int_less_iff)
qed

lemma ilog2_bounds:
  assumes "0 < x"
  shows "pow2 (ilog2 x) \<le> x" and "x < pow2 (ilog2 x + 1)"
proof -
  obtain n d where q: "quotient_of x = (n, d)" by fastforce
  have d: "0 < d" using q by (rule quotient_of_denom_pos)
  have x: "x = of_int n / of_int d" using q by (rule quotient_of_div)
  have n: "0 < n" using assms d by (simp add: x zero_less_divide_iff)
  let ?e = "bitlen n - bitlen d"
  have "x < pow2 (bitlen n) / pow2 (bitlen d - 1)"
    unfolding x using bitlen_rat [OF n] bitlen_rat [OF d] n d by (intro frac_less) auto
  then have up: "x < pow2 (?e + 1)" by (simp add: pow2_diff [symmetric] algebra_simps)
  have "pow2 (bitlen n - 1) / pow2 (bitlen d) \<le> x"
    unfolding x using bitlen_rat [OF n] bitlen_rat [OF d] n d by (intro frac_le) auto
  then have lo: "pow2 (?e - 1) \<le> x" by (simp add: pow2_diff [symmetric] algebra_simps)
  show "pow2 (ilog2 x) \<le> x" "x < pow2 (ilog2 x + 1)"
    using up lo by (simp_all add: ilog2_def q Let_def)
qed

lemma ilog2_eqI:
  assumes "pow2 e \<le> x" "x < pow2 (e + 1)"
  shows "ilog2 x = e"
proof -
  have "0 < x" using assms(1) pow2_pos [of e] by linarith
  note b = ilog2_bounds [OF this]
  have "pow2 (ilog2 x) < pow2 (e + 1)" "pow2 e < pow2 (ilog2 x + 1)" using b assms by linarith+
  then show ?thesis unfolding pow2_less by linarith
qed

lemma ilog2_mono: "0 < x \<Longrightarrow> x \<le> y \<Longrightarrow> ilog2 x \<le> ilog2 y"
proof -
  assume "0 < x" "x \<le> y"
  then have "pow2 (ilog2 x) < pow2 (ilog2 y + 1)"
    using ilog2_bounds(1) [of x] ilog2_bounds(2) [of y] by linarith
  then show ?thesis unfolding pow2_less by linarith
qed

section \<open>Rounding to an integer\<close>

lemma round_even_error: "\<bar>of_int (round_even x) - x\<bar> \<le> 1 / 2"
  using floor_correct [of x] by (auto simp: round_even_def Let_def)

lemma round_even_of_int [simp]: "round_even (of_int n) = n"
  by (simp add: round_even_def)

lemma round_even_le: "x \<le> of_int k \<Longrightarrow> round_even x \<le> k"
proof -
  assume x: "x \<le> of_int k"
  show ?thesis
  proof (cases "x = of_int k")
    case False
    then have "\<lfloor>x\<rfloor> < k" using x by (simp add: floor_less_iff)
    then show ?thesis by (auto simp: round_even_def Let_def)
  qed simp
qed

lemma round_even_ge: "of_int k \<le> x \<Longrightarrow> k \<le> round_even x"
  using le_floor_iff [of k x] by (auto simp: round_even_def Let_def)

lemma round_even_mono: "x \<le> y \<Longrightarrow> round_even x \<le> round_even y"
proof -
  assume xy: "x \<le> y"
  show ?thesis
  proof (cases "\<lfloor>x\<rfloor> = \<lfloor>y\<rfloor>")
    case True
    then show ?thesis using xy by (auto simp: round_even_def Let_def)
  next
    case False
    then have "\<lfloor>x\<rfloor> + 1 \<le> \<lfloor>y\<rfloor>" using floor_mono [OF xy] by linarith
    then have "of_int (\<lfloor>x\<rfloor> + 1) \<le> y" by (simp only: le_floor_iff)
    then have "\<lfloor>x\<rfloor> + 1 \<le> round_even y" by (rule round_even_ge)
    moreover have "round_even x \<le> \<lfloor>x\<rfloor> + 1" by (rule round_even_le) (use floor_correct [of x] in simp)
    ultimately show ?thesis by linarith
  qed
qed

section \<open>Rounding to a double\<close>

lemma rnd_pos_nonneg: "0 \<le> x \<Longrightarrow> 0 \<le> rnd_pos x"
proof -
  assume "0 \<le> x"
  then have "0 \<le> round_even (x / pow2 (ulp_exp x))" by (intro round_even_ge) simp
  then show ?thesis by (simp add: rnd_pos_def Let_def)
qed

lemma rnd_pos_error:
  assumes "0 < x"
  shows "\<bar>rnd_pos x - x\<bar> \<le> pow2 (ulp_exp x) / 2"
proof -
  let ?u = "pow2 (ulp_exp x)"
  have "rnd_pos x - x = (of_int (round_even (x / ?u)) - x / ?u) * ?u"
    using assms by (simp add: rnd_pos_def Let_def algebra_simps)
  then have "\<bar>rnd_pos x - x\<bar> = \<bar>of_int (round_even (x / ?u)) - x / ?u\<bar> * ?u" by (simp add: abs_mult)
  also have "\<dots> \<le> 1 / 2 * ?u" by (intro mult_right_mono round_even_error) simp
  finally show ?thesis by simp
qed

text \<open>The relative error of rounding a number in the normal range.\<close>

lemma rnd_pos_rel:
  assumes "pow2 (- 1022) \<le> x"
  shows "\<bar>rnd_pos x - x\<bar> \<le> x / 2 ^ 53"
proof -
  have x: "0 < x" using assms pow2_pos [of "- 1022"] by linarith
  have "pow2 (- 1022) < pow2 (ilog2 x + 1)" using assms ilog2_bounds(2) [OF x] by linarith
  then have "ulp_exp x = ilog2 x - 52" unfolding pow2_less by (simp add: ulp_exp_def)
  then have "\<bar>rnd_pos x - x\<bar> \<le> pow2 (ilog2 x - 52) / 2" using rnd_pos_error [OF x] by simp
  also have "\<dots> = pow2 (ilog2 x) / 2 ^ 53" by (simp add: pow2_diff)
  also have "\<dots> \<le> x / 2 ^ 53" using ilog2_bounds(1) [OF x] by (simp add: divide_right_mono)
  finally show ?thesis .
qed

text \<open>Numbers with a 53-bit significand are rounded to themselves.\<close>

definition representable :: "rat \<Rightarrow> bool" where
  "representable x \<longleftrightarrow> (\<exists>m e. x = of_int m * pow2 e \<and> \<bar>m\<bar> < 2 ^ 53 \<and> - 1074 \<le> e)"

lemma rnd_pos_exact:
  assumes "representable x" "0 \<le> x"
  shows "rnd_pos x = x"
proof (cases "x = 0")
  case False
  then have x: "0 < x" using assms by simp
  obtain m e where m: "x = of_int m * pow2 e" "\<bar>m\<bar> < 2 ^ 53" "- 1074 \<le> e"
    using assms by (auto simp: representable_def)
  have m0: "0 < m" using x pow2_pos [of e] by (simp add: m(1) zero_less_mult_iff not_less_iff_gr_or_eq del: pow2_pos)
  have "of_int m < (2 ^ 53 :: rat)" using m(2) m0 by (metis abs_of_pos of_int_less_iff of_int_numeral of_int_power)
  then have "x < pow2 (53 + e)" by (simp add: m(1) pow2_add)
  then have "pow2 (ilog2 x) < pow2 (53 + e)" using ilog2_bounds(1) [OF x] by linarith
  then have le: "ulp_exp x \<le> e" unfolding pow2_less using m(3) by (simp add: ulp_exp_def)
  have "x / pow2 (ulp_exp x) = of_int m * pow2 (e - ulp_exp x)" by (simp add: m(1) pow2_diff)
  also have "\<dots> = of_int (m * 2 ^ nat (e - ulp_exp x))" using le by (simp add: pow2_nat)
  finally have "of_int (round_even (x / pow2 (ulp_exp x))) = x / pow2 (ulp_exp x)" by (simp only: round_even_of_int)
  then show ?thesis using x by (simp add: rnd_pos_def Let_def)
qed (simp add: rnd_pos_def)

lemma rnd_pos_mono:
  assumes "0 \<le> x" "x \<le> y"
  shows "rnd_pos x \<le> rnd_pos y"
proof (cases "x = 0")
  case True
  then have "rnd_pos x = 0" by (simp add: rnd_pos_def)
  then show ?thesis using assms rnd_pos_nonneg [of y] by simp
next
  case False
  then have x: "0 < x" and y: "0 < y" using assms by auto
  let ?a = "ulp_exp x" and ?b = "ulp_exp y"
  show ?thesis
  proof (cases "?a = ?b")
    case True
    then have "round_even (x / pow2 ?a) \<le> round_even (y / pow2 ?b)"
      using assms by (intro round_even_mono) (simp add: divide_right_mono)
    then show ?thesis using x y True by (simp add: rnd_pos_def Let_def mult_right_mono)
  next
    case False
    have "?a \<le> ?b" using ilog2_mono [OF x assms(2)] by (auto simp: ulp_exp_def)
    then have ab: "?a < ?b" using False by simp
    define l where "l = ilog2 y"
    have bl: "?b = l - 52" and al: "?a < l" "ilog2 x < l" using ab by (auto simp: ulp_exp_def l_def max_def split: if_splits)
    have "x < pow2 l"
      using ilog2_bounds(2) [OF x] al(2) pow2_mono [of "ilog2 x + 1" l] by linarith
    moreover have int: "pow2 l / pow2 ?a = of_int (2 ^ nat (l - ?a))" using al by (simp add: pow2_diff [symmetric] pow2_nat)
    ultimately have "round_even (x / pow2 ?a) \<le> 2 ^ nat (l - ?a)"
      by (intro round_even_le) (simp add: int [symmetric] divide_right_mono del: of_int_power)
    then have "of_int (round_even (x / pow2 ?a)) \<le> pow2 l / pow2 ?a" by (simp only: int of_int_le_iff)
    then have up: "rnd_pos x \<le> pow2 l" using x by (simp add: rnd_pos_def Let_def field_simps)
    have int': "pow2 l / pow2 ?b = of_int (2 ^ nat (l - ?b))" using bl by (simp add: pow2_diff [symmetric] pow2_nat)
    have "of_int (2 ^ nat (l - ?b)) \<le> y / pow2 ?b"
      unfolding int' [symmetric] using ilog2_bounds(1) [OF y] by (simp add: divide_right_mono l_def)
    then have "2 ^ nat (l - ?b) \<le> round_even (y / pow2 ?b)" by (rule round_even_ge)
    then have "pow2 l / pow2 ?b \<le> of_int (round_even (y / pow2 ?b))" by (simp only: int' of_int_le_iff)
    then have "pow2 l \<le> rnd_pos y" using y by (simp add: rnd_pos_def Let_def field_simps)
    then show ?thesis using up by linarith
  qed
qed

section \<open>Rounding of signed numbers\<close>

lemma rnd_0 [simp]: "rnd 0 = 0"
  by (simp add: rnd_def rnd_pos_def)

lemma rnd_uminus: "rnd (- x) = - rnd x"
  by (auto simp: rnd_def rnd_pos_def)

lemma rnd_mono: "x \<le> y \<Longrightarrow> rnd x \<le> rnd y"
proof -
  assume xy: "x \<le> y"
  consider "0 \<le> x" | "x < 0" "0 \<le> y" | "y < 0" by linarith
  then show ?thesis
  proof cases
    case 1
    then show ?thesis using xy by (simp add: rnd_def rnd_pos_mono)
  next
    case 2
    then show ?thesis using rnd_pos_nonneg [of "- x"] rnd_pos_nonneg [of y] by (simp add: rnd_def)
  next
    case 3
    then show ?thesis using xy rnd_pos_mono [of "- y" "- x"] by (simp add: rnd_def)
  qed
qed

lemma representable_uminus: "representable x \<Longrightarrow> representable (- x)"
proof -
  assume "representable x"
  then obtain m e where "x = of_int m * pow2 e" "\<bar>m\<bar> < 2 ^ 53" "- 1074 \<le> e" by (auto simp: representable_def)
  then show ?thesis unfolding representable_def by (intro exI [of _ "- m"] exI [of _ e]) simp
qed

lemma rnd_exact: "representable x \<Longrightarrow> rnd x = x"
  using rnd_pos_exact [of x] rnd_pos_exact [of "- x"] representable_uminus by (auto simp: rnd_def)

lemma rnd_rel: "pow2 (- 1022) \<le> \<bar>x\<bar> \<Longrightarrow> \<bar>rnd x - x\<bar> \<le> \<bar>x\<bar> / 2 ^ 53"
  using rnd_pos_rel [of x] rnd_pos_rel [of "- x"] by (auto simp: rnd_def abs_if split: if_splits)

lemma representable_int: "\<bar>n\<bar> < 2 ^ 53 \<Longrightarrow> representable (of_int n)"
  unfolding representable_def by (intro exI [of _ n] exI [of _ 0]) auto

lemma representable_pow2: "- 1074 \<le> e \<Longrightarrow> representable (pow2 e)"
  unfolding representable_def by (intro exI [of _ 1] exI [of _ e]) auto

text \<open>
  What the components rely on: a rounding that is monotone and leaves a set of numbers alone
  keeps a result between two such numbers.
\<close>

locale rounding =
  fixes rd :: "rat \<Rightarrow> rat" and exact :: "rat \<Rightarrow> bool"
  assumes mono: "x \<le> y \<Longrightarrow> rd x \<le> rd y"
    and fix_exact: "exact x \<Longrightarrow> rd x = x"
    and exact_0: "exact 0"
begin

lemma between: "exact a \<Longrightarrow> exact b \<Longrightarrow> a \<le> x \<Longrightarrow> x \<le> b \<Longrightarrow> a \<le> rd x \<and> rd x \<le> b"
  using mono [of a x] mono [of x b] by (simp add: fix_exact)

lemma nonneg: "0 \<le> x \<Longrightarrow> 0 \<le> rd x"
  using mono [of 0 x] by (simp add: fix_exact exact_0)

lemma nonpos: "x \<le> 0 \<Longrightarrow> rd x \<le> 0"
  using mono [of x 0] by (simp add: fix_exact exact_0)

lemma pos: "exact a \<Longrightarrow> 0 < a \<Longrightarrow> a \<le> x \<Longrightarrow> 0 < rd x"
  using mono [of a x] by (simp add: fix_exact)

end

interpretation rnd: rounding rnd representable
proof
  show "representable 0" using representable_int [of 0] by simp
qed (auto simp: rnd_mono rnd_exact)

text \<open>Rounding by exhibiting the exponent and the significand.\<close>

lemma rnd_pos_eqI:
  assumes "pow2 e \<le> x" "x < pow2 (e + 1)" "- 1022 \<le> e"
    and "\<bar>x / pow2 (e - 52) - of_int m\<bar> < 1 / 2"
  shows "rnd_pos x = of_int m * pow2 (e - 52)"
proof -
  have x: "0 < x" using assms(1) pow2_pos [of e] by linarith
  have u: "ulp_exp x = e - 52" using assms(3) by (simp add: ulp_exp_def ilog2_eqI [OF assms(1,2)])
  have "\<bar>of_int (round_even (x / pow2 (e - 52))) - of_int m\<bar> < (1 :: rat)"
    using round_even_error [of "x / pow2 (e - 52)"] assms(4) by linarith
  then have "round_even (x / pow2 (e - 52)) = m" by linarith
  then show ?thesis using x by (simp add: rnd_pos_def Let_def u)
qed

lemma round_double_normal:
  assumes "rnd x \<noteq> 0" "\<bar>rnd x\<bar> < 2 ^ 1024"
  shows "round_double z x = DFin (rnd x)"
  using assms by (auto simp: round_double_def Let_def)

lemma round_double_range:
  assumes "pow2 (- 1022) \<le> \<bar>x\<bar>" "\<bar>x\<bar> \<le> pow2 1023"
  shows "round_double z x = DFin (rnd x)" and "\<bar>rnd x\<bar> \<le> pow2 1023" and "pow2 (- 1022) \<le> \<bar>rnd x\<bar>"
proof -
  have r: "\<bar>rnd x\<bar> = rnd \<bar>x\<bar>" using rnd.nonneg [of x] rnd.nonpos [of x] rnd_uminus [of x] by (auto simp: abs_if)
  have b: "pow2 (- 1022) \<le> rnd \<bar>x\<bar> \<and> rnd \<bar>x\<bar> \<le> pow2 1023"
    using assms by (intro rnd.between representable_pow2) auto
  then show "\<bar>rnd x\<bar> \<le> pow2 1023" and lo: "pow2 (- 1022) \<le> \<bar>rnd x\<bar>" by (simp_all add: r)
  have "pow2 1023 < 2 ^ 1024" by (simp add: power_int_def)
  then have "\<bar>rnd x\<bar> < 2 ^ 1024" using b r by linarith
  moreover have "rnd x \<noteq> 0" using lo pow2_pos [of "- 1022"] by force
  ultimately show "round_double z x = DFin (rnd x)" by (rule round_double_normal [rotated])
qed

end
