(* ===== verification/Book_Manager.thy ===== *)
theory Book_Manager
  imports Order_Book Ieee_Double
begin

text \<open>
  The order book manager, \<^verbatim>\<open>connectors/market/src/book/OrderBookManager.cpp\<close> with its header,
  \<^verbatim>\<open>DepthTypes.hpp\<close> and its counters in \<^verbatim>\<open>util/Metrics.hpp\<close>: one book per symbol behind tick
  quantization, validation, sequence-gap control, a venue-key cache and a delta event bus.

  The state is one record. Callbacks are values the manager hands to the outside: a delta handler
  is a token, and every call of a handler or of \<^verbatim>\<open>requestSnapshotFn\<close> is appended to a trace, in
  order; handlers do not call back into the manager. An operation that would follow a dangling
  iterator, or use a result of \<^verbatim>\<open>llround\<close> that the standard leaves unspecified, returns
  \<^const>\<open>None\<close>. The mutexes guard single operations and are not modelled.
\<close>

section \<open>Data\<close>

record LevelDelta =
  ld_side :: Side
  ld_price :: Price
  ld_totalSize :: u64

record BookDelta =
  bd_symbol :: string
  bd_seq :: u64
  bd_levels :: "LevelDelta list"
  bd_bid :: "(Price \<times> u64) option"
  bd_ask :: "(Price \<times> u64) option"

record DepthSnapshot =
  sn_symbol :: string
  sn_seq :: u64
  sn_epoch :: u32
  sn_bids :: "(Price \<times> u64) list"
  sn_asks :: "(Price \<times> u64) list"

record MetricsSnapshot =
  mx_adds :: u64
  mx_updates :: u64
  mx_deletes :: u64
  mx_events :: u64
  mx_priorities :: u64
  mx_snapshots :: u64
  mx_summaries :: u64
  mx_deltasPublished :: u64
  mx_droppedStale :: u64
  mx_droppedMalformed :: u64
  mx_seqGaps :: u64
  mx_seqResets :: u64
  mx_staleTransitions :: u64

definition Metrics_init :: MetricsSnapshot where
  "Metrics_init = \<lparr> mx_adds = 0, mx_updates = 0, mx_deletes = 0, mx_events = 0, mx_priorities = 0, mx_snapshots = 0,
     mx_summaries = 0, mx_deltasPublished = 0, mx_droppedStale = 0, mx_droppedMalformed = 0, mx_seqGaps = 0,
     mx_seqResets = 0, mx_staleTransitions = 0 \<rparr>"

record FeedState =
  st_lastSeq :: u64
  st_epoch :: u32
  st_stale :: bool

definition FeedState_init :: FeedState where
  "FeedState_init = \<lparr> st_lastSeq = 0, st_epoch = 0, st_stale = False \<rparr>"

text \<open>The least-recently-used cache: list nodes have addresses, \<open>lru_idx\<close> maps a key to its node.\<close>

record Lru =
  lru_cap :: u64
  lru_dq :: "(node \<times> string \<times> OrderKey) list"
  lru_idx :: "(string, node) umap"
  lru_next :: node

definition Lru_init :: Lru where
  "Lru_init = \<lparr> lru_cap = 4096, lru_dq = [], lru_idx = [], lru_next = 0 \<rparr>"

record OrderBookManager =
  books :: "(string, OrderBook) umap"
  tickSize :: "(string, double) umap"
  feed :: "(string, FeedState) umap"
  resolver :: "(string, Lru) umap"
  subs :: "(string, (u64, nat) umap) umap"
  nextSubId :: u64
  pubSeq :: "(string, u64) umap"
  metrics :: MetricsSnapshot
  allowNegativePrices :: bool
  requestSnapshotFn :: bool
  delivered :: "(nat \<times> BookDelta) list"
  snapshotRequests :: "string list"

definition OrderBookManager_init :: OrderBookManager where
  "OrderBookManager_init = \<lparr> books = [], tickSize = [], feed = [], resolver = [], subs = [], nextSubId = 1,
     pubSeq = [], metrics = Metrics_init, allowNegativePrices = False, requestSnapshotFn = False,
     delivered = [], snapshotRequests = [] \<rparr>"

section \<open>Counters\<close>

definition incAdds :: "OrderBookManager \<Rightarrow> OrderBookManager" where
  "incAdds m = m \<lparr> metrics := (metrics m) \<lparr> mx_adds := mx_adds (metrics m) + 1 \<rparr> \<rparr>"

definition incUpdates :: "OrderBookManager \<Rightarrow> OrderBookManager" where
  "incUpdates m = m \<lparr> metrics := (metrics m) \<lparr> mx_updates := mx_updates (metrics m) + 1 \<rparr> \<rparr>"

definition incDeletes :: "OrderBookManager \<Rightarrow> OrderBookManager" where
  "incDeletes m = m \<lparr> metrics := (metrics m) \<lparr> mx_deletes := mx_deletes (metrics m) + 1 \<rparr> \<rparr>"

definition incEvents :: "OrderBookManager \<Rightarrow> OrderBookManager" where
  "incEvents m = m \<lparr> metrics := (metrics m) \<lparr> mx_events := mx_events (metrics m) + 1 \<rparr> \<rparr>"

definition incPriorities :: "OrderBookManager \<Rightarrow> OrderBookManager" where
  "incPriorities m = m \<lparr> metrics := (metrics m) \<lparr> mx_priorities := mx_priorities (metrics m) + 1 \<rparr> \<rparr>"

definition incSnapshots :: "OrderBookManager \<Rightarrow> OrderBookManager" where
  "incSnapshots m = m \<lparr> metrics := (metrics m) \<lparr> mx_snapshots := mx_snapshots (metrics m) + 1 \<rparr> \<rparr>"

definition incSummaries :: "OrderBookManager \<Rightarrow> OrderBookManager" where
  "incSummaries m = m \<lparr> metrics := (metrics m) \<lparr> mx_summaries := mx_summaries (metrics m) + 1 \<rparr> \<rparr>"

definition incDeltasPublished :: "OrderBookManager \<Rightarrow> OrderBookManager" where
  "incDeltasPublished m = m \<lparr> metrics := (metrics m) \<lparr> mx_deltasPublished := mx_deltasPublished (metrics m) + 1 \<rparr> \<rparr>"

definition incDroppedStale :: "OrderBookManager \<Rightarrow> OrderBookManager" where
  "incDroppedStale m = m \<lparr> metrics := (metrics m) \<lparr> mx_droppedStale := mx_droppedStale (metrics m) + 1 \<rparr> \<rparr>"

definition incDroppedMalformed :: "OrderBookManager \<Rightarrow> OrderBookManager" where
  "incDroppedMalformed m = m \<lparr> metrics := (metrics m) \<lparr> mx_droppedMalformed := mx_droppedMalformed (metrics m) + 1 \<rparr> \<rparr>"

definition incSeqGap :: "OrderBookManager \<Rightarrow> OrderBookManager" where
  "incSeqGap m = m \<lparr> metrics := (metrics m) \<lparr> mx_seqGaps := mx_seqGaps (metrics m) + 1 \<rparr> \<rparr>"

definition incSeqReset :: "OrderBookManager \<Rightarrow> OrderBookManager" where
  "incSeqReset m = m \<lparr> metrics := (metrics m) \<lparr> mx_seqResets := mx_seqResets (metrics m) + 1 \<rparr> \<rparr>"

definition incStaleTransition :: "OrderBookManager \<Rightarrow> OrderBookManager" where
  "incStaleTransition m = m \<lparr> metrics := (metrics m) \<lparr> mx_staleTransitions := mx_staleTransitions (metrics m) + 1 \<rparr> \<rparr>"

section \<open>Ticks\<close>

definition kDefaultTick :: double where
  "kDefaultTick = dlit (1 / 10000)"

definition setTickSize :: "string \<Rightarrow> double \<Rightarrow> OrderBookManager \<Rightarrow> OrderBookManager" where
  "setTickSize symbol ts m =
     m \<lparr> tickSize := AList.update symbol (if dlt (DZero False) ts then ts else kDefaultTick) (tickSize m) \<rparr>"

definition getTickSize :: "string \<Rightarrow> OrderBookManager \<Rightarrow> double" where
  "getTickSize symbol m = (case map_of (tickSize m) symbol of None \<Rightarrow> kDefaultTick | Some t \<Rightarrow> t)"

definition kMax :: double where
  "kMax = double_of_int int64_max"

definition quantizeTicks :: "double \<Rightarrow> double \<Rightarrow> int option" where
  "quantizeTicks px tick =
     (if dle tick (DZero False) then Some 0
      else let q = ddiv px tick
           in if dlt kMax q \<or> dlt q (dminus kMax) then Some 0
              else llround (dadd q (copysign (dlit (1 / 10 ^ 12)) q)))"

definition toTicks :: "string \<Rightarrow> double \<Rightarrow> OrderBookManager \<Rightarrow> Price option" where
  "toTicks symbol px m = quantizeTicks px (getTickSize symbol m)"

definition toDouble :: "string \<Rightarrow> Price \<Rightarrow> OrderBookManager \<Rightarrow> double" where
  "toDouble symbol p m = dmul (double_of_int p) (getTickSize symbol m)"

section \<open>Validation\<close>

definition validatePrice :: "string \<Rightarrow> double \<Rightarrow> OrderBookManager \<Rightarrow> bool" where
  "validatePrice symbol px m =
     (if isnan px \<or> isinf px then False
      else if deq px (DZero False) then False
      else if \<not> allowNegativePrices m \<and> dlt px (DZero False) then False
      else let q = ddiv px (getTickSize symbol m);
               r = dabs (dsub q (dround q))
           in dlt r (dlit (1 / 10 ^ 8)))"

definition validateSize :: "u64 \<Rightarrow> bool" where
  "validateSize sz \<longleftrightarrow> sz > 0"

section \<open>Books\<close>

definition findBook :: "string \<Rightarrow> OrderBookManager \<Rightarrow> OrderBook option" where
  "findBook symbol m = map_of (books m) symbol"

definition getOrCreateBook :: "string \<Rightarrow> OrderBookManager \<Rightarrow> OrderBook \<times> OrderBookManager" where
  "getOrCreateBook symbol m = (case findBook symbol m of
       Some b \<Rightarrow> (b, m)
     | None \<Rightarrow> (OrderBook_init, m \<lparr> books := um_emplace symbol OrderBook_init (books m) \<rparr>))"

text \<open>Writing through the reference to a book.\<close>

definition putBook :: "string \<Rightarrow> OrderBook \<Rightarrow> OrderBookManager \<Rightarrow> OrderBookManager" where
  "putBook symbol b m = m \<lparr> books := AList.update symbol b (books m) \<rparr>"

section \<open>Sequencing\<close>

definition getFeedState :: "string \<Rightarrow> OrderBookManager \<Rightarrow> FeedState" where
  "getFeedState symbol m = (case map_of (feed m) symbol of None \<Rightarrow> FeedState_init | Some st \<Rightarrow> st)"

definition putFeed :: "string \<Rightarrow> FeedState \<Rightarrow> OrderBookManager \<Rightarrow> OrderBookManager" where
  "putFeed symbol st m = m \<lparr> feed := AList.update symbol st (feed m) \<rparr>"

definition requestSnapshot :: "string \<Rightarrow> OrderBookManager \<Rightarrow> OrderBookManager" where
  "requestSnapshot symbol m =
     (if requestSnapshotFn m then m \<lparr> snapshotRequests := snapshotRequests m @ [symbol] \<rparr> else m)"

definition onSeq :: "string \<Rightarrow> u64 \<Rightarrow> OrderBookManager \<Rightarrow> bool \<times> OrderBookManager" where
  "onSeq symbol seq m0 =
     (let st = getFeedState symbol m0; m = putFeed symbol st m0
      in if st_stale st then (False, incDroppedStale m)
         else if st_lastSeq st = 0 then (True, putFeed symbol (st \<lparr> st_lastSeq := seq \<rparr>) m)
         else if seq = st_lastSeq st + 1 then (True, putFeed symbol (st \<lparr> st_lastSeq := seq \<rparr>) m)
         else (False, requestSnapshot symbol (incStaleTransition (incSeqGap (putFeed symbol (st \<lparr> st_stale := True \<rparr>) m)))))"

definition onReset :: "string \<Rightarrow> u32 \<Rightarrow> OrderBookManager \<Rightarrow> OrderBookManager" where
  "onReset symbol newEpoch m =
     requestSnapshot symbol (incStaleTransition (incSeqReset
       (putFeed symbol \<lparr> st_lastSeq = 0, st_epoch = newEpoch, st_stale = True \<rparr> m)))"

definition isStale :: "string \<Rightarrow> OrderBookManager \<Rightarrow> bool" where
  "isStale symbol m = (case map_of (feed m) symbol of None \<Rightarrow> False | Some st \<Rightarrow> st_stale st)"

definition gate :: "string \<Rightarrow> OrderBookManager \<Rightarrow> bool" where
  "gate symbol m = (case map_of (feed m) symbol of None \<Rightarrow> False | Some st \<Rightarrow> st_stale st)"

section \<open>Venue-key resolver\<close>

function trim_loop ::
  "nat \<Rightarrow> (node \<times> string \<times> OrderKey) list \<Rightarrow> (string, node) umap
     \<Rightarrow> (node \<times> string \<times> OrderKey) list \<times> (string, node) umap" where
  "trim_loop c q i = (if length q > c then trim_loop c (butlast q) (AList.delete (fst (snd (last q))) i) else (q, i))"
  by pat_completeness auto
termination by (relation "measure (\<lambda>(c, q, i). length q)") auto

declare trim_loop.simps [simp del]

definition lru_trim :: "Lru \<Rightarrow> Lru" where
  "lru_trim l = (case trim_loop (unat (lru_cap l)) (lru_dq l) (lru_idx l) of (q, i) \<Rightarrow> l \<lparr> lru_dq := q, lru_idx := i \<rparr>)"

definition lru_setCap :: "u64 \<Rightarrow> Lru \<Rightarrow> Lru" where
  "lru_setCap c l = lru_trim (l \<lparr> lru_cap := (if c \<noteq> 0 then c else 1) \<rparr>)"

definition lru_put :: "string \<Rightarrow> OrderKey \<Rightarrow> Lru \<Rightarrow> Lru option" where
  "lru_put k v l = (case map_of (lru_idx l) k of
       Some n \<Rightarrow> (case map_of (lru_dq l) n of
           None \<Rightarrow> None
         | Some (k0, _) \<Rightarrow> Some (l \<lparr> lru_dq := (n, k0, v) # AList.delete n (lru_dq l) \<rparr>))
     | None \<Rightarrow> Some (lru_trim (l \<lparr> lru_dq := (lru_next l, k, v) # lru_dq l,
                               lru_idx := AList.update k (lru_next l) (lru_idx l),
                               lru_next := lru_next l + 1 \<rparr>)))"

definition lru_cget :: "string \<Rightarrow> Lru \<Rightarrow> OrderKey option option" where
  "lru_cget k l = (case map_of (lru_idx l) k of
       None \<Rightarrow> Some None
     | Some n \<Rightarrow> (case map_of (lru_dq l) n of None \<Rightarrow> None | Some (_, v) \<Rightarrow> Some (Some v)))"

definition resolverSetCapacity :: "u64 \<Rightarrow> OrderBookManager \<Rightarrow> OrderBookManager" where
  "resolverSetCapacity c m = m \<lparr> resolver := map (\<lambda>(s, l). (s, lru_setCap c l)) (resolver m) \<rparr>"

definition resolverPut :: "string \<Rightarrow> string \<Rightarrow> OrderKey \<Rightarrow> OrderBookManager \<Rightarrow> OrderBookManager option" where
  "resolverPut symbol venueKey key m =
     (let l = (case map_of (resolver m) symbol of None \<Rightarrow> Lru_init | Some l \<Rightarrow> l)
      in case lru_put venueKey key l of
           None \<Rightarrow> None
         | Some l' \<Rightarrow> Some (m \<lparr> resolver := AList.update symbol l' (resolver m) \<rparr>))"

definition resolverGet :: "string \<Rightarrow> string \<Rightarrow> OrderBookManager \<Rightarrow> OrderKey option option" where
  "resolverGet symbol venueKey m =
     (case map_of (resolver m) symbol of None \<Rightarrow> Some None | Some l \<Rightarrow> lru_cget venueKey l)"

section \<open>Event bus\<close>

definition subscribeDeltas :: "string \<Rightarrow> nat \<Rightarrow> OrderBookManager \<Rightarrow> u64 \<times> OrderBookManager" where
  "subscribeDeltas symbol handler m =
     (let i = nextSubId m; hs = (case map_of (subs m) symbol of None \<Rightarrow> [] | Some hs \<Rightarrow> hs)
      in (i, m \<lparr> nextSubId := i + 1, subs := AList.update symbol (AList.update i handler hs) (subs m) \<rparr>))"

definition unsubscribeDeltas :: "string \<Rightarrow> u64 \<Rightarrow> OrderBookManager \<Rightarrow> OrderBookManager" where
  "unsubscribeDeltas symbol subId m = (case map_of (subs m) symbol of
       None \<Rightarrow> m
     | Some hs \<Rightarrow> m \<lparr> subs := AList.update symbol (AList.delete subId hs) (subs m) \<rparr>)"

definition maybePublishDelta ::
  "string \<Rightarrow> LevelDelta list \<Rightarrow> (Price \<times> u64) option \<Rightarrow> (Price \<times> u64) option \<Rightarrow> OrderBookManager \<Rightarrow> OrderBookManager" where
  "maybePublishDelta symbol levels newBid newAsk m0 =
     (if levels = [] \<and> newBid = None \<and> newAsk = None then m0
      else let m = incDeltasPublished m0;
               s = (case map_of (pubSeq m) symbol of None \<Rightarrow> 0 | Some s \<Rightarrow> s) + 1;
               d = \<lparr> bd_symbol = symbol, bd_seq = s, bd_levels = levels, bd_bid = newBid, bd_ask = newAsk \<rparr>;
               hs = (case map_of (subs m) symbol of None \<Rightarrow> [] | Some hs \<Rightarrow> hs)
           in m \<lparr> pubSeq := AList.update symbol s (pubSeq m),
                  delivered := delivered m @ map (\<lambda>(_, h). (h, d)) hs \<rparr>)"

text \<open>The probes of \<^verbatim>\<open>mutateWithDelta_\<close>: candidates without repetition, with their size before.\<close>

fun addProbes :: "(Side \<times> Price) list \<Rightarrow> OrderBook \<Rightarrow> ((Side \<times> Price) \<times> u64) list \<Rightarrow> ((Side \<times> Price) \<times> u64) list" where
  "addProbes [] b probes = probes"
| "addProbes (c # cs) b probes =
     addProbes cs b (if c \<in> fst ` set probes then probes else probes @ [(c, levelSize (fst c) (snd c) b)])"

definition levelDeltas :: "((Side \<times> Price) \<times> u64) list \<Rightarrow> OrderBook \<Rightarrow> LevelDelta list" where
  "levelDeltas probes b =
     map (\<lambda>((s, p), _). \<lparr> ld_side = s, ld_price = p, ld_totalSize = levelSize s p b \<rparr>)
       (filter (\<lambda>((s, p), before). levelSize s p b \<noteq> before) probes)"

text \<open>The new top of one side, when the side is not empty and its price or size changed.\<close>

definition tobDelta :: "Price option \<Rightarrow> u64 \<Rightarrow> Price option \<Rightarrow> u64 \<Rightarrow> (Price \<times> u64) option" where
  "tobDelta pre preSz post postSz =
     (case post of None \<Rightarrow> None
      | Some q \<Rightarrow> (case pre of None \<Rightarrow> Some (q, postSz)
                   | Some p \<Rightarrow> if p \<noteq> q \<or> preSz \<noteq> postSz then Some (q, postSz) else None))"

text \<open>
  \<^verbatim>\<open>mutateWithDelta_\<close>: the mutator gets the book and returns its result, what it assigns to
  captured variables, and the book after it.
\<close>

definition mutateWithDelta ::
  "string \<Rightarrow> (Side \<times> Price) list \<Rightarrow> (OrderBook \<Rightarrow> ((bool \<times> 'r) \<times> OrderBook) option) \<Rightarrow> OrderBookManager
     \<Rightarrow> ((bool \<times> 'r) \<times> OrderBookManager) option" where
  "mutateWithDelta symbol candidates mutator m0 =
     (case getOrCreateBook symbol m0 of (b, m) \<Rightarrow>
       let probes = addProbes candidates b []
       in case mutator b of
            None \<Rightarrow> None
          | Some ((changed, r), b') \<Rightarrow>
              let m1 = putBook symbol b' m
              in if \<not> changed then Some ((False, r), m1)
                 else Some ((True, r), maybePublishDelta symbol (levelDeltas probes b')
                   (tobDelta (bestBid b) (bestBidSize b) (bestBid b') (bestBidSize b'))
                   (tobDelta (bestAsk b) (bestAskSize b) (bestAsk b') (bestAskSize b')) m1))"

text \<open>A mutator that assigns no captured variable.\<close>

definition plain :: "(bool \<times> OrderBook) option \<Rightarrow> ((bool \<times> unit) \<times> OrderBook) option" where
  "plain r = map_option (\<lambda>(c, b). ((c, ()), b)) r"

definition result :: "((bool \<times> unit) \<times> OrderBookManager) option \<Rightarrow> (bool \<times> OrderBookManager) option" where
  "result r = map_option (\<lambda>((c, _), m). (c, m)) r"

section \<open>Mutations\<close>

definition mkOrder :: "u64 \<Rightarrow> Side \<Rightarrow> Price \<Rightarrow> u64 \<Rightarrow> u64 \<Rightarrow> Order" where
  "mkOrder i side p sz priority = \<lparr> o_id = i, o_side = side, o_price = p, o_size = sz, o_priority = priority,
     o_feedId = 0, o_epoch = 0, o_synthetic = False \<rparr>"

definition onAddGetKey ::
  "string \<Rightarrow> u64 \<Rightarrow> Side \<Rightarrow> double \<Rightarrow> u64 \<Rightarrow> u64 \<Rightarrow> FeedScope \<Rightarrow> bool \<Rightarrow> OrderBookManager
     \<Rightarrow> (OrderKey \<times> OrderBookManager) option" where
  "onAddGetKey symbol i side price sz priority scope idMissing m =
     (if gate symbol m then
        Some (\<lparr> k_id = 0, k_feedId = fs_feedId scope, k_epoch = fs_epoch scope, k_synthetic = True \<rparr>, incDroppedStale m)
      else if \<not> validatePrice symbol price m \<or> \<not> validateSize sz then
        Some (\<lparr> k_id = 0, k_feedId = 0, k_epoch = 0, k_synthetic = False \<rparr>, incDroppedMalformed m)
      else (case toTicks symbol price (incAdds m) of
          None \<Rightarrow> None
        | Some p \<Rightarrow>
            (case mutateWithDelta symbol [(side, p)]
               (\<lambda>b. map_option (\<lambda>(k, b'). ((True, k), b')) (applyAddGetKey (mkOrder i side p sz priority) scope idMissing b))
               (incAdds m) of
               None \<Rightarrow> None
             | Some ((_, k), m') \<Rightarrow> Some (k, m'))))"

definition onAdd ::
  "string \<Rightarrow> u64 \<Rightarrow> Side \<Rightarrow> double \<Rightarrow> u64 \<Rightarrow> u64 \<Rightarrow> FeedScope \<Rightarrow> bool \<Rightarrow> OrderBookManager
     \<Rightarrow> (bool \<times> OrderBookManager) option" where
  "onAdd symbol i side price sz priority scope idMissing m =
     (if gate symbol m then Some (False, incDroppedStale m)
      else if \<not> validatePrice symbol price m \<or> \<not> validateSize sz then Some (False, incDroppedMalformed m)
      else (case toTicks symbol price (incAdds m) of
          None \<Rightarrow> None
        | Some p \<Rightarrow> result (mutateWithDelta symbol [(side, p)]
            (\<lambda>b. plain (applyAddScoped (mkOrder i side p sz priority) scope idMissing b)) (incAdds m))))"

text \<open>
  \<^verbatim>\<open>locate\<close> leaves its out-parameters alone when the key is unknown; \<open>u\<close> is then the
  indeterminate value of \<^verbatim>\<open>oldSide\<close>.
\<close>

definition updateCandidates ::
  "Side \<Rightarrow> OrderKey \<Rightarrow> Price option \<Rightarrow> OrderBook \<Rightarrow> (Side \<times> Price) list" where
  "updateCandidates u key p b = (case locate key b of
       Some (s, oldPrice) \<Rightarrow> (s, oldPrice) # (case p of Some np \<Rightarrow> [(s, np)] | None \<Rightarrow> [])
     | None \<Rightarrow> (case p of Some np \<Rightarrow> [(u, np)] | None \<Rightarrow> []))"

definition onUpdateKey ::
  "Side \<Rightarrow> string \<Rightarrow> OrderKey \<Rightarrow> double option \<Rightarrow> u64 option \<Rightarrow> OrderBookManager \<Rightarrow> (bool \<times> OrderBookManager) option" where
  "onUpdateKey u symbol key newPrice newSize m =
     (if gate symbol m then Some (False, incDroppedStale m)
      else if newPrice = None \<and> newSize = None then Some (False, incDroppedMalformed m)
      else if (case newPrice of Some px \<Rightarrow> \<not> validatePrice symbol px m | None \<Rightarrow> False)
        then Some (False, incDroppedMalformed m)
      else if (case newSize of Some z \<Rightarrow> \<not> validateSize z | None \<Rightarrow> False) then Some (False, incDroppedMalformed m)
      else (case getOrCreateBook symbol (incUpdates m) of (b, m1) \<Rightarrow>
        (case (case newPrice of None \<Rightarrow> Some None | Some px \<Rightarrow> map_option Some (toTicks symbol px m1)) of
            None \<Rightarrow> None
          | Some p \<Rightarrow> result (mutateWithDelta symbol (updateCandidates u key p b)
              (\<lambda>b. plain (applyUpdate key p newSize b)) m1))))"

definition onUpdate ::
  "Side \<Rightarrow> string \<Rightarrow> u64 \<Rightarrow> FeedScope \<Rightarrow> double option \<Rightarrow> u64 option \<Rightarrow> bool \<Rightarrow> OrderBookManager
     \<Rightarrow> (bool \<times> OrderBookManager) option" where
  "onUpdate u symbol i scope newPrice newSize synthetic m =
     onUpdateKey u symbol (makeKey i scope synthetic) newPrice newSize m"

definition onDeleteKey :: "string \<Rightarrow> OrderKey \<Rightarrow> OrderBookManager \<Rightarrow> (bool \<times> OrderBookManager) option" where
  "onDeleteKey symbol key m =
     (if gate symbol m then Some (False, incDroppedStale m)
      else case getOrCreateBook symbol (incDeletes m) of (b, m1) \<Rightarrow>
        result (mutateWithDelta symbol (case locate key b of Some (s, p) \<Rightarrow> [(s, p)] | None \<Rightarrow> [])
          (\<lambda>b. plain (applyDelete key b)) m1))"

definition onDelete :: "string \<Rightarrow> u64 \<Rightarrow> FeedScope \<Rightarrow> bool \<Rightarrow> OrderBookManager \<Rightarrow> (bool \<times> OrderBookManager) option" where
  "onDelete symbol i scope synthetic m = onDeleteKey symbol (makeKey i scope synthetic) m"

definition onPriorityKey :: "string \<Rightarrow> OrderKey \<Rightarrow> u64 \<Rightarrow> OrderBookManager \<Rightarrow> (bool \<times> OrderBookManager) option" where
  "onPriorityKey symbol key newPriority m =
     (if gate symbol m then Some (False, incDroppedStale m)
      else result (mutateWithDelta symbol [] (\<lambda>b. plain (applyPriority key newPriority b)) (incPriorities m)))"

definition onPriority ::
  "string \<Rightarrow> u64 \<Rightarrow> FeedScope \<Rightarrow> u64 \<Rightarrow> bool \<Rightarrow> OrderBookManager \<Rightarrow> (bool \<times> OrderBookManager) option" where
  "onPriority symbol i scope newPriority synthetic m = onPriorityKey symbol (makeKey i scope synthetic) newPriority m"

definition onAddWithVenueKey ::
  "string \<Rightarrow> string \<Rightarrow> u64 \<Rightarrow> Side \<Rightarrow> double \<Rightarrow> u64 \<Rightarrow> u64 \<Rightarrow> FeedScope \<Rightarrow> bool \<Rightarrow> OrderBookManager
     \<Rightarrow> (bool \<times> OrderBookManager) option" where
  "onAddWithVenueKey symbol venueKey i side price sz priority scope idMissing m =
     (case onAddGetKey symbol i side price sz priority scope idMissing m of
        None \<Rightarrow> None
      | Some (k, m1) \<Rightarrow>
          if k_id k = 0 \<and> k_feedId k = 0 \<and> k_epoch k = 0 then Some (False, m1)
          else map_option (\<lambda>m2. (True, m2)) (resolverPut symbol venueKey k m1))"

definition onUpdateByVenueKey ::
  "Side \<Rightarrow> string \<Rightarrow> string \<Rightarrow> double option \<Rightarrow> u64 option \<Rightarrow> OrderBookManager \<Rightarrow> (bool \<times> OrderBookManager) option" where
  "onUpdateByVenueKey u symbol venueKey newPrice newSize m =
     (if gate symbol m then Some (False, incDroppedStale m)
      else case resolverGet symbol venueKey m of
        None \<Rightarrow> None
      | Some None \<Rightarrow> Some (False, incDroppedMalformed m)
      | Some (Some k) \<Rightarrow> onUpdateKey u symbol k newPrice newSize m)"

definition onDeleteByVenueKey :: "string \<Rightarrow> string \<Rightarrow> OrderBookManager \<Rightarrow> (bool \<times> OrderBookManager) option" where
  "onDeleteByVenueKey symbol venueKey m =
     (if gate symbol m then Some (False, incDroppedStale m)
      else case resolverGet symbol venueKey m of
        None \<Rightarrow> None
      | Some None \<Rightarrow> Some (False, incDroppedMalformed m)
      | Some (Some k) \<Rightarrow> onDeleteKey symbol k m)"

definition onTrade :: "string \<Rightarrow> double \<Rightarrow> u64 \<Rightarrow> Aggressor \<Rightarrow> OrderBookManager \<Rightarrow> (bool \<times> OrderBookManager) option" where
  "onTrade symbol tradePrice sz aggr m =
     (if gate symbol m then Some (False, incDroppedStale m)
      else if \<not> validatePrice symbol tradePrice m \<or> \<not> validateSize sz then Some (False, incDroppedMalformed m)
      else (case toTicks symbol tradePrice (incEvents m) of
          None \<Rightarrow> None
        | Some tp \<Rightarrow> (case getOrCreateBook symbol (incEvents m) of (b, m1) \<Rightarrow>
            result (mutateWithDelta symbol
              ((if levelSize Bid tp b > 0 then [(Bid, tp)] else []) @ (if levelSize Ask tp b > 0 then [(Ask, tp)] else []))
              (\<lambda>b. plain (Some (applyTrade tp sz aggr b))) m1))))"

section \<open>Snapshots and summaries\<close>

text \<open>The part after the book is replaced: leave the stale state, count, publish the top of book.\<close>

definition finishSnapshot :: "string \<Rightarrow> u64 option \<Rightarrow> OrderBookManager \<Rightarrow> OrderBookManager" where
  "finishSnapshot symbol snapshotSeq m =
     (let st = getFeedState symbol m;
          st1 = st \<lparr> st_stale := False, st_lastSeq := (case snapshotSeq of Some s \<Rightarrow> s | None \<Rightarrow> st_lastSeq st) \<rparr>;
          m1 = incSnapshots (putFeed symbol st1 m)
      in case getOrCreateBook symbol m1 of (b, m2) \<Rightarrow>
        maybePublishDelta symbol []
          (case bestBid b of Some p \<Rightarrow> Some (p, bestBidSize b) | None \<Rightarrow> None)
          (case bestAsk b of Some p \<Rightarrow> Some (p, bestAskSize b) | None \<Rightarrow> None) m2)"

definition onSnapshotPerOrder ::
  "string \<Rightarrow> Order list \<Rightarrow> u64 option \<Rightarrow> OrderBookManager \<Rightarrow> OrderBookManager option" where
  "onSnapshotPerOrder symbol tickOrders snapshotSeq m =
     (case getOrCreateBook symbol m of (b, m1) \<Rightarrow>
       (case applySnapshotPerOrder tickOrders b of
          None \<Rightarrow> None
        | Some b' \<Rightarrow> Some (finishSnapshot symbol snapshotSeq (putBook symbol b' m1))))"

record LevelSnapshotEntryD =
  d_side :: Side
  d_price :: double
  d_totalSize :: u64
  d_orderCount :: "u32 option"

fun quantizeLevels :: "string \<Rightarrow> LevelSnapshotEntryD list \<Rightarrow> OrderBookManager \<Rightarrow> LevelSnapshotEntry list option" where
  "quantizeLevels symbol [] m = Some []"
| "quantizeLevels symbol (e # es) m = (case toTicks symbol (d_price e) m of
       None \<Rightarrow> None
     | Some p \<Rightarrow> map_option (\<lambda>ls. \<lparr> e_side = d_side e, e_price = p, e_totalSize = d_totalSize e,
                                   e_orderCount = d_orderCount e \<rparr> # ls) (quantizeLevels symbol es m))"

definition onSnapshotAggregated ::
  "string \<Rightarrow> LevelSnapshotEntryD list \<Rightarrow> u64 option \<Rightarrow> OrderBookManager \<Rightarrow> OrderBookManager option" where
  "onSnapshotAggregated symbol levelsD snapshotSeq m =
     (case quantizeLevels symbol levelsD m of
        None \<Rightarrow> None
      | Some levels \<Rightarrow> (case getOrCreateBook symbol m of (b, m1) \<Rightarrow>
          Some (finishSnapshot symbol snapshotSeq (putBook symbol (applySnapshotAggregated levels b) m1))))"

definition onLevelSummary ::
  "string \<Rightarrow> Side \<Rightarrow> double \<Rightarrow> u64 \<Rightarrow> u32 option \<Rightarrow> OrderBookManager \<Rightarrow> (bool \<times> OrderBookManager) option" where
  "onLevelSummary symbol side price tot orderCount m =
     (if gate symbol m then Some (False, incDroppedStale m)
      else if \<not> validatePrice symbol price m then Some (False, incDroppedMalformed m)
      else (case toTicks symbol price (incSummaries m) of
          None \<Rightarrow> None
        | Some p \<Rightarrow> result (mutateWithDelta symbol [(side, p)]
            (\<lambda>b. plain (Some (applyLevelSummary side p tot orderCount b))) (incSummaries m))))"

section \<open>Queries\<close>

definition mgr_bestBid :: "string \<Rightarrow> OrderBookManager \<Rightarrow> double option" where
  "mgr_bestBid symbol m = (case findBook symbol m of None \<Rightarrow> None
     | Some b \<Rightarrow> (case bestBid b of None \<Rightarrow> None | Some p \<Rightarrow> Some (toDouble symbol p m)))"

definition mgr_bestAsk :: "string \<Rightarrow> OrderBookManager \<Rightarrow> double option" where
  "mgr_bestAsk symbol m = (case findBook symbol m of None \<Rightarrow> None
     | Some b \<Rightarrow> (case bestAsk b of None \<Rightarrow> None | Some p \<Rightarrow> Some (toDouble symbol p m)))"

definition mgr_bestBidSize :: "string \<Rightarrow> OrderBookManager \<Rightarrow> u64" where
  "mgr_bestBidSize symbol m = (case findBook symbol m of None \<Rightarrow> 0 | Some b \<Rightarrow> bestBidSize b)"

definition mgr_bestAskSize :: "string \<Rightarrow> OrderBookManager \<Rightarrow> u64" where
  "mgr_bestAskSize symbol m = (case findBook symbol m of None \<Rightarrow> 0 | Some b \<Rightarrow> bestAskSize b)"

definition depthN :: "string \<Rightarrow> u64 \<Rightarrow> OrderBookManager \<Rightarrow> (double \<times> u64) list \<times> (double \<times> u64) list" where
  "depthN symbol n m = (case findBook symbol m of None \<Rightarrow> ([], [])
     | Some b \<Rightarrow> (map (\<lambda>(p, z). (toDouble symbol p m, z)) (forEachLevel Bid n b),
                map (\<lambda>(p, z). (toDouble symbol p m, z)) (forEachLevel Ask n b)))"

definition buildSnapshot :: "string \<Rightarrow> u64 \<Rightarrow> OrderBookManager \<Rightarrow> DepthSnapshot" where
  "buildSnapshot symbol levels m =
     \<lparr> sn_symbol = symbol,
       sn_seq = (case map_of (pubSeq m) symbol of None \<Rightarrow> 0 | Some s \<Rightarrow> s),
       sn_epoch = (case map_of (feed m) symbol of None \<Rightarrow> 0 | Some st \<Rightarrow> st_epoch st),
       sn_bids = (case findBook symbol m of None \<Rightarrow> [] | Some b \<Rightarrow> forEachLevel Bid levels b),
       sn_asks = (case findBook symbol m of None \<Rightarrow> [] | Some b \<Rightarrow> forEachLevel Ask levels b) \<rparr>"

definition getStats :: "OrderBookManager \<Rightarrow> MetricsSnapshot" where
  "getStats m = metrics m"

definition assertInvariants :: "string \<Rightarrow> OrderBookManager \<Rightarrow> string option option" where
  "assertInvariants symbol m = (case findBook symbol m of
       None \<Rightarrow> Some (Some ''book not found'')
     | Some b \<Rightarrow> checkInvariants b)"

definition setAllowNegativePrices :: "bool \<Rightarrow> OrderBookManager \<Rightarrow> OrderBookManager" where
  "setAllowNegativePrices allow m = m \<lparr> allowNegativePrices := allow \<rparr>"

end
