(* ===== verification/Lru_Cache.thy ===== *)
theory Lru_Cache
  imports Book_Manager
begin

text \<open>
  The venue-key cache of the manager (\<^verbatim>\<open>OrderBookManager::Lru\<close>). Its contract, a bounded map that
  forgets the entry written longest ago, is the locale \<open>bounded_cache\<close>; the code's list-and-index
  implementation is an instance.
\<close>

section \<open>The contract\<close>

text \<open>
  \<open>recent c\<close> lists the entries, most recently written first. A \<open>put\<close> moves or adds its key to
  the front and keeps at most \<open>capacity\<close> entries.
\<close>

locale bounded_cache =
  fixes ok :: "'c \<Rightarrow> bool" and recent :: "'c \<Rightarrow> ('k \<times> 'v) list" and capacity :: "'c \<Rightarrow> nat"
    and put :: "'k \<Rightarrow> 'v \<Rightarrow> 'c \<Rightarrow> 'c option" and get :: "'k \<Rightarrow> 'c \<Rightarrow> 'v option option"
  assumes recent_distinct: "ok c \<Longrightarrow> um_wf (recent c)"
    and recent_bounded: "ok c \<Longrightarrow> length (recent c) \<le> capacity c"
    and capacity_pos: "ok c \<Longrightarrow> 0 < capacity c"
    and put_total: "ok c \<Longrightarrow> \<exists>c'. put k v c = Some c' \<and> ok c' \<and> capacity c' = capacity c \<and>
          recent c' = take (capacity c) ((k, v) # AList.delete k (recent c))"
    and get_recent: "ok c \<Longrightarrow> get k c = Some (map_of (recent c) k)"
begin

lemma get_put_same: "ok c \<Longrightarrow> put k v c = Some c' \<Longrightarrow> get k c' = Some (Some v)"
  using put_total [of c k v] capacity_pos [of c] by (auto simp: get_recent take_Cons split: nat.split)

lemma map_of_take_mem: "um_wf xs \<Longrightarrow> map_of (take n xs) k = Some v \<Longrightarrow> map_of xs k = Some v"
  by (metis append_take_drop_id map_of_append map_add_Some_iff map_of_SomeD map_of_eq_Some_iff in_set_takeD)

text \<open>A key other than the one written either keeps its value or is forgotten, and nothing is
  forgotten while there is room.\<close>

lemma get_put_other:
  assumes "ok c" "put k v c = Some c'" "k' \<noteq> k"
  shows "get k' c' = get k' c \<or> get k' c' = Some None"
proof -
  have r: "ok c'" "recent c' = take (capacity c) ((k, v) # AList.delete k (recent c))"
    using put_total [OF assms(1), of k v] assms(2) by auto
  have wf: "um_wf ((k, v) # AList.delete k (recent c))" using recent_distinct [OF assms(1)] by auto
  have "map_of (recent c') k' = Some w \<Longrightarrow> map_of (recent c) k' = Some w" for w
    using map_of_take_mem [OF wf, of "capacity c" k' w] assms(3) by (simp add: r delete_conv')
  then show ?thesis using assms(1) r(1) by (cases "map_of (recent c') k'") (auto simp: get_recent)
qed

lemma get_put_room:
  assumes "ok c" "put k v c = Some c'" "k' \<noteq> k" "length (recent c) < capacity c"
  shows "get k' c' = get k' c"
proof -
  have r: "ok c'" "recent c' = take (capacity c) ((k, v) # AList.delete k (recent c))"
    using put_total [OF assms(1), of k v] assms(2) by auto
  moreover have "length ((k, v) # AList.delete k (recent c)) \<le> capacity c"
    using assms(4) length_delete_le [of k "recent c"] by simp
  ultimately show ?thesis using assms(1,3) by (simp add: get_recent delete_conv')
qed

end

section \<open>The implementation\<close>

definition lru_view :: "Lru \<Rightarrow> (string \<times> OrderKey) list" where
  "lru_view l = map snd (lru_dq l)"

definition lru_ok :: "Lru \<Rightarrow> bool" where
  "lru_ok l \<longleftrightarrow> um_wf (lru_dq l) \<and> um_wf (map snd (lru_dq l)) \<and> um_wf (lru_idx l) \<and>
     list_all (\<lambda>(n, _). n < lru_next l) (lru_dq l) \<and>
     length (lru_dq l) \<le> unat (lru_cap l) \<and> lru_cap l \<noteq> 0 \<and>
     list_all (\<lambda>(n, k, v). map_of (lru_idx l) k = Some n) (lru_dq l) \<and>
     list_all (\<lambda>(k, n). case map_of (lru_dq l) n of Some (k', _) \<Rightarrow> k' = k | None \<Rightarrow> False) (lru_idx l)"

text \<open>The index and the list agree.\<close>

definition lru_index :: "(node \<times> string \<times> OrderKey) list \<Rightarrow> (string \<Rightarrow> node option) \<Rightarrow> bool" where
  "lru_index q I \<longleftrightarrow> (\<forall>k n. I k = Some n \<longleftrightarrow> (\<exists>v. (n, k, v) \<in> set q))"

definition lru_core :: "Lru \<Rightarrow> bool" where
  "lru_core l \<longleftrightarrow> um_wf (lru_dq l) \<and> um_wf (lru_idx l) \<and> list_all (\<lambda>(n, _). n < lru_next l) (lru_dq l) \<and>
     lru_cap l \<noteq> 0 \<and> lru_index (lru_dq l) (map_of (lru_idx l))"

lemma lru_index_distinct:
  assumes wf: "um_wf q" and idx: "lru_index q I"
  shows "um_wf (map snd q)"
proof -
  have "inj_on (\<lambda>x. fst (snd x)) (set q)"
  proof (rule inj_onI)
    fix x y assume xy: "x \<in> set q" "y \<in> set q" "fst (snd x) = fst (snd y)"
    obtain n k v where x: "x = (n, k, v)" by (cases x)
    obtain n' k' v' where y: "y = (n', k', v')" by (cases y)
    have "I k = Some n" "I k = Some n'" using xy idx unfolding x y lru_index_def by auto
    then show "x = y" using wf xy by (metis x y eq_key_imp_eq_value option.inject fst_conv snd_conv prod.inject)
  qed
  moreover have "distinct q" using wf by (simp add: distinct_map)
  ultimately show ?thesis by (simp add: distinct_map o_def)
qed

lemma lru_ok_core: "lru_ok l \<longleftrightarrow> lru_core l \<and> length (lru_dq l) \<le> unat (lru_cap l)"
proof -
  let ?q = "lru_dq l" and ?i = "lru_idx l"
  have "lru_index ?q (map_of ?i) \<longleftrightarrow>
      list_all (\<lambda>(n, k, v). map_of ?i k = Some n) ?q \<and>
      list_all (\<lambda>(k, n). case map_of ?q n of Some (k', _) \<Rightarrow> k' = k | None \<Rightarrow> False) ?i"
    if wf: "um_wf ?q" "um_wf ?i"
  proof
    assume idx: "lru_index ?q (map_of ?i)"
    show "list_all (\<lambda>(n, k, v). map_of ?i k = Some n) ?q \<and>
      list_all (\<lambda>(k, n). case map_of ?q n of Some (k', _) \<Rightarrow> k' = k | None \<Rightarrow> False) ?i"
      unfolding list_all_iff
    proof (intro conjI ballI)
      show "case x of (n, k, v) \<Rightarrow> map_of ?i k = Some n" if "x \<in> set ?q" for x
        using that idx by (auto simp: lru_index_def split: prod.split)
      show "case y of (k, n) \<Rightarrow> case map_of ?q n of Some (k', _) \<Rightarrow> k' = k | None \<Rightarrow> False" if y: "y \<in> set ?i" for y
      proof -
        obtain k n where kn: "y = (k, n)" by (cases y)
        then have "map_of ?i k = Some n" using y wf by simp
        then obtain v where "(n, k, v) \<in> set ?q" using idx unfolding lru_index_def by blast
        then have "map_of ?q n = Some (k, v)" using wf by simp
        then show ?thesis by (simp add: kn)
      qed
    qed
  next
    assume a: "list_all (\<lambda>(n, k, v). map_of ?i k = Some n) ?q \<and>
      list_all (\<lambda>(k, n). case map_of ?q n of Some (k', _) \<Rightarrow> k' = k | None \<Rightarrow> False) ?i"
    show "lru_index ?q (map_of ?i)" unfolding lru_index_def
    proof (intro allI iffI)
      fix k n assume "map_of ?i k = Some n"
      then have "case map_of ?q n of Some (k', _) \<Rightarrow> k' = k | None \<Rightarrow> False"
        using a by (auto simp: list_all_iff dest!: map_of_SomeD)
      then show "\<exists>v. (n, k, v) \<in> set ?q" by (auto split: option.splits dest: map_of_SomeD)
    next
      fix k n assume "\<exists>v. (n, k, v) \<in> set ?q"
      then show "map_of ?i k = Some n" using a by (auto simp: list_all_iff)
    qed
  qed
  then show ?thesis using lru_index_distinct unfolding lru_ok_def lru_core_def by blast
qed

lemma trim_loop_eq:
  assumes "um_wf q" "lru_index q (map_of i)" "um_wf i"
  shows "fst (trim_loop c q i) = take c q \<and> um_wf (snd (trim_loop c q i)) \<and>
    lru_index (fst (trim_loop c q i)) (map_of (snd (trim_loop c q i)))"
  using assms
proof (induction c q i rule: trim_loop.induct)
  case (1 c q i)
  show ?case
  proof (cases "length q > c")
    case False
    then show ?thesis using 1 by (simp add: trim_loop.simps [of c q i])
  next
    case True
    then obtain q0 n k v where q: "q = q0 @ [(n, k, v)]" by (metis list.size(3) not_less0 rev_exhaust prod_cases3)
    have wf: "um_wf q0" using 1(2) by (simp add: q)
    have keys: "um_wf (map snd q)" using 1(2,3) by (rule lru_index_distinct)
    then have kq: "(n', k, v') \<notin> set q0" for n' v' by (force simp: q)
    have idx: "lru_index q0 (map_of (AList.delete k i))"
      using 1(3) kq unfolding lru_index_def q by (auto simp: delete_conv')
    have "um_wf (AList.delete k i)" using 1(4) by simp
    from 1(1) [OF True] wf idx this have "fst (trim_loop c q0 (AList.delete k i)) = take c q0 \<and>
        um_wf (snd (trim_loop c q0 (AList.delete k i))) \<and>
        lru_index (fst (trim_loop c q0 (AList.delete k i))) (map_of (snd (trim_loop c q0 (AList.delete k i))))"
      unfolding q butlast_snoc last_snoc fst_conv snd_conv by blast
    moreover have "trim_loop c q i = trim_loop c q0 (AList.delete k i)"
      using True by (subst trim_loop.simps) (simp add: q)
    moreover have "take c q = take c q0" using True by (simp add: q)
    ultimately show ?thesis by metis
  qed
qed

lemma lru_trim_refines:
  assumes "lru_core l"
  shows "lru_ok (lru_trim l)" and "lru_view (lru_trim l) = take (unat (lru_cap l)) (lru_view l)"
    and "lru_cap (lru_trim l) = lru_cap l"
proof -
  obtain q i where t: "trim_loop (unat (lru_cap l)) (lru_dq l) (lru_idx l) = (q, i)" by fastforce
  then have l: "lru_trim l = l\<lparr>lru_dq := q, lru_idx := i\<rparr>" by (simp add: lru_trim_def)
  have r: "q = take (unat (lru_cap l)) (lru_dq l)" "um_wf i" "lru_index q (map_of i)"
    using trim_loop_eq [of "lru_dq l" "lru_idx l" "unat (lru_cap l)"] assms unfolding t fst_conv snd_conv lru_core_def by blast+
  have "um_wf q" using assms by (simp add: r(1) lru_core_def take_map [symmetric])
  then show "lru_ok (lru_trim l)"
    using assms r unfolding lru_ok_core l lru_core_def by (auto simp: list_all_iff dest: in_set_takeD)
  show "lru_view (lru_trim l) = take (unat (lru_cap l)) (lru_view l)" "lru_cap (lru_trim l) = lru_cap l"
    by (simp_all add: l lru_view_def r(1) take_map)
qed

lemma lru_cget_view:
  assumes "lru_ok l"
  shows "lru_cget k l = Some (map_of (lru_view l) k)"
proof -
  have core: "um_wf (lru_dq l)" "lru_index (lru_dq l) (map_of (lru_idx l))" using assms by (simp_all add: lru_ok_core lru_core_def)
  have view: "um_wf (lru_view l)" unfolding lru_view_def using core by (rule lru_index_distinct)
  show ?thesis
  proof (cases "map_of (lru_idx l) k")
    case None
    then have "(n, k, v) \<notin> set (lru_dq l)" for n v using core(2) unfolding lru_index_def by force
    then have "map_of (lru_view l) k = None" by (force simp: lru_view_def map_of_eq_None_iff)
    then show ?thesis using None by (simp add: lru_cget_def)
  next
    case (Some n)
    then obtain v where v: "(n, k, v) \<in> set (lru_dq l)" using core(2) unfolding lru_index_def by blast
    then have "map_of (lru_dq l) n = Some (k, v)" using core by simp
    moreover have "map_of (lru_view l) k = Some v" using v view by (force simp: lru_view_def)
    ultimately show ?thesis using Some by (simp add: lru_cget_def)
  qed
qed

lemma lru_put_new:
  fixes v :: OrderKey
  assumes ok: "lru_ok l" and k: "map_of (lru_idx l) k = None"
  defines "l1 \<equiv> l\<lparr>lru_dq := (lru_next l, k, v) # lru_dq l, lru_idx := AList.update k (lru_next l) (lru_idx l),
    lru_next := lru_next l + 1\<rparr>"
  shows "lru_core l1" and "AList.delete k (lru_view l) = lru_view l"
proof -
  have core: "um_wf (lru_dq l)" "um_wf (lru_idx l)" "lru_index (lru_dq l) (map_of (lru_idx l))"
    "list_all (\<lambda>(n, _). n < lru_next l) (lru_dq l)" "lru_cap l \<noteq> 0"
    using ok by (simp_all add: lru_ok_core lru_core_def)
  have fresh: "(lru_next l, x) \<notin> set (lru_dq l)" for x using core(4) by (auto simp: list_all_iff)
  have nk: "(n, k, w) \<notin> set (lru_dq l)" for n w using core(3) k unfolding lru_index_def by force
  then have "k \<notin> fst ` set (lru_view l)" by (force simp: lru_view_def)
  then show "AList.delete k (lru_view l) = lru_view l" by simp
  have "lru_index (lru_dq l1) (map_of (lru_idx l1))"
    using core(3) fresh nk unfolding lru_index_def l1_def by (auto simp: umap_simps)
  moreover have "um_wf (lru_dq l1)" using core(1) fresh by (force simp: l1_def)
  ultimately show "lru_core l1" using core by (auto simp: lru_core_def l1_def list_all_iff)
qed

lemma lru_put_old:
  assumes ok: "lru_ok l" and k: "map_of (lru_idx l) k = Some n"
  obtains w where "map_of (lru_dq l) n = Some (k, w)"
    and "lru_ok (l\<lparr>lru_dq := (n, k, v) # AList.delete n (lru_dq l)\<rparr>)"
    and "map snd (AList.delete n (lru_dq l)) = AList.delete k (lru_view l)"
    and "length (AList.delete k (lru_view l)) < unat (lru_cap l)"
proof -
  have core: "um_wf (lru_dq l)" "um_wf (lru_idx l)" "lru_index (lru_dq l) (map_of (lru_idx l))"
    "list_all (\<lambda>(n, _). n < lru_next l) (lru_dq l)" "lru_cap l \<noteq> 0" "length (lru_dq l) \<le> unat (lru_cap l)"
    using ok by (simp_all add: lru_ok_core lru_core_def)
  obtain w where w: "(n, k, w) \<in> set (lru_dq l)" using core(3) k unfolding lru_index_def by blast
  then have m: "map_of (lru_dq l) n = Some (k, w)" using core(1) by simp
  have nk: "k' = k \<longleftrightarrow> n' = n" if "(n', k', x) \<in> set (lru_dq l)" for n' k' x
    using that w core(1,3) k unfolding lru_index_def by (metis Pair_inject eq_key_imp_eq_value option.inject)
  let ?l = "l\<lparr>lru_dq := (n, k, v) # AList.delete n (lru_dq l)\<rparr>"
  have "lru_index (lru_dq ?l) (map_of (lru_idx ?l))"
    unfolding lru_index_def
  proof (intro allI)
    fix k' n'
    have "(\<exists>x. (n', k', x) \<in> set (lru_dq l)) \<longleftrightarrow> (\<exists>x. (n', k', x) \<in> set (lru_dq ?l))"
    proof (cases "n' = n")
      case True
      then show ?thesis using nk w by auto
    next
      case False
      then show ?thesis by auto
    qed
    then show "(map_of (lru_idx ?l) k' = Some n') = (\<exists>x. (n', k', x) \<in> set (lru_dq ?l))"
      using core(3) unfolding lru_index_def by simp
  qed
  moreover have len: "Suc (length (AList.delete n (lru_dq l))) = length (lru_dq l)"
    using core(1) m by (intro length_delete_present) auto
  ultimately have "lru_ok ?l" using core w by (auto simp: lru_ok_core lru_core_def list_all_iff)
  moreover have view: "map snd (AList.delete n (lru_dq l)) = AList.delete k (lru_view l)"
    using nk by (force simp: AList.delete_eq lru_view_def filter_map o_def intro!: arg_cong [of _ _ "map snd"] filter_cong)
  moreover have "length (AList.delete k (lru_view l)) < unat (lru_cap l)"
    using len core(6) view [symmetric] by simp
  ultimately show ?thesis using that m by blast
qed

lemma lru_put_total:
  assumes ok: "lru_ok l"
  shows "\<exists>l'. lru_put k v l = Some l' \<and> lru_ok l' \<and> unat (lru_cap l') = unat (lru_cap l) \<and>
    lru_view l' = take (unat (lru_cap l)) ((k, v) # AList.delete k (lru_view l))"
proof (cases "map_of (lru_idx l) k")
  case None
  note n = lru_put_new(1) [OF ok None, of v] lru_put_new(2) [OF ok None]
  from lru_trim_refines [OF n(1)] show ?thesis
    using None n(2) by (simp add: lru_put_def) (simp add: lru_view_def)
next
  case (Some n)
  from lru_put_old [OF ok Some, where v = v] obtain w where w: "map_of (lru_dq l) n = Some (k, w)"
    "lru_ok (l\<lparr>lru_dq := (n, k, v) # AList.delete n (lru_dq l)\<rparr>)"
    "map snd (AList.delete n (lru_dq l)) = AList.delete k (lru_view l)"
    "length (AList.delete k (lru_view l)) < unat (lru_cap l)" by metis
  then show ?thesis using Some by (simp add: lru_put_def) (simp add: lru_view_def)
qed

lemma lru_init_ok: "lru_ok Lru_init"
  by (simp add: lru_ok_def Lru_init_def)

lemma lru_setCap_ok:
  assumes "lru_ok l"
  shows "lru_ok (lru_setCap c l)" "lru_view (lru_setCap c l) = take (unat (if c \<noteq> 0 then c else 1)) (lru_view l)"
proof -
  have "lru_core (l\<lparr>lru_cap := if c \<noteq> 0 then c else 1\<rparr>)"
    using assms by (auto simp: lru_ok_core lru_core_def)
  from lru_trim_refines [OF this] show "lru_ok (lru_setCap c l)"
    "lru_view (lru_setCap c l) = take (unat (if c \<noteq> 0 then c else 1)) (lru_view l)"
    by (simp_all add: lru_setCap_def lru_view_def)
qed

interpretation lru: bounded_cache lru_ok lru_view "\<lambda>l. unat (lru_cap l)" lru_put lru_cget
proof
  fix l :: Lru and k v
  assume ok: "lru_ok l"
  show "um_wf (lru_view l)" using ok by (simp add: lru_ok_def lru_view_def)
  show "length (lru_view l) \<le> unat (lru_cap l)" using ok by (simp add: lru_ok_def lru_view_def)
  show "0 < unat (lru_cap l)" using ok by (simp add: lru_ok_def unat_gt_0)
  show "\<exists>l'. lru_put k v l = Some l' \<and> lru_ok l' \<and> unat (lru_cap l') = unat (lru_cap l) \<and>
      lru_view l' = take (unat (lru_cap l)) ((k, v) # AList.delete k (lru_view l))"
    using ok by (rule lru_put_total)
  show "lru_cget k l = Some (map_of (lru_view l) k)" using ok by (rule lru_cget_view)
qed

end
