(* ===== verification/Book_Manager_Inv.thy ===== *)
theory Book_Manager_Inv
  imports Order_Book_Thms Lru_Cache
begin

text \<open>
  The invariant of the manager (every book and every venue-key cache is well formed), the
  operations as a data type, and the preservation of the invariant. Every mutation of a book goes
  through \<open>mutateWithDelta\<close>, so one lemma about it serves all of them; what it needs of the book
  is the totality theorem of the book's own operations.
\<close>

section \<open>The operations\<close>

datatype mgr_op =
    MSetTick string double
  | MAllowNegative bool
  | MSeq string u64
  | MReset string u32
  | MCapacity u64
  | MResolverPut string string OrderKey
  | MSubscribe string nat
  | MUnsubscribe string u64
  | MAddGetKey string u64 Side double u64 u64 FeedScope bool
  | MAdd string u64 Side double u64 u64 FeedScope bool
  | MUpdate string OrderKey "double option" "u64 option"
  | MDelete string OrderKey
  | MPriority string OrderKey u64
  | MAddVenue string string u64 Side double u64 u64 FeedScope bool
  | MUpdateVenue string string "double option" "u64 option"
  | MDeleteVenue string string
  | MTrade string double u64 Aggressor
  | MSnapshotPerOrder string "Order list" "u64 option"
  | MSnapshotAggregated string "LevelSnapshotEntryD list" "u64 option"
  | MLevelSummary string Side double u64 "u32 option"

fun mgr_exec :: "Side \<Rightarrow> mgr_op \<Rightarrow> OrderBookManager \<Rightarrow> OrderBookManager option" where
  "mgr_exec u (MSetTick s t) m = Some (setTickSize s t m)"
| "mgr_exec u (MAllowNegative a) m = Some (setAllowNegativePrices a m)"
| "mgr_exec u (MSeq s q) m = Some (snd (onSeq s q m))"
| "mgr_exec u (MReset s e) m = Some (onReset s e m)"
| "mgr_exec u (MCapacity c) m = Some (resolverSetCapacity c m)"
| "mgr_exec u (MResolverPut s v k) m = resolverPut s v k m"
| "mgr_exec u (MSubscribe s h) m = Some (snd (subscribeDeltas s h m))"
| "mgr_exec u (MUnsubscribe s i) m = Some (unsubscribeDeltas s i m)"
| "mgr_exec u (MAddGetKey s i sd px z pr sc miss) m = map_option snd (onAddGetKey s i sd px z pr sc miss m)"
| "mgr_exec u (MAdd s i sd px z pr sc miss) m = map_option snd (onAdd s i sd px z pr sc miss m)"
| "mgr_exec u (MUpdate s k np nz) m = map_option snd (onUpdateKey u s k np nz m)"
| "mgr_exec u (MDelete s k) m = map_option snd (onDeleteKey s k m)"
| "mgr_exec u (MPriority s k q) m = map_option snd (onPriorityKey s k q m)"
| "mgr_exec u (MAddVenue s v i sd px z pr sc miss) m = map_option snd (onAddWithVenueKey s v i sd px z pr sc miss m)"
| "mgr_exec u (MUpdateVenue s v np nz) m = map_option snd (onUpdateByVenueKey u s v np nz m)"
| "mgr_exec u (MDeleteVenue s v) m = map_option snd (onDeleteByVenueKey s v m)"
| "mgr_exec u (MTrade s px z a) m = map_option snd (onTrade s px z a m)"
| "mgr_exec u (MSnapshotPerOrder s os q) m = onSnapshotPerOrder s os q m"
| "mgr_exec u (MSnapshotAggregated s ls q) m = onSnapshotAggregated s ls q m"
| "mgr_exec u (MLevelSummary s sd px t c) m = map_option snd (onLevelSummary s sd px t c m)"

fun mgr_run :: "Side \<Rightarrow> mgr_op list \<Rightarrow> OrderBookManager \<Rightarrow> OrderBookManager option" where
  "mgr_run u [] m = Some m"
| "mgr_run u (op # ops) m = (case mgr_exec u op m of None \<Rightarrow> None | Some m' \<Rightarrow> mgr_run u ops m')"

text \<open>The book of a symbol, as the mutations see it.\<close>

definition book_of :: "string \<Rightarrow> OrderBookManager \<Rightarrow> OrderBook" where
  "book_of s m = (case findBook s m of Some b \<Rightarrow> b | None \<Rightarrow> OrderBook_init)"

text \<open>
  An operation fits when the price it quantizes has a specified tick value and the operation it
  performs on the book overflows no level total.
\<close>

definition price_fits :: "string \<Rightarrow> double \<Rightarrow> OrderBookManager \<Rightarrow> (Price \<Rightarrow> bool) \<Rightarrow> bool" where
  "price_fits s px m P \<longleftrightarrow> validatePrice s px m \<longrightarrow> (case toTicks s px m of None \<Rightarrow> False | Some p \<Rightarrow> P p)"

definition update_price_fits ::
  "string \<Rightarrow> OrderKey \<Rightarrow> double option \<Rightarrow> u64 option \<Rightarrow> OrderBookManager \<Rightarrow> bool" where
  "update_price_fits s k np nz m = (case np of
       None \<Rightarrow> key_update_fits k None nz (book_of s m)
     | Some px \<Rightarrow> price_fits s px m (\<lambda>p. key_update_fits k (Some p) nz (book_of s m)))"

fun mgr_fits :: "mgr_op \<Rightarrow> OrderBookManager \<Rightarrow> bool" where
  "mgr_fits (MAddGetKey s i sd px z pr sc miss) m = price_fits s px m (\<lambda>p. fits (mkOrder i sd p z pr) (book_of s m))"
| "mgr_fits (MAdd s i sd px z pr sc miss) m = price_fits s px m (\<lambda>p. fits (mkOrder i sd p z pr) (book_of s m))"
| "mgr_fits (MAddVenue s v i sd px z pr sc miss) m = price_fits s px m (\<lambda>p. fits (mkOrder i sd p z pr) (book_of s m))"
| "mgr_fits (MUpdate s k np nz) m = update_price_fits s k np nz m"
| "mgr_fits (MUpdateVenue s v np nz) m =
     (case resolverGet s v m of Some (Some k) \<Rightarrow> update_price_fits s k np nz m | _ \<Rightarrow> True)"
| "mgr_fits (MTrade s px z a) m = price_fits s px m (\<lambda>_. True)"
| "mgr_fits (MLevelSummary s sd px t c) m = price_fits s px m (\<lambda>_. True)"
| "mgr_fits (MSnapshotPerOrder s os q) m = (qsum os < 2 ^ 64)"
| "mgr_fits (MSnapshotAggregated s ls q) m = list_all (\<lambda>e. toTicks s (d_price e) m \<noteq> None) ls"
| "mgr_fits _ m = True"

fun mgr_ops_fit :: "Side \<Rightarrow> mgr_op list \<Rightarrow> OrderBookManager \<Rightarrow> bool" where
  "mgr_ops_fit u [] m = True"
| "mgr_ops_fit u (op # ops) m =
     (mgr_fits op m \<and> (case mgr_exec u op m of None \<Rightarrow> True | Some m' \<Rightarrow> mgr_ops_fit u ops m'))"

section \<open>The invariant\<close>

definition mgr_inv :: "OrderBookManager \<Rightarrow> bool" where
  "mgr_inv m \<longleftrightarrow> um_wf (books m) \<and> list_all (\<lambda>(_, b). book_inv b \<and> agg_inv b) (books m) \<and>
     um_wf (resolver m) \<and> list_all (\<lambda>(_, l). lru_ok l) (resolver m)"

lemma mgr_invD:
  assumes "mgr_inv m"
  shows "um_wf (books m)" "um_wf (resolver m)" "map_of (books m) s = Some b \<Longrightarrow> book_inv b \<and> agg_inv b"
    "map_of (resolver m) s = Some l \<Longrightarrow> lru_ok l"
  using assms by (auto simp: mgr_inv_def list_all_iff dest!: map_of_SomeD)

lemma mgr_invI:
  assumes "um_wf (books m)" "um_wf (resolver m)" "\<And>s b. map_of (books m) s = Some b \<Longrightarrow> book_inv b \<and> agg_inv b"
    "\<And>s l. map_of (resolver m) s = Some l \<Longrightarrow> lru_ok l"
  shows "mgr_inv m"
  using assms by (auto simp: mgr_inv_def list_all_iff)

lemma mgr_inv_frame:
  "mgr_inv m \<Longrightarrow> books m' = books m \<Longrightarrow> resolver m' = resolver m \<Longrightarrow> mgr_inv m'"
  by (simp add: mgr_inv_def)

lemma init_mgr_inv: "mgr_inv OrderBookManager_init"
  by (simp add: mgr_inv_def OrderBookManager_init_def)

named_theorems mgr_frame \<open>which fields the manager's helpers leave alone\<close>

lemma inc_frame [mgr_frame]:
  "books (incAdds m) = books m" "books (incUpdates m) = books m" "books (incDeletes m) = books m"
  "books (incEvents m) = books m" "books (incPriorities m) = books m" "books (incSnapshots m) = books m"
  "books (incSummaries m) = books m" "books (incDeltasPublished m) = books m" "books (incDroppedStale m) = books m"
  "books (incDroppedMalformed m) = books m" "books (incSeqGap m) = books m" "books (incSeqReset m) = books m"
  "books (incStaleTransition m) = books m"
  "resolver (incAdds m) = resolver m" "resolver (incUpdates m) = resolver m" "resolver (incDeletes m) = resolver m"
  "resolver (incEvents m) = resolver m" "resolver (incPriorities m) = resolver m" "resolver (incSnapshots m) = resolver m"
  "resolver (incSummaries m) = resolver m" "resolver (incDeltasPublished m) = resolver m" "resolver (incDroppedStale m) = resolver m"
  "resolver (incDroppedMalformed m) = resolver m" "resolver (incSeqGap m) = resolver m" "resolver (incSeqReset m) = resolver m"
  "resolver (incStaleTransition m) = resolver m"
  "feed (incAdds m) = feed m" "feed (incUpdates m) = feed m" "feed (incDeletes m) = feed m"
  "feed (incEvents m) = feed m" "feed (incPriorities m) = feed m" "feed (incSnapshots m) = feed m"
  "feed (incSummaries m) = feed m" "feed (incDeltasPublished m) = feed m" "feed (incDroppedStale m) = feed m"
  "feed (incDroppedMalformed m) = feed m" "feed (incSeqGap m) = feed m" "feed (incSeqReset m) = feed m"
  "feed (incStaleTransition m) = feed m"
  by (simp_all add: incAdds_def incUpdates_def incDeletes_def incEvents_def incPriorities_def incSnapshots_def
      incSummaries_def incDeltasPublished_def incDroppedStale_def incDroppedMalformed_def incSeqGap_def incSeqReset_def
      incStaleTransition_def)

lemma inc_frame2 [mgr_frame]:
  "delivered (incAdds m) = delivered m" "delivered (incUpdates m) = delivered m" "delivered (incDeletes m) = delivered m"
  "delivered (incEvents m) = delivered m" "delivered (incPriorities m) = delivered m" "delivered (incSnapshots m) = delivered m"
  "delivered (incSummaries m) = delivered m" "delivered (incDroppedStale m) = delivered m" "delivered (incDeltasPublished m) = delivered m"
  "delivered (incDroppedMalformed m) = delivered m" "delivered (incSeqGap m) = delivered m" "delivered (incSeqReset m) = delivered m"
  "delivered (incStaleTransition m) = delivered m"
  "pubSeq (incAdds m) = pubSeq m" "pubSeq (incUpdates m) = pubSeq m" "pubSeq (incDeletes m) = pubSeq m"
  "pubSeq (incEvents m) = pubSeq m" "pubSeq (incPriorities m) = pubSeq m" "pubSeq (incSnapshots m) = pubSeq m"
  "pubSeq (incSummaries m) = pubSeq m" "pubSeq (incDroppedStale m) = pubSeq m" "pubSeq (incDeltasPublished m) = pubSeq m"
  "pubSeq (incDroppedMalformed m) = pubSeq m" "pubSeq (incSeqGap m) = pubSeq m" "pubSeq (incSeqReset m) = pubSeq m"
  "pubSeq (incStaleTransition m) = pubSeq m"
  "subs (incAdds m) = subs m" "subs (incUpdates m) = subs m" "subs (incDeletes m) = subs m"
  "subs (incEvents m) = subs m" "subs (incPriorities m) = subs m" "subs (incSnapshots m) = subs m"
  "subs (incSummaries m) = subs m" "subs (incDroppedStale m) = subs m" "subs (incDeltasPublished m) = subs m"
  "subs (incDroppedMalformed m) = subs m"
  by (simp_all add: incAdds_def incUpdates_def incDeletes_def incEvents_def incPriorities_def incSnapshots_def
      incSummaries_def incDeltasPublished_def incDroppedStale_def incDroppedMalformed_def incSeqGap_def incSeqReset_def
      incStaleTransition_def)

lemma inc_tick [mgr_frame]:
  "toTicks s px (incAdds m) = toTicks s px m" "toTicks s px (incUpdates m) = toTicks s px m"
  "toTicks s px (incEvents m) = toTicks s px m" "toTicks s px (incSummaries m) = toTicks s px m"
  by (simp_all add: toTicks_def getTickSize_def incAdds_def incUpdates_def incEvents_def incSummaries_def)

lemma helper_frame [mgr_frame]:
  "books (putFeed s st m) = books m" "resolver (putFeed s st m) = resolver m"
  "books (requestSnapshot s m) = books m" "resolver (requestSnapshot s m) = resolver m"
  "feed (requestSnapshot s m) = feed m" "delivered (requestSnapshot s m) = delivered m" "pubSeq (requestSnapshot s m) = pubSeq m"
  "delivered (putFeed s st m) = delivered m" "pubSeq (putFeed s st m) = pubSeq m" "feed (putFeed s st m) = AList.update s st (feed m)"
  "resolver (putBook s b m) = resolver m" "feed (putBook s b m) = feed m" "delivered (putBook s b m) = delivered m"
  "pubSeq (putBook s b m) = pubSeq m" "books (putBook s b m) = AList.update s b (books m)" "subs (putBook s b m) = subs m"
  by (simp_all add: putFeed_def requestSnapshot_def putBook_def)

lemma publish_frame [mgr_frame]:
  "books (maybePublishDelta s ls b a m) = books m" "resolver (maybePublishDelta s ls b a m) = resolver m"
  "feed (maybePublishDelta s ls b a m) = feed m"
  by (simp_all add: maybePublishDelta_def Let_def mgr_frame)

lemma getOrCreateBook_frame:
  assumes "getOrCreateBook s m = (b, m1)"
  shows "b = book_of s m" "resolver m1 = resolver m" "feed m1 = feed m" "delivered m1 = delivered m" "pubSeq m1 = pubSeq m"
    "toTicks s' px m1 = toTicks s' px m" "map_of (books m1) = (map_of (books m))(s \<mapsto> b)" "um_wf (books m) \<Longrightarrow> um_wf (books m1)"
    "subs m1 = subs m" "getOrCreateBook s m1 = (b, m1)"
  using assms
  by (auto simp: getOrCreateBook_def book_of_def findBook_def toTicks_def getTickSize_def umap_simps split: option.splits)

lemma book_of_inv: "mgr_inv m \<Longrightarrow> book_inv (book_of s m) \<and> agg_inv (book_of s m)"
  by (auto simp: book_of_def findBook_def init_inv split: option.split dest: mgr_invD(3))

section \<open>Preservation\<close>

text \<open>A mutation performs one operation of the book.\<close>

lemma mutate_inv:
  assumes inv: "mgr_inv m" and f: "f (book_of s m) = Some ((c, r), b')"
    and op: "exec_op op (book_of s m) = Some b'" and fits: "op_fits op (book_of s m)"
  shows "\<exists>m'. mutateWithDelta s cs f m = Some ((c, r), m') \<and> mgr_inv m'"
proof -
  obtain b m1 where g: "getOrCreateBook s m = (b, m1)" by fastforce
  note fr = getOrCreateBook_frame [OF g]
  have "book_inv (book_of s m)" "agg_inv (book_of s m)" using book_of_inv [OF inv] by blast+
  then have b': "book_inv b'" "agg_inv b'"
    using exec_op_total [OF _ fits] exec_op_agg [OF _ op] op by auto
  have "mgr_inv (putBook s b' m1)"
    by (rule mgr_invI) (use inv b' fr in \<open>auto simp: mgr_frame umap_simps dest: mgr_invD split: if_splits\<close>)
  then have "mgr_inv (maybePublishDelta s ls nb na (putBook s b' m1))" for ls nb na
    by (rule mgr_inv_frame) (simp_all add: mgr_frame)
  then show ?thesis using \<open>mgr_inv (putBook s b' m1)\<close> f fr(1) by (simp add: mutateWithDelta_def g Let_def)
qed

lemma plain_inv:
  assumes inv: "mgr_inv m" and op: "exec_op op (book_of s m) = Some b'" and f: "f (book_of s m) = Some (c, b')"
    and fits: "op_fits op (book_of s m)"
  shows "\<exists>c m'. result (mutateWithDelta s cs (\<lambda>b. plain (f b)) m) = Some (c, m') \<and> mgr_inv m'"
  using mutate_inv [OF inv _ op fits, of "\<lambda>b. plain (f b)" c "()" cs] f by (auto simp: plain_def result_def)

text \<open>A book operation that returns a flag and fits is total.\<close>

lemma flag_total:
  assumes inv: "mgr_inv m" and fits: "op_fits op (book_of s m)" and ex: "\<And>b. exec_op op b = map_option snd (f b)"
  shows "\<exists>c m'. result (mutateWithDelta s cs (\<lambda>b. plain (f b)) m) = Some (c, m') \<and> mgr_inv m'"
proof -
  obtain b' where b': "exec_op op (book_of s m) = Some b'" using exec_op_total [OF _ fits] book_of_inv [OF inv] by blast
  then obtain c where "f (book_of s m) = Some (c, b')" using ex by auto
  then show ?thesis using plain_inv [OF inv b' _ fits, of f c cs] by blast
qed

lemma inc_inv:
  assumes "mgr_inv m"
  shows "mgr_inv (incAdds m)" "mgr_inv (incUpdates m)" "mgr_inv (incDeletes m)" "mgr_inv (incEvents m)"
    "mgr_inv (incPriorities m)" "mgr_inv (incSnapshots m)" "mgr_inv (incSummaries m)" "mgr_inv (incDroppedStale m)"
    "mgr_inv (incDroppedMalformed m)"
  using assms by (simp_all add: mgr_inv_def mgr_frame)

lemma book_of_frame: "books m' = books m \<Longrightarrow> book_of s m' = book_of s m"
  by (simp add: book_of_def findBook_def)

lemma created_inv:
  assumes "mgr_inv m" "getOrCreateBook s m = (b, m1)"
  shows "mgr_inv m1" "book_of s m1 = book_of s m"
proof -
  note fr = getOrCreateBook_frame [OF assms(2)]
  show "mgr_inv m1" by (rule mgr_invI)
      (use assms(1) fr book_of_inv [OF assms(1), of s] in \<open>auto simp: dest: mgr_invD split: if_splits\<close>)
  show "book_of s m1 = book_of s m" using fr by (simp add: book_of_def findBook_def)
qed

lemma addGetKey_total:
  assumes inv: "mgr_inv m" and fits: "price_fits s px m (\<lambda>p. fits (mkOrder i sd p z pr) (book_of s m))"
  shows "\<exists>k m'. onAddGetKey s i sd px z pr sc miss m = Some (k, m') \<and> mgr_inv m'"
proof (cases "gate s m \<or> \<not> validatePrice s px m \<or> \<not> validateSize z")
  case True
  then show ?thesis using inc_inv [OF inv] by (auto simp: onAddGetKey_def)
next
  case False
  then obtain p where p: "toTicks s px m = Some p" "fits (mkOrder i sd p z pr) (book_of s m)"
    using fits by (auto simp: price_fits_def split: option.splits)
  let ?op = "OpAddGetKey (mkOrder i sd p z pr) sc miss" and ?m = "incAdds m"
  have b: "book_of s ?m = book_of s m" by (rule book_of_frame) (simp add: mgr_frame)
  have fits1: "op_fits ?op (book_of s ?m)" using p b by simp
  obtain b' where b': "exec_op ?op (book_of s ?m) = Some b'"
    using exec_op_total [OF _ fits1] book_of_inv [OF inc_inv(1) [OF inv]] by blast
  then obtain k where k: "applyAddGetKey (mkOrder i sd p z pr) sc miss (book_of s ?m) = Some (k, b')" by auto
  let ?f = "\<lambda>b. map_option (\<lambda>(k, b'). ((True, k), b')) (applyAddGetKey (mkOrder i sd p z pr) sc miss b)"
  obtain m' where "mutateWithDelta s [(sd, p)] ?f ?m = Some ((True, k), m')" "mgr_inv m'"
    using mutate_inv [OF inc_inv(1) [OF inv] _ b' fits1, of ?f True k "[(sd, p)]"] k by auto
  then show ?thesis using False p by (simp add: onAddGetKey_def mgr_frame)
qed

lemma update_mgr_total:
  assumes inv: "mgr_inv m" and fits: "update_price_fits s k np nz m"
  shows "\<exists>c m'. onUpdateKey u s k np nz m = Some (c, m') \<and> mgr_inv m'"
proof (cases "gate s m \<or> np = None \<and> nz = None \<or> (case np of Some px \<Rightarrow> \<not> validatePrice s px m | None \<Rightarrow> False)
    \<or> (case nz of Some z \<Rightarrow> \<not> validateSize z | None \<Rightarrow> False)")
  case True
  then show ?thesis using inc_inv [OF inv] unfolding onUpdateKey_def by auto
next
  case False
  obtain b m1 where g: "getOrCreateBook s (incUpdates m) = (b, m1)" by fastforce
  note c = created_inv [OF inc_inv(2) [OF inv] g] and fr = getOrCreateBook_frame [OF g]
  have b: "book_of s m1 = book_of s m" using c(2) book_of_frame [of "incUpdates m" m] by (simp add: mgr_frame)
  obtain p where p: "(case np of None \<Rightarrow> Some None | Some px \<Rightarrow> map_option Some (toTicks s px m1)) = Some p"
    "key_update_fits k p nz (book_of s m)"
    using fits False fr(6) by (auto simp: update_price_fits_def price_fits_def mgr_frame split: option.splits)
  have "op_fits (OpUpdate k p nz) (book_of s m1)" using p b by simp
  from flag_total [OF c(1) this, of "applyUpdate k p nz" "updateCandidates u k p b"] show ?thesis
    using False p g unfolding onUpdateKey_def by auto
qed

lemma delete_mgr_total:
  assumes inv: "mgr_inv m"
  shows "\<exists>c m'. onDeleteKey s k m = Some (c, m') \<and> mgr_inv m'"
proof (cases "gate s m")
  case True
  then show ?thesis using inc_inv [OF inv] by (auto simp: onDeleteKey_def)
next
  case False
  obtain b m1 where g: "getOrCreateBook s (incDeletes m) = (b, m1)" by fastforce
  note c = created_inv [OF inc_inv(3) [OF inv] g]
  from flag_total [OF c(1), of "OpDelete k" s "applyDelete k"] show ?thesis using False g by (simp add: onDeleteKey_def)
qed

lemma finishSnapshot_inv: "mgr_inv m \<Longrightarrow> mgr_inv (finishSnapshot s q m)"
proof -
  assume inv: "mgr_inv m"
  define m1 where "m1 = incSnapshots (putFeed s ((getFeedState s m)\<lparr>st_stale := False,
    st_lastSeq := (case q of Some s \<Rightarrow> s | None \<Rightarrow> st_lastSeq (getFeedState s m))\<rparr>) m)"
  obtain b m2 where g: "getOrCreateBook s m1 = (b, m2)" by fastforce
  have "mgr_inv m1" by (rule mgr_inv_frame [OF inv]) (simp_all add: m1_def mgr_frame)
  from created_inv(1) [OF this g] have "mgr_inv (maybePublishDelta s ls x y m2)" for ls x y
    by (rule mgr_inv_frame) (simp_all add: mgr_frame)
  then show ?thesis by (simp add: finishSnapshot_def Let_def m1_def [symmetric] g)
qed

lemma putBook_inv: "mgr_inv m \<Longrightarrow> book_inv b \<Longrightarrow> agg_inv b \<Longrightarrow> mgr_inv (putBook s b m)"
  by (rule mgr_invI) (auto simp: mgr_frame umap_simps dest: mgr_invD split: if_splits)

lemma resolverPut_total:
  assumes inv: "mgr_inv m"
  shows "\<exists>m'. resolverPut s v k m = Some m' \<and> mgr_inv m'"
proof -
  define l where "l = (case map_of (resolver m) s of None \<Rightarrow> Lru_init | Some l \<Rightarrow> l)"
  have "lru_ok l" using mgr_invD(4) [OF inv] lru_init_ok by (auto simp: l_def split: option.split)
  then obtain l' where l': "lru_put v k l = Some l'" "lru_ok l'" using lru_put_total by blast
  have "mgr_inv (m\<lparr>resolver := AList.update s l' (resolver m)\<rparr>)"
    by (rule mgr_invI) (use inv l' in \<open>auto simp: umap_simps dest: mgr_invD split: if_splits\<close>)
  then show ?thesis using l' by (simp add: resolverPut_def l_def [symmetric] Let_def)
qed

lemma resolverGet_total: "mgr_inv m \<Longrightarrow> \<exists>r. resolverGet s v m = Some r"
  by (auto simp: resolverGet_def split: option.split dest!: mgr_invD(4) simp: lru_cget_view)

lemma quantizeLevels_total:
  "list_all (\<lambda>e. toTicks s (d_price e) m \<noteq> None) ls \<Longrightarrow> \<exists>es. quantizeLevels s ls m = Some es"
  by (induction ls) (auto split: option.split)

end
