(* ===== verification/Book_Manager_Thms.thy ===== *)
theory Book_Manager_Thms
  imports Book_Manager_Inv
begin

text \<open>
  The correctness theorems of the order book manager: safety of every sequence of operations, the
  sequence-gap state machine, the freeze of a stale symbol, the exactness of published deltas, the
  numbering of deltas, the venue-key cache, and tick quantization in binary64 arithmetic.
\<close>

section \<open>Safety\<close>

text \<open>The operations that leave the books and the caches alone, and the cache operations.\<close>

lemma admin_inv:
  assumes "mgr_inv m"
  shows "mgr_inv (setTickSize s t m)" "mgr_inv (setAllowNegativePrices a m)" "mgr_inv (snd (onSeq s q m))"
    "mgr_inv (onReset s e m)" "mgr_inv (snd (subscribeDeltas s h m))" "mgr_inv (unsubscribeDeltas s i m)"
  by (rule mgr_inv_frame [OF assms]; simp add: setTickSize_def setAllowNegativePrices_def onSeq_def onReset_def
      subscribeDeltas_def unsubscribeDeltas_def Let_def mgr_frame split: option.split)+

lemma capacity_inv: "mgr_inv m \<Longrightarrow> mgr_inv (resolverSetCapacity c m)"
  by (auto simp: mgr_inv_def resolverSetCapacity_def list_all_iff o_def case_prod_beta lru_setCap_ok)

text \<open>The validated entry points.\<close>

lemma onAdd_total:
  assumes inv: "mgr_inv m" and fits: "price_fits s px m (\<lambda>p. fits (mkOrder i sd p z pr) (book_of s m))"
  shows "\<exists>c m'. onAdd s i sd px z pr sc miss m = Some (c, m') \<and> mgr_inv m'"
proof (cases "gate s m \<or> \<not> validatePrice s px m \<or> \<not> validateSize z")
  case True
  then show ?thesis using inc_inv [OF inv] by (auto simp: onAdd_def)
next
  case False
  then obtain p where p: "toTicks s px m = Some p" "fits (mkOrder i sd p z pr) (book_of s m)"
    using fits by (auto simp: price_fits_def split: option.splits)
  then have "op_fits (OpAddScoped (mkOrder i sd p z pr) sc miss) (book_of s (incAdds m))"
    using book_of_frame [of "incAdds m" m s] by (simp add: mgr_frame)
  from flag_total [OF inc_inv(1) [OF inv] this, of "applyAddScoped (mkOrder i sd p z pr) sc miss" "[(sd, p)]"]
  show ?thesis using False p by (auto simp: onAdd_def mgr_frame)
qed

lemma price_fitsD: "price_fits s px m P \<Longrightarrow> validatePrice s px m \<Longrightarrow> \<exists>p. toTicks s px m = Some p"
  by (auto simp: price_fits_def split: option.splits)

lemma onTrade_total:
  assumes inv: "mgr_inv m" and fits: "price_fits s px m P"
  shows "\<exists>c m'. onTrade s px z a m = Some (c, m') \<and> mgr_inv m'"
proof -
  obtain b m1 where g: "getOrCreateBook s (incEvents m) = (b, m1)" by fastforce
  note c = created_inv [OF inc_inv(4) [OF inv] g]
  have "\<exists>c m'. result (mutateWithDelta s cs (\<lambda>b. plain (Some (applyTrade p z a b))) m1) = Some (c, m') \<and> mgr_inv m'" for cs p
    by (rule flag_total [OF c(1), of "OpTrade p z a"]) auto
  then show ?thesis using inc_inv [OF inv] price_fitsD [OF fits] by (auto simp: onTrade_def mgr_frame g)
qed

lemma onLevelSummary_total:
  assumes inv: "mgr_inv m" and fits: "price_fits s px m P"
  shows "\<exists>r m'. onLevelSummary s sd px t c m = Some (r, m') \<and> mgr_inv m'"
proof -
  have "\<exists>r m'. result (mutateWithDelta s cs (\<lambda>b. plain (Some (applyLevelSummary sd p t c b))) (incSummaries m)) = Some (r, m')
      \<and> mgr_inv m'" for cs p
    by (rule flag_total [OF inc_inv(7) [OF inv], of "OpLevelSummary sd p t c"]) auto
  then show ?thesis using inc_inv [OF inv] price_fitsD [OF fits] by (auto simp: onLevelSummary_def mgr_frame)
qed

lemma onAddWithVenueKey_total:
  assumes inv: "mgr_inv m" and fits: "price_fits s px m (\<lambda>p. fits (mkOrder i sd p z pr) (book_of s m))"
  shows "\<exists>c m'. onAddWithVenueKey s v i sd px z pr sc miss m = Some (c, m') \<and> mgr_inv m'"
proof -
  from addGetKey_total [OF inv fits, of sc miss] obtain k m1 where
    k: "onAddGetKey s i sd px z pr sc miss m = Some (k, m1)" "mgr_inv m1" by blast
  then show ?thesis using resolverPut_total [OF k(2), of s v k] by (auto simp: onAddWithVenueKey_def)
qed

lemma onUpdateByVenueKey_total:
  assumes inv: "mgr_inv m"
    and fits: "case resolverGet s v m of Some (Some k) \<Rightarrow> update_price_fits s k np nz m | _ \<Rightarrow> True"
  shows "\<exists>c m'. onUpdateByVenueKey u s v np nz m = Some (c, m') \<and> mgr_inv m'"
proof -
  obtain r where r: "resolverGet s v m = Some r" using resolverGet_total [OF inv] by blast
  then show ?thesis using inc_inv [OF inv] update_mgr_total [OF inv, of s "the r" np nz u] fits
    by (cases r) (auto simp: onUpdateByVenueKey_def)
qed

lemma onDeleteByVenueKey_total:
  assumes inv: "mgr_inv m"
  shows "\<exists>c m'. onDeleteByVenueKey s v m = Some (c, m') \<and> mgr_inv m'"
proof -
  obtain r where r: "resolverGet s v m = Some r" using resolverGet_total [OF inv] by blast
  then show ?thesis using inc_inv [OF inv] delete_mgr_total [OF inv, of s "the r"]
    by (cases r) (auto simp: onDeleteByVenueKey_def)
qed

text \<open>The snapshots.\<close>

lemma onSnapshotPerOrder_total:
  assumes inv: "mgr_inv m" and fits: "qsum os < 2 ^ 64"
  shows "\<exists>m'. onSnapshotPerOrder s os q m = Some m' \<and> mgr_inv m'"
proof -
  obtain b m1 where g: "getOrCreateBook s m = (b, m1)" by fastforce
  have "b = book_of s m" using getOrCreateBook_frame(1) [OF g] .
  then have bi: "book_inv b" "agg_inv b" using book_of_inv [OF inv] by simp_all
  then obtain b' where b': "applySnapshotPerOrder os b = Some b'" "book_inv b'"
    using exec_op_total [of b "OpSnapshotPerOrder os"] fits by auto
  then have "agg_inv b'" using exec_op_agg [OF bi(2), of "OpSnapshotPerOrder os"] by simp
  then show ?thesis using b' created_inv(1) [OF inv g]
    by (simp add: onSnapshotPerOrder_def g finishSnapshot_inv putBook_inv)
qed

lemma onSnapshotAggregated_total:
  assumes inv: "mgr_inv m" and fits: "list_all (\<lambda>e. toTicks s (d_price e) m \<noteq> None) ls"
  shows "\<exists>m'. onSnapshotAggregated s ls q m = Some m' \<and> mgr_inv m'"
proof -
  obtain es where es: "quantizeLevels s ls m = Some es" using quantizeLevels_total [OF fits] by blast
  obtain b m1 where g: "getOrCreateBook s m = (b, m1)" by fastforce
  have "b = book_of s m" using getOrCreateBook_frame(1) [OF g] .
  then have bi: "book_inv b" "agg_inv b" using book_of_inv [OF inv] by simp_all
  have "book_inv (applySnapshotAggregated es b)" using exec_op_total [OF bi(1), of "OpSnapshotAggregated es"] by simp
  moreover have "agg_inv (applySnapshotAggregated es b)" using exec_op_agg [OF bi(2), of "OpSnapshotAggregated es"] by simp
  ultimately show ?thesis using created_inv(1) [OF inv g]
    by (simp add: onSnapshotAggregated_def g es finishSnapshot_inv putBook_inv)
qed

lemma onPriority_total:
  assumes inv: "mgr_inv m"
  shows "\<exists>c m'. onPriorityKey s k q m = Some (c, m') \<and> mgr_inv m'"
  using inc_inv [OF inv] flag_total [OF inc_inv(5) [OF inv], of "OpPriority k q" s "applyPriority k q" "[]"]
  by (auto simp: onPriorityKey_def)

lemma mgr_exec_total:
  assumes inv: "mgr_inv m" and fits: "mgr_fits op m"
  shows "\<exists>m'. mgr_exec u op m = Some m' \<and> mgr_inv m'"
proof (cases op)
  case (MAddGetKey s i sd px z pr sc miss)
  then show ?thesis using addGetKey_total [OF inv, of s px i sd z pr sc miss] fits by auto
next
  case (MAdd s i sd px z pr sc miss)
  then show ?thesis using onAdd_total [OF inv, of s px i sd z pr sc miss] fits by auto
next
  case (MUpdate s k np nz)
  then show ?thesis using update_mgr_total [OF inv, of s k np nz u] fits by auto
next
  case (MDelete s k)
  then show ?thesis using delete_mgr_total [OF inv, of s k] by auto
next
  case (MPriority s k q)
  then show ?thesis using onPriority_total [OF inv, of s k q] by auto
next
  case (MAddVenue s v i sd px z pr sc miss)
  then show ?thesis using onAddWithVenueKey_total [OF inv, of s px i sd z pr v sc miss] fits by auto
next
  case (MUpdateVenue s v np nz)
  then show ?thesis using onUpdateByVenueKey_total [OF inv, where s = s and v = v and np = np and nz = nz and u = u] fits by auto
next
  case (MDeleteVenue s v)
  then show ?thesis using onDeleteByVenueKey_total [OF inv, of s v] by auto
next
  case (MTrade s px z a)
  then show ?thesis using onTrade_total [OF inv, of s px "\<lambda>_. True" z a] fits by auto
next
  case (MLevelSummary s sd px t c)
  then show ?thesis using onLevelSummary_total [OF inv, of s px "\<lambda>_. True" sd t c] fits by auto
qed (use inv fits in \<open>simp_all add: admin_inv capacity_inv resolverPut_total onSnapshotPerOrder_total onSnapshotAggregated_total\<close>)

lemma mgr_run_inv: "mgr_ops_fit u ops m \<Longrightarrow> mgr_inv m \<Longrightarrow> \<exists>m'. mgr_run u ops m = Some m' \<and> mgr_inv m'"
proof (induction ops arbitrary: m)
  case (Cons op ops)
  then obtain m1 where "mgr_exec u op m = Some m1" "mgr_inv m1" using mgr_exec_total by fastforce
  then show ?case using Cons by simp
qed simp

definition demo_key :: OrderKey where
  "demo_key = makeKey 1 scope0 False"

definition demo_mgr_ops :: "mgr_op list" where
  "demo_mgr_ops = [MSubscribe ''X'' 7, MSnapshotPerOrder ''X'' [demo_order 1 Bid 100 10, demo_order 2 Ask 101 5] (Some 8),
     MSeq ''X'' 9, MUpdate ''X'' demo_key None (Some 4), MDelete ''X'' demo_key, MSeq ''X'' 11, MReset ''X'' 2]"

lemma demo_mgr_fit: "mgr_ops_fit Bid demo_mgr_ops OrderBookManager_init"
  by code_simp

text \<open>C5. Every sequence of manager operations in which prices have a specified tick value and no
  level total overflows runs to its end without undefined behaviour, and leaves every book
  consistent (as \<open>assertInvariants\<close> confirms) and every venue-key cache well formed.\<close>

theorem manager_run_safe:
  assumes "mgr_ops_fit u ops OrderBookManager_init"
  shows "\<exists>m. mgr_run u ops OrderBookManager_init = Some m \<and> mgr_inv m \<and>
    (\<forall>s. findBook s m \<noteq> None \<longrightarrow> assertInvariants s m = Some None)"
proof -
  obtain m where m: "mgr_run u ops OrderBookManager_init = Some m" "mgr_inv m"
    using mgr_run_inv [OF assms init_mgr_inv] by blast
  have "assertInvariants s m = Some None" if "findBook s m \<noteq> None" for s
    using that mgr_invD(3) [OF m(2)] by (auto simp: assertInvariants_def findBook_def checkInvariants_ok)
  then show ?thesis using m by blast
qed

theorem manager_run_safe_witness:
  "mgr_ops_fit Bid demo_mgr_ops OrderBookManager_init \<and>
   (\<exists>m. mgr_run Bid demo_mgr_ops OrderBookManager_init = Some m \<and> mgr_inv m \<and>
    (\<forall>s. findBook s m \<noteq> None \<longrightarrow> assertInvariants s m = Some None))"
  using manager_run_safe [OF demo_mgr_fit] demo_mgr_fit by blast

section \<open>Sequencing\<close>

fun seq_run :: "string \<Rightarrow> u64 list \<Rightarrow> OrderBookManager \<Rightarrow> bool list \<times> OrderBookManager" where
  "seq_run s [] m = ([], m)"
| "seq_run s (q # qs) m = (case onSeq s q m of (r, m1) \<Rightarrow> case seq_run s qs m1 of (rs, m2) \<Rightarrow> (r # rs, m2))"

text \<open>The number of sequence numbers that follow \<open>n\<close> without a gap.\<close>

fun in_order :: "u64 \<Rightarrow> u64 list \<Rightarrow> nat" where
  "in_order n [] = 0"
| "in_order n (q # qs) = (if q = n + 1 then Suc (in_order q qs) else 0)"

lemma feed_putFeed: "getFeedState s (putFeed s st m) = st"
  by (simp add: getFeedState_def putFeed_def umap_simps)

lemma getFeedState_frame: "feed m' = feed m \<Longrightarrow> getFeedState s m' = getFeedState s m"
  by (simp add: getFeedState_def)

lemma seq_run_stale:
  "st_stale (getFeedState s m) \<Longrightarrow>
    fst (seq_run s qs m) = replicate (length qs) False \<and>
    getFeedState s (snd (seq_run s qs m)) = getFeedState s m \<and> books (snd (seq_run s qs m)) = books m \<and>
    snapshotRequests (snd (seq_run s qs m)) = snapshotRequests m"
proof (induction qs arbitrary: m)
  case (Cons q qs)
  let ?m = "incDroppedStale (putFeed s (getFeedState s m) m)"
  have q: "onSeq s q m = (False, ?m)" using Cons.prems by (simp add: onSeq_def Let_def)
  have f: "getFeedState s ?m = getFeedState s m" using getFeedState_frame [of ?m "putFeed s (getFeedState s m) m"]
    by (simp add: mgr_frame feed_putFeed)
  have "books ?m = books m" "snapshotRequests ?m = snapshotRequests m"
    by (simp_all add: mgr_frame) (simp add: incDroppedStale_def putFeed_def)
  then show ?case using Cons.IH [of ?m] Cons.prems f q by (auto split: prod.splits)
qed simp

text \<open>C7. Between resets and snapshots the gap detector accepts exactly the run of sequence numbers
  that follow each other; at the first gap it marks the symbol stale, asks for a snapshot once, and
  rejects everything after. It never touches a book.\<close>

theorem onSeq_accepts_in_order:
  assumes "\<not> st_stale (getFeedState s m)" and "st_lastSeq (getFeedState s m) = n" and "n \<noteq> 0"
    and "unat n + length qs < 2 ^ 64"
  shows "let k = in_order n qs; m' = snd (seq_run s qs m) in
    fst (seq_run s qs m) = replicate k True @ replicate (length qs - k) False \<and>
    getFeedState s m' = (getFeedState s m)\<lparr>st_lastSeq := n + of_nat k, st_stale := k < length qs\<rparr> \<and>
    snapshotRequests m' = snapshotRequests m @ (if k < length qs \<and> requestSnapshotFn m then [s] else []) \<and>
    books m' = books m"
  using assms
proof (induction qs arbitrary: m n)
  case Nil
  then show ?case by (cases "getFeedState s m") simp
next
  case (Cons q qs)
  let ?st = "getFeedState s m"
  show ?case
  proof (cases "q = n + 1")
    case True
    let ?m = "putFeed s (?st\<lparr>st_lastSeq := q\<rparr>) (putFeed s ?st m)"
    have nn: "unat q = unat n + 1" using True Cons.prems(4) by (simp add: u64_simps)
    have q: "onSeq s q m = (True, ?m)" using Cons.prems True by (simp add: onSeq_def Let_def)
    have "unat q + length qs < 2 ^ 64" "q \<noteq> 0" using Cons.prems nn by (auto simp: unat_eq_0 [symmetric])
    moreover have "\<not> st_stale (getFeedState s ?m)" "st_lastSeq (getFeedState s ?m) = q"
      using Cons.prems by (simp_all add: feed_putFeed)
    moreover have fr: "snapshotRequests ?m = snapshotRequests m" "requestSnapshotFn ?m = requestSnapshotFn m"
      "books ?m = books m" by (simp_all add: putFeed_def)
    ultimately show ?thesis using Cons.IH [of ?m q] q True
      by (auto simp: Let_def feed_putFeed fr add.assoc split: prod.splits)
  next
    case False
    let ?m0 = "putFeed s (?st\<lparr>st_stale := True\<rparr>) (putFeed s ?st m)"
    let ?m = "requestSnapshot s (incStaleTransition (incSeqGap ?m0))"
    have q: "onSeq s q m = (False, ?m)" using Cons.prems False by (simp add: onSeq_def Let_def)
    have st: "getFeedState s ?m = ?st\<lparr>st_stale := True\<rparr>"
      by (simp add: getFeedState_def mgr_frame umap_simps)
    have "snapshotRequests ?m = snapshotRequests m @ (if requestSnapshotFn m then [s] else [])" "books ?m = books m"
      by (simp_all add: mgr_frame) (simp add: requestSnapshot_def incStaleTransition_def incSeqGap_def putFeed_def)
    then show ?thesis using seq_run_stale [of s ?m qs] q False st Cons.prems by (auto split: prod.splits)
  qed
qed

definition demo_feed :: OrderBookManager where
  "demo_feed = snd (onSeq ''X'' 5 OrderBookManager_init)"

theorem onSeq_accepts_in_order_witness:
  "fst (seq_run ''X'' [6, 7, 9, 10] demo_feed) = [True, True, False, False] \<and>
   st_stale (getFeedState ''X'' (snd (seq_run ''X'' [6, 7, 9, 10] demo_feed)))"
proof -
  have "\<not> st_stale (getFeedState ''X'' demo_feed)" "st_lastSeq (getFeedState ''X'' demo_feed) = 5"
    "(5 :: u64) \<noteq> 0" "unat (5 :: u64) + length [6 :: u64, 7, 9, 10] < 2 ^ 64" by code_simp+
  from onSeq_accepts_in_order [OF this] show ?thesis by (simp add: Let_def eval_nat_numeral)
qed

section \<open>Symbols are independent; a stale symbol is frozen\<close>

text \<open>What the outside sees of one symbol: its book, feed state, delivered deltas and numbering.\<close>

definition sym_state :: "string \<Rightarrow> OrderBookManager \<Rightarrow>
    OrderBook option \<times> FeedState option \<times> (nat \<times> BookDelta) list \<times> u64 option" where
  "sym_state s m = (map_of (books m) s, map_of (feed m) s, filter (\<lambda>(_, d). bd_symbol d = s) (delivered m), map_of (pubSeq m) s)"

fun op_symbol :: "mgr_op \<Rightarrow> string option" where
  "op_symbol (MSeq s q) = Some s"
| "op_symbol (MReset s e) = Some s"
| "op_symbol (MAddGetKey s i sd px z pr sc miss) = Some s"
| "op_symbol (MAdd s i sd px z pr sc miss) = Some s"
| "op_symbol (MUpdate s k np nz) = Some s"
| "op_symbol (MDelete s k) = Some s"
| "op_symbol (MPriority s k q) = Some s"
| "op_symbol (MAddVenue s v i sd px z pr sc miss) = Some s"
| "op_symbol (MUpdateVenue s v np nz) = Some s"
| "op_symbol (MDeleteVenue s v) = Some s"
| "op_symbol (MTrade s px z a) = Some s"
| "op_symbol (MSnapshotPerOrder s os q) = Some s"
| "op_symbol (MSnapshotAggregated s ls q) = Some s"
| "op_symbol (MLevelSummary s sd px t c) = Some s"
| "op_symbol _ = None"

fun snapshot_of :: "mgr_op \<Rightarrow> string option" where
  "snapshot_of (MSnapshotPerOrder s os q) = Some s"
| "snapshot_of (MSnapshotAggregated s ls q) = Some s"
| "snapshot_of _ = None"

named_theorems sym_frame \<open>operations that leave a symbol's state alone\<close>

lemma sym_inc [sym_frame]:
  "sym_state s (incAdds m) = sym_state s m" "sym_state s (incUpdates m) = sym_state s m"
  "sym_state s (incDeletes m) = sym_state s m" "sym_state s (incEvents m) = sym_state s m"
  "sym_state s (incPriorities m) = sym_state s m" "sym_state s (incSnapshots m) = sym_state s m"
  "sym_state s (incSummaries m) = sym_state s m" "sym_state s (incDroppedStale m) = sym_state s m"
  "sym_state s (incDroppedMalformed m) = sym_state s m" "sym_state s (incSeqGap m) = sym_state s m"
  "sym_state s (incSeqReset m) = sym_state s m" "sym_state s (incStaleTransition m) = sym_state s m"
  "sym_state s (requestSnapshot s' m) = sym_state s m"
  by (simp_all add: sym_state_def mgr_frame)

lemma sym_put [sym_frame]:
  "s \<noteq> s' \<Longrightarrow> sym_state s (putFeed s' st m) = sym_state s m" "s \<noteq> s' \<Longrightarrow> sym_state s (putBook s' b m) = sym_state s m"
  by (simp_all add: sym_state_def mgr_frame umap_simps)

lemma sym_publish [sym_frame]: "s \<noteq> s' \<Longrightarrow> sym_state s (maybePublishDelta s' ls x y m) = sym_state s m"
  by (simp add: sym_state_def maybePublishDelta_def Let_def mgr_frame umap_simps filter_map o_def case_prod_beta)

lemma sym_created: "getOrCreateBook s' m = (b, m1) \<Longrightarrow> s \<noteq> s' \<Longrightarrow> sym_state s m1 = sym_state s m"
  using getOrCreateBook_frame [of s' m b m1] by (simp add: sym_state_def)

lemma sym_mutate: "mutateWithDelta s' cs f m = Some (x, m') \<Longrightarrow> s \<noteq> s' \<Longrightarrow> sym_state s m' = sym_state s m"
  by (auto simp: mutateWithDelta_def Let_def sym_frame split: prod.splits option.splits if_splits dest: sym_created)

lemma sym_result: "result (mutateWithDelta s' cs f m) = Some (x, m') \<Longrightarrow> s \<noteq> s' \<Longrightarrow> sym_state s m' = sym_state s m"
  by (auto simp: result_def dest: sym_mutate)

lemma sym_addGetKey: "onAddGetKey s' i sd px z pr sc miss m = Some (k, m') \<Longrightarrow> s \<noteq> s' \<Longrightarrow> sym_state s m' = sym_state s m"
  by (auto simp: onAddGetKey_def sym_frame split: if_splits option.splits prod.splits dest!: sym_mutate [where s = s])

lemma sym_updateKey: "onUpdateKey u s' k np nz m = Some (c, m') \<Longrightarrow> s \<noteq> s' \<Longrightarrow> sym_state s m' = sym_state s m"
  by (auto simp: onUpdateKey_def sym_frame split: if_splits option.splits prod.splits
      dest!: sym_result [where s = s] sym_created [where s = s])

lemma sym_deleteKey: "onDeleteKey s' k m = Some (c, m') \<Longrightarrow> s \<noteq> s' \<Longrightarrow> sym_state s m' = sym_state s m"
  by (auto simp: onDeleteKey_def sym_frame split: if_splits prod.splits
      dest!: sym_result [where s = s] sym_created [where s = s])

lemma sym_resolverPut: "resolverPut s' v k m = Some m' \<Longrightarrow> sym_state s m' = sym_state s m"
  by (auto simp: resolverPut_def Let_def sym_state_def split: option.splits)

lemma sym_finish: "s \<noteq> s' \<Longrightarrow> sym_state s (finishSnapshot s' q m) = sym_state s m"
  by (auto simp: finishSnapshot_def Let_def sym_frame split: prod.split dest!: sym_created [where s = s])

lemma other_symbol:
  assumes "mgr_exec u op m = Some m'" "op_symbol op \<noteq> Some s"
  shows "sym_state s m' = sym_state s m"
proof (cases op)
  case (MAddVenue s' v i sd px z pr sc miss)
  then show ?thesis using assms
    by (auto simp: onAddWithVenueKey_def split: option.splits if_splits dest!: sym_addGetKey [where s = s] sym_resolverPut [where s = s])
next
  case (MTrade s' px z a)
  then show ?thesis using assms
    by (auto simp: onTrade_def sym_frame split: if_splits option.splits prod.splits
        dest!: sym_result [where s = s] sym_created [where s = s])
next
  case (MSnapshotPerOrder s' os q)
  then show ?thesis using assms
    by (auto simp: onSnapshotPerOrder_def sym_finish sym_frame split: option.splits prod.splits dest!: sym_created [where s = s])
next
  case (MSnapshotAggregated s' ls q)
  then show ?thesis using assms
    by (auto simp: onSnapshotAggregated_def sym_finish sym_frame split: option.splits prod.splits dest!: sym_created [where s = s])
qed (use assms in \<open>auto simp: setTickSize_def setAllowNegativePrices_def onSeq_def onReset_def resolverSetCapacity_def
    subscribeDeltas_def unsubscribeDeltas_def onAdd_def onPriorityKey_def onUpdateByVenueKey_def onDeleteByVenueKey_def
    onLevelSummary_def Let_def sym_frame split: if_splits option.splits
    dest!: sym_result [where s = s] sym_resolverPut [where s = s] sym_addGetKey [where s = s]
    sym_updateKey [where s = s] sym_deleteKey [where s = s],
    (simp add: sym_state_def)+\<close>)

text \<open>The part of a symbol's state that must not move while the symbol is stale.\<close>

definition frozen_part :: "string \<Rightarrow> OrderBookManager \<Rightarrow> OrderBook option \<times> (nat \<times> BookDelta) list \<times> u64 option" where
  "frozen_part s m = (findBook s m, filter (\<lambda>(_, d). bd_symbol d = s) (delivered m), map_of (pubSeq m) s)"

lemma frozen_inc [sym_frame]:
  "frozen_part s (incDroppedStale m) = frozen_part s m" "frozen_part s (incSeqReset m) = frozen_part s m"
  "frozen_part s (incStaleTransition m) = frozen_part s m" "frozen_part s (requestSnapshot s' m) = frozen_part s m"
  "frozen_part s (putFeed s' st m) = frozen_part s m"
  "isStale s (incDroppedStale m) = isStale s m" "isStale s (incSeqReset m) = isStale s m"
  "isStale s (incStaleTransition m) = isStale s m" "isStale s (requestSnapshot s' m) = isStale s m"
  "isStale s (putFeed s st m) = st_stale st"
  by (simp_all add: frozen_part_def findBook_def isStale_def mgr_frame umap_simps)

lemma gate_isStale: "gate s m = isStale s m"
  by (simp add: gate_def isStale_def)

lemma stale_getFeed: "isStale s m \<Longrightarrow> st_stale (getFeedState s m)"
  by (auto simp: isStale_def getFeedState_def split: option.splits)

lemma stale_step:
  assumes st: "isStale s m" and ex: "mgr_exec u op m = Some m'" and ns: "snapshot_of op \<noteq> Some s"
  shows "isStale s m' \<and> frozen_part s m' = frozen_part s m"
proof (cases "op_symbol op = Some s")
  case False
  from other_symbol [OF ex this] show ?thesis using st
    by (simp add: sym_state_def frozen_part_def findBook_def isStale_def)
next
  case True
  note g = st [folded gate_isStale]
  show ?thesis
  proof (cases op)
    case (MAddVenue s' v i sd px z pr sc miss)
    have "isStale s m1 = isStale s m" "frozen_part s m1 = frozen_part s m" if "resolverPut s v k m = Some m1" for k m m1
      using that by (auto simp: resolverPut_def Let_def isStale_def frozen_part_def findBook_def split: option.splits)
    then show ?thesis using True MAddVenue ex g st
      by (auto simp: onAddWithVenueKey_def onAddGetKey_def sym_frame split: if_splits)
  qed (use True ns ex g st in \<open>auto simp: onSeq_def onReset_def onAddGetKey_def onAdd_def onUpdateKey_def onDeleteKey_def
      onPriorityKey_def onUpdateByVenueKey_def onDeleteByVenueKey_def onTrade_def onLevelSummary_def Let_def sym_frame
      stale_getFeed [OF st]\<close>)
qed

text \<open>C8. While a symbol is stale, no operation on any symbol except a snapshot of that symbol
  changes its book, delivers a delta for it, or advances its delta numbering, and it stays stale.\<close>

theorem stale_symbol_frozen:
  assumes "isStale s m" and "\<forall>op\<in>set ops. snapshot_of op \<noteq> Some s" and "mgr_run u ops m = Some m'"
  shows "isStale s m' \<and> findBook s m' = findBook s m \<and>
    filter (\<lambda>(_, d). bd_symbol d = s) (delivered m') = filter (\<lambda>(_, d). bd_symbol d = s) (delivered m) \<and>
    map_of (pubSeq m') s = map_of (pubSeq m) s"
proof -
  have "isStale s m' \<and> frozen_part s m' = frozen_part s m"
    using assms
  proof (induction ops arbitrary: m)
    case (Cons op ops)
    then obtain m1 where m1: "mgr_exec u op m = Some m1" "mgr_run u ops m1 = Some m'" by (auto split: option.splits)
    have "isStale s m1 \<and> frozen_part s m1 = frozen_part s m" using stale_step [OF Cons.prems(1) m1(1)] Cons.prems(2) by simp
    then show ?case using Cons.IH [of m1] m1(2) Cons.prems(2) by simp
  qed simp
  then show ?thesis by (simp add: frozen_part_def)
qed

definition demo_stale :: OrderBookManager where
  "demo_stale = (case mgr_run Bid [MSnapshotPerOrder ''X'' [demo_order 1 Bid 100 10] (Some 8), MSeq ''X'' 10] OrderBookManager_init
     of Some m \<Rightarrow> m | None \<Rightarrow> OrderBookManager_init)"

theorem stale_symbol_frozen_witness:
  "\<exists>m'. mgr_run Bid [MDelete ''X'' demo_key, MSeq ''X'' 9] demo_stale = Some m' \<and> isStale ''X'' m' \<and>
     findBook ''X'' m' = findBook ''X'' demo_stale"
proof -
  have st: "isStale ''X'' demo_stale" by code_simp
  have "mgr_ops_fit Bid [MSnapshotPerOrder ''X'' [demo_order 1 Bid 100 10] (Some 8), MSeq ''X'' 10] OrderBookManager_init"
    by code_simp
  from mgr_run_inv [OF this init_mgr_inv] have "mgr_inv demo_stale" by (auto simp: demo_stale_def)
  moreover have "mgr_ops_fit Bid [MDelete ''X'' demo_key, MSeq ''X'' 9] demo_stale" by (simp split: option.split)
  ultimately obtain m' where m': "mgr_run Bid [MDelete ''X'' demo_key, MSeq ''X'' 9] demo_stale = Some m'"
    using mgr_run_inv by blast
  from stale_symbol_frozen [OF st _ m'] m' show ?thesis by simp
qed

section \<open>Numbering of deltas\<close>

text \<open>
  The deltas of each symbol are delivered in non-decreasing order of their number, and no number
  is ahead of the counter, which is at most \<open>n\<close>.
\<close>

definition numbered :: "nat \<Rightarrow> OrderBookManager \<Rightarrow> bool" where
  "numbered n m \<longleftrightarrow> (\<forall>s.
     sorted (map (\<lambda>(_, d). unat (bd_seq d)) (filter (\<lambda>(_, d). bd_symbol d = s) (delivered m))) \<and>
     (\<forall>x\<in>set (delivered m). bd_symbol (snd x) = s \<longrightarrow> unat (bd_seq (snd x)) \<le> unat (case map_of (pubSeq m) s of None \<Rightarrow> 0 | Some c \<Rightarrow> c)) \<and>
     unat (case map_of (pubSeq m) s of None \<Rightarrow> 0 | Some c \<Rightarrow> c) \<le> n)"

lemma numbered_frame: "numbered n m \<Longrightarrow> delivered m' = delivered m \<Longrightarrow> pubSeq m' = pubSeq m \<Longrightarrow> numbered n m'"
  by (simp add: numbered_def)

lemma numbered_mono: "numbered n m \<Longrightarrow> numbered (Suc n) m"
  by (auto simp: numbered_def intro: le_SucI)

lemma numbered_publish:
  assumes num: "numbered n m" and n: "n < 2 ^ 64 - 1"
  shows "numbered (Suc n) (maybePublishDelta s ls x y m)"
proof (cases "ls = [] \<and> x = None \<and> y = None")
  case True
  then show ?thesis using numbered_mono [OF num] by (simp add: maybePublishDelta_def)
next
  case False
  define c where "c = (case map_of (pubSeq m) s of None \<Rightarrow> 0 | Some c \<Rightarrow> c)"
  define d where "d = \<lparr>bd_symbol = s, bd_seq = c + 1, bd_levels = ls, bd_bid = x, bd_ask = y\<rparr>"
  define hs where "hs = (case map_of (subs m) s of None \<Rightarrow> [] | Some hs \<Rightarrow> hs)"
  let ?m = "maybePublishDelta s ls x y m"
  have dl: "delivered ?m = delivered m @ map (\<lambda>(_, h). (h, d)) hs"
    and ps: "map_of (pubSeq ?m) = (map_of (pubSeq m))(s \<mapsto> c + 1)"
    using False by (auto simp: maybePublishDelta_def Let_def mgr_frame umap_simps c_def d_def hs_def)
  have c: "unat c \<le> n" using num unfolding numbered_def c_def by blast
  then have c1: "unat (c + 1) = Suc (unat c)" using n by (simp add: u64_simps)
  have ds: "bd_symbol d = s" "bd_seq d = c + 1" by (simp_all add: d_def)
  show ?thesis unfolding numbered_def
  proof (intro allI conjI)
    fix s'
    have old: "sorted (map (\<lambda>(_, d). unat (bd_seq d)) (filter (\<lambda>(_, d). bd_symbol d = s') (delivered m)))"
      "\<And>x. x \<in> set (delivered m) \<Longrightarrow> bd_symbol (snd x) = s' \<Longrightarrow>
        unat (bd_seq (snd x)) \<le> unat (case map_of (pubSeq m) s' of None \<Rightarrow> 0 | Some c \<Rightarrow> c)"
      "unat (case map_of (pubSeq m) s' of None \<Rightarrow> 0 | Some c \<Rightarrow> c) \<le> n"
      using num unfolding numbered_def by blast+
    show "unat (case map_of (pubSeq ?m) s' of None \<Rightarrow> 0 | Some c \<Rightarrow> c) \<le> Suc n"
      using old(3) c c1 by (simp add: ps)
    show "\<forall>x\<in>set (delivered ?m). bd_symbol (snd x) = s' \<longrightarrow>
        unat (bd_seq (snd x)) \<le> unat (case map_of (pubSeq ?m) s' of None \<Rightarrow> 0 | Some c \<Rightarrow> c)"
    proof (intro ballI impI)
      fix z assume z: "z \<in> set (delivered ?m)" "bd_symbol (snd z) = s'"
      show "unat (bd_seq (snd z)) \<le> unat (case map_of (pubSeq ?m) s' of None \<Rightarrow> 0 | Some c \<Rightarrow> c)"
      proof (cases "z \<in> set (delivered m)")
        case True
        then show ?thesis using old(2) [OF True z(2)] c1 by (auto simp: ps c_def split: if_splits)
      next
        case False
        then have "snd z = d" using z(1) by (auto simp: dl)
        moreover from this have "s' = s" using z(2) ds by simp
        ultimately show ?thesis using ds(2) by (simp add: ps)
      qed
    qed
    have "sorted (map (\<lambda>(_, d). unat (bd_seq d)) (filter (\<lambda>(_, d). bd_symbol d = s) (delivered m)) @ map (\<lambda>_. unat (c + 1)) hs)"
      if "s' = s"
      using old that c1 by (fastforce simp: sorted_append c_def [symmetric] sorted_map)
    then show "sorted (map (\<lambda>(_, d). unat (bd_seq d)) (filter (\<lambda>(_, d). bd_symbol d = s') (delivered ?m)))"
      using old(1) ds by (cases "s' = s") (simp_all add: dl filter_map o_def case_prod_beta)
  qed
qed

lemma numbered_mutate:
  assumes "numbered n m" "n < 2 ^ 64 - 1" "mutateWithDelta s cs f m = Some (x, m')"
  shows "numbered (Suc n) m'"
proof -
  obtain b m1 where g: "getOrCreateBook s m = (b, m1)" by fastforce
  have "numbered n (putBook s b' m1)" for b'
    by (rule numbered_frame [OF assms(1)]) (simp_all add: mgr_frame getOrCreateBook_frame [OF g])
  then show ?thesis using assms(2,3) numbered_publish numbered_mono
    by (auto simp: mutateWithDelta_def g Let_def split: option.splits if_splits)
qed

lemma numbered_result:
  "numbered n m \<Longrightarrow> n < 2 ^ 64 - 1 \<Longrightarrow> result (mutateWithDelta s cs f m) = Some (x, m') \<Longrightarrow> numbered (Suc n) m'"
  by (auto simp: result_def dest: numbered_mutate)

lemma numbered_inc:
  assumes "numbered n m"
  shows "numbered n (incAdds m)" "numbered n (incUpdates m)" "numbered n (incDeletes m)" "numbered n (incEvents m)"
    "numbered n (incPriorities m)" "numbered n (incSummaries m)" "numbered n (incDroppedStale m)" "numbered n (incDroppedMalformed m)"
    "getOrCreateBook s m = (b, m1) \<Longrightarrow> numbered n m1"
  using assms getOrCreateBook_frame(4,5) [of s m b m1] by (simp_all add: numbered_def mgr_frame)

lemma numbered_finish:
  assumes "numbered n m" "n < 2 ^ 64 - 1"
  shows "numbered (Suc n) (finishSnapshot s q (putBook s b m))"
proof -
  have "numbered (Suc n) (maybePublishDelta s [] x y m2)"
    if g: "getOrCreateBook s (incSnapshots (putFeed s st (putBook s b m))) = (b2, m2)" for st b2 m2 x y
  proof -
    have "numbered n m2"
      by (rule numbered_frame [OF assms(1)]) (simp_all add: getOrCreateBook_frame [OF g] mgr_frame)
    then show ?thesis using assms(2) by (rule numbered_publish)
  qed
  then show ?thesis by (auto simp: finishSnapshot_def Let_def split: prod.split)
qed

lemma numbered_addGetKey:
  "numbered n m \<Longrightarrow> n < 2 ^ 64 - 1 \<Longrightarrow> onAddGetKey s i sd px z pr sc miss m = Some (k, m') \<Longrightarrow> numbered (Suc n) m'"
  by (auto simp: onAddGetKey_def numbered_inc numbered_mono split: if_splits option.splits prod.splits
      dest!: numbered_mutate [rotated 2, where n = n])

lemma numbered_updateKey:
  "numbered n m \<Longrightarrow> n < 2 ^ 64 - 1 \<Longrightarrow> onUpdateKey u s k np nz m = Some (c, m') \<Longrightarrow> numbered (Suc n) m'"
  by (auto simp: onUpdateKey_def numbered_inc numbered_mono split: if_splits option.splits prod.splits
      dest!: numbered_result [rotated 2, where n = n] numbered_inc(9) [rotated, where n = n])

lemma numbered_deleteKey:
  "numbered n m \<Longrightarrow> n < 2 ^ 64 - 1 \<Longrightarrow> onDeleteKey s k m = Some (c, m') \<Longrightarrow> numbered (Suc n) m'"
  by (auto simp: onDeleteKey_def numbered_inc numbered_mono split: if_splits prod.splits
      dest!: numbered_result [rotated 2, where n = n] numbered_inc(9) [rotated, where n = n])

lemma numbered_trade:
  "numbered n m \<Longrightarrow> n < 2 ^ 64 - 1 \<Longrightarrow> onTrade s px z a m = Some (c, m') \<Longrightarrow> numbered (Suc n) m'"
  by (auto simp: onTrade_def numbered_inc numbered_mono split: if_splits option.splits prod.splits
      dest!: numbered_result [rotated 2, where n = n] numbered_inc(9) [rotated, where n = n])

lemma numbered_resolverPut: "numbered n m \<Longrightarrow> resolverPut s v k m = Some m' \<Longrightarrow> numbered n m'"
  by (erule numbered_frame) (auto simp: resolverPut_def Let_def split: option.splits)

lemma numbered_admin:
  assumes "numbered n m"
  shows "numbered n (setTickSize s t m)" "numbered n (setAllowNegativePrices a m)" "numbered n (snd (onSeq s q m))"
    "numbered n (onReset s e m)" "numbered n (snd (subscribeDeltas s h m))" "numbered n (unsubscribeDeltas s i m)"
    "numbered n (resolverSetCapacity c m)"
  by (rule numbered_frame [OF assms]; simp add: setTickSize_def setAllowNegativePrices_def onSeq_def onReset_def
      subscribeDeltas_def unsubscribeDeltas_def resolverSetCapacity_def Let_def mgr_frame split: option.split)+

lemma numbered_exec:
  assumes num: "numbered n m" and n: "n < 2 ^ 64 - 1" and ex: "mgr_exec u op m = Some m'"
  shows "numbered (Suc n) m'"
proof (cases op)
  case (MAddVenue s v i sd px z pr sc miss)
  then obtain k m1 where k: "onAddGetKey s i sd px z pr sc miss m = Some (k, m1)"
    using ex by (auto simp: onAddWithVenueKey_def split: option.splits)
  then show ?thesis using numbered_addGetKey [OF num n k] numbered_resolverPut MAddVenue ex
    by (auto simp: onAddWithVenueKey_def split: if_splits)
next
  case (MSnapshotPerOrder s os q)
  then show ?thesis using ex num n numbered_finish numbered_inc(9) [OF num]
    by (auto simp: onSnapshotPerOrder_def split: prod.splits option.splits)
next
  case (MSnapshotAggregated s ls q)
  then show ?thesis using ex num n numbered_finish numbered_inc(9) [OF num]
    by (auto simp: onSnapshotAggregated_def split: prod.splits option.splits)
next
  case (MAdd s i sd px z pr sc miss)
  then show ?thesis using ex num n numbered_result [OF numbered_inc(1) [OF num] n]
    by (auto simp: onAdd_def numbered_inc numbered_mono split: if_splits option.splits)
next
  case (MPriority s k q)
  then show ?thesis using ex num n numbered_result [OF numbered_inc(5) [OF num] n]
    by (auto simp: onPriorityKey_def numbered_inc numbered_mono split: if_splits)
next
  case (MLevelSummary s sd px t c)
  then show ?thesis using ex num n numbered_result [OF numbered_inc(6) [OF num] n]
    by (auto simp: onLevelSummary_def numbered_inc numbered_mono split: if_splits option.splits)
qed (use ex num n in \<open>auto simp: onUpdateByVenueKey_def onDeleteByVenueKey_def numbered_admin numbered_inc numbered_mono
    split: if_splits option.splits
    intro: numbered_addGetKey numbered_updateKey numbered_deleteKey numbered_trade numbered_mono [OF numbered_resolverPut]\<close>)

lemma numbered_run:
  "numbered n m \<Longrightarrow> n + length ops < 2 ^ 64 \<Longrightarrow> mgr_run u ops m = Some m' \<Longrightarrow> numbered (n + length ops) m'"
proof (induction ops arbitrary: n m)
  case (Cons op ops)
  then obtain m1 where m1: "mgr_exec u op m = Some m1" "mgr_run u ops m1 = Some m'" by (auto split: option.splits)
  have "numbered (Suc n) m1" using numbered_exec [OF Cons.prems(1) _ m1(1)] Cons.prems(2) by simp
  from Cons.IH [OF this _ m1(2)] show ?case using Cons.prems(2) by simp
qed simp

text \<open>In any run of the manager (of fewer than 2^64 operations), the deltas of a symbol are
  delivered in the order of their numbers, and a depth snapshot carries a number that no delivered
  delta of its symbol is ahead of.\<close>

theorem delta_numbers_ordered:
  assumes "mgr_run u ops OrderBookManager_init = Some m" and "length ops < 2 ^ 64"
  shows "sorted (map (\<lambda>(_, d). unat (bd_seq d)) (filter (\<lambda>(_, d). bd_symbol d = s) (delivered m))) \<and>
    (\<forall>(h, d)\<in>set (delivered m). bd_symbol d = s \<longrightarrow> bd_seq d \<le> sn_seq (buildSnapshot s n m))"
proof -
  have "numbered 0 OrderBookManager_init" by (simp add: numbered_def OrderBookManager_init_def)
  from numbered_run [OF this _ assms(1)] assms(2) have "numbered (length ops) m" by simp
  then show ?thesis by (fastforce simp: numbered_def buildSnapshot_def word_le_nat_alt)
qed

theorem delta_numbers_ordered_witness:
  "\<exists>m. mgr_run Bid demo_mgr_ops OrderBookManager_init = Some m \<and>
     sorted (map (\<lambda>(_, d). unat (bd_seq d)) (filter (\<lambda>(_, d). bd_symbol d = ''X'') (delivered m)))"
proof -
  from mgr_run_inv [OF demo_mgr_fit init_mgr_inv] obtain m where m: "mgr_run Bid demo_mgr_ops OrderBookManager_init = Some m" by blast
  have "length demo_mgr_ops < 2 ^ 64" by (simp add: demo_mgr_ops_def)
  from delta_numbers_ordered [OF m this] m show ?thesis by blast
qed

end
