(* ===== verification/Book_Delta.thy ===== *)
theory Book_Delta
  imports Book_Manager_Thms
begin

text \<open>
  The delta stream of the manager. A subscriber that keeps a copy of the level sizes and applies
  every delta it receives should hold the sizes of the book. That needs one thing of a mutation:
  it changes the size of candidate levels only. The locale \<open>local_mutation\<close> states this contract
  and derives the exactness of the computed level deltas; the mutations of the manager are
  instances, with one exception (an add that replaces an order resting on another level), for
  which the stream is shown to lose a change.
\<close>

section \<open>Applying deltas\<close>

type_synonym mirror = "Side \<Rightarrow> Price \<Rightarrow> u64"

definition sizes :: "OrderBook \<Rightarrow> mirror" where
  "sizes b = (\<lambda>s p. levelSize s p b)"

definition apply_level :: "LevelDelta \<Rightarrow> mirror \<Rightarrow> mirror" where
  "apply_level ld A = A(ld_side ld := (A (ld_side ld))(ld_price ld := ld_totalSize ld))"

definition apply_delta :: "BookDelta \<Rightarrow> mirror \<Rightarrow> mirror" where
  "apply_delta d A = fold apply_level (bd_levels d) A"

lemma addProbes_set:
  "set (addProbes cs b ps) = set ps \<union> {(c, levelSize (fst c) (snd c) b) | c. c \<in> set cs \<and> c \<notin> fst ` set ps}"
proof (induction cs arbitrary: ps)
  case (Cons c cs)
  show ?case
  proof (cases "c \<in> fst ` set ps")
    case True
    then show ?thesis using Cons.IH [of ps] by auto
  next
    case False
    then show ?thesis using Cons.IH [of "ps @ [(c, levelSize (fst c) (snd c) b)]"] by auto
  qed
qed simp

lemma levelDeltas_set:
  "ld \<in> set (levelDeltas (addProbes cs b []) b') \<longleftrightarrow>
     (ld_side ld, ld_price ld) \<in> set cs \<and> levelSize (ld_side ld) (ld_price ld) b' \<noteq> levelSize (ld_side ld) (ld_price ld) b \<and>
     ld_totalSize ld = levelSize (ld_side ld) (ld_price ld) b'"
  by (cases ld) (auto simp: levelDeltas_def addProbes_set image_iff split: prod.splits)

text \<open>Applying level deltas that hold the right sizes and cover every change.\<close>

lemma fold_apply_levels:
  assumes "\<And>ld. ld \<in> set lds \<Longrightarrow> ld_totalSize ld = B (ld_side ld) (ld_price ld)"
    and "\<And>s p. A s p \<noteq> B s p \<Longrightarrow> \<exists>ld\<in>set lds. ld_side ld = s \<and> ld_price ld = p"
  shows "fold apply_level lds A = B"
  using assms
proof (induction lds arbitrary: A)
  case Nil
  then show ?case by (auto simp: fun_eq_iff)
next
  case (Cons ld lds)
  have "fold apply_level lds (apply_level ld A) = B"
  proof (rule Cons.IH)
    show "ld_totalSize l = B (ld_side l) (ld_price l)" if "l \<in> set lds" for l using that Cons.prems(1) by simp
    show "\<exists>l\<in>set lds. ld_side l = s \<and> ld_price l = p" if "apply_level ld A s p \<noteq> B s p" for s p
    proof -
      have ne: "\<not> (s = ld_side ld \<and> p = ld_price ld)" using that Cons.prems(1) [of ld] by (auto simp: apply_level_def)
      then have "A s p \<noteq> B s p" using that by (auto simp: apply_level_def split: if_splits)
      then show ?thesis using Cons.prems(2) ne by auto
    qed
  qed
  then show ?case by simp
qed

section \<open>The contract of a mutation\<close>

locale local_mutation =
  fixes ok :: "OrderBook \<Rightarrow> bool" and mutator :: "OrderBook \<Rightarrow> ((bool \<times> 'r) \<times> OrderBook) option"
    and cands :: "OrderBook \<Rightarrow> (Side \<times> Price) list"
  assumes touches: "ok b \<Longrightarrow> mutator b = Some (cr, b') \<Longrightarrow> (s, p) \<notin> set (cands b) \<Longrightarrow> levelSize s p b' = levelSize s p b"
    and honest: "ok b \<Longrightarrow> mutator b = Some ((False, r), b') \<Longrightarrow> sizes b' = sizes b"
begin

lemma levels_exact:
  assumes "ok b" "mutator b = Some (cr, b')"
  shows "fold apply_level (levelDeltas (addProbes (cands b) b []) b') (sizes b) = sizes b'"
proof (rule fold_apply_levels)
  show "ld_totalSize ld = sizes b' (ld_side ld) (ld_price ld)" if "ld \<in> set (levelDeltas (addProbes (cands b) b []) b')" for ld
    using that by (simp add: levelDeltas_set sizes_def)
  show "\<exists>ld\<in>set (levelDeltas (addProbes (cands b) b []) b'). ld_side ld = s \<and> ld_price ld = p"
    if d: "sizes b s p \<noteq> sizes b' s p" for s p
  proof -
    have "(s, p) \<in> set (cands b)" using d touches [OF assms] by (force simp: sizes_def)
    then show ?thesis using d
      by (intro bexI [of _ "\<lparr>ld_side = s, ld_price = p, ld_totalSize = levelSize s p b'\<rparr>"]) (auto simp: levelDeltas_set sizes_def)
  qed
qed

text \<open>What is delivered during a mutation turns the old level sizes into the new ones.\<close>

lemma stream_exact:
  assumes ok: "ok (book_of s m)" and mu: "mutateWithDelta s (cands (book_of s m)) mutator m = Some (cr, m')"
  shows "\<exists>ds. delivered m' = delivered m @
       concat (map (\<lambda>d. map (\<lambda>(_, h). (h, d)) (case map_of (subs m) s of None \<Rightarrow> [] | Some hs \<Rightarrow> hs)) ds) \<and>
     fold apply_delta ds (sizes (book_of s m)) = sizes (book_of s m')"
proof -
  obtain b m1 where g: "getOrCreateBook s m = (b, m1)" by fastforce
  note fr = getOrCreateBook_frame [OF g]
  obtain c r b' where f: "mutator b = Some ((c, r), b')"
    using mu g fr(1) by (auto simp: mutateWithDelta_def Let_def split: option.splits)
  define lds where "lds = levelDeltas (addProbes (cands b) b []) b'"
  have bo: "book_of s (putBook s b' m1) = b'" by (simp add: book_of_def findBook_def mgr_frame umap_simps)
  have ex: "fold apply_level lds (sizes b) = sizes b'" using levels_exact [OF ok] f fr(1) by (simp add: lds_def)
  show ?thesis
  proof (cases c)
    case False
    then have "m' = putBook s b' m1" using mu g f fr(1) by (simp add: mutateWithDelta_def Let_def)
    moreover have "sizes b' = sizes b" using honest [OF ok, of r b'] f fr(1) False by simp
    ultimately show ?thesis using bo fr(1,4) by (intro exI [of _ "[]"]) (simp add: mgr_frame)
  next
    case True
    define x y where "x = tobDelta (bestBid b) (bestBidSize b) (bestBid b') (bestBidSize b')"
      and "y = tobDelta (bestAsk b) (bestAskSize b) (bestAsk b') (bestAskSize b')"
    have m': "m' = maybePublishDelta s lds x y (putBook s b' m1)"
      using mu g f fr(1) True by (auto simp: mutateWithDelta_def Let_def lds_def x_def y_def)
    then have b2: "book_of s m' = b'" using bo by (simp add: book_of_def findBook_def mgr_frame)
    show ?thesis
    proof (cases "lds = [] \<and> x = None \<and> y = None")
      case True
      then show ?thesis using m' ex b2 fr(1,4) by (intro exI [of _ "[]"]) (simp add: maybePublishDelta_def mgr_frame)
    next
      case False
      then show ?thesis using m' ex b2 fr(1,4,5,9)
        by (intro exI [of _ "[\<lparr>bd_symbol = s, bd_seq = (case map_of (pubSeq m) s of None \<Rightarrow> 0 | Some s \<Rightarrow> s) + 1,
              bd_levels = lds, bd_bid = x, bd_ask = y\<rparr>]"])
          (auto simp: maybePublishDelta_def Let_def mgr_frame apply_delta_def)
    qed
  qed
qed

end

section \<open>The mutations of the manager\<close>

lemma levelSize_eqI:
  assumes "book_inv b" "book_inv b'" "book_view b' s p = book_view b s p"
  shows "levelSize s p b' = levelSize s p b"
  using assms core_levelSize [of b s p] core_levelSize [of b' s p] by (simp add: book_inv_iff word_unat_eq_iff)

lemma sizes_eqI: "book_inv b \<Longrightarrow> book_inv b' \<Longrightarrow> book_view b' = book_view b \<Longrightarrow> sizes b' = sizes b"
  by (auto simp: sizes_def fun_eq_iff intro: levelSize_eqI)

lemma sizes_D: "sizes b' = sizes b \<Longrightarrow> levelSize s p b' = levelSize s p b"
  unfolding sizes_def by meson

text \<open>An order is only in the queue of the level at which it is located.\<close>

lemma view_key_located:
  assumes "book_inv b" "o1 \<in> set (book_view b s p)"
  shows "locate (makeKeyFromOrder o1) b = Some (s, p)"
proof -
  obtain l n where l: "findLevel s p b = Some l" "(n, o1) \<in> set (orders l)"
    using assms(2) by (cases "findLevel s p b") (auto simp: book_view_def)
  then have "map_of (orders l) n = Some o1"
    using assms(1) coreD(4) [of b s p l] by (simp add: book_inv_iff level_ok_def)
  from core_indexed [OF _ l(1) this] assms(1) show ?thesis by (simp add: locate_def book_inv_iff)
qed

lemma spec_delete_elsewhere:
  "book_inv b \<Longrightarrow> locate k b \<noteq> Some (s, p) \<Longrightarrow> spec_delete k (book_view b) s p = book_view b s p"
  by (auto simp: spec_delete_def filter_id_conv dest: view_key_located)

lemma spec_resize_elsewhere:
  "book_inv b \<Longrightarrow> locate k b \<noteq> Some (s, p) \<Longrightarrow> spec_resize k z (book_view b) s p = book_view b s p"
  by (auto simp: spec_resize_def intro!: map_idI dest: view_key_located)

definition delete_cands :: "OrderKey \<Rightarrow> OrderBook \<Rightarrow> (Side \<times> Price) list" where
  "delete_cands k b = (case locate k b of Some (s, p) \<Rightarrow> [(s, p)] | None \<Rightarrow> [])"

lemma delete_sizes:
  assumes inv: "book_inv b" and d: "applyDelete k b = Some (c, b')"
  shows "(s, p) \<notin> set (delete_cands k b) \<Longrightarrow> levelSize s p b' = levelSize s p b" and "\<not> c \<Longrightarrow> sizes b' = sizes b"
proof -
  obtain b1 where "deleteImpl k b = Some (map_of (byId b) k \<noteq> None, b1)" "book_inv b1"
    "book_view b1 = spec_delete k (book_view b)" using deleteImpl_refines [OF inv, of k] by metis
  then have b': "c = (map_of (byId b) k \<noteq> None)" "book_inv b'" "book_view b' = spec_delete k (book_view b)"
    using d by (simp_all add: applyDelete_def)
  show "levelSize s p b' = levelSize s p b" if "(s, p) \<notin> set (delete_cands k b)"
  proof (rule levelSize_eqI [OF inv b'(2)])
    have "locate k b \<noteq> Some (s, p)" using that by (auto simp: delete_cands_def)
    then show "book_view b' s p = book_view b s p" using spec_delete_elsewhere [OF inv] b'(3) by simp
  qed
  show "sizes b' = sizes b" if "\<not> c"
    using that b' view_no_key [of b k] inv by (intro sizes_eqI) (auto simp: book_inv_iff)
qed

interpretation delete_mutation: local_mutation book_inv "\<lambda>b. plain (applyDelete k b)" "delete_cands k" for k
  by unfold_locales (auto simp: plain_def dest: delete_sizes)

lemma update_sizes:
  assumes inv: "book_inv b" and fits: "key_update_fits k np nz b" and d: "applyUpdate k np nz b = Some (c, b')"
  shows "(s, p) \<notin> set (updateCandidates u k np b) \<Longrightarrow> levelSize s p b' = levelSize s p b" and "\<not> c \<Longrightarrow> sizes b' = sizes b"
proof -
  have "((s, p) \<notin> set (updateCandidates u k np b) \<longrightarrow> levelSize s p b' = levelSize s p b) \<and> (\<not> c \<longrightarrow> sizes b' = sizes b)"
  proof (cases "map_of (byId b) k")
    case None
    then show ?thesis using d by (simp add: applyUpdate_def updateImpl_missing)
  next
    case (Some loc)
    have core: "book_core b" using inv by (simp add: book_inv_iff)
    obtain l ord where l: "findLevel (l_side loc) (l_price loc) b = Some l" "map_of (orders l) (l_it loc) = Some ord"
      "deref b loc = Some ord" "makeKeyFromOrder ord = k" "o_side ord = l_side loc" "o_price ord = l_price loc"
      using core_locate [OF core Some] by metis
    have "update_fits ord np nz b" using fits Some l(3) by (simp add: key_update_fits_def)
    from updateImpl_refines [OF inv Some l(3) this] obtain b1 where
      "updateImpl k np nz b = Some (tgt_size ord nz = 0 \<or> tgt_price ord np \<noteq> o_price ord \<or> tgt_size ord nz \<noteq> o_size ord, b1)"
      "book_inv b1" "book_view b1 = spec_update ord np nz (book_view b)" by metis
    then have b': "c = (tgt_size ord nz = 0 \<or> tgt_price ord np \<noteq> o_price ord \<or> tgt_size ord nz \<noteq> o_size ord)"
      "book_inv b'" "book_view b' = spec_update ord np nz (book_view b)"
      using d by (simp_all add: applyUpdate_def)
    have loc: "locate k b = Some (l_side loc, l_price loc)" by (simp add: locate_def Some)
    have "book_view b' s p = book_view b s p" if "(s, p) \<notin> set (updateCandidates u k np b)"
    proof -
      have ne: "locate k b \<noteq> Some (s, p)" "tgt_price ord np \<noteq> o_price ord \<Longrightarrow> s = o_side ord \<Longrightarrow> p \<noteq> tgt_price ord np"
        using that loc l by (auto simp: updateCandidates_def tgt_price_def split: option.splits)
      show ?thesis using spec_delete_elsewhere [OF inv ne(1)] spec_resize_elsewhere [OF inv ne(1)] ne(2)
        by (auto simp: b' spec_update_def spec_add_def l)
    qed
    moreover have "sizes b' = sizes b" if "\<not> c"
    proof (rule sizes_eqI [OF inv b'(2)])
      have "o_size o' = o_size ord" if "o' \<in> set (book_view b s p)" "makeKeyFromOrder o' = k" for s p o'
        using view_key_inj [OF core l(1,2) that(1)] that(2) l(4) by simp
      then have "spec_resize k (o_size ord) (book_view b) = book_view b" by (rule spec_resize_same)
      then show "book_view b' = book_view b" using \<open>\<not> c\<close> b' l(4) by (auto simp: spec_update_def)
    qed
    ultimately show ?thesis using levelSize_eqI [OF inv b'(2)] by blast
  qed
  then show "(s, p) \<notin> set (updateCandidates u k np b) \<Longrightarrow> levelSize s p b' = levelSize s p b" and "\<not> c \<Longrightarrow> sizes b' = sizes b"
    by blast+
qed

interpretation update_mutation: local_mutation "\<lambda>b. book_inv b \<and> key_update_fits k np nz b"
    "\<lambda>b. plain (applyUpdate k np nz b)" "updateCandidates u k np" for u k np nz
  by unfold_locales (auto simp: plain_def dest: update_sizes)

definition trade_cands :: "Price \<Rightarrow> OrderBook \<Rightarrow> (Side \<times> Price) list" where
  "trade_cands tp b = (if levelSize Bid tp b > 0 then [(Bid, tp)] else []) @ (if levelSize Ask tp b > 0 then [(Ask, tp)] else [])"

lemma trade_sizes:
  assumes inv: "book_inv b" and d: "applyTrade tp q a b = (c, b')"
  shows "(s, p) \<notin> set (trade_cands tp b) \<Longrightarrow> levelSize s p b' = levelSize s p b" and "\<not> c \<Longrightarrow> sizes b' = sizes b"
proof -
  have "((s, p) \<notin> set (trade_cands tp b) \<longrightarrow> levelSize s p b' = levelSize s p b) \<and> (\<not> c \<longrightarrow> sizes b' = sizes b)"
  proof (cases "q = 0 \<or> passiveSide tp a b = None")
    case True
    then show ?thesis using d by (auto simp: applyTrade_def split: if_splits)
  next
    case False
    then obtain sd where sd: "passiveSide tp a b = Some sd" and q: "q \<noteq> 0" by auto
    obtain cn b1 where b1: "consumeAtLevel sd tp q b = (cn, b1)" "book_inv b1"
      "book_view b1 = spec_fill sd tp (unat q) (book_view b)" "unat cn = min (unat q) (qsum (book_view b sd tp))"
      using consumeAtLevel_refines [OF inv, of sd tp q] by metis
    have b': "b' = b1" "c = (cn > 0)" using d q by (simp_all add: applyTrade_def sd b1)
    have core: "book_core b" "book_core b1" using inv b1 by (simp_all add: book_inv_iff)
    have else_same: "levelSize s p b' = levelSize s p b" if "(s, p) \<noteq> (sd, tp)" for s p
      using that b1 by (intro levelSize_eqI [OF inv]) (auto simp: b' spec_fill_def)
    have "levelSize sd tp b' = levelSize sd tp b" if "qsum (book_view b sd tp) = 0"
      using that core b1(3) by (simp add: b' word_unat_eq_iff core_levelSize spec_fill_def qsum_fill)
    then have "levelSize s p b' = levelSize s p b" if "qsum (book_view b sd tp) = 0" for s p
      using that else_same by (cases "(s, p) = (sd, tp)") auto
    then have same: "sizes b' = sizes b" if "qsum (book_view b sd tp) = 0" using that by (simp add: sizes_def)
    have zero: "levelSize sd tp b = 0 \<longleftrightarrow> qsum (book_view b sd tp) = 0"
      using core_levelSize [OF core(1), of sd tp] by (simp add: unat_eq_0 [symmetric])
    have "\<not> c \<Longrightarrow> qsum (book_view b sd tp) = 0"
      using b1(4) q by (auto simp: b' word_greater_zero_iff unat_eq_0 [symmetric] min_def split: if_splits)
    moreover have "(s, p) \<notin> set (trade_cands tp b) \<Longrightarrow> (s, p) \<noteq> (sd, tp) \<or> levelSize sd tp b = 0"
      by (cases sd) (auto simp: trade_cands_def word_greater_zero_iff split: if_splits)
    ultimately show ?thesis using same else_same zero by (auto simp: sizes_def) metis+
  qed
  then show "(s, p) \<notin> set (trade_cands tp b) \<Longrightarrow> levelSize s p b' = levelSize s p b" and "\<not> c \<Longrightarrow> sizes b' = sizes b"
    by blast+
qed

interpretation trade_mutation: local_mutation book_inv "\<lambda>b. plain (Some (applyTrade tp q a b))" "trade_cands tp" for tp q a
  by unfold_locales (auto simp: plain_def dest: trade_sizes split: prod.splits)

lemma qsum_move_back: "qsum (spec_move_back k q A s p) = qsum (A s p)"
proof -
  have "qsum (filter (\<lambda>o1. makeKeyFromOrder o1 \<noteq> k) xs @ map (\<lambda>o1. o1\<lparr>o_priority := q\<rparr>) (filter (\<lambda>o1. makeKeyFromOrder o1 = k) xs))
      = qsum xs" for xs
    by (induction xs) auto
  then show ?thesis by (simp add: spec_move_back_def spec_delete_def)
qed

lemma priority_sizes:
  assumes inv: "book_inv b" and d: "applyPriority k q b = Some (c, b')"
  shows "sizes b' = sizes b"
proof (cases "map_of (byId b) k")
  case None
  then show ?thesis using d by (simp add: applyPriority_def priorityImpl_def)
next
  case (Some loc)
  have core: "book_core b" using inv by (simp add: book_inv_iff)
  obtain ord where "deref b loc = Some ord" using core_locate [OF core Some] by metis
  from priorityImpl_refines [OF inv Some this, of q] obtain b1 where
    "priorityImpl k q b = Some (o_priority ord \<noteq> q, b1)" "book_inv b1"
    "book_view b1 = (if o_priority ord = q then book_view b else spec_move_back k q (book_view b))" by metis
  then have b': "book_inv b'" "qsum (book_view b' s p) = qsum (book_view b s p)" for s p
    using d qsum_move_back by (auto simp: applyPriority_def)
  then have "unat (levelSize s p b') = unat (levelSize s p b)" for s p
    using core core_levelSize [of b' s p] core_levelSize [OF core, of s p] by (simp add: book_inv_iff)
  then show ?thesis by (simp add: sizes_def fun_eq_iff word_unat_eq_iff)
qed

interpretation priority_mutation: local_mutation book_inv "\<lambda>b. plain (applyPriority k q b)" "\<lambda>_. []" for k q
  by unfold_locales (auto simp: plain_def dest!: priority_sizes intro: sizes_D)

lemma summary_sizes: "sizes (snd (applyLevelSummary sd p t c b)) = sizes b"
proof -
  have put: "levelSize s p' (set_ladderAgg sd' l b) = levelSize s p' b" for s p' sd' l b
    by (simp add: levelSize_def findLevel_def)
  have "levelSize s p' b1 = levelSize s p' b" if "getOrCreateAggLevel sd' q b = (l, b1)" for s p' sd' q l b1
    using that put by (auto simp: getOrCreateAggLevel_def putAggLevel_def Let_def split: option.splits)
  then show ?thesis by (auto simp: sizes_def fun_eq_iff applyLevelSummary_def putAggLevel_def put split: prod.split)
qed

interpretation summary_mutation: local_mutation book_inv "\<lambda>b. plain (Some (applyLevelSummary sd p t c b))" "\<lambda>_. [(sd, p)]"
  for sd p t c
proof
  fix b :: OrderBook and cr b' s and p' :: Price
  assume "plain (Some (applyLevelSummary sd p t c b)) = Some (cr, b')"
  then have "sizes b' = sizes b" using summary_sizes [of sd p t c b] by (auto simp: plain_def split: prod.splits)
  then show "levelSize s p' b' = levelSize s p' b" by (auto simp: sizes_def fun_eq_iff)
next
  fix b :: OrderBook and r b'
  assume "plain (Some (applyLevelSummary sd p t c b)) = Some ((False, r), b')"
  then show "sizes b' = sizes b" using summary_sizes [of sd p t c b] by (auto simp: plain_def split: prod.splits)
qed

text \<open>An add that replaces no order resting on another level.\<close>

definition add_local :: "Order \<Rightarrow> FeedScope \<Rightarrow> bool \<Rightarrow> OrderBook \<Rightarrow> bool" where
  "add_local o1 sc miss b \<longleftrightarrow> book_inv b \<and> fits o1 b \<and>
     (case locate (makeKeyFromOrder (fst (scopedCopy o1 sc miss b))) b of
        None \<Rightarrow> True | Some sp \<Rightarrow> sp = (o_side o1, o_price o1))"

lemma add_sizes:
  assumes ok: "add_local o1 sc miss b" and d: "applyAddScoped o1 sc miss b = Some (c, b')"
  shows "(s, p) \<noteq> (o_side o1, o_price o1) \<Longrightarrow> levelSize s p b' = levelSize s p b" and "c"
proof -
  obtain copy b1 where cp: "scopedCopy o1 sc miss b = (copy, b1)" by fastforce
  note fr = scopedCopy_frame [OF cp]
  have inv: "book_inv b" and b1: "book_inv b1" "fits copy b1" using ok fr by (simp_all add: add_local_def)
  obtain b2 where "addImpl copy b1 = Some (True, b2)" "book_inv b2" "book_view b2 = spec_add copy (book_view b1)"
    using addImpl_refines [OF b1] by metis
  then have b': "c" "book_inv b'" "book_view b' = spec_add copy (book_view b)"
    using d fr by (simp_all add: applyAddScoped_def cp)
  then show "c" by simp
  assume ne: "(s, p) \<noteq> (o_side o1, o_price o1)"
  then have "locate (makeKeyFromOrder copy) b \<noteq> Some (s, p)" using ok by (auto simp: add_local_def cp)
  from spec_delete_elsewhere [OF inv this] ne fr show "levelSize s p b' = levelSize s p b"
    by (intro levelSize_eqI [OF inv b'(2)]) (auto simp: b' spec_add_def)
qed

interpretation add_mutation: local_mutation "add_local o1 sc miss" "\<lambda>b. plain (applyAddScoped o1 sc miss b)"
    "\<lambda>_. [(o_side o1, o_price o1)]" for o1 sc miss
  by unfold_locales (auto simp: plain_def dest: add_sizes)

section \<open>The stream\<close>

text \<open>The deltas delivered between two states of the manager turn the level sizes of the first
  into those of the second.\<close>

definition mirrors :: "string \<Rightarrow> OrderBookManager \<Rightarrow> OrderBookManager \<Rightarrow> bool" where
  "mirrors s m m' \<longleftrightarrow> (\<exists>ds. delivered m' = delivered m @
       concat (map (\<lambda>d. map (\<lambda>(_, h). (h, d)) (case map_of (subs m) s of None \<Rightarrow> [] | Some hs \<Rightarrow> hs)) ds) \<and>
     fold apply_delta ds (sizes (book_of s m)) = sizes (book_of s m'))"

lemma mirrors_same: "books m' = books m \<Longrightarrow> delivered m' = delivered m \<Longrightarrow> mirrors s m m'"
  unfolding mirrors_def by (intro exI [of _ "[]"]) (simp add: book_of_frame [of m' m])

lemma mirrors_from:
  "book_of s m0 = book_of s m \<Longrightarrow> delivered m0 = delivered m \<Longrightarrow> subs m0 = subs m \<Longrightarrow> mirrors s m0 m' \<Longrightarrow> mirrors s m m'"
  by (simp add: mirrors_def)

text \<open>Which operations the stream covers: all mutations of one symbol, except an add whose key
  names an order that rests on another level.\<close>

fun mirrored :: "mgr_op \<Rightarrow> OrderBookManager \<Rightarrow> bool" where
  "mirrored (MDelete s k) m = True"
| "mirrored (MUpdate s k np nz) m = True"
| "mirrored (MPriority s k q) m = True"
| "mirrored (MTrade s px z a) m = True"
| "mirrored (MLevelSummary s sd px t c) m = True"
| "mirrored (MAdd s i sd px z pr sc miss) m = (case toTicks s px m of None \<Rightarrow> True
     | Some p \<Rightarrow> (case locate (makeKeyFromOrder (fst (scopedCopy (mkOrder i sd p z pr) sc miss (book_of s m)))) (book_of s m) of
         None \<Rightarrow> True | Some sp \<Rightarrow> sp = (sd, p)))"
| "mirrored _ m = False"

lemma resultD: "result x = Some (c, m') \<Longrightarrow> \<exists>cr. x = Some (cr, m')"
  by (auto simp: result_def)

lemmas stream_rules =
  delete_mutation.stream_exact [folded mirrors_def] update_mutation.stream_exact [folded mirrors_def]
  priority_mutation.stream_exact [folded mirrors_def] trade_mutation.stream_exact [folded mirrors_def]
  summary_mutation.stream_exact [folded mirrors_def] add_mutation.stream_exact [folded mirrors_def]

lemma mirrors_inc:
  "mirrors s m (incDroppedStale m)" "mirrors s m (incDroppedMalformed m)"
  by (rule mirrors_same; simp add: mgr_frame)+

text \<open>Counting and creating the book first does not matter.\<close>

lemma mirrors_created:
  assumes "getOrCreateBook s m0 = (b, m1)" "books m0 = books m" "delivered m0 = delivered m" "subs m0 = subs m" "mirrors s m1 m'"
  shows "mirrors s m m'"
proof (rule mirrors_from [OF _ _ _ assms(5)])
  note fr = getOrCreateBook_frame [OF assms(1)]
  show "book_of s m1 = book_of s m" using fr assms(2) by (simp add: book_of_def findBook_def)
qed (use getOrCreateBook_frame [OF assms(1)] assms in simp_all)

lemma delete_mirrors:
  assumes inv: "mgr_inv m" and ex: "onDeleteKey s k m = Some (c, m')"
  shows "mirrors s m m'"
proof (cases "gate s m")
  case True
  then show ?thesis using ex mirrors_inc by (auto simp: onDeleteKey_def)
next
  case False
  obtain b m1 where g: "getOrCreateBook s (incDeletes m) = (b, m1)" by fastforce
  note c = created_inv [OF inc_inv(3) [OF inv] g] and fr = getOrCreateBook_frame [OF g]
  obtain cr where mu: "mutateWithDelta s (delete_cands k (book_of s m1)) (\<lambda>b. plain (applyDelete k b)) m1 = Some (cr, m')"
    using ex False g fr(1) c(2) resultD by (fastforce simp: onDeleteKey_def delete_cands_def)
  have "mirrors s m1 m'" using book_of_inv [OF c(1)] by (intro stream_rules(1) [OF _ mu]) simp
  from mirrors_created [OF g _ _ _ this] show ?thesis by (simp add: mgr_frame)
qed

lemma update_mirrors:
  assumes inv: "mgr_inv m" and fits: "update_price_fits s k np nz m" and ex: "onUpdateKey u s k np nz m = Some (c, m')"
  shows "mirrors s m m'"
proof (cases "gate s m \<or> np = None \<and> nz = None \<or> (case np of Some px \<Rightarrow> \<not> validatePrice s px m | None \<Rightarrow> False)
    \<or> (case nz of Some z \<Rightarrow> \<not> validateSize z | None \<Rightarrow> False)")
  case True
  then have "m' = incDroppedStale m \<or> m' = incDroppedMalformed m"
    using ex unfolding onUpdateKey_def by (auto split: if_splits)
  then show ?thesis using mirrors_inc by blast
next
  case False
  obtain b m1 where g: "getOrCreateBook s (incUpdates m) = (b, m1)" by fastforce
  note c = created_inv [OF inc_inv(2) [OF inv] g] and fr = getOrCreateBook_frame [OF g]
  have b: "book_of s m1 = book_of s m" using c(2) book_of_frame [of "incUpdates m" m] by (simp add: mgr_frame)
  obtain p where p: "(case np of None \<Rightarrow> Some None | Some px \<Rightarrow> map_option Some (toTicks s px m1)) = Some p"
    "key_update_fits k p nz (book_of s m)"
    using fits False fr(6) by (auto simp: update_price_fits_def price_fits_def mgr_frame split: option.splits)
  have "result (mutateWithDelta s (updateCandidates u k p (book_of s m1)) (\<lambda>b. plain (applyUpdate k p nz b)) m1) = Some (c, m')"
    using ex False p(1) g fr(1) c(2) unfolding onUpdateKey_def by auto
  then obtain cr where mu: "mutateWithDelta s (updateCandidates u k p (book_of s m1)) (\<lambda>b. plain (applyUpdate k p nz b)) m1 = Some (cr, m')"
    using resultD by blast
  have "mirrors s m1 m'" using book_of_inv [OF c(1), of s] p(2) b by (intro stream_rules(2) [OF _ mu]) simp
  from mirrors_created [OF g _ _ _ this] show ?thesis by (simp add: mgr_frame)
qed

lemma trade_mirrors:
  assumes inv: "mgr_inv m" and ex: "onTrade s px z a m = Some (c, m')"
  shows "mirrors s m m'"
proof (cases "gate s m \<or> \<not> validatePrice s px m \<or> \<not> validateSize z")
  case True
  then have "m' = incDroppedStale m \<or> m' = incDroppedMalformed m"
    using ex by (auto simp: onTrade_def split: if_splits)
  then show ?thesis using mirrors_inc by blast
next
  case False
  obtain b m1 where g: "getOrCreateBook s (incEvents m) = (b, m1)" by fastforce
  note c = created_inv [OF inc_inv(4) [OF inv] g] and fr = getOrCreateBook_frame [OF g]
  obtain tp where tp: "toTicks s px m = Some tp" using ex False by (auto simp: onTrade_def mgr_frame split: option.splits)
  obtain cr where mu: "mutateWithDelta s (trade_cands tp (book_of s m1)) (\<lambda>b. plain (Some (applyTrade tp z a b))) m1 = Some (cr, m')"
    using ex False g fr(1) c(2) tp resultD by (fastforce simp: onTrade_def trade_cands_def mgr_frame)
  have "mirrors s m1 m'" using book_of_inv [OF c(1)] by (intro stream_rules(4) [OF _ mu]) simp
  from mirrors_created [OF g _ _ _ this] show ?thesis by (simp add: mgr_frame)
qed

lemma priority_mirrors:
  assumes inv: "mgr_inv m" and ex: "onPriorityKey s k q m = Some (c, m')"
  shows "mirrors s m m'"
proof (cases "gate s m")
  case True
  then show ?thesis using ex mirrors_inc by (auto simp: onPriorityKey_def)
next
  case False
  obtain cr where mu: "mutateWithDelta s [] (\<lambda>b. plain (applyPriority k q b)) (incPriorities m) = Some (cr, m')"
    using ex False resultD by (fastforce simp: onPriorityKey_def)
  have "mirrors s (incPriorities m) m'"
    using book_of_inv [OF inc_inv(5) [OF inv]] by (intro stream_rules(3) [OF _ mu]) simp
  from mirrors_from [OF _ _ _ this, of m] show ?thesis using book_of_frame [of "incPriorities m" m] by (simp add: mgr_frame)
qed

lemma summary_mirrors:
  assumes inv: "mgr_inv m" and ex: "onLevelSummary s sd px t oc m = Some (c, m')"
  shows "mirrors s m m'"
proof (cases "gate s m \<or> \<not> validatePrice s px m")
  case True
  then have "m' = incDroppedStale m \<or> m' = incDroppedMalformed m"
    using ex by (auto simp: onLevelSummary_def split: if_splits)
  then show ?thesis using mirrors_inc by blast
next
  case False
  obtain p where p: "toTicks s px m = Some p" using ex False by (auto simp: onLevelSummary_def mgr_frame split: option.splits)
  obtain cr where mu: "mutateWithDelta s [(sd, p)] (\<lambda>b. plain (Some (applyLevelSummary sd p t oc b))) (incSummaries m) = Some (cr, m')"
    using ex False p resultD by (fastforce simp: onLevelSummary_def mgr_frame)
  have "mirrors s (incSummaries m) m'"
    using book_of_inv [OF inc_inv(7) [OF inv]] by (intro stream_rules(5) [OF _ mu]) simp
  from mirrors_from [OF _ _ _ this, of m] show ?thesis using book_of_frame [of "incSummaries m" m] by (simp add: mgr_frame)
qed

lemma add_mirrors:
  assumes inv: "mgr_inv m" and fits: "mgr_fits (MAdd s i sd px z pr sc miss) m" and mir: "mirrored (MAdd s i sd px z pr sc miss) m"
    and ex: "onAdd s i sd px z pr sc miss m = Some (c, m')"
  shows "mirrors s m m'"
proof (cases "gate s m \<or> \<not> validatePrice s px m \<or> \<not> validateSize z")
  case True
  then have "m' = incDroppedStale m \<or> m' = incDroppedMalformed m"
    using ex by (auto simp: onAdd_def split: if_splits)
  then show ?thesis using mirrors_inc by blast
next
  case False
  then obtain p where p: "toTicks s px m = Some p" "Order_Book_Spec.fits (mkOrder i sd p z pr) (book_of s m)"
    using fits by (auto simp: price_fits_def split: option.splits)
  let ?o = "mkOrder i sd p z pr" and ?m = "incAdds m"
  have b: "book_of s ?m = book_of s m" using book_of_frame [of ?m m] by (simp add: mgr_frame)
  have so: "o_side ?o = sd" "o_price ?o = p" by (simp_all add: mkOrder_def)
  obtain cr where mu: "mutateWithDelta s [(o_side ?o, o_price ?o)] (\<lambda>b. plain (applyAddScoped ?o sc miss b)) ?m = Some (cr, m')"
    using ex False p resultD unfolding so by (fastforce simp: onAdd_def mgr_frame)
  have "add_local ?o sc miss (book_of s ?m)"
    using book_of_inv [OF inv] p mir unfolding add_local_def b so by (auto split: option.splits)
  from stream_rules(6) [OF this mu] have "mirrors s ?m m'" .
  from mirrors_from [OF b _ _ this] show ?thesis by (simp add: mgr_frame)
qed

text \<open>C6. A subscriber's copy of the level sizes stays exact: for every mutation of the manager
  (apart from an add that replaces an order resting on another level), the deltas delivered turn
  the level sizes before the operation into those after it, and every subscriber of the symbol gets
  each of them.\<close>

theorem delta_stream_exact:
  assumes "mgr_inv m" and "mgr_fits op m" and "mirrored op m" and "op_symbol op = Some s" and "mgr_exec u op m = Some m'"
  shows "\<exists>ds. delivered m' = delivered m @
       concat (map (\<lambda>d. map (\<lambda>(_, h). (h, d)) (case map_of (subs m) s of None \<Rightarrow> [] | Some hs \<Rightarrow> hs)) ds) \<and>
     fold apply_delta ds (sizes (book_of s m)) = sizes (book_of s m')"
  unfolding mirrors_def [symmetric]
  using assms(3-5)
proof (cases op)
  case (MAdd s' i sd px z pr sc miss)
  then show "mirrors s m m'" using assms add_mirrors [OF assms(1)] by auto
qed (use assms delete_mirrors [OF assms(1)] update_mirrors [OF assms(1)] trade_mirrors [OF assms(1)]
    priority_mirrors [OF assms(1)] summary_mirrors [OF assms(1)] in auto)

definition demo_feed_ops :: "mgr_op list" where
  "demo_feed_ops = [MSubscribe ''X'' 7, MSnapshotPerOrder ''X'' [demo_order 1 Bid 100 10, demo_order 2 Ask 101 5] (Some 8)]"

definition demo_live :: OrderBookManager where
  "demo_live = (case mgr_run Bid demo_feed_ops OrderBookManager_init of Some m \<Rightarrow> m | None \<Rightarrow> OrderBookManager_init)"

lemma demo_live_inv: "mgr_inv demo_live"
proof -
  have "mgr_ops_fit Bid demo_feed_ops OrderBookManager_init" by code_simp
  from mgr_run_inv [OF this init_mgr_inv] show ?thesis by (auto simp: demo_live_def)
qed

theorem delta_stream_exact_witness:
  "\<exists>m'. mgr_exec Bid (MDelete ''X'' demo_key) demo_live = Some m' \<and>
     (\<exists>ds. delivered m' = delivered demo_live @
        concat (map (\<lambda>d. map (\<lambda>(_, h). (h, d)) (case map_of (subs demo_live) ''X'' of None \<Rightarrow> [] | Some hs \<Rightarrow> hs)) ds) \<and>
      fold apply_delta ds (sizes (book_of ''X'' demo_live)) = sizes (book_of ''X'' m'))"
proof -
  have fits: "mgr_fits (MDelete ''X'' demo_key) demo_live" by simp
  obtain m' where m': "mgr_exec Bid (MDelete ''X'' demo_key) demo_live = Some m'"
    using mgr_exec_total [OF demo_live_inv fits] by blast
  from delta_stream_exact [OF demo_live_inv fits _ _ m', of "''X''"] m' show ?thesis by auto
qed

end
