(* ===== verification/Tick_Quantization.thy ===== *)
theory Tick_Quantization
  imports Book_Manager
begin

text \<open>
  Tick quantization in binary64 arithmetic. The bounds follow the three roundings of
  \<open>quantizeTicks\<close> (the quotient, the added 1e-12, and the price or the tick itself).
\<close>

section \<open>Rounding near an integer\<close>

lemma pow2_numeral [simp]:
  "pow2 (- 1022) = 1 / 2 ^ 1022" "pow2 1023 = 2 ^ 1023" "pow2 0 = 1"
  by (simp_all add: power_int_minus field_simps)

lemma pow2_small: "(1 :: rat) / 2 ^ 1022 \<le> 1 / 2 ^ 60"
  by (intro divide_left_mono power_increasing) auto

lemma pow2_big: "(2 :: rat) ^ 60 \<le> 2 ^ 1023"
  by (intro power_increasing) auto

lemma round_double_mid:
  assumes "1 / 2 ^ 60 \<le> \<bar>x\<bar>" "\<bar>x\<bar> \<le> 2 ^ 60"
  shows "round_double z x = DFin (rnd x)" and "\<bar>rnd x - x\<bar> \<le> \<bar>x\<bar> / 2 ^ 53"
proof -
  have b: "pow2 (- 1022) \<le> \<bar>x\<bar>" "\<bar>x\<bar> \<le> pow2 1023"
    using assms pow2_small pow2_big unfolding pow2_numeral by linarith+
  show "round_double z x = DFin (rnd x)" by (rule round_double_range(1) [OF b])
  show "\<bar>rnd x - x\<bar> \<le> \<bar>x\<bar> / 2 ^ 53" by (rule rnd_rel [OF b(1)])
qed

lemma round_away_near:
  assumes "\<bar>x - of_int n\<bar> < 1 / 2"
  shows "round_away x = n"
proof -
  have "\<lfloor>x + 1 / 2\<rfloor> = n" "\<lfloor>- x + 1 / 2\<rfloor> = - n"
    using assms by (auto simp: floor_eq_iff abs_if split: if_splits)
  then show ?thesis by (simp add: round_away_def)
qed

text \<open>The literal added before rounding is tiny.\<close>

lemma eps12: "dlit (1 / 10 ^ 12) = DFin (rnd (1 / 10 ^ 12))" "0 < rnd (1 / 10 ^ 12)" "rnd (1 / 10 ^ 12) \<le> 1 / 2 ^ 39"
proof -
  have "round_double False (1 / 10 ^ 12) = DFin (rnd (1 / 10 ^ 12))" by (rule round_double_mid(1)) simp_all
  then show "dlit (1 / 10 ^ 12) = DFin (rnd (1 / 10 ^ 12))" by (simp add: dlit_def)
  have "\<bar>rnd (1 / 10 ^ 12) - 1 / 10 ^ 12\<bar> \<le> \<bar>1 / 10 ^ 12 :: rat\<bar> / 2 ^ 53" by (rule round_double_mid(2)) simp_all
  then show "0 < rnd (1 / 10 ^ 12)" "rnd (1 / 10 ^ 12) \<le> 1 / 2 ^ 39" by (simp_all add: abs_if split: if_splits)
qed

lemma kMax_eq: "kMax = DFin (2 ^ 63)"
proof -
  have "rnd_pos (of_int int64_max) = of_int (2 ^ 53) * pow2 (62 - 52)"
    by (rule rnd_pos_eqI) (simp_all add: int64_max_def power_int_def)
  then have "rnd (of_int int64_max) = 2 ^ 63" by (simp add: rnd_def int64_max_def power_int_def)
  moreover have "round_double False (of_int int64_max) = DFin (rnd (of_int int64_max))"
    using pow2_big by (intro round_double_range(1)) (auto simp: int64_max_def intro: order_trans [OF pow2_small])
  ultimately show ?thesis by (simp add: kMax_def double_of_int_def)
qed

section \<open>Quantization\<close>

text \<open>A quotient within relative distance 2^-51 of an integer is quantized to it.\<close>

lemma quantize_near:
  assumes t: "0 < t" and n: "1 \<le> n" "n \<le> 2 ^ 48" and y: "\<bar>x / t - of_int n\<bar> \<le> of_int n / 2 ^ 51" and x: "0 < x"
  shows "quantizeTicks (DFin x) (DFin t) = Some n"
proof -
  define y where "y = x / t"
  define N where "N = (of_int n :: rat)"
  have N: "1 \<le> N" "N \<le> 2 ^ 48" using n unfolding N_def by simp_all
  have yb: "\<bar>y - N\<bar> \<le> N / 2 ^ 51" using y by (simp add: y_def N_def)
  have yN: "y \<le> N + N / 2 ^ 51" "N - N / 2 ^ 51 \<le> y" using yb by linarith+
  have y1: "1 / 2 \<le> y" "y \<le> 2 ^ 49" using yN N by simp_all
  have q: "ddiv (DFin x) (DFin t) = DFin (rnd y)" and qe: "\<bar>rnd y - y\<bar> \<le> y / 2 ^ 53"
    using round_double_mid(1) [of y "(x < 0) \<noteq> (t < 0)"] round_double_mid(2) [of y] y1 x t by (simp_all add: y_def)
  define q where "q = rnd y"
  have qy: "q - y \<le> y / 2 ^ 53" "y - q \<le> y / 2 ^ 53" using qe unfolding q_def by linarith+
  have qb: "q - N \<le> 1 / 8 + 1 / 16 + 1 / 2 ^ 50" "N - q \<le> 1 / 8 + 1 / 16 + 1 / 2 ^ 50" using qy yN N by simp_all
  define c where "c = rnd (1 / 10 ^ 12)"
  have q0: "0 < q" "q \<le> 2 ^ 49" using qb N by simp_all
  have cs: "copysign (dlit (1 / 10 ^ 12)) (DFin q) = DFin c"
    using q0 eps12 by (simp add: copysign_def c_def)
  have cb: "0 < c" "c \<le> 1 / 2 ^ 39" using eps12 by (simp_all add: c_def)
  have qc: "q + c - N \<le> 1 / 4" "N - (q + c) \<le> 1 / 4" "1 / 2 \<le> q + c" "q + c \<le> 2 ^ 49" using qb cb N by simp_all
  have w: "dadd (DFin q) (DFin c) = DFin (rnd (q + c))" and we: "\<bar>rnd (q + c) - (q + c)\<bar> \<le> (q + c) / 2 ^ 53"
    using round_double_mid(1) [of "q + c" False] round_double_mid(2) [of "q + c"] qc by simp_all
  have "rnd (q + c) - (q + c) \<le> (q + c) / 2 ^ 53" "(q + c) - rnd (q + c) \<le> (q + c) / 2 ^ 53" using we by linarith+
  then have "rnd (q + c) - N < 1 / 2" "N - rnd (q + c) < 1 / 2" using qc by simp_all
  then have wn: "\<bar>rnd (q + c) - of_int n\<bar> < 1 / 2" unfolding N_def [symmetric] by linarith
  then have "llround (DFin (rnd (q + c))) = Some n"
    using n by (simp add: llround_def isfinite_def round_away_near int64_min_def int64_max_def)
  moreover have "\<not> dlt kMax (DFin q)" "\<not> dlt (DFin q) (dminus kMax)" using q0 by (simp_all add: kMax_eq)
  ultimately show ?thesis using t q w cs by (simp add: quantizeTicks_def dle_def Let_def q_def [symmetric])
qed

text \<open>The tolerance of \<open>validatePrice\<close>.\<close>

lemma tol8: "dlit (1 / 10 ^ 8) = DFin (rnd (1 / 10 ^ 8))" "5 / 2 ^ 29 \<le> rnd (1 / 10 ^ 8)"
proof -
  have "round_double False (1 / 10 ^ 8) = DFin (rnd (1 / 10 ^ 8))" by (rule round_double_mid(1)) simp_all
  then show "dlit (1 / 10 ^ 8) = DFin (rnd (1 / 10 ^ 8))" by (simp add: dlit_def)
  have "\<bar>rnd (1 / 10 ^ 8) - 1 / 10 ^ 8\<bar> \<le> \<bar>1 / 10 ^ 8 :: rat\<bar> / 2 ^ 53" by (rule round_double_mid(2)) simp_all
  then show "5 / 2 ^ 29 \<le> rnd (1 / 10 ^ 8)" by (simp add: abs_if split: if_splits)
qed

lemma rnd_small:
  assumes "\<bar>d\<bar> \<le> 1 / 2 ^ 27"
  shows "dlt (dabs (round_double z d)) (dlit (1 / 10 ^ 8))"
proof -
  have r: "representable (1 / 2 ^ 27)" using representable_pow2 [of "- 27"] by (simp add: power_int_minus field_simps)
  have b: "- (1 / 2 ^ 27) \<le> d" "d \<le> 1 / 2 ^ 27" using assms by linarith+
  have "- (1 / 2 ^ 27) \<le> rnd d \<and> rnd d \<le> 1 / 2 ^ 27"
    by (rule rnd.between [OF representable_uminus [OF r] r b])
  then have d: "\<bar>rnd d\<bar> \<le> 1 / 2 ^ 27" by linarith
  then have "\<bar>rnd d\<bar> < 2 ^ 1024" using pow2_big by (simp add: abs_le_iff)
  then show ?thesis using d tol8 by (auto simp: round_double_def Let_def)
qed

lemma validate_near:
  assumes t: "getTickSize s m = DFin t" "0 < t" and n: "1 \<le> n" "n \<le> 2 ^ 23"
    and y: "\<bar>x / t - of_int n\<bar> \<le> of_int n / 2 ^ 51" and x: "0 < x"
  shows "validatePrice s (DFin x) m"
proof -
  define y where "y = x / t"
  define N where "N = (of_int n :: rat)"
  have N: "1 \<le> N" "N \<le> 2 ^ 23" using n unfolding N_def by simp_all
  have yb: "\<bar>y - N\<bar> \<le> N / 2 ^ 51" using y by (simp add: y_def N_def)
  have yN: "y \<le> N + N / 2 ^ 51" "N - N / 2 ^ 51 \<le> y" using yb by linarith+
  have y1: "1 / 2 \<le> y" "y \<le> 2 ^ 24" using yN N by simp_all
  have q: "ddiv (DFin x) (DFin t) = DFin (rnd y)" and qe: "\<bar>rnd y - y\<bar> \<le> y / 2 ^ 53"
    using round_double_mid(1) [of y "(x < 0) \<noteq> (t < 0)"] round_double_mid(2) [of y] y1 x t by (simp_all add: y_def)
  define q where "q = rnd y"
  have qy: "q - y \<le> y / 2 ^ 53" "y - q \<le> y / 2 ^ 53" using qe unfolding q_def by linarith+
  have qb: "\<bar>q - N\<bar> \<le> 1 / 2 ^ 27" by (rule abs_leI) (use qy yN N in simp_all)
  then have "round_away q = n" by (intro round_away_near) (simp add: N_def)
  then have r: "dround (DFin q) = DFin N" using n by (simp add: N_def Let_def)
  have "dsub (DFin q) (DFin N) = round_double False (q - N)" by (simp add: dsub_def)
  then show ?thesis using x q t r rnd_small [OF qb, of False]
    by (simp add: validatePrice_def Let_def q_def [symmetric])
qed

section \<open>Theorems\<close>

lemma default_tick: "kDefaultTick = DFin (rnd (1 / 10000))" "\<bar>rnd (1 / 10000) - 1 / 10000\<bar> \<le> 1 / 10000 / 2 ^ 53"
proof -
  have "round_double False (1 / 10000) = DFin (rnd (1 / 10000))" by (rule round_double_mid(1)) simp_all
  then show "kDefaultTick = DFin (rnd (1 / 10000))" by (simp add: kDefaultTick_def dlit_def)
  have "\<bar>rnd (1 / 10000) - 1 / 10000\<bar> \<le> \<bar>1 / 10000 :: rat\<bar> / 2 ^ 53" by (rule round_double_mid(2)) simp_all
  then show "\<bar>rnd (1 / 10000) - 1 / 10000\<bar> \<le> 1 / 10000 / 2 ^ 53" by simp
qed

lemma default_tick_bounds:
  "rnd (1 / 10000) \<le> 1 / 10000 + 1 / 10000 / 2 ^ 53" "1 / 10000 - 1 / 10000 / 2 ^ 53 \<le> rnd (1 / 10000)"
  using default_tick(2) by linarith+

text \<open>The quotient of a four-decimal price by the default tick.\<close>

lemma decimal_quotient:
  assumes n: "1 \<le> n" "n \<le> 2 ^ 48"
  shows "dlit (of_int n / 10000) = DFin (rnd (of_int n / 10000))" and "0 < rnd (of_int n / 10000)"
    and "\<bar>rnd (of_int n / 10000) / rnd (1 / 10000) - of_int n\<bar> \<le> of_int n / 2 ^ 51"
proof -
  define N where "N = (of_int n :: rat)"
  have N: "1 \<le> N" "N \<le> 2 ^ 48" using n unfolding N_def by simp_all
  have m: "round_double False (N / 10000) = DFin (rnd (N / 10000))" "\<bar>rnd (N / 10000) - N / 10000\<bar> \<le> \<bar>N / 10000\<bar> / 2 ^ 53"
    using N by (intro round_double_mid; simp)+
  then show "dlit (of_int n / 10000) = DFin (rnd (of_int n / 10000))" by (simp add: dlit_def N_def)
  define x where "x = rnd (N / 10000)"
  define t where "t = rnd (1 / 10000)"
  have "x - N / 10000 \<le> N / 10000 / 2 ^ 53" "N / 10000 - x \<le> N / 10000 / 2 ^ 53"
    using m(2) N unfolding x_def by linarith+
  then have xb: "x \<le> N / 10000 * (1 + 1 / 2 ^ 53)" "N / 10000 * (1 - 1 / 2 ^ 53) \<le> x" by simp_all
  have tb: "t \<le> 1 / 10000 * (1 + 1 / 2 ^ 53)" "1 / 10000 * (1 - 1 / 2 ^ 53) \<le> t"
    using default_tick_bounds unfolding t_def by simp_all
  have t0: "0 < t" using tb(2) by simp
  have x0: "0 < x" using xb(2) N by simp
  then show "0 < rnd (of_int n / 10000)" by (simp add: x_def N_def)
  have "N * (1 + 1 / 2 ^ 51) * (1 / 10000 * (1 - 1 / 2 ^ 53)) \<le> N * (1 + 1 / 2 ^ 51) * t"
    using tb(2) N by (intro mult_left_mono) simp_all
  moreover have "N * (1 - 1 / 2 ^ 51) * t \<le> N * (1 - 1 / 2 ^ 51) * (1 / 10000 * (1 + 1 / 2 ^ 53))"
    using tb(1) N by (intro mult_left_mono) simp_all
  moreover have "N / 10000 * (1 + 1 / 2 ^ 53) \<le> N * (1 + 1 / 2 ^ 51) * (1 / 10000 * (1 - 1 / 2 ^ 53))"
    "N * (1 - 1 / 2 ^ 51) * (1 / 10000 * (1 + 1 / 2 ^ 53)) \<le> N / 10000 * (1 - 1 / 2 ^ 53)" using N by simp_all
  ultimately have "x \<le> N * (1 + 1 / 2 ^ 51) * t" "N * (1 - 1 / 2 ^ 51) * t \<le> x" using xb by (blast intro: order_trans)+
  then have "x / t \<le> N * (1 + 1 / 2 ^ 51)" "N * (1 - 1 / 2 ^ 51) \<le> x / t"
    using t0 by (simp_all add: pos_divide_le_eq pos_le_divide_eq)
  moreover define r where "r = x / t"
  ultimately have "r \<le> N * (1 + 1 / 2 ^ 51)" "N * (1 - 1 / 2 ^ 51) \<le> r" by simp_all
  then have "\<bar>r - N\<bar> \<le> N / 2 ^ 51" by (intro abs_leI) simp_all
  then have "\<bar>x / t - N\<bar> \<le> N / 2 ^ 51" by (simp only: r_def)
  then show "\<bar>rnd (of_int n / 10000) / rnd (1 / 10000) - of_int n\<bar> \<le> of_int n / 2 ^ 51"
    by (simp add: x_def t_def N_def)
qed



end
