(* ===== verification/Manager_Edges.thy ===== *)
theory Manager_Edges
  imports Book_Delta Tick_Quantization
begin

text \<open>
  The venue-key cache and the price grid seen through the manager, and the behaviours at the edge
  of the manager's contract: what the delta stream leaves out and what a venue-key add does on a
  stale symbol.
\<close>

section \<open>The venue-key cache\<close>

definition cache_of :: "string \<Rightarrow> OrderBookManager \<Rightarrow> Lru" where
  "cache_of s m = (case map_of (resolver m) s of None \<Rightarrow> Lru_init | Some l \<Rightarrow> l)"

lemma cache_of_ok: "mgr_inv m \<Longrightarrow> lru_ok (cache_of s m)"
  by (auto simp: cache_of_def lru_init_ok split: option.split dest: mgr_invD(4))

lemma resolverGet_cache: "resolverGet s v m = lru_cget v (cache_of s m)"
  by (auto simp: resolverGet_def cache_of_def lru_cget_def Lru_init_def split: option.split)

lemma resolverPut_cache:
  "resolverPut s v k m = Some m' \<Longrightarrow> \<exists>l'. lru_put v k (cache_of s m) = Some l' \<and> cache_of s m' = l' \<and>
     (\<forall>s'. s' \<noteq> s \<longrightarrow> cache_of s' m' = cache_of s' m)"
  by (auto simp: resolverPut_def Let_def cache_of_def umap_simps split: option.splits)

text \<open>After a venue key is stored it resolves to the stored order key; every other venue key of
  the symbol keeps its value or is forgotten, is kept as long as the cache is not full, and the
  caches of other symbols do not change.\<close>

theorem resolver_roundtrip:
  assumes "mgr_inv m" and "resolverPut s v k m = Some m'"
  shows "resolverGet s v m' = Some (Some k) \<and>
    (\<forall>w. w \<noteq> v \<longrightarrow> (resolverGet s w m' = resolverGet s w m \<or> resolverGet s w m' = Some None) \<and>
       (length (lru_view (cache_of s m)) < unat (lru_cap (cache_of s m)) \<longrightarrow> resolverGet s w m' = resolverGet s w m)) \<and>
    (\<forall>t w. t \<noteq> s \<longrightarrow> resolverGet t w m' = resolverGet t w m)"
proof -
  note ok = cache_of_ok [OF assms(1), of s]
  obtain l' where l': "lru_put v k (cache_of s m) = Some l'" "cache_of s m' = l'"
    "\<forall>s'. s' \<noteq> s \<longrightarrow> cache_of s' m' = cache_of s' m" using resolverPut_cache [OF assms(2)] by blast
  show ?thesis unfolding resolverGet_cache l'(2)
    using lru.get_put_same [OF ok l'(1)] lru.get_put_other [OF ok l'(1)] lru.get_put_room [OF ok l'(1)] l'(3) by simp
qed

theorem resolver_roundtrip_witness:
  "\<exists>m'. resolverPut ''X'' ''v'' demo_key demo_live = Some m' \<and> resolverGet ''X'' ''v'' m' = Some (Some demo_key)"
proof -
  obtain m' where m': "resolverPut ''X'' ''v'' demo_key demo_live = Some m'" using resolverPut_total [OF demo_live_inv] by blast
  from resolver_roundtrip [OF demo_live_inv m'] m' show ?thesis by blast
qed

text \<open>An add with a venue key on a stale symbol: with a non-zero feed scope it reports success and
  binds the venue key to a key that names no order.\<close>

lemma stale_venue_add_binds:
  assumes "mgr_inv m" and "isStale s m" and "fs_feedId sc \<noteq> 0 \<or> fs_epoch sc \<noteq> 0"
  shows "\<exists>m'. onAddWithVenueKey s v i sd px z pr sc miss m = Some (True, m') \<and> books m' = books m \<and>
    resolverGet s v m' = Some (Some \<lparr> k_id = 0, k_feedId = fs_feedId sc, k_epoch = fs_epoch sc, k_synthetic = True \<rparr>)"
proof -
  let ?k = "\<lparr> k_id = 0, k_feedId = fs_feedId sc, k_epoch = fs_epoch sc, k_synthetic = True \<rparr>"
  have inv: "mgr_inv (incDroppedStale m)" using assms(1) by (rule mgr_inv_frame) (simp_all add: mgr_frame)
  obtain m' where m': "resolverPut s v ?k (incDroppedStale m) = Some m'" using resolverPut_total [OF inv] by blast
  obtain l' where l': "lru_put v ?k (cache_of s (incDroppedStale m)) = Some l'" "cache_of s m' = l'"
    using resolverPut_cache [OF m'] by blast
  have "resolverGet s v m' = Some (Some ?k)"
    unfolding resolverGet_cache l'(2) by (rule lru.get_put_same [OF cache_of_ok [OF inv] l'(1)])
  moreover have "books m' = books m" using m' by (auto simp: resolverPut_def Let_def mgr_frame split: option.splits)
  moreover have "gate s m" using assms(2) by (simp add: isStale_def gate_def)
  ultimately show ?thesis using assms(3) m' by (auto simp: onAddWithVenueKey_def onAddGetKey_def)
qed

section \<open>What the delta stream leaves out\<close>

text \<open>A level summary changes the aggregated ladder only, and the probes look at the per-order
  ladder only, so no delta is ever published for it.\<close>

lemma summary_ladders:
  "bids (snd (applyLevelSummary sd p t c b)) = bids b" "asks (snd (applyLevelSummary sd p t c b)) = asks b"
proof -
  have put: "bids (set_ladderAgg s l b) = bids b" "asks (set_ladderAgg s l b) = asks b" for s l b by (cases s; simp)+
  have new: "bids b1 = bids b" "asks b1 = asks b" if "getOrCreateAggLevel s q b = (l, b1)" for s q l b1
    using that by (auto simp: getOrCreateAggLevel_def putAggLevel_def Let_def put split: option.splits)
  show "bids (snd (applyLevelSummary sd p t c b)) = bids b" "asks (snd (applyLevelSummary sd p t c b)) = asks b"
    by (simp_all add: applyLevelSummary_def putAggLevel_def put new split: prod.split)
qed

lemma levelSummary_silent:
  assumes "onLevelSummary s sd px t c m = Some (r, m')"
  shows "delivered m' = delivered m"
proof (cases "gate s m \<or> \<not> validatePrice s px m")
  case True
  then show ?thesis using assms by (auto simp: onLevelSummary_def mgr_frame split: if_splits)
next
  case False
  obtain p where mu: "result (mutateWithDelta s [(sd, p)] (\<lambda>b. plain (Some (applyLevelSummary sd p t c b))) (incSummaries m)) = Some (r, m')"
    using assms False by (auto simp: onLevelSummary_def split: option.splits)
  obtain b m1 where g: "getOrCreateBook s (incSummaries m) = (b, m1)" by fastforce
  obtain ch b' where a: "applyLevelSummary sd p t c b = (ch, b')" by fastforce
  have lad: "bids b' = bids b" "asks b' = asks b" using summary_ladders [of sd p t c b] a by simp_all
  have tob: "tobDelta (bestBid b) (bestBidSize b) (bestBid b') (bestBidSize b') = None"
    "tobDelta (bestAsk b) (bestAskSize b) (bestAsk b') (bestAskSize b') = None"
    using lad by (simp_all add: tobDelta_def bestBid_def bestBidSize_def bestAsk_def bestAskSize_def split: option.split)
  have "levelSize s' p' b' = levelSize s' p' b" for s' p' using sizes_D [OF summary_sizes [of sd p t c b]] a by simp
  then have "levelDeltas (addProbes [(sd, p)] b []) b' = []" by (simp add: levelDeltas_def)
  then have "m' = putBook s b' m1" using mu g a tob
    by (auto simp: mutateWithDelta_def result_def plain_def maybePublishDelta_def Let_def split: if_splits)
  then show ?thesis using getOrCreateBook_frame [OF g] by (simp add: mgr_frame)
qed

text \<open>Deleting the last bid: the published delta says nothing of the top of the bid side, although
  the best bid changed.\<close>

lemma emptied_side_not_in_delta:
  "case mgr_exec Bid (MDelete ''X'' demo_key) demo_live of
     None \<Rightarrow> False
   | Some m \<Rightarrow> bestBid (book_of ''X'' demo_live) = Some 100 \<and> bestBid (book_of ''X'' m) = None \<and>
       bd_bid (snd (last (delivered m))) = None \<and> bd_ask (snd (last (delivered m))) = None"
  by code_simp

text \<open>An add whose identifier names an order on another level: the order leaves its old level, and
  no delta mentions that level.\<close>

definition demo_tick :: OrderBookManager where
  "demo_tick = setTickSize ''X'' (DFin 1) demo_live"

lemma demo_tick_size: "getTickSize ''X'' demo_tick = DFin 1"
  by (simp add: demo_tick_def setTickSize_def getTickSize_def umap_simps)

lemma demo_tick_ticks: "toTicks ''X'' (DFin 99) demo_tick = Some 99" "validatePrice ''X'' (DFin 99) demo_tick"
  using quantize_near [of 1 99 99] validate_near [OF demo_tick_size, of 99 99] by (simp_all add: toTicks_def demo_tick_size)

lemma demo_add_open:
  "onAdd ''X'' 1 Bid (DFin 99) 10 0 scope0 False demo_tick =
     result (mutateWithDelta ''X'' [(Bid, 99)] (\<lambda>b. plain (applyAddScoped (mkOrder 1 Bid 99 10 0) scope0 False b)) (incAdds demo_tick))"
proof -
  have "\<not> gate ''X'' demo_tick" by code_simp
  moreover have "toTicks ''X'' (DFin 99) (incAdds demo_tick) = Some 99"
    using demo_tick_ticks(1) by (simp add: toTicks_def getTickSize_def incAdds_def)
  ultimately show ?thesis using demo_tick_ticks by (simp add: onAdd_def validateSize_def)
qed

lemma replacing_add_not_in_delta:
  "case onAdd ''X'' 1 Bid (DFin 99) 10 0 scope0 False demo_tick of
     None \<Rightarrow> False
   | Some (_, m) \<Rightarrow> levelSize Bid 100 (book_of ''X'' demo_tick) = 10 \<and> levelSize Bid 100 (book_of ''X'' m) = 0 \<and>
       map (\<lambda>l. (ld_side l, ld_price l)) (bd_levels (snd (last (delivered m)))) = [(Bid, 99)]"
  unfolding demo_add_open by code_simp

section \<open>The price grid\<close>

text \<open>Converting ticks to a price and back gives the same ticks, for every tick size between
  2^-50 and 2^10 and every number of ticks up to 2^48, and the intermediate price is finite.\<close>

theorem ticks_roundtrip:
  assumes "getTickSize s m = DFin t" and "1 / 2 ^ 50 \<le> t" and "t \<le> 2 ^ 10" and "1 \<le> n" and "n \<le> 2 ^ 48"
  shows "isfinite (toDouble s n m) \<and> toTicks s (toDouble s n m) m = Some n"
proof -
  define N where "N = (of_int n :: rat)"
  have N: "1 \<le> N" "N \<le> 2 ^ 48" using assms(4,5) unfolding N_def by simp_all
  have t0: "0 < t" using assms(2) by (rule less_le_trans [rotated]) simp
  have nt: "1 * (1 / 2 ^ 50) \<le> N * t" "N * t \<le> 2 ^ 48 * 2 ^ 10"
    using N assms(2,3) t0 by (intro mult_mono; simp)+
  then have a: "\<bar>N * t\<bar> = N * t" "1 / 2 ^ 60 \<le> \<bar>N * t\<bar>" "\<bar>N * t\<bar> \<le> 2 ^ 60" using t0 N by simp_all
  note r = round_double_mid [OF a(2,3)]
  define x where "x = rnd (N * t)"
  have "representable (of_int n)" using assms(4,5) by (intro representable_int) simp
  then have "double_of_int n = DFin N" using assms(4,5) N
    by (simp add: double_of_int_def round_double_def rnd_exact N_def Let_def)
  then have d: "toDouble s n m = DFin x" using assms(1) N t0 r(1) by (simp add: toDouble_def x_def)
  have xb: "x - N * t \<le> N * t / 2 ^ 53" "N * t - x \<le> N * t / 2 ^ 53" using r(2) a(1) unfolding x_def by linarith+
  then have x0: "0 < x" using nt by simp
  have "x \<le> (N + N / 2 ^ 53) * t" "(N - N / 2 ^ 53) * t \<le> x" using xb by (simp_all add: algebra_simps)
  then have "x / t \<le> N + N / 2 ^ 53" "N - N / 2 ^ 53 \<le> x / t" using t0 by (simp_all add: pos_divide_le_eq pos_le_divide_eq)
  moreover define y where "y = x / t"
  ultimately have "\<bar>y - N\<bar> \<le> N / 2 ^ 51" using N by (intro abs_leI) simp_all
  then have "\<bar>x / t - of_int n\<bar> \<le> of_int n / 2 ^ 51" by (simp add: y_def N_def)
  from quantize_near [OF t0 assms(4,5) this x0] show ?thesis by (simp add: toTicks_def d assms(1) isfinite_def)
qed

theorem ticks_roundtrip_witness:
  "isfinite (toDouble ''X'' 1502500 demo_tick) \<and> toTicks ''X'' (toDouble ''X'' 1502500 demo_tick) demo_tick = Some 1502500"
  using ticks_roundtrip [OF demo_tick_size, of 1502500] by simp

text \<open>The tolerance of price validation is absolute while the error of the quotient grows with the
  price: the four-decimal price 6710.9067 is refused under the default tick.\<close>

lemma rnd_pos_val: "0 < x \<Longrightarrow> rnd x = rnd_pos x"
  by (simp add: rnd_def)

lemma high_price_refused:
  "\<not> validatePrice ''X'' (dlit (67109067 / 10000)) OrderBookManager_init"
proof -
  have x: "rnd (67109067 / 10000) = 7378719949569864 / 2 ^ 40"
    using rnd_pos_eqI [of 12 "67109067 / 10000" 7378719949569864] by (simp add: rnd_pos_val power_int_def power_one_over)
  have t: "rnd (1 / 10000) = 7378697629483821 / 2 ^ 66"
    using rnd_pos_eqI [of "- 14" "1 / 10000" 7378697629483821] by (simp add: rnd_pos_val power_int_def power_one_over)
  define y where "y = (7378719949569864 / 2 ^ 40) / (7378697629483821 / 2 ^ 66 :: rat)"
  have q: "rnd y = 4503613250469887 / 2 ^ 26"
    using rnd_pos_eqI [of 26 y 4503613250469887] by (simp add: rnd_pos_val power_int_def power_one_over y_def)
  have px: "dlit (67109067 / 10000) = DFin (7378719949569864 / 2 ^ 40)"
    using round_double_mid(1) [of "67109067 / 10000" False] x by (simp add: dlit_def)
  have tk: "getTickSize ''X'' OrderBookManager_init = DFin (7378697629483821 / 2 ^ 66)"
    using default_tick(1) t by (simp add: getTickSize_def OrderBookManager_init_def)
  have dq: "ddiv (DFin (7378719949569864 / 2 ^ 40)) (DFin (7378697629483821 / 2 ^ 66)) = DFin (4503613250469887 / 2 ^ 26)"
    using round_double_mid(1) [of y False] q by (simp add: y_def)
  define X T Q where XTQ: "X = (7378719949569864 / 2 ^ 40 :: rat)" "T = (7378697629483821 / 2 ^ 66 :: rat)"
    "Q = (4503613250469887 / 2 ^ 26 :: rat)"
  have ra: "round_away (4503613250469887 / 2 ^ 26) = 67109067" by (rule round_away_near) simp
  have rn: "rnd (- (1 / 2 ^ 26)) = - (1 / 2 ^ 26)"
    using rnd_exact [OF representable_uminus [OF representable_pow2 [of "- 26"]]] by (simp add: power_int_minus field_simps)
  have "dsub (DFin Q) (DFin 67109067) = DFin (- (1 / 2 ^ 26))"
    using round_double_mid(1) [of "- (1 / 2 ^ 26)" False] rn by (simp add: dsub_def XTQ)
  moreover have "rnd (1 / 10 ^ 8) \<le> 1 / 2 ^ 26"
    using rnd_mono [of "1 / 10 ^ 8" "1 / 2 ^ 26"] rn by (simp add: rnd_uminus)
  moreover have "0 < X" "dround (DFin Q) = DFin 67109067" using ra by (simp_all add: XTQ Let_def)
  ultimately show ?thesis using tol8(1)
    by (simp add: validatePrice_def px [folded XTQ] tk [folded XTQ] dq [folded XTQ] XTQ(3) [symmetric] Let_def del: ddiv.simps)
qed

end
