(* ===== verification/C_Library.thy ===== *)
theory C_Library
  imports Ieee_Double
begin

text \<open>
  The functions of the C library that the sources use on strings: \<^verbatim>\<open>strtol\<close> (base 10), \<^verbatim>\<open>atoi\<close>,
  \<^verbatim>\<open>strtod\<close>, \<^verbatim>\<open>tolower\<close> and the truncation of a string at its first NUL when it passes through
  a \<^verbatim>\<open>const char*\<close>, in the C locale. A conversion returns the value and the rest of the string,
  where the C function stores \<^verbatim>\<open>endptr\<close>.
\<close>

section \<open>Characters\<close>

definition c_str :: "string \<Rightarrow> string" where
  "c_str s = takeWhile (\<lambda>c. c \<noteq> CHR 0x00) s"

definition isspace :: "char \<Rightarrow> bool" where
  "isspace c \<longleftrightarrow> c \<in> {CHR '' '', CHR 0x09, CHR 0x0A, CHR 0x0B, CHR 0x0C, CHR 0x0D}"

definition char_code :: "char \<Rightarrow> nat" where
  "char_code c = of_char c"

definition isdigit :: "char \<Rightarrow> bool" where
  "isdigit c \<longleftrightarrow> 48 \<le> char_code c \<and> char_code c \<le> 57"

definition tolower :: "char \<Rightarrow> char" where
  "tolower c = (if 65 \<le> char_code c \<and> char_code c \<le> 90 then char_of (char_code c + 32) else c)"

text \<open>The value of a digit in a base up to 16.\<close>

definition digit_val :: "char \<Rightarrow> nat" where
  "digit_val c = (let n = char_code (tolower c) in if isdigit c then n - 48 else if 97 \<le> n \<and> n \<le> 102 then n - 87 else 99)"

definition is_digit :: "nat \<Rightarrow> char \<Rightarrow> bool" where
  "is_digit b c \<longleftrightarrow> digit_val c < b"

fun digits_val :: "nat \<Rightarrow> nat \<Rightarrow> string \<Rightarrow> nat" where
  "digits_val b n [] = n"
| "digits_val b n (c # cs) = digits_val b (n * b + digit_val c) cs"

fun take_sign :: "string \<Rightarrow> bool \<times> string" where
  "take_sign (c # cs) = (if c = CHR ''-'' then (True, cs) else if c = CHR ''+'' then (False, cs) else (False, c # cs))"
| "take_sign [] = (False, [])"

section \<open>Integers\<close>

definition long_min :: int where "long_min = - (2 ^ 63)"
definition long_max :: int where "long_max = 2 ^ 63 - 1"

definition strtol :: "string \<Rightarrow> int \<times> string" where
  "strtol s = (case take_sign (dropWhile isspace s) of (neg, r) \<Rightarrow>
     let ds = takeWhile isdigit r; v = int (digits_val 10 0 ds); w = (if neg then - v else v)
     in if ds = [] then (0, s) else (max long_min (min long_max w), dropWhile isdigit r))"

text \<open>\<^verbatim>\<open>atoi\<close>; the standard gives no result when the value is out of the range of \<^verbatim>\<open>int\<close>.\<close>

definition int_min :: int where "int_min = - (2 ^ 31)"
definition int_max :: int where "int_max = 2 ^ 31 - 1"

definition atoi :: "string \<Rightarrow> int option" where
  "atoi s = (case take_sign (dropWhile isspace s) of (neg, r) \<Rightarrow>
     let v = int (digits_val 10 0 (takeWhile isdigit r)); w = (if neg then - v else v)
     in if int_min \<le> w \<and> w \<le> int_max then Some w else None)"

section \<open>Floating point\<close>

text \<open>Digits with an optional point, at least one digit.\<close>

definition mantissa :: "nat \<Rightarrow> string \<Rightarrow> (rat \<times> string) option" where
  "mantissa b s = (let ds = takeWhile (is_digit b) s; r = dropWhile (is_digit b) s;
       pt = (case r of [] \<Rightarrow> False | c # _ \<Rightarrow> c = CHR ''.'');
       fs = (if pt then takeWhile (is_digit b) (tl r) else []);
       r2 = (if pt then dropWhile (is_digit b) (tl r) else r)
     in if ds = [] \<and> fs = [] then None
        else Some (of_nat (digits_val b 0 (ds @ fs)) / of_nat (b ^ length fs), r2))"

text \<open>An optional exponent introduced by \<open>m\<close>; nothing is consumed unless it has a digit.\<close>

definition exponent :: "char \<Rightarrow> string \<Rightarrow> int \<times> string" where
  "exponent m s = (case s of [] \<Rightarrow> (0, s) | c # cs \<Rightarrow>
     if tolower c \<noteq> m then (0, s)
     else (case take_sign cs of (neg, r) \<Rightarrow>
       let ds = takeWhile isdigit r; v = int (digits_val 10 0 ds)
       in if ds = [] then (0, s) else (if neg then - v else v, dropWhile isdigit r)))"

definition starts_with :: "string \<Rightarrow> string \<Rightarrow> bool" where
  "starts_with p s \<longleftrightarrow> map tolower (take (length p) s) = p"

definition nan_tail :: "string \<Rightarrow> string" where
  "nan_tail r = (case r of [] \<Rightarrow> r | c # cs \<Rightarrow>
     if c \<noteq> CHR ''('' then r
     else (case dropWhile (\<lambda>c. isdigit c \<or> (97 \<le> char_code (tolower c) \<and> char_code (tolower c) \<le> 122) \<or> c = CHR ''_'') cs of
         [] \<Rightarrow> r
       | d # ds \<Rightarrow> if d = CHR '')'' then ds else r))"

definition strtod :: "string \<Rightarrow> double \<times> string" where
  "strtod s = (case take_sign (dropWhile isspace s) of (neg, r) \<Rightarrow>
     if starts_with ''infinity'' r then (DInf neg, drop 8 r)
     else if starts_with ''inf'' r then (DInf neg, drop 3 r)
     else if starts_with ''nan'' r then (DNaN, nan_tail (drop 3 r))
     else (case (if starts_with ''0x'' r then mantissa 16 (drop 2 r) else None) of
         Some (v, r2) \<Rightarrow> (case exponent (CHR ''p'') r2 of (e, r3) \<Rightarrow>
           (round_double neg ((if neg then - v else v) * power_int 2 e), r3))
       | None \<Rightarrow> (case mantissa 10 r of
           Some (v, r2) \<Rightarrow> (case exponent (CHR ''e'') r2 of (e, r3) \<Rightarrow>
             (round_double neg ((if neg then - v else v) * power_int 10 e), r3))
         | None \<Rightarrow> (DZero False, s))))"

end
