(* ===== verification/Json_Dom.thy ===== *)
theory Json_Dom
  imports C_Library
begin

text \<open>
  JSON documents as the sources see them through the RapidJSON DOM interface: a document is a
  value of \<open>json\<close>, and the interface is the type tests, the typed getters and member lookup. Parsing
  is not modelled: the functions that parse a message take the parser as an argument. A typed
  getter called on a value of another type is a violated precondition of the interface
  (\<^verbatim>\<open>RAPIDJSON_ASSERT\<close>) and returns \<^const>\<open>None\<close>.
\<close>

datatype json =
    JNull
  | JBool bool
  | JInt int
  | JDouble double
  | JString string
  | JArray "json list"
  | JObject "(string \<times> json) list"

text \<open>The integers a document can hold: those of \<^verbatim>\<open>int64_t\<close> and \<^verbatim>\<open>uint64_t\<close>.\<close>

fun json_wf :: "json \<Rightarrow> bool" where
  "json_wf (JInt n) \<longleftrightarrow> - (2 ^ 63) \<le> n \<and> n < 2 ^ 64"
| "json_wf (JArray xs) \<longleftrightarrow> list_all json_wf xs"
| "json_wf (JObject ms) \<longleftrightarrow> list_all (\<lambda>m. json_wf (snd m)) ms"
| "json_wf _ \<longleftrightarrow> True"

fun IsObject :: "json \<Rightarrow> bool" where
  "IsObject (JObject _) = True"
| "IsObject _ = False"

fun IsArray :: "json \<Rightarrow> bool" where
  "IsArray (JArray _) = True"
| "IsArray _ = False"

fun IsString :: "json \<Rightarrow> bool" where
  "IsString (JString _) = True"
| "IsString _ = False"

fun IsNumber :: "json \<Rightarrow> bool" where
  "IsNumber (JInt _) = True"
| "IsNumber (JDouble _) = True"
| "IsNumber _ = False"

fun members :: "json \<Rightarrow> (string \<times> json) list" where
  "members (JObject ms) = ms"
| "members _ = []"

fun elements :: "json \<Rightarrow> json list" where
  "elements (JArray xs) = xs"
| "elements _ = []"

text \<open>\<^verbatim>\<open>v.HasMember(k)\<close> and \<^verbatim>\<open>v[k]\<close>: the first member with the name.\<close>

definition member :: "string \<Rightarrow> json \<Rightarrow> json option" where
  "member k v = map_of (members v) k"

definition HasMember :: "string \<Rightarrow> json \<Rightarrow> bool" where
  "HasMember k v \<longleftrightarrow> member k v \<noteq> None"

text \<open>\<^verbatim>\<open>GetString\<close>, used as a C string.\<close>

fun GetString :: "json \<Rightarrow> string option" where
  "GetString (JString s) = Some (c_str s)"
| "GetString _ = None"

fun GetInt :: "json \<Rightarrow> int option" where
  "GetInt (JInt n) = (if int_min \<le> n \<and> n \<le> int_max then Some n else None)"
| "GetInt _ = None"

fun GetUint :: "json \<Rightarrow> u32 option" where
  "GetUint (JInt n) = (if 0 \<le> n \<and> n < 2 ^ 32 then Some (word_of_int n) else None)"
| "GetUint _ = None"

fun GetUint64 :: "json \<Rightarrow> u64 option" where
  "GetUint64 (JInt n) = (if 0 \<le> n \<and> n < 2 ^ 64 then Some (word_of_int n) else None)"
| "GetUint64 _ = None"

fun GetDouble :: "json \<Rightarrow> double option" where
  "GetDouble (JInt n) = Some (double_of_int n)"
| "GetDouble (JDouble d) = Some d"
| "GetDouble _ = None"

lemma GetDouble_number: "IsNumber v \<Longrightarrow> \<exists>d. GetDouble v = Some d"
  by (cases v) auto

lemma elements_size: "w \<in> set (elements v) \<Longrightarrow> size w < size v"
  by (cases v) (auto dest: size_list_estimation' [of _ _ _ size])

lemma members_size: "(k, w) \<in> set (members v) \<Longrightarrow> size w < size v"
proof (cases v)
  case (JObject ms)
  assume "(k, w) \<in> set (members v)"
  then have "(k, w) \<in> set ms" by (simp add: JObject)
  from size_list_estimation' [OF this, of "size w" "size_prod (\<lambda>x. 0) size"]
  show ?thesis by (simp add: JObject)
qed simp_all

lemma member_size: "member k v = Some w \<Longrightarrow> size w < size v"
  unfolding member_def by (rule members_size) (rule map_of_SomeD)

end
