(* ===== verification/Itch_Adapter.thy ===== *)
theory Itch_Adapter
  imports Json_Dom Order_Book
begin

text \<open>
  The feed events (\<^verbatim>\<open>feed/FeedEvent.hpp\<close>) and the adapter that translates the JSON form of the
  NASDAQ ITCH protocol into them (\<^verbatim>\<open>feed/ItchAdapter.cpp\<close>). A handler returns the events it
  appends and the new state of the adapter; \<^const>\<open>None\<close> stands for a typed getter called on a
  number of another type, which the type checks of the code do not exclude. Metrics and log lines
  are left out.
\<close>

section \<open>Data\<close>

datatype FeedEvent =
    TickEvent string json u64
  | ObAddEvent string u64 Side double u64 u64
  | ObUpdateEvent string u64 "double option" "u64 option"
  | ObDeleteEvent string u64
  | ObTradeEvent string double u64 Aggressor u64
  | ObTickSizeEvent string double
  | ObResetEvent string u32

record OrderState =
  os_symbol :: string
  os_remainingShares :: u64
  os_side :: Side
  os_price :: double

record ItchAdapter =
  locateToSymbol :: "(int, string) umap"
  live_orders :: "(u64, OrderState) umap"

definition ItchAdapter_init :: ItchAdapter where
  "ItchAdapter_init = \<lparr> locateToSymbol = [], live_orders = [] \<rparr>"

type_synonym route = "json \<Rightarrow> ItchAdapter \<Rightarrow> (FeedEvent list \<times> ItchAdapter) option"

section \<open>Helpers\<close>

text \<open>\<^verbatim>\<open>doc.HasMember(k) && doc[k].IsNumber()\<close> and the same for strings, with the member.\<close>

definition numMember :: "string \<Rightarrow> json \<Rightarrow> json option" where
  "numMember k doc = (case member k doc of Some v \<Rightarrow> if IsNumber v then Some v else None | None \<Rightarrow> None)"

definition strMember :: "string \<Rightarrow> json \<Rightarrow> string option" where
  "strMember k doc = (case member k doc of Some v \<Rightarrow> if IsString v then GetString v else None | None \<Rightarrow> None)"

definition parsePrice :: "json \<Rightarrow> double" where
  "parsePrice v = (case v of
       JString s \<Rightarrow> fst (strtod (c_str s))
     | JInt n \<Rightarrow> double_of_int n
     | JDouble d \<Rightarrow> d
     | _ \<Rightarrow> DZero False)"

definition makeTradeTickEvent :: "string \<Rightarrow> double \<Rightarrow> u64 \<Rightarrow> FeedEvent" where
  "makeTradeTickEvent symbol price sz = TickEvent symbol
     (JObject [(''symbol'', JString (c_str symbol)), (''lastPrice'', JDouble price),
               (''volume'', JDouble (double_of_int (uint sz)))]) 0"

text \<open>ITCH pads tickers with spaces.\<close>

definition trim_right :: "string \<Rightarrow> string" where
  "trim_right s = rev (dropWhile (\<lambda>c. c = CHR '' '') (rev s))"

text \<open>
  The ticker of a message: its \<^verbatim>\<open>stock\<close> member, or the ticker registered for its
  \<^verbatim>\<open>stockLocate\<close>; \<open>Some None\<close> when there is neither.
\<close>

definition resolveStock :: "json \<Rightarrow> ItchAdapter \<Rightarrow> string option option" where
  "resolveStock doc a = (case strMember ''stock'' doc of
       Some s \<Rightarrow> Some (Some (trim_right s))
     | None \<Rightarrow> (case numMember ''stockLocate'' doc of
         Some v \<Rightarrow> (case GetInt v of None \<Rightarrow> None | Some n \<Rightarrow> Some (map_of (locateToSymbol a) n))
       | None \<Rightarrow> Some None))"

section \<open>Handlers\<close>

definition routeStockDirectory :: route where
  "routeStockDirectory doc a = (case (numMember ''stockLocate'' doc, strMember ''stock'' doc) of
       (Some lv, Some stock0) \<Rightarrow> (case GetInt lv of
           None \<Rightarrow> None
         | Some loc \<Rightarrow> (let stock = trim_right stock0
             in Some ([ObTickSizeEvent stock (dlit (1 / 100))],
                      a \<lparr> locateToSymbol := AList.update loc stock (locateToSymbol a) \<rparr>)))
     | _ \<Rightarrow> Some ([], a))"

definition sideOf :: "string \<Rightarrow> Side" where
  "sideOf s = (case s of c # _ \<Rightarrow> if c = CHR ''B'' then Bid else Ask | [] \<Rightarrow> Ask)"

definition routeAddOrder :: route where
  "routeAddOrder doc a =
     (case (numMember ''orderRef'' doc, strMember ''side'' doc, numMember ''shares'' doc, member ''price'' doc) of
       (Some rv, Some sideStr, Some sv, Some pv) \<Rightarrow> (case resolveStock doc a of
           None \<Rightarrow> None
         | Some None \<Rightarrow> Some ([], a)
         | Some (Some stock) \<Rightarrow> (case (GetUint64 rv, GetUint64 sv) of
             (Some orderRef, Some shares) \<Rightarrow>
               (let price = parsePrice pv; side = sideOf sideStr
                in Some ([ObAddEvent stock orderRef side price shares 0],
                         a \<lparr> live_orders := AList.update orderRef
                           \<lparr> os_symbol = stock, os_remainingShares = shares, os_side = side, os_price = price \<rparr> (live_orders a) \<rparr>))
           | _ \<Rightarrow> None))
     | _ \<Rightarrow> Some ([], a))"

definition routeOrderExecuted :: route where
  "routeOrderExecuted doc a = (case (numMember ''orderRef'' doc, numMember ''shares'' doc) of
       (Some rv, Some sv) \<Rightarrow> (case (GetUint64 rv, GetUint64 sv) of
           (Some orderRef, Some execShares) \<Rightarrow> (case map_of (live_orders a) orderRef of
               None \<Rightarrow> Some ([], a)
             | Some os \<Rightarrow>
                 (let symbol = os_symbol os; aggr = (if os_side os = Bid then Sell else Buy)
                  in if execShares \<ge> os_remainingShares os then
                       Some ([ObDeleteEvent symbol orderRef, ObTradeEvent symbol (os_price os) execShares aggr 0,
                              makeTradeTickEvent symbol (os_price os) execShares],
                             a \<lparr> live_orders := AList.delete orderRef (live_orders a) \<rparr>)
                     else
                       (let rest = os_remainingShares os - execShares
                        in Some ([ObUpdateEvent symbol orderRef None (Some rest), ObTradeEvent symbol (os_price os) execShares aggr 0,
                                  makeTradeTickEvent symbol (os_price os) execShares],
                                 a \<lparr> live_orders := AList.update orderRef (os \<lparr> os_remainingShares := rest \<rparr>) (live_orders a) \<rparr>))))
         | _ \<Rightarrow> None)
     | _ \<Rightarrow> Some ([], a))"

definition routeOrderCancel :: route where
  "routeOrderCancel doc a = (case (numMember ''orderRef'' doc, numMember ''shares'' doc) of
       (Some rv, Some sv) \<Rightarrow> (case (GetUint64 rv, GetUint64 sv) of
           (Some orderRef, Some cancelShares) \<Rightarrow> (case map_of (live_orders a) orderRef of
               None \<Rightarrow> Some ([], a)
             | Some os \<Rightarrow>
                 (if cancelShares \<ge> os_remainingShares os then
                    Some ([ObDeleteEvent (os_symbol os) orderRef], a \<lparr> live_orders := AList.delete orderRef (live_orders a) \<rparr>)
                  else
                    (let rest = os_remainingShares os - cancelShares
                     in Some ([ObUpdateEvent (os_symbol os) orderRef None (Some rest)],
                              a \<lparr> live_orders := AList.update orderRef (os \<lparr> os_remainingShares := rest \<rparr>) (live_orders a) \<rparr>))))
         | _ \<Rightarrow> None)
     | _ \<Rightarrow> Some ([], a))"

definition routeOrderDelete :: route where
  "routeOrderDelete doc a = (case numMember ''orderRef'' doc of
       Some rv \<Rightarrow> (case GetUint64 rv of
           None \<Rightarrow> None
         | Some orderRef \<Rightarrow> (case map_of (live_orders a) orderRef of
             None \<Rightarrow> Some ([], a)
           | Some os \<Rightarrow> Some ([ObDeleteEvent (os_symbol os) orderRef],
                            a \<lparr> live_orders := AList.delete orderRef (live_orders a) \<rparr>)))
     | None \<Rightarrow> Some ([], a))"

definition routeOrderReplace :: route where
  "routeOrderReplace doc a =
     (case (numMember ''origOrderRef'' doc, numMember ''orderRef'' doc, numMember ''shares'' doc, member ''price'' doc) of
       (Some ov, Some nv, Some sv, Some pv) \<Rightarrow> (case (GetUint64 ov, GetUint64 nv, GetUint64 sv) of
           (Some origRef, Some newRef, Some shares) \<Rightarrow> (let price = parsePrice pv
             in case map_of (live_orders a) origRef of
               None \<Rightarrow> Some ([], a)
             | Some os \<Rightarrow> Some ([ObDeleteEvent (os_symbol os) origRef, ObAddEvent (os_symbol os) newRef (os_side os) price shares 0],
                 a \<lparr> live_orders := AList.update newRef
                   \<lparr> os_symbol = os_symbol os, os_remainingShares = shares, os_side = os_side os, os_price = price \<rparr>
                   (AList.delete origRef (live_orders a)) \<rparr>))
         | _ \<Rightarrow> None)
     | _ \<Rightarrow> Some ([], a))"

definition aggressorOf :: "json \<Rightarrow> Aggressor" where
  "aggressorOf doc = (case strMember ''side'' doc of
       Some (c # _) \<Rightarrow> if c = CHR ''B'' then Buy else if c = CHR ''S'' then Sell else Unknown
     | _ \<Rightarrow> Unknown)"

definition routeTrade :: route where
  "routeTrade doc a = (case (member ''price'' doc, numMember ''shares'' doc) of
       (Some pv, Some sv) \<Rightarrow> (case resolveStock doc a of
           None \<Rightarrow> None
         | Some None \<Rightarrow> Some ([], a)
         | Some (Some stock) \<Rightarrow> (case GetUint64 sv of
             None \<Rightarrow> None
           | Some shares \<Rightarrow> (let price = parsePrice pv
               in Some ([ObTradeEvent stock price shares (aggressorOf doc) 0, makeTradeTickEvent stock price shares], a))))
     | _ \<Rightarrow> Some ([], a))"

text \<open>\<^verbatim>\<open>system_event\<close> is only logged.\<close>

definition routeSystemEvent :: route where
  "routeSystemEvent doc a = Some ([], a)"

section \<open>Translation\<close>

definition route_doc :: "string \<Rightarrow> route" where
  "route_doc ty =
     (if ty = ''trade'' then routeTrade
      else if ty = ''add_order'' then routeAddOrder
      else if ty = ''add_order_mpid'' then routeAddOrder
      else if ty = ''order_executed'' then routeOrderExecuted
      else if ty = ''order_cancel'' then routeOrderCancel
      else if ty = ''order_delete'' then routeOrderDelete
      else if ty = ''order_replace'' then routeOrderReplace
      else if ty = ''stock_directory'' then routeStockDirectory
      else if ty = ''system_event'' then routeSystemEvent
      else (\<lambda>doc a. Some ([], a)))"

definition translate ::
  "(string \<Rightarrow> json option) \<Rightarrow> string \<Rightarrow> ItchAdapter \<Rightarrow> (FeedEvent list \<times> ItchAdapter) option" where
  "translate parse rawMessage a = (case parse (c_str rawMessage) of
       None \<Rightarrow> Some ([], a)
     | Some doc \<Rightarrow>
         if \<not> IsObject doc then Some ([], a)
         else (case strMember ''type'' doc of
             None \<Rightarrow> Some ([], a)
           | Some ty \<Rightarrow> route_doc ty doc a))"

end
