(* ===== verification/Itch_Thms.thy ===== *)
theory Itch_Thms
  imports Itch_Adapter
begin

text \<open>
  Correctness of the ITCH adapter: the events it emits describe its table of live orders exactly,
  sizes stay positive, and every document whose numbers are in range is translated.
\<close>

section \<open>Runs\<close>

fun itch_run ::
  "(string \<Rightarrow> json option) \<Rightarrow> string list \<Rightarrow> ItchAdapter \<Rightarrow> (FeedEvent list \<times> ItchAdapter) option" where
  "itch_run parse [] a = Some ([], a)"
| "itch_run parse (m # ms) a = (case translate parse m a of
       None \<Rightarrow> None
     | Some (es, a1) \<Rightarrow> map_option (\<lambda>(es', a2). (es @ es', a2)) (itch_run parse ms a1))"

lemma itch_run_induct:
  assumes run: "itch_run parse ms a = Some (es, a')" and refl: "\<And>a. P a [] a"
    and step: "\<And>m a es a1. translate parse m a = Some (es, a1) \<Longrightarrow> P a es a1"
    and trans: "\<And>a es a1 es' a2. P a es a1 \<Longrightarrow> P a1 es' a2 \<Longrightarrow> P a (es @ es') a2"
  shows "P a es a'"
  using run
proof (induction ms arbitrary: a es)
  case Nil
  then show ?case by (simp add: refl)
next
  case (Cons m ms)
  then obtain es1 a1 es2 where "translate parse m a = Some (es1, a1)" "itch_run parse ms a1 = Some (es2, a')" "es = es1 @ es2"
    by (auto split: option.splits)
  then show ?case using step trans Cons.IH by blast
qed

lemmas route_defs = routeTrade_def routeAddOrder_def routeOrderExecuted_def routeOrderCancel_def routeOrderDelete_def
  routeOrderReplace_def routeStockDirectory_def routeSystemEvent_def

text \<open>What one message can do, as a step relation on the table of live orders.\<close>

definition fill_events :: "OrderState \<Rightarrow> u64 \<Rightarrow> FeedEvent list" where
  "fill_events os q = [ObTradeEvent (os_symbol os) (os_price os) q (if os_side os = Bid then Sell else Buy) 0,
     makeTradeTickEvent (os_symbol os) (os_price os) q]"

inductive itch_step :: "ItchAdapter \<Rightarrow> FeedEvent list \<Rightarrow> ItchAdapter \<Rightarrow> bool" where
  ignore: "itch_step a [] a"
| add: "itch_step a [ObAddEvent sy r sd px z 0]
    (a\<lparr>live_orders := AList.update r \<lparr>os_symbol = sy, os_remainingShares = z, os_side = sd, os_price = px\<rparr> (live_orders a)\<rparr>)"
| reduce: "map_of (live_orders a) r = Some os \<Longrightarrow> q < os_remainingShares os \<Longrightarrow> tail = [] \<or> tail = fill_events os q \<Longrightarrow>
    itch_step a (ObUpdateEvent (os_symbol os) r None (Some (os_remainingShares os - q)) # tail)
      (a\<lparr>live_orders := AList.update r (os\<lparr>os_remainingShares := os_remainingShares os - q\<rparr>) (live_orders a)\<rparr>)"
| remove: "map_of (live_orders a) r = Some os \<Longrightarrow> tail = [] \<or> tail = fill_events os q \<Longrightarrow>
    itch_step a (ObDeleteEvent (os_symbol os) r # tail) (a\<lparr>live_orders := AList.delete r (live_orders a)\<rparr>)"
| replace: "map_of (live_orders a) r = Some os \<Longrightarrow>
    itch_step a [ObDeleteEvent (os_symbol os) r, ObAddEvent (os_symbol os) n (os_side os) px z 0]
      (a\<lparr>live_orders := AList.update n \<lparr>os_symbol = os_symbol os, os_remainingShares = z, os_side = os_side os, os_price = px\<rparr>
         (AList.delete r (live_orders a))\<rparr>)"
| trade: "itch_step a [ObTradeEvent sy px q ag 0, makeTradeTickEvent sy px q] a"
| directory: "itch_step a [ObTickSizeEvent sy (dlit (1 / 100))] (a\<lparr>locateToSymbol := AList.update l sy (locateToSymbol a)\<rparr>)"

lemma routes_step:
  "routeTrade doc a = Some (es, a') \<Longrightarrow> itch_step a es a'"
  "routeAddOrder doc a = Some (es, a') \<Longrightarrow> itch_step a es a'"
  "routeOrderExecuted doc a = Some (es, a') \<Longrightarrow> itch_step a es a'"
  "routeOrderCancel doc a = Some (es, a') \<Longrightarrow> itch_step a es a'"
  "routeOrderDelete doc a = Some (es, a') \<Longrightarrow> itch_step a es a'"
  "routeOrderReplace doc a = Some (es, a') \<Longrightarrow> itch_step a es a'"
  "routeStockDirectory doc a = Some (es, a') \<Longrightarrow> itch_step a es a'"
  "routeSystemEvent doc a = Some (es, a') \<Longrightarrow> itch_step a es a'"
proof -
  assume "routeOrderExecuted doc a = Some (es, a')"
  then show "itch_step a es a'"
    by (auto simp: routeOrderExecuted_def Let_def fill_events_def [symmetric] not_le split: option.splits if_splits
        intro!: ignore intro: reduce remove)
qed (auto simp: routeTrade_def routeAddOrder_def routeOrderCancel_def routeOrderDelete_def routeOrderReplace_def
    routeStockDirectory_def routeSystemEvent_def Let_def not_le split: option.splits if_splits
    intro!: ignore add replace trade directory intro: reduce remove)

lemma route_doc_cases:
  "route_doc ty \<in> {routeTrade, routeAddOrder, routeOrderExecuted, routeOrderCancel, routeOrderDelete, routeOrderReplace,
     routeStockDirectory, routeSystemEvent, \<lambda>doc a. Some ([], a)}"
  by (simp add: route_doc_def)

lemma translate_step: "translate parse raw a = Some (es, a') \<Longrightarrow> itch_step a es a'"
proof -
  have r: "route_doc ty doc a = Some (es, a') \<Longrightarrow> itch_step a es a'" for ty doc
    using route_doc_cases [of ty] routes_step ignore by auto
  assume "translate parse raw a = Some (es, a')"
  then show ?thesis unfolding translate_def using r ignore by (auto split: option.splits if_splits)
qed

section \<open>The events describe the live orders\<close>

fun replay :: "FeedEvent \<Rightarrow> (u64 \<rightharpoonup> OrderState) \<Rightarrow> (u64 \<rightharpoonup> OrderState)" where
  "replay (ObAddEvent sy r sd px z _) t =
     t(r \<mapsto> \<lparr> os_symbol = sy, os_remainingShares = z, os_side = sd, os_price = px \<rparr>)"
| "replay (ObUpdateEvent sy r np (Some z)) t = (case t r of None \<Rightarrow> t | Some os \<Rightarrow> t(r \<mapsto> os \<lparr> os_remainingShares := z \<rparr>))"
| "replay (ObDeleteEvent sy r) t = t(r := None)"
| "replay _ t = t"

lemma replay_fill [simp]: "fold replay (fill_events os q) t = t"
  by (simp add: fill_events_def makeTradeTickEvent_def)

lemma step_replay: "itch_step a es a' \<Longrightarrow> map_of (live_orders a') = fold replay es (map_of (live_orders a))"
  by (induction rule: itch_step.induct) (auto simp: umap_simps makeTradeTickEvent_def)

text \<open>C10. For every sequence of messages, replaying the emitted order events from the initial table
  gives exactly the adapter's table of live orders: a consumer that applies the add, update and
  delete events knows symbol, side, price and remaining shares of every live order.\<close>

theorem itch_events_describe_orders:
  assumes "itch_run parse ms a = Some (es, a')"
  shows "map_of (live_orders a') = fold replay es (map_of (live_orders a))"
  using assms by (rule itch_run_induct) (auto dest: translate_step step_replay)

definition demo_parse :: "string \<Rightarrow> json option" where
  "demo_parse = map_of
    [(''add'', JObject [(''type'', JString ''add_order''), (''orderRef'', JInt 1), (''side'', JString ''B''), (''shares'', JInt 100),
        (''stock'', JString ''X       ''), (''price'', JInt 10)]),
     (''add2'', JObject [(''type'', JString ''add_order''), (''orderRef'', JInt 2), (''side'', JString ''B''), (''shares'', JInt 50),
        (''stock'', JString ''X''), (''price'', JInt 10)]),
     (''exec'', JObject [(''type'', JString ''order_executed''), (''orderRef'', JInt 1), (''shares'', JInt 30)]),
     (''cancel'', JObject [(''type'', JString ''order_cancel''), (''orderRef'', JInt 1), (''shares'', JInt 30)]),
     (''half'', JObject [(''type'', JString ''order_cancel''), (''orderRef'', JInt 1), (''shares'', JDouble (DFin (1 / 2)))])]"

definition demo_price :: double where
  "demo_price = double_of_int 10"

lemma demo_itch_run:
  "itch_run demo_parse [''add'', ''cancel''] ItchAdapter_init = Some
     ([ObAddEvent ''X'' 1 Bid demo_price 100 0, ObUpdateEvent ''X'' 1 None (Some 70)],
      \<lparr> locateToSymbol = [],
        live_orders = [(1, \<lparr> os_symbol = ''X'', os_remainingShares = 70, os_side = Bid, os_price = demo_price \<rparr>)] \<rparr>)"
  by (simp add: translate_def demo_parse_def c_str_def strMember_def numMember_def member_def route_doc_def routeAddOrder_def
      routeOrderCancel_def resolveStock_def trim_right_def sideOf_def parsePrice_def demo_price_def [symmetric] Let_def
      ItchAdapter_init_def)

theorem itch_events_describe_orders_witness:
  "\<exists>es a'. itch_run demo_parse [''add'', ''cancel''] ItchAdapter_init = Some (es, a') \<and>
     map_of (live_orders a') = fold replay es Map.empty \<and> map_of (live_orders a') 1 \<noteq> None"
  using itch_events_describe_orders [OF demo_itch_run] demo_itch_run by (simp add: ItchAdapter_init_def)

section \<open>Sizes\<close>

fun adds_positive :: "FeedEvent \<Rightarrow> bool" where
  "adds_positive (ObAddEvent sy r sd px z pr) = (z > 0)"
| "adds_positive _ = True"

fun updates_positive :: "FeedEvent \<Rightarrow> bool" where
  "updates_positive (ObUpdateEvent sy r np nz) = (np = None \<and> (\<exists>z. nz = Some z \<and> z > 0))"
| "updates_positive _ = True"

definition live_positive :: "ItchAdapter \<Rightarrow> bool" where
  "live_positive a \<longleftrightarrow> (\<forall>r os. map_of (live_orders a) r = Some os \<longrightarrow> os_remainingShares os > 0)"

lemma word_diff_positive: "(q :: u64) < r \<Longrightarrow> r - q > 0"
  by (simp add: word_greater_zero_iff)

lemma step_positive:
  "itch_step a es a' \<Longrightarrow> live_positive a \<Longrightarrow> \<forall>e\<in>set es. adds_positive e \<Longrightarrow> live_positive a' \<and> (\<forall>e\<in>set es. updates_positive e)"
  by (induction rule: itch_step.induct)
    (auto simp: live_positive_def umap_simps fill_events_def makeTradeTickEvent_def word_diff_positive split: if_splits)

text \<open>If the feed adds orders of positive size only, every update the adapter emits keeps the
  price and carries a positive size (the book manager refuses size zero), and every live order has
  shares left.\<close>

theorem itch_sizes_positive:
  assumes "itch_run parse ms ItchAdapter_init = Some (es, a')" and "\<forall>e\<in>set es. adds_positive e"
  shows "live_positive a' \<and> (\<forall>e\<in>set es. updates_positive e)"
proof -
  have "live_positive ItchAdapter_init \<longrightarrow> (\<forall>e\<in>set es. adds_positive e) \<longrightarrow> live_positive a' \<and> (\<forall>e\<in>set es. updates_positive e)"
    using assms(1) by (rule itch_run_induct) (auto dest: translate_step step_positive)
  then show ?thesis using assms(2) by (simp add: live_positive_def ItchAdapter_init_def)
qed

theorem itch_sizes_positive_witness:
  "live_positive \<lparr> locateToSymbol = [],
        live_orders = [(1, \<lparr> os_symbol = ''X'', os_remainingShares = 70, os_side = Bid, os_price = demo_price \<rparr>)] \<rparr> \<and>
   updates_positive (ObUpdateEvent ''X'' 1 None (Some 70))"
  using itch_sizes_positive [OF demo_itch_run] by simp

section \<open>Getters\<close>

text \<open>The numbers of a document that the handlers read are integers of the type they are read as.\<close>

definition itch_numbers_ok :: "json \<Rightarrow> bool" where
  "itch_numbers_ok doc \<longleftrightarrow>
     (case numMember ''stockLocate'' doc of Some v \<Rightarrow> GetInt v \<noteq> None | None \<Rightarrow> True) \<and>
     list_all (\<lambda>k. case numMember k doc of Some v \<Rightarrow> GetUint64 v \<noteq> None | None \<Rightarrow> True) [''orderRef'', ''origOrderRef'', ''shares'']"

lemma translate_defined:
  assumes "\<forall>doc. parse (c_str raw) = Some doc \<longrightarrow> itch_numbers_ok doc"
  shows "translate parse raw a \<noteq> None"
proof -
  have "route_doc ty doc a \<noteq> None" if "itch_numbers_ok doc" for ty doc
    using that route_doc_cases [of ty]
    by (auto simp: itch_numbers_ok_def route_defs resolveStock_def Let_def split: option.splits)
  then show ?thesis using assms by (auto simp: translate_def split: option.splits)
qed

text \<open>C11. Every message is translated without violating a getter's precondition, whatever the
  state of the adapter, if it does not parse, is no object, or has integers in the range of their
  type where the handlers read numbers.\<close>

theorem itch_translate_defined:
  assumes "\<forall>doc. parse (c_str raw) = Some doc \<longrightarrow> itch_numbers_ok doc"
  shows "\<exists>es a'. translate parse raw a = Some (es, a') \<and> itch_step a es a'"
  using translate_defined [of parse raw a] assms translate_step by fastforce

theorem itch_translate_defined_witness:
  "\<exists>es a'. translate demo_parse ''exec'' ItchAdapter_init = Some (es, a') \<and> itch_step ItchAdapter_init es a'"
  by (rule itch_translate_defined) (simp add: demo_parse_def c_str_def itch_numbers_ok_def numMember_def member_def)

text \<open>A cancellation of a fractional number of shares passes the type checks and reaches the
  getter.\<close>

lemma fractional_shares_undefined: "translate demo_parse ''half'' a = None"
  by (simp add: demo_parse_def translate_def c_str_def strMember_def numMember_def member_def route_doc_def routeOrderCancel_def)

end
