(* ===== verification/Json_Validator.thy ===== *)
theory Json_Validator
  imports Json_Dom
begin

text \<open>
  The request validator (\<^verbatim>\<open>core/JsonValidator.cpp\<close>). The exceptions it throws are the values of
  \<open>verr\<close>; \<open>known\<close> stands for \<^verbatim>\<open>NodeTypeRegistry::contains\<close>. Arrays are shorter than 2^31, so the
  cast of their size to \<^verbatim>\<open>int\<close> is exact.
\<close>

datatype verr =
    RequestNotObject | IdMissing | IdEmpty | IdTooLong | TreeMissing
  | TreeTooDeep | TreeNotObject | FieldTooLong string | ArrayTooLong string | ElementTooLong string
  | NodeNotObject | TypeMissing | TypeEmpty | TypeTooLong | TypeUnknown string

definition MAX_TREE_DEPTH :: nat where "MAX_TREE_DEPTH = 32"
definition MAX_ARRAY_SIZE :: nat where "MAX_ARRAY_SIZE = 64"
definition MAX_STRING_LEN :: nat where "MAX_STRING_LEN = 4096"

definition validateNode :: "(string \<Rightarrow> bool) \<Rightarrow> json \<Rightarrow> verr option" where
  "validateNode known v =
     (if \<not> IsObject v then Some NodeNotObject
      else case member ''type'' v of
          Some (JString s) \<Rightarrow> (let ty = c_str s
            in if ty = [] then Some TypeEmpty
               else if length ty > MAX_STRING_LEN then Some TypeTooLong
               else if \<not> known ty then Some (TypeUnknown ty) else None)
        | _ \<Rightarrow> Some TypeMissing)"

fun validateTree :: "(string \<Rightarrow> bool) \<Rightarrow> json \<Rightarrow> nat \<Rightarrow> verr option"
and validateMembers :: "(string \<Rightarrow> bool) \<Rightarrow> (string \<times> json) list \<Rightarrow> nat \<Rightarrow> verr option"
and validateElems :: "(string \<Rightarrow> bool) \<Rightarrow> string \<Rightarrow> json list \<Rightarrow> nat \<Rightarrow> verr option" where
  "validateTree known v depth =
     (if depth > MAX_TREE_DEPTH then Some TreeTooDeep
      else case v of
          JObject ms \<Rightarrow> (case validateMembers known ms depth of
              Some e \<Rightarrow> Some e
            | None \<Rightarrow> if HasMember ''type'' (JObject ms) then validateNode known (JObject ms) else None)
        | _ \<Rightarrow> Some TreeNotObject)"
| "validateMembers known [] depth = None"
| "validateMembers known ((key, val) # ms) depth =
     (case (case val of
          JString s \<Rightarrow> if length (c_str s) > MAX_STRING_LEN then Some (FieldTooLong (c_str key)) else None
        | JObject os \<Rightarrow> validateTree known val (depth + 1)
        | JArray xs \<Rightarrow> if length xs > MAX_ARRAY_SIZE then Some (ArrayTooLong (c_str key))
                      else validateElems known (c_str key) xs depth
        | _ \<Rightarrow> None) of
       Some e \<Rightarrow> Some e
     | None \<Rightarrow> validateMembers known ms depth)"
| "validateElems known key [] depth = None"
| "validateElems known key (x # xs) depth =
     (case (case x of
          JString s \<Rightarrow> if length (c_str s) > MAX_STRING_LEN then Some (ElementTooLong key) else None
        | JObject os \<Rightarrow> validateTree known x (depth + 1)
        | _ \<Rightarrow> None) of
       Some e \<Rightarrow> Some e
     | None \<Rightarrow> validateElems known key xs depth)"

definition validateRequest :: "(string \<Rightarrow> bool) \<Rightarrow> json \<Rightarrow> verr option" where
  "validateRequest known doc =
     (if \<not> IsObject doc then Some RequestNotObject
      else case member ''id'' doc of
          Some (JString s) \<Rightarrow>
            (if c_str s = [] then Some IdEmpty
             else if length (c_str s) > MAX_STRING_LEN then Some IdTooLong
             else case member ''tree'' doc of
                 Some t \<Rightarrow> if IsObject t then validateTree known t 0 else Some TreeMissing
               | None \<Rightarrow> Some TreeMissing)
        | _ \<Rightarrow> Some IdMissing)"

section \<open>What it accepts\<close>

text \<open>The objects of a document that a walk through members and arrays of objects visits, with their
  depth.\<close>

inductive visited :: "json \<Rightarrow> nat \<Rightarrow> json \<Rightarrow> bool" where
  root: "IsObject v \<Longrightarrow> visited v 0 v"
| into_member: "visited v d w \<Longrightarrow> (k, x) \<in> set (members w) \<Longrightarrow> IsObject x \<Longrightarrow> visited v (Suc d) x"
| into_array: "visited v d w \<Longrightarrow> (k, JArray xs) \<in> set (members w) \<Longrightarrow> x \<in> set xs \<Longrightarrow> IsObject x \<Longrightarrow> visited v (Suc d) x"

text \<open>What is required of each visited object by itself.\<close>

definition value_ok :: "json \<Rightarrow> bool" where
  "value_ok x = (case x of
       JString s \<Rightarrow> length (c_str s) \<le> MAX_STRING_LEN
     | JArray xs \<Rightarrow> length xs \<le> MAX_ARRAY_SIZE \<and> list_all (\<lambda>y. case y of JString s \<Rightarrow> length (c_str s) \<le> MAX_STRING_LEN | _ \<Rightarrow> True) xs
     | _ \<Rightarrow> True)"

definition object_ok :: "(string \<Rightarrow> bool) \<Rightarrow> json \<Rightarrow> bool" where
  "object_ok known w \<longleftrightarrow> (\<forall>(k, x)\<in>set (members w). value_ok x) \<and>
     (HasMember ''type'' w \<longrightarrow> (\<exists>s. member ''type'' w = Some (JString s) \<and> c_str s \<noteq> [] \<and> length (c_str s) \<le> MAX_STRING_LEN \<and> known (c_str s)))"

text \<open>The children of an object, and the walk from a child.\<close>

definition children :: "json \<Rightarrow> json set" where
  "children w = {x. IsObject x \<and> (\<exists>k. (k, x) \<in> set (members w) \<or> (\<exists>xs. (k, JArray xs) \<in> set (members w) \<and> x \<in> set xs))}"

lemma visited_step: "visited v d w \<Longrightarrow> x \<in> children w \<Longrightarrow> visited v (Suc d) x"
  by (auto simp: children_def intro: into_member into_array)

lemma visited_from_child: "visited x d w \<Longrightarrow> x \<in> children v \<Longrightarrow> IsObject v \<Longrightarrow> visited v (Suc d) w"
proof (induction rule: visited.induct)
  case (root x)
  then show ?case using visited_step [OF visited.root] by simp
next
  case (into_member x d w k y)
  then show ?case using visited.into_member [of v "Suc d" w k y] by simp
next
  case (into_array x d w k xs y)
  then show ?case using visited.into_array [of v "Suc d" w k xs y] by simp
qed

lemma visited_cases_root: "visited v d w \<Longrightarrow> (d = 0 \<and> w = v \<and> IsObject v) \<or> (\<exists>x\<in>children v. \<exists>e. d = Suc e \<and> visited x e w)"
proof (induction rule: visited.induct)
  case (into_member v d w k y)
  have y: "y \<in> children w" using into_member by (auto simp: children_def)
  show ?case
  proof (cases d)
    case 0
    then show ?thesis using into_member.IH y into_member.hyps(3) visited.root [of y] by auto
  next
    case (Suc e)
    then show ?thesis using into_member.IH visited_step [OF _ y] by fastforce
  qed
next
  case (into_array v d w k xs y)
  have y: "y \<in> children w" using into_array by (auto simp: children_def)
  show ?case
  proof (cases d)
    case 0
    then show ?thesis using into_array.IH y into_array.hyps(4) visited.root [of y] by auto
  next
    case (Suc e)
    then show ?thesis using into_array.IH visited_step [OF _ y] by fastforce
  qed
qed simp

definition walk_ok :: "(string \<Rightarrow> bool) \<Rightarrow> nat \<Rightarrow> json \<Rightarrow> bool" where
  "walk_ok known depth v \<longleftrightarrow> IsObject v \<and> (\<forall>d w. visited v d w \<longrightarrow> depth + d \<le> MAX_TREE_DEPTH \<and> object_ok known w)"

lemma walk_ok_rec:
  "walk_ok known depth v \<longleftrightarrow> IsObject v \<and> depth \<le> MAX_TREE_DEPTH \<and> object_ok known v \<and> (\<forall>x\<in>children v. walk_ok known (Suc depth) x)"
proof
  assume w: "walk_ok known depth v"
  then have v: "IsObject v" by (simp add: walk_ok_def)
  have "depth + 0 \<le> MAX_TREE_DEPTH \<and> object_ok known v" using w visited.root [OF v] unfolding walk_ok_def by blast
  moreover have "walk_ok known (Suc depth) x" if "x \<in> children v" for x
    unfolding walk_ok_def
  proof (intro conjI allI impI)
    show "IsObject x" using that by (simp add: children_def)
    fix d u
    assume "visited x d u"
    from visited_from_child [OF this that v] w show "Suc depth + d \<le> MAX_TREE_DEPTH" "object_ok known u"
      unfolding walk_ok_def by fastforce+
  qed
  ultimately show "IsObject v \<and> depth \<le> MAX_TREE_DEPTH \<and> object_ok known v \<and> (\<forall>x\<in>children v. walk_ok known (Suc depth) x)"
    using v by simp
next
  assume a: "IsObject v \<and> depth \<le> MAX_TREE_DEPTH \<and> object_ok known v \<and> (\<forall>x\<in>children v. walk_ok known (Suc depth) x)"
  show "walk_ok known depth v"
    unfolding walk_ok_def
  proof (intro conjI allI impI)
    show "IsObject v" using a by simp
    fix d u
    assume "visited v d u"
    then consider "d = 0" "u = v" | x e where "x \<in> children v" "d = Suc e" "visited x e u" using visited_cases_root by blast
    then show "depth + d \<le> MAX_TREE_DEPTH" "object_ok known u" using a unfolding walk_ok_def by (cases; fastforce)+
  qed
qed

text \<open>The children that one member, or one array element, contributes.\<close>

definition elem_children :: "json \<Rightarrow> json set" where
  "elem_children x = (if IsObject x then {x} else {})"

definition member_children :: "json \<Rightarrow> json set" where
  "member_children x = (case x of JArray xs \<Rightarrow> \<Union> (elem_children ` set xs) | _ \<Rightarrow> elem_children x)"

lemma children_members: "children (JObject ms) = (\<Union>(k, x)\<in>set ms. member_children x)"
  by (fastforce simp: children_def member_children_def elem_children_def split: json.splits if_splits)

lemma validate_iff:
  "validateTree known v depth = None \<longleftrightarrow> walk_ok known depth v"
  "validateMembers known ms depth = None \<longleftrightarrow>
     (\<forall>(k, x)\<in>set ms. value_ok x \<and> (\<forall>c\<in>member_children x. walk_ok known (Suc depth) c))"
  "validateElems known key xs depth = None \<longleftrightarrow>
     (\<forall>x\<in>set xs. (case x of JString s \<Rightarrow> length (c_str s) \<le> MAX_STRING_LEN | _ \<Rightarrow> True) \<and>
        (\<forall>c\<in>elem_children x. walk_ok known (Suc depth) c))"
proof (induction known v depth and known ms depth and known key xs depth rule: validateTree_validateMembers_validateElems.induct)
  case (1 known v depth)
  show ?case
  proof (cases v)
    case (JObject ms)
    have node: "validateNode known (JObject ms) = None \<longleftrightarrow>
        (\<exists>s. member ''type'' (JObject ms) = Some (JString s) \<and> c_str s \<noteq> [] \<and> length (c_str s) \<le> MAX_STRING_LEN \<and> known (c_str s))"
      by (auto simp: validateNode_def Let_def not_less split: option.splits json.splits)
    show ?thesis
    proof (cases "depth > MAX_TREE_DEPTH")
      case False
      then show ?thesis using 1 [OF False JObject] node
        unfolding walk_ok_rec [of known depth] JObject children_members object_ok_def
        by (auto split: option.splits)
    qed (simp add: walk_ok_rec [of known depth])
  qed (simp_all add: walk_ok_rec [of known depth])
next
  case (3 known key val ms depth)
  then show ?case by (cases val) (auto simp: member_children_def elem_children_def value_ok_def list_all_iff split: option.splits if_splits)
next
  case (5 known key x xs depth)
  then show ?case by (cases x) (auto simp: elem_children_def split: option.splits if_splits)
qed simp_all

text \<open>C15. A request is accepted exactly when it has a non-empty identifier of at most 4096
  characters and a tree in which every object, reached through members and arrays, is at depth at
  most 32, has only strings of at most 4096 characters and arrays of at most 64 elements, and, if it
  has a type, names a registered node type.\<close>

theorem validateRequest_exact:
  "validateRequest known doc = None \<longleftrightarrow>
     (IsObject doc \<and>
      (\<exists>s t. member ''id'' doc = Some (JString s) \<and> c_str s \<noteq> [] \<and> length (c_str s) \<le> MAX_STRING_LEN \<and>
         member ''tree'' doc = Some t \<and> IsObject t \<and>
         (\<forall>d w. visited t d w \<longrightarrow> d \<le> MAX_TREE_DEPTH \<and> object_ok known w)))"
  by (auto simp: validateRequest_def validate_iff walk_ok_def not_less
      split: option.splits json.splits simp del: validateTree.simps)

definition demo_tree :: json where
  "demo_tree = JObject [(''type'', JString ''Worker''), (''fn'', JString ''mean'')]"

definition demo_request :: json where
  "demo_request = JObject [(''id'', JString ''r1''), (''tree'', demo_tree)]"

theorem validateRequest_exact_witness:
  "validateRequest (\<lambda>ty. ty = ''Worker'') demo_request = None \<and> object_ok (\<lambda>ty. ty = ''Worker'') demo_tree"
proof -
  have a: "validateRequest (\<lambda>ty. ty = ''Worker'') demo_request = None" by code_simp
  have "member ''tree'' demo_request = Some demo_tree" "IsObject demo_tree" by (simp_all add: demo_request_def demo_tree_def member_def)
  then show ?thesis using a validateRequest_exact [of "\<lambda>ty. ty = ''Worker''" demo_request] visited.root [of demo_tree] by fastforce
qed

end
