(* ===== verification/Atomic_Store.thy ===== *)
theory Atomic_Store
  imports Ieee_Double
begin

text \<open>
  The values that flow through the engine (\<^verbatim>\<open>StreamValue.hpp\<close>) and the store of the latest value
  per stream key and field (\<^verbatim>\<open>core/AtomicStore.cpp\<close>), with its caps on the number of stream keys
  and of fields per stream key. The mutex makes every operation atomic and is not modelled.
\<close>

section \<open>Values\<close>

datatype ArgType =
    ABool bool
  | AInt int
  | ADouble double
  | AString string
  | AIntVec "int list"
  | ADoubleVec "double list"
  | AArgVec "ArgValue list"
and ArgValue = ArgValue ArgType

record StreamValue =
  sv_symbol :: string
  sv_value :: ArgType

section \<open>The store\<close>

record AtomicStore =
  store_data :: "(string, (string, ArgType) umap) umap"
  maxStreamKeys :: u64
  maxFieldsPerStreamKey :: u64

definition AtomicStore_init :: AtomicStore where
  "AtomicStore_init = \<lparr> store_data = [], maxStreamKeys = 0, maxFieldsPerStreamKey = 0 \<rparr>"

definition setCaps :: "u64 \<Rightarrow> u64 \<Rightarrow> AtomicStore \<Rightarrow> AtomicStore" where
  "setCaps keys flds st = st \<lparr> maxStreamKeys := keys, maxFieldsPerStreamKey := flds \<rparr>"

text \<open>The field map of a stream key, created when there is room; \<^const>\<open>None\<close> is the early return.\<close>

definition acquire :: "string \<Rightarrow> AtomicStore \<Rightarrow> ((string, ArgType) umap) option" where
  "acquire streamKey st = (case map_of (store_data st) streamKey of
       Some fm \<Rightarrow> Some fm
     | None \<Rightarrow> if maxStreamKeys st > 0 \<and> length (store_data st) \<ge> unat (maxStreamKeys st) then None else Some [])"

definition setField :: "u64 \<Rightarrow> string \<Rightarrow> ArgType \<Rightarrow> (string, ArgType) umap \<Rightarrow> (string, ArgType) umap" where
  "setField cap field v fm =
     (if map_of fm field = None \<and> cap > 0 \<and> length fm \<ge> unat cap then fm else AList.update field v fm)"

definition store_set :: "string \<Rightarrow> string \<Rightarrow> ArgType \<Rightarrow> AtomicStore \<Rightarrow> AtomicStore" where
  "store_set streamKey field v st = (case acquire streamKey st of
       None \<Rightarrow> st
     | Some fm \<Rightarrow> st \<lparr> store_data := AList.update streamKey (setField (maxFieldsPerStreamKey st) field v fm) (store_data st) \<rparr>)"

definition setBatch :: "string \<Rightarrow> (string \<times> ArgType) list \<Rightarrow> AtomicStore \<Rightarrow> AtomicStore" where
  "setBatch streamKey kvs st = (case acquire streamKey st of
       None \<Rightarrow> st
     | Some fm \<Rightarrow> st \<lparr> store_data := AList.update streamKey
         (fold (\<lambda>(key, v) fm. setField (maxFieldsPerStreamKey st) key v fm) kvs fm) (store_data st) \<rparr>)"

definition store_get :: "string \<Rightarrow> string \<Rightarrow> AtomicStore \<Rightarrow> ArgType option" where
  "store_get streamKey field st = (case map_of (store_data st) streamKey of
       None \<Rightarrow> None
     | Some fm \<Rightarrow> map_of fm field)"

section \<open>The contract\<close>

text \<open>
  What a reader relies on: a write that is accepted is read back, every other cell keeps its value,
  and a cell once written stays writable.
\<close>

locale cell_store =
  fixes ok :: "'s \<Rightarrow> bool" and put :: "'k \<Rightarrow> 'v \<Rightarrow> 's \<Rightarrow> 's" and get :: "'k \<Rightarrow> 's \<Rightarrow> 'v option" and accepts :: "'k \<Rightarrow> 's \<Rightarrow> bool"
  assumes put_ok: "ok s \<Longrightarrow> ok (put k v s)"
    and get_put: "ok s \<Longrightarrow> accepts k s \<Longrightarrow> get k (put k v s) = Some v"
    and get_put_dropped: "ok s \<Longrightarrow> \<not> accepts k s \<Longrightarrow> get k' (put k v s) = get k' s"
    and get_put_other: "ok s \<Longrightarrow> k' \<noteq> k \<Longrightarrow> get k' (put k v s) = get k' s"
    and written_accepts: "ok s \<Longrightarrow> get k s \<noteq> None \<Longrightarrow> accepts k s"
begin

lemma puts_ok: "ok s \<Longrightarrow> ok (fold (\<lambda>(k, v) s. put k v s) kvs s)"
  by (induction kvs arbitrary: s) (auto simp: put_ok)

text \<open>A cell that holds a value never becomes empty, and holds the last value written to it.\<close>

lemma written_stays: "ok s \<Longrightarrow> get k s \<noteq> None \<Longrightarrow> get k (put k' v s) \<noteq> None"
  by (cases "k' = k") (auto simp: get_put written_accepts get_put_other)

lemma last_write_wins:
  assumes "ok s" "get k s \<noteq> None"
  shows "get k (fold (\<lambda>(k, v) s. put k v s) kvs s) = (case map_of (rev kvs) k of None \<Rightarrow> get k s | Some v \<Rightarrow> Some v)"
  using assms
proof (induction kvs arbitrary: s)
  case Nil
  then show ?case by simp
next
  case (Cons kv kvs)
  obtain k' v where kv: "kv = (k', v)" by (cases kv)
  have "get k (fold (\<lambda>(k, v) s. put k v s) kvs (put k' v s)) = (case map_of (rev kvs) k of None \<Rightarrow> get k (put k' v s) | Some v \<Rightarrow> Some v)"
    using Cons.prems by (intro Cons.IH) (simp_all add: put_ok written_stays)
  moreover have "get k (put k' v s) = (if k = k' then Some v else get k s)"
    using Cons.prems by (auto simp: get_put written_accepts get_put_other)
  ultimately show ?case by (auto simp: kv map_add_def split: option.split)
qed

end

section \<open>The store meets it\<close>

definition store_wf :: "AtomicStore \<Rightarrow> bool" where
  "store_wf st \<longleftrightarrow> um_wf (store_data st) \<and> list_all (\<lambda>(_, fm). um_wf fm) (store_data st)"

definition store_accepts :: "string \<times> string \<Rightarrow> AtomicStore \<Rightarrow> bool" where
  "store_accepts kf st \<longleftrightarrow> (case acquire (fst kf) st of
       None \<Rightarrow> False
     | Some fm \<Rightarrow> \<not> (map_of fm (snd kf) = None \<and> maxFieldsPerStreamKey st > 0 \<and> length fm \<ge> unat (maxFieldsPerStreamKey st)))"

lemma store_wfD: "store_wf st \<Longrightarrow> map_of (store_data st) k = Some fm \<Longrightarrow> um_wf fm"
  by (auto simp: store_wf_def list_all_iff dest!: map_of_SomeD)

lemma store_wfI: "um_wf (store_data st) \<Longrightarrow> (\<And>k fm. map_of (store_data st) k = Some fm \<Longrightarrow> um_wf fm) \<Longrightarrow> store_wf st"
  by (auto simp: store_wf_def list_all_iff)

lemma acquire_wf: "store_wf st \<Longrightarrow> acquire k st = Some fm \<Longrightarrow> um_wf fm"
  by (auto simp: acquire_def store_wfD split: option.splits if_splits)

lemma setField_wf [simp]: "um_wf fm \<Longrightarrow> um_wf (setField c f v fm)"
  by (simp add: setField_def)

lemma put_wf: "store_wf st \<Longrightarrow> um_wf fm \<Longrightarrow> store_wf (st\<lparr>store_data := AList.update k fm (store_data st)\<rparr>)"
  by (rule store_wfI) (auto simp: umap_simps store_wfD split: if_splits, simp add: store_wf_def)

lemma get_acquired: "acquire k st = Some fm \<Longrightarrow> store_get k f st = map_of fm f"
  by (auto simp: acquire_def store_get_def split: option.splits if_splits)

interpretation store: cell_store store_wf "\<lambda>(k, f). store_set k f" "\<lambda>(k, f). store_get k f" store_accepts
proof (unfold_locales, goal_cases)
  case (1 s kf v)
  then show ?case by (cases kf) (auto simp: store_set_def acquire_wf put_wf split: option.split)
next
  case (2 s kf v)
  then show ?case
    by (cases kf) (auto simp: store_set_def store_get_def store_accepts_def setField_def umap_simps split: option.splits)
next
  case (3 s kf kf' v)
  then show ?case
    by (cases kf; cases kf')
      (auto simp: store_set_def store_get_def store_accepts_def setField_def umap_simps acquire_def split: option.splits if_splits)
next
  case (4 s kf' kf v)
  then show ?case
    by (cases kf; cases kf')
      (auto simp: store_set_def store_get_def setField_def umap_simps acquire_def split: option.splits if_splits)
next
  case (5 s kf)
  then show ?case by (cases kf) (auto simp: store_get_def store_accepts_def acquire_def split: option.splits)
qed

section \<open>Properties\<close>

text \<open>A batch is the sequence of its single writes.\<close>

lemma acquire_put: "acquire k (st\<lparr>store_data := AList.update k fm (store_data st)\<rparr>) = Some fm"
  by (simp add: acquire_def umap_simps)

lemma update_twice: "AList.update k b (AList.update k a xs) = AList.update k b xs"
  by (induction xs) auto

lemma batch_put:
  "setBatch k kvs (st\<lparr>store_data := AList.update k fm (store_data st)\<rparr>) =
     st\<lparr>store_data := AList.update k (fold (\<lambda>(f, v) fm. setField (maxFieldsPerStreamKey st) f v fm) kvs fm) (store_data st)\<rparr>"
  by (simp add: setBatch_def acquire_put update_twice)

lemma batch_one: "setBatch k [(f, v)] st = store_set k f v st"
  by (simp add: setBatch_def store_set_def split: option.split)

lemma batch_cons:
  assumes "kvs \<noteq> []"
  shows "setBatch k ((f, v) # kvs) st = setBatch k kvs (store_set k f v st)"
proof (cases "acquire k st")
  case None
  then show ?thesis by (simp add: setBatch_def store_set_def)
next
  case (Some fm)
  then show ?thesis using batch_put [where k = k and kvs = kvs and st = st and fm = "setField (maxFieldsPerStreamKey st) f v fm"]
    by (simp add: store_set_def) (simp add: setBatch_def)
qed

text \<open>Writing a batch of fields is the same as writing them one after the other, caps
  included.\<close>

theorem setBatch_is_sets:
  assumes "kvs \<noteq> []"
  shows "setBatch k kvs st = fold (\<lambda>(f, v). store_set k f v) kvs st"
  using assms
proof (induction kvs arbitrary: st)
  case (Cons fv kvs)
  obtain f v where fv: "fv = (f, v)" by (cases fv)
  show ?case
  proof (cases "kvs = []")
    case True
    then show ?thesis by (simp add: fv batch_one)
  next
    case False
    then show ?thesis using Cons.IH [OF False, of "store_set k f v st"] by (simp add: fv batch_cons)
  qed
qed simp

theorem setBatch_is_sets_witness:
  "setBatch ''X'' [(''a'', AInt 1), (''b'', AInt 2)] AtomicStore_init =
     store_set ''X'' ''b'' (AInt 2) (store_set ''X'' ''a'' (AInt 1) AtomicStore_init)"
  using setBatch_is_sets [of "[(''a'', AInt 1), (''b'', AInt 2)]" "''X''" AtomicStore_init] by simp

text \<open>The writes of a run, in order.\<close>

definition store_run :: "(string \<times> string \<times> ArgType) list \<Rightarrow> AtomicStore \<Rightarrow> AtomicStore" where
  "store_run ws st = fold (\<lambda>(k, f, v). store_set k f v) ws st"

definition within_caps :: "AtomicStore \<Rightarrow> bool" where
  "within_caps st \<longleftrightarrow> store_wf st \<and>
     (maxStreamKeys st > 0 \<longrightarrow> length (store_data st) \<le> unat (maxStreamKeys st)) \<and>
     (maxFieldsPerStreamKey st > 0 \<longrightarrow> (\<forall>k fm. map_of (store_data st) k = Some fm \<longrightarrow> length fm \<le> unat (maxFieldsPerStreamKey st)))"

lemma caps_const [simp]:
  "maxStreamKeys (store_set k f v st) = maxStreamKeys st" "maxFieldsPerStreamKey (store_set k f v st) = maxFieldsPerStreamKey st"
  by (simp_all add: store_set_def split: option.split)

lemma setField_length:
  "c > 0 \<Longrightarrow> length fm \<le> unat c \<Longrightarrow> length (setField c f v fm) \<le> unat (c :: u64)"
  using length_update_new [of fm f v] length_update_old [of fm f v]
  by (cases "map_of fm f = None") (auto simp: setField_def)

lemma acquire_length:
  "within_caps st \<Longrightarrow> acquire k st = Some fm \<Longrightarrow> maxFieldsPerStreamKey st > 0 \<Longrightarrow> length fm \<le> unat (maxFieldsPerStreamKey st)"
  by (auto simp: within_caps_def acquire_def split: option.splits if_splits)

lemma set_within_caps:
  assumes "within_caps st"
  shows "within_caps (store_set k f v st)"
proof (cases "acquire k st")
  case None
  then show ?thesis using assms by (simp add: store_set_def)
next
  case (Some fm)
  let ?fm = "setField (maxFieldsPerStreamKey st) f v fm"
  have wf: "store_wf st" using assms by (simp add: within_caps_def)
  have k: "length (AList.update k ?fm (store_data st)) \<le> unat (maxStreamKeys st)" if "maxStreamKeys st > 0"
    using Some that assms length_update_new [of "store_data st" k ?fm] length_update_old [of "store_data st" k ?fm]
    by (cases "map_of (store_data st) k") (auto simp: acquire_def within_caps_def split: if_splits)
  have "store_wf (store_set k f v st)" using store.put_ok [OF wf, of "(k, f)" v] by simp
  then show ?thesis using Some k setField_length acquire_length [OF assms Some] assms
    by (auto simp: within_caps_def store_set_def umap_simps split: if_splits)
qed



end
