(* ===== verification/Ieee_Math.thy ===== *)
theory Ieee_Math
  imports Ieee_Double
begin

text \<open>
  The functions of \<^verbatim>\<open><cmath>\<close> and \<^verbatim>\<open><algorithm>\<close> on doubles whose results the standards fix:
  the correctly rounded \<^verbatim>\<open>sqrt\<close>, the exact \<^verbatim>\<open>fmod\<close>, the roundings to integers, \<^verbatim>\<open>min\<close>,
  \<^verbatim>\<open>max\<close>, \<^verbatim>\<open>clamp\<close> and sorting. The functions that IEEE 754 does not fix (\<^verbatim>\<open>exp\<close>, \<^verbatim>\<open>sin\<close> and
  so on) are fields of the record \<open>Libm\<close>, an argument of their users.
\<close>

section \<open>Square root\<close>

function isqrt :: "nat \<Rightarrow> nat" where
  "isqrt n = (if n = 0 then 0
     else let m = 2 * isqrt (n div 4) in if (m + 1) * (m + 1) \<le> n then m + 1 else m)"
  by pat_completeness auto
termination by (relation "measure id") auto

declare isqrt.simps [simp del]

lemma isqrt_bounds: "isqrt n * isqrt n \<le> n \<and> n < (isqrt n + 1) * (isqrt n + 1)"
proof (induction n rule: isqrt.induct)
  case (1 n)
  show ?case
  proof (cases "n = 0")
    case True
    then show ?thesis by (simp add: isqrt.simps)
  next
    case False
    define k where "k = isqrt (n div 4)"
    have k: "k * k \<le> n div 4" "n div 4 < (k + 1) * (k + 1)" using 1 [OF False] by (simp_all add: k_def)
    have "4 * (k * k) \<le> n" "n < 4 * ((k + 1) * (k + 1))" using k by linarith+
    then have b: "(2 * k) * (2 * k) \<le> n" "n < (2 * k + 2) * (2 * k + 2)" by (simp_all add: algebra_simps)
    have "isqrt n = (if (2 * k + 1) * (2 * k + 1) \<le> n then 2 * k + 1 else 2 * k)"
      using False by (subst isqrt.simps) (simp add: k_def Let_def)
    then show ?thesis using b by auto
  qed
qed

text \<open>
  The square root of \<open>r\<close>, scaled by a power of four to an integer of at least 108 bits; what lies
  between two integers is represented by the half between them, which rounds the same way.
\<close>

definition sqrt_rat :: "rat \<Rightarrow> rat" where
  "sqrt_rat r = (let k = max 0 (60 - ilog2 r div 2);
       q = r * power_int 4 k; n = nat \<lfloor>q\<rfloor>; s = isqrt n
     in (if of_nat (s * s) = q then of_nat s else of_nat s + 1 / 2) / power_int 2 k)"

fun dsqrt :: "double \<Rightarrow> double" where
  "dsqrt DNaN = DNaN"
| "dsqrt (DInf s) = (if s then DNaN else DInf False)"
| "dsqrt (DZero s) = DZero s"
| "dsqrt (DFin r) = (if r < 0 then DNaN else round_double False (sqrt_rat r))"

section \<open>Remainder and roundings\<close>

definition trunc_rat :: "rat \<Rightarrow> int" where
  "trunc_rat x = (if x < 0 then \<lceil>x\<rceil> else \<lfloor>x\<rfloor>)"

fun dfmod :: "double \<Rightarrow> double \<Rightarrow> double" where
  "dfmod DNaN _ = DNaN"
| "dfmod _ DNaN = DNaN"
| "dfmod (DInf _) _ = DNaN"
| "dfmod _ (DZero _) = DNaN"
| "dfmod x (DInf _) = x"
| "dfmod (DZero s) _ = DZero s"
| "dfmod (DFin x) (DFin y) = (let r = x - of_int (trunc_rat (x / y)) * y in if r = 0 then DZero (x < 0) else DFin r)"

fun to_integral :: "(rat \<Rightarrow> int) \<Rightarrow> double \<Rightarrow> double" where
  "to_integral f (DFin r) = (let n = f r in if n = 0 then DZero (r < 0) else DFin (of_int n))"
| "to_integral f x = x"

definition dceil :: "double \<Rightarrow> double" where
  "dceil = to_integral ceiling"

definition dfloor :: "double \<Rightarrow> double" where
  "dfloor = to_integral floor"

definition dtrunc :: "double \<Rightarrow> double" where
  "dtrunc = to_integral trunc_rat"

section \<open>Order\<close>

definition dmin :: "double \<Rightarrow> double \<Rightarrow> double" where
  "dmin a b = (if dlt b a then b else a)"

definition dmax :: "double \<Rightarrow> double \<Rightarrow> double" where
  "dmax a b = (if dlt a b then b else a)"

definition dclamp :: "double \<Rightarrow> double \<Rightarrow> double \<Rightarrow> double" where
  "dclamp v lo hi = (if dlt v lo then lo else if dlt hi v then hi else v)"

text \<open>
  \<^verbatim>\<open>std::sort\<close>. Where two elements are equivalent (two zeros of different sign) the standard leaves
  their order open; with a NaN among the elements it leaves everything open, which is \<^const>\<open>None\<close>.
\<close>

fun dinsert :: "double \<Rightarrow> double list \<Rightarrow> double list" where
  "dinsert x [] = [x]"
| "dinsert x (y # ys) = (if dlt y x then y # dinsert x ys else x # y # ys)"

definition dsort :: "double list \<Rightarrow> double list option" where
  "dsort xs = (if list_ex isnan xs then None else Some (foldr dinsert xs []))"

section \<open>The rest of the mathematics library\<close>

record Libm =
  lm_pow :: "double \<Rightarrow> double \<Rightarrow> double"
  lm_cbrt :: "double \<Rightarrow> double"
  lm_exp :: "double \<Rightarrow> double"
  lm_log :: "double \<Rightarrow> double"
  lm_log2 :: "double \<Rightarrow> double"
  lm_log10 :: "double \<Rightarrow> double"
  lm_sin :: "double \<Rightarrow> double"
  lm_cos :: "double \<Rightarrow> double"
  lm_tan :: "double \<Rightarrow> double"
  lm_asin :: "double \<Rightarrow> double"
  lm_acos :: "double \<Rightarrow> double"
  lm_atan :: "double \<Rightarrow> double"
  lm_atan2 :: "double \<Rightarrow> double \<Rightarrow> double"

section \<open>Facts\<close>

text \<open>On values that are not NaN, \<open>dlt\<close> is a strict weak order.\<close>

lemma dlt_irrefl [simp]: "\<not> dlt x x"
  by (cases x) auto

lemma dlt_trans: "dlt x y \<Longrightarrow> dlt y z \<Longrightarrow> dlt x z"
  by (cases x; cases y; cases z) auto

lemma dlt_asym: "dlt x y \<Longrightarrow> \<not> dlt y x"
  using dlt_trans dlt_irrefl by blast

lemma not_dlt_trans: "\<not> isnan y \<Longrightarrow> \<not> dlt x y \<Longrightarrow> \<not> dlt y z \<Longrightarrow> \<not> dlt x z"
  by (cases x; cases y; cases z) auto

lemma not_dlt_dlt_trans: "\<not> isnan x \<Longrightarrow> \<not> isnan z \<Longrightarrow> \<not> dlt y x \<Longrightarrow> dlt y z \<Longrightarrow> dlt x z"
  by (cases x; cases y; cases z) auto

definition dsorted :: "double list \<Rightarrow> bool" where
  "dsorted xs \<longleftrightarrow> sorted_wrt (\<lambda>x y. \<not> dlt y x) xs"

lemma set_dinsert [simp]: "set (dinsert x ys) = insert x (set ys)"
  by (induction ys) auto

lemma length_dinsert [simp]: "length (dinsert x ys) = Suc (length ys)"
  by (induction ys) auto

lemma dinsert_sorted:
  assumes "\<not> isnan x" "\<forall>y\<in>set ys. \<not> isnan y" "dsorted ys"
  shows "dsorted (dinsert x ys)"
  using assms
proof (induction ys)
  case (Cons y ys)
  show ?case
  proof (cases "dlt y x")
    case True
    then show ?thesis using Cons dlt_asym [OF True] by (auto simp: dsorted_def)
  next
    case False
    have "\<not> dlt z x" if "z \<in> set ys" for z
      using not_dlt_trans [of y z x] False that Cons.prems by (auto simp: dsorted_def)
    then show ?thesis using False Cons.prems by (auto simp: dsorted_def)
  qed
qed (simp add: dsorted_def)

lemma length_filter_dinsert: "length (filter P (dinsert x ys)) = length (filter P (x # ys))"
  by (induction ys) auto

lemma dsort_props:
  assumes "dsort xs = Some ys"
  shows "dsorted ys" "set ys = set xs" "length ys = length xs" "length (filter P ys) = length (filter P xs)"
    "\<forall>x\<in>set xs. \<not> isnan x"
proof -
  have ys: "ys = foldr dinsert xs []" and nn: "\<forall>x\<in>set xs. \<not> isnan x"
    using assms by (auto simp: dsort_def list_ex_iff split: if_splits)
  have "dsorted (foldr dinsert xs []) \<and> set (foldr dinsert xs []) = set xs \<and> length (foldr dinsert xs []) = length xs
      \<and> length (filter P (foldr dinsert xs [])) = length (filter P xs)"
    using nn by (induction xs) (auto simp: dinsert_sorted length_filter_dinsert, simp add: dsorted_def)
  then show "dsorted ys" "set ys = set xs" "length ys = length xs" "length (filter P ys) = length (filter P xs)" by (simp_all add: ys)
  show "\<forall>x\<in>set xs. \<not> isnan x" by (rule nn)
qed

text \<open>The middle of a sorted list: at most as many elements lie strictly below or above it as there
  are positions on that side.\<close>

lemma dsorted_rank:
  assumes "dsorted ys" "i < length ys"
  shows "length (filter (\<lambda>x. dlt x (ys ! i)) ys) \<le> i" "length (filter (\<lambda>x. dlt (ys ! i) x) ys) \<le> length ys - Suc i"
proof -
  let ?m = "ys ! i"
  have split: "ys = take i ys @ ?m # drop (Suc i) ys" using assms(2) by (simp add: id_take_nth_drop)
  have s: "sorted_wrt (\<lambda>x y. \<not> dlt y x) (take i ys @ ?m # drop (Suc i) ys)"
    using assms(1) by (simp only: split [symmetric] dsorted_def)
  have lo: "filter (\<lambda>x. dlt x ?m) (drop (Suc i) ys) = []" and hi: "filter (\<lambda>x. dlt ?m x) (take i ys) = []"
    using s by (auto simp: sorted_wrt_append filter_empty_conv)
  have "filter (\<lambda>x. dlt x ?m) ys = filter (\<lambda>x. dlt x ?m) (take i ys)"
    by (subst (2) split) (simp add: lo)
  then show "length (filter (\<lambda>x. dlt x ?m) ys) \<le> i" using length_filter_le [of "\<lambda>x. dlt x ?m" "take i ys"] by simp
  have "filter (\<lambda>x. dlt ?m x) ys = filter (\<lambda>x. dlt ?m x) (drop (Suc i) ys)"
    by (subst (2) split) (simp add: hi)
  then show "length (filter (\<lambda>x. dlt ?m x) ys) \<le> length ys - Suc i"
    using length_filter_le [of "\<lambda>x. dlt ?m x" "drop (Suc i) ys"] by simp
qed

text \<open>Running minimum and maximum.\<close>

lemma fold_extreme:
  assumes "\<forall>x\<in>set (a # v). \<not> isnan x"
  shows "fold (\<lambda>x m. dmin m x) v a \<in> set (a # v) \<and> (\<forall>x\<in>set (a # v). \<not> dlt x (fold (\<lambda>x m. dmin m x) v a))"
    and "fold (\<lambda>x m. dmax m x) v a \<in> set (a # v) \<and> (\<forall>x\<in>set (a # v). \<not> dlt (fold (\<lambda>x m. dmax m x) v a) x)"
proof -
  show "fold (\<lambda>x m. dmin m x) v a \<in> set (a # v) \<and> (\<forall>x\<in>set (a # v). \<not> dlt x (fold (\<lambda>x m. dmin m x) v a))"
    using assms
  proof (induction v arbitrary: a)
    case (Cons x v)
    have m: "dmin a x = a \<or> dmin a x = x" "\<not> dlt a (dmin a x)" "\<not> dlt x (dmin a x)" "\<not> isnan (dmin a x)"
      using Cons.prems dlt_asym by (auto simp: dmin_def)
    have ih: "fold (\<lambda>x m. dmin m x) v (dmin a x) \<in> set (dmin a x # v)"
      "\<forall>y\<in>set (dmin a x # v). \<not> dlt y (fold (\<lambda>x m. dmin m x) v (dmin a x))" using Cons.IH [of "dmin a x"] Cons.prems m(4) by auto
    let ?f = "fold (\<lambda>x m. dmin m x) v (dmin a x)"
    have f: "\<not> dlt (dmin a x) ?f" using ih(2) by simp
    have "\<not> dlt a ?f" "\<not> dlt x ?f" by (rule not_dlt_trans [OF m(4) m(2) f], rule not_dlt_trans [OF m(4) m(3) f])
    moreover have "?f \<in> set (a # x # v)" using ih(1) m(1) by auto
    ultimately show ?case using ih(2) by simp
  qed simp
  show "fold (\<lambda>x m. dmax m x) v a \<in> set (a # v) \<and> (\<forall>x\<in>set (a # v). \<not> dlt (fold (\<lambda>x m. dmax m x) v a) x)"
    using assms
  proof (induction v arbitrary: a)
    case (Cons x v)
    have m: "dmax a x = a \<or> dmax a x = x" "\<not> dlt (dmax a x) a" "\<not> dlt (dmax a x) x" "\<not> isnan (dmax a x)"
      using Cons.prems dlt_asym by (auto simp: dmax_def)
    have ih: "fold (\<lambda>x m. dmax m x) v (dmax a x) \<in> set (dmax a x # v)"
      "\<forall>y\<in>set (dmax a x # v). \<not> dlt (fold (\<lambda>x m. dmax m x) v (dmax a x)) y" using Cons.IH [of "dmax a x"] Cons.prems m(4) by auto
    let ?f = "fold (\<lambda>x m. dmax m x) v (dmax a x)"
    have f: "\<not> dlt ?f (dmax a x)" using ih(2) by simp
    have "\<not> dlt ?f a" "\<not> dlt ?f x" by (rule not_dlt_trans [OF m(4) f m(2)], rule not_dlt_trans [OF m(4) f m(3)])
    moreover have "?f \<in> set (a # x # v)" using ih(1) m(1) by auto
    ultimately show ?case using ih(2) by simp
  qed simp
qed

end
