(* ===== verification/Builtin_Functions.thy ===== *)
theory Builtin_Functions
  imports Ieee_Math
begin

text \<open>
  The registry of reducers (\<^verbatim>\<open>core/FunctionMap.cpp\<close>) and the reducers the engine registers
  (\<^verbatim>\<open>core/BuiltinFunctions.cpp\<close>). A registered function maps the values to a result, or to
  \<^const>\<open>None\<close> when it throws or its result is unspecified; a missing name is the exception the
  look-up throws. Expressions are evaluated in binary64 without contraction.
\<close>

section \<open>FunctionMap\<close>

type_synonym Func = "double list \<Rightarrow> double option"
type_synonym ParamFunc = "double list \<Rightarrow> (string \<rightharpoonup> double) \<Rightarrow> double option"

record FunctionMap =
  fm_map :: "(string, Func) umap"
  fm_paramMap :: "(string, ParamFunc) umap"

definition FunctionMap_init :: FunctionMap where
  "FunctionMap_init = \<lparr> fm_map = [], fm_paramMap = [] \<rparr>"

definition registerFunction :: "string \<Rightarrow> Func \<Rightarrow> FunctionMap \<Rightarrow> FunctionMap" where
  "registerFunction name f fm = fm \<lparr> fm_map := AList.update name f (fm_map fm) \<rparr>"

definition registerParamFunction :: "string \<Rightarrow> ParamFunc \<Rightarrow> FunctionMap \<Rightarrow> FunctionMap" where
  "registerParamFunction name f fm = fm \<lparr> fm_paramMap := AList.update name f (fm_paramMap fm) \<rparr>"

definition getFunction :: "string \<Rightarrow> FunctionMap \<Rightarrow> Func option" where
  "getFunction name fm = map_of (fm_map fm) name"

definition getParamFunction :: "string \<Rightarrow> FunctionMap \<Rightarrow> ParamFunc option" where
  "getParamFunction name fm = map_of (fm_paramMap fm) name"

definition isParametric :: "string \<Rightarrow> FunctionMap \<Rightarrow> bool" where
  "isParametric name fm \<longleftrightarrow> map_of (fm_paramMap fm) name \<noteq> None"

definition fm_getAll :: "FunctionMap \<Rightarrow> (string \<times> Func) list" where
  "fm_getAll fm = fm_map fm"

section \<open>Constants\<close>

abbreviation d0 :: double where "d0 \<equiv> DZero False"
abbreviation d1 :: double where "d1 \<equiv> DFin 1"
abbreviation d2 :: double where "d2 \<equiv> DFin 2"
abbreviation d100 :: double where "d100 \<equiv> DFin 100"
abbreviation dhalf :: double where "dhalf \<equiv> DFin (1 / 2)"

definition EPSILON :: double where
  "EPSILON = dlit (1 / 10 ^ 6)"

definition dsize :: "'a list \<Rightarrow> double" where
  "dsize v = double_of_int (int (length v))"

definition of_flag :: "bool \<Rightarrow> double" where
  "of_flag b = (if b then d1 else d0)"

section \<open>Aggregation\<close>

definition fn_sum :: "double list \<Rightarrow> double" where
  "fn_sum v = fold (\<lambda>x s. dadd s x) v d0"

definition fn_mean :: "double list \<Rightarrow> double" where
  "fn_mean v = (if v = [] then d0 else ddiv (fn_sum v) (dsize v))"

definition fn_avg :: "double list \<Rightarrow> double" where
  "fn_avg v = (if v = [] then d0 else ddiv (fn_sum v) (dsize v))"

definition fn_product :: "double list \<Rightarrow> double" where
  "fn_product v = (if v = [] then d0 else fold (\<lambda>x p. dmul p x) v d1)"

definition fn_min :: "double list \<Rightarrow> double" where
  "fn_min v = (case v of [] \<Rightarrow> d0 | a # xs \<Rightarrow> fold (\<lambda>x m. dmin m x) xs a)"

definition fn_max :: "double list \<Rightarrow> double" where
  "fn_max v = (case v of [] \<Rightarrow> d0 | a # xs \<Rightarrow> fold (\<lambda>x m. dmax m x) xs a)"

definition fn_last :: "double list \<Rightarrow> double" where
  "fn_last v = (if v = [] then d0 else last v)"

definition fn_first :: "double list \<Rightarrow> double" where
  "fn_first v = (if v = [] then d0 else hd v)"

definition fn_count :: "double list \<Rightarrow> double" where
  "fn_count v = dsize v"

definition fn_median :: "double list \<Rightarrow> double option" where
  "fn_median v = (if v = [] then Some d0
     else case dsort v of
         None \<Rightarrow> None
       | Some xs \<Rightarrow> (let n = length xs
           in Some (if n mod 2 = 1 then xs ! (n div 2) else dmul (dadd (xs ! (n div 2 - 1)) (xs ! (n div 2))) dhalf)))"

definition fn_range :: "double list \<Rightarrow> double" where
  "fn_range v = (case v of
       a # b # xs \<Rightarrow> dsub (fold (\<lambda>x m. dmax m x) (b # xs) a) (fold (\<lambda>x m. dmin m x) (b # xs) a)
     | _ \<Rightarrow> d0)"

text \<open>The sum of squared distances from the mean, as the three functions below compute it.\<close>

definition sum_sq :: "double list \<Rightarrow> double" where
  "sum_sq v = (let mean = ddiv (fn_sum v) (dsize v) in fold (\<lambda>x ss. let d = dsub x mean in dadd ss (dmul d d)) v d0)"

definition fn_stddev :: "double list \<Rightarrow> double" where
  "fn_stddev v = (if length v < 2 then d0 else dsqrt (ddiv (sum_sq v) (dsize v)))"

definition fn_variance :: "double list \<Rightarrow> double" where
  "fn_variance v = (if length v < 2 then d0 else ddiv (sum_sq v) (dsize v))"

section \<open>Two values\<close>

definition fn_diff :: "double list \<Rightarrow> double" where
  "fn_diff v = (if length v \<ge> 2 then dsub (last v) (hd v) else d0)"

definition fn_spread :: "double list \<Rightarrow> double" where
  "fn_spread v = (case v of
       a # b # xs \<Rightarrow> dsub (fold (\<lambda>x m. dmax m x) (b # xs) a) (fold (\<lambda>x m. dmin m x) (b # xs) a)
     | _ \<Rightarrow> d0)"

text \<open>\<^verbatim>\<open>std::abs(x) > EPSILON\<close>.\<close>

definition above_eps :: "double \<Rightarrow> bool" where
  "above_eps x \<longleftrightarrow> dlt EPSILON (dabs x)"

definition fn_div :: "double list \<Rightarrow> double" where
  "fn_div v = (if length v < 2 then d0 else if above_eps (last v) then ddiv (hd v) (last v) else d0)"

definition fn_mod :: "double list \<Rightarrow> double" where
  "fn_mod v = (if length v < 2 then d0 else if above_eps (last v) then dfmod (hd v) (last v) else d0)"

definition fn_pow :: "Libm \<Rightarrow> double list \<Rightarrow> double" where
  "fn_pow lm v = (if length v < 2 then d0 else lm_pow lm (hd v) (last v))"

definition fn_midpoint :: "double list \<Rightarrow> double" where
  "fn_midpoint v = (if length v < 2 then (if v = [] then d0 else hd v) else dmul (dadd (hd v) (last v)) dhalf)"

definition fn_pct_change :: "double list \<Rightarrow> double" where
  "fn_pct_change v = (if length v < 2 then d0
     else if above_eps (hd v) then ddiv (dmul d100 (dsub (last v) (hd v))) (hd v) else d0)"

definition fn_ratio :: "double list \<Rightarrow> double" where
  "fn_ratio v = (if length v < 2 then d0 else if above_eps (last v) then ddiv (hd v) (last v) else d0)"

section \<open>One value\<close>

definition on_last :: "(double \<Rightarrow> double) \<Rightarrow> double list \<Rightarrow> double" where
  "on_last f v = (if v = [] then d0 else f (last v))"

definition fn_abs :: "double list \<Rightarrow> double" where "fn_abs = on_last dabs"
definition fn_neg :: "double list \<Rightarrow> double" where "fn_neg = on_last dminus"

definition fn_reciprocal :: "double list \<Rightarrow> double" where
  "fn_reciprocal = on_last (\<lambda>x. if above_eps x then ddiv d1 x else d0)"

definition fn_sqrt :: "double list \<Rightarrow> double" where "fn_sqrt = on_last (\<lambda>x. dsqrt (dabs x))"
definition fn_cbrt :: "Libm \<Rightarrow> double list \<Rightarrow> double" where "fn_cbrt lm = on_last (lm_cbrt lm)"
definition fn_exp :: "Libm \<Rightarrow> double list \<Rightarrow> double" where "fn_exp lm = on_last (lm_exp lm)"

definition fn_log :: "Libm \<Rightarrow> double list \<Rightarrow> double" where
  "fn_log lm = on_last (\<lambda>x. if dle x d0 then d0 else lm_log lm x)"

definition fn_log2 :: "Libm \<Rightarrow> double list \<Rightarrow> double" where
  "fn_log2 lm = on_last (\<lambda>x. if dle x d0 then d0 else lm_log2 lm x)"

definition fn_log10 :: "Libm \<Rightarrow> double list \<Rightarrow> double" where
  "fn_log10 lm = on_last (\<lambda>x. if dle x d0 then d0 else lm_log10 lm x)"

definition fn_ceil :: "double list \<Rightarrow> double" where "fn_ceil = on_last dceil"
definition fn_floor :: "double list \<Rightarrow> double" where "fn_floor = on_last dfloor"
definition fn_round :: "double list \<Rightarrow> double" where "fn_round = on_last dround"
definition fn_trunc :: "double list \<Rightarrow> double" where "fn_trunc = on_last dtrunc"

definition fn_sign :: "double list \<Rightarrow> double" where
  "fn_sign = on_last (\<lambda>x. if dlt d0 x then d1 else if dlt x d0 then DFin (- 1) else d0)"

definition fn_sin :: "Libm \<Rightarrow> double list \<Rightarrow> double" where "fn_sin lm = on_last (lm_sin lm)"
definition fn_cos :: "Libm \<Rightarrow> double list \<Rightarrow> double" where "fn_cos lm = on_last (lm_cos lm)"
definition fn_tan :: "Libm \<Rightarrow> double list \<Rightarrow> double" where "fn_tan lm = on_last (lm_tan lm)"

definition fn_asin :: "Libm \<Rightarrow> double list \<Rightarrow> double" where
  "fn_asin lm = on_last (\<lambda>x. lm_asin lm (dclamp x (DFin (- 1)) d1))"

definition fn_acos :: "Libm \<Rightarrow> double list \<Rightarrow> double" where
  "fn_acos lm = on_last (\<lambda>x. lm_acos lm (dclamp x (DFin (- 1)) d1))"

definition fn_atan :: "Libm \<Rightarrow> double list \<Rightarrow> double" where "fn_atan lm = on_last (lm_atan lm)"

definition fn_atan2 :: "Libm \<Rightarrow> double list \<Rightarrow> double" where
  "fn_atan2 lm v = (if length v < 2 then d0 else lm_atan2 lm (hd v) (last v))"

section \<open>Comparison and logic\<close>

definition fn_gt :: "double list \<Rightarrow> double" where
  "fn_gt v = of_flag (length v \<ge> 2 \<and> dlt (last v) (hd v))"

definition fn_lt :: "double list \<Rightarrow> double" where
  "fn_lt v = of_flag (length v \<ge> 2 \<and> dlt (hd v) (last v))"

definition fn_gte :: "double list \<Rightarrow> double" where
  "fn_gte v = of_flag (length v \<ge> 2 \<and> dle (last v) (hd v))"

definition fn_lte :: "double list \<Rightarrow> double" where
  "fn_lte v = of_flag (length v \<ge> 2 \<and> dle (hd v) (last v))"

definition fn_eq :: "double list \<Rightarrow> double" where
  "fn_eq v = of_flag (length v \<ge> 2 \<and> dlt (dabs (dsub (hd v) (last v))) EPSILON)"

definition fn_neq :: "double list \<Rightarrow> double" where
  "fn_neq v = of_flag (length v \<ge> 2 \<and> dle EPSILON (dabs (dsub (hd v) (last v))))"

definition fn_and :: "double list \<Rightarrow> double" where
  "fn_and v = (if v = [] then d0 else of_flag (\<not> list_ex (\<lambda>x. dle x dhalf) v))"

definition fn_or :: "double list \<Rightarrow> double" where
  "fn_or v = of_flag (list_ex (\<lambda>x. dlt dhalf x) v)"

definition fn_not :: "double list \<Rightarrow> double" where
  "fn_not v = of_flag (v \<noteq> [] \<and> dle (last v) dhalf)"

section \<open>Derived\<close>

definition fn_zscore :: "double list \<Rightarrow> double" where
  "fn_zscore v = (if length v < 3 then d0
     else let mean = ddiv (fn_sum v) (dsize v); sd = dsqrt (ddiv (sum_sq v) (dsize v))
          in if above_eps sd then ddiv (dsub (last v) mean) sd else d0)"

definition fn_ema_weight :: "double list \<Rightarrow> double" where
  "fn_ema_weight v = (case v of [] \<Rightarrow> d0
     | a # xs \<Rightarrow> (let k = ddiv d2 (dadd (dsize v) d1)
         in fold (\<lambda>x ema. dadd (dmul k x) (dmul (dsub d1 k) ema)) xs a))"

definition fn_cumulative_return :: "double list \<Rightarrow> double" where
  "fn_cumulative_return v = (if length v < 2 then d0
     else if above_eps (hd v) then ddiv (dsub (last v) (hd v)) (hd v) else d0)"

definition pfn_scale :: ParamFunc where
  "pfn_scale xs params = Some (if xs = [] then d0 else dmul (last xs) (case params ''factor'' of None \<Rightarrow> d1 | Some f \<Rightarrow> f))"

section \<open>Registration\<close>

definition builtin_functions :: "Libm \<Rightarrow> (string \<times> Func) list" where
  "builtin_functions lm =
     [(''mean'', Some \<circ> fn_mean), (''avg'', Some \<circ> fn_avg), (''sum'', Some \<circ> fn_sum), (''product'', Some \<circ> fn_product),
      (''min'', Some \<circ> fn_min), (''max'', Some \<circ> fn_max), (''last'', Some \<circ> fn_last), (''first'', Some \<circ> fn_first),
      (''count'', Some \<circ> fn_count), (''median'', fn_median), (''range'', Some \<circ> fn_range), (''stddev'', Some \<circ> fn_stddev),
      (''variance'', Some \<circ> fn_variance), (''diff'', Some \<circ> fn_diff), (''spread'', Some \<circ> fn_spread), (''div'', Some \<circ> fn_div),
      (''mod'', Some \<circ> fn_mod), (''pow'', Some \<circ> fn_pow lm), (''midpoint'', Some \<circ> fn_midpoint),
      (''pct_change'', Some \<circ> fn_pct_change), (''ratio'', Some \<circ> fn_ratio), (''abs'', Some \<circ> fn_abs), (''neg'', Some \<circ> fn_neg),
      (''reciprocal'', Some \<circ> fn_reciprocal), (''sqrt'', Some \<circ> fn_sqrt), (''cbrt'', Some \<circ> fn_cbrt lm), (''exp'', Some \<circ> fn_exp lm),
      (''log'', Some \<circ> fn_log lm), (''log2'', Some \<circ> fn_log2 lm), (''log10'', Some \<circ> fn_log10 lm), (''ceil'', Some \<circ> fn_ceil),
      (''floor'', Some \<circ> fn_floor), (''round'', Some \<circ> fn_round), (''trunc'', Some \<circ> fn_trunc), (''sign'', Some \<circ> fn_sign),
      (''sin'', Some \<circ> fn_sin lm), (''cos'', Some \<circ> fn_cos lm), (''tan'', Some \<circ> fn_tan lm), (''asin'', Some \<circ> fn_asin lm),
      (''acos'', Some \<circ> fn_acos lm), (''atan'', Some \<circ> fn_atan lm), (''atan2'', Some \<circ> fn_atan2 lm), (''gt'', Some \<circ> fn_gt),
      (''lt'', Some \<circ> fn_lt), (''gte'', Some \<circ> fn_gte), (''lte'', Some \<circ> fn_lte), (''eq'', Some \<circ> fn_eq), (''neq'', Some \<circ> fn_neq),
      (''and'', Some \<circ> fn_and), (''or'', Some \<circ> fn_or), (''not'', Some \<circ> fn_not), (''zscore'', Some \<circ> fn_zscore),
      (''ema_weight'', Some \<circ> fn_ema_weight), (''cumulative_return'', Some \<circ> fn_cumulative_return)]"

definition registerBuiltinFunctions :: "Libm \<Rightarrow> FunctionMap \<Rightarrow> FunctionMap" where
  "registerBuiltinFunctions lm fm =
     fold (\<lambda>(name, f). registerFunction name f) (builtin_functions lm) (registerParamFunction ''scale'' pfn_scale fm)"

section \<open>Registration is complete\<close>

lemma fold_register:
  "fm_paramMap (fold (\<lambda>(name, f). registerFunction name f) fs fm) = fm_paramMap fm"
  "map_of (fm_map (fold (\<lambda>(name, f). registerFunction name f) fs fm)) = map_of (fm_map fm) ++ map_of (rev fs)"
  by (induction fs arbitrary: fm) (auto simp: registerFunction_def umap_simps)

lemma builtin_names_distinct: "um_wf (builtin_functions lm)"
  by (simp add: builtin_functions_def)

lemma registered_builtin:
  "getFunction name (registerBuiltinFunctions lm FunctionMap_init) = map_of (builtin_functions lm) name"
  using map_of_inject_set [of "rev (builtin_functions lm)" "builtin_functions lm"] builtin_names_distinct [of lm]
  by (simp add: getFunction_def registerBuiltinFunctions_def fold_register registerParamFunction_def FunctionMap_init_def
      rev_map [symmetric])

lemma registered_parametric: "isParametric name (registerBuiltinFunctions lm FunctionMap_init) \<longleftrightarrow> name = ''scale''"
  by (simp add: isParametric_def registerBuiltinFunctions_def fold_register registerParamFunction_def FunctionMap_init_def)

section \<open>Extrema and median\<close>

text \<open>On a non-empty list without NaN, \<^verbatim>\<open>min\<close> and \<^verbatim>\<open>max\<close> return an element no element is below
  or above, and \<^verbatim>\<open>range\<close> and \<^verbatim>\<open>spread\<close> are their difference.\<close>

theorem builtin_extrema:
  assumes "v \<noteq> []" and "\<forall>x\<in>set v. \<not> isnan x"
  shows "fn_min v \<in> set v \<and> (\<forall>x\<in>set v. \<not> dlt x (fn_min v)) \<and> fn_max v \<in> set v \<and> (\<forall>x\<in>set v. \<not> dlt (fn_max v) x) \<and>
    (length v \<ge> 2 \<longrightarrow> fn_range v = dsub (fn_max v) (fn_min v) \<and> fn_spread v = fn_range v)"
proof -
  obtain a xs where v: "v = a # xs" using assms(1) by (cases v) auto
  show ?thesis using fold_extreme [of a xs] assms(2)
    by (cases xs) (simp_all add: v fn_min_def fn_max_def fn_range_def fn_spread_def)
qed

theorem builtin_extrema_witness:
  "fn_min [DFin 3, DFin (- 1), DInf False] \<in> {DFin 3, DFin (- 1), DInf False} \<and>
   fn_range [DFin 3, DFin (- 1), DInf False] = dsub (fn_max [DFin 3, DFin (- 1), DInf False]) (fn_min [DFin 3, DFin (- 1), DInf False])"
  using builtin_extrema [of "[DFin 3, DFin (- 1), DInf False]"] by simp

text \<open>On a non-empty list without NaN the median exists. For an odd number of values it is one of
  them, with at most half of the values strictly below it and at most half strictly above; for an
  even number it is the rounded average of two values that split the list in the middle.\<close>

theorem builtin_median:
  assumes "v \<noteq> []" and "\<forall>x\<in>set v. \<not> isnan x"
  shows "\<exists>lo hi. fn_median v = Some (if odd (length v) then hi else dmul (dadd lo hi) dhalf) \<and> lo \<in> set v \<and> hi \<in> set v \<and> \<not> dlt hi lo \<and>
    length (filter (\<lambda>x. dlt x hi) v) \<le> length v div 2 \<and> length (filter (\<lambda>x. dlt lo x) v) \<le> length v div 2 \<and>
    (odd (length v) \<longrightarrow> lo = hi)"
proof -
  obtain ys where ys: "dsort v = Some ys" using assms(2) by (auto simp: dsort_def list_ex_iff)
  note p = dsort_props [OF ys]
  define n where "n = length v"
  have n: "0 < n" using assms(1) by (simp add: n_def)
  define hi lo where "hi = ys ! (n div 2)" and "lo = (if odd n then hi else ys ! (n div 2 - 1))"
  have i: "n div 2 < length ys" using n p(3) by (simp add: n_def)
  then have i: "n div 2 < length ys" "n div 2 - 1 < length ys" by linarith+
  have r: "length (filter (\<lambda>x. dlt x hi) v) \<le> n div 2" "length (filter (\<lambda>x. dlt hi x) v) \<le> n - Suc (n div 2)"
    "length (filter (\<lambda>x. dlt (ys ! (n div 2 - 1)) x) v) \<le> n - Suc (n div 2 - 1)"
    using dsorted_rank [OF p(1) i(1)] dsorted_rank(2) [OF p(1) i(2)] p(3,4) by (simp_all add: hi_def n_def)
  have half: "n - Suc (n div 2) \<le> n div 2" "even n \<Longrightarrow> n - Suc (n div 2 - 1) \<le> n div 2" using n by (auto elim!: evenE)
  have up: "length (filter (\<lambda>x. dlt lo x) v) \<le> n div 2" using r(2,3) half by (auto simp: lo_def)
  have "\<not> dlt hi lo"
  proof (cases "odd n")
    case False
    then have "n div 2 - 1 < n div 2" using n by (auto elim!: evenE)
    then show ?thesis using p(1) i(1) False
      by (simp add: dsorted_def sorted_wrt_iff_nth_less lo_def hi_def)
  qed (simp add: lo_def)
  moreover have "lo \<in> set v" "hi \<in> set v" using i p(2) nth_mem by (auto simp: lo_def hi_def)
  moreover have "fn_median v = Some (if odd n then hi else dmul (dadd lo hi) dhalf)"
    using ys p(3) assms(1) by (simp add: fn_median_def Let_def hi_def lo_def n_def odd_iff_mod_2_eq_one)
  moreover have "odd n \<longrightarrow> lo = hi" by (simp add: lo_def)
  ultimately show ?thesis using r(1) up by (intro exI [of _ lo] exI [of _ hi]) (simp add: n_def [symmetric])
qed

theorem builtin_median_witness:
  "\<exists>lo hi. fn_median [DFin 3, DFin 1, DFin 2] = Some hi \<and> lo = hi \<and> hi \<in> {DFin 3, DFin 1, DFin 2}"
  using builtin_median [of "[DFin 3, DFin 1, DFin 2]"] by auto

section \<open>Guarded divisions\<close>

lemma round_double_not_nan [simp]: "\<not> isnan (round_double z x)"
  by (simp add: round_double_def Let_def)

lemma dadd_not_nan: "isfinite x \<Longrightarrow> isfinite y \<Longrightarrow> \<not> isnan (dadd x y)"
  by (cases x; cases y) (auto simp: isfinite_def)

lemma dminus_finite [simp]: "isfinite (dminus x) = isfinite x"
  by (cases x) (auto simp: isfinite_def)

lemma dsub_not_nan: "isfinite x \<Longrightarrow> isfinite y \<Longrightarrow> \<not> isnan (dsub x y)"
  by (simp add: dsub_def dadd_not_nan)

lemma ddiv_not_nan: "\<not> isnan x \<Longrightarrow> \<not> isnan (ddiv x (DFin y))"
  by (cases x) auto

lemma dfmod_not_nan: "isfinite x \<Longrightarrow> \<not> isnan (dfmod x (DFin y))"
  by (cases x) (auto simp: isfinite_def Let_def)

lemma dmul_not_nan: "\<not> isnan y \<Longrightarrow> \<not> isnan (dmul (DFin x) y)"
  by (cases y) auto

lemma EPSILON_pos: "EPSILON = DInf False \<or> (\<exists>e > 0. EPSILON = DFin e) \<or> EPSILON = DZero False"
proof -
  have "0 \<le> rnd (1 / 10 ^ 6)" by (rule rnd.nonneg) simp
  then show ?thesis by (auto simp: EPSILON_def dlit_def round_double_def Let_def less_le)
qed

lemma eps_zero: "\<not> dlt EPSILON d0"
proof -
  consider "EPSILON = DInf False" | e where "e > 0" "EPSILON = DFin e" | "EPSILON = DZero False" using EPSILON_pos by blast
  then show ?thesis
  proof cases
    case 1
    show ?thesis unfolding 1 by simp
  next
    case 2
    then show ?thesis unfolding 2(2) by simp
  next
    case 3
    show ?thesis unfolding 3 by simp
  qed
qed

lemma above_eps_finite: "above_eps x \<Longrightarrow> isfinite x \<Longrightarrow> \<exists>r. x = DFin r"
  using eps_zero by (cases x) (auto simp: above_eps_def isfinite_def)

text \<open>On finite values the dividing reducers never return NaN: their guard excludes a zero
  denominator.\<close>

theorem guarded_division_no_nan:
  assumes "\<forall>x\<in>set v. isfinite x" and "f \<in> {fn_div, fn_ratio, fn_mod, fn_reciprocal, fn_pct_change, fn_cumulative_return}"
  shows "\<not> isnan (f v)"
proof (cases "v = []")
  case True
  then show ?thesis using assms(2)
    by (auto simp: fn_div_def fn_ratio_def fn_mod_def fn_reciprocal_def fn_pct_change_def fn_cumulative_return_def on_last_def)
next
  case False
  then have fin: "isfinite (hd v)" "isfinite (last v)" using assms(1) by simp_all
  then have nn: "\<not> isnan (hd v)" "\<not> isnan (last v)" by (simp_all add: isfinite_def)
  have d: "\<not> isnan (ddiv x (hd v))" if "above_eps (hd v)" "\<not> isnan x" for x
    using above_eps_finite [OF that(1) fin(1)] ddiv_not_nan that(2) by auto
  have e: "\<not> isnan (ddiv x (last v))" "\<not> isnan (dfmod (hd v) (last v))" if "above_eps (last v)" "\<not> isnan x" for x
    using above_eps_finite [OF that(1) fin(2)] ddiv_not_nan that(2) dfmod_not_nan [OF fin(1)] by auto
  show ?thesis using assms(2) d e nn fin dsub_not_nan [OF fin(2,1)] dmul_not_nan
    by (auto simp: fn_div_def fn_ratio_def fn_mod_def fn_reciprocal_def fn_pct_change_def fn_cumulative_return_def on_last_def
        split: if_splits)
qed

theorem guarded_division_no_nan_witness: "\<not> isnan (fn_div [DFin 1, DZero False])"
  using guarded_division_no_nan [of "[DFin 1, DZero False]" fn_div] by (simp add: isfinite_def)

end
