(* ===== verification/Text_Format.thy ===== *)
theory Text_Format
  imports C_Library
begin

text \<open>
  The text functions of the C++ library that the sources use: \<^verbatim>\<open>std::to_string\<close> of an integer, the
  order of \<^verbatim>\<open>std::string\<close> keys, splitting at a separator as \<^verbatim>\<open>std::getline\<close> does, and trimming.
  The decimal text of an integer is read back by \<^verbatim>\<open>strtol\<close> and \<^verbatim>\<open>atoi\<close>.
\<close>

section \<open>Decimal text\<close>

definition digit_char :: "nat \<Rightarrow> char" where
  "digit_char d = char_of (48 + d)"

fun nat_text :: "nat \<Rightarrow> string" where
  "nat_text n = (if n < 10 then [digit_char n] else nat_text (n div 10) @ [digit_char (n mod 10)])"

declare nat_text.simps [simp del]

definition to_string :: "int \<Rightarrow> string" where
  "to_string n = (if n < 0 then CHR ''-'' # nat_text (nat (- n)) else nat_text (nat n))"

lemma char_code_digit [simp]: "d < 10 \<Longrightarrow> char_code (digit_char d) = 48 + d"
  by (simp add: char_code_def digit_char_def)

lemma isdigit_digit [simp]: "d < 10 \<Longrightarrow> isdigit (digit_char d)"
  by (simp add: isdigit_def)

lemma digit_val_digit [simp]: "d < 10 \<Longrightarrow> digit_val (digit_char d) = d"
  by (simp add: digit_val_def tolower_def)

lemma digits_val_append: "digits_val b n (xs @ ys) = digits_val b (digits_val b n xs) ys"
  by (induction xs arbitrary: n) auto

lemma nat_text_value [simp]: "digits_val 10 0 (nat_text n) = n"
  by (induction n rule: nat_text.induct) (subst nat_text.simps, auto simp: digits_val_append)

lemma nat_text_digits: "list_all isdigit (nat_text n)"
  by (induction n rule: nat_text.induct) (subst nat_text.simps, auto)

lemma nat_text_not_Nil [simp]: "nat_text n \<noteq> []"
  by (subst nat_text.simps) auto

lemma isdigit_not_space: "isdigit c \<Longrightarrow> \<not> isspace c"
  by (auto simp: isdigit_def isspace_def char_code_def)

lemma isdigit_not_sign: "isdigit c \<Longrightarrow> c \<noteq> CHR ''-'' \<and> c \<noteq> CHR ''+''"
  by (auto simp: isdigit_def char_code_def)

lemma digits_no_prefix:
  assumes "list_all isdigit ds" "ds \<noteq> []"
  shows "dropWhile isspace (ds @ r) = ds @ r" and "take_sign (ds @ r) = (False, ds @ r)"
  using assms by (cases ds; auto simp: isdigit_not_space dest: isdigit_not_sign)+

lemma take_digits:
  assumes "list_all isdigit ds" "r = [] \<or> \<not> isdigit (hd r)"
  shows "takeWhile isdigit (ds @ r) = ds" and "dropWhile isdigit (ds @ r) = r"
  using assms by (induction ds) (cases r; auto)+

text \<open>What is written is read back, up to the first character that is not a digit.\<close>

lemma scan_to_string:
  assumes "r = [] \<or> \<not> isdigit (hd r)"
  shows "take_sign (dropWhile isspace (to_string n @ r)) = (n < 0, nat_text (nat \<bar>n\<bar>) @ r)"
proof (cases "n < 0")
  case True
  then show ?thesis by (simp add: to_string_def isspace_def)
next
  case False
  then show ?thesis using digits_no_prefix [OF nat_text_digits] by (simp add: to_string_def)
qed

lemma strtol_to_string:
  assumes "long_min \<le> n" "n \<le> long_max" "r = [] \<or> \<not> isdigit (hd r)"
  shows "strtol (to_string n @ r) = (n, r)"
  using assms(1,2) by (simp add: strtol_def Let_def scan_to_string [OF assms(3)] take_digits [OF nat_text_digits assms(3)])

lemma atoi_to_string:
  assumes "int_min \<le> n" "n \<le> int_max"
  shows "atoi (to_string n) = Some n"
  using assms scan_to_string [of "[]" n] take_digits [OF nat_text_digits, of "[]"]
  by (simp add: atoi_def Let_def del: takeWhile_eq_all_conv)

section \<open>The order of strings\<close>

fun str_lt :: "string \<Rightarrow> string \<Rightarrow> bool" where
  "str_lt [] [] = False"
| "str_lt [] (_ # _) = True"
| "str_lt (_ # _) [] = False"
| "str_lt (a # as) (b # bs) =
     (if char_code a < char_code b then True else if char_code b < char_code a then False else str_lt as bs)"

lemma char_code_inj: "char_code a = char_code b \<longleftrightarrow> a = b"
  by (simp add: char_code_def)

lemma str_lt_irrefl: "\<not> str_lt s s"
  by (induction s) auto

lemma str_lt_total: "s \<noteq> t \<Longrightarrow> str_lt s t \<or> str_lt t s"
  by (induction s t rule: str_lt.induct) (auto simp: char_code_inj not_less_iff_gr_or_eq)

lemma str_lt_trans: "str_lt s t \<Longrightarrow> str_lt t u \<Longrightarrow> str_lt s u"
proof (induction s t arbitrary: u rule: str_lt.induct)
  case (4 a as b bs)
  then show ?case by (cases u) (auto split: if_splits)
next
  case (2 b bs)
  then show ?case by (cases u) auto
qed auto

interpretation str_order: key_order str_lt
  by unfold_locales (use str_lt_irrefl str_lt_trans str_lt_total in blast)+

section \<open>Splitting and trimming\<close>

text \<open>
  The tokens of repeated \<^verbatim>\<open>std::getline(ss, tok, sep)\<close>: the text between separators; the end of the
  text right after a separator gives no further token.
\<close>

function getlines :: "char \<Rightarrow> string \<Rightarrow> string list" where
  "getlines sep [] = []"
| "getlines sep (c # cs) =
     takeWhile (\<lambda>x. x \<noteq> sep) (c # cs) # getlines sep (drop 1 (dropWhile (\<lambda>x. x \<noteq> sep) (c # cs)))"
  by pat_completeness auto

termination
proof (relation "measure (\<lambda>(sep, s). length s)")
  show "((sep, drop 1 (dropWhile (\<lambda>x. x \<noteq> sep) (c # cs))), sep, c # cs) \<in> measure (\<lambda>(sep, s). length s)" for sep c cs
    using length_dropWhile_le [of "\<lambda>x. x \<noteq> sep" cs] by (simp, linarith)
qed simp

definition trim :: "string \<Rightarrow> string" where
  "trim s = rev (dropWhile isspace (rev (dropWhile isspace s)))"

lemma trim_idem: "trim (trim s) = trim s"
proof -
  let ?r = "rev (dropWhile isspace s)"
  have hd: "trim s = [] \<or> \<not> isspace (hd (trim s))"
  proof (cases "trim s = []")
    case False
    have "dropWhile isspace s = trim s @ rev (takeWhile isspace ?r)"
      unfolding trim_def by (metis rev_append rev_rev_ident takeWhile_dropWhile_id)
    moreover obtain c cs where "trim s = c # cs" using False by (cases "trim s") auto
    ultimately have "dropWhile isspace s = c # cs @ rev (takeWhile isspace ?r)" "trim s = c # cs" by simp_all
    then show ?thesis by (simp add: dropWhile_eq_Cons_conv)
  qed simp
  have "dropWhile isspace (trim s) = trim s" using hd by (cases "trim s") auto
  then have "trim (trim s) = rev (dropWhile isspace (rev (trim s)))" by (simp add: trim_def)
  also have "\<dots> = trim s" by (simp add: trim_def)
  finally show ?thesis .
qed

text \<open>\<^verbatim>\<open>a[0] + sep + a[1] + ...\<close>\<close>

fun join :: "string \<Rightarrow> string list \<Rightarrow> string" where
  "join sep [] = []"
| "join sep [x] = x"
| "join sep (x # y # xs) = x @ sep @ join sep (y # xs)"

lemma takeWhile_sep: "sep \<notin> set x \<Longrightarrow> takeWhile (\<lambda>c. c \<noteq> sep) (x @ sep # r) = x"
  by (induction x) auto

lemma dropWhile_sep: "sep \<notin> set x \<Longrightarrow> dropWhile (\<lambda>c. c \<noteq> sep) (x @ sep # r) = sep # r"
  by (induction x) auto

lemma getlines_append:
  assumes "sep \<notin> set x"
  shows "getlines sep (x @ sep # r) = x # getlines sep r"
  using takeWhile_sep [OF assms, of r] dropWhile_sep [OF assms, of r]
  by (cases x) (simp_all add: getlines.simps(2))

lemma getlines_single:
  assumes "sep \<notin> set x" "x \<noteq> []"
  shows "getlines sep x = [x]"
proof -
  have none: "dropWhile (\<lambda>c. c \<noteq> sep) x = []" "takeWhile (\<lambda>c. c \<noteq> sep) x = x"
    using assms(1) by (auto simp: takeWhile_eq_all_conv)
  with assms(2) show ?thesis by (cases x) (simp_all only: getlines.simps drop_Nil simp_thms)
qed

lemma getlines_join:
  assumes "list_all (\<lambda>x. sep \<notin> set x) xs" "xs = [] \<or> last xs \<noteq> []"
  shows "getlines sep (join [sep] xs) = xs"
  using assms
proof (induction "[sep]" xs rule: join.induct)
  case (3 x y xs)
  then show ?case using getlines_append [of sep x] by (simp del: getlines.simps)
qed (auto simp: getlines_single)

end
