(* ===== verification/Request_Key.thy ===== *)
theory Request_Key
  imports Json_Dom Text_Format
begin

text \<open>
  The identifier of a subscription (\<^verbatim>\<open>server/RequestKey.hpp\<close>): an integer or a string, its JSON forms
  and its text in log lines.
\<close>

datatype RequestKey = RKInt int | RKStr string

definition requestKeyInt :: "int \<Rightarrow> RequestKey" where
  "requestKeyInt v = RKInt v"

definition requestKeyStr :: "string \<Rightarrow> RequestKey" where
  "requestKeyStr v = RKStr v"

fun isInt :: "RequestKey \<Rightarrow> bool" where
  "isInt (RKInt _) = True"
| "isInt (RKStr _) = False"

text \<open>The member written by \<^verbatim>\<open>writeRequestKeyJSON\<close>.\<close>

fun writeRequestKeyJSON :: "RequestKey \<Rightarrow> string \<times> json" where
  "writeRequestKeyJSON (RKInt n) = (''key'', JInt n)"
| "writeRequestKeyJSON (RKStr s) = (''requestId'', JString (c_str s))"

definition parseRequestKeyFromObj :: "json \<Rightarrow> RequestKey option" where
  "parseRequestKeyFromObj r = (case (member ''key'' r, member ''id'' r) of
       (Some _, Some _) \<Rightarrow> None
     | (Some k, None) \<Rightarrow> map_option requestKeyInt (GetInt k)
     | (None, Some i) \<Rightarrow> (case GetInt i of
           Some n \<Rightarrow> Some (requestKeyInt n)
         | None \<Rightarrow> map_option requestKeyStr (GetString i))
     | (None, None) \<Rightarrow> None)"

definition requestObjHasBothKeyAndId :: "json \<Rightarrow> bool" where
  "requestObjHasBothKeyAndId r \<longleftrightarrow> HasMember ''key'' r \<and> HasMember ''id'' r"

fun keyDebugString :: "RequestKey \<Rightarrow> string" where
  "keyDebugString (RKInt n) = ''key='' @ to_string n"
| "keyDebugString (RKStr s) = ''requestId='' @ s"

lemma both_keys_rejected: "requestObjHasBothKeyAndId r \<Longrightarrow> parseRequestKeyFromObj r = None"
  by (auto simp: requestObjHasBothKeyAndId_def HasMember_def parseRequestKeyFromObj_def split: option.splits)

text \<open>Log lines tell keys apart.\<close>

lemma to_string_inj: "to_string m = to_string n \<Longrightarrow> m = n"
proof -
  assume eq: "to_string m = to_string n"
  have "(m < 0, nat_text (nat \<bar>m\<bar>)) = (n < 0, nat_text (nat \<bar>n\<bar>))"
    using scan_to_string [of "[]" m] scan_to_string [of "[]" n] by (simp add: eq)
  then have "m < 0 \<longleftrightarrow> n < 0" "nat \<bar>m\<bar> = nat \<bar>n\<bar>" using nat_text_value by (auto dest: arg_cong [where f = "digits_val 10 0"])
  then show "m = n" by linarith
qed

lemma keyDebugString_inj: "keyDebugString k = keyDebugString k' \<Longrightarrow> k = k'"
  by (cases k; cases k') (auto dest: to_string_inj)

end
