(* ===== verification/Stream_Nodes.thy ===== *)
theory Stream_Nodes
  imports Atomic_Store Builtin_Functions Request_Key
begin

text \<open>
  The processing nodes of the engine (\<^verbatim>\<open>src/nodes\<close>), one record and one group of operations per
  class. A node holds the addresses of the nodes it forwards to; its \<^verbatim>\<open>onValue\<close> returns the calls
  \<^verbatim>\<open>onValue\<close> it makes on them, in order, and its new state. An operation runs under the node's
  mutex up to the forwarding, so a node's state changes in atomic steps. Caps are as in the code.
\<close>

type_synonym addr = nat
type_synonym call = "addr \<times> StreamValue"

text \<open>Calls of \<^verbatim>\<open>onValue\<close> on a shared pointer that may be null.\<close>

definition forward :: "addr option \<Rightarrow> StreamValue list \<Rightarrow> call list" where
  "forward ds svs = (case ds of None \<Rightarrow> [] | Some a \<Rightarrow> map (\<lambda>sv. (a, sv)) svs)"

abbreviation mkSV :: "string \<Rightarrow> ArgType \<Rightarrow> StreamValue" where
  "mkSV s v \<equiv> \<lparr> sv_symbol = s, sv_value = v \<rparr>"

text \<open>\<^verbatim>\<open>m[k]\<close> of a map to vectors.\<close>

definition at_key :: "'k \<Rightarrow> ('k, 'a list) umap \<Rightarrow> 'a list" where
  "at_key k m = (case map_of m k of None \<Rightarrow> [] | Some xs \<Rightarrow> xs)"

definition MAX_SYMBOLS :: nat where
  "MAX_SYMBOLS = 10000"

text \<open>The guard that keeps the per-symbol maps bounded.\<close>

definition symbol_cap :: "string \<Rightarrow> (string, 'a) umap \<Rightarrow> bool" where
  "symbol_cap s m \<longleftrightarrow> map_of m s = None \<and> length m \<ge> MAX_SYMBOLS"

text \<open>\<^verbatim>\<open>toDouble\<close> of \<^verbatim>\<open>TreeBuilder.cpp\<close> and \<^verbatim>\<open>TumblingWindow.cpp\<close>.\<close>

fun arg_toDouble :: "ArgType \<Rightarrow> double" where
  "arg_toDouble (ABool b) = (if b then d1 else d0)"
| "arg_toDouble (AInt n) = double_of_int n"
| "arg_toDouble (ADouble d) = d"
| "arg_toDouble _ = d0"

section \<open>Aggregate\<close>

record Aggregate =
  ag_arity :: u64
  ag_parent :: "addr option"
  ag_stopping :: bool
  ag_buf :: "(string, ArgType list) umap"

text \<open>The constructor throws on arity zero.\<close>

definition Aggregate_new :: "u64 \<Rightarrow> addr option \<Rightarrow> Aggregate option" where
  "Aggregate_new arity parent =
     (if arity = 0 then None else Some \<lparr> ag_arity = arity, ag_parent = parent, ag_stopping = False, ag_buf = [] \<rparr>)"

definition Aggregate_onValue :: "StreamValue \<Rightarrow> Aggregate \<Rightarrow> call list \<times> Aggregate" where
  "Aggregate_onValue sv n =
     (let s = sv_symbol sv
      in if ag_stopping n then ([], n)
         else if symbol_cap s (ag_buf n) then ([], n)
         else let vals = at_key s (ag_buf n) @ [sv_value sv]
              in if length vals < unat (ag_arity n) then ([], n \<lparr> ag_buf := AList.update s vals (ag_buf n) \<rparr>)
                 else (forward (ag_parent n) (map (mkSV s) vals), n \<lparr> ag_buf := AList.update s [] (ag_buf n) \<rparr>))"

definition Aggregate_shutdown :: "Aggregate \<Rightarrow> Aggregate" where
  "Aggregate_shutdown n = n \<lparr> ag_stopping := True, ag_buf := [], ag_parent := None \<rparr>"

section \<open>Worker\<close>

type_synonym WorkerFn = "ArgType list \<Rightarrow> ArgType option"

record Worker =
  wk_fn :: WorkerFn
  wk_downstream :: "addr option"
  wk_stopping :: bool
  wk_acc :: "(string, ArgType list) umap"

definition MAX_ACC :: nat where
  "MAX_ACC = 1000"

definition Worker_new :: "WorkerFn \<Rightarrow> addr option \<Rightarrow> Worker" where
  "Worker_new fn ds = \<lparr> wk_fn = fn, wk_downstream = ds, wk_stopping = False, wk_acc = [] \<rparr>"

definition Worker_onValue :: "StreamValue \<Rightarrow> Worker \<Rightarrow> call list \<times> Worker" where
  "Worker_onValue sv n =
     (let s = sv_symbol sv
      in if wk_stopping n then ([], n)
         else if symbol_cap s (wk_acc n) then ([], n)
         else let vec0 = at_key s (wk_acc n) @ [sv_value sv];
                  vec = (if length vec0 > MAX_ACC then drop (length vec0 - MAX_ACC) vec0 else vec0)
              in case wk_fn n vec of
                   None \<Rightarrow> ([], n \<lparr> wk_acc := AList.update s (butlast vec) (wk_acc n) \<rparr>)
                 | Some out \<Rightarrow> (forward (wk_downstream n) [mkSV s out], n \<lparr> wk_acc := AList.update s vec (wk_acc n) \<rparr>))"

definition Worker_shutdown :: "Worker \<Rightarrow> Worker" where
  "Worker_shutdown n = n \<lparr> wk_stopping := True, wk_downstream := None, wk_acc := [] \<rparr>"

section \<open>VectorReducer\<close>

record VectorReducer =
  vr_fn :: Func
  vr_downstream :: "addr option"
  vr_stopping :: bool

definition VectorReducer_onValue :: "StreamValue \<Rightarrow> VectorReducer \<Rightarrow> call list \<times> VectorReducer" where
  "VectorReducer_onValue sv n =
     (if vr_stopping n then ([], n)
      else case sv_value sv of
          ADoubleVec vec \<Rightarrow> (case vr_fn n vec of
              None \<Rightarrow> ([], n)
            | Some out \<Rightarrow> (forward (vr_downstream n) [mkSV (sv_symbol sv) (ADouble out)], n))
        | _ \<Rightarrow> ([], n))"

definition VectorReducer_shutdown :: "VectorReducer \<Rightarrow> VectorReducer" where
  "VectorReducer_shutdown n = n \<lparr> vr_stopping := True, vr_downstream := None \<rparr>"

section \<open>TumblingWindow\<close>

record TumblingWindow =
  tw_period :: int
  tw_downstream :: "addr option"
  tw_stopping :: bool
  tw_started :: bool
  tw_acc :: "(string, double list) umap"

definition TumblingWindow_onValue :: "StreamValue \<Rightarrow> TumblingWindow \<Rightarrow> call list \<times> TumblingWindow" where
  "TumblingWindow_onValue sv n =
     (let s = sv_symbol sv
      in if tw_stopping n then ([], n)
         else if symbol_cap s (tw_acc n) then ([], n)
         else ([], n \<lparr> tw_acc := AList.update s (at_key s (tw_acc n) @ [arg_toDouble (sv_value sv)]) (tw_acc n) \<rparr>))"

text \<open>
  One turn of \<^verbatim>\<open>timerLoop\<close> after the boundary: the deliveries it hands on, the new state, and
  whether the loop goes on.
\<close>

definition TumblingWindow_timer :: "TumblingWindow \<Rightarrow> call list \<times> TumblingWindow \<times> bool" where
  "TumblingWindow_timer n =
     (if tw_stopping n then ([], n, False)
      else case tw_downstream n of
          None \<Rightarrow> ([], n, False)
        | Some ds \<Rightarrow> (map (\<lambda>(s, vec). (ds, mkSV s (ADoubleVec vec))) (filter (\<lambda>(s, vec). vec \<noteq> []) (tw_acc n)),
                     n \<lparr> tw_acc := map (\<lambda>(s, vec). (s, [])) (tw_acc n) \<rparr>, True))"

definition TumblingWindow_shutdown :: "TumblingWindow \<Rightarrow> TumblingWindow" where
  "TumblingWindow_shutdown n = n \<lparr> tw_stopping := True, tw_downstream := None, tw_acc := [] \<rparr>"

section \<open>Interval and BucketTime\<close>

record Timer =
  tm_period :: int
  tm_child :: "addr option"
  tm_stopping :: bool
  tm_started :: bool

text \<open>One turn of the timer loops of both classes after the wait: a tick for the child.\<close>

definition Timer_tick :: "Timer \<Rightarrow> call list \<times> bool" where
  "Timer_tick n =
     (if tm_stopping n then ([], False)
      else case tm_child n of None \<Rightarrow> ([], False) | Some c \<Rightarrow> ([(c, mkSV [] (ADouble d0))], True))"

definition Timer_shutdown :: "Timer \<Rightarrow> Timer" where
  "Timer_shutdown n = n \<lparr> tm_stopping := True \<rparr>"

text \<open>
  \<^verbatim>\<open>BucketTime::nextAlignedAfter\<close>, on nanoseconds since the epoch and a period in milliseconds;
  C++ division truncates towards zero.
\<close>

definition tdiv :: "int \<Rightarrow> int \<Rightarrow> int" where
  "tdiv a b = sgn a * sgn b * (\<bar>a\<bar> div \<bar>b\<bar>)"

definition nextAlignedAfter :: "int \<Rightarrow> int \<Rightarrow> int" where
  "nextAlignedAfter from_ns period_ms =
     (let epoch_ms = tdiv from_ns 1000000
      in if period_ms \<le> 0 then from_ns else (tdiv epoch_ms period_ms + 1) * period_ms * 1000000)"

section \<open>AtomicAccessor\<close>

text \<open>
  \<^verbatim>\<open>AtomicProviderRegistry\<close>: namespaces and their providers. A provider returns \<^const>\<open>None\<close> when it
  throws.
\<close>

type_synonym providers = "(string, string \<Rightarrow> string \<Rightarrow> double option) umap"

definition registerNamespace :: "string \<Rightarrow> (string \<Rightarrow> string \<Rightarrow> double option) \<Rightarrow> providers \<Rightarrow> providers" where
  "registerNamespace ns fn ps = AList.update ns fn ps"

definition unregisterNamespace :: "string \<Rightarrow> providers \<Rightarrow> bool \<times> providers" where
  "unregisterNamespace ns ps = (map_of ps ns \<noteq> None, AList.delete ns ps)"

definition tryResolve :: "providers \<Rightarrow> string \<Rightarrow> string \<Rightarrow> double option" where
  "tryResolve ps symbol key =
     (if CHR ''.'' \<notin> set key then None
      else case map_of ps (takeWhile (\<lambda>c. c \<noteq> CHR ''.'') key) of None \<Rightarrow> None | Some fn \<Rightarrow> fn symbol key)"

record AtomicAccessor =
  aa_symbol :: string
  aa_field :: string
  aa_downstream :: "addr option"
  aa_stopping :: bool

definition AtomicAccessor_onValue ::
  "AtomicStore option \<Rightarrow> providers \<Rightarrow> AtomicAccessor \<Rightarrow> call list" where
  "AtomicAccessor_onValue store ps n =
     (if aa_stopping n then []
      else case store of
          None \<Rightarrow> []
        | Some st \<Rightarrow>
            (case (case store_get (aa_symbol n) (aa_field n) st of
                 Some v \<Rightarrow> Some v
               | None \<Rightarrow> map_option ADouble (tryResolve ps (aa_symbol n) (aa_field n))) of
               None \<Rightarrow> []
             | Some v \<Rightarrow> forward (aa_downstream n) [mkSV (aa_symbol n) v]))"

definition AtomicAccessor_shutdown :: "AtomicAccessor \<Rightarrow> AtomicAccessor" where
  "AtomicAccessor_shutdown n = n \<lparr> aa_stopping := True, aa_downstream := None \<rparr>"

section \<open>Listener\<close>

record Listener =
  ls_symbol :: string
  ls_field :: string
  ls_downstream :: "addr option"
  ls_pool :: bool
  ls_dispatcher :: bool
  ls_started :: bool
  ls_stopping :: bool

text \<open>
  The downstream pointer is weak; \<open>alive\<close> tells whether its node still exists. With a pool the call
  becomes a task, without one it is made directly: the result says which.
\<close>

definition Listener_onValue :: "(addr \<Rightarrow> bool) \<Rightarrow> StreamValue \<Rightarrow> Listener \<Rightarrow> call list \<times> call list" where
  "Listener_onValue alive sv n =
     (if ls_stopping n then ([], [])
      else case ls_downstream n of
          None \<Rightarrow> ([], [])
        | Some d \<Rightarrow> if \<not> alive d then ([], []) else if ls_pool n then ([(d, sv)], []) else ([], [(d, sv)]))"

definition isPipelineOnlyKey :: "string \<Rightarrow> bool" where
  "isPipelineOnlyKey field \<longleftrightarrow> length field \<ge> 3 \<and> take 3 field = ''ob.''"

section \<open>Responder\<close>

text \<open>
  The send callback is the identity of the session it sends on; \<^const>\<open>None\<close> after shutdown. A
  value makes one call of the callback with the key of the request.
\<close>

record Responder =
  rs_key :: RequestKey
  rs_send :: "nat option"
  rs_stopped :: bool

definition Responder_onValue :: "StreamValue \<Rightarrow> Responder \<Rightarrow> (nat \<times> RequestKey \<times> StreamValue) list" where
  "Responder_onValue sv n =
     (if rs_stopped n then [] else case rs_send n of None \<Rightarrow> [] | Some t \<Rightarrow> [(t, rs_key n, sv)])"

definition Responder_shutdown :: "Responder \<Rightarrow> Responder" where
  "Responder_shutdown n = n \<lparr> rs_stopped := True, rs_send := None \<rparr>"

lemma at_key_update: "at_key k (AList.update k' v m) = (if k = k' then v else at_key k m)"
  by (simp add: at_key_def update_conv')

end
