(* ===== verification/Stream_Node_Thms.thy ===== *)
theory Stream_Node_Thms
  imports Stream_Nodes
begin

text \<open>
  Correctness of the single nodes. Buffering nodes lose nothing: what they forwarded for a symbol,
  followed by what they hold, is what they received. The contract is the locale
  \<open>lossless_buffer\<close>, met by \<^verbatim>\<open>Aggregate\<close> and by \<^verbatim>\<open>TumblingWindow\<close> with its timer.
\<close>

section \<open>Feeding a node\<close>

fun node_run :: "('i \<Rightarrow> 'n \<Rightarrow> call list \<times> 'n) \<Rightarrow> 'i list \<Rightarrow> 'n \<Rightarrow> call list \<times> 'n" where
  "node_run step [] n = ([], n)"
| "node_run step (i # is) n = (case step i n of (cs, n1) \<Rightarrow> case node_run step is n1 of (cs', n2) \<Rightarrow> (cs @ cs', n2))"

text \<open>The values of one symbol, among inputs and among outputs.\<close>

definition of_symbol :: "string \<Rightarrow> StreamValue \<Rightarrow> ArgType list" where
  "of_symbol s sv = (if sv_symbol sv = s then [sv_value sv] else [])"

locale lossless_buffer =
  fixes ok :: "'n \<Rightarrow> bool" and step :: "'i \<Rightarrow> 'n \<Rightarrow> call list \<times> 'n" and admits :: "'i \<Rightarrow> bool"
    and taken :: "string \<Rightarrow> 'i \<Rightarrow> 'v list" and given :: "string \<Rightarrow> call \<Rightarrow> 'v list" and held :: "string \<Rightarrow> 'n \<Rightarrow> 'v list"
  assumes step_ok: "ok n \<Longrightarrow> admits i \<Longrightarrow> step i n = (cs, n') \<Longrightarrow> ok n'"
    and conserve: "ok n \<Longrightarrow> admits i \<Longrightarrow> step i n = (cs, n') \<Longrightarrow> concat (map (given s) cs) @ held s n' = held s n @ taken s i"
begin

lemma run_conserves:
  assumes "ok n" "\<forall>i\<in>set is. admits i" "node_run step is n = (cs, n')"
  shows "ok n' \<and> concat (map (given s) cs) @ held s n' = held s n @ concat (map (taken s) is)"
  using assms
proof (induction "is" arbitrary: n cs)
  case (Cons i "is")
  obtain c1 n1 c2 where s: "step i n = (c1, n1)" "node_run step is n1 = (c2, n')" "cs = c1 @ c2"
    using Cons.prems(3) by (auto split: prod.splits)
  have ok: "ok n1" using step_ok [OF Cons.prems(1) _ s(1)] Cons.prems(2) by simp
  have a: "concat (map (given s) c1) @ held s n1 = held s n @ taken s i"
    using conserve [OF Cons.prems(1) _ s(1)] Cons.prems(2) by simp
  have b: "ok n' \<and> concat (map (given s) c2) @ held s n' = held s n1 @ concat (map (taken s) is)"
    using Cons.IH [OF ok _ s(2)] Cons.prems(2) by simp
  then have "concat (map (given s) cs) @ held s n' = (concat (map (given s) c1) @ held s n1) @ concat (map (taken s) is)"
    by (simp add: s(3))
  then show ?case using b by (simp add: a)
qed simp

end

text \<open>As long as all symbols come from a set of at most 10000, the cap is never hit.\<close>

definition room :: "string set \<Rightarrow> (string, 'a) umap \<Rightarrow> bool" where
  "room K m \<longleftrightarrow> um_wf m \<and> finite K \<and> card K \<le> MAX_SYMBOLS \<and> fst ` set m \<subseteq> K"

lemma room_no_cap:
  assumes "room K m" "s \<in> K"
  shows "\<not> symbol_cap s m"
proof (cases "map_of m s")
  case None
  then have "s \<notin> fst ` set m" by (simp add: map_of_eq_None_iff)
  then have "fst ` set m \<subset> K" using assms by (auto simp: room_def)
  then have "card (fst ` set m) < card K" using assms(1) by (intro psubset_card_mono) (auto simp: room_def)
  moreover have "card (fst ` set m) = length m" using assms(1) distinct_card [of "map fst m"] by (simp add: room_def)
  ultimately show ?thesis using assms(1) by (simp add: symbol_cap_def room_def)
qed (simp add: symbol_cap_def)

lemma room_update: "room K m \<Longrightarrow> s \<in> K \<Longrightarrow> room K (AList.update s v m)"
  by (auto simp: room_def dom_update [unfolded dom_map_of_conv_image_fst])

lemma at_key_Cons: "at_key k ((k', v) # m) = (if k = k' then v else at_key k m)"
  by (simp add: at_key_def)

section \<open>Aggregate\<close>

definition agg_ok :: "string set \<Rightarrow> Aggregate \<Rightarrow> bool" where
  "agg_ok K n \<longleftrightarrow> \<not> ag_stopping n \<and> ag_parent n \<noteq> None \<and> room K (ag_buf n)"

lemma agg_step:
  assumes "agg_ok K n" "sv_symbol sv \<in> K" "Aggregate_onValue sv n = (cs, n')"
  shows "agg_ok K n'" "concat (map (\<lambda>c. of_symbol s (snd c)) cs) @ at_key s (ag_buf n') = at_key s (ag_buf n) @ of_symbol s sv"
proof -
  obtain p where p: "ag_parent n = Some p" using assms(1) by (auto simp: agg_ok_def)
  have eq: "Aggregate_onValue sv n =
      (let vals = at_key (sv_symbol sv) (ag_buf n) @ [sv_value sv]
       in if length vals < unat (ag_arity n) then ([], n\<lparr>ag_buf := AList.update (sv_symbol sv) vals (ag_buf n)\<rparr>)
          else (forward (Some p) (map (mkSV (sv_symbol sv)) vals), n\<lparr>ag_buf := AList.update (sv_symbol sv) [] (ag_buf n)\<rparr>))"
    using assms(1,2) room_no_cap [of K "ag_buf n" "sv_symbol sv"] p
    unfolding Aggregate_onValue_def Let_def by (simp add: agg_ok_def)
  show "agg_ok K n'" using assms p unfolding eq
    by (auto simp: Let_def agg_ok_def room_update split: if_splits)
  have "concat (map (\<lambda>v. of_symbol s (mkSV t v)) vs) = (if s = t then vs else [])" for t vs
    by (induction vs) (auto simp: of_symbol_def)
  then show "concat (map (\<lambda>c. of_symbol s (snd c)) cs) @ at_key s (ag_buf n') = at_key s (ag_buf n) @ of_symbol s sv"
    using assms(3) unfolding eq
    by (auto simp: Let_def forward_def o_def at_key_update of_symbol_def [of s sv] split: if_splits) (simp_all add: of_symbol_def)
qed

interpretation aggregate: lossless_buffer "agg_ok K" Aggregate_onValue "\<lambda>sv. sv_symbol sv \<in> K"
    of_symbol "\<lambda>s c. of_symbol s (snd c)" "\<lambda>s n. at_key s (ag_buf n)" for K
  by unfold_locales (auto dest: agg_step)

text \<open>Forwarding happens in batches of exactly the arity.\<close>

definition agg_partial :: "Aggregate \<Rightarrow> bool" where
  "agg_partial n \<longleftrightarrow> 0 < unat (ag_arity n) \<and> (\<forall>s. length (at_key s (ag_buf n)) < unat (ag_arity n))"

lemma agg_partial_step:
  assumes "agg_partial n" "Aggregate_onValue sv n = (cs, n')"
  shows "agg_partial n' \<and> ag_arity n' = ag_arity n"
  using assms by (auto simp: Aggregate_onValue_def agg_partial_def Let_def at_key_update split: if_splits)

lemma agg_partial_run:
  "agg_partial n \<Longrightarrow> node_run Aggregate_onValue svs n = (cs, n') \<Longrightarrow> agg_partial n' \<and> ag_arity n' = ag_arity n"
proof (induction svs arbitrary: n cs)
  case (Cons sv svs)
  obtain c1 n1 c2 where s: "Aggregate_onValue sv n = (c1, n1)" "node_run Aggregate_onValue svs n1 = (c2, n')"
    using Cons.prems(2) by (auto split: prod.splits)
  then show ?case using agg_partial_step [OF Cons.prems(1) s(1)] Cons.IH [OF _ s(2)] by simp
qed simp

text \<open>C13. An aggregate loses and reorders nothing: for every symbol, the values it forwarded followed
  by the values it still holds are the values it received, and it holds fewer than its arity, as
  long as at most 10000 symbols occur.\<close>

theorem aggregate_lossless:
  assumes "Aggregate_new k (Some p) = Some n" and "finite K" and "card K \<le> MAX_SYMBOLS"
    and "\<forall>sv\<in>set svs. sv_symbol sv \<in> K" and "node_run Aggregate_onValue svs n = (cs, n')"
  shows "concat (map (\<lambda>c. of_symbol s (snd c)) cs) @ at_key s (ag_buf n') = concat (map (of_symbol s) svs) \<and>
    length (at_key s (ag_buf n')) < unat k"
proof -
  have n: "n = \<lparr>ag_arity = k, ag_parent = Some p, ag_stopping = False, ag_buf = []\<rparr>" "k \<noteq> 0"
    using assms(1) by (auto simp: Aggregate_new_def split: if_splits)
  have ok: "agg_ok K n" using assms(2,3) by (simp add: n agg_ok_def room_def)
  have "agg_partial n" using n(2) by (simp add: n(1) agg_partial_def at_key_def unat_gt_0)
  from agg_partial_run [OF this assms(5)] have "length (at_key s (ag_buf n')) < unat k" by (auto simp: agg_partial_def n)
  then show ?thesis using aggregate.run_conserves [OF ok assms(4,5), of s] by (simp add: n at_key_def)
qed

theorem aggregate_lossless_witness:
  "\<exists>n cs n'. Aggregate_new 2 (Some 7) = Some n \<and>
     node_run Aggregate_onValue [mkSV ''X'' (AInt 1), mkSV ''Y'' (AInt 5), mkSV ''X'' (AInt 2), mkSV ''X'' (AInt 3)] n = (cs, n') \<and>
     concat (map (\<lambda>c. of_symbol ''X'' (snd c)) cs) @ at_key ''X'' (ag_buf n') = [AInt 1, AInt 2, AInt 3]"
proof -
  obtain n where n: "Aggregate_new 2 (Some 7) = Some n" by (simp add: Aggregate_new_def)
  let ?svs = "[mkSV ''X'' (AInt 1), mkSV ''Y'' (AInt 5), mkSV ''X'' (AInt 2), mkSV ''X'' (AInt 3)]"
  obtain cs n' where r: "node_run Aggregate_onValue ?svs n = (cs, n')" by fastforce
  have "concat (map (\<lambda>c. of_symbol ''X'' (snd c)) cs) @ at_key ''X'' (ag_buf n') = concat (map (of_symbol ''X'') ?svs)"
    using aggregate_lossless [OF n, of "{''X'', ''Y''}" ?svs cs n' "''X''"] r by (simp add: MAX_SYMBOLS_def)
  then show ?thesis using n r by (intro exI conjI) (auto simp: of_symbol_def)
qed

section \<open>TumblingWindow\<close>

text \<open>An input is a value, or \<^const>\<open>None\<close> when the timer reaches a boundary.\<close>

definition tw_step :: "StreamValue option \<Rightarrow> TumblingWindow \<Rightarrow> call list \<times> TumblingWindow" where
  "tw_step i n = (case i of
       Some sv \<Rightarrow> TumblingWindow_onValue sv n
     | None \<Rightarrow> (case TumblingWindow_timer n of (cs, n', _) \<Rightarrow> (cs, n')))"

definition tw_taken :: "string \<Rightarrow> StreamValue option \<Rightarrow> double list" where
  "tw_taken s i = (case i of Some sv \<Rightarrow> if sv_symbol sv = s then [arg_toDouble (sv_value sv)] else [] | None \<Rightarrow> [])"

definition tw_given :: "string \<Rightarrow> call \<Rightarrow> double list" where
  "tw_given s c = (if sv_symbol (snd c) = s then (case sv_value (snd c) of ADoubleVec v \<Rightarrow> v | _ \<Rightarrow> []) else [])"

definition tw_ok :: "string set \<Rightarrow> TumblingWindow \<Rightarrow> bool" where
  "tw_ok K n \<longleftrightarrow> \<not> tw_stopping n \<and> tw_downstream n \<noteq> None \<and> room K (tw_acc n)"

lemma tw_given_mk: "tw_given s (ds, mkSV k (ADoubleVec v)) = (if k = s then v else [])"
  by (simp add: tw_given_def)

lemma flush_given:
  "um_wf acc \<Longrightarrow> concat (map (tw_given s) (map (\<lambda>(s, vec). (ds, mkSV s (ADoubleVec vec))) (filter (\<lambda>(s, vec). vec \<noteq> []) acc))) = at_key s acc"
proof (induction acc)
  case (Cons kv acc)
  obtain k v where kv: "kv = (k, v)" by (cases kv)
  have "at_key k acc = []" using Cons.prems by (force simp: kv at_key_def split: option.split dest: map_of_SomeD)
  moreover define R where "R = concat (map (tw_given s) (map (\<lambda>(s, vec). (ds, mkSV s (ADoubleVec vec))) (filter (\<lambda>(s, vec). vec \<noteq> []) acc)))"
  moreover have "R = at_key s acc" unfolding R_def using Cons by simp
  moreover have "concat (map (tw_given s) (map (\<lambda>(s, vec). (ds, mkSV s (ADoubleVec vec))) (filter (\<lambda>(s, vec). vec \<noteq> []) (kv # acc))))
      = (if k = s then v else []) @ R" by (simp add: kv R_def tw_given_mk)
  ultimately show ?case by (auto simp: kv at_key_Cons)
qed (simp add: at_key_def)

lemma at_key_cleared: "at_key s (map (\<lambda>(s, vec). (s, [])) acc) = []"
  by (induction acc) (auto simp: at_key_def split: option.splits)

lemma room_cleared: "room K acc \<Longrightarrow> room K (map (\<lambda>(s, vec). (s, [])) acc)"
  by (auto simp: room_def o_def case_prod_beta image_image)

interpretation tumbling: lossless_buffer "tw_ok K" tw_step "\<lambda>i. case i of Some sv \<Rightarrow> sv_symbol sv \<in> K | None \<Rightarrow> True"
    tw_taken tw_given "\<lambda>s n. at_key s (tw_acc n)" for K
proof
  fix n i cs n'
  assume ok: "tw_ok K n" and i: "case i of Some sv \<Rightarrow> sv_symbol sv \<in> K | None \<Rightarrow> True" and st: "tw_step i n = (cs, n')"
  show "tw_ok K n'"
  proof (cases i)
    case None
    then show ?thesis using ok st by (auto simp: tw_step_def TumblingWindow_timer_def tw_ok_def room_cleared split: option.splits)
  next
    case (Some sv)
    then show ?thesis using ok st i room_no_cap [of K "tw_acc n" "sv_symbol sv"]
      by (auto simp: tw_step_def TumblingWindow_onValue_def tw_ok_def Let_def room_update)
  qed
  fix s
  show "concat (map (tw_given s) cs) @ at_key s (tw_acc n') = at_key s (tw_acc n) @ tw_taken s i"
  proof (cases i)
    case None
    have "um_wf (tw_acc n)" using ok by (simp add: tw_ok_def room_def)
    then show ?thesis using None ok st flush_given
      by (auto simp: tw_step_def TumblingWindow_timer_def tw_ok_def tw_taken_def at_key_cleared split: option.splits)
  next
    case (Some sv)
    then show ?thesis using ok st i room_no_cap [of K "tw_acc n" "sv_symbol sv"]
      by (auto simp: tw_step_def TumblingWindow_onValue_def tw_ok_def Let_def at_key_update tw_taken_def)
  qed
qed


definition demo_window :: TumblingWindow where
  "demo_window = \<lparr> tw_period = 1000, tw_downstream = Some 3, tw_stopping = False, tw_started = True, tw_acc = [] \<rparr>"


section \<open>Worker\<close>

definition last_n :: "nat \<Rightarrow> 'a list \<Rightarrow> 'a list" where
  "last_n n xs = drop (length xs - n) xs"

lemma last_n_trim: "(if length xs > n then drop (length xs - n) xs else xs) = last_n n xs"
  by (simp add: last_n_def)

lemma last_n_append: "last_n n (last_n n xs @ [x]) = last_n n (xs @ [x])"
  by (cases "n \<le> length xs") (auto simp: last_n_def Suc_diff_le)

text \<open>The results a worker must produce on a sequence of values that follows \<open>xs\<close>.\<close>

fun worker_spec :: "WorkerFn \<Rightarrow> ArgType list \<Rightarrow> ArgType list \<Rightarrow> ArgType list" where
  "worker_spec f xs [] = []"
| "worker_spec f xs (v # vs) = the (f (last_n MAX_ACC (xs @ [v]))) # worker_spec f (xs @ [v]) vs"

lemma worker_run:
  assumes "\<not> wk_stopping n" "wk_downstream n = Some p" "room K (wk_acc n)" "\<forall>vs. wk_fn n vs \<noteq> None"
    "\<forall>sv\<in>set svs. sv_symbol sv \<in> K" "at_key s (wk_acc n) = last_n MAX_ACC xs" "node_run Worker_onValue svs n = (cs, n')"
  shows "concat (map (\<lambda>c. of_symbol s (snd c)) cs) = worker_spec (wk_fn n) xs (concat (map (of_symbol s) svs))"
  using assms
proof (induction svs arbitrary: n cs xs)
  case (Cons sv svs)
  let ?t = "sv_symbol sv"
  define vec where "vec = last_n MAX_ACC (at_key ?t (wk_acc n) @ [sv_value sv])"
  obtain out where out: "wk_fn n vec = Some out" using Cons.prems(4) by fastforce
  let ?n = "n\<lparr>wk_acc := AList.update ?t vec (wk_acc n)\<rparr>"
  have st: "Worker_onValue sv n = ([(p, mkSV ?t out)], ?n)"
    using Cons.prems room_no_cap [OF Cons.prems(3), of ?t] out
    by (simp add: Worker_onValue_def Let_def last_n_trim vec_def forward_def)
  obtain c2 where c2: "node_run Worker_onValue svs ?n = (c2, n')" "cs = (p, mkSV ?t out) # c2"
    using Cons.prems(7) st by (auto split: prod.splits)
  define ys where "ys = (if s = ?t then xs @ [sv_value sv] else xs)"
  have acc: "at_key s (wk_acc ?n) = last_n MAX_ACC ys"
    using Cons.prems(6) by (auto simp: at_key_update vec_def ys_def last_n_append)
  have ih: "concat (map (\<lambda>c. of_symbol s (snd c)) c2) = worker_spec (wk_fn n) ys (concat (map (of_symbol s) svs))"
    using Cons.IH [OF _ _ _ _ _ acc c2(1)] Cons.prems by (simp add: room_update)
  show ?case
  proof (cases "s = ?t")
    case True
    then have "vec = last_n MAX_ACC (xs @ [sv_value sv])" using Cons.prems(6) by (simp add: vec_def last_n_append)
    then show ?thesis using ih True out by (simp add: c2(2) of_symbol_def [of s sv] ys_def) (simp add: of_symbol_def)
  next
    case False
    then show ?thesis using ih by (simp add: c2(2) of_symbol_def [of s sv] ys_def) (simp add: of_symbol_def)
  qed
qed simp

text \<open>A worker whose function does not throw answers every value of a symbol with its function
  applied to that symbol's last (at most) 1000 values, in order and independent of other symbols.\<close>

theorem worker_rolling:
  assumes "n = Worker_new f (Some p)" and "\<forall>vs. f vs \<noteq> None" and "finite K" and "card K \<le> MAX_SYMBOLS"
    and "\<forall>sv\<in>set svs. sv_symbol sv \<in> K" and "node_run Worker_onValue svs n = (cs, n')"
  shows "concat (map (\<lambda>c. of_symbol s (snd c)) cs) = worker_spec f [] (concat (map (of_symbol s) svs))"
proof -
  have "room K (wk_acc n)" "at_key s (wk_acc n) = last_n MAX_ACC []"
    using assms(3,4) by (simp_all add: assms(1) Worker_new_def room_def at_key_def last_n_def)
  from worker_run [OF _ _ this(1) _ assms(5) this(2) assms(6)] show ?thesis using assms(1,2) by (simp add: Worker_new_def)
qed

theorem worker_rolling_witness:
  "\<exists>cs n'. node_run Worker_onValue [mkSV ''X'' (AInt 1), mkSV ''Y'' (AInt 9), mkSV ''X'' (AInt 2)]
      (Worker_new (\<lambda>vs. Some (AInt (int (length vs)))) (Some 4)) = (cs, n') \<and>
    concat (map (\<lambda>c. of_symbol ''X'' (snd c)) cs) = [AInt 1, AInt 2]"
proof -
  let ?svs = "[mkSV ''X'' (AInt 1), mkSV ''Y'' (AInt 9), mkSV ''X'' (AInt 2)]" and ?f = "\<lambda>vs. Some (AInt (int (length vs)))"
  obtain cs n' where r: "node_run Worker_onValue ?svs (Worker_new ?f (Some 4)) = (cs, n')" by fastforce
  have "concat (map (\<lambda>c. of_symbol ''X'' (snd c)) cs) = worker_spec ?f [] (concat (map (of_symbol ''X'') ?svs))"
    using worker_rolling [OF refl _ _ _ _ r, of "{''X'', ''Y''}" "''X''"] by (simp add: MAX_SYMBOLS_def)
  then show ?thesis using r by (intro exI conjI) (auto simp: of_symbol_def last_n_def MAX_ACC_def)
qed

section \<open>Alignment\<close>

text \<open>The next boundary of a bucket lies strictly in the future, is a multiple of the period, and
  is at most one period away.\<close>

theorem next_boundary_aligned:
  assumes "0 \<le> from_ns" and "0 < period_ms"
  shows "let t = nextAlignedAfter from_ns period_ms in
    from_ns < t \<and> t - from_ns \<le> period_ms * 1000000 \<and> (period_ms * 1000000) dvd t"
proof -
  define e where "e = from_ns div 1000000"
  have e: "0 \<le> e" "e * 1000000 \<le> from_ns" "from_ns < (e + 1) * 1000000" using assms(1) by (auto simp: e_def)
  have d: "tdiv from_ns 1000000 = e" "tdiv e period_ms = e div period_ms"
    using assms e(1) by (auto simp: tdiv_def e_def sgn_if zdiv_eq_0_iff)
  define q where "q = e div period_ms"
  have "e = q * period_ms + e mod period_ms" "0 \<le> e mod period_ms" "e mod period_ms < period_ms"
    using assms(2) by (simp_all add: q_def)
  then have q: "q * period_ms \<le> e" "e < (q + 1) * period_ms" by (simp_all add: algebra_simps)
  have t: "nextAlignedAfter from_ns period_ms = (q + 1) * period_ms * 1000000" using assms(2) d by (simp add: nextAlignedAfter_def q_def)
  have "(e + 1) * 1000000 \<le> (q + 1) * period_ms * 1000000" using q(2) by (intro mult_right_mono) simp_all
  moreover have "q * period_ms * 1000000 \<le> e * 1000000" using q(1) by (intro mult_right_mono) simp_all
  moreover have "(q + 1) * period_ms * 1000000 = q * period_ms * 1000000 + period_ms * 1000000" by (simp add: algebra_simps)
  moreover have "period_ms * 1000000 dvd (q + 1) * period_ms * 1000000" by (simp add: mult.assoc)
  ultimately show ?thesis using e unfolding t Let_def by linarith
qed

theorem next_boundary_aligned_witness:
  "(0 :: int) < 1500000 \<and> (let t = nextAlignedAfter 1500000 60000 in
    1500000 < t \<and> t - 1500000 \<le> 60000 * 1000000 \<and> (60000 * 1000000) dvd t)"
  using next_boundary_aligned [of 1500000 60000] by simp

end
