(* ===== verification/Node_Graph.thy ===== *)
theory Node_Graph
  imports Stream_Nodes
begin

text \<open>
  The running engine as one state: the nodes that requests have been built into, the listener table
  of the dispatcher (\<^verbatim>\<open>Dispatcher::registerListener\<close>), the store, the providers, the function
  registry and the queue of the thread pool. A node is an object at an address; a pointer to a node
  is its address. Objects are never moved; a shared pointer keeps its target alive, so an object is
  alive when it can be reached through shared pointers from the tables, the queue, a running timer
  thread or a holder outside the graph. Only listeners hold weak pointers.
\<close>

section \<open>State\<close>

text \<open>Which of the engine's parts a request may use (\<^verbatim>\<open>tree::Deps\<close>): a pointer is null or not.\<close>

record Deps =
  dp_store :: bool
  dp_pool :: bool
  dp_dispatcher :: bool

text \<open>
  \<^verbatim>\<open>GroupSplit\<close>: its factory is the closure made by the tree builder, with the captured child
  specification, default key, dependencies and downstream node.
\<close>

record GroupSplit =
  gs_child :: json
  gs_defaultStreamKey :: string
  gs_deps :: Deps
  gs_downstream :: "addr option"
  gs_children :: "(string, addr) umap"

definition MAX_CHILDREN :: nat where
  "MAX_CHILDREN = 10000"

datatype inode =
    NListener Listener
  | NAggregate Aggregate
  | NGroupSplit GroupSplit
  | NWorker Worker
  | NAtomicAccessor AtomicAccessor
  | NInterval Timer
  | NBucketTime Timer
  | NTumblingWindow TumblingWindow
  | NVectorReducer VectorReducer
  | NCompositeRoot "addr list"
  | NResponder Responder

record Engine =
  en_nodes :: "inode list"
  en_listeners :: "(string, (string \<times> addr list) list) umap"
  en_store :: AtomicStore
  en_providers :: providers
  en_functions :: FunctionMap
  en_globalPool :: bool
  en_tasks :: "call list"
  en_poolStopping :: bool
  en_threads :: "addr list"
  en_held :: "addr list"
  en_sent :: "(nat \<times> RequestKey \<times> StreamValue) list"

definition Engine_new :: "FunctionMap \<Rightarrow> Engine" where
  "Engine_new fm = \<lparr> en_nodes = [], en_listeners = [], en_store = AtomicStore_init, en_providers = [], en_functions = fm,
     en_globalPool = True, en_tasks = [], en_poolStopping = False, en_threads = [], en_held = [], en_sent = [] \<rparr>"

section \<open>Objects\<close>

definition node_at :: "Engine \<Rightarrow> addr \<Rightarrow> inode option" where
  "node_at E a = (if a < length (en_nodes E) then Some (en_nodes E ! a) else None)"

definition alloc :: "inode \<Rightarrow> Engine \<Rightarrow> addr \<times> Engine" where
  "alloc n E = (length (en_nodes E), E \<lparr> en_nodes := en_nodes E @ [n] \<rparr>)"

definition put_node :: "addr \<Rightarrow> inode \<Rightarrow> Engine \<Rightarrow> Engine" where
  "put_node a n E = E \<lparr> en_nodes := (en_nodes E)[a := n] \<rparr>"

text \<open>The shared pointers an object holds.\<close>

fun owned :: "inode \<Rightarrow> addr list" where
  "owned (NListener l) = []"
| "owned (NAggregate n) = (case ag_parent n of None \<Rightarrow> [] | Some d \<Rightarrow> [d])"
| "owned (NGroupSplit n) = (case gs_downstream n of None \<Rightarrow> [] | Some d \<Rightarrow> [d]) @ map snd (gs_children n)"
| "owned (NWorker n) = (case wk_downstream n of None \<Rightarrow> [] | Some d \<Rightarrow> [d])"
| "owned (NAtomicAccessor n) = (case aa_downstream n of None \<Rightarrow> [] | Some d \<Rightarrow> [d])"
| "owned (NInterval n) = (case tm_child n of None \<Rightarrow> [] | Some d \<Rightarrow> [d])"
| "owned (NBucketTime n) = (case tm_child n of None \<Rightarrow> [] | Some d \<Rightarrow> [d])"
| "owned (NTumblingWindow n) = (case tw_downstream n of None \<Rightarrow> [] | Some d \<Rightarrow> [d])"
| "owned (NVectorReducer n) = (case vr_downstream n of None \<Rightarrow> [] | Some d \<Rightarrow> [d])"
| "owned (NCompositeRoot rs) = rs"
| "owned (NResponder n) = []"

definition owned_at :: "Engine \<Rightarrow> addr \<Rightarrow> addr list" where
  "owned_at E a = (case node_at E a of None \<Rightarrow> [] | Some n \<Rightarrow> owned n)"

text \<open>The shared pointers outside the objects.\<close>

definition table_roots :: "Engine \<Rightarrow> addr list" where
  "table_roots E = concat (map (\<lambda>(_, fm). concat (map snd fm)) (en_listeners E))"

definition engine_roots :: "Engine \<Rightarrow> addr list" where
  "engine_roots E = en_held E @ en_threads E @ map fst (en_tasks E) @ table_roots E"

fun reach :: "Engine \<Rightarrow> nat \<Rightarrow> addr list \<Rightarrow> addr list" where
  "reach E 0 R = R"
| "reach E (Suc k) R = reach E k (remdups (R @ concat (map (owned_at E) R)))"

text \<open>\<open>pins\<close> are the shared pointers held by the running call.\<close>

definition alive :: "addr list \<Rightarrow> Engine \<Rightarrow> addr \<Rightarrow> bool" where
  "alive pins E a \<longleftrightarrow> a \<in> set (reach E (length (en_nodes E)) (pins @ engine_roots E))"

section \<open>The listener table\<close>

definition fields_of :: "string \<Rightarrow> Engine \<Rightarrow> (string \<times> addr list) list" where
  "fields_of symbol E = (case map_of (en_listeners E) symbol of None \<Rightarrow> [] | Some fm \<Rightarrow> fm)"

definition registerListener :: "string \<Rightarrow> string \<Rightarrow> addr \<Rightarrow> Engine \<Rightarrow> Engine" where
  "registerListener symbol field a E =
     (let fm = fields_of symbol E
      in E \<lparr> en_listeners := AList.update symbol (om_set str_lt field (at_key field fm @ [a]) fm) (en_listeners E) \<rparr>)"

definition unregisterListener :: "string \<Rightarrow> string \<Rightarrow> addr \<Rightarrow> Engine \<Rightarrow> Engine" where
  "unregisterListener symbol field a E = (case map_of (en_listeners E) symbol of
       None \<Rightarrow> E
     | Some fm \<Rightarrow> (case map_of fm field of
           None \<Rightarrow> E
         | Some vec \<Rightarrow>
             (let vec' = filter (\<lambda>b. b \<noteq> a) vec;
                  fm' = (if vec' = [] then AList.delete field fm else om_set str_lt field vec' fm)
              in E \<lparr> en_listeners := (if fm' = [] then AList.delete symbol (en_listeners E)
                                     else AList.update symbol fm' (en_listeners E)) \<rparr>)))"

section \<open>The pool\<close>

definition post :: "call \<Rightarrow> Engine \<Rightarrow> Engine" where
  "post c E = (if en_poolStopping E then E else E \<lparr> en_tasks := en_tasks E @ [c] \<rparr>)"

definition post_all :: "call list \<Rightarrow> Engine \<Rightarrow> Engine" where
  "post_all cs E = fold post cs E"

section \<open>Starting nodes\<close>

definition Listener_start :: "addr \<Rightarrow> Engine \<Rightarrow> Engine" where
  "Listener_start a E = (case node_at E a of
       Some (NListener l) \<Rightarrow>
         (if ls_started l then E
          else let E1 = put_node a (NListener (l \<lparr> ls_started := True \<rparr>)) E
               in if ls_dispatcher l then registerListener (ls_symbol l) (ls_field l) a E1 else E1)
     | _ \<Rightarrow> E)"

text \<open>The timer thread holds its node (\<^verbatim>\<open>shared_from_this\<close>).\<close>

definition Timer_start :: "addr \<Rightarrow> Engine \<Rightarrow> Engine" where
  "Timer_start a E = (case node_at E a of
       Some (NInterval n) \<Rightarrow> (if tm_started n then E
         else (put_node a (NInterval (n \<lparr> tm_started := True \<rparr>)) E) \<lparr> en_threads := a # en_threads E \<rparr>)
     | Some (NBucketTime n) \<Rightarrow> (if tm_started n then E
         else (put_node a (NBucketTime (n \<lparr> tm_started := True \<rparr>)) E) \<lparr> en_threads := a # en_threads E \<rparr>)
     | Some (NTumblingWindow n) \<Rightarrow> (if tw_started n then E
         else (put_node a (NTumblingWindow (n \<lparr> tw_started := True \<rparr>)) E) \<lparr> en_threads := a # en_threads E \<rparr>)
     | _ \<Rightarrow> E)"

end
