(* ===== verification/Tree_Builder.thy ===== *)
theory Tree_Builder
  imports Node_Graph
begin

text \<open>
  The tree builder (\<^verbatim>\<open>core/TreeBuilder.cpp\<close>): from the JSON specification of a request to nodes of the
  graph. A builder returns the error message of the exception it throws, or the address of the node
  it made, together with the engine: what was registered or started before an exception stays. The
  registry of node types holds the built-in types; no other part of the program registers one.
\<close>

type_synonym built = "(string + addr) \<times> Engine"

section \<open>Reading specifications\<close>

definition quoted :: "string \<Rightarrow> string" where
  "quoted s = [CHR 0x27] @ s @ [CHR 0x27]"

definition strOr :: "json \<Rightarrow> string \<Rightarrow> string \<Rightarrow> string" where
  "strOr v k def = (case member k v of None \<Rightarrow> def | Some w \<Rightarrow> (case GetString w of None \<Rightarrow> def | Some s \<Rightarrow> s))"

definition intOr :: "json \<Rightarrow> string \<Rightarrow> int \<Rightarrow> int" where
  "intOr v k def = (case member k v of None \<Rightarrow> def | Some w \<Rightarrow> (case GetInt w of None \<Rightarrow> def | Some n \<Rightarrow> n))"

definition sizeOr :: "json \<Rightarrow> string \<Rightarrow> u64 \<Rightarrow> u64" where
  "sizeOr v k def = (case member k v of None \<Rightarrow> def | Some w \<Rightarrow> (case GetUint w of None \<Rightarrow> def | Some n \<Rightarrow> ucast n))"

definition expectType :: "json \<Rightarrow> string option" where
  "expectType v = (case member ''type'' v of None \<Rightarrow> None | Some w \<Rightarrow> GetString w)"

section \<open>Worker functions\<close>

definition structural_keys :: "string list" where
  "structural_keys = [''fn'', ''type'', ''child'', ''node'', ''inputs'', ''stages'', ''pipeline'']"

definition numeric_params :: "json \<Rightarrow> (string \<rightharpoonup> double)" where
  "numeric_params spec = fold (\<lambda>(k, w) m.
     if c_str k \<in> set structural_keys then m
     else (case GetDouble w of None \<Rightarrow> m | Some d \<Rightarrow> m(c_str k \<mapsto> d))) (members spec) Map.empty"

definition fnFromName :: "FunctionMap \<Rightarrow> json \<Rightarrow> string + WorkerFn" where
  "fnFromName fmap spec = (case (case member ''fn'' spec of None \<Rightarrow> None | Some w \<Rightarrow> GetString w) of
       None \<Rightarrow> Inl (''Worker: missing '' @ quoted ''fn'')
     | Some fn \<Rightarrow>
         (if isParametric fn fmap then
            (case getParamFunction fn fmap of
                None \<Rightarrow> Inl (''Worker: unknown fn '' @ quoted fn)
              | Some pfn \<Rightarrow> Inr (\<lambda>xs. map_option ADouble (pfn (map arg_toDouble xs) (numeric_params spec))))
          else (case getFunction fn fmap of
                None \<Rightarrow> Inl (''Worker: unknown fn '' @ quoted fn)
              | Some mapFn \<Rightarrow> Inr (\<lambda>xs. map_option ADouble (mapFn (map arg_toDouble xs))))))"

section \<open>The builders of node types without sub-specifications\<close>

definition mkListener :: "string \<Rightarrow> string \<Rightarrow> addr option \<Rightarrow> Deps \<Rightarrow> Listener" where
  "mkListener symbol field ds deps = \<lparr> ls_symbol = symbol, ls_field = field, ls_downstream = ds, ls_pool = dp_pool deps,
     ls_dispatcher = dp_dispatcher deps, ls_started = False, ls_stopping = False \<rparr>"

definition start_listener :: "Listener \<Rightarrow> Engine \<Rightarrow> addr \<times> Engine" where
  "start_listener l E = (case alloc (NListener l) E of (a, E1) \<Rightarrow> (a, Listener_start a E1))"

definition build_Listener :: "json \<Rightarrow> string \<Rightarrow> Deps \<Rightarrow> addr option \<Rightarrow> Engine \<Rightarrow> built" where
  "build_Listener v defaultStreamKey deps ds E =
     (if \<not> (dp_dispatcher deps \<and> dp_pool deps) then (Inl ''Listener: missing dispatcher/pool'', E)
      else let streamKey = strOr v ''streamKey'' defaultStreamKey; field = strOr v ''field'' []
           in if streamKey = [] then (Inl (''Listener: missing '' @ quoted ''streamKey''), E)
              else if field = [] then (Inl (''Listener: missing '' @ quoted ''field''), E)
              else case start_listener (mkListener streamKey field ds deps) E of (a, E1) \<Rightarrow> (Inr a, E1))"

text \<open>The period of \<^verbatim>\<open>Interval\<close>, \<^verbatim>\<open>BucketTime\<close> and \<^verbatim>\<open>TumblingWindow\<close>; \<open>what\<close> is the name in the messages.\<close>

definition MAX_INTERVAL_MS :: int where
  "MAX_INTERVAL_MS = 3600000"

definition timer_ms :: "string \<Rightarrow> string \<Rightarrow> json \<Rightarrow> Deps \<Rightarrow> Engine \<Rightarrow> string + int" where
  "timer_ms ty what v deps E =
     (if \<not> (dp_pool deps \<or> en_globalPool E) then Inl (ty @ '': no thread pool available'')
      else let ms = intOr v ''ms'' (intOr v ''periodMs'' 0)
           in if ms \<le> 0 then Inl (ty @ '': positive '' @ quoted what @ '' required'')
              else if ms > MAX_INTERVAL_MS then Inl (ty @ '': '' @ quoted what @ '' exceeds maximum (3600000)'')
              else Inr ms)"

definition finish_timer :: "(Timer \<Rightarrow> inode) \<Rightarrow> int \<Rightarrow> addr option \<Rightarrow> Engine \<Rightarrow> addr \<times> Engine" where
  "finish_timer mk ms child E =
     (case alloc (mk \<lparr> tm_period = ms, tm_child = child, tm_stopping = False, tm_started = False \<rparr>) E of
        (a, E1) \<Rightarrow> (a, Timer_start a E1))"

definition build_TumblingWindow :: "json \<Rightarrow> Deps \<Rightarrow> addr option \<Rightarrow> Engine \<Rightarrow> built" where
  "build_TumblingWindow v deps ds E = (case timer_ms ''TumblingWindow'' ''periodMs'' v deps E of
       Inl e \<Rightarrow> (Inl e, E)
     | Inr ms \<Rightarrow> (case alloc (NTumblingWindow \<lparr> tw_period = ms, tw_downstream = ds, tw_stopping = False,
                     tw_started = False, tw_acc = [] \<rparr>) E of (a, E1) \<Rightarrow> (Inr a, Timer_start a E1)))"

definition build_VectorReducer :: "json \<Rightarrow> addr option \<Rightarrow> Engine \<Rightarrow> built" where
  "build_VectorReducer v ds E = (case (case member ''fn'' v of None \<Rightarrow> None | Some w \<Rightarrow> GetString w) of
       None \<Rightarrow> (Inl (''VectorReducer: missing '' @ quoted ''fn''), E)
     | Some fn \<Rightarrow> (case getFunction fn (en_functions E) of
           None \<Rightarrow> (Inl (''VectorReducer: unknown fn '' @ quoted fn), E)
         | Some f \<Rightarrow> (case alloc (NVectorReducer \<lparr> vr_fn = f, vr_downstream = ds, vr_stopping = False \<rparr>) E of
                        (a, E1) \<Rightarrow> (Inr a, E1))))"

definition build_AtomicAccessor :: "json \<Rightarrow> string \<Rightarrow> Deps \<Rightarrow> addr option \<Rightarrow> Engine \<Rightarrow> built" where
  "build_AtomicAccessor v defaultStreamKey deps ds E =
     (if \<not> dp_store deps then (Inl ''AtomicAccessor: missing store'', E)
      else let streamKey = strOr v ''streamKey'' defaultStreamKey; field = strOr v ''field'' []
           in if field = [] then (Inl (''AtomicAccessor: missing '' @ quoted ''field''), E)
              else case alloc (NAtomicAccessor \<lparr> aa_symbol = streamKey, aa_field = field, aa_downstream = ds,
                     aa_stopping = False \<rparr>) E of (a, E1) \<Rightarrow> (Inr a, E1))"

definition build_Worker :: "json \<Rightarrow> addr option \<Rightarrow> Engine \<Rightarrow> built" where
  "build_Worker v ds E = (case fnFromName (en_functions E) v of
       Inl e \<Rightarrow> (Inl e, E)
     | Inr fn \<Rightarrow> (case alloc (NWorker (Worker_new fn ds)) E of (a, E1) \<Rightarrow> (Inr a, E1)))"

definition build_GroupSplit :: "json \<Rightarrow> string \<Rightarrow> Deps \<Rightarrow> addr option \<Rightarrow> Engine \<Rightarrow> built" where
  "build_GroupSplit v defaultStreamKey deps ds E = (case member ''child'' v of
       None \<Rightarrow> (Inl (''GroupSplit: missing '' @ quoted ''child''), E)
     | Some c \<Rightarrow> (case alloc (NGroupSplit \<lparr> gs_child = c, gs_defaultStreamKey = defaultStreamKey, gs_deps = deps,
                     gs_downstream = ds, gs_children = [] \<rparr>) E of (a, E1) \<Rightarrow> (Inr a, E1)))"

text \<open>The end of the \<^verbatim>\<open>Aggregate\<close> builder, once its inputs are built.\<close>

definition finish_aggregate :: "addr \<Rightarrow> addr list \<Rightarrow> Engine \<Rightarrow> built" where
  "finish_aggregate agg roots E =
     (if roots = [] then (Inl (''Aggregate: empty '' @ quoted ''inputs'' @ '' array''), E)
      else case alloc (NCompositeRoot (roots @ [agg])) E of (a, E1) \<Rightarrow> (Inr a, E1))"

section \<open>buildOne\<close>

text \<open>The size of a list of specifications bounds the recursion.\<close>

definition spec_size :: "json list \<Rightarrow> nat" where
  "spec_size xs = size_list size xs"

lemma spec_size_rev [simp]: "spec_size (rev xs) = spec_size xs"
  by (simp add: spec_size_def size_list_conv_sum_list rev_map [symmetric])

lemma member_array_size: "member k v = Some (JArray xs) \<Longrightarrow> spec_size xs + 1 < size v"
  using member_size [of k v "JArray xs"] by (simp add: spec_size_def)

lemma spec_size_Cons [simp]: "spec_size (v # vs) = Suc (size v + spec_size vs)"
  by (simp add: spec_size_def)

text \<open>
  \<open>buildInputs\<close> is the loop of the \<^verbatim>\<open>Aggregate\<close> builder, \<open>buildStages\<close> the loop over the stages of a
  chain, which the caller reverses; both return the nodes they made, in order.
\<close>

function (sequential)
  buildOne :: "json \<Rightarrow> string \<Rightarrow> Deps \<Rightarrow> addr option \<Rightarrow> Engine \<Rightarrow> built" and
  buildInputs :: "json list \<Rightarrow> string \<Rightarrow> Deps \<Rightarrow> addr \<Rightarrow> Engine \<Rightarrow> (string + addr list) \<times> Engine" and
  buildStages :: "json list \<Rightarrow> string \<Rightarrow> Deps \<Rightarrow> addr option \<Rightarrow> Engine \<Rightarrow> (string + addr list) \<times> Engine" where
  "buildOne v key deps ds E =
     (if \<not> IsObject v then (Inl ''TreeBuilder: expected object for node'', E)
      else case expectType v of
          None \<Rightarrow> (Inl (''TreeBuilder: node missing '' @ quoted ''type''), E)
        | Some ty \<Rightarrow>
            if ty = ''Listener'' then build_Listener v key deps ds E
            else if ty = ''Interval'' \<or> ty = ''BucketTime'' then
              (case timer_ms ty ''ms'' v deps E of
                 Inl e \<Rightarrow> (Inl e, E)
               | Inr ms \<Rightarrow>
                   (let mk = (if ty = ''Interval'' then NInterval else NBucketTime)
                    in case member ''child'' v of
                         None \<Rightarrow> (case finish_timer mk ms ds E of (a, E1) \<Rightarrow> (Inr a, E1))
                       | Some c \<Rightarrow> (case buildOne c key deps ds E of
                             (Inl e, E1) \<Rightarrow> (Inl e, E1)
                           | (Inr child, E1) \<Rightarrow> (case finish_timer mk ms (Some child) E1 of (a, E2) \<Rightarrow> (Inr a, E2)))))
            else if ty = ''TumblingWindow'' then build_TumblingWindow v deps ds E
            else if ty = ''VectorReducer'' then build_VectorReducer v ds E
            else if ty = ''AtomicAccessor'' then build_AtomicAccessor v key deps ds E
            else if ty = ''Worker'' then build_Worker v ds E
            else if ty = ''Aggregate'' then
              (case Aggregate_new (sizeOr v ''arity'' 0) ds of
                 None \<Rightarrow> (Inl (''Aggregate: positive '' @ quoted ''arity'' @ '' required''), E)
               | Some n \<Rightarrow> (case member ''inputs'' v of
                     Some (JArray xs) \<Rightarrow> (case alloc (NAggregate n) E of (agg, E1) \<Rightarrow>
                       (case buildInputs xs key deps agg E1 of
                           (Inl e, E2) \<Rightarrow> (Inl e, E2)
                         | (Inr roots, E2) \<Rightarrow> finish_aggregate agg roots E2))
                   | _ \<Rightarrow> (Inl (''Aggregate: '' @ quoted ''inputs'' @ '' must be an array''), E)))
            else if ty = ''GroupSplit'' \<or> ty = ''SymbolSplit'' then build_GroupSplit v key deps ds E
            else if ty = ''Chain'' then
              (case member ''stages'' v of
                 Some (JArray xs) \<Rightarrow>
                   (if xs = [] then (Inl (''Chain: '' @ quoted ''stages'' @ '' must not be empty''), E)
                    else case buildStages (rev xs) key deps ds E of
                        (Inl e, E1) \<Rightarrow> (Inl e, E1)
                      | (Inr as, E1) \<Rightarrow> (Inr (last as), E1))
               | _ \<Rightarrow> (Inl (''Chain: '' @ quoted ''stages'' @ '' must be an array''), E))
            else (Inl (''TreeBuilder: unknown node type '' @ quoted ty), E))"
| "buildInputs [] key deps agg E = (Inr [], E)"
| "buildInputs (v # vs) key deps agg E = (case buildOne v key deps (Some agg) E of
       (Inl e, E1) \<Rightarrow> (Inl e, E1)
     | (Inr a, E1) \<Rightarrow> (case buildInputs vs key deps agg E1 of
           (Inl e, E2) \<Rightarrow> (Inl e, E2)
         | (Inr as, E2) \<Rightarrow> (Inr (a # as), E2)))"
| "buildStages [] key deps ds E = (Inr [], E)"
| "buildStages (v # vs) key deps ds E = (case buildOne v key deps ds E of
       (Inl e, E1) \<Rightarrow> (Inl e, E1)
     | (Inr a, E1) \<Rightarrow> (case buildStages vs key deps (Some a) E1 of
           (Inl e, E2) \<Rightarrow> (Inl e, E2)
         | (Inr as, E2) \<Rightarrow> (Inr (a # as), E2)))"
  by pat_completeness auto

termination
  by (relation "measure (\<lambda>x. case x of
        Inl (v, _) \<Rightarrow> size v
      | Inr y \<Rightarrow> (case y of Inl (vs, _) \<Rightarrow> spec_size vs | Inr (vs, _) \<Rightarrow> spec_size vs))")
    (auto dest: member_size member_array_size)

declare buildOne.simps [simp del]

section \<open>Requests\<close>

definition buildTree :: "json \<Rightarrow> Deps \<Rightarrow> Engine \<Rightarrow> built" where
  "buildTree rootSpec deps E = buildOne rootSpec [] deps None E"

definition buildNode :: "json \<Rightarrow> string \<Rightarrow> Deps \<Rightarrow> addr option \<Rightarrow> Engine \<Rightarrow> built" where
  "buildNode spec defaultStreamKey deps terminal E = buildOne spec defaultStreamKey deps terminal E"

definition buildSimple :: "string \<Rightarrow> string \<Rightarrow> int \<Rightarrow> Deps \<Rightarrow> addr option \<Rightarrow> Engine \<Rightarrow> built" where
  "buildSimple streamKey field pollMs deps terminal E =
     (if field = [] then (Inl ''buildSimple: field is empty'', E)
      else if \<not> dp_store deps then (Inl ''buildSimple: missing store'', E)
      else case alloc (NAtomicAccessor \<lparr> aa_symbol = streamKey, aa_field = field, aa_downstream = terminal,
             aa_stopping = False \<rparr>) E of (acc, E1) \<Rightarrow>
        if pollMs > 0 then
          (if \<not> (dp_pool deps \<or> en_globalPool E1) then (Inl ''buildSimple: no thread pool available'', E1)
           else case finish_timer NInterval pollMs (Some acc) E1 of (a, E2) \<Rightarrow> (Inr a, E2))
        else (Inr acc, E1))"

text \<open>\<^verbatim>\<open>Listener::Create\<close>.\<close>

definition pipeline_only_message :: "string \<Rightarrow> string" where
  "pipeline_only_message field = ''listener: field '' @ quoted field @ '' is pipeline-only '' @ [CHR 0xE2, CHR 0x80, CHR 0x94]
     @ '' see docs/atomic-keys.md; bind via AtomicAccessor downstream of a bare-key Listener clock''"

definition Listener_Create :: "string \<Rightarrow> string \<Rightarrow> addr option \<Rightarrow> Deps \<Rightarrow> Engine \<Rightarrow> built" where
  "Listener_Create symbol field ds deps E =
     (if isPipelineOnlyKey field then (Inl (pipeline_only_message field), E)
      else case start_listener (mkListener symbol field ds deps) E of (a, E1) \<Rightarrow> (Inr a, E1))"

record BuiltChain =
  bc_head :: addr
  bc_keepAlive :: "addr list"

text \<open>The middle of a request: its head and the nodes to keep alive.\<close>

definition buildPipe :: "json list \<Rightarrow> string \<Rightarrow> Deps \<Rightarrow> addr \<Rightarrow> addr list \<Rightarrow> Engine \<Rightarrow> (string + (addr \<times> addr list)) \<times> Engine" where
  "buildPipe xs streamKey deps terminal keep E = (case buildStages (rev xs) streamKey deps (Some terminal) E of
       (Inl e, E1) \<Rightarrow> (Inl e, E1)
     | (Inr as, E1) \<Rightarrow> (Inr (last (terminal # as), keep @ as), E1))"

definition buildNodePart :: "json \<Rightarrow> string \<Rightarrow> Deps \<Rightarrow> addr \<Rightarrow> Engine \<Rightarrow> (string + (addr \<times> addr list)) \<times> Engine" where
  "buildNodePart rq streamKey deps terminal E = (case member ''node'' rq of
       Some (JObject ms) \<Rightarrow> (case buildOne (JObject ms) streamKey deps (Some terminal) E of
           (Inl e, E1) \<Rightarrow> (Inl e, E1)
         | (Inr a, E1) \<Rightarrow> (Inr (a, [terminal, a]), E1))
     | _ \<Rightarrow> (Inr (terminal, [terminal]), E))"

definition buildMiddle :: "json \<Rightarrow> string \<Rightarrow> Deps \<Rightarrow> addr \<Rightarrow> Engine \<Rightarrow> (string + (addr \<times> addr list)) \<times> Engine" where
  "buildMiddle rq streamKey deps terminal E =
     (case buildNodePart rq streamKey deps terminal E of
       (Inl e, E1) \<Rightarrow> (Inl e, E1)
     | (Inr (mid, keep), E1) \<Rightarrow> (case member ''pipeline'' rq of
           Some (JArray xs) \<Rightarrow> buildPipe xs streamKey deps terminal keep E1
         | _ \<Rightarrow> (case member ''stages'' rq of
               Some (JArray xs) \<Rightarrow> buildPipe xs streamKey deps terminal keep E1
             | _ \<Rightarrow> (Inr (mid, keep), E1))))"

definition buildForRequest :: "json \<Rightarrow> Deps \<Rightarrow> addr option \<Rightarrow> Engine \<Rightarrow> (string + BuiltChain) \<times> Engine" where
  "buildForRequest rq deps terminal E =
     (if \<not> IsObject rq then (Inl ''TreeBuilder: expected object for request'', E)
      else case (case member ''streamKey'' rq of None \<Rightarrow> None | Some w \<Rightarrow> GetString w) of
          None \<Rightarrow> (Inl (''buildForRequest: missing '' @ quoted ''streamKey''), E)
        | Some streamKey \<Rightarrow> (case (case member ''field'' rq of None \<Rightarrow> None | Some w \<Rightarrow> GetString w) of
              None \<Rightarrow> (Inl (''buildForRequest: missing '' @ quoted ''field''), E)
            | Some field \<Rightarrow>
                if streamKey = [] then (Inl (''buildForRequest: '' @ quoted ''streamKey'' @ '' must not be empty''), E)
                else if field = [] then (Inl (''buildForRequest: '' @ quoted ''field'' @ '' must not be empty''), E)
                else (case terminal of
                    None \<Rightarrow> (Inl ''buildForRequest: terminal node cannot be null'', E)
                  | Some t \<Rightarrow> (case buildMiddle rq streamKey deps t E of
                        (Inl e, E1) \<Rightarrow> (Inl e, E1)
                      | (Inr (mid, keep), E1) \<Rightarrow>
                          if \<not> (dp_dispatcher deps \<and> dp_pool deps)
                          then (Inl ''buildForRequest: missing dispatcher/pool'', E1)
                          else (case Listener_Create streamKey field (Some mid) deps E1 of
                              (Inl e, E2) \<Rightarrow> (Inl e, E2)
                            | (Inr head, E2) \<Rightarrow> (Inr \<lparr> bc_head = head, bc_keepAlive = keep \<rparr>, E2))))))"

end
