(* ===== verification/Worklist.thy ===== *)
theory Worklist
  imports Main "HOL-Library.Multiset"
begin

text \<open>
  Nested synchronous calls as a work list. A call changes the state and makes further calls as its
  last action, so running them depth first is running the first call of the list and putting the
  calls it makes in front of the rest; a call that throws drops the rest, up to the frame of the
  thread. Nothing bounds the calls in general, so running out is a partial function; the locale
  states when it is total: every call has a rank, the calls it makes have smaller ranks, and no
  step changes the rank of a call that is already known.
\<close>

partial_function (option) drain :: "('c \<Rightarrow> 's \<Rightarrow> ('e + 'c list) \<times> 's) \<Rightarrow> 'c list \<Rightarrow> 's \<Rightarrow> ('e option \<times> 's) option" where
  [code]: "drain step cs s = (case cs of
       [] \<Rightarrow> Some (None, s)
     | c # cs' \<Rightarrow> (case step c s of
           (Inl e, s') \<Rightarrow> Some (Some e, s')
         | (Inr new, s') \<Rightarrow> drain step (new @ cs') s'))"

lemma drain_Nil [simp]: "drain step [] s = Some (None, s)"
  by (subst drain.simps) simp

lemma drain_Cons: "drain step (c # cs) s = (case step c s of
    (Inl e, s') \<Rightarrow> Some (Some e, s') | (Inr new, s') \<Rightarrow> drain step (new @ cs) s')"
  by (subst drain.simps) simp

text \<open>What every step keeps, a run keeps.\<close>

lemma drain_keeps:
  assumes "drain step cs s = Some y" and "\<And>c s r s'. P s \<Longrightarrow> step c s = (r, s') \<Longrightarrow> P s'" and "P s"
  shows "P (snd y)"
  using assms
proof (induction rule: drain.raw_induct [rotated, consumes 1, case_names call])
  case (call run step cs s y)
  show ?case
  proof (cases cs)
    case Nil
    then show ?thesis using call(2) \<open>P s\<close> by auto
  next
    case (Cons c cs')
    obtain r t where st: "step c s = (r, t)" by (cases "step c s")
    then have t: "P t" using call.prems(1) \<open>P s\<close> by blast
    show ?thesis
    proof (cases r)
      case (Inl e)
      then show ?thesis using call(2) Cons st t by auto
    next
      case (Inr new)
      then have "run step (new @ cs') t = Some y" using call(2) Cons st by simp
      then show ?thesis using call(1) call.prems(1) t by blast
    qed
  qed
qed

locale worklist =
  fixes step :: "'c \<Rightarrow> 's \<Rightarrow> ('e + 'c list) \<times> 's"
    and inv :: "('c \<Rightarrow> nat) \<Rightarrow> 's \<Rightarrow> bool"
    and known :: "'s \<Rightarrow> 'c \<Rightarrow> bool"
  assumes step_ok: "inv \<rho> s \<Longrightarrow> known s c \<Longrightarrow> step c s = (r, s') \<Longrightarrow>
    \<exists>\<rho>'. inv \<rho>' s' \<and> (\<forall>d. known s d \<longrightarrow> known s' d \<and> \<rho>' d = \<rho> d) \<and>
      (case r of Inl _ \<Rightarrow> True | Inr cs \<Rightarrow> \<forall>d \<in> set cs. known s' d \<and> \<rho>' d < \<rho> c)"
begin

lemma smaller_list:
  assumes "\<forall>d \<in> set new. \<rho>' d < \<rho> c" "\<forall>d \<in> set cs. \<rho>' d = \<rho> d"
  shows "(mset (map \<rho>' (new @ cs)), mset (map \<rho> (c # cs))) \<in> mult less_than"
proof -
  have "map \<rho>' cs = map \<rho> cs" using assms(2) by simp
  then have eq: "mset (map \<rho>' (new @ cs)) = mset (map \<rho> cs) + mset (map \<rho>' new)"
    "mset (map \<rho> (c # cs)) = mset (map \<rho> cs) + {#\<rho> c#}"
    by (simp_all only: map_append mset_append list.map mset.simps add.commute) simp
  show ?thesis unfolding eq by (rule one_step_implies_mult) (use assms(1) in auto)
qed

theorem drains:
  assumes "inv \<rho> s" "\<forall>c \<in> set cs. known s c"
  shows "\<exists>e s' \<rho>'. drain step cs s = Some (e, s') \<and> inv \<rho>' s' \<and> (\<forall>d. known s d \<longrightarrow> known s' d \<and> \<rho>' d = \<rho> d)"
  using wf_mult [OF wf_less_than] assms
proof (induction "mset (map \<rho> cs)" arbitrary: \<rho> cs s rule: wf_induct_rule)
  case (less \<rho> cs s)
  show ?case
  proof (cases cs)
    case Nil
    then show ?thesis using less.prems by auto
  next
    case (Cons c cs')
    obtain r t where st: "step c s = (r, t)" by (cases "step c s")
    obtain \<rho>' where \<rho>': "inv \<rho>' t" "\<forall>d. known s d \<longrightarrow> known t d \<and> \<rho>' d = \<rho> d"
      and new: "case r of Inl _ \<Rightarrow> True | Inr new \<Rightarrow> \<forall>d \<in> set new. known t d \<and> \<rho>' d < \<rho> c"
      using step_ok [OF less.prems(1) _ st] less.prems(2) Cons by auto
    show ?thesis
    proof (cases r)
      case (Inl e)
      then show ?thesis using \<rho>' st Cons by (auto simp: drain_Cons)
    next
      case (Inr ds)
      have "(mset (map \<rho>' (ds @ cs')), mset (map \<rho> cs)) \<in> mult less_than"
        unfolding Cons by (rule smaller_list) (use new Inr less.prems(2) Cons \<rho>'(2) in auto)
      from less.hyps [OF this \<rho>'(1)] obtain e s' \<rho>''
        where "drain step (ds @ cs') t = Some (e, s')" "inv \<rho>'' s'" "\<forall>d. known t d \<longrightarrow> known s' d \<and> \<rho>'' d = \<rho>' d"
        using new Inr less.prems(2) Cons \<rho>'(2) by fastforce
      then show ?thesis using st Cons Inr \<rho>'(2) by (auto simp: drain_Cons intro!: exI [of _ \<rho>''])
    qed
  qed
qed

end

end
