(* ===== verification/Node_Run.thy ===== *)
theory Node_Run
  imports Tree_Builder Worklist
begin

text \<open>
  The behaviour of the graph: a call of \<^verbatim>\<open>onValue\<close> on a node with the calls it makes, the shutdown of
  a node, the turns of the timer loops and the tasks of the pool. Tasks of the pool are run one
  after the other; every node guards its state by its own mutex and forwards after releasing it.
\<close>

section \<open>Calls\<close>

definition GroupSplit_onValue :: "addr \<Rightarrow> GroupSplit \<Rightarrow> StreamValue \<Rightarrow> Engine \<Rightarrow> (string + call list) \<times> Engine" where
  "GroupSplit_onValue a g sv E =
     (let s = sv_symbol sv
      in case map_of (gs_children g) s of
          Some child \<Rightarrow> (Inr [(child, sv)], E)
        | None \<Rightarrow>
            if length (gs_children g) + 1 > MAX_CHILDREN then (Inr [], E)
            else (case buildOne (gs_child g) (if s = [] then gs_defaultStreamKey g else s) (gs_deps g) (gs_downstream g) E of
                (Inl e, E1) \<Rightarrow> (Inl e, E1)
              | (Inr child, E1) \<Rightarrow>
                  (Inr [(child, sv)], put_node a (NGroupSplit (g \<lparr> gs_children := AList.update s child (gs_children g) \<rparr>)) E1)))"

definition call_node :: "addr list \<Rightarrow> call \<Rightarrow> Engine \<Rightarrow> (string + call list) \<times> Engine" where
  "call_node pins c E = (case c of (a, sv) \<Rightarrow> (case node_at E a of
       None \<Rightarrow> (Inr [], E)
     | Some (NListener l) \<Rightarrow> (case Listener_onValue (alive pins E) sv l of (tasks, calls) \<Rightarrow> (Inr calls, post_all tasks E))
     | Some (NAggregate n) \<Rightarrow> (case Aggregate_onValue sv n of (calls, n') \<Rightarrow> (Inr calls, put_node a (NAggregate n') E))
     | Some (NGroupSplit g) \<Rightarrow> GroupSplit_onValue a g sv E
     | Some (NWorker n) \<Rightarrow> (case Worker_onValue sv n of (calls, n') \<Rightarrow> (Inr calls, put_node a (NWorker n') E))
     | Some (NAtomicAccessor n) \<Rightarrow> (Inr (AtomicAccessor_onValue (Some (en_store E)) (en_providers E) n), E)
     | Some (NInterval n) \<Rightarrow> (Inr [], E)
     | Some (NBucketTime n) \<Rightarrow> (Inr [], E)
     | Some (NTumblingWindow n) \<Rightarrow> (case TumblingWindow_onValue sv n of (calls, n') \<Rightarrow> (Inr calls, put_node a (NTumblingWindow n') E))
     | Some (NVectorReducer n) \<Rightarrow> (case VectorReducer_onValue sv n of (calls, n') \<Rightarrow> (Inr calls, put_node a (NVectorReducer n') E))
     | Some (NCompositeRoot rs) \<Rightarrow> (Inr [], E)
     | Some (NResponder n) \<Rightarrow> (Inr [], E \<lparr> en_sent := en_sent E @ Responder_onValue sv n \<rparr>)))"

text \<open>All the calls that follow from some calls; the result has the message of an exception.\<close>

definition deliver :: "addr list \<Rightarrow> call list \<Rightarrow> Engine \<Rightarrow> (string option \<times> Engine) option" where
  "deliver pins cs E = drain (call_node pins) cs E"

section \<open>Tasks and timers\<close>

text \<open>\<^verbatim>\<open>ThreadPool::workerLoop\<close> takes the oldest task; an exception of a task is logged.\<close>

definition run_task :: "Engine \<Rightarrow> Engine option" where
  "run_task E = (case en_tasks E of
       [] \<Rightarrow> Some E
     | c # cs \<Rightarrow> map_option snd (deliver [fst c] [c] (E \<lparr> en_tasks := cs \<rparr>)))"

definition leave_loop :: "addr \<Rightarrow> Engine \<Rightarrow> Engine" where
  "leave_loop a E = E \<lparr> en_threads := filter (\<lambda>b. b \<noteq> a) (en_threads E) \<rparr>"

definition timer_turn :: "addr \<Rightarrow> Engine \<Rightarrow> Engine" where
  "timer_turn a E =
     (if a \<notin> set (en_threads E) then E
      else case node_at E a of
          Some (NInterval n) \<Rightarrow> (case Timer_tick n of (calls, again) \<Rightarrow> if again then post_all calls E else leave_loop a E)
        | Some (NBucketTime n) \<Rightarrow> (case Timer_tick n of (calls, again) \<Rightarrow> if again then post_all calls E else leave_loop a E)
        | Some (NTumblingWindow n) \<Rightarrow> (case TumblingWindow_timer n of (calls, n', again) \<Rightarrow>
            if again then post_all calls (put_node a (NTumblingWindow n') E) else leave_loop a E)
        | _ \<Rightarrow> E)"

section \<open>Shutdown\<close>

text \<open>One \<^verbatim>\<open>shutdown\<close>: the nodes whose shutdown it calls, and the engine after.\<close>

definition shutdown_node :: "addr \<Rightarrow> Engine \<Rightarrow> (string + addr list) \<times> Engine" where
  "shutdown_node a E = (case node_at E a of
       None \<Rightarrow> (Inr [], E)
     | Some (NListener l) \<Rightarrow>
         (if ls_stopping l then (Inr [], E)
          else let E1 = (if ls_dispatcher l then unregisterListener (ls_symbol l) (ls_field l) a E else E)
               in (Inr [], put_node a (NListener (l \<lparr> ls_stopping := True, ls_downstream := None \<rparr>)) E1))
     | Some (NAggregate n) \<Rightarrow> (Inr [], put_node a (NAggregate (Aggregate_shutdown n)) E)
     | Some (NGroupSplit g) \<Rightarrow> (Inr (map snd (gs_children g)), put_node a (NGroupSplit (g \<lparr> gs_children := [] \<rparr>)) E)
     | Some (NWorker n) \<Rightarrow> (Inr [], put_node a (NWorker (Worker_shutdown n)) E)
     | Some (NAtomicAccessor n) \<Rightarrow> (Inr [], put_node a (NAtomicAccessor (AtomicAccessor_shutdown n)) E)
     | Some (NInterval n) \<Rightarrow> (Inr [], leave_loop a (put_node a (NInterval (Timer_shutdown n)) E))
     | Some (NBucketTime n) \<Rightarrow> (Inr [], leave_loop a (put_node a (NBucketTime (Timer_shutdown n)) E))
     | Some (NTumblingWindow n) \<Rightarrow> (Inr [], leave_loop a (put_node a (NTumblingWindow (TumblingWindow_shutdown n)) E))
     | Some (NVectorReducer n) \<Rightarrow> (Inr [], put_node a (NVectorReducer (VectorReducer_shutdown n)) E)
     | Some (NCompositeRoot rs) \<Rightarrow> (Inr rs, put_node a (NCompositeRoot []) E)
     | Some (NResponder n) \<Rightarrow> (Inr [], put_node a (NResponder (Responder_shutdown n)) E))"

definition shutdown :: "addr \<Rightarrow> Engine \<Rightarrow> Engine option" where
  "shutdown a E = map_option snd (drain shutdown_node [a] E)"

end
