(* ===== verification/Node_Graph_Inv.thy ===== *)
theory Node_Graph_Inv
  imports Node_Run
begin

text \<open>
  The graph has no cycles, and every pointer is valid. Nodes are ranked so that every call and every
  shutdown goes to a node of smaller rank. A group split leaves room below itself: its rank exceeds
  that of its downstream node by more than the size of its child specification, so that the children
  it builds while values flow fit in between. This makes every delivery and every shutdown finish,
  whatever the clients asked for.
\<close>

section \<open>Ranked graphs\<close>

fun weak_targets :: "inode \<Rightarrow> addr list" where
  "weak_targets (NListener l) = (case ls_downstream l of None \<Rightarrow> [] | Some d \<Rightarrow> [d])"
| "weak_targets _ = []"

definition rk :: "(addr \<Rightarrow> nat) \<Rightarrow> addr option \<Rightarrow> nat" where
  "rk rank ds = (case ds of None \<Rightarrow> 0 | Some d \<Rightarrow> rank d)"

fun group_room :: "(addr \<Rightarrow> nat) \<Rightarrow> nat \<Rightarrow> inode \<Rightarrow> bool" where
  "group_room rank r (NGroupSplit g) \<longleftrightarrow> rk rank (gs_downstream g) + size (gs_child g) < r"
| "group_room rank r _ \<longleftrightarrow> True"

definition ranked_node :: "nat \<Rightarrow> (addr \<Rightarrow> nat) \<Rightarrow> nat \<Rightarrow> inode \<Rightarrow> bool" where
  "ranked_node len rank r n \<longleftrightarrow>
     (\<forall>d \<in> set (owned n) \<union> set (weak_targets n). d < len \<and> rank d < r) \<and> group_room rank r n"

definition refs_ok :: "Engine \<Rightarrow> bool" where
  "refs_ok E \<longleftrightarrow> (\<forall>a \<in> set (engine_roots E). a < length (en_nodes E))"

definition ranked :: "(addr \<Rightarrow> nat) \<Rightarrow> Engine \<Rightarrow> bool" where
  "ranked rank E \<longleftrightarrow> (\<forall>a < length (en_nodes E). ranked_node (length (en_nodes E)) rank (rank a) (en_nodes E ! a)) \<and> refs_ok E"

definition graph_ok :: "Engine \<Rightarrow> bool" where
  "graph_ok E \<longleftrightarrow> (\<exists>rank. ranked rank E)"

text \<open>How an operation may extend a graph: no node goes away or changes its rank.\<close>

definition extends :: "(addr \<Rightarrow> nat) \<Rightarrow> Engine \<Rightarrow> (addr \<Rightarrow> nat) \<Rightarrow> Engine \<Rightarrow> bool" where
  "extends rank E rank' E' \<longleftrightarrow> ranked rank' E' \<and> length (en_nodes E) \<le> length (en_nodes E') \<and>
     (\<forall>a < length (en_nodes E). rank' a = rank a)"

lemma extends_refl [simp]: "ranked rank E \<Longrightarrow> extends rank E rank E"
  by (simp add: extends_def)

lemma extends_trans: "extends r1 E1 r2 E2 \<Longrightarrow> extends r2 E2 r3 E3 \<Longrightarrow> extends r1 E1 r3 E3"
  by (simp add: extends_def)

lemma extends_ranked: "extends rank E rank' E' \<Longrightarrow> ranked rank' E'"
  by (simp add: extends_def)

definition ds_ok :: "Engine \<Rightarrow> addr option \<Rightarrow> bool" where
  "ds_ok E ds \<longleftrightarrow> (case ds of None \<Rightarrow> True | Some d \<Rightarrow> d < length (en_nodes E))"

lemma extends_ds_ok: "extends r E r' E' \<Longrightarrow> ds_ok E ds \<Longrightarrow> ds_ok E' ds"
  by (auto simp: extends_def ds_ok_def split: option.splits)

lemma extends_rk: "extends r E r' E' \<Longrightarrow> ds_ok E ds \<Longrightarrow> rk r' ds = rk r ds"
  by (auto simp: extends_def ds_ok_def rk_def split: option.splits)

lemma ranked_node_cong:
  assumes "ranked_node len rank r n" "len \<le> len'" "\<And>a. a < len \<Longrightarrow> rank' a = rank a"
  shows "ranked_node len' rank' r n"
proof -
  have "d < len' \<and> rank' d < r" if "d \<in> set (owned n) \<union> set (weak_targets n)" for d
  proof -
    have "d < len" "rank d < r" using that assms(1) unfolding ranked_node_def by blast+
    then show ?thesis using assms(2,3) by simp
  qed
  moreover have "group_room rank' r n"
  proof (cases n)
    case (NGroupSplit g)
    then have "rk rank' (gs_downstream g) = rk rank (gs_downstream g)"
      using assms(1,3) by (auto simp: ranked_node_def rk_def split: option.split)
    then show ?thesis using assms(1) NGroupSplit by (simp add: ranked_node_def)
  qed simp_all
  ultimately show ?thesis by (simp add: ranked_node_def)
qed

lemma ranked_nth:
  "ranked rank E \<Longrightarrow> a < length (en_nodes E) \<Longrightarrow> ranked_node (length (en_nodes E)) rank (rank a) (en_nodes E ! a)"
  by (simp add: ranked_def)

lemma ranked_refs: "ranked rank E \<Longrightarrow> refs_ok E"
  by (simp add: ranked_def)

section \<open>Allocation and update\<close>

lemma roots_alloc [simp]: "engine_roots (snd (alloc n E)) = engine_roots E"
  by (simp add: alloc_def engine_roots_def table_roots_def)

lemma alloc_extends:
  assumes "ranked rank E" "alloc n E = (a, E')" "ranked_node (length (en_nodes E)) rank r n"
  shows "extends rank E (rank(a := r)) E'" and "a < length (en_nodes E')" and "node_at E' a = Some n"
proof -
  let ?L = "length (en_nodes E)"
  have a: "a = ?L" and E': "E' = E \<lparr> en_nodes := en_nodes E @ [n] \<rparr>" using assms(2) by (auto simp: alloc_def)
  have "ranked_node (Suc ?L) (rank(?L := r)) ((rank(?L := r)) b) ((en_nodes E @ [n]) ! b)" if "b < Suc ?L" for b
  proof (cases "b = ?L")
    case True
    then show ?thesis using ranked_node_cong [OF assms(3), of "Suc ?L" "rank(?L := r)"] by simp
  next
    case False
    then have b: "b < ?L" using that by simp
    from ranked_nth [OF assms(1) this] show ?thesis
      using ranked_node_cong [of ?L rank "rank b" "en_nodes E ! b" "Suc ?L" "rank(?L := r)"] b
      by (simp add: nth_append)
  qed
  moreover have "engine_roots E' = engine_roots E" by (simp add: E' engine_roots_def table_roots_def)
  then have "refs_ok E'" using ranked_refs [OF assms(1)] unfolding refs_ok_def by (auto simp: E')
  ultimately show "extends rank E (rank(a := r)) E'" by (simp add: extends_def ranked_def a E')
qed (use assms(2) in \<open>auto simp: alloc_def node_at_def\<close>)

lemma put_extends:
  assumes "ranked rank E" "ranked_node (length (en_nodes E)) rank (rank a) n"
  shows "extends rank E rank (put_node a n E)"
proof -
  have "ranked_node (length (en_nodes E)) rank (rank b) ((en_nodes E)[a := n] ! b)" if "b < length (en_nodes E)" for b
    using that assms ranked_nth [OF assms(1) that] by (cases "b = a") simp_all
  moreover have "engine_roots (put_node a n E) = engine_roots E" by (simp add: put_node_def engine_roots_def table_roots_def)
  ultimately show ?thesis using ranked_refs [OF assms(1)]
    by (simp add: extends_def ranked_def refs_ok_def) (simp add: put_node_def)
qed

text \<open>Changes outside the objects.\<close>

lemma outside_extends:
  assumes "ranked rank E" "en_nodes E' = en_nodes E" "set (engine_roots E') \<subseteq> {..<length (en_nodes E)}"
  shows "extends rank E rank E'"
  using assms by (auto simp: extends_def ranked_def refs_ok_def)

lemma roots_bounded: "ranked rank E \<Longrightarrow> set (engine_roots E) \<subseteq> {..<length (en_nodes E)}"
  by (auto simp: ranked_def refs_ok_def)

lemma at_key_in: "a \<in> set (at_key f fm) \<Longrightarrow> \<exists>as. (f, as) \<in> set fm \<and> a \<in> set as"
  by (cases "map_of fm f") (auto simp: at_key_def dest!: map_of_SomeD)

lemma set_om_set: "set (om_set lt k v m) \<subseteq> insert (k, v) (set m)"
  by (induction lt k v m rule: om_set.induct) auto

lemma set_update_subset: "set (AList.update k v m) \<subseteq> insert (k, v) (set m)"
  by (induction m) auto

definition in_table :: "(string, (string \<times> addr list) list) umap \<Rightarrow> addr set" where
  "in_table ls = {a. \<exists>s fm f as. (s, fm) \<in> set ls \<and> (f, as) \<in> set fm \<and> a \<in> set as}"

lemma set_table_roots: "set (table_roots E) = in_table (en_listeners E)"
proof -
  have "set (table_roots E) = (\<Union>p \<in> set (en_listeners E). \<Union>q \<in> set (snd p). set (snd q))"
    by (simp add: table_roots_def case_prod_unfold)
  then show ?thesis unfolding in_table_def by force
qed

lemma in_table_fields: "(f, as) \<in> set (fields_of s E) \<Longrightarrow> a \<in> set as \<Longrightarrow> a \<in> in_table (en_listeners E)"
  by (cases "map_of (en_listeners E) s") (auto simp: fields_of_def in_table_def dest!: map_of_SomeD)

lemma in_table_update:
  assumes "a \<in> in_table (AList.update s fm ls)"
  shows "a \<in> in_table ls \<or> (\<exists>f as. (f, as) \<in> set fm \<and> a \<in> set as)"
  using assms set_update_subset [of s fm ls] unfolding in_table_def by blast

lemma in_table_delete: "in_table (AList.delete s ls) \<subseteq> in_table ls"
  by (auto simp: in_table_def)

lemma register_table: "in_table (en_listeners (registerListener s f a E)) \<subseteq> insert a (in_table (en_listeners E))"
proof
  fix b assume "b \<in> in_table (en_listeners (registerListener s f a E))"
  then have "b \<in> in_table (en_listeners E) \<or>
      (\<exists>g as. (g, as) \<in> set (om_set str_lt f (at_key f (fields_of s E) @ [a]) (fields_of s E)) \<and> b \<in> set as)"
    by (auto simp: registerListener_def Let_def dest: in_table_update)
  then show "b \<in> insert a (in_table (en_listeners E))"
  proof
    assume "\<exists>g as. (g, as) \<in> set (om_set str_lt f (at_key f (fields_of s E) @ [a]) (fields_of s E)) \<and> b \<in> set as"
    then obtain g as where "(g, as) = (f, at_key f (fields_of s E) @ [a]) \<or> (g, as) \<in> set (fields_of s E)" "b \<in> set as"
      using set_om_set [of str_lt f "at_key f (fields_of s E) @ [a]" "fields_of s E"] by blast
    then show ?thesis by (auto dest!: at_key_in intro: in_table_fields)
  qed simp
qed

lemma register_extends:
  assumes "ranked rank E" "a < length (en_nodes E)"
  shows "extends rank E rank (registerListener s f a E)"
proof (rule outside_extends [OF assms(1)])
  show "en_nodes (registerListener s f a E) = en_nodes E" by (simp add: registerListener_def Let_def)
  have rest: "en_held (registerListener s f a E) = en_held E" "en_threads (registerListener s f a E) = en_threads E"
    "en_tasks (registerListener s f a E) = en_tasks E" by (simp_all add: registerListener_def Let_def)
  show "set (engine_roots (registerListener s f a E)) \<subseteq> {..<length (en_nodes E)}"
    using roots_bounded [OF assms(1)] register_table [of s f a E] assms(2)
    by (auto simp: engine_roots_def set_table_roots rest)
qed

lemma unregister_table: "in_table (en_listeners (unregisterListener s f a E)) \<subseteq> in_table (en_listeners E)"
proof
  fix b assume b: "b \<in> in_table (en_listeners (unregisterListener s f a E))"
  show "b \<in> in_table (en_listeners E)"
  proof (cases "map_of (en_listeners E) s")
    case None
    then show ?thesis using b by (simp add: unregisterListener_def)
  next
    case (Some fm)
    note fm = this
    show ?thesis
    proof (cases "map_of fm f")
      case None
      then show ?thesis using b fm by (simp add: unregisterListener_def)
    next
      case (Some vec)
      define fm' where "fm' = (if filter (\<lambda>b. b \<noteq> a) vec = [] then AList.delete f fm else om_set str_lt f (filter (\<lambda>b. b \<noteq> a) vec) fm)"
      have in_fm': "\<exists>g bs. (g, bs) \<in> set fm \<and> c \<in> set bs" if "(g, as) \<in> set fm'" "c \<in> set as" for c g as
      proof -
        have "(g, as) = (f, filter (\<lambda>b. b \<noteq> a) vec) \<or> (g, as) \<in> set fm"
          using that(1) set_om_set [of str_lt f "filter (\<lambda>b. b \<noteq> a) vec" fm] by (auto simp: fm'_def split: if_splits)
        then show ?thesis using that(2) map_of_SomeD [OF Some]
          by (elim disjE) (auto intro: exI [of _ f] exI [of _ vec] simp del: ex_simps)
      qed
      have "en_listeners (unregisterListener s f a E) = (if fm' = [] then AList.delete s (en_listeners E) else AList.update s fm' (en_listeners E))"
        using fm Some by (simp add: unregisterListener_def Let_def fm'_def)
      then have "b \<in> in_table (AList.delete s (en_listeners E)) \<or> b \<in> in_table (AList.update s fm' (en_listeners E))"
        using b by (simp split: if_splits)
      then have "b \<in> in_table (en_listeners E) \<or> (\<exists>g as. (g, as) \<in> set fm' \<and> b \<in> set as)"
        using in_table_update in_table_delete by blast
      then show ?thesis
      proof
        assume "\<exists>g as. (g, as) \<in> set fm' \<and> b \<in> set as"
        then obtain g bs where "(g, bs) \<in> set fm" "b \<in> set bs" using in_fm' by blast
        then show ?thesis using map_of_SomeD [OF fm] by (auto simp: in_table_def)
      qed
    qed
  qed
qed

lemma unregister_extends:
  assumes "ranked rank E"
  shows "extends rank E rank (unregisterListener s f a E)"
proof (rule outside_extends [OF assms(1)])
  show "en_nodes (unregisterListener s f a E) = en_nodes E"
    by (simp add: unregisterListener_def Let_def split: option.split)
  have rest: "en_held (unregisterListener s f a E) = en_held E" "en_threads (unregisterListener s f a E) = en_threads E"
    "en_tasks (unregisterListener s f a E) = en_tasks E"
    by (simp_all add: unregisterListener_def Let_def split: option.split)
  show "set (engine_roots (unregisterListener s f a E)) \<subseteq> {..<length (en_nodes E)}"
    using roots_bounded [OF assms(1)] unregister_table [of s f a E]
    by (auto simp: engine_roots_def set_table_roots rest)
qed

lemma post_all_nodes [simp]: "en_nodes (post_all cs E) = en_nodes E"
  unfolding post_all_def by (induction cs arbitrary: E) (auto simp: post_def)

lemma post_extends:
  assumes "ranked rank E" "fst c < length (en_nodes E)"
  shows "extends rank E rank (post c E)"
  by (rule outside_extends [OF assms(1)])
    (use roots_bounded [OF assms(1)] assms(2) in \<open>auto simp: post_def engine_roots_def table_roots_def\<close>)

lemma post_all_extends:
  assumes "ranked rank E" "\<forall>c \<in> set cs. fst c < length (en_nodes E)"
  shows "extends rank E rank (post_all cs E)"
  using assms unfolding post_all_def
proof (induction cs arbitrary: E)
  case (Cons c cs)
  have 1: "extends rank E rank (post c E)" using Cons.prems by (intro post_extends) auto
  moreover have "length (en_nodes (post c E)) = length (en_nodes E)" by (simp add: post_def)
  ultimately have "extends rank (post c E) rank (fold post cs (post c E))"
    using Cons.prems by (intro Cons.IH) (auto dest: extends_ranked)
  with 1 show ?case by (auto intro: extends_trans)
qed simp

section \<open>Building\<close>

text \<open>Started nodes keep their pointers.\<close>

lemma Listener_start_extends:
  assumes "ranked rank E"
  shows "extends rank E rank (Listener_start a E)"
proof (cases "\<exists>l. node_at E a = Some (NListener l)")
  case True
  then obtain l where l: "node_at E a = Some (NListener l)" by blast
  then have a: "a < length (en_nodes E)" "en_nodes E ! a = NListener l" by (auto simp: node_at_def split: if_splits)
  let ?E1 = "put_node a (NListener (l \<lparr> ls_started := True \<rparr>)) E"
  have 1: "extends rank E rank ?E1"
    using ranked_nth [OF assms a(1)] by (intro put_extends [OF assms]) (simp add: a(2) ranked_node_def)
  have "extends rank ?E1 rank (registerListener (ls_symbol l) (ls_field l) a ?E1)"
    using a(1) by (intro register_extends extends_ranked [OF 1]) (simp add: put_node_def)
  with 1 assms show ?thesis by (auto simp: Listener_start_def l Let_def intro: extends_trans)
next
  case False
  then have "Listener_start a E = E" by (auto simp: Listener_start_def split: option.split inode.split)
  with assms show ?thesis by simp
qed

lemma thread_extends:
  assumes "ranked rank E" "a < length (en_nodes E)" "ranked_node (length (en_nodes E)) rank (rank a) n"
  shows "extends rank E rank ((put_node a n E) \<lparr> en_threads := a # en_threads E \<rparr>)"
proof (rule extends_trans)
  show 1: "extends rank E rank (put_node a n E)" by (rule put_extends [OF assms(1,3)])
  show "extends rank (put_node a n E) rank ((put_node a n E) \<lparr> en_threads := a # en_threads E \<rparr>)"
    using roots_bounded [OF extends_ranked [OF 1]] assms(2)
    by (intro outside_extends [OF extends_ranked [OF 1]]) (auto simp: engine_roots_def table_roots_def put_node_def)
qed

lemma Timer_start_extends:
  assumes "ranked rank E"
  shows "extends rank E rank (Timer_start a E)"
proof (cases "a < length (en_nodes E)")
  case True
  note n = ranked_nth [OF assms True]
  show ?thesis using assms True n thread_extends [OF assms True]
    by (cases "en_nodes E ! a") (auto simp: Timer_start_def node_at_def ranked_node_def)
next
  case False
  then show ?thesis using assms by (simp add: Timer_start_def node_at_def)
qed

text \<open>What a builder promises: a node at most \<open>bound\<close> high, or an exception; the graph stays ranked.\<close>

definition built_ok :: "(addr \<Rightarrow> nat) \<Rightarrow> Engine \<Rightarrow> nat \<Rightarrow> built \<Rightarrow> bool" where
  "built_ok rank E bound res \<longleftrightarrow> (\<exists>rank'. extends rank E rank' (snd res) \<and>
     (case fst res of Inl _ \<Rightarrow> True | Inr a \<Rightarrow> a < length (en_nodes (snd res)) \<and> rank' a \<le> bound))"

definition built_all_ok :: "(addr \<Rightarrow> nat) \<Rightarrow> Engine \<Rightarrow> nat \<Rightarrow> (string + addr list) \<times> Engine \<Rightarrow> bool" where
  "built_all_ok rank E bound res \<longleftrightarrow> (\<exists>rank'. extends rank E rank' (snd res) \<and>
     (case fst res of Inl _ \<Rightarrow> True | Inr as \<Rightarrow> \<forall>a \<in> set as. a < length (en_nodes (snd res)) \<and> rank' a \<le> bound))"

lemma built_error [simp]: "ranked rank E \<Longrightarrow> built_ok rank E b (Inl e, E)"
  by (auto simp: built_ok_def intro: extends_refl)

lemma built_mono: "built_ok rank E b res \<Longrightarrow> b \<le> b' \<Longrightarrow> built_ok rank E b' res"
  by (fastforce simp: built_ok_def split: sum.splits)

definition leaf_over :: "addr option \<Rightarrow> inode \<Rightarrow> bool" where
  "leaf_over ds n \<longleftrightarrow> set (owned n) \<union> set (weak_targets n) \<subseteq> set_option ds \<and> (\<forall>g. n \<noteq> NGroupSplit g)"

lemma leaf_ranked:
  assumes "leaf_over ds n" "ds_ok E ds"
  shows "ranked_node (length (en_nodes E)) rank (rk rank ds + 1) n"
  using assms by (cases n) (auto simp: leaf_over_def ranked_node_def ds_ok_def rk_def split: option.splits)

lemma leaf_built:
  assumes "ranked rank E" "ds_ok E ds" "leaf_over ds n" "alloc n E = (a, E1)"
    and start: "\<And>rank. ranked rank E1 \<Longrightarrow> extends rank E1 rank E2"
  shows "built_ok rank E (rk rank ds + 1) (Inr a, E2)"
proof -
  let ?r = "rank(a := rk rank ds + 1)"
  note al = alloc_extends [OF assms(1,4) leaf_ranked [OF assms(3,2)]]
  have "extends rank E ?r E2" using al(1) start [OF extends_ranked [OF al(1)]] by (rule extends_trans)
  moreover have "a < length (en_nodes E2)" using al(2) start [OF extends_ranked [OF al(1)]] by (simp add: extends_def)
  ultimately show ?thesis by (auto simp: built_ok_def intro!: exI [of _ ?r])
qed

lemma leaf_simps [simp]:
  "leaf_over ds (NListener (mkListener s f ds deps))"
  "leaf_over ds (NInterval \<lparr> tm_period = p, tm_child = ds, tm_stopping = b, tm_started = c \<rparr>)"
  "leaf_over ds (NBucketTime \<lparr> tm_period = p, tm_child = ds, tm_stopping = b, tm_started = c \<rparr>)"
  "leaf_over ds (NTumblingWindow \<lparr> tw_period = p, tw_downstream = ds, tw_stopping = b, tw_started = c, tw_acc = acc \<rparr>)"
  "leaf_over ds (NVectorReducer \<lparr> vr_fn = h, vr_downstream = ds, vr_stopping = b \<rparr>)"
  "leaf_over ds (NAtomicAccessor \<lparr> aa_symbol = s, aa_field = f', aa_downstream = ds, aa_stopping = b \<rparr>)"
  "leaf_over ds (NWorker (Worker_new w ds))"
  "leaf_over None (NResponder r)"
  by (auto simp: leaf_over_def mkListener_def Worker_new_def split: option.splits)

lemma leaf_alloc:
  assumes "ranked rank E" "ds_ok E ds" "leaf_over ds n"
  shows "built_ok rank E (Suc (rk rank ds)) (case alloc n E of (a, E1) \<Rightarrow> (Inr a, E1))"
  using leaf_built [OF assms] by (cases "alloc n E") simp

lemma leaf_alloc_timer:
  assumes "ranked rank E" "ds_ok E ds" "leaf_over ds n"
  shows "built_ok rank E (Suc (rk rank ds)) (case alloc n E of (a, E1) \<Rightarrow> (Inr a, Timer_start a E1))"
  using leaf_built [OF assms] Timer_start_extends by (cases "alloc n E") simp

lemma start_listener_built:
  assumes "ranked rank E" "ds_ok E ds"
  shows "built_ok rank E (Suc (rk rank ds)) (case start_listener (mkListener s f ds deps) E of (a, E1) \<Rightarrow> (Inr a, E1))"
  using leaf_built [OF assms, of "NListener (mkListener s f ds deps)"] Listener_start_extends
  by (cases "alloc (NListener (mkListener s f ds deps)) E") (simp add: start_listener_def)

lemma finish_timer_built:
  assumes "ranked rank E" "ds_ok E ds" "mk = NInterval \<or> mk = NBucketTime"
  shows "built_ok rank E (Suc (rk rank ds)) (case finish_timer mk ms ds E of (a, E1) \<Rightarrow> (Inr a, E1))"
proof -
  let ?n = "mk \<lparr> tm_period = ms, tm_child = ds, tm_stopping = False, tm_started = False \<rparr>"
  have "leaf_over ds ?n" using assms(3) by auto
  from leaf_alloc_timer [OF assms(1,2) this] show ?thesis by (cases "alloc ?n E") (simp add: finish_timer_def)
qed

lemma build_Listener_built:
  assumes "ranked rank E" "ds_ok E ds"
  shows "built_ok rank E (Suc (rk rank ds)) (build_Listener v key deps ds E)"
  using assms(1) start_listener_built [OF assms] by (simp add: build_Listener_def Let_def)

lemma build_TumblingWindow_built:
  assumes "ranked rank E" "ds_ok E ds"
  shows "built_ok rank E (Suc (rk rank ds)) (build_TumblingWindow v deps ds E)"
  using assms leaf_alloc_timer [OF assms] by (simp add: build_TumblingWindow_def split: sum.split)

lemma build_VectorReducer_built:
  assumes "ranked rank E" "ds_ok E ds"
  shows "built_ok rank E (Suc (rk rank ds)) (build_VectorReducer v ds E)"
  using assms leaf_alloc [OF assms] by (simp add: build_VectorReducer_def split: option.split)

lemma build_AtomicAccessor_built:
  assumes "ranked rank E" "ds_ok E ds"
  shows "built_ok rank E (Suc (rk rank ds)) (build_AtomicAccessor v key deps ds E)"
  using assms leaf_alloc [OF assms] by (simp add: build_AtomicAccessor_def Let_def)

lemma build_Worker_built:
  assumes "ranked rank E" "ds_ok E ds"
  shows "built_ok rank E (Suc (rk rank ds)) (build_Worker v ds E)"
  using assms leaf_alloc [OF assms] by (simp add: build_Worker_def split: sum.split)

lemmas leaf_builders = build_Listener_built build_TumblingWindow_built build_VectorReducer_built
  build_AtomicAccessor_built build_Worker_built

lemma build_GroupSplit_built:
  assumes "ranked rank E" "ds_ok E ds"
  shows "built_ok rank E (rk rank ds + size v) (build_GroupSplit v key deps ds E)"
proof (cases "member ''child'' v")
  case None
  then show ?thesis using assms(1) by (simp add: build_GroupSplit_def)
next
  case (Some c)
  let ?n = "NGroupSplit \<lparr> gs_child = c, gs_defaultStreamKey = key, gs_deps = deps, gs_downstream = ds, gs_children = [] \<rparr>"
  let ?r = "rk rank ds + size v"
  have "size c < size v" using Some by (rule member_size)
  then have n: "ranked_node (length (en_nodes E)) rank ?r ?n"
    using assms(2) by (auto simp: ranked_node_def ds_ok_def rk_def split: option.splits)
  obtain a E1 where al: "alloc ?n E = (a, E1)" by (cases "alloc ?n E")
  show ?thesis using alloc_extends [OF assms(1) al n] Some al
    by (auto simp: build_GroupSplit_def built_ok_def intro!: exI [of _ "rank(a := ?r)"])
qed

lemma finish_aggregate_built:
  assumes "ranked rank E" "agg < length (en_nodes E)"
    and "\<forall>a \<in> set roots. a < length (en_nodes E) \<and> rank a \<le> b" "rank agg \<le> b"
  shows "built_ok rank E (b + 1) (finish_aggregate agg roots E)"
proof (cases "roots = []")
  case True
  then show ?thesis using assms(1) by (simp add: finish_aggregate_def)
next
  case False
  let ?n = "NCompositeRoot (roots @ [agg])"
  have n: "ranked_node (length (en_nodes E)) rank (b + 1) ?n" using assms(2-4) by (auto simp: ranked_node_def)
  obtain a E1 where al: "alloc ?n E = (a, E1)" by (cases "alloc ?n E")
  show ?thesis using alloc_extends [OF assms(1) al n] False al
    by (auto simp: finish_aggregate_def built_ok_def intro!: exI [of _ "rank(a := b + 1)"])
qed

text \<open>Composing builders: what follows works on the extended graph.\<close>

lemma built_okE:
  assumes "built_ok rank E b (r, E1)"
  obtains rank1 where "extends rank E rank1 E1"
    "case r of Inl _ \<Rightarrow> True | Inr a \<Rightarrow> a < length (en_nodes E1) \<and> rank1 a \<le> b"
  using assms unfolding built_ok_def fst_conv snd_conv by blast

lemma built_all_okE:
  assumes "built_all_ok rank E b (r, E1)"
  obtains rank1 where "extends rank E rank1 E1"
    "case r of Inl _ \<Rightarrow> True | Inr as \<Rightarrow> \<forall>a \<in> set as. a < length (en_nodes E1) \<and> rank1 a \<le> b"
  using assms unfolding built_all_ok_def fst_conv snd_conv by blast

lemma extends_built: "extends rank E rank1 E1 \<Longrightarrow> built_ok rank1 E1 b res \<Longrightarrow> built_ok rank E b res"
  unfolding built_ok_def by (blast intro: extends_trans)

text \<open>The loops over inputs and stages, given what holds of each element.\<close>

lemma buildInputs_built:
  assumes "\<And>v rank E ds. v \<in> set vs \<Longrightarrow> ranked rank E \<Longrightarrow> ds_ok E ds \<Longrightarrow> built_ok rank E (rk rank ds + size v) (buildOne v key deps ds E)"
    and "ranked rank E" "agg < length (en_nodes E)"
  shows "built_all_ok rank E (rank agg + spec_size vs) (buildInputs vs key deps agg E)"
  using assms
proof (induction vs arbitrary: rank E)
  case Nil
  then show ?case by (auto simp: built_all_ok_def intro: extends_refl)
next
  case (Cons v vs)
  obtain r E1 where b: "buildOne v key deps (Some agg) E = (r, E1)" by (cases "buildOne v key deps (Some agg) E")
  obtain rank1 where r1: "extends rank E rank1 E1"
    "case r of Inl _ \<Rightarrow> True | Inr a \<Rightarrow> a < length (en_nodes E1) \<and> rank1 a \<le> rank agg + size v"
    by (rule built_okE [of rank E "rank agg + size v" r E1])
      (use Cons.prems(1) [of v rank E "Some agg"] Cons.prems(2,3) b in \<open>simp add: ds_ok_def rk_def\<close>)
  show ?case
  proof (cases r)
    case (Inl e)
    then show ?thesis using r1(1) b by (auto simp: built_all_ok_def)
  next
    case (Inr a)
    have agg: "rank1 agg = rank agg" "agg < length (en_nodes E1)" using r1(1) Cons.prems(3) by (auto simp: extends_def)
    obtain rs E2 where bs: "buildInputs vs key deps agg E1 = (rs, E2)" by (cases "buildInputs vs key deps agg E1")
    have "built_all_ok rank1 E1 (rank agg + spec_size vs) (rs, E2)"
      using Cons.IH [of rank1 E1] Cons.prems(1) extends_ranked [OF r1(1)] agg bs by simp
    then obtain rank2 where r2: "extends rank1 E1 rank2 E2"
      "case rs of Inl _ \<Rightarrow> True | Inr as \<Rightarrow> \<forall>a \<in> set as. a < length (en_nodes E2) \<and> rank2 a \<le> rank agg + spec_size vs"
      by (rule built_all_okE)
    have "a < length (en_nodes E2)" "rank2 a \<le> rank agg + size v" using r1(2) r2(1) Inr by (auto simp: extends_def)
    then show ?thesis using r2 extends_trans [OF r1(1) r2(1)] b bs Inr
      by (cases rs) (auto simp: built_all_ok_def intro!: exI [of _ rank2])
  qed
qed

lemma buildStages_built:
  assumes "\<And>v rank E ds. v \<in> set vs \<Longrightarrow> ranked rank E \<Longrightarrow> ds_ok E ds \<Longrightarrow> built_ok rank E (rk rank ds + size v) (buildOne v key deps ds E)"
    and "ranked rank E" "ds_ok E ds"
  shows "built_all_ok rank E (rk rank ds + spec_size vs) (buildStages vs key deps ds E)"
  using assms
proof (induction vs arbitrary: rank E ds)
  case Nil
  then show ?case by (auto simp: built_all_ok_def intro: extends_refl)
next
  case (Cons v vs)
  obtain r E1 where b: "buildOne v key deps ds E = (r, E1)" by (cases "buildOne v key deps ds E")
  obtain rank1 where r1: "extends rank E rank1 E1"
    "case r of Inl _ \<Rightarrow> True | Inr a \<Rightarrow> a < length (en_nodes E1) \<and> rank1 a \<le> rk rank ds + size v"
    by (rule built_okE [of rank E "rk rank ds + size v" r E1]) (use Cons.prems(1) [of v rank E ds] Cons.prems(2,3) b in simp)
  show ?case
  proof (cases r)
    case (Inl e)
    then show ?thesis using r1(1) b by (auto simp: built_all_ok_def)
  next
    case (Inr a)
    have a: "a < length (en_nodes E1)" "rank1 a \<le> rk rank ds + size v" using r1(2) Inr by auto
    obtain rs E2 where bs: "buildStages vs key deps (Some a) E1 = (rs, E2)" by (cases "buildStages vs key deps (Some a) E1")
    have "built_all_ok rank1 E1 (rank1 a + spec_size vs) (rs, E2)"
      using Cons.IH [of rank1 E1 "Some a"] Cons.prems(1) extends_ranked [OF r1(1)] a(1) bs by (simp add: ds_ok_def rk_def)
    then obtain rank2 where r2: "extends rank1 E1 rank2 E2"
      "case rs of Inl _ \<Rightarrow> True | Inr as \<Rightarrow> \<forall>b \<in> set as. b < length (en_nodes E2) \<and> rank2 b \<le> rank1 a + spec_size vs"
      by (rule built_all_okE)
    have "a < length (en_nodes E2)" "rank2 a \<le> rk rank ds + size v" using a r2(1) by (auto simp: extends_def)
    then show ?thesis using r2 a(2) extends_trans [OF r1(1) r2(1)] b bs Inr
      by (cases rs) (auto simp: built_all_ok_def intro!: exI [of _ rank2])
  qed
qed

lemma buildStages_length: "buildStages vs key deps ds E = (Inr as, E') \<Longrightarrow> length as = length vs"
  by (induction vs arbitrary: ds E as E') (auto split: sum.splits prod.splits)

text \<open>Every specification builds a ranked graph, at most its own size above the downstream node.\<close>

lemma built_all_error:
  "built_all_ok rank E b (Inl e, E1) \<Longrightarrow> built_ok rank E b' (Inl e, E1)"
  by (auto simp: built_all_ok_def built_ok_def)

lemma buildOne_aggregate:
  assumes "ranked rank E" "ds_ok E ds" "member ''inputs'' v = Some (JArray xs)" "Aggregate_new k ds = Some n"
    and "\<And>x rank E ds. x \<in> set xs \<Longrightarrow> ranked rank E \<Longrightarrow> ds_ok E ds \<Longrightarrow> built_ok rank E (rk rank ds + size x) (buildOne x key deps ds E)"
  shows "built_ok rank E (rk rank ds + size v) (case alloc (NAggregate n) E of (agg, E1) \<Rightarrow>
    (case buildInputs xs key deps agg E1 of (Inl e, E2) \<Rightarrow> (Inl e, E2) | (Inr roots, E2) \<Rightarrow> finish_aggregate agg roots E2))"
proof -
  let ?b = "rk rank ds + size v - 1"
  obtain agg E1 where al: "alloc (NAggregate n) E = (agg, E1)" by (cases "alloc (NAggregate n) E")
  have "leaf_over ds (NAggregate n)" using assms(4) by (auto simp: Aggregate_new_def leaf_over_def split: if_splits option.splits)
  note al' = alloc_extends [OF assms(1) al leaf_ranked [OF this assms(2)]]
  let ?r1 = "rank(agg := rk rank ds + 1)"
  obtain rs E2 where bs: "buildInputs xs key deps agg E1 = (rs, E2)" by (cases "buildInputs xs key deps agg E1")
  have all: "built_all_ok ?r1 E1 (rk rank ds + 1 + spec_size xs) (rs, E2)"
    using buildInputs_built [OF assms(5) extends_ranked [OF al'(1)] al'(2), of xs] bs by simp
  have sz: "rk rank ds + 1 + spec_size xs \<le> ?b" using member_array_size [OF assms(3)] by linarith
  obtain rank2 where r2: "extends ?r1 E1 rank2 E2"
    "case rs of Inl _ \<Rightarrow> True | Inr as \<Rightarrow> \<forall>a \<in> set as. a < length (en_nodes E2) \<and> rank2 a \<le> rk rank ds + 1 + spec_size xs"
    using all by (rule built_all_okE)
  have ext: "extends rank E rank2 E2" using al'(1) r2(1) by (rule extends_trans)
  show ?thesis
  proof (cases rs)
    case (Inl e)
    then show ?thesis using ext al bs by (auto simp: built_ok_def)
  next
    case (Inr roots)
    have "built_ok rank2 E2 (?b + 1) (finish_aggregate agg roots E2)"
    proof (rule finish_aggregate_built [OF extends_ranked [OF r2(1)]])
      have keep: "agg < length (en_nodes E2)" "rank2 agg = rk rank ds + 1"
        using r2(1) al'(2) by (simp_all add: extends_def)
      then show "agg < length (en_nodes E2)" "rank2 agg \<le> ?b" using sz by simp_all
      show "\<forall>a \<in> set roots. a < length (en_nodes E2) \<and> rank2 a \<le> ?b" using r2(2) Inr sz by fastforce
    qed
    from extends_built [OF ext built_mono [OF this]]
    have "built_ok rank E (rk rank ds + size v) (finish_aggregate agg roots E2)" using sz by simp
    then show ?thesis using al bs Inr by simp
  qed
qed

lemma buildOne_timer:
  assumes "ranked rank E" "ds_ok E ds" "mk = NInterval \<or> mk = NBucketTime" "0 < size v"
    and "\<And>c. member ''child'' v = Some c \<Longrightarrow> built_ok rank E (rk rank ds + size c) (buildOne c key deps ds E)"
  shows "built_ok rank E (rk rank ds + size v) (case member ''child'' v of
      None \<Rightarrow> (case finish_timer mk ms ds E of (a, E1) \<Rightarrow> (Inr a, E1))
    | Some c \<Rightarrow> (case buildOne c key deps ds E of
          (Inl e, E1) \<Rightarrow> (Inl e, E1)
        | (Inr child, E1) \<Rightarrow> (case finish_timer mk ms (Some child) E1 of (a, E2) \<Rightarrow> (Inr a, E2))))"
proof (cases "member ''child'' v")
  case None
  then show ?thesis using built_mono [OF finish_timer_built [OF assms(1-3)], of "rk rank ds + size v"] assms(4) by simp
next
  case (Some c)
  obtain r E1 where b: "buildOne c key deps ds E = (r, E1)" by (cases "buildOne c key deps ds E")
  obtain rank1 where r1: "extends rank E rank1 E1"
    "case r of Inl _ \<Rightarrow> True | Inr a \<Rightarrow> a < length (en_nodes E1) \<and> rank1 a \<le> rk rank ds + size c"
    by (rule built_okE [of rank E "rk rank ds + size c" r E1]) (use assms(5) [OF Some] b in simp)
  show ?thesis
  proof (cases r)
    case (Inl e)
    then show ?thesis using extends_built [OF r1(1)] extends_ranked [OF r1(1)] Some b by simp
  next
    case (Inr child)
    then have "built_ok rank1 E1 (Suc (rank1 child)) (case finish_timer mk ms (Some child) E1 of (a, E2) \<Rightarrow> (Inr a, E2))"
      using finish_timer_built [of rank1 E1 "Some child" mk ms] extends_ranked [OF r1(1)] r1(2) assms(3)
      by (simp add: ds_ok_def rk_def)
    moreover have "Suc (rank1 child) \<le> rk rank ds + size v" using r1(2) Inr member_size [OF Some] by simp
    ultimately show ?thesis using Some b Inr extends_built [OF r1(1)] built_mono by simp
  qed
qed

lemma buildOne_chain:
  assumes "ranked rank E" "ds_ok E ds" "member ''stages'' v = Some (JArray xs)" "xs \<noteq> []"
    and "\<And>x rank E ds. x \<in> set xs \<Longrightarrow> ranked rank E \<Longrightarrow> ds_ok E ds \<Longrightarrow> built_ok rank E (rk rank ds + size x) (buildOne x key deps ds E)"
  shows "built_ok rank E (rk rank ds + size v) (case buildStages (rev xs) key deps ds E of
      (Inl e, E1) \<Rightarrow> (Inl e, E1) | (Inr as, E1) \<Rightarrow> (Inr (last as), E1))"
proof -
  obtain rs E1 where bs: "buildStages (rev xs) key deps ds E = (rs, E1)" by (cases "buildStages (rev xs) key deps ds E")
  have "built_all_ok rank E (rk rank ds + spec_size xs) (rs, E1)"
    using buildStages_built [of "rev xs" key deps, OF _ assms(1,2)] assms(5) bs by simp
  then obtain rank1 where r1: "extends rank E rank1 E1"
    "case rs of Inl _ \<Rightarrow> True | Inr as \<Rightarrow> \<forall>a \<in> set as. a < length (en_nodes E1) \<and> rank1 a \<le> rk rank ds + spec_size xs"
    by (rule built_all_okE)
  show ?thesis
  proof (cases rs)
    case (Inl e)
    then show ?thesis using extends_built [OF r1(1)] extends_ranked [OF r1(1)] bs by simp
  next
    case (Inr as)
    have "last as \<in> set as" using buildStages_length [of "rev xs" key deps ds E as E1] bs Inr assms(4) by (cases as) auto
    then have "last as < length (en_nodes E1)" "rank1 (last as) \<le> rk rank ds + size v"
      using r1(2) Inr member_array_size [OF assms(3)] by fastforce+
    then show ?thesis using r1(1) bs Inr by (auto simp: built_ok_def intro!: exI [of _ rank1])
  qed
qed

theorem buildOne_built:
  assumes "ranked rank E" "ds_ok E ds"
  shows "built_ok rank E (rk rank ds + size v) (buildOne v key deps ds E)"
  using assms
proof (induction v arbitrary: rank E ds rule: measure_induct_rule [of size])
  case (less v)
  note prems = less.prems
  show ?case
  proof (cases "IsObject v \<and> expectType v \<noteq> None")
    case False
    then show ?thesis using prems(1) by (auto simp: buildOne.simps [of v])
  next
    case True
    then obtain ty where ty: "IsObject v" "expectType v = Some ty" by blast
    then have sz: "0 < size v" by (cases v) auto
    have up: "built_ok rank E (Suc (rk rank ds)) res \<Longrightarrow> built_ok rank E (rk rank ds + size v) res" for res
      using sz by (auto elim: built_mono)
    have elems: "built_ok r E' (rk r d + size x) (buildOne x key deps d E')"
      if "member k v = Some (JArray xs)" "x \<in> set xs" "ranked r E'" "ds_ok E' d" for k xs x r E' d
      using that elements_size [of x "JArray xs"] member_size [OF that(1)] by (intro less.IH) auto
    have child: "built_ok rank E (rk rank ds + size c) (buildOne c key deps ds E)" if "member ''child'' v = Some c" for c
      using member_size [OF that] prems by (intro less.IH) auto
    show ?thesis
      using prems(1) leaf_builders [OF prems, THEN up] build_GroupSplit_built [OF prems] elems
        buildOne_timer [OF prems _ sz child] buildOne_chain [OF prems] buildOne_aggregate [OF prems]
      by (simp add: buildOne.simps [of v] ty Let_def split: sum.split option.split json.split)
  qed
qed

end
