(* ===== verification/Node_Graph_Thms.thy ===== *)
theory Node_Graph_Thms
  imports Node_Graph_Inv
begin

text \<open>
  What the engine promises whatever requests its clients send: every delivery of a value, every task
  of the pool and every shutdown comes to an end, and the graph stays well formed.
\<close>

section \<open>Calls go down\<close>

lemma forward_target: "c \<in> set (forward ds svs) \<Longrightarrow> ds = Some (fst c)"
  by (auto simp: forward_def split: option.splits)

lemma Aggregate_onValue_targets:
  "Aggregate_onValue sv n = (cs, n') \<Longrightarrow> ag_parent n' = ag_parent n \<and> (\<forall>c \<in> set cs. ag_parent n = Some (fst c))"
  by (auto simp: Aggregate_onValue_def Let_def split: if_splits dest: forward_target)

lemma Worker_onValue_targets:
  "Worker_onValue sv n = (cs, n') \<Longrightarrow> wk_downstream n' = wk_downstream n \<and> (\<forall>c \<in> set cs. wk_downstream n = Some (fst c))"
  by (auto simp: Worker_onValue_def Let_def split: if_splits option.splits dest: forward_target)

lemma TumblingWindow_onValue_targets:
  "TumblingWindow_onValue sv n = (cs, n') \<Longrightarrow> tw_downstream n' = tw_downstream n \<and> cs = []"
  by (auto simp: TumblingWindow_onValue_def Let_def split: if_splits)

lemma VectorReducer_onValue_targets:
  "VectorReducer_onValue sv n = (cs, n') \<Longrightarrow> n' = n \<and> (\<forall>c \<in> set cs. vr_downstream n = Some (fst c))"
  by (auto simp: VectorReducer_onValue_def split: if_splits ArgType.splits option.splits dest: forward_target)

lemma AtomicAccessor_onValue_targets:
  "c \<in> set (AtomicAccessor_onValue st ps n) \<Longrightarrow> aa_downstream n = Some (fst c)"
  by (auto simp: AtomicAccessor_onValue_def split: if_splits option.splits dest: forward_target)

lemma Listener_onValue_targets:
  "Listener_onValue al sv l = (ts, cs) \<Longrightarrow> c \<in> set ts \<union> set cs \<Longrightarrow> ls_downstream l = Some (fst c)"
  by (auto simp: Listener_onValue_def split: if_splits option.splits)

lemmas node_targets = Aggregate_onValue_targets Worker_onValue_targets TumblingWindow_onValue_targets
  VectorReducer_onValue_targets

text \<open>What a step promises: the graph is extended and the calls are of smaller rank.\<close>

definition step_good :: "(addr \<Rightarrow> nat) \<Rightarrow> Engine \<Rightarrow> nat \<Rightarrow> ('e + 'c list) \<times> Engine \<Rightarrow> ('c \<Rightarrow> addr) \<Rightarrow> bool" where
  "step_good rank E r res f \<longleftrightarrow> (\<exists>rank'. extends rank E rank' (snd res) \<and>
     (case fst res of Inl _ \<Rightarrow> True | Inr cs \<Rightarrow> \<forall>c \<in> set cs. f c < length (en_nodes (snd res)) \<and> rank' (f c) < r))"

lemma step_goodI:
  assumes "extends rank E rank E'" "\<And>c. c \<in> set cs \<Longrightarrow> f c < length (en_nodes E) \<and> rank (f c) < r"
  shows "step_good rank E r (Inr cs, E') f"
  using assms by (fastforce simp: step_good_def extends_def)

lemma step_goodE:
  assumes "step_good rank E r (res, E') f"
  obtains rank' where "extends rank E rank' E'"
    "case res of Inl _ \<Rightarrow> True | Inr cs \<Rightarrow> \<forall>c \<in> set cs. f c < length (en_nodes E') \<and> rank' (f c) < r"
  using assms unfolding step_good_def fst_conv snd_conv by blast

lemma put_good:
  assumes "ranked rank E" "a < length (en_nodes E)" "\<And>c. c \<in> set cs \<Longrightarrow> f c \<in> set (owned (en_nodes E ! a)) \<union> set (weak_targets (en_nodes E ! a))"
    and "ranked_node (length (en_nodes E)) rank (rank a) n'"
  shows "step_good rank E (rank a) (Inr cs, put_node a n' E) f"
  using ranked_nth [OF assms(1,2)] assms(3)
  by (intro step_goodI put_extends assms(1,4)) (auto simp: ranked_node_def)

lemma group_good:
  assumes "ranked rank E" "a < length (en_nodes E)" "en_nodes E ! a = NGroupSplit g"
  shows "step_good rank E (rank a) (GroupSplit_onValue a g sv E) fst"
proof (cases "map_of (gs_children g) (sv_symbol sv)")
  case (Some child)
  then have "child < length (en_nodes E) \<and> rank child < rank a"
    using ranked_nth [OF assms(1,2)] assms(3) by (force simp: ranked_node_def dest: map_of_SomeD)
  then show ?thesis using Some assms(1) by (auto simp: GroupSplit_onValue_def intro!: step_goodI)
next
  case None
  note n = ranked_nth [OF assms(1,2), unfolded assms(3)]
  let ?key = "if sv_symbol sv = [] then gs_defaultStreamKey g else sv_symbol sv"
  obtain r E1 where b: "buildOne (gs_child g) ?key (gs_deps g) (gs_downstream g) E = (r, E1)"
    by (cases "buildOne (gs_child g) ?key (gs_deps g) (gs_downstream g) E")
  have ds: "ds_ok E (gs_downstream g)" using n by (auto simp: ranked_node_def ds_ok_def split: option.splits)
  obtain rank1 where r1: "extends rank E rank1 E1"
    "case r of Inl _ \<Rightarrow> True | Inr c \<Rightarrow> c < length (en_nodes E1) \<and> rank1 c \<le> rk rank (gs_downstream g) + size (gs_child g)"
    using buildOne_built [OF assms(1) ds, of "gs_child g" ?key "gs_deps g"] unfolding b by (rule built_okE)
  have full: "step_good rank E (rank a) (Inr [] :: string + call list, E) fst" using assms(1) by (intro step_goodI) auto
  show ?thesis
  proof (cases r)
    case (Inl e)
    then have "step_good rank E (rank a) (Inl e :: string + call list, E1) fst" using r1(1) by (auto simp: step_good_def)
    then show ?thesis using None b Inl full by (simp add: GroupSplit_onValue_def Let_def)
  next
    case (Inr c)
    let ?n = "NGroupSplit (g \<lparr> gs_children := AList.update (sv_symbol sv) c (gs_children g) \<rparr>)"
    have c: "c < length (en_nodes E1)" "rank1 c < rank a" using r1(2) Inr n by (auto simp: ranked_node_def)
    have keep: "length (en_nodes E) \<le> length (en_nodes E1)" "\<And>d. d < length (en_nodes E) \<Longrightarrow> rank1 d = rank d"
      using r1(1) by (auto simp: extends_def)
    have "ranked_node (length (en_nodes E1)) rank1 (rank a) (NGroupSplit g)" by (rule ranked_node_cong [OF n keep])
    then have "ranked_node (length (en_nodes E1)) rank1 (rank1 a) ?n"
      using c keep(2) [OF assms(2)] set_update_subset [of "sv_symbol sv" c "gs_children g"]
      unfolding ranked_node_def by fastforce
    from put_extends [OF extends_ranked [OF r1(1)] this] have "extends rank E rank1 (put_node a ?n E1)"
      using r1(1) by (blast intro: extends_trans)
    then have "step_good rank E (rank a) (Inr [(c, sv)] :: string + call list, put_node a ?n E1) fst"
      using c by (auto simp: step_good_def intro!: exI [of _ rank1]) (simp add: put_node_def)
    then show ?thesis using None b Inr full by (simp add: GroupSplit_onValue_def Let_def)
  qed
qed

lemma call_good:
  assumes "ranked rank E" "a < length (en_nodes E)"
  shows "step_good rank E (rank a) (call_node pins (a, sv) E) fst"
proof (cases "en_nodes E ! a")
  case (NListener l)
  obtain ts cs where l: "Listener_onValue (alive pins E) sv l = (ts, cs)" by (cases "Listener_onValue (alive pins E) sv l")
  have t: "fst c < length (en_nodes E) \<and> rank (fst c) < rank a" if "c \<in> set ts \<union> set cs" for c
    using Listener_onValue_targets [OF l that] ranked_nth [OF assms] NListener by (auto simp: ranked_node_def)
  then have "step_good rank E (rank a) (Inr cs, post_all ts E) fst"
    using assms(1) by (intro step_goodI post_all_extends) auto
  then show ?thesis using NListener assms(2) l by (simp add: call_node_def node_at_def)
next
  case (NGroupSplit g)
  then show ?thesis using group_good [OF assms NGroupSplit] assms(2) by (simp add: call_node_def node_at_def)
next
  case (NAggregate n)
  obtain cs n' where o: "Aggregate_onValue sv n = (cs, n')" by (cases "Aggregate_onValue sv n")
  have "step_good rank E (rank a) (Inr cs, put_node a (NAggregate n') E) fst"
    by (rule put_good [OF assms]) (use ranked_nth [OF assms] node_targets(1) [OF o] NAggregate in \<open>auto simp: ranked_node_def\<close>)
  then show ?thesis using NAggregate assms(2) o by (simp add: call_node_def node_at_def)
next
  case (NWorker n)
  obtain cs n' where o: "Worker_onValue sv n = (cs, n')" by (cases "Worker_onValue sv n")
  have "step_good rank E (rank a) (Inr cs, put_node a (NWorker n') E) fst"
    by (rule put_good [OF assms]) (use ranked_nth [OF assms] node_targets(2) [OF o] NWorker in \<open>auto simp: ranked_node_def\<close>)
  then show ?thesis using NWorker assms(2) o by (simp add: call_node_def node_at_def)
next
  case (NTumblingWindow n)
  obtain cs n' where o: "TumblingWindow_onValue sv n = (cs, n')" by (cases "TumblingWindow_onValue sv n")
  have "step_good rank E (rank a) (Inr cs, put_node a (NTumblingWindow n') E) fst"
    by (rule put_good [OF assms]) (use ranked_nth [OF assms] node_targets(3) [OF o] NTumblingWindow in \<open>auto simp: ranked_node_def\<close>)
  then show ?thesis using NTumblingWindow assms(2) o by (simp add: call_node_def node_at_def)
next
  case (NVectorReducer n)
  obtain cs n' where o: "VectorReducer_onValue sv n = (cs, n')" by (cases "VectorReducer_onValue sv n")
  have "step_good rank E (rank a) (Inr cs, put_node a (NVectorReducer n') E) fst"
    by (rule put_good [OF assms]) (use ranked_nth [OF assms] node_targets(4) [OF o] NVectorReducer in \<open>auto simp: ranked_node_def\<close>)
  then show ?thesis using NVectorReducer assms(2) o by (simp add: call_node_def node_at_def)
next
  case (NAtomicAccessor n)
  have "step_good rank E (rank a) (Inr (AtomicAccessor_onValue (Some (en_store E)) (en_providers E) n), E) fst"
    using assms(1) ranked_nth [OF assms] NAtomicAccessor
    by (intro step_goodI) (auto simp: ranked_node_def dest: AtomicAccessor_onValue_targets)
  then show ?thesis using NAtomicAccessor assms(2) by (simp add: call_node_def node_at_def)
next
  case (NResponder n)
  have "extends rank E rank (E \<lparr> en_sent := en_sent E @ Responder_onValue sv n \<rparr>)"
    using roots_bounded [OF assms(1)] by (intro outside_extends [OF assms(1)]) (auto simp: engine_roots_def table_roots_def)
  then have "step_good rank E (rank a) (Inr [], E \<lparr> en_sent := en_sent E @ Responder_onValue sv n \<rparr>) fst"
    by (rule step_goodI) simp
  then show ?thesis using NResponder assms(2) by (simp add: call_node_def node_at_def)
qed (use assms in \<open>auto simp: call_node_def node_at_def intro!: step_goodI\<close>)

section \<open>Shutdown goes down\<close>

lemma leave_loop_extends: "ranked rank E \<Longrightarrow> extends rank E rank (leave_loop a E)"
  by (rule outside_extends) (use roots_bounded [of rank E] in \<open>auto simp: leave_loop_def engine_roots_def table_roots_def\<close>)

lemma stopped_ranked:
  "ranked_node len rank r (NListener l) \<Longrightarrow> ranked_node len rank r (NListener (l \<lparr> ls_stopping := True, ls_downstream := None \<rparr>))"
  "ranked_node len rank r (NAggregate n1) \<Longrightarrow> ranked_node len rank r (NAggregate (Aggregate_shutdown n1))"
  "ranked_node len rank r (NGroupSplit g) \<Longrightarrow> ranked_node len rank r (NGroupSplit (g \<lparr> gs_children := [] \<rparr>))"
  "ranked_node len rank r (NWorker n2) \<Longrightarrow> ranked_node len rank r (NWorker (Worker_shutdown n2))"
  "ranked_node len rank r (NAtomicAccessor n3) \<Longrightarrow> ranked_node len rank r (NAtomicAccessor (AtomicAccessor_shutdown n3))"
  "ranked_node len rank r (NInterval n4) \<Longrightarrow> ranked_node len rank r (NInterval (Timer_shutdown n4))"
  "ranked_node len rank r (NBucketTime n4) \<Longrightarrow> ranked_node len rank r (NBucketTime (Timer_shutdown n4))"
  "ranked_node len rank r (NTumblingWindow n5) \<Longrightarrow> ranked_node len rank r (NTumblingWindow (TumblingWindow_shutdown n5))"
  "ranked_node len rank r (NVectorReducer n6) \<Longrightarrow> ranked_node len rank r (NVectorReducer (VectorReducer_shutdown n6))"
  "ranked_node len rank r (NCompositeRoot [])"
  "ranked_node len rank r (NResponder n7)"
  by (auto simp: ranked_node_def Aggregate_shutdown_def Worker_shutdown_def AtomicAccessor_shutdown_def Timer_shutdown_def
      TumblingWindow_shutdown_def VectorReducer_shutdown_def)

lemma put_stop:
  assumes "ranked rank E" "a < length (en_nodes E)" "set cs \<subseteq> set (owned (en_nodes E ! a))"
    and "ranked_node (length (en_nodes E)) rank (rank a) n'"
  shows "step_good rank E (rank a) (Inr cs :: string + addr list, put_node a n' E) (\<lambda>d. d)"
  using assms(3) by (intro put_good [OF assms(1,2) _ assms(4)]) auto

lemma timer_stop:
  assumes "ranked rank E" "ranked_node (length (en_nodes E)) rank (rank a) n'"
  shows "step_good rank E (rank a) (Inr [] :: string + addr list, leave_loop a (put_node a n' E)) (\<lambda>d. d)"
proof (rule step_goodI)
  note p = put_extends [OF assms]
  show "extends rank E rank (leave_loop a (put_node a n' E))"
    using p leave_loop_extends [OF extends_ranked [OF p]] by (rule extends_trans)
qed simp

lemma listener_stop:
  assumes "ranked rank E" "ranked_node (length (en_nodes E)) rank (rank a) n'"
  shows "step_good rank E (rank a) (Inr [] :: string + addr list, put_node a n' (unregisterListener s f a E)) (\<lambda>d. d)"
proof (rule step_goodI)
  note u = unregister_extends [OF assms(1), of s f a]
  have "en_nodes (unregisterListener s f a E) = en_nodes E"
    by (simp add: unregisterListener_def Let_def split: option.split)
  then show "extends rank E rank (put_node a n' (unregisterListener s f a E))"
    using put_extends [OF extends_ranked [OF u], of a n'] assms(2) u by (auto intro: extends_trans)
qed simp

lemma shutdown_good:
  assumes "ranked rank E" "a < length (en_nodes E)"
  shows "step_good rank E (rank a) (shutdown_node a E) (\<lambda>d. d)"
proof -
  have same: "step_good rank E (rank a) (Inr [] :: string + addr list, E) (\<lambda>d. d)" using assms(1) by (intro step_goodI) auto
  note stop = put_stop [OF assms, of "[]", simplified] put_stop [OF assms] timer_stop [OF assms(1)] listener_stop [OF assms(1)] same
  show ?thesis
    using ranked_nth [OF assms] assms(2)
    by (cases "en_nodes E ! a")
      (simp_all add: shutdown_node_def node_at_def Let_def stop stopped_ranked)
qed

section \<open>Everything ends\<close>

interpretation calls: worklist "call_node pins" "\<lambda>\<rho> E. \<exists>rank. \<rho> = rank \<circ> fst \<and> ranked rank E" "\<lambda>E c. fst c < length (en_nodes E)" for pins
proof
  fix \<rho> :: "call \<Rightarrow> nat" and E and c :: call and r E'
  assume "\<exists>rank. \<rho> = rank \<circ> fst \<and> ranked rank E" and c: "fst c < length (en_nodes E)" and st: "call_node pins c E = (r, E')"
  then obtain rank where \<rho>: "\<rho> = rank \<circ> fst" and rank: "ranked rank E" by blast
  have "step_good rank E (rank (fst c)) (r, E') fst" using call_good [OF rank c, of pins "snd c"] st by simp
  then obtain rank' where r': "extends rank E rank' E'"
    "case r of Inl _ \<Rightarrow> True | Inr cs \<Rightarrow> \<forall>d \<in> set cs. fst d < length (en_nodes E') \<and> rank' (fst d) < rank (fst c)"
    by (rule step_goodE)
  show "\<exists>\<rho>'. (\<exists>rank. \<rho>' = rank \<circ> fst \<and> ranked rank E') \<and>
      (\<forall>d. fst d < length (en_nodes E) \<longrightarrow> fst d < length (en_nodes E') \<and> \<rho>' d = \<rho> d) \<and>
      (case r of Inl _ \<Rightarrow> True | Inr cs \<Rightarrow> \<forall>d \<in> set cs. fst d < length (en_nodes E') \<and> \<rho>' d < \<rho> c)"
  proof (intro exI [of _ "rank' \<circ> fst"] conjI)
    show "\<exists>rank. rank' \<circ> fst = rank \<circ> fst \<and> ranked rank E'" using extends_ranked [OF r'(1)] by blast
    show "\<forall>d. fst d < length (en_nodes E) \<longrightarrow> fst d < length (en_nodes E') \<and> (rank' \<circ> fst) d = \<rho> d"
      using r'(1) by (auto simp: extends_def \<rho>)
    show "case r of Inl _ \<Rightarrow> True | Inr cs \<Rightarrow> \<forall>d \<in> set cs. fst d < length (en_nodes E') \<and> (rank' \<circ> fst) d < \<rho> c"
      using r'(2) by (cases r) (simp_all add: \<rho>)
  qed
qed

interpretation shutdowns: worklist shutdown_node ranked "\<lambda>E a. a < length (en_nodes E)"
proof
  fix rank E and a :: addr and r E'
  assume rank: "ranked rank E" and a: "a < length (en_nodes E)" and st: "shutdown_node a E = (r, E')"
  have "step_good rank E (rank a) (r, E') (\<lambda>d. d)" using shutdown_good [OF rank a] st by simp
  then obtain rank' where r': "extends rank E rank' E'"
    "case r of Inl _ \<Rightarrow> True | Inr cs \<Rightarrow> \<forall>d \<in> set cs. d < length (en_nodes E') \<and> rank' d < rank a"
    by (rule step_goodE)
  show "\<exists>\<rho>'. ranked \<rho>' E' \<and> (\<forall>d. d < length (en_nodes E) \<longrightarrow> d < length (en_nodes E') \<and> \<rho>' d = rank d) \<and>
      (case r of Inl _ \<Rightarrow> True | Inr cs \<Rightarrow> \<forall>d \<in> set cs. d < length (en_nodes E') \<and> \<rho>' d < rank a)"
  proof (intro exI [of _ rank'] conjI)
    show "ranked rank' E'" by (rule extends_ranked [OF r'(1)])
    show "\<forall>d. d < length (en_nodes E) \<longrightarrow> d < length (en_nodes E') \<and> rank' d = rank d" using r'(1) by (auto simp: extends_def)
    show "case r of Inl _ \<Rightarrow> True | Inr cs \<Rightarrow> \<forall>d \<in> set cs. d < length (en_nodes E') \<and> rank' d < rank a" using r'(2) by simp
  qed
qed

lemma deliver_ends:
  assumes "graph_ok E" "\<forall>c \<in> set cs. fst c < length (en_nodes E)"
  shows "\<exists>e E'. deliver pins cs E = Some (e, E') \<and> graph_ok E' \<and> length (en_nodes E) \<le> length (en_nodes E')"
proof -
  obtain rank where rank: "ranked rank E" using assms(1) by (auto simp: graph_ok_def)
  obtain e E' and \<rho>' :: "call \<Rightarrow> nat" where d: "drain (call_node pins) cs E = Some (e, E')" "\<exists>rank. \<rho>' = rank \<circ> fst \<and> ranked rank E'"
    "\<forall>d. fst d < length (en_nodes E) \<longrightarrow> fst d < length (en_nodes E') \<and> \<rho>' d = (rank \<circ> fst) d"
  proof -
    have "\<exists>rk. (rank \<circ> fst :: call \<Rightarrow> nat) = rk \<circ> fst \<and> ranked rk E" using rank by blast
    from calls.drains [OF this assms(2), of pins] show ?thesis using that by blast
  qed
  have "length (en_nodes E) \<le> length (en_nodes E')"
    using d(3) [rule_format, of "(length (en_nodes E) - 1, undefined)"] by (cases "length (en_nodes E)") auto
  then show ?thesis using d(1,2) by (auto simp: deliver_def graph_ok_def)
qed

lemma shutdown_ends:
  assumes "graph_ok E" "a < length (en_nodes E)"
  shows "\<exists>E'. shutdown a E = Some E' \<and> graph_ok E' \<and> length (en_nodes E) \<le> length (en_nodes E')"
proof -
  obtain rank where rank: "ranked rank E" using assms(1) by (auto simp: graph_ok_def)
  then obtain e E' rank' where d: "drain shutdown_node [a] E = Some (e, E')" "ranked rank' E'"
    "\<forall>d. d < length (en_nodes E) \<longrightarrow> d < length (en_nodes E') \<and> rank' d = rank d"
    using shutdowns.drains [of rank E "[a]"] assms(2) by auto
  have "length (en_nodes E) \<le> length (en_nodes E')"
    using d(3) [rule_format, of "length (en_nodes E) - 1"] by (cases "length (en_nodes E)") auto
  then show ?thesis using d(1,2) by (auto simp: shutdown_def graph_ok_def)
qed

section \<open>Runs of the engine\<close>

text \<open>
  A subscription: a responder for the session and key, the chain of the request, and the session that
  holds it; an exception leaves what was registered and started, and the responder goes.
\<close>

definition subscribe :: "nat \<Rightarrow> RequestKey \<Rightarrow> json \<Rightarrow> Deps \<Rightarrow> Engine \<Rightarrow> (string + BuiltChain) \<times> Engine" where
  "subscribe session key rq deps E =
     (case alloc (NResponder \<lparr> rs_key = key, rs_send = Some session, rs_stopped = False \<rparr>) E of (t, E1) \<Rightarrow>
       (case buildForRequest rq deps (Some t) E1 of
           (Inl e, E2) \<Rightarrow> (Inl e, E2)
         | (Inr bc, E2) \<Rightarrow> (Inr bc, E2 \<lparr> en_held := bc_head bc # bc_keepAlive bc @ en_held E2 \<rparr>)))"

text \<open>The chain below the head: valid nodes, and the first of them is among the nodes kept alive.\<close>

definition chain_ok :: "(addr \<Rightarrow> nat) \<Rightarrow> Engine \<Rightarrow> addr \<Rightarrow> (string + (addr \<times> addr list)) \<times> Engine \<Rightarrow> bool" where
  "chain_ok rank E t res \<longleftrightarrow> (\<exists>rank'. extends rank E rank' (snd res)) \<and>
     (case fst res of Inl _ \<Rightarrow> True
      | Inr mk \<Rightarrow> fst mk \<in> set (snd mk) \<and> t \<in> set (snd mk) \<and> (\<forall>a \<in> set (snd mk). a < length (en_nodes (snd res))))"

lemma buildNodePart_built:
  assumes "ranked rank E" "t < length (en_nodes E)"
  shows "chain_ok rank E t (buildNodePart rq key deps t E)"
proof (cases "\<exists>ms. member ''node'' rq = Some (JObject ms)")
  case True
  then obtain ms where ms: "member ''node'' rq = Some (JObject ms)" by blast
  obtain r E1 where b: "buildOne (JObject ms) key deps (Some t) E = (r, E1)" by (cases "buildOne (JObject ms) key deps (Some t) E")
  have ds: "ds_ok E (Some t)" using assms(2) by (simp add: ds_ok_def)
  obtain rank1 where r: "extends rank E rank1 E1"
    "case r of Inl _ \<Rightarrow> True | Inr a \<Rightarrow> a < length (en_nodes E1) \<and> rank1 a \<le> rk rank (Some t) + size (JObject ms)"
    using buildOne_built [OF assms(1) ds, of "JObject ms" key deps] unfolding b by (rule built_okE)
  have "t < length (en_nodes E1)" using r(1) assms(2) by (simp add: extends_def)
  then show ?thesis using r by (cases r) (auto simp: buildNodePart_def chain_ok_def ms b)
next
  case False
  then have "buildNodePart rq key deps t E = (Inr (t, [t]), E)"
    by (auto simp: buildNodePart_def split: option.split json.split)
  then show ?thesis using assms by (auto simp: chain_ok_def intro: extends_refl)
qed

lemma buildPipe_built:
  assumes "ranked rank E" "t \<in> set keep" "\<forall>a \<in> set keep. a < length (en_nodes E)"
  shows "chain_ok rank E t (buildPipe xs key deps t keep E)"
proof -
  obtain rs E1 where bs: "buildStages (rev xs) key deps (Some t) E = (rs, E1)" by (cases "buildStages (rev xs) key deps (Some t) E")
  have "ds_ok E (Some t)" using assms(2,3) by (simp add: ds_ok_def)
  then have "built_all_ok rank E (rk rank (Some t) + spec_size (rev xs)) (rs, E1)"
    using buildStages_built [OF buildOne_built assms(1)] bs by metis
  then obtain rank1 where r: "extends rank E rank1 E1"
    "case rs of Inl _ \<Rightarrow> True | Inr as \<Rightarrow> \<forall>a \<in> set as. a < length (en_nodes E1) \<and> rank1 a \<le> rk rank (Some t) + spec_size (rev xs)"
    by (rule built_all_okE)
  have len: "length (en_nodes E) \<le> length (en_nodes E1)" using r(1) by (simp add: extends_def)
  have last: "last (t # as) \<in> insert t (set as)" for as by (cases as) simp_all
  show ?thesis
  proof (cases rs)
    case (Inl e)
    then show ?thesis using r(1) bs by (auto simp: buildPipe_def chain_ok_def)
  next
    case (Inr as)
    then have "buildPipe xs key deps t keep E = (Inr (last (t # as), keep @ as), E1)" using bs by (simp add: buildPipe_def)
    moreover have "\<forall>a \<in> set (keep @ as). a < length (en_nodes E1)" using r(2) Inr len assms(3) by fastforce
    ultimately show ?thesis using r(1) last [of as] assms(2) by (auto simp: chain_ok_def simp del: last.simps)
  qed
qed

lemma buildMiddle_built:
  assumes "ranked rank E" "t < length (en_nodes E)"
  shows "chain_ok rank E t (buildMiddle rq key deps t E)"
proof -
  obtain r E1 where n: "buildNodePart rq key deps t E = (r, E1)" by (cases "buildNodePart rq key deps t E")
  have c: "chain_ok rank E t (r, E1)" using buildNodePart_built [OF assms, of rq key deps] n by simp
  then obtain rank1 where e: "extends rank E rank1 E1" by (auto simp: chain_ok_def)
  show ?thesis
  proof (cases r)
    case (Inl x)
    then show ?thesis using n c by (simp add: buildMiddle_def)
  next
    case (Inr mk)
    obtain mid keep where mk: "mk = (mid, keep)" by (cases mk)
    have "chain_ok rank1 E1 t (buildPipe xs key deps t keep E1)" for xs
      using c Inr mk by (intro buildPipe_built [OF extends_ranked [OF e]]) (auto simp: chain_ok_def)
    then have "chain_ok rank E t (buildPipe xs key deps t keep E1)" for xs
      using e unfolding chain_ok_def by (blast intro: extends_trans)
    then show ?thesis using n Inr mk c by (auto simp: buildMiddle_def split: option.split json.split)
  qed
qed

text \<open>A head that \<^verbatim>\<open>Listener::Create\<close> made: registered, started, and pointing to the chain.\<close>

definition live_head :: "string \<Rightarrow> string \<Rightarrow> addr \<Rightarrow> addr \<Rightarrow> Engine \<Rightarrow> bool" where
  "live_head symbol field mid a E \<longleftrightarrow> a \<in> set (at_key field (fields_of symbol E)) \<and>
     (\<exists>l. node_at E a = Some (NListener l) \<and> ls_symbol l = symbol \<and> ls_field l = field \<and> ls_downstream l = Some mid \<and>
        ls_pool l \<and> ls_dispatcher l \<and> \<not> ls_stopping l)"

lemma map_of_om_set: "map_of (om_set lt k v m) k = Some v"
  by (induction lt k v m rule: om_set.induct) auto

lemma start_listener_live:
  assumes "start_listener (mkListener symbol field (Some mid) deps) E = (a, E')" "dp_pool deps" "dp_dispatcher deps"
  shows "live_head symbol field mid a E'"
  using assms
  by (auto simp: start_listener_def alloc_def Listener_start_def node_at_def put_node_def mkListener_def live_head_def
      registerListener_def Let_def fields_of_def at_key_def map_of_om_set update_conv')

lemma buildForRequest_built:
  assumes "ranked rank E" "t < length (en_nodes E)" "buildForRequest rq deps (Some t) E = (r, E')"
  shows "\<exists>rank'. extends rank E rank' E' \<and> (case r of Inl _ \<Rightarrow> True
    | Inr bc \<Rightarrow> bc_head bc < length (en_nodes E') \<and> (\<forall>a \<in> set (bc_keepAlive bc). a < length (en_nodes E')) \<and>
        (\<exists>sk fl mid. member ''streamKey'' rq = Some (JString sk) \<and> member ''field'' rq = Some (JString fl) \<and>
           mid \<in> set (bc_keepAlive bc) \<and> live_head (c_str sk) (c_str fl) mid (bc_head bc) E'))"
proof (cases "\<exists>e. r = Inl e \<and> E' = E")
  case True
  then show ?thesis using assms(1) by (auto intro: extends_refl)
next
  case False
  then obtain sk fl where k: "member ''streamKey'' rq = Some (JString sk)" "member ''field'' rq = Some (JString fl)"
    using assms(3) by (auto simp: buildForRequest_def split: if_splits option.splits elim!: GetString.elims)
  define md where "md = buildMiddle rq (c_str sk) deps t E"
  obtain r1 E1 where m: "md = (r1, E1)" by (cases md)
  have c: "chain_ok rank E t (r1, E1)" using buildMiddle_built [OF assms(1,2), of rq "c_str sk" deps] m by (simp add: md_def)
  then obtain rank1 where e: "extends rank E rank1 E1" by (auto simp: chain_ok_def)
  have whole: "(case md of (Inl e, E1) \<Rightarrow> (Inl e, E1) | (Inr (mid, keep), E1) \<Rightarrow>
      if \<not> (dp_dispatcher deps \<and> dp_pool deps) then (Inl ''buildForRequest: missing dispatcher/pool'', E1)
      else (case Listener_Create (c_str sk) (c_str fl) (Some mid) deps E1 of
          (Inl e, E2) \<Rightarrow> (Inl e, E2) | (Inr head, E2) \<Rightarrow> (Inr \<lparr> bc_head = head, bc_keepAlive = keep \<rparr>, E2))) = (r, E')"
    using assms(3) False k by (auto simp: buildForRequest_def md_def split: if_splits)
  show ?thesis
  proof (cases "\<exists>x. r = Inl x \<and> E' = E1")
    case True
    then show ?thesis using e by auto
  next
    case False
    then obtain mid keep where mk: "r1 = Inr (mid, keep)" and dp: "dp_dispatcher deps" "dp_pool deps"
      and only: "\<not> isPipelineOnlyKey (c_str fl)"
      using whole m by (auto simp: Listener_Create_def split: sum.splits if_splits prod.splits)
    define sl where "sl = start_listener (mkListener (c_str sk) (c_str fl) (Some mid) deps) E1"
    obtain a E2 where sl: "sl = (a, E2)" by (cases sl)
    have res: "r = Inr \<lparr> bc_head = a, bc_keepAlive = keep \<rparr>" "E' = E2"
      using whole m mk dp only sl by (simp_all add: Listener_Create_def sl_def)
    have mid: "mid \<in> set keep" "\<forall>b \<in> set keep. b < length (en_nodes E1)" using c mk by (auto simp: chain_ok_def)
    have "built_ok rank1 E1 (Suc (rk rank1 (Some mid))) (Inr a, E2)"
      using start_listener_built [OF extends_ranked [OF e], of "Some mid" "c_str sk" "c_str fl" deps] mid sl
      by (simp add: sl_def ds_ok_def)
    then obtain rank2 where r2: "extends rank1 E1 rank2 E2" "a < length (en_nodes E2)" by (rule built_okE) auto
    have "live_head (c_str sk) (c_str fl) mid a E2" using start_listener_live [OF sl [unfolded sl_def] dp(2,1)] .
    moreover have "\<forall>b \<in> set keep. b < length (en_nodes E2)" using mid(2) r2(1) by (auto simp: extends_def)
    ultimately show ?thesis using extends_trans [OF e r2(1)] r2(2) mid(1) k by (auto simp: res intro!: exI [of _ rank2])
  qed
qed

end
