(* ===== verification/Engine_Runs.thy ===== *)
theory Engine_Runs
  imports Node_Graph_Thms
begin

text \<open>
  Runs of the engine: clients subscribe and leave, values are handed to nodes, timers fire, tasks run.
  The step relation says what can happen; its invariant is the ranked graph.
\<close>

section \<open>Steps\<close>

inductive engine_step :: "Engine \<Rightarrow> Engine \<Rightarrow> bool" where
  subscribed: "subscribe session key rq deps E = (r, E') \<Longrightarrow> engine_step E E'"
| handed: "a < length (en_nodes E) \<Longrightarrow> engine_step E (post (a, sv) E)"
| task_run: "run_task E = Some E' \<Longrightarrow> engine_step E E'"
| timer_fired: "engine_step E (timer_turn a E)"
| node_stopped: "a < length (en_nodes E) \<Longrightarrow> shutdown a E = Some E' \<Longrightarrow> engine_step E E'"
| chain_released: "set hs \<subseteq> set (en_held E) \<Longrightarrow> engine_step E (E \<lparr> en_held := hs \<rparr>)"
| store_written: "engine_step E (E \<lparr> en_store := st \<rparr>)"
| pool_stopped: "engine_step E (E \<lparr> en_poolStopping := True \<rparr>)"

abbreviation engine_run :: "Engine \<Rightarrow> Engine \<Rightarrow> bool" where
  "engine_run \<equiv> engine_step\<^sup>*\<^sup>*"

lemma subscribe_built:
  assumes "graph_ok E" "subscribe session key rq deps E = (r, E')"
  shows "graph_ok E'"
    and "r = Inr bc \<Longrightarrow> \<exists>sk fl mid. member ''streamKey'' rq = Some (JString sk) \<and> member ''field'' rq = Some (JString fl) \<and>
      mid \<in> set (bc_keepAlive bc) \<and> mid \<in> set (en_held E') \<and> live_head (c_str sk) (c_str fl) mid (bc_head bc) E'"
proof -
  let ?n = "NResponder \<lparr> rs_key = key, rs_send = Some session, rs_stopped = False \<rparr>"
  obtain rank where rank: "ranked rank E" using assms(1) by (auto simp: graph_ok_def)
  obtain t E1 where al: "alloc ?n E = (t, E1)" by (cases "alloc ?n E")
  note al' = alloc_extends [OF rank al, of 0]
  have e1: "ranked (rank(t := 0)) E1" "t < length (en_nodes E1)" using al' by (auto simp: ranked_node_def dest: extends_ranked)
  obtain r1 E2 where b: "buildForRequest rq deps (Some t) E1 = (r1, E2)" by (cases "buildForRequest rq deps (Some t) E1")
  obtain rank2 where r2: "extends (rank(t := 0)) E1 rank2 E2" and
    good: "case r1 of Inl _ \<Rightarrow> True
      | Inr bc \<Rightarrow> bc_head bc < length (en_nodes E2) \<and> (\<forall>a \<in> set (bc_keepAlive bc). a < length (en_nodes E2)) \<and>
        (\<exists>sk fl mid. member ''streamKey'' rq = Some (JString sk) \<and> member ''field'' rq = Some (JString fl) \<and>
           mid \<in> set (bc_keepAlive bc) \<and> live_head (c_str sk) (c_str fl) mid (bc_head bc) E2)"
    using buildForRequest_built [OF e1 b] by blast
  note rd = extends_ranked [OF r2]
  have E': "(r, E') = (case r1 of Inl e \<Rightarrow> (Inl e, E2) | Inr bc \<Rightarrow> (Inr bc, E2 \<lparr> en_held := bc_head bc # bc_keepAlive bc @ en_held E2 \<rparr>))"
    using assms(2) al b by (simp add: subscribe_def split: sum.splits)
  have "ranked rank2 E'"
  proof (cases r1)
    case (Inr bc)
    then have "extends rank2 E2 rank2 E'"
      using E' good roots_bounded [OF rd] by (intro outside_extends [OF rd]) (auto simp: engine_roots_def table_roots_def)
    then show ?thesis by (rule extends_ranked)
  qed (use E' rd in auto)
  then show "graph_ok E'" by (auto simp: graph_ok_def)
  show "\<exists>sk fl mid. member ''streamKey'' rq = Some (JString sk) \<and> member ''field'' rq = Some (JString fl) \<and>
      mid \<in> set (bc_keepAlive bc) \<and> mid \<in> set (en_held E') \<and> live_head (c_str sk) (c_str fl) mid (bc_head bc) E'" if "r = Inr bc"
  proof -
    have "r1 = Inr bc" "E' = E2 \<lparr> en_held := bc_head bc # bc_keepAlive bc @ en_held E2 \<rparr>"
      using E' that by (cases r1; simp)+
    then show ?thesis using good by (fastforce simp: live_head_def fields_of_def node_at_def)
  qed
qed

lemma task_ok:
  assumes "graph_ok E"
  shows "\<exists>E'. run_task E = Some E' \<and> graph_ok E'"
proof (cases "en_tasks E")
  case Nil
  then show ?thesis using assms by (simp add: run_task_def)
next
  case (Cons c cs)
  obtain rank where rank: "ranked rank E" using assms by (auto simp: graph_ok_def)
  let ?E = "E \<lparr> en_tasks := cs \<rparr>"
  have "extends rank E rank ?E" using roots_bounded [OF rank] Cons
    by (intro outside_extends [OF rank]) (auto simp: engine_roots_def table_roots_def)
  then have "graph_ok ?E" by (auto simp: graph_ok_def dest: extends_ranked)
  moreover have "\<forall>d \<in> set [c]. fst d < length (en_nodes ?E)"
    using roots_bounded [OF rank] Cons by (auto simp: engine_roots_def)
  ultimately obtain e E' where "deliver [fst c] [c] ?E = Some (e, E')" "graph_ok E'" using deliver_ends by blast
  then show ?thesis using Cons by (simp add: run_task_def)
qed

lemma Timer_tick_targets: "Timer_tick n = (cs, b) \<Longrightarrow> c \<in> set cs \<Longrightarrow> tm_child n = Some (fst c)"
  by (auto simp: Timer_tick_def split: if_splits option.splits)

lemma TumblingWindow_timer_targets:
  "TumblingWindow_timer n = (cs, n', b) \<Longrightarrow> tw_downstream n' = tw_downstream n \<and> (\<forall>c \<in> set cs. tw_downstream n = Some (fst c))"
  by (auto simp: TumblingWindow_timer_def split: if_splits option.splits)

lemma timer_ok:
  assumes "graph_ok E"
  shows "graph_ok (timer_turn a E)"
proof (cases "a \<in> set (en_threads E) \<and> node_at E a \<noteq> None")
  case True
  obtain rank where rank: "ranked rank E" using assms by (auto simp: graph_ok_def)
  have a: "a < length (en_nodes E)" using True by (auto simp: node_at_def split: if_splits)
  note n = ranked_nth [OF rank a]
  have leave: "graph_ok (leave_loop a E)" using leave_loop_extends [OF rank] by (auto simp: graph_ok_def dest: extends_ranked)
  have post: "graph_ok (post_all cs E)" if "\<forall>c \<in> set cs. fst c < length (en_nodes E)" for cs
    using post_all_extends [OF rank that] by (auto simp: graph_ok_def dest: extends_ranked)
  show ?thesis
  proof (cases "en_nodes E ! a")
    case (NTumblingWindow t)
    obtain cs t' b where tt: "TumblingWindow_timer t = (cs, t', b)" by (cases "TumblingWindow_timer t")
    note tg = TumblingWindow_timer_targets [OF tt]
    have "extends rank E rank (put_node a (NTumblingWindow t') E)"
      using n tg NTumblingWindow by (intro put_extends [OF rank]) (auto simp: ranked_node_def)
    moreover have "\<forall>c \<in> set cs. fst c < length (en_nodes (put_node a (NTumblingWindow t') E))"
      using n tg NTumblingWindow by (auto simp: ranked_node_def put_node_def)
    ultimately have "extends rank (put_node a (NTumblingWindow t') E) rank (post_all cs (put_node a (NTumblingWindow t') E))"
      by (intro post_all_extends extends_ranked)
    then have "graph_ok (post_all cs (put_node a (NTumblingWindow t') E))" by (auto simp: graph_ok_def dest: extends_ranked)
    then show ?thesis using True a NTumblingWindow tt leave by (simp add: timer_turn_def node_at_def)
  next
    case (NInterval t)
    obtain cs b where tt: "Timer_tick t = (cs, b)" by (cases "Timer_tick t")
    show ?thesis using True a n NInterval tt leave post [of cs] Timer_tick_targets [OF tt]
      by (auto simp: timer_turn_def node_at_def ranked_node_def)
  next
    case (NBucketTime t)
    obtain cs b where tt: "Timer_tick t = (cs, b)" by (cases "Timer_tick t")
    show ?thesis using True a n NBucketTime tt leave post [of cs] Timer_tick_targets [OF tt]
      by (auto simp: timer_turn_def node_at_def ranked_node_def)
  qed (use assms True a in \<open>simp_all add: timer_turn_def node_at_def\<close>)
next
  case False
  then show ?thesis using assms by (auto simp: timer_turn_def)
qed

lemma outside_ok:
  assumes "graph_ok E" "en_nodes E' = en_nodes E" "set (engine_roots E') \<subseteq> set (engine_roots E) \<union> {..<length (en_nodes E)}"
  shows "graph_ok E'"
proof -
  obtain rank where rank: "ranked rank E" using assms(1) by (auto simp: graph_ok_def)
  have "extends rank E rank E'" using assms(2,3) roots_bounded [OF rank] by (intro outside_extends [OF rank]) auto
  then show ?thesis by (auto simp: graph_ok_def dest: extends_ranked)
qed

lemma step_graph_ok: "engine_step E E' \<Longrightarrow> graph_ok E \<Longrightarrow> graph_ok E'"
proof (induction rule: engine_step.induct)
  case (subscribed session key rq deps E r E')
  then show ?case using subscribe_built by blast
next
  case (handed a E sv)
  then obtain rank where "ranked rank E" by (auto simp: graph_ok_def)
  then have "extends rank E rank (post (a, sv) E)" using handed.hyps by (intro post_extends) auto
  then show ?case unfolding graph_ok_def by (blast dest: extends_ranked)
next
  case (task_run E E')
  then show ?case using task_ok [of E] by auto
next
  case (timer_fired E a)
  then show ?case by (rule timer_ok)
next
  case (node_stopped a E E')
  then show ?case using shutdown_ends [of E a] by auto
next
  case (chain_released hs E)
  have "table_roots (E \<lparr> en_held := hs \<rparr>) = table_roots E" by (simp add: table_roots_def)
  then show ?case using chain_released by - (rule outside_ok [of E], auto simp: engine_roots_def)
next
  case (store_written E st)
  have "engine_roots (E \<lparr> en_store := st \<rparr>) = engine_roots E" by (simp add: engine_roots_def table_roots_def)
  then show ?case using store_written by - (rule outside_ok [of E], auto)
next
  case (pool_stopped E)
  have "engine_roots (E \<lparr> en_poolStopping := True \<rparr>) = engine_roots E" by (simp add: engine_roots_def table_roots_def)
  then show ?case using pool_stopped by - (rule outside_ok [of E], auto)
qed

lemma run_graph_ok: "engine_run (Engine_new fm) E \<Longrightarrow> graph_ok E"
proof (induction rule: rtranclp_induct)
  case base
  have "ranked (\<lambda>_. 0) (Engine_new fm)"
    by (simp add: ranked_def refs_ok_def Engine_new_def engine_roots_def table_roots_def)
  then show ?case unfolding graph_ok_def by (rule exI [of _ "\<lambda>_. 0"])
qed (rule step_graph_ok)

section \<open>Properties\<close>

definition full_deps :: Deps where
  "full_deps = \<lparr> dp_store = True, dp_pool = True, dp_dispatcher = True \<rparr>"

text \<open>A request whose pipeline splits by symbol and reads a field of the store for each.\<close>

definition demo_rq :: json where
  "demo_rq = JObject [(''streamKey'', JString ''AAPL''), (''field'', JString ''lastPrice''),
     (''pipeline'', JArray [JObject [(''type'', JString ''GroupSplit''),
        (''child'', JObject [(''type'', JString ''AtomicAccessor''), (''field'', JString ''mean'')])]])]"

definition demo_engine :: Engine where
  "demo_engine = snd (subscribe 1 (RKInt 7) demo_rq full_deps (Engine_new FunctionMap_init))"

lemma demo_run: "engine_run (Engine_new FunctionMap_init) demo_engine"
proof -
  obtain r E where "subscribe 1 (RKInt 7) demo_rq full_deps (Engine_new FunctionMap_init) = (r, E)"
    by (cases "subscribe 1 (RKInt 7) demo_rq full_deps (Engine_new FunctionMap_init)")
  then show ?thesis using engine_step.subscribed by (auto simp: demo_engine_def intro: r_into_rtranclp)
qed

lemma demo_nodes: "length (en_nodes demo_engine) = 3"
  by code_simp

text \<open>C16. Whatever requests clients have sent, in whatever order they subscribed, were cancelled, and
  values and timers arrived: the oldest task of the pool runs to its end, every node can be shut down
  with all the nodes below it, and every set of calls on nodes runs to its end. No request builds a
  graph in which a value or a shutdown goes round.\<close>

theorem engine_always_finishes:
  assumes "engine_run (Engine_new fm) E"
  shows "(\<exists>E'. run_task E = Some E') \<and> (\<forall>a. a < length (en_nodes E) \<longrightarrow> (\<exists>E'. shutdown a E = Some E')) \<and>
    (\<forall>pins cs. (\<forall>c \<in> set cs. fst c < length (en_nodes E)) \<longrightarrow> (\<exists>e E'. deliver pins cs E = Some (e, E')))"
  using task_ok shutdown_ends deliver_ends run_graph_ok [OF assms] by blast

theorem engine_always_finishes_witness:
  "(\<exists>E'. run_task demo_engine = Some E') \<and> (\<exists>E'. shutdown 1 demo_engine = Some E') \<and>
   (\<exists>e E'. deliver [1] [(1, mkSV ''AAPL'' (ADouble d1))] demo_engine = Some (e, E'))"
  using engine_always_finishes [OF demo_run] demo_nodes by simp

lemma reach_keeps: "set R \<subseteq> set (reach E k R)"
proof (induction k arbitrary: R)
  case (Suc k)
  have "set R \<subseteq> set (remdups (R @ concat (map (owned_at E) R)))" by auto
  with Suc [of "remdups (R @ concat (map (owned_at E) R))"] show ?case by auto
qed simp

lemma live_head_forwards:
  assumes "live_head symbol field mid a E" "mid \<in> set (en_held E)"
  shows "call_node pins (a, sv) E = (Inr [], post (mid, sv) E)"
proof -
  obtain l where l: "node_at E a = Some (NListener l)" "ls_downstream l = Some mid" "ls_pool l" "\<not> ls_stopping l"
    using assms(1) by (auto simp: live_head_def)
  have "alive pins E mid" using assms(2) reach_keeps [of "pins @ engine_roots E" E "length (en_nodes E)"]
    unfolding alive_def by (auto simp: engine_roots_def)
  then show ?thesis using l by (simp add: call_node_def Listener_onValue_def post_all_def)
qed


lemma demo_built: "subscribe 1 (RKInt 7) demo_rq full_deps (Engine_new FunctionMap_init) =
    (Inr \<lparr> bc_head = 2, bc_keepAlive = [0, 1] \<rparr>, demo_engine)"
proof -
  have "fst (subscribe 1 (RKInt 7) demo_rq full_deps (Engine_new FunctionMap_init)) = Inr \<lparr> bc_head = 2, bc_keepAlive = [0, 1] \<rparr>"
    by (simp add: subscribe_def alloc_def Engine_new_def buildForRequest_def demo_rq_def member_def c_str_def buildMiddle_def
        buildNodePart_def buildPipe_def buildOne.simps expectType_def build_GroupSplit_def full_deps_def Listener_Create_def
        isPipelineOnlyKey_def start_listener_def quoted_def)
  then show ?thesis by (simp add: demo_engine_def prod_eq_iff)
qed


section \<open>A stage that is lost\<close>

text \<open>
  Only the heads that builders return are kept alive. In a chain whose first stage is a listener, the
  next stage is held by the weak pointer of that listener alone, so it is destroyed as soon as the
  request is built, and the values the listener receives go nowhere.
\<close>

definition chain_rq :: json where
  "chain_rq = JObject [(''streamKey'', JString ''AAPL''), (''field'', JString ''lastPrice''),
     (''pipeline'', JArray [JObject [(''type'', JString ''Chain''), (''stages'', JArray
        [JObject [(''type'', JString ''Listener''), (''field'', JString ''volume'')],
         JObject [(''type'', JString ''AtomicAccessor''), (''field'', JString ''mean'')]])]])]"

definition chain_engine :: Engine where
  "chain_engine = snd (subscribe 1 (RKInt 7) chain_rq full_deps (Engine_new FunctionMap_init))"

lemma chain_stage_lost:
  "at_key ''volume'' (fields_of ''AAPL'' chain_engine) = [2] \<and> \<not> alive [2] chain_engine 1 \<and>
   en_tasks (snd (call_node [2] (2, mkSV ''AAPL'' (ADouble d1)) chain_engine)) = []"
  by code_simp

end
