(* ===== verification/Dispatcher.thy ===== *)
theory Dispatcher
  imports Engine_Runs
begin

text \<open>
  The dispatcher (\<^verbatim>\<open>core/Dispatcher.cpp\<close>) and the registry of event computers
  (\<^verbatim>\<open>engine/EventComputerRegistry.hpp\<close>). Its listener table is part of the engine, which nodes change.
  A computer is its event type, its state and its compute function; what a computer does to the
  outside, writing to the store and notifying listeners, is the list of its effects in order. With a
  thread pool a notification is posted; without one it is a synchronous call, whose exceptions leave
  \<^verbatim>\<open>onTick\<close>.
\<close>

section \<open>Events and computers\<close>

record Event =
  ev_symbol :: string
  ev_payload :: "json option"
  ev_type :: string

datatype effect =
    EStoreSet string string ArgType
  | EStoreBatch string "(string \<times> ArgType) list"
  | ENotify string string double

record 'c Computer =
  cp_eventType :: string
  cp_compute :: "Event \<Rightarrow> 'c \<Rightarrow> effect list \<times> 'c"
  cp_state :: 'c

text \<open>A factory applied to the configuration makes a computer, or a null pointer.\<close>

type_synonym 'c registry = "(string, 'c Computer option list) umap"

definition registerFactory :: "string \<Rightarrow> 'c Computer option \<Rightarrow> 'c registry \<Rightarrow> 'c registry" where
  "registerFactory eventType f reg = AList.update eventType (at_key eventType reg @ [f]) reg"

definition createAll :: "string \<Rightarrow> 'c registry \<Rightarrow> 'c Computer list" where
  "createAll eventType reg = List.map_filter (\<lambda>f. f) (at_key eventType reg)"

definition factoryCount :: "string \<Rightarrow> 'c registry \<Rightarrow> nat" where
  "factoryCount eventType reg = length (at_key eventType reg)"

section \<open>State\<close>

record 'c Dispatcher =
  dr_engine :: Engine
  dr_threadPool :: bool
  dr_store :: bool
  dr_registry :: "'c registry"
  dr_computers :: "'c Computer list"
  dr_computersByType :: "(string, 'c Computer list) umap"
  dr_histories :: "(string, (string, double list) umap) umap"
  dr_maxHistory :: nat
  dr_maxSymbols :: nat
  dr_maxFieldsPerSymbol :: nat

text \<open>The caps come from configured integers.\<close>

definition Dispatcher_new :: "bool \<Rightarrow> bool \<Rightarrow> int \<Rightarrow> int \<Rightarrow> int \<Rightarrow> 'c registry \<Rightarrow> Engine \<Rightarrow> 'c Dispatcher" where
  "Dispatcher_new pool store taHistoryMax maxSymbols maxFieldsPerSymbol reg E =
     \<lparr> dr_engine = E, dr_threadPool = pool, dr_store = store, dr_registry = reg, dr_computers = [], dr_computersByType = [],
       dr_histories = [], dr_maxHistory = nat (max 1 taHistoryMax), dr_maxSymbols = nat (max 1 maxSymbols),
       dr_maxFieldsPerSymbol = nat (max 1 maxFieldsPerSymbol) \<rparr>"

definition addComputer :: "'c Computer option \<Rightarrow> 'c Dispatcher \<Rightarrow> 'c Dispatcher" where
  "addComputer c D = (case c of None \<Rightarrow> D | Some x \<Rightarrow> D \<lparr> dr_computers := dr_computers D @ [x] \<rparr>)"

section \<open>Notification\<close>

text \<open>A run that may not end, and that may end in an exception.\<close>

type_synonym 's outcome = "(string option \<times> 's) option"

definition and_then :: "'s outcome \<Rightarrow> ('s \<Rightarrow> 's outcome) \<Rightarrow> 's outcome" where
  "and_then m f = (case m of
       None \<Rightarrow> None
     | Some (Some e, s) \<Rightarrow> Some (Some e, s)
     | Some (None, s) \<Rightarrow> f s)"

text \<open>\<open>pins\<close> are the nodes the running function holds.\<close>

definition hand :: "bool \<Rightarrow> addr list \<Rightarrow> call \<Rightarrow> Engine \<Rightarrow> Engine outcome" where
  "hand pool pins c E = (if pool then Some (None, post c E) else deliver pins [c] E)"

fun hand_all :: "bool \<Rightarrow> addr list \<Rightarrow> call list \<Rightarrow> Engine \<Rightarrow> Engine outcome" where
  "hand_all pool pins [] E = Some (None, E)"
| "hand_all pool pins (c # cs) E = and_then (hand pool pins c E) (hand_all pool pins cs)"

definition notifyListeners :: "bool \<Rightarrow> string \<Rightarrow> string \<Rightarrow> double \<Rightarrow> Engine \<Rightarrow> Engine outcome" where
  "notifyListeners pool symbol field v E =
     (let targets = at_key field (fields_of symbol E)
      in hand_all pool targets (map (\<lambda>a. (a, mkSV symbol (ADouble v))) targets) E)"

section \<open>Atomic functions\<close>

definition store_put :: "bool \<Rightarrow> (AtomicStore \<Rightarrow> AtomicStore) \<Rightarrow> Engine \<Rightarrow> Engine" where
  "store_put has f E = (if has then E \<lparr> en_store := f (en_store E) \<rparr> else E)"

text \<open>The loop over the registered functions, with the listeners as they were before it.\<close>

fun run_functions :: "bool \<Rightarrow> bool \<Rightarrow> string \<Rightarrow> double list \<Rightarrow> (string \<times> addr list) list \<Rightarrow> (string \<times> Func) list \<Rightarrow> Engine \<Rightarrow> Engine outcome" where
  "run_functions pool store symbol history ls [] E = Some (None, E)"
| "run_functions pool store symbol history ls ((fnName, fn) # fns) E = (case fn history of
       None \<Rightarrow> run_functions pool store symbol history ls fns E
     | Some result \<Rightarrow>
         (let E1 = store_put store (store_set symbol fnName (ADouble result)) E
          in and_then (hand_all pool (concat (map snd ls)) (map (\<lambda>a. (a, mkSV symbol (ADouble result))) (at_key fnName ls)) E1)
               (run_functions pool store symbol history ls fns)))"

definition computeAndStoreAtomics :: "bool \<Rightarrow> bool \<Rightarrow> string \<Rightarrow> double list \<Rightarrow> Engine \<Rightarrow> Engine outcome" where
  "computeAndStoreAtomics pool store symbol history E =
     run_functions pool store symbol history (fields_of symbol E) (fm_getAll (en_functions E)) E"

section \<open>onTick\<close>

fun run_effects :: "bool \<Rightarrow> bool \<Rightarrow> effect list \<Rightarrow> Engine \<Rightarrow> Engine outcome" where
  "run_effects pool store [] E = Some (None, E)"
| "run_effects pool store (e # es) E = and_then
     (case e of
        EStoreSet k f v \<Rightarrow> Some (None, store_put store (store_set k f v) E)
      | EStoreBatch k kvs \<Rightarrow> Some (None, store_put store (setBatch k kvs) E)
      | ENotify k f v \<Rightarrow> notifyListeners pool k f v E)
     (run_effects pool store es)"

text \<open>Run the selected computers in order; their new states come back in place.\<close>

fun run_computers :: "('c Computer \<Rightarrow> bool) \<Rightarrow> bool \<Rightarrow> bool \<Rightarrow> Event \<Rightarrow> 'c Computer list \<Rightarrow> Engine \<Rightarrow> (string option \<times> 'c Computer list \<times> Engine) option" where
  "run_computers sel pool store ev [] E = Some (None, [], E)"
| "run_computers sel pool store ev (c # cs) E =
     (if \<not> sel c
      then map_option (\<lambda>(r, cs', E'). (r, c # cs', E')) (run_computers sel pool store ev cs E)
      else (case cp_compute c ev (cp_state c) of (es, st) \<Rightarrow>
        let c' = c \<lparr> cp_state := st \<rparr>
        in case run_effects pool store es E of
             None \<Rightarrow> None
           | Some (Some e, E1) \<Rightarrow> Some (Some e, c' # cs, E1)
           | Some (None, E1) \<Rightarrow> map_option (\<lambda>(r, cs', E'). (r, c' # cs', E')) (run_computers sel pool store ev cs E1)))"

text \<open>The values of the payload that listeners of the symbol asked for, with the listeners.\<close>

definition toNotify :: "string \<Rightarrow> json \<Rightarrow> Engine \<Rightarrow> (string \<times> addr) list" where
  "toNotify symbol payload E =
     concat (map (\<lambda>(field, as). if HasMember (c_str field) payload then map (\<lambda>a. (field, a)) as else []) (fields_of symbol E))"

definition push_history :: "nat \<Rightarrow> double \<Rightarrow> double list \<Rightarrow> double list" where
  "push_history cap raw hist = (let h = hist @ [raw] in if length h > cap then tl h else h)"

text \<open>The history after a value, with the caps on symbols and fields; \<^const>\<open>None\<close> is \<^verbatim>\<open>continue\<close>.\<close>

definition record_value :: "string \<Rightarrow> string \<Rightarrow> double \<Rightarrow> 'c Dispatcher \<Rightarrow> (double list \<times> 'c Dispatcher) option" where
  "record_value symbol field raw D =
     (let hs = dr_histories D
      in if map_of hs symbol = None \<and> length hs \<ge> dr_maxSymbols D then None
         else let flds = (case map_of hs symbol of None \<Rightarrow> [] | Some f \<Rightarrow> f)
              in if map_of flds field = None \<and> length flds \<ge> dr_maxFieldsPerSymbol D then None
                 else let hist = push_history (dr_maxHistory D) raw (at_key field flds)
                      in Some (hist, D \<lparr> dr_histories := AList.update symbol (AList.update field hist flds) hs \<rparr>))"

text \<open>When only the field cap refuses a value, the entry of the symbol has still been created.\<close>

definition touch_symbol :: "string \<Rightarrow> 'c Dispatcher \<Rightarrow> 'c Dispatcher" where
  "touch_symbol symbol D =
     (let hs = dr_histories D
      in if map_of hs symbol = None \<and> length hs < dr_maxSymbols D then D \<lparr> dr_histories := AList.update symbol [] hs \<rparr> else D)"

definition with_engine :: "'c Dispatcher \<Rightarrow> Engine outcome \<Rightarrow> 'c Dispatcher outcome" where
  "with_engine D m = map_option (\<lambda>(r, E). (r, D \<lparr> dr_engine := E \<rparr>)) m"

definition notify_one :: "addr list \<Rightarrow> string \<Rightarrow> json \<Rightarrow> string \<times> addr \<Rightarrow> 'c Dispatcher \<Rightarrow> 'c Dispatcher outcome" where
  "notify_one pins symbol payload fa D = (case (case member (c_str (fst fa)) payload of None \<Rightarrow> None | Some v \<Rightarrow> GetDouble v) of
       None \<Rightarrow> Some (None, D)
     | Some raw \<Rightarrow> (case record_value symbol (fst fa) raw D of
           None \<Rightarrow> Some (None, touch_symbol symbol D)
         | Some (hist, D1) \<Rightarrow>
             with_engine D1 (and_then (computeAndStoreAtomics (dr_threadPool D1) (dr_store D1) symbol hist (dr_engine D1))
               (hand (dr_threadPool D1) pins (snd fa, mkSV symbol (ADouble raw))))))"

fun notify_list :: "addr list \<Rightarrow> string \<Rightarrow> json \<Rightarrow> (string \<times> addr) list \<Rightarrow> 'c Dispatcher \<Rightarrow> 'c Dispatcher outcome" where
  "notify_list pins symbol payload [] D = Some (None, D)"
| "notify_list pins symbol payload (fa # fas) D =
     and_then (notify_one pins symbol payload fa D) (notify_list pins symbol payload fas)"

definition run_typed :: "Event \<Rightarrow> 'c Dispatcher \<Rightarrow> 'c Dispatcher outcome" where
  "run_typed ev D =
     (let cs = (case map_of (dr_computersByType D) (ev_type ev) of
                  Some cs \<Rightarrow> cs
                | None \<Rightarrow> createAll (ev_type ev) (dr_registry D))
      in map_option (\<lambda>(r, cs', E). (r, D \<lparr> dr_computersByType := AList.update (ev_type ev) cs' (dr_computersByType D), dr_engine := E \<rparr>))
           (run_computers (\<lambda>_. True) (dr_threadPool D) (dr_store D) ev cs (dr_engine D)))"

definition run_added :: "Event \<Rightarrow> 'c Dispatcher \<Rightarrow> 'c Dispatcher outcome" where
  "run_added ev D = map_option (\<lambda>(r, cs', E). (r, D \<lparr> dr_computers := cs', dr_engine := E \<rparr>))
     (run_computers (\<lambda>c. cp_eventType c = ev_type ev) (dr_threadPool D) (dr_store D) ev (dr_computers D) (dr_engine D))"

definition onTick :: "Event \<Rightarrow> 'c Dispatcher \<Rightarrow> 'c Dispatcher outcome" where
  "onTick tick D = (case ev_payload tick of
       None \<Rightarrow> Some (None, D)
     | Some payload \<Rightarrow>
         if ev_symbol tick = [] then Some (None, D)
         else and_then (run_typed tick D) (\<lambda>D1. and_then (run_added tick D1) (\<lambda>D2.
           let fas = toNotify (ev_symbol tick) payload (dr_engine D2)
           in notify_list (map snd fas) (ev_symbol tick) payload fas D2)))"

end
