(* ===== verification/Dispatcher_Thms.thy ===== *)
theory Dispatcher_Thms
  imports Dispatcher
begin

text \<open>
  What the dispatcher keeps and promises: bounded histories, that a tick always comes to an end, and
  that it reaches every listener of its fields.
\<close>

section \<open>Bounds\<close>

definition histories_ok :: "'c Dispatcher \<Rightarrow> bool" where
  "histories_ok D \<longleftrightarrow> um_wf (dr_histories D) \<and> length (dr_histories D) \<le> dr_maxSymbols D \<and>
     (\<forall>(s, fm) \<in> set (dr_histories D). um_wf fm \<and> length fm \<le> dr_maxFieldsPerSymbol D \<and>
        (\<forall>(f, h) \<in> set fm. length h \<le> dr_maxHistory D))"

abbreviation caps :: "'c Dispatcher \<Rightarrow> nat \<times> nat \<times> nat" where
  "caps D \<equiv> (dr_maxSymbols D, dr_maxFieldsPerSymbol D, dr_maxHistory D)"

lemma set_update: "um_wf m \<Longrightarrow> set (AList.update k v m) = insert (k, v) {p \<in> set m. fst p \<noteq> k}"
  by (induction m) (auto simp: image_iff)

lemma length_update_cap:
  assumes "\<not> (map_of m k = None \<and> length m \<ge> cap)" "length m \<le> cap"
  shows "length (AList.update k v m) \<le> cap"
  using assms by (cases "map_of m k = None") (auto simp: length_update_new length_update_old)

lemma push_history_length: "length h \<le> cap \<Longrightarrow> length (push_history cap x h) \<le> cap"
  by (auto simp: push_history_def Let_def)

lemma record_value_ok:
  assumes "histories_ok D" "record_value s f raw D = Some (h, D')"
  shows "histories_ok D' \<and> caps D' = caps D"
proof -
  define flds where "flds = (case map_of (dr_histories D) s of None \<Rightarrow> [] | Some fm \<Rightarrow> fm)"
  have flds: "um_wf flds \<and> length flds \<le> dr_maxFieldsPerSymbol D \<and> (\<forall>(f, h) \<in> set flds. length h \<le> dr_maxHistory D)"
    using assms(1) by (cases "map_of (dr_histories D) s") (auto simp: flds_def histories_ok_def dest!: map_of_SomeD)
  have g: "\<not> (map_of (dr_histories D) s = None \<and> length (dr_histories D) \<ge> dr_maxSymbols D)"
    "\<not> (map_of flds f = None \<and> length flds \<ge> dr_maxFieldsPerSymbol D)"
    and h: "h = push_history (dr_maxHistory D) raw (at_key f flds)"
    and D': "D' = D \<lparr> dr_histories := AList.update s (AList.update f h flds) (dr_histories D) \<rparr>"
    using assms(2) by (auto simp: record_value_def Let_def flds_def split: if_splits)
  have "length (at_key f flds) \<le> dr_maxHistory D"
    using flds by (cases "map_of flds f") (auto simp: at_key_def dest!: map_of_SomeD)
  then have "length h \<le> dr_maxHistory D" by (simp add: h push_history_length)
  then have inner: "um_wf (AList.update f h flds) \<and> length (AList.update f h flds) \<le> dr_maxFieldsPerSymbol D \<and>
      (\<forall>(f, h) \<in> set (AList.update f h flds). length h \<le> dr_maxHistory D)"
    using flds g(2) by (auto simp: set_update length_update_cap)
  have "length (AList.update s (AList.update f h flds) (dr_histories D)) \<le> dr_maxSymbols D"
    using assms(1) g(1) by (intro length_update_cap) (auto simp: histories_ok_def)
  then show ?thesis using inner assms(1) by (auto simp: histories_ok_def D' set_update)
qed

lemma touch_symbol_ok: "histories_ok D \<Longrightarrow> histories_ok (touch_symbol s D) \<and> caps (touch_symbol s D) = caps D"
  using length_update_cap [of "dr_histories D" s "dr_maxSymbols D" "[]"]
  by (auto simp: histories_ok_def touch_symbol_def Let_def set_update)

section \<open>A tick comes to an end\<close>

text \<open>What a run on the engine keeps: the graph, and the listeners it found.\<close>

definition ends_ok :: "Engine \<Rightarrow> Engine outcome \<Rightarrow> bool" where
  "ends_ok E m \<longleftrightarrow> (\<exists>e E'. m = Some (e, E') \<and> graph_ok E' \<and> length (en_nodes E) \<le> length (en_nodes E'))"

lemma ends_okI: "graph_ok E' \<Longrightarrow> length (en_nodes E) \<le> length (en_nodes E') \<Longrightarrow> ends_ok E (Some (e, E'))"
  by (auto simp: ends_ok_def)

lemma ends_ok_refl [simp]: "graph_ok E \<Longrightarrow> ends_ok E (Some (e, E))"
  by (simp add: ends_okI)

lemma and_then_ends:
  assumes "ends_ok E m" "\<And>E'. graph_ok E' \<Longrightarrow> length (en_nodes E) \<le> length (en_nodes E') \<Longrightarrow> ends_ok E' (f E')"
  shows "ends_ok E (and_then m f)"
proof -
  obtain e E' where m: "m = Some (e, E')" "graph_ok E'" "length (en_nodes E) \<le> length (en_nodes E')"
    using assms(1) by (auto simp: ends_ok_def)
  show ?thesis
  proof (cases e)
    case None
    obtain e2 E2 where "f E' = Some (e2, E2)" "graph_ok E2" "length (en_nodes E') \<le> length (en_nodes E2)"
      using assms(2) [OF m(2,3)] by (auto simp: ends_ok_def)
    then show ?thesis using m None by (auto simp: and_then_def ends_ok_def)
  next
    case (Some x)
    then show ?thesis using m by (auto simp: and_then_def ends_ok_def)
  qed
qed

lemma hand_ends:
  assumes "graph_ok E" "fst c < length (en_nodes E)"
  shows "ends_ok E (hand pool pins c E)"
proof (cases pool)
  case True
  have "engine_step E (post c E)" using engine_step.handed [of "fst c" E "snd c"] assms(2) by simp
  then have "graph_ok (post c E)" using assms(1) by (rule step_graph_ok)
  then show ?thesis using True by (simp add: hand_def ends_ok_def post_def)
next
  case False
  then show ?thesis using deliver_ends [OF assms(1), of "[c]" pins] assms(2) by (auto simp: hand_def ends_ok_def)
qed

lemma hand_all_ends:
  assumes "graph_ok E" "\<forall>c \<in> set cs. fst c < length (en_nodes E)"
  shows "ends_ok E (hand_all pool pins cs E)"
  using assms
proof (induction cs arbitrary: E)
  case (Cons c cs)
  show ?case unfolding hand_all.simps
    by (rule and_then_ends [OF hand_ends]) (use Cons in \<open>auto intro!: Cons.IH\<close>)
qed simp

lemma listener_exists:
  assumes "graph_ok E" "(f, as) \<in> set (fields_of s E)" "a \<in> set as"
  shows "a < length (en_nodes E)"
proof -
  obtain rank where "ranked rank E" using assms(1) by (auto simp: graph_ok_def)
  moreover have "a \<in> set (engine_roots E)" using in_table_fields [OF assms(2,3)] by (simp add: engine_roots_def set_table_roots)
  ultimately show ?thesis using roots_bounded by blast
qed

lemma at_key_exists:
  assumes "graph_ok E" "a \<in> set (at_key f (fields_of s E))"
  shows "a < length (en_nodes E)"
  using assms at_key_in [OF assms(2)] listener_exists by blast

lemma notify_ends: "graph_ok E \<Longrightarrow> ends_ok E (notifyListeners pool s f v E)"
  unfolding notifyListeners_def Let_def by (rule hand_all_ends) (auto dest: at_key_exists)

lemma store_put_ok:
  assumes "graph_ok E"
  shows "graph_ok (store_put has f E)" and "length (en_nodes (store_put has f E)) = length (en_nodes E)"
  using assms step_graph_ok [OF engine_step.store_written] by (auto simp: store_put_def)

lemma run_functions_ends:
  assumes "graph_ok E" "\<forall>(f, as) \<in> set ls. \<forall>a \<in> set as. a < length (en_nodes E)"
  shows "ends_ok E (run_functions pool store s h ls fns E)"
  using assms
proof (induction fns arbitrary: E)
  case (Cons nf fns)
  obtain n fn where nf: "nf = (n, fn)" by (cases nf)
  show ?case
  proof (cases "fn h")
    case None
    then show ?thesis using Cons by (simp add: nf)
  next
    case (Some r)
    let ?E1 = "store_put store (store_set s n (ADouble r)) E"
    note E1 = store_put_ok [OF Cons.prems(1), of store "store_set s n (ADouble r)"]
    have a: "a < length (en_nodes ?E1)" if "a \<in> set (at_key n ls)" for a
      using at_key_in [OF that] Cons.prems(2) E1(2) by fastforce
    have rest: "ends_ok E' (run_functions pool store s h ls fns E')"
      if "graph_ok E'" "length (en_nodes ?E1) \<le> length (en_nodes E')" for E'
      using that Cons.prems(2) E1(2) by (intro Cons.IH) fastforce+
    have "ends_ok ?E1 (and_then (hand_all pool (concat (map snd ls)) (map (\<lambda>a. (a, mkSV s (ADouble r))) (at_key n ls)) ?E1)
        (run_functions pool store s h ls fns))"
      by (rule and_then_ends [OF hand_all_ends [OF E1(1)] rest]) (use a in auto)
    then show ?thesis using Some E1(2) by (simp add: nf ends_ok_def)
  qed
qed simp

lemma atomics_ends: "graph_ok E \<Longrightarrow> ends_ok E (computeAndStoreAtomics pool store s h E)"
  unfolding computeAndStoreAtomics_def by (rule run_functions_ends) (auto dest: listener_exists)

lemma run_effects_ends: "graph_ok E \<Longrightarrow> ends_ok E (run_effects pool store es E)"
proof (induction es arbitrary: E)
  case (Cons e es)
  have "ends_ok E (case e of EStoreSet k f v \<Rightarrow> Some (None, store_put store (store_set k f v) E)
      | EStoreBatch k kvs \<Rightarrow> Some (None, store_put store (setBatch k kvs) E)
      | ENotify k f v \<Rightarrow> notifyListeners pool k f v E)"
    using Cons.prems store_put_ok notify_ends by (cases e) (auto intro!: ends_okI)
  then show ?case unfolding run_effects.simps by (rule and_then_ends) (rule Cons.IH)
qed simp

lemma run_computers_ends:
  "graph_ok E \<Longrightarrow> \<exists>e cs' E'. run_computers sel pool store ev cs E = Some (e, cs', E') \<and> graph_ok E' \<and>
     length (en_nodes E) \<le> length (en_nodes E')"
proof (induction cs arbitrary: E)
  case (Cons c cs)
  obtain es st where c: "cp_compute c ev (cp_state c) = (es, st)" by (cases "cp_compute c ev (cp_state c)")
  obtain e E1 where r: "run_effects pool store es E = Some (e, E1)" "graph_ok E1" "length (en_nodes E) \<le> length (en_nodes E1)"
    using run_effects_ends [OF Cons.prems, of pool store es] by (auto simp: ends_ok_def)
  obtain e2 cs2 E2 where "run_computers sel pool store ev cs E1 = Some (e2, cs2, E2)" "graph_ok E2"
    "length (en_nodes E1) \<le> length (en_nodes E2)" using Cons.IH [OF r(2)] by blast
  moreover obtain e3 cs3 E3 where "run_computers sel pool store ev cs E = Some (e3, cs3, E3)" "graph_ok E3"
    "length (en_nodes E) \<le> length (en_nodes E3)" using Cons.IH [OF Cons.prems] by blast
  ultimately show ?case using c r by (cases "sel c"; cases e) (auto simp: Let_def)
qed simp

definition disp_ok :: "'c Dispatcher \<Rightarrow> bool" where
  "disp_ok D \<longleftrightarrow> histories_ok D \<and> graph_ok (dr_engine D)"

definition tick_ok :: "'c Dispatcher \<Rightarrow> 'c Dispatcher outcome \<Rightarrow> bool" where
  "tick_ok D m \<longleftrightarrow> (\<exists>e D'. m = Some (e, D') \<and> disp_ok D' \<and> caps D' = caps D \<and>
     length (en_nodes (dr_engine D)) \<le> length (en_nodes (dr_engine D')))"

lemma and_then_tick:
  assumes "tick_ok D m" "\<And>D'. disp_ok D' \<Longrightarrow> length (en_nodes (dr_engine D)) \<le> length (en_nodes (dr_engine D')) \<Longrightarrow> tick_ok D' (f D')"
  shows "tick_ok D (and_then m f)"
proof -
  obtain e D' where m: "m = Some (e, D')" "disp_ok D'" "caps D' = caps D"
    "length (en_nodes (dr_engine D)) \<le> length (en_nodes (dr_engine D'))" using assms(1) by (auto simp: tick_ok_def)
  show ?thesis
  proof (cases e)
    case None
    obtain e2 D2 where "f D' = Some (e2, D2)" "disp_ok D2" "caps D2 = caps D'"
      "length (en_nodes (dr_engine D')) \<le> length (en_nodes (dr_engine D2))"
      using assms(2) [OF m(2,4)] by (auto simp: tick_ok_def)
    then show ?thesis using m None by (auto simp: and_then_def tick_ok_def)
  next
    case (Some x)
    then show ?thesis using m by (auto simp: and_then_def tick_ok_def)
  qed
qed

lemma with_engine_ok:
  assumes "histories_ok D" "ends_ok (dr_engine D) m"
  shows "tick_ok D (with_engine D m)"
  using assms by (auto simp: ends_ok_def with_engine_def tick_ok_def disp_ok_def histories_ok_def)

lemma notify_one_ok:
  assumes "disp_ok D" "snd fa < length (en_nodes (dr_engine D))"
  shows "tick_ok D (notify_one pins s payload fa D)"
proof (cases "case member (c_str (fst fa)) payload of None \<Rightarrow> None | Some v \<Rightarrow> GetDouble v")
  case None
  then show ?thesis using assms(1) by (simp add: notify_one_def tick_ok_def)
next
  case (Some raw)
  show ?thesis
  proof (cases "record_value s (fst fa) raw D")
    case None
    have "dr_engine (touch_symbol s D) = dr_engine D" by (simp add: touch_symbol_def Let_def)
    then show ?thesis using Some None assms(1) touch_symbol_ok [of D s] by (simp add: notify_one_def tick_ok_def disp_ok_def)
  next
    case rv: (Some hd)
    obtain h D1 where hd: "hd = (h, D1)" by (cases hd)
    have D1: "histories_ok D1" "caps D1 = caps D" "dr_engine D1 = dr_engine D"
      using record_value_ok [of D s "fst fa" raw h D1] assms(1) rv hd
      by (auto simp: disp_ok_def record_value_def Let_def split: if_splits)
    have g: "graph_ok (dr_engine D1)" using assms(1) D1(3) by (simp add: disp_ok_def)
    have "tick_ok D1 (with_engine D1 (and_then (computeAndStoreAtomics (dr_threadPool D1) (dr_store D1) s h (dr_engine D1))
        (hand (dr_threadPool D1) pins (snd fa, mkSV s (ADouble raw)))))"
      using assms(2) D1(3) by (intro with_engine_ok D1(1) and_then_ends [OF atomics_ends [OF g]] hand_ends) auto
    then have "tick_ok D1 (notify_one pins s payload fa D)" using Some rv hd by (simp add: notify_one_def)
    then show ?thesis using D1(2,3) by (simp add: tick_ok_def)
  qed
qed

lemma notify_list_ok:
  assumes "disp_ok D" "\<forall>fa \<in> set fas. snd fa < length (en_nodes (dr_engine D))"
  shows "tick_ok D (notify_list pins s payload fas D)"
  using assms
proof (induction fas arbitrary: D)
  case Nil
  then show ?case by (simp add: tick_ok_def)
next
  case (Cons fa fas)
  show ?case unfolding notify_list.simps
    by (rule and_then_tick [OF notify_one_ok]) (use Cons in \<open>auto intro!: Cons.IH\<close>)
qed

lemma run_typed_ok:
  assumes "disp_ok D"
  shows "tick_ok D (run_typed ev D)"
proof -
  let ?cs = "case map_of (dr_computersByType D) (ev_type ev) of Some cs \<Rightarrow> cs | None \<Rightarrow> createAll (ev_type ev) (dr_registry D)"
  obtain e cs' E' where "run_computers (\<lambda>_. True) (dr_threadPool D) (dr_store D) ev ?cs (dr_engine D) = Some (e, cs', E')"
    "graph_ok E'" "length (en_nodes (dr_engine D)) \<le> length (en_nodes E')"
    using run_computers_ends assms unfolding disp_ok_def by blast
  then show ?thesis using assms by (simp add: run_typed_def Let_def tick_ok_def disp_ok_def histories_ok_def)
qed

lemma run_added_ok:
  assumes "disp_ok D"
  shows "tick_ok D (run_added ev D)"
proof -
  obtain e cs' E' where "run_computers (\<lambda>c. cp_eventType c = ev_type ev) (dr_threadPool D) (dr_store D) ev (dr_computers D) (dr_engine D) = Some (e, cs', E')"
    "graph_ok E'" "length (en_nodes (dr_engine D)) \<le> length (en_nodes E')"
    using run_computers_ends assms unfolding disp_ok_def by blast
  then show ?thesis using assms by (simp add: run_added_def tick_ok_def disp_ok_def histories_ok_def)
qed

lemma toNotify_listener: "(f, a) \<in> set (toNotify s payload E) \<Longrightarrow> \<exists>as. (f, as) \<in> set (fields_of s E) \<and> a \<in> set as"
  by (auto simp: toNotify_def split: if_splits)

lemma onTick_ok:
  assumes "disp_ok D"
  shows "tick_ok D (onTick ev D)"
proof (cases "ev_payload ev = None \<or> ev_symbol ev = []")
  case True
  then show ?thesis using assms by (auto simp: onTick_def tick_ok_def split: option.split)
next
  case False
  then obtain payload where p: "ev_payload ev = Some payload" "ev_symbol ev \<noteq> []" by auto
  have last: "tick_ok D2 (let fas = toNotify (ev_symbol ev) payload (dr_engine D2)
      in notify_list (map snd fas) (ev_symbol ev) payload fas D2)" if "disp_ok D2" for D2
    unfolding Let_def by (rule notify_list_ok [OF that]) (use that in \<open>auto simp: disp_ok_def dest!: toNotify_listener dest: listener_exists\<close>)
  show ?thesis using p(2) by (simp add: onTick_def p(1)) (intro and_then_tick run_typed_ok run_added_ok last assms)
qed

fun ticks :: "Event list \<Rightarrow> 'c Dispatcher \<Rightarrow> 'c Dispatcher option" where
  "ticks [] D = Some D"
| "ticks (ev # evs) D = (case onTick ev D of None \<Rightarrow> None | Some (_, D') \<Rightarrow> ticks evs D')"

lemma ticks_ok: "disp_ok D \<Longrightarrow> \<exists>D'. ticks evs D = Some D' \<and> disp_ok D' \<and> caps D' = caps D"
proof (induction evs arbitrary: D)
  case (Cons ev evs)
  obtain e D1 where "onTick ev D = Some (e, D1)" "disp_ok D1" "caps D1 = caps D"
    using onTick_ok [OF Cons.prems, of ev] by (auto simp: tick_ok_def)
  then show ?case using Cons.IH [of D1] by auto
qed simp

text \<open>C18. Whatever requests are in place and whatever computers are registered, every sequence of events
  is dispatched to its end, with or without a thread pool, and the dispatcher's memory stays within its
  configured caps: the number of symbols, of fields per symbol and of values per history.\<close>

theorem ticks_end_within_caps:
  assumes "engine_run (Engine_new fm) E"
  shows "\<exists>D. ticks evs (Dispatcher_new pool store hmax smax fmax reg E) = Some D \<and>
    length (dr_histories D) \<le> nat (max 1 smax) \<and>
    (\<forall>(s, fm) \<in> set (dr_histories D). length fm \<le> nat (max 1 fmax) \<and> (\<forall>(f, h) \<in> set fm. length h \<le> nat (max 1 hmax)))"
proof -
  let ?D = "Dispatcher_new pool store hmax smax fmax reg E"
  have "disp_ok ?D" using run_graph_ok [OF assms] by (simp add: disp_ok_def histories_ok_def Dispatcher_new_def)
  from ticks_ok [OF this, of evs] obtain D where D: "ticks evs ?D = Some D" "disp_ok D" "caps D = caps ?D" by blast
  then have "caps D = (nat (max 1 smax), nat (max 1 fmax), nat (max 1 hmax))" by (simp add: Dispatcher_new_def)
  then show ?thesis using D(1,2) unfolding disp_ok_def histories_ok_def by (intro exI [of _ D]) auto
qed

definition demo_tick_event :: Event where
  "demo_tick_event = \<lparr> ev_symbol = ''AAPL'', ev_payload = Some (JObject [(''lastPrice'', JInt 5)]), ev_type = ''tick'' \<rparr>"

theorem ticks_end_within_caps_witness:
  "\<exists>D :: unit Dispatcher. ticks [demo_tick_event, demo_tick_event] (Dispatcher_new True True 1 1 1 [] demo_engine) = Some D \<and>
    length (dr_histories D) \<le> 1"
proof -
  obtain D :: "unit Dispatcher" where "ticks [demo_tick_event, demo_tick_event] (Dispatcher_new True True 1 1 1 [] demo_engine) = Some D"
    "length (dr_histories D) \<le> nat (max 1 1)"
    using ticks_end_within_caps [OF demo_run, of "[demo_tick_event, demo_tick_event]" True True 1 1 1 "[]"] by blast
  then show ?thesis by auto
qed

section \<open>A tick reaches its listeners\<close>

text \<open>With a pool, everything the dispatcher does to the engine is posting tasks and writing the store.\<close>

definition posts :: "call list \<Rightarrow> Engine \<Rightarrow> Engine \<Rightarrow> bool" where
  "posts ts E E' \<longleftrightarrow> en_tasks E' = en_tasks E @ ts \<and> en_listeners E' = en_listeners E \<and> en_poolStopping E' = en_poolStopping E"

lemma posts_trans: "posts t1 E1 E2 \<Longrightarrow> posts t2 E2 E3 \<Longrightarrow> posts (t1 @ t2) E1 E3"
  by (simp add: posts_def)

lemma posts_refl [simp]: "posts [] E E"
  by (simp add: posts_def)

lemma posts_fields: "posts ts E E' \<Longrightarrow> fields_of s E' = fields_of s E"
  by (simp add: posts_def fields_of_def)

definition just_posts :: "Engine \<Rightarrow> Engine outcome \<Rightarrow> bool" where
  "just_posts E m \<longleftrightarrow> (\<exists>ts E'. m = Some (None, E') \<and> posts ts E E')"

lemma just_postsI: "posts ts E E' \<Longrightarrow> just_posts E (Some (None, E'))"
  by (auto simp: just_posts_def)

lemma just_posts_same [simp]: "just_posts E (Some (None, E))"
  by (rule just_postsI [OF posts_refl])

lemma and_then_posts:
  assumes "just_posts E m" "\<And>ts E'. posts ts E E' \<Longrightarrow> just_posts E' (f E')"
  shows "just_posts E (and_then m f)"
proof -
  obtain ts E1 where m: "m = Some (None, E1)" "posts ts E E1" using assms(1) by (auto simp: just_posts_def)
  obtain ts2 E2 where "f E1 = Some (None, E2)" "posts ts2 E1 E2" using assms(2) [OF m(2)] by (auto simp: just_posts_def)
  then show ?thesis using m by (auto simp: and_then_def intro: just_postsI posts_trans)
qed

lemma hand_posts: "\<not> en_poolStopping E \<Longrightarrow> \<exists>E'. hand True pins c E = Some (None, E') \<and> posts [c] E E'"
  by (simp add: hand_def post_def posts_def)

lemma hand_all_posts: "\<not> en_poolStopping E \<Longrightarrow> just_posts E (hand_all True pins cs E)"
proof (induction cs arbitrary: E)
  case (Cons c cs)
  obtain E' where "hand True pins c E = Some (None, E')" "posts [c] E E'" using hand_posts [OF Cons.prems] by blast
  then have "just_posts E (hand True pins c E)" by (auto simp: just_posts_def)
  then show ?case unfolding hand_all.simps
    by (rule and_then_posts) (use Cons in \<open>auto simp: posts_def\<close>)
qed simp

lemma store_put_posts: "posts [] E (store_put has f E)"
  by (simp add: store_put_def posts_def)

lemma run_functions_posts: "\<not> en_poolStopping E \<Longrightarrow> just_posts E (run_functions True store s h ls fns E)"
proof (induction fns arbitrary: E)
  case (Cons nf fns)
  obtain n fn where nf: "nf = (n, fn)" by (cases nf)
  show ?case
  proof (cases "fn h")
    case None
    then show ?thesis using Cons by (simp add: nf)
  next
    case (Some r)
    let ?E1 = "store_put store (store_set s n (ADouble r)) E"
    have st: "\<not> en_poolStopping ?E1" using Cons.prems by (simp add: store_put_def)
    have "just_posts ?E1 (and_then (hand_all True (concat (map snd ls)) (map (\<lambda>a. (a, mkSV s (ADouble r))) (at_key n ls)) ?E1)
        (run_functions True store s h ls fns))"
      by (rule and_then_posts [OF hand_all_posts [OF st]]) (use st in \<open>auto intro!: Cons.IH simp: posts_def\<close>)
    then show ?thesis using Some by (auto simp: nf just_posts_def posts_def store_put_def)
  qed
qed simp

lemma run_effects_posts: "\<not> en_poolStopping E \<Longrightarrow> just_posts E (run_effects True store es E)"
proof (induction es arbitrary: E)
  case (Cons e es)
  have "just_posts E (case e of EStoreSet k f v \<Rightarrow> Some (None, store_put store (store_set k f v) E)
      | EStoreBatch k kvs \<Rightarrow> Some (None, store_put store (setBatch k kvs) E)
      | ENotify k f v \<Rightarrow> notifyListeners True k f v E)"
    using hand_all_posts [OF Cons.prems] just_postsI [OF store_put_posts]
    by (cases e) (auto simp: notifyListeners_def Let_def)
  then show ?case unfolding run_effects.simps by (rule and_then_posts) (use Cons in \<open>auto simp: posts_def\<close>)
qed simp

lemma run_computers_posts:
  "\<not> en_poolStopping E \<Longrightarrow> \<exists>cs' ts E'. run_computers sel True store ev cs E = Some (None, cs', E') \<and> posts ts E E'"
proof (induction cs arbitrary: E)
  case (Cons c cs)
  obtain es st where c: "cp_compute c ev (cp_state c) = (es, st)" by (cases "cp_compute c ev (cp_state c)")
  obtain t1 E1 where r: "run_effects True store es E = Some (None, E1)" "posts t1 E E1"
    using run_effects_posts [OF Cons.prems, of store es] by (auto simp: just_posts_def)
  have "\<not> en_poolStopping E1" using r(2) Cons.prems by (simp add: posts_def)
  from Cons.IH [OF this] obtain cs2 t2 E2 where r2: "run_computers sel True store ev cs E1 = Some (None, cs2, E2)" "posts t2 E1 E2" by blast
  obtain cs3 t3 E3 where r3: "run_computers sel True store ev cs E = Some (None, cs3, E3)" "posts t3 E E3" using Cons.IH [OF Cons.prems] by blast
  show ?case using c r r2 r3 posts_trans [OF r(2) r2(2)] by (cases "sel c") auto
qed (auto intro: posts_refl)

text \<open>Room in the histories for every field that listeners of the symbol ask for.\<close>

definition fields_recorded :: "string \<Rightarrow> 'c Dispatcher \<Rightarrow> (string, double list) umap" where
  "fields_recorded s D = (case map_of (dr_histories D) s of None \<Rightarrow> [] | Some fm \<Rightarrow> fm)"

definition room_for :: "string \<Rightarrow> string set \<Rightarrow> 'c Dispatcher \<Rightarrow> bool" where
  "room_for s K D \<longleftrightarrow> histories_ok D \<and> (map_of (dr_histories D) s \<noteq> None \<or> length (dr_histories D) < dr_maxSymbols D) \<and>
     finite K \<and> fst ` set (fields_recorded s D) \<subseteq> K \<and> card K \<le> dr_maxFieldsPerSymbol D"

lemma room_for_cong: "dr_histories D' = dr_histories D \<Longrightarrow> caps D' = caps D \<Longrightarrow> room_for s K D' = room_for s K D"
  by (simp only: room_for_def histories_ok_def fields_recorded_def prod.inject)

lemma room_record:
  assumes "room_for s K D" "f \<in> K"
  shows "\<exists>h D'. record_value s f raw D = Some (h, D') \<and> room_for s K D' \<and> dr_engine D' = dr_engine D \<and> dr_threadPool D' = dr_threadPool D"
proof -
  let ?flds = "fields_recorded s D"
  have wf: "um_wf ?flds" using assms(1)
    by (cases "map_of (dr_histories D) s") (auto simp: room_for_def histories_ok_def fields_recorded_def dest!: map_of_SomeD)
  have new: "length ?flds < dr_maxFieldsPerSymbol D" if "map_of ?flds f = None"
  proof -
    have "length ?flds = card (fst ` set ?flds)" using wf by (metis distinct_card length_map set_map)
    moreover have "f \<notin> fst ` set ?flds" using that by (simp add: map_of_eq_None_iff)
    then have "card (fst ` set ?flds) < card K" using assms unfolding room_for_def by (intro psubset_card_mono) auto
    ultimately show ?thesis using assms(1) by (simp add: room_for_def)
  qed
  define h where "h = push_history (dr_maxHistory D) raw (at_key f ?flds)"
  define D' where "D' = D \<lparr> dr_histories := AList.update s (AList.update f h ?flds) (dr_histories D) \<rparr>"
  have "\<not> (map_of (dr_histories D) s = None \<and> length (dr_histories D) \<ge> dr_maxSymbols D)" using assms(1) by (auto simp: room_for_def)
  moreover have "\<not> (map_of ?flds f = None \<and> length ?flds \<ge> dr_maxFieldsPerSymbol D)" using new by auto
  ultimately have rv: "record_value s f raw D = Some (h, D')"
    by (simp only: record_value_def Let_def fields_recorded_def [symmetric] h_def D'_def if_False)
  have "histories_ok D' \<and> caps D' = caps D" using record_value_ok [OF _ rv] assms(1) by (simp add: room_for_def)
  moreover have "fst ` set (fields_recorded s D') \<subseteq> K"
  proof -
    have "fields_recorded s D' = AList.update f h ?flds" by (simp add: D'_def fields_recorded_def [of s "D \<lparr> dr_histories := _ \<rparr>"] update_conv')
    moreover have "fst ` set (AList.update f h ?flds) \<subseteq> insert f (fst ` set ?flds)"
      using set_update_subset [of f h ?flds] by force
    ultimately show ?thesis using assms by (auto simp: room_for_def)
  qed
  ultimately have "room_for s K D'" using assms(1) by (auto simp: room_for_def D'_def update_conv')
  then show ?thesis using rv by (auto simp: D'_def)
qed

definition number_of :: "json \<Rightarrow> string \<Rightarrow> double option" where
  "number_of payload f = (case member (c_str f) payload of None \<Rightarrow> None | Some v \<Rightarrow> GetDouble v)"

lemma notify_one_posts:
  assumes "room_for s K D" "fst fa \<in> K" "dr_threadPool D" "\<not> en_poolStopping (dr_engine D)"
  shows "\<exists>D' ts. notify_one pins s payload fa D = Some (None, D') \<and> room_for s K D' \<and> dr_threadPool D' \<and>
    posts ts (dr_engine D) (dr_engine D') \<and>
    (\<forall>raw. number_of payload (fst fa) = Some raw \<longrightarrow> (snd fa, mkSV s (ADouble raw)) \<in> set ts)"
proof (cases "number_of payload (fst fa)")
  case None
  then show ?thesis using assms by (auto simp: notify_one_def number_of_def intro!: exI [of _ "[]"])
next
  case (Some raw)
  obtain h D1 where r: "record_value s (fst fa) raw D = Some (h, D1)" "room_for s K D1"
    "dr_engine D1 = dr_engine D" "dr_threadPool D1" using room_record [OF assms(1,2), of raw] assms(3) by auto
  obtain t1 E1 where f: "computeAndStoreAtomics True (dr_store D1) s h (dr_engine D) = Some (None, E1)" "posts t1 (dr_engine D) E1"
    using run_functions_posts [OF assms(4)] unfolding computeAndStoreAtomics_def just_posts_def by blast
  obtain E2 where g: "hand True pins (snd fa, mkSV s (ADouble raw)) E1 = Some (None, E2)" "posts [(snd fa, mkSV s (ADouble raw))] E1 E2"
    using hand_posts [of E1 pins "(snd fa, mkSV s (ADouble raw))"] f(2) assms(4) by (auto simp: posts_def)
  have "notify_one pins s payload fa D = Some (None, D1 \<lparr> dr_engine := E2 \<rparr>)"
    using Some r f g by (simp add: notify_one_def number_of_def with_engine_def and_then_def)
  moreover have "room_for s K (D1 \<lparr> dr_engine := E2 \<rparr>)" using r(2) room_for_cong [of "D1 \<lparr> dr_engine := E2 \<rparr>" D1] by simp
  ultimately show ?thesis using Some r(4) posts_trans [OF f(2) g(2)] by (auto intro!: exI [of _ "t1 @ [(snd fa, mkSV s (ADouble raw))]"])
qed

lemma notify_list_posts:
  assumes "room_for s K D" "fst ` set fas \<subseteq> K" "dr_threadPool D" "\<not> en_poolStopping (dr_engine D)"
  shows "\<exists>D' ts. notify_list pins s payload fas D = Some (None, D') \<and> posts ts (dr_engine D) (dr_engine D') \<and>
    (\<forall>fa \<in> set fas. \<forall>raw. number_of payload (fst fa) = Some raw \<longrightarrow> (snd fa, mkSV s (ADouble raw)) \<in> set ts)"
  using assms
proof (induction fas arbitrary: D)
  case Nil
  then show ?case by (auto intro: posts_refl)
next
  case (Cons fa fas)
  obtain D1 t1 where 1: "notify_one pins s payload fa D = Some (None, D1)" "room_for s K D1" "dr_threadPool D1"
    "posts t1 (dr_engine D) (dr_engine D1)"
    "\<forall>raw. number_of payload (fst fa) = Some raw \<longrightarrow> (snd fa, mkSV s (ADouble raw)) \<in> set t1"
    using notify_one_posts [OF Cons.prems(1) _ Cons.prems(3,4), of fa pins payload] Cons.prems(2) by auto
  have "\<not> en_poolStopping (dr_engine D1)" using 1(4) Cons.prems(4) by (simp add: posts_def)
  then obtain D2 t2 where 2: "notify_list pins s payload fas D1 = Some (None, D2)" "posts t2 (dr_engine D1) (dr_engine D2)"
    "\<forall>fa \<in> set fas. \<forall>raw. number_of payload (fst fa) = Some raw \<longrightarrow> (snd fa, mkSV s (ADouble raw)) \<in> set t2"
    using Cons.IH [OF 1(2) _ 1(3)] Cons.prems(2) by auto
  show ?case using 1 2 posts_trans [OF 1(4) 2(2)] by (auto simp: and_then_def intro!: exI [of _ "t1 @ t2"])
qed

lemma run_typed_posts:
  assumes "room_for s K D" "dr_threadPool D" "\<not> en_poolStopping (dr_engine D)"
  shows "\<exists>D' ts. run_typed ev D = Some (None, D') \<and> posts ts (dr_engine D) (dr_engine D') \<and> dr_threadPool D' \<and> room_for s K D'"
proof -
  let ?cs = "case map_of (dr_computersByType D) (ev_type ev) of Some cs \<Rightarrow> cs | None \<Rightarrow> createAll (ev_type ev) (dr_registry D)"
  obtain cs' ts E' where r: "run_computers (\<lambda>_. True) True (dr_store D) ev ?cs (dr_engine D) = Some (None, cs', E')" "posts ts (dr_engine D) E'"
    using run_computers_posts [OF assms(3)] by blast
  let ?D = "D \<lparr> dr_computersByType := AList.update (ev_type ev) cs' (dr_computersByType D), dr_engine := E' \<rparr>"
  have "room_for s K ?D" using assms(1) room_for_cong [of ?D D] by simp
  then show ?thesis using r assms(2) by (auto simp: run_typed_def Let_def)
qed

lemma run_added_posts:
  assumes "room_for s K D" "dr_threadPool D" "\<not> en_poolStopping (dr_engine D)"
  shows "\<exists>D' ts. run_added ev D = Some (None, D') \<and> posts ts (dr_engine D) (dr_engine D') \<and> dr_threadPool D' \<and> room_for s K D'"
proof -
  obtain cs' ts E' where r: "run_computers (\<lambda>c. cp_eventType c = ev_type ev) True (dr_store D) ev (dr_computers D) (dr_engine D) = Some (None, cs', E')"
    "posts ts (dr_engine D) E'" using run_computers_posts [OF assms(3)] by blast
  let ?D = "D \<lparr> dr_computers := cs', dr_engine := E' \<rparr>"
  have "room_for s K ?D" using assms(1) room_for_cong [of ?D D] by simp
  then show ?thesis using r assms(2) by (auto simp: run_added_def)
qed

text \<open>C19. With a running thread pool, and caps that leave room for the fields that listeners ask for,
  dispatching an event posts to every listener of a numeric field of its payload a task with exactly
  that number, whatever computers and functions run on the way and whatever they notify; the tasks
  queued before stay in place.\<close>

theorem tick_reaches_listeners:
  assumes "histories_ok D" "dr_threadPool D" "\<not> en_poolStopping (dr_engine D)"
    and "map_of (dr_histories D) s \<noteq> None \<or> length (dr_histories D) < dr_maxSymbols D"
    and "card (fst ` set (fields_recorded s D) \<union> fst ` set (fields_of s (dr_engine D))) \<le> dr_maxFieldsPerSymbol D"
    and "s \<noteq> []" "ev_symbol ev = s" "ev_payload ev = Some payload"
  shows "\<exists>D' ts. onTick ev D = Some (None, D') \<and> en_tasks (dr_engine D') = en_tasks (dr_engine D) @ ts \<and>
    (\<forall>(f, as) \<in> set (fields_of s (dr_engine D)). \<forall>a \<in> set as. \<forall>raw. number_of payload f = Some raw \<longrightarrow>
       (a, mkSV s (ADouble raw)) \<in> set ts)"
proof -
  let ?K = "fst ` set (fields_recorded s D) \<union> fst ` set (fields_of s (dr_engine D))"
  have room: "room_for s ?K D" using assms(1,4,5) by (auto simp: room_for_def)
  obtain D1 t1 where 1: "run_typed ev D = Some (None, D1)" "posts t1 (dr_engine D) (dr_engine D1)" "dr_threadPool D1" "room_for s ?K D1"
    using run_typed_posts [OF room assms(2,3)] by blast
  have s1: "\<not> en_poolStopping (dr_engine D1)" using 1(2) assms(3) by (simp add: posts_def)
  obtain D2 t2 where 2: "run_added ev D1 = Some (None, D2)" "posts t2 (dr_engine D1) (dr_engine D2)" "dr_threadPool D2" "room_for s ?K D2"
    using run_added_posts [OF 1(4,3) s1] by blast
  have fl: "fields_of s (dr_engine D2) = fields_of s (dr_engine D)" using posts_fields [OF 1(2)] posts_fields [OF 2(2)] by simp
  define fas where "fas = toNotify s payload (dr_engine D2)"
  have K: "fst ` set fas \<subseteq> ?K" using toNotify_listener [of _ _ s payload "dr_engine D2"] by (force simp: fas_def fl)
  have s2: "\<not> en_poolStopping (dr_engine D2)" using 2(2) s1 by (simp add: posts_def)
  obtain D3 t3 where 3: "notify_list (map snd fas) s payload fas D2 = Some (None, D3)" "posts t3 (dr_engine D2) (dr_engine D3)"
    "\<forall>fa \<in> set fas. \<forall>raw. number_of payload (fst fa) = Some raw \<longrightarrow> (snd fa, mkSV s (ADouble raw)) \<in> set t3"
    using notify_list_posts [OF 2(4) K 2(3) s2] by blast
  have "onTick ev D = Some (None, D3)"
    using 1(1) 2(1) 3(1) assms(6-8) by (simp add: onTick_def and_then_def fas_def)
  moreover have "(f, a) \<in> set fas" if "(f, as) \<in> set (fields_of s (dr_engine D))" "a \<in> set as" "number_of payload f = Some raw" for f as a raw
    using that by (force simp: fas_def toNotify_def fl number_of_def HasMember_def split: option.splits)
  moreover have "en_tasks (dr_engine D3) = en_tasks (dr_engine D) @ (t1 @ t2 @ t3)" using 1(2) 2(2) 3(2) by (simp add: posts_def)
  ultimately show ?thesis using 3(3) by (intro exI [of _ D3] exI [of _ "t1 @ t2 @ t3"]) fastforce
qed

lemma demo_fields: "fields_of ''AAPL'' demo_engine = [(''lastPrice'', [2])]" "\<not> en_poolStopping demo_engine"
  by code_simp+

theorem tick_reaches_listeners_witness:
  "\<exists>(D' :: unit Dispatcher) ts. onTick demo_tick_event (Dispatcher_new True True 10 10 10 [] demo_engine) = Some (None, D') \<and>
     en_tasks (dr_engine D') = en_tasks demo_engine @ ts \<and> (2, mkSV ''AAPL'' (ADouble (double_of_int 5))) \<in> set ts"
proof -
  let ?D = "Dispatcher_new True True 10 10 10 [] demo_engine :: unit Dispatcher"
  have pre: "histories_ok ?D" "dr_threadPool ?D" "\<not> en_poolStopping (dr_engine ?D)"
    "map_of (dr_histories ?D) ''AAPL'' \<noteq> None \<or> length (dr_histories ?D) < dr_maxSymbols ?D"
    "card (fst ` set (fields_recorded ''AAPL'' ?D) \<union> fst ` set (fields_of ''AAPL'' (dr_engine ?D))) \<le> dr_maxFieldsPerSymbol ?D"
    by (simp_all add: Dispatcher_new_def histories_ok_def fields_recorded_def demo_fields)
  have ev: "ev_symbol demo_tick_event = ''AAPL''" "ev_payload demo_tick_event = Some (JObject [(''lastPrice'', JInt 5)])"
    by (simp_all add: demo_tick_event_def)
  have num: "number_of (JObject [(''lastPrice'', JInt 5)]) ''lastPrice'' = Some (double_of_int 5)"
    by (simp add: number_of_def member_def c_str_def)
  show ?thesis using tick_reaches_listeners [OF pre _ ev] num by (simp add: demo_fields Dispatcher_new_def)
qed

section \<open>A value is recorded once per listener\<close>

text \<open>
  The loop over the listeners records the value in the history of its field for each of them, so with
  two subscriptions on the same field one tick adds the value twice, and the functions computed from
  the history (count, sum, standard deviation) depend on how many clients listen.
\<close>

definition two_clients :: "unit Dispatcher" where
  "two_clients = Dispatcher_new True True 10 10 10 [] (snd (subscribe 2 (RKInt 8) demo_rq full_deps demo_engine))"

lemma history_per_listener:
  "map_option (\<lambda>(e, D). dr_histories D)
     (onTick \<lparr> ev_symbol = ''AAPL'', ev_payload = Some (JObject [(''lastPrice'', JDouble d1)]), ev_type = ''tick'' \<rparr> two_clients) =
   Some [(''AAPL'', [(''lastPrice'', [d1, d1])])]"
  by code_simp

end
