(* ===== verification/Client_Session.thy ===== *)
theory Client_Session
  imports Node_Graph_Thms Json_Validator
begin

text \<open>
  One WebSocket session (\<^verbatim>\<open>server/ClientSession.cpp\<close>): the write queue, the protocol messages and
  the subscriptions it holds in the engine. The handlers of a session run one at a time on its strand;
  \<^verbatim>\<open>dispatch\<close> on the strand runs at once, from another thread it is queued. An operation returns
  \<^const>\<open>None\<close> when it does not return: when it locks a mutex its own thread holds, starts a write
  while one is outstanding, or destroys a buffer that is being written. A frame is the document that is
  handed to the JSON writer, its text is what goes over the wire; the parser is a parameter.
\<close>

section \<open>State\<close>

record ClientSession =
  cs_self :: nat
  cs_server :: bool
  cs_exec :: "(bool \<times> bool) option"
  cs_dispatcher :: bool
  cs_open :: bool
  cs_sessionId :: u64
  cs_outbox :: "json list"
  cs_writing :: bool
  cs_reqMu :: bool
  cs_active :: "(RequestKey, addr) umap"
  cs_chains :: "(RequestKey, addr list) umap"
  cs_rateTokens :: double
  cs_rateLastRefill :: int
  cs_posted :: "json option list"
  cs_wire :: "json list"
  cs_inflight :: bool
  cs_closing :: bool

text \<open>
  The session object's number, the pointers to the server, the execution context (with its store and
  pool, null or not) and the dispatcher; \<open>cs_reqMu\<close> tells whether the running handler holds the mutex.
  The last four components are the connection: the work queued on the strand by other threads (a text to
  send or, as \<^const>\<open>None\<close>, a close), the frames handed to \<^verbatim>\<open>async_write\<close> so far, whether the last
  of them is still being written, and whether \<^verbatim>\<open>async_close\<close> has been called.
\<close>

definition MAX_OUTBOX_SIZE :: nat where "MAX_OUTBOX_SIZE = 4096"
definition MAX_SUBSCRIPTIONS :: nat where "MAX_SUBSCRIPTIONS = 256"
definition RATE_LIMIT_BURST :: double where "RATE_LIMIT_BURST = double_of_int 20"
definition RATE_LIMIT_PER_SEC :: double where "RATE_LIMIT_PER_SEC = double_of_int 5"
definition MAX_STREAM_KEY_LEN :: nat where "MAX_STREAM_KEY_LEN = 64"
definition MAX_FIELD_LEN :: nat where "MAX_FIELD_LEN = 128"

definition ClientSession_new :: "nat \<Rightarrow> bool \<Rightarrow> (bool \<times> bool) option \<Rightarrow> bool \<Rightarrow> int \<Rightarrow> ClientSession" where
  "ClientSession_new self server exec dispatcher now = \<lparr> cs_self = self, cs_server = server, cs_exec = exec,
     cs_dispatcher = dispatcher, cs_open = False, cs_sessionId = 0, cs_outbox = [], cs_writing = False, cs_reqMu = False,
     cs_active = [], cs_chains = [], cs_rateTokens = RATE_LIMIT_BURST, cs_rateLastRefill = now,
     cs_posted = [], cs_wire = [], cs_inflight = False, cs_closing = False \<rparr>"

type_synonym session_state = "ClientSession \<times> Engine"

section \<open>Close\<close>

text \<open>Shared pointers the session gives up.\<close>

definition release :: "addr list \<Rightarrow> Engine \<Rightarrow> Engine" where
  "release as E = E \<lparr> en_held := fold remove1 as (en_held E) \<rparr>"

fun shutdown_each :: "addr list \<Rightarrow> Engine \<Rightarrow> Engine option" where
  "shutdown_each [] E = Some E"
| "shutdown_each (a # as) E = (case shutdown a E of None \<Rightarrow> None | Some E1 \<Rightarrow> shutdown_each as E1)"

definition session_held :: "ClientSession \<Rightarrow> addr list" where
  "session_held s = map snd (cs_active s) @ concat (map snd (cs_chains s))"

text \<open>\<^verbatim>\<open>close\<close> on the strand, and from another thread.\<close>

definition close_now :: "session_state \<Rightarrow> session_state option" where
  "close_now S = (case S of (s, E) \<Rightarrow>
     if \<not> cs_open s then Some (s, E)
     else if cs_reqMu s then None
     else case shutdown_each (map snd (cs_active s)) E of
         None \<Rightarrow> None
       | Some E1 \<Rightarrow> Some (s \<lparr> cs_open := False, cs_active := [], cs_chains := [], cs_closing := True \<rparr>,
                        release (session_held s) E1))"

definition close_posted :: "ClientSession \<Rightarrow> ClientSession" where
  "close_posted s = s \<lparr> cs_posted := cs_posted s @ [None] \<rparr>"

section \<open>Writing\<close>

definition startWrite :: "ClientSession \<Rightarrow> ClientSession option" where
  "startWrite s =
     (if cs_inflight s then None
      else if \<not> cs_open s then Some (s \<lparr> cs_writing := False, cs_outbox := [] \<rparr>)
      else case cs_outbox s of
          [] \<Rightarrow> Some (s \<lparr> cs_writing := False \<rparr>)
        | f # _ \<Rightarrow> Some (s \<lparr> cs_wire := cs_wire s @ [f], cs_inflight := True \<rparr>))"

text \<open>The part of \<^verbatim>\<open>sendText\<close> that runs on the strand, and the call from another thread.\<close>

definition sendText :: "json \<Rightarrow> session_state \<Rightarrow> session_state option" where
  "sendText f S = (case S of (s, E) \<Rightarrow>
     if \<not> cs_open s then Some (s, E)
     else if length (cs_outbox s) \<ge> MAX_OUTBOX_SIZE then close_now (s, E)
     else let s1 = s \<lparr> cs_outbox := cs_outbox s @ [f] \<rparr>
          in if cs_writing s1 then Some (s1, E)
             else map_option (\<lambda>s2. (s2, E)) (startWrite (s1 \<lparr> cs_writing := True \<rparr>)))"

definition sendText_posted :: "json \<Rightarrow> ClientSession \<Rightarrow> ClientSession" where
  "sendText_posted f s = (if cs_open s then s \<lparr> cs_posted := cs_posted s @ [Some f] \<rparr> else s)"

definition run_posted :: "session_state \<Rightarrow> session_state option" where
  "run_posted S = (case S of (s, E) \<Rightarrow> (case cs_posted s of
       [] \<Rightarrow> Some (s, E)
     | Some f # ps \<Rightarrow> sendText f (s \<lparr> cs_posted := ps \<rparr>, E)
     | None # ps \<Rightarrow> close_now (s \<lparr> cs_posted := ps \<rparr>, E)))"

text \<open>The completion of a write, with or without an error.\<close>

definition onWrite :: "bool \<Rightarrow> session_state \<Rightarrow> session_state option" where
  "onWrite failed S = (case S of (s, E) \<Rightarrow>
     let s1 = s \<lparr> cs_inflight := False \<rparr>
     in if failed then close_now (s1, E)
        else map_option (\<lambda>s2. (s2, E)) (startWrite (s1 \<lparr> cs_outbox := tl (cs_outbox s1) \<rparr>)))"

section \<open>Frames\<close>

fun writeArgTypeJson :: "ArgType \<Rightarrow> json"
and writeArgValueJson :: "ArgValue \<Rightarrow> json" where
  "writeArgTypeJson (ABool b) = JBool b"
| "writeArgTypeJson (AInt n) = JInt n"
| "writeArgTypeJson (ADouble d) = JDouble d"
| "writeArgTypeJson (AString s) = JString (c_str s)"
| "writeArgTypeJson (AIntVec ns) = JArray (map JInt ns)"
| "writeArgTypeJson (ADoubleVec ds) = JArray (map JDouble ds)"
| "writeArgTypeJson (AArgVec vs) = JArray (map writeArgValueJson vs)"
| "writeArgValueJson (ArgValue v) = writeArgTypeJson v"

definition error_frame :: "string \<Rightarrow> string \<Rightarrow> json" where
  "error_frame place message = JObject [(''type'', JString ''error''), (''where'', JString (c_str place)),
     (''message'', JString (c_str message))]"

definition sendError :: "string \<Rightarrow> string \<Rightarrow> session_state \<Rightarrow> session_state option" where
  "sendError place message S = sendText (error_frame place message) S"

definition update_frame :: "RequestKey \<Rightarrow> StreamValue \<Rightarrow> json" where
  "update_frame key sv = JObject [(''type'', JString ''update''), writeRequestKeyJSON key,
     (''streamKey'', JString (c_str (sv_symbol sv))), (''value'', writeArgTypeJson (sv_value sv))]"

definition ack_frame :: "string \<Rightarrow> RequestKey \<Rightarrow> json" where
  "ack_frame ty key = JObject [(''type'', JString ty), writeRequestKeyJSON key]"

text \<open>The callback given to the responder of a request; the session still exists.\<close>

definition sendFn :: "RequestKey \<Rightarrow> StreamValue \<Rightarrow> ClientSession \<Rightarrow> ClientSession" where
  "sendFn key sv s = sendText_posted (update_frame key sv) s"

section \<open>Subscribe\<close>

definition rateLimitCheck :: "int \<Rightarrow> ClientSession \<Rightarrow> bool \<times> ClientSession" where
  "rateLimitCheck now s =
     (let elapsed = ddiv (double_of_int (now - cs_rateLastRefill s)) (double_of_int 1000000000);
          refilled = dadd (cs_rateTokens s) (dmul elapsed RATE_LIMIT_PER_SEC);
          tokens = (if dlt refilled RATE_LIMIT_BURST then refilled else RATE_LIMIT_BURST);
          s1 = s \<lparr> cs_rateLastRefill := now, cs_rateTokens := tokens \<rparr>
      in if dlt tokens (double_of_int 1) then (False, s1)
         else (True, s1 \<lparr> cs_rateTokens := dsub tokens (double_of_int 1) \<rparr>))"

text \<open>The checks of one request up to its names: an error message, or the key, stream key and field.\<close>

definition request_head :: "json \<Rightarrow> string + (RequestKey \<times> string \<times> string)" where
  "request_head r =
     (if \<not> IsObject r then Inl ''request must be object''
      else if requestObjHasBothKeyAndId r then Inl ''request must have key (int) OR id (int|string), not both''
      else case parseRequestKeyFromObj r of
          None \<Rightarrow> Inl (''request missing valid '' @ quoted ''key'' @ '' (int) or '' @ quoted ''id'' @ '' (int|string)'')
        | Some key \<Rightarrow> (case (case member ''streamKey'' r of None \<Rightarrow> None | Some w \<Rightarrow> GetString w) of
              None \<Rightarrow> Inl (''request missing '' @ quoted ''streamKey'' @ '' string'')
            | Some streamKey \<Rightarrow> (case (case member ''field'' r of None \<Rightarrow> None | Some w \<Rightarrow> GetString w) of
                  None \<Rightarrow> Inl (''request missing '' @ quoted ''field'' @ '' string'')
                | Some field \<Rightarrow>
                    if streamKey = [] \<or> length streamKey > MAX_STREAM_KEY_LEN
                    then Inl (''invalid '' @ quoted ''streamKey'' @ '' (empty or too long, max '' @ to_string (int MAX_STREAM_KEY_LEN) @ '')'')
                    else if field = [] \<or> length field > MAX_FIELD_LEN
                    then Inl (''invalid '' @ quoted ''field'' @ '' (empty or too long, max '' @ to_string (int MAX_FIELD_LEN) @ '')'')
                    else Inr (key, streamKey, field))))"

text \<open>The members \<^verbatim>\<open>pipeline\<close>, \<^verbatim>\<open>stages\<close> and \<^verbatim>\<open>node\<close> that are passed on.\<close>

definition copy_member :: "string \<Rightarrow> (json \<Rightarrow> bool) \<Rightarrow> json \<Rightarrow> (string \<times> json) list" where
  "copy_member k p r = (case member k r of Some v \<Rightarrow> if p v then [(k, v)] else [] | None \<Rightarrow> [])"

definition request_spec :: "string \<Rightarrow> string \<Rightarrow> json \<Rightarrow> json" where
  "request_spec streamKey field r = JObject ([(''streamKey'', JString streamKey), (''field'', JString field)]
     @ copy_member ''pipeline'' IsArray r @ copy_member ''stages'' IsArray r @ copy_member ''node'' IsObject r)"

text \<open>The messages of the exceptions.\<close>

fun verr_what :: "verr \<Rightarrow> string" where
  "verr_what RequestNotObject = ''Request must be a JSON object''"
| "verr_what IdMissing = ''Request missing string '' @ quoted ''id''"
| "verr_what IdEmpty = ''Request '' @ quoted ''id'' @ '' must not be empty''"
| "verr_what IdTooLong = ''field '' @ quoted ''id'' @ '' exceeds maximum length''"
| "verr_what TreeMissing = ''Request missing '' @ quoted ''tree'' @ '' object''"
| "verr_what TreeTooDeep = ''Tree exceeds maximum depth of '' @ to_string (int MAX_TREE_DEPTH)"
| "verr_what TreeNotObject = ''Tree node must be an object''"
| "verr_what (FieldTooLong k) = ''field '' @ quoted k @ '' exceeds maximum length''"
| "verr_what (ArrayTooLong k) = quoted k @ '' array exceeds maximum size of '' @ to_string (int MAX_ARRAY_SIZE)"
| "verr_what (ElementTooLong k) = ''element in array '' @ quoted k @ '' exceeds maximum length''"
| "verr_what NodeNotObject = ''Node must be an object''"
| "verr_what TypeMissing = ''Node missing string '' @ quoted ''type''"
| "verr_what TypeEmpty = ''Node '' @ quoted ''type'' @ '' must not be empty''"
| "verr_what TypeTooLong = ''field '' @ quoted ''type'' @ '' exceeds maximum length''"
| "verr_what (TypeUnknown t) = ''Unknown node type: '' @ quoted t"

text \<open>The node types that \<^verbatim>\<open>registerBuiltinNodeTypes\<close> registers.\<close>

definition builtinNodeTypes :: "string list" where
  "builtinNodeTypes = [''Listener'', ''Interval'', ''BucketTime'', ''TumblingWindow'', ''VectorReducer'', ''AtomicAccessor'',
     ''Worker'', ''Aggregate'', ''GroupSplit'', ''SymbolSplit'', ''Chain'']"

fun validateStages :: "json list \<Rightarrow> verr option" where
  "validateStages [] = None"
| "validateStages (x # xs) =
     (case (if IsObject x then validateTree (\<lambda>t. t \<in> set builtinNodeTypes) x 0 else None) of
        Some e \<Rightarrow> Some e
      | None \<Rightarrow> validateStages xs)"

definition validateSpec :: "json \<Rightarrow> verr option" where
  "validateSpec r = (case validateStages (case member ''pipeline'' r of Some v \<Rightarrow> elements v | None \<Rightarrow> []) of
       Some e \<Rightarrow> Some e
     | None \<Rightarrow> (case validateStages (case member ''stages'' r of Some v \<Rightarrow> elements v | None \<Rightarrow> []) of
           Some e \<Rightarrow> Some e
         | None \<Rightarrow> (case member ''node'' r of
               Some v \<Rightarrow> if IsObject v then validateTree (\<lambda>t. t \<in> set builtinNodeTypes) v 0 else None
             | None \<Rightarrow> None)))"

text \<open>The request replaces one with the same key: the old head is shut down, its pointers are given up.\<close>

definition install :: "RequestKey \<Rightarrow> BuiltChain \<Rightarrow> session_state \<Rightarrow> session_state option" where
  "install key bc S = (case S of (s, E) \<Rightarrow>
     (case (case map_of (cs_active s) key of None \<Rightarrow> Some E | Some old \<Rightarrow> shutdown old E) of
        None \<Rightarrow> None
      | Some E1 \<Rightarrow> Some (s \<lparr> cs_active := AList.update key (bc_head bc) (cs_active s),
                            cs_chains := AList.update key (bc_keepAlive bc) (cs_chains s) \<rparr>,
                       release ((case map_of (cs_active s) key of None \<Rightarrow> [] | Some old \<Rightarrow> [old]) @ at_key key (cs_chains s)) E1)))"

definition subscribe_one :: "bool \<times> bool \<Rightarrow> json \<Rightarrow> session_state \<Rightarrow> session_state option" where
  "subscribe_one exec r S = (case S of (s, E) \<Rightarrow> (case request_head r of
       Inl message \<Rightarrow> sendError ''subscribe'' message (s, E)
     | Inr (key, streamKey, field) \<Rightarrow> (case validateSpec r of
           Some e \<Rightarrow> sendError ''validate'' (verr_what e) (s, E)
         | None \<Rightarrow>
             if map_of (cs_active s) key = None \<and> length (cs_active s) \<ge> MAX_SUBSCRIPTIONS
             then map_option (\<lambda>(s1, E1). (s1 \<lparr> cs_reqMu := False \<rparr>, E1))
                    (sendError ''subscribe'' ''max subscriptions reached'' (s \<lparr> cs_reqMu := True \<rparr>, E))
             else (case subscribe (cs_self s) key (request_spec streamKey field r)
                         \<lparr> dp_store = fst exec, dp_pool = snd exec, dp_dispatcher = True \<rparr> E of
                 (Inl message, E1) \<Rightarrow> sendError ''build'' message (s, E1)
               | (Inr bc, E1) \<Rightarrow> (case install key bc (s, E1) of
                     None \<Rightarrow> None
                   | Some S2 \<Rightarrow> sendText (ack_frame ''subscribed'' key) S2)))))"

fun subscribe_all :: "bool \<times> bool \<Rightarrow> json list \<Rightarrow> session_state \<Rightarrow> session_state option" where
  "subscribe_all exec [] S = Some S"
| "subscribe_all exec (r # rs) S = (case subscribe_one exec r S of None \<Rightarrow> None | Some S1 \<Rightarrow> subscribe_all exec rs S1)"

definition handleSubscribe :: "int \<Rightarrow> json \<Rightarrow> session_state \<Rightarrow> session_state option" where
  "handleSubscribe now doc S = (case S of (s, E) \<Rightarrow> (case cs_exec s of
       None \<Rightarrow> sendError ''subscribe'' ''server missing exec/dispatcher'' (s, E)
     | Some exec \<Rightarrow>
         if \<not> cs_dispatcher s then sendError ''subscribe'' ''server missing exec/dispatcher'' (s, E)
         else (case rateLimitCheck now s of
             (False, s1) \<Rightarrow> sendError ''subscribe'' ''rate limit exceeded'' (s1, E)
           | (True, s1) \<Rightarrow> (case member ''requests'' doc of
                 Some (JArray rs) \<Rightarrow> subscribe_all exec rs (s1, E)
               | _ \<Rightarrow> sendError ''subscribe'' (''missing '' @ quoted ''requests'' @ '' array'') (s1, E)))))"

section \<open>Cancel\<close>

text \<open>The loop that collects the keys: an element of the wrong type is answered and skipped.\<close>

fun collect :: "(json \<Rightarrow> RequestKey option) \<Rightarrow> string \<Rightarrow> json list \<Rightarrow> session_state
    \<Rightarrow> (RequestKey list \<times> session_state) option" where
  "collect get message [] S = Some ([], S)"
| "collect get message (v # vs) S = (case get v of
       None \<Rightarrow> (case sendError ''cancel'' message S of None \<Rightarrow> None | Some S1 \<Rightarrow> collect get message vs S1)
     | Some key \<Rightarrow> map_option (\<lambda>(keys, S1). (key # keys, S1)) (collect get message vs S))"

definition cancel_one :: "RequestKey \<Rightarrow> session_state \<Rightarrow> session_state option" where
  "cancel_one key S = (case S of (s, E) \<Rightarrow>
     let root = map_of (cs_active s) key;
         s1 = s \<lparr> cs_active := AList.delete key (cs_active s), cs_chains := AList.delete key (cs_chains s) \<rparr>;
         E1 = release (at_key key (cs_chains s)) E
     in case (case root of None \<Rightarrow> Some E1 | Some a \<Rightarrow> map_option (release [a]) (shutdown a E1)) of
          None \<Rightarrow> None
        | Some E2 \<Rightarrow> sendText (ack_frame ''canceled'' key) (s1, E2))"

fun cancel_all :: "RequestKey list \<Rightarrow> session_state \<Rightarrow> session_state option" where
  "cancel_all [] S = Some S"
| "cancel_all (k # ks) S = (case cancel_one k S of None \<Rightarrow> None | Some S1 \<Rightarrow> cancel_all ks S1)"

definition handleCancel :: "json \<Rightarrow> session_state \<Rightarrow> session_state option" where
  "handleCancel doc S = (case (member ''keys'' doc, member ''ids'' doc) of
       (Some (JArray ks), Some (JArray is)) \<Rightarrow> sendError ''cancel'' ''specify keys (int) or ids (string), not both'' S
     | (Some (JArray ks), _) \<Rightarrow>
         (case collect (\<lambda>v. map_option requestKeyInt (GetInt v)) ''keys must be integers'' ks S of
            None \<Rightarrow> None | Some (keys, S1) \<Rightarrow> cancel_all keys S1)
     | (_, Some (JArray is)) \<Rightarrow>
         (case collect (\<lambda>v. map_option requestKeyStr (GetString v)) ''ids must be strings'' is S of
            None \<Rightarrow> None | Some (keys, S1) \<Rightarrow> cancel_all keys S1)
     | _ \<Rightarrow> sendError ''cancel'' (''missing '' @ quoted ''keys'' @ '' (int array) or '' @ quoted ''ids'' @ '' (string array)'') S)"

section \<open>Messages\<close>

definition handleMessage :: "(string \<Rightarrow> json option) \<Rightarrow> int \<Rightarrow> string \<Rightarrow> session_state \<Rightarrow> session_state option" where
  "handleMessage parse now text S = (case parse (c_str text) of
       None \<Rightarrow> sendError ''parse'' ''invalid JSON'' S
     | Some doc \<Rightarrow>
         if \<not> IsObject doc then sendError ''parse'' ''invalid JSON'' S
         else (case (case member ''type'' doc of None \<Rightarrow> None | Some w \<Rightarrow> GetString w) of
             None \<Rightarrow> sendError ''type'' (''missing '' @ quoted ''type'') S
           | Some ty \<Rightarrow> if ty = ''subscribe'' then handleSubscribe now doc S
                         else if ty = ''cancel'' then handleCancel doc S
                         else sendError ''type'' (''unknown type: '' @ ty) S))"

text \<open>The completion of a read: an error or the end of the stream closes the session.\<close>

definition onRead :: "(string \<Rightarrow> json option) \<Rightarrow> int \<Rightarrow> string option \<Rightarrow> session_state \<Rightarrow> session_state option" where
  "onRead parse now data S = (case data of None \<Rightarrow> close_now S | Some text \<Rightarrow> handleMessage parse now text S)"

end
