(* ===== verification/Engine_Growth.thy ===== *)
theory Engine_Growth
  imports Node_Graph_Thms
begin

text \<open>
  What the engine never takes away. Building a request adds nodes behind the existing ones and entries
  to the listener table; running tasks, timers and calls changes no listener, removes nobody from the
  table and does not touch the pointers that sessions hold. Only the shutdown of a listener takes it out
  of the table.
\<close>

section \<open>Growth\<close>

definition registered :: "Engine \<Rightarrow> string \<Rightarrow> string \<Rightarrow> addr set" where
  "registered E symbol field = set (at_key field (fields_of symbol E))"

fun is_responder :: "inode \<Rightarrow> bool" where
  "is_responder (NResponder n) = True"
| "is_responder _ = False"

text \<open>Growth by nodes other than responders; nothing is sent.\<close>

definition grows :: "Engine \<Rightarrow> Engine \<Rightarrow> bool" where
  "grows E E' \<longleftrightarrow> en_held E' = en_held E \<and> en_sent E' = en_sent E \<and>
     (\<exists>ns. en_nodes E' = en_nodes E @ ns \<and> (\<forall>n \<in> set ns. \<not> is_responder n)) \<and>
     (\<forall>s f. registered E s f \<subseteq> registered E' s f)"

definition keeps :: "Engine \<Rightarrow> Engine \<Rightarrow> bool" where
  "keeps E E' \<longleftrightarrow> en_held E' = en_held E \<and> length (en_nodes E) \<le> length (en_nodes E') \<and>
     (\<forall>a l. node_at E a = Some (NListener l) \<longrightarrow> node_at E' a = Some (NListener l)) \<and>
     (\<forall>s f. registered E s f \<subseteq> registered E' s f)"

lemma grows_refl [simp]: "grows E E"
  by (simp add: grows_def)

lemma grows_trans: "grows E1 E2 \<Longrightarrow> grows E2 E3 \<Longrightarrow> grows E1 E3"
  by (auto simp: grows_def) blast

lemma keeps_refl [simp]: "keeps E E"
  by (simp add: keeps_def)

lemma keeps_trans: "keeps E1 E2 \<Longrightarrow> keeps E2 E3 \<Longrightarrow> keeps E1 E3"
  by (auto simp: keeps_def) blast

lemma grows_keeps: "grows E E' \<Longrightarrow> keeps E E'"
  by (auto simp: grows_def keeps_def node_at_def nth_append split: if_splits)

lemma grows_length: "grows E E' \<Longrightarrow> length (en_nodes E) \<le> length (en_nodes E')"
  by (auto simp: grows_def)

section \<open>The table\<close>

lemma map_of_om_set_iff: "map_of (om_set lt k v m) k' = (if k' = k then Some v else map_of m k')"
  by (induction lt k v m rule: om_set.induct) auto

lemma registered_outside [simp]:
  "registered (E \<lparr> en_nodes := ns \<rparr>) s f = registered E s f"
  "registered (E \<lparr> en_threads := ts \<rparr>) s f = registered E s f"
  "registered (E \<lparr> en_tasks := cs \<rparr>) s f = registered E s f"
  "registered (E \<lparr> en_held := hs \<rparr>) s f = registered E s f"
  "registered (E \<lparr> en_store := st \<rparr>) s f = registered E s f"
  "registered (E \<lparr> en_sent := zs \<rparr>) s f = registered E s f"
  "registered (E \<lparr> en_poolStopping := b \<rparr>) s f = registered E s f"
  by (simp_all add: registered_def fields_of_def)

lemma registered_put [simp]: "registered (put_node a n E) s f = registered E s f"
  by (simp add: put_node_def)

lemma registered_register:
  "registered (registerListener s f a E) s' f' = registered E s' f' \<union> (if s' = s \<and> f' = f then {a} else {})"
  by (auto simp: registered_def registerListener_def Let_def fields_of_def at_key_def map_of_om_set_iff update_conv'
      split: option.splits if_splits)

lemma fields_of_set:
  "fields_of s' (E \<lparr> en_listeners := (if fm = [] then AList.delete s (en_listeners E) else AList.update s fm (en_listeners E)) \<rparr>)
     = (if s' = s then fm else fields_of s' E)"
  by (simp add: fields_of_def update_conv' delete_conv')

lemma registered_unregister:
  "registered (unregisterListener s f a E) s' f' = registered E s' f' - (if s' = s \<and> f' = f then {a} else {})"
proof (cases "\<exists>fm vec. map_of (en_listeners E) s = Some fm \<and> map_of fm f = Some vec")
  case False
  then have "unregisterListener s f a E = E" "registered E s f = {}"
    by (auto simp: unregisterListener_def registered_def fields_of_def at_key_def split: option.splits)
  then show ?thesis by auto
next
  case True
  then obtain fm vec where fm: "map_of (en_listeners E) s = Some fm" "map_of fm f = Some vec" by blast
  define vec' where "vec' = filter (\<lambda>b. b \<noteq> a) vec"
  define fm' where "fm' = (if vec' = [] then AList.delete f fm else om_set str_lt f vec' fm)"
  have at: "at_key g fm' = (if g = f then vec' else at_key g fm)" for g
    by (auto simp: fm'_def at_key_def map_of_om_set_iff delete_conv')
  have un: "unregisterListener s f a E = E \<lparr> en_listeners := (if fm' = [] then AList.delete s (en_listeners E)
      else AList.update s fm' (en_listeners E)) \<rparr>"
    unfolding unregisterListener_def fm option.case Let_def vec'_def [symmetric] fm'_def [symmetric] by (rule refl)
  have "fields_of s' (unregisterListener s f a E) = (if s' = s then fm' else fields_of s' E)" for s'
    unfolding un by (rule fields_of_set)
  moreover have "fields_of s E = fm" "at_key f fm = vec" using fm by (simp_all add: fields_of_def at_key_def)
  ultimately show ?thesis by (auto simp: registered_def at vec'_def)
qed

section \<open>Builders\<close>

definition grown :: "Engine \<Rightarrow> 'a \<times> Engine \<Rightarrow> bool" where
  "grown E res \<longleftrightarrow> grows E (snd res)"

lemma grown_same [simp]: "grown E (r, E)"
  by (simp add: grown_def)

lemma grown_trans: "grows E E1 \<Longrightarrow> grown E1 res \<Longrightarrow> grown E res"
  unfolding grown_def by (rule grows_trans)

lemma alloc_grown: "\<not> is_responder n \<Longrightarrow> grown E (alloc n E)"
  by (simp add: grown_def grows_def alloc_def)

lemma register_frame [simp]:
  "en_held (registerListener s f a E) = en_held E" "en_nodes (registerListener s f a E) = en_nodes E"
  "en_sent (registerListener s f a E) = en_sent E"
  by (simp_all add: registerListener_def Let_def)

lemma start_listener_grown: "grown E (start_listener l E)"
  by (auto simp: grown_def grows_def start_listener_def alloc_def Listener_start_def node_at_def put_node_def Let_def
      registered_register)

lemma start_listener_fresh: "fst (start_listener l E) = length (en_nodes E)"
  by (simp add: start_listener_def alloc_def)

lemma alloc_timer_grown:
  assumes "n = NInterval t \<or> n = NBucketTime t \<or> n = NTumblingWindow w"
  shows "grown E (case alloc n E of (a, E1) \<Rightarrow> (r a, Timer_start a E1))"
  using assms by (auto simp: grown_def grows_def alloc_def Timer_start_def node_at_def put_node_def split: inode.splits)

lemma finish_timer_grown: "mk = NInterval \<or> mk = NBucketTime \<Longrightarrow> grown E (finish_timer mk ms child E)"
  unfolding finish_timer_def by (rule alloc_timer_grown) auto

lemma grown_case: "grown E x \<Longrightarrow> grown E (case x of (a, E1) \<Rightarrow> (r a, E1))"
  by (cases x) (simp add: grown_def)

lemma leaf_builders_grown:
  "grown E (build_Listener v key deps ds E)"
  "grown E (build_TumblingWindow v deps ds E)"
  "grown E (build_VectorReducer v ds E)"
  "grown E (build_AtomicAccessor v key deps ds E)"
  "grown E (build_Worker v ds E)"
  "grown E (build_GroupSplit v key deps ds E)"
  "grown E (finish_aggregate agg roots E)"
  by (auto simp: build_Listener_def Let_def build_TumblingWindow_def build_VectorReducer_def build_AtomicAccessor_def
      build_Worker_def build_GroupSplit_def finish_aggregate_def
      intro!: alloc_grown alloc_timer_grown grown_case start_listener_grown split: option.split sum.split)

lemma grown_bind:
  assumes "grown E x" "\<And>y E1. x = (Inr y, E1) \<Longrightarrow> grown E1 (k y E1)"
  shows "grown E (case x of (Inl e, E1) \<Rightarrow> (Inl e, E1) | (Inr y, E1) \<Rightarrow> k y E1)"
proof (cases x)
  case (Pair r E1)
  then show ?thesis using assms by (cases r) (auto simp: grown_def intro: grows_trans)
qed

lemma loops_grown:
  assumes "\<And>v ds E. v \<in> set vs \<Longrightarrow> grown E (buildOne v key deps ds E)"
  shows "grown E (buildInputs vs key deps agg E)" and "grown E (buildStages vs key deps ds E)"
  using assms
proof (induction vs arbitrary: E ds)
  case (Cons v vs)
  {
    case 1
    then show ?case using Cons.IH(1) by (auto intro!: grown_bind)
  next
    case 2
    then show ?case using Cons.IH(2) by (auto intro!: grown_bind)
  }
qed simp_all

lemma buildOne_grown: "grown E (buildOne v key deps ds E)"
proof (induction v arbitrary: E ds rule: measure_induct_rule [of size])
  case (less v)
  have elems: "grown E' (buildOne x key deps d E')" if "member k v = Some (JArray xs)" "x \<in> set xs" for k xs x E' d
    using that elements_size [of x "JArray xs"] member_size [OF that(1)] by (intro less.IH) auto
  have child: "grown E (buildOne c key deps ds E)" if "member ''child'' v = Some c" for c E ds
    using member_size [OF that] by (rule less.IH)
  have timer: "grown E (case member ''child'' v of
      None \<Rightarrow> (case finish_timer mk ms ds E of (a, E1) \<Rightarrow> (Inr a, E1))
    | Some c \<Rightarrow> (case buildOne c key deps ds E of
          (Inl e, E1) \<Rightarrow> (Inl e, E1)
        | (Inr child, E1) \<Rightarrow> (case finish_timer mk ms (Some child) E1 of (a, E2) \<Rightarrow> (Inr a, E2))))"
    if "mk = NInterval \<or> mk = NBucketTime" for mk ms
    using child by (cases "member ''child'' v") (auto intro!: grown_bind grown_case finish_timer_grown that)
  have chain: "grown E (case buildStages (rev xs) key deps ds E of (Inl e, E1) \<Rightarrow> (Inl e, E1) | (Inr as, E1) \<Rightarrow> (Inr (last as), E1))"
    if "member ''stages'' v = Some (JArray xs)" for xs
    by (intro grown_bind loops_grown) (use elems [OF that] in auto)
  have agg: "grown E (case alloc (NAggregate n) E of (agg, E1) \<Rightarrow> (case buildInputs xs key deps agg E1 of
      (Inl e, E2) \<Rightarrow> (Inl e, E2) | (Inr roots, E2) \<Rightarrow> finish_aggregate agg roots E2))"
    if "member ''inputs'' v = Some (JArray xs)" for xs n
  proof (cases "alloc (NAggregate n) E")
    case (Pair a E1)
    then have "grows E E1" by (auto simp: alloc_def grows_def)
    moreover have "grown E1 (case buildInputs xs key deps a E1 of
        (Inl e, E2) \<Rightarrow> (Inl e, E2) | (Inr roots, E2) \<Rightarrow> finish_aggregate a roots E2)"
      by (intro grown_bind loops_grown leaf_builders_grown) (use elems [OF that] in auto)
    ultimately show ?thesis by (simp add: Pair grown_trans)
  qed
  show ?case using leaf_builders_grown timer chain agg
    by (simp add: buildOne.simps [of v] Let_def split: sum.split option.split json.split)
qed

lemma buildStages_grown: "grown E (buildStages vs key deps ds E)"
  by (rule loops_grown) (rule buildOne_grown)

lemma buildMiddle_grown: "grown E (buildMiddle rq key deps t E)"
proof -
  have pipe: "grown E (buildPipe xs key deps t keep E)" for xs keep E
    unfolding buildPipe_def by (rule grown_bind) (simp_all add: buildStages_grown)
  have part: "grown E (buildNodePart rq key deps t E)"
    unfolding buildNodePart_def
    by (auto intro!: grown_bind buildOne_grown split: option.split json.split)
  have "grown E (case buildNodePart rq key deps t E of (Inl e, E1) \<Rightarrow> (Inl e, E1) | (Inr y, E1) \<Rightarrow> (case y of (mid, keep) \<Rightarrow>
      (case member ''pipeline'' rq of
           Some (JArray xs) \<Rightarrow> buildPipe xs key deps t keep E1
         | _ \<Rightarrow> (case member ''stages'' rq of
               Some (JArray xs) \<Rightarrow> buildPipe xs key deps t keep E1
             | _ \<Rightarrow> (Inr (mid, keep), E1)))))"
    by (rule grown_bind [OF part]) (auto intro!: pipe split: prod.split option.split json.split)
  then show ?thesis unfolding buildMiddle_def by (auto split: prod.splits sum.splits)
qed

text \<open>A request that is built: its head is a new node.\<close>

lemma buildForRequest_grown:
  assumes "buildForRequest rq deps (Some t) E = (r, E')"
  shows "grows E E'" and "r = Inr bc \<Longrightarrow> length (en_nodes E) \<le> bc_head bc \<and> bc_head bc < length (en_nodes E')"
proof -
  consider (same) "E' = E" "\<forall>bc. r \<noteq> Inr bc"
    | (middle) e E1 sk where "buildMiddle rq sk deps t E = (e, E1)" "E' = E1" "\<forall>bc. r \<noteq> Inr bc"
    | (head) e E1 sk l a bc where "buildMiddle rq sk deps t E = (e, E1)" "start_listener l E1 = (a, E')" "r = Inr bc" "bc_head bc = a"
  proof -
    assume a: "E' = E \<Longrightarrow> \<forall>bc. r \<noteq> Inr bc \<Longrightarrow> thesis"
      "\<And>sk e E1. buildMiddle rq sk deps t E = (e, E1) \<Longrightarrow> E' = E1 \<Longrightarrow> \<forall>bc. r \<noteq> Inr bc \<Longrightarrow> thesis"
      "\<And>sk e E1 l a bc. buildMiddle rq sk deps t E = (e, E1) \<Longrightarrow> start_listener l E1 = (a, E') \<Longrightarrow> r = Inr bc \<Longrightarrow> bc_head bc = a \<Longrightarrow> thesis"
    show thesis
      using assms
      by (auto simp: buildForRequest_def Listener_Create_def intro: a split: if_splits option.splits sum.splits prod.splits)
  qed
  then have "grows E E' \<and> (\<forall>bc. r = Inr bc \<longrightarrow> length (en_nodes E) \<le> bc_head bc \<and> bc_head bc < length (en_nodes E'))"
  proof cases
    case (head e E1 sk l a bc)
    have g: "grows E E1" using buildMiddle_grown [of E rq sk deps t] head(1) by (simp add: grown_def)
    have g1: "grows E1 E'" using start_listener_grown [of E1 l] head(2) by (simp add: grown_def)
    have "bc_head bc = length (en_nodes E1)" using start_listener_fresh [of l E1] head(2,4) by simp
    moreover have "length (en_nodes E1) < length (en_nodes E')"
      using head(2) by (auto simp: start_listener_def alloc_def Listener_start_def node_at_def put_node_def Let_def)
    ultimately show ?thesis using head(3) grows_trans [OF g g1] grows_length [OF g] by simp
  next
    case (middle e E1 sk)
    then show ?thesis using buildMiddle_grown [of E rq sk deps t] by (simp add: grown_def)
  qed simp
  then show "grows E E'" and "r = Inr bc \<Longrightarrow> length (en_nodes E) \<le> bc_head bc \<and> bc_head bc < length (en_nodes E')"
    by blast+
qed

section \<open>Calls, tasks and timers\<close>

lemma node_at_put: "node_at (put_node a n E) b = (if b = a \<and> a < length (en_nodes E) then Some n else node_at E b)"
  by (auto simp: node_at_def put_node_def)

lemma keeps_put:
  assumes "\<And>l. node_at E a \<noteq> Some (NListener l)"
  shows "keeps E (put_node a n E)"
  using assms by (auto simp: keeps_def node_at_put) (simp add: put_node_def)+

lemma keeps_outside:
  "en_held E' = en_held E \<Longrightarrow> en_nodes E' = en_nodes E \<Longrightarrow> en_listeners E' = en_listeners E \<Longrightarrow> keeps E E'"
  by (simp add: keeps_def node_at_def registered_def fields_of_def)

lemma keeps_post_all [simp]: "keeps E (post_all cs E)"
  unfolding post_all_def
proof (induction cs arbitrary: E)
  case (Cons c cs)
  have "keeps E (post c E)" by (rule keeps_outside) (simp_all add: post_def)
  then show ?case using Cons [of "post c E"] by (auto intro: keeps_trans)
qed simp

lemma call_node_keeps: "keeps E (snd (call_node pins (a, sv) E))"
proof (cases "node_at E a")
  case None
  then show ?thesis by (simp add: call_node_def)
next
  case (Some n)
  show ?thesis
  proof (cases n)
    case (NGroupSplit g)
    let ?key = "if sv_symbol sv = [] then gs_defaultStreamKey g else sv_symbol sv"
    obtain r E1 where b: "buildOne (gs_child g) ?key (gs_deps g) (gs_downstream g) E = (r, E1)"
      by (cases "buildOne (gs_child g) ?key (gs_deps g) (gs_downstream g) E")
    then have g: "grows E E1" using buildOne_grown [of E "gs_child g" ?key "gs_deps g" "gs_downstream g"] by (simp add: grown_def)
    have "node_at E1 a = Some (NGroupSplit g)"
      using g Some NGroupSplit by (auto simp: grows_def node_at_def nth_append split: if_splits)
    then have "keeps E (put_node a n' E1)" for n' by (intro keeps_trans [OF grows_keeps [OF g] keeps_put]) simp
    moreover have "keeps E E1" using g by (rule grows_keeps)
    ultimately show ?thesis using Some NGroupSplit b
      by (auto simp: call_node_def GroupSplit_onValue_def Let_def simp del: if_split split: option.split sum.split)
  qed (use Some in \<open>auto simp: call_node_def intro!: keeps_put keeps_outside split: prod.split\<close>)
qed

lemma deliver_keeps: "deliver pins cs E = Some (e, E') \<Longrightarrow> keeps E E'"
proof -
  assume d: "deliver pins cs E = Some (e, E')"
  have step: "keeps E E2" if "keeps E E1" "call_node pins c E1 = (r, E2)" for c E1 r E2
    using that call_node_keeps [of E1 pins "fst c" "snd c"] by (auto intro: keeps_trans)
  have "keeps E (snd (e, E'))"
    by (rule drain_keeps [where P = "keeps E", OF d [unfolded deliver_def] step keeps_refl])
  then show "keeps E E'" by simp
qed

lemma run_task_keeps: "run_task E = Some E' \<Longrightarrow> keeps E E'"
proof (cases "en_tasks E")
  case (Cons c cs)
  assume "run_task E = Some E'"
  then obtain e where "deliver [fst c] [c] (E \<lparr> en_tasks := cs \<rparr>) = Some (e, E')" using Cons by (auto simp: run_task_def)
  moreover have "keeps E (E \<lparr> en_tasks := cs \<rparr>)" by (rule keeps_outside) simp_all
  ultimately show ?thesis by (blast intro: keeps_trans dest: deliver_keeps)
qed (simp add: run_task_def)

lemma timer_turn_keeps: "keeps E (timer_turn a E)"
proof -
  have leave: "keeps E (leave_loop a E)" by (rule keeps_outside) (simp_all add: leave_loop_def)
  have put: "keeps E (post_all cs (put_node a n E))" if "node_at E a = Some (NTumblingWindow t)" for cs n t
    using that by (intro keeps_trans [OF keeps_put keeps_post_all]) simp
  show ?thesis by (auto simp: timer_turn_def leave put split: option.split inode.split prod.split)
qed

section \<open>Live listeners\<close>

text \<open>A started listener with its chain \<open>mid\<close>, in the table under its own symbol and field.\<close>

definition live_at :: "Engine \<Rightarrow> addr \<Rightarrow> addr \<Rightarrow> bool" where
  "live_at E a mid \<longleftrightarrow> (\<exists>l. node_at E a = Some (NListener l) \<and> ls_downstream l = Some mid \<and> ls_pool l \<and> ls_dispatcher l \<and>
     \<not> ls_stopping l \<and> a \<in> registered E (ls_symbol l) (ls_field l))"

lemma live_at_keeps: "live_at E a mid \<Longrightarrow> keeps E E' \<Longrightarrow> live_at E' a mid"
  unfolding live_at_def keeps_def by blast

lemma live_head_at: "live_head symbol field mid a E \<Longrightarrow> live_at E a mid"
  by (auto simp: live_head_def live_at_def registered_def)

lemma unregister_frame [simp]:
  "en_held (unregisterListener s f a E) = en_held E" "en_nodes (unregisterListener s f a E) = en_nodes E"
  "en_sent (unregisterListener s f a E) = en_sent E"
  by (auto simp: unregisterListener_def Let_def split: option.split)

lemma node_at_unregister [simp]: "node_at (unregisterListener s f a E) b = node_at E b"
  by (simp add: node_at_def)

text \<open>What the shutdown of a live listener does.\<close>

lemma shutdown_live:
  assumes "live_at E a mid"
  obtains E' l where "shutdown a E = Some E'" "node_at E a = Some (NListener l)"
    "node_at E' a = Some (NListener (l \<lparr> ls_stopping := True, ls_downstream := None \<rparr>))"
    "a \<notin> registered E' (ls_symbol l) (ls_field l)" "en_held E' = en_held E"
    "\<And>b m. b \<noteq> a \<Longrightarrow> live_at E b m \<Longrightarrow> live_at E' b m"
    "\<And>hs. shutdown a (E \<lparr> en_held := hs \<rparr>) = Some (E' \<lparr> en_held := hs \<rparr>)"
proof -
  obtain l where l: "node_at E a = Some (NListener l)" "ls_dispatcher l" "\<not> ls_stopping l"
    using assms by (auto simp: live_at_def)
  have a: "a < length (en_nodes E)" using l(1) by (auto simp: node_at_def split: if_splits)
  let ?n = "NListener (l \<lparr> ls_stopping := True, ls_downstream := None \<rparr>)"
  let ?E = "put_node a ?n (unregisterListener (ls_symbol l) (ls_field l) a E)"
  have sh: "shutdown a E = Some ?E" using l by (simp add: shutdown_def drain_Cons shutdown_node_def Let_def)
  have un: "unregisterListener s f a (E \<lparr> en_held := hs \<rparr>) = (unregisterListener s f a E) \<lparr> en_held := hs \<rparr>" for s f hs
    by (simp add: unregisterListener_def Let_def split: option.split)
  have at: "node_at (E \<lparr> en_held := hs \<rparr>) a = node_at E a" for hs by (simp add: node_at_def)
  have "shutdown a (E \<lparr> en_held := hs \<rparr>) = Some (?E \<lparr> en_held := hs \<rparr>)" for hs
    using l by (simp add: shutdown_def drain_Cons shutdown_node_def Let_def at un put_node_def)
  moreover have "live_at ?E b m" if "b \<noteq> a" "live_at E b m" for b m
    using that by (auto simp: live_at_def node_at_put registered_unregister)
  moreover have "en_held ?E = en_held E" by (simp add: put_node_def)
  ultimately show thesis using l(1) a by (intro that [OF sh]) (auto simp: node_at_put registered_unregister)
qed

end
