(* ===== verification/Client_Session_Inv.thy ===== *)
theory Client_Session_Inv
  imports Client_Session Engine_Growth Engine_Runs
begin

text \<open>
  The invariant of a session. Its write queue: at most one write is outstanding, of the frame at the
  front. Its subscriptions: every key has one head, a listener that is in the dispatcher's table and
  whose chain the session keeps alive; the session holds one shared pointer for each head and for each
  node of a chain.
\<close>

section \<open>Maps as multisets\<close>

lemma mset_delete:
  assumes "distinct (map fst m)"
  shows "mset m = (case map_of m k of None \<Rightarrow> {#} | Some v \<Rightarrow> {#(k, v)#}) + mset (AList.delete k m)"
  using assms
proof (induction m)
  case (Cons p m)
  then show ?case
    by (cases p) (auto simp: delete_notin_dom image_iff split: option.splits dest: map_of_SomeD)
qed simp

lemma mset_update:
  assumes "distinct (map fst m)"
  shows "mset (AList.update k v m) = {#(k, v)#} + mset (AList.delete k m)"
  using mset_delete [of "AList.update k v m" k] assms by (simp add: distinct_update update_conv' delete_update_same)

lemma set_update_eq: "distinct (map fst m) \<Longrightarrow> set (AList.update k v m) = insert (k, v) (set (AList.delete k m))"
  using arg_cong [OF mset_update [of m k v], of set_mset] by simp

definition owns :: "(RequestKey, addr) umap \<Rightarrow> (RequestKey, addr list) umap \<Rightarrow> addr multiset" where
  "owns ac ch = image_mset snd (mset ac) + sum_mset (image_mset (\<lambda>p. mset (snd p)) (mset ch))"

lemma mset_session_held: "mset (session_held s) = owns (cs_active s) (cs_chains s)"
proof -
  have "mset (concat xs) = sum_list (map mset xs)" for xs :: "addr list list" by (induction xs) simp_all
  then show ?thesis by (simp add: session_held_def owns_def sum_mset_sum_list comp_def flip: mset_map)
qed

lemma mset_at_key:
  "(case map_of m k of None \<Rightarrow> {#} | Some v \<Rightarrow> mset v) = mset (at_key k m)"
  by (simp add: at_key_def split: option.split)

lemma owns_delete:
  assumes "distinct (map fst ac)" "distinct (map fst ch)"
  shows "owns ac ch = (case map_of ac k of None \<Rightarrow> {#} | Some a \<Rightarrow> {#a#}) + mset (at_key k ch)
    + owns (AList.delete k ac) (AList.delete k ch)"
  unfolding owns_def
  by (subst mset_delete [OF assms(1), of k], subst mset_delete [OF assms(2), of k])
    (auto simp: at_key_def split: option.split)

lemma owns_update:
  assumes "distinct (map fst ac)" "distinct (map fst ch)"
  shows "owns (AList.update k a ac) (AList.update k as ch)
    = {#a#} + mset as + owns (AList.delete k ac) (AList.delete k ch)"
  by (simp add: owns_def mset_update assms)

lemma mset_release: "mset (en_held (release as E)) = mset (en_held E) - mset as"
proof -
  have "mset (fold remove1 as hs) = mset hs - mset as" for hs by (induction as arbitrary: hs) simp_all
  then show ?thesis by (simp add: release_def)
qed

lemma mset_room: "A + B \<subseteq># C \<Longrightarrow> A \<subseteq># C - B"
  by (simp add: subseteq_mset_def add_le_imp_le_diff)

lemma keys_delete: "fst ` set (AList.delete k m) = fst ` set m - {k}"
  by (force simp: AList.delete_eq)

section \<open>Subscriptions\<close>

definition subs_ok :: "addr multiset \<Rightarrow> (RequestKey, addr) umap \<Rightarrow> (RequestKey, addr list) umap \<Rightarrow> Engine \<Rightarrow> bool" where
  "subs_ok X ac ch E \<longleftrightarrow> graph_ok E \<and> distinct (map fst ac) \<and> distinct (map fst ch) \<and> fst ` set ac = fst ` set ch \<and>
     inj_on snd (set ac) \<and> X + owns ac ch \<subseteq># mset (en_held E) \<and>
     (\<forall>(k, a) \<in> set ac. \<exists>mid \<in> set (at_key k ch). live_at E a mid)"

lemma subs_ok_keeps:
  assumes "subs_ok X ac ch E" "keeps E E'" "graph_ok E'"
  shows "subs_ok X ac ch E'"
  using assms live_at_keeps [OF _ assms(2)] unfolding subs_ok_def by (fastforce simp: keeps_def)

lemma subs_ok_live:
  assumes "subs_ok X ac ch E" "map_of ac k = Some a"
  obtains mid where "mid \<in> set (at_key k ch)" "live_at E a mid"
  using assms map_of_SomeD [OF assms(2)] unfolding subs_ok_def by blast

lemma keeps_held [simp]: "live_at (E \<lparr> en_held := hs \<rparr>) a mid = live_at E a mid"
  by (simp add: live_at_def node_at_def)

lemma live_at_release [simp]: "live_at (release as E) a mid = live_at E a mid"
  by (simp add: release_def)

lemma live_at_bound: "live_at E a mid \<Longrightarrow> a < length (en_nodes E)"
  by (auto simp: live_at_def node_at_def split: if_splits)

lemma graph_ok_release: "graph_ok E \<Longrightarrow> graph_ok (release as E)"
proof -
  assume ok: "graph_ok E"
  have "set (fold remove1 as hs) \<subseteq> set hs" for hs :: "addr list"
  proof (induction as arbitrary: hs)
    case (Cons a as)
    have "set (fold remove1 as (remove1 a hs)) \<subseteq> set (remove1 a hs)" by (rule Cons)
    then show ?case using set_remove1_subset [of a hs] by auto
  qed simp
  moreover have "table_roots (release as E) = table_roots E" by (simp add: release_def table_roots_def)
  ultimately have "set (engine_roots (release as E)) \<subseteq> set (engine_roots E)" by (auto simp: engine_roots_def release_def)
  then show "graph_ok (release as E)" by (intro outside_ok [OF ok]) (auto simp: release_def)
qed

text \<open>The order of the entries of the maps does not matter.\<close>

lemma subs_ok_order:
  assumes "subs_ok X ac ch E" "mset ac = mset ac'" "mset ch = mset ch'"
  shows "subs_ok X ac' ch' E"
proof -
  have sets: "set ac' = set ac" "set ch' = set ch" using assms(2,3) by (metis set_mset_mset)+
  have "mset (map fst ac') = mset (map fst ac)" "mset (map fst ch') = mset (map fst ch)" using assms(2,3) by simp_all
  then have d: "distinct (map fst ac') = distinct (map fst ac)" "distinct (map fst ch') = distinct (map fst ch)"
    by - (rule mset_eq_imp_distinct_iff, assumption)+
  have "map_of ch' k = map_of ch k" for k
    using map_of_eq_Some_iff [of ch k] map_of_eq_Some_iff [of ch' k] assms(1) d(2) sets(2)
    by (metis option.exhaust subs_ok_def)
  then have "at_key k ch' = at_key k ch" for k by (simp add: at_key_def)
  moreover have "owns ac' ch' = owns ac ch" by (simp add: owns_def assms(2,3))
  ultimately show ?thesis using assms(1) by (simp add: subs_ok_def sets d)
qed

text \<open>Taking a key away: its head is shut down and the pointers are given up.\<close>

lemma subs_ok_remove:
  assumes ok: "subs_ok X ac ch E" and k: "map_of ac k = Some a" and sh: "shutdown a E = Some E'"
  shows "subs_ok X (AList.delete k ac) (AList.delete k ch) (release (a # at_key k ch) E')"
proof -
  obtain mid where "live_at E a mid" using subs_ok_live [OF ok k] .
  then obtain l where held: "en_held E' = en_held E" and other: "\<And>b m. b \<noteq> a \<Longrightarrow> live_at E b m \<Longrightarrow> live_at E' b m"
    using shutdown_live [of E a mid] sh by (metis option.inject)
  have g: "graph_ok E'" using shutdown_ends [of E a] live_at_bound ok sh \<open>live_at E a mid\<close> by (auto simp: subs_ok_def)
  have d: "distinct (map fst ac)" "distinct (map fst ch)" using ok by (auto simp: subs_ok_def)
  have own: "owns ac ch = {#a#} + mset (at_key k ch) + owns (AList.delete k ac) (AList.delete k ch)"
    using owns_delete [OF d, of k] k by simp
  have "X + owns ac ch \<subseteq># mset (en_held E)" using ok by (simp add: subs_ok_def)
  then have "X + owns (AList.delete k ac) (AList.delete k ch) \<subseteq># mset (en_held (release (a # at_key k ch) E'))"
    unfolding mset_release held own by (intro mset_room) (simp add: union_ac)
  moreover have "\<exists>mid \<in> set (at_key k' (AList.delete k ch)). live_at (release (a # at_key k ch) E') b mid"
    if "(k', b) \<in> set (AList.delete k ac)" for k' b
  proof -
    have in_ac: "(k', b) \<in> set ac" and ne: "k' \<noteq> k" using that by (auto simp: AList.delete_eq)
    moreover have "inj_on snd (set ac)" using ok by (simp add: subs_ok_def)
    ultimately have "b \<noteq> a" using map_of_SomeD [OF k] by (auto dest: inj_onD [of snd "set ac" "(k', b)" "(k, a)"])
    moreover obtain mid where "mid \<in> set (at_key k' ch)" "live_at E b mid" using ok in_ac by (auto simp: subs_ok_def)
    ultimately show ?thesis using ne other by (auto simp: at_key_def delete_conv')
  qed
  moreover have "inj_on snd (set (AList.delete k ac))"
    using ok by (auto simp: subs_ok_def AList.delete_eq intro: inj_on_subset)
  moreover have "fst ` set (AList.delete k ac) = fst ` set (AList.delete k ch)"
    using ok keys_delete [of k ac] keys_delete [of k ch] by (simp add: subs_ok_def)
  ultimately show ?thesis using g graph_ok_release ok by (auto simp: subs_ok_def distinct_delete)
qed

text \<open>Giving a key a head that is not in use.\<close>

lemma subs_ok_add:
  assumes ok: "subs_ok (X + {#a#} + mset as) ac ch E" and new: "map_of ac k = None"
    and live: "mid \<in> set as" "live_at E a mid" and fresh: "a \<notin> snd ` set ac"
  shows "subs_ok X (AList.update k a ac) (AList.update k as ch) E"
proof -
  have d: "distinct (map fst ac)" "distinct (map fst ch)" using ok by (auto simp: subs_ok_def)
  have k: "k \<notin> fst ` set ac" "k \<notin> fst ` set ch" using new ok by (auto simp: subs_ok_def map_of_eq_None_iff)
  have "AList.delete k ac = ac" "AList.delete k ch = ch" using k by (simp_all add: delete_notin_dom)
  then have own: "owns (AList.update k a ac) (AList.update k as ch) = {#a#} + mset as + owns ac ch"
    using owns_update [OF d, of k a as] by simp
  have sets: "set (AList.update k a ac) = insert (k, a) (set ac)"
    using set_update_eq [OF d(1), of k a] \<open>AList.delete k ac = ac\<close> by simp
  have at: "at_key k' (AList.update k as ch) = (if k' = k then as else at_key k' ch)" for k'
    by (simp add: at_key_def update_conv')
  have "\<exists>mid \<in> set (at_key k' (AList.update k as ch)). live_at E b mid" if "(k', b) \<in> set (AList.update k a ac)" for k' b
  proof (cases "k' = k")
    case True
    then show ?thesis using that k(1) live at unfolding sets by force
  next
    case False
    then have "(k', b) \<in> set ac" using that unfolding sets by simp
    then have "\<exists>mid \<in> set (at_key k' ch). live_at E b mid" using ok unfolding subs_ok_def by blast
    then show ?thesis using at False by simp
  qed
  moreover have "inj_on snd (set (AList.update k a ac))" using ok fresh unfolding sets subs_ok_def by (auto simp: inj_on_insert)
  moreover have "fst ` set (AList.update k a ac) = fst ` set (AList.update k as ch)" using ok by (simp add: subs_ok_def dom_update)
  moreover have "X + owns (AList.update k a ac) (AList.update k as ch) \<subseteq># mset (en_held E)"
    using ok by (simp add: subs_ok_def own add.assoc)
  ultimately show ?thesis using ok by (auto simp: subs_ok_def distinct_update)
qed

section \<open>The session\<close>

definition write_ok :: "ClientSession \<Rightarrow> bool" where
  "write_ok s \<longleftrightarrow> length (cs_outbox s) \<le> MAX_OUTBOX_SIZE \<and> \<not> cs_reqMu s \<and>
     (cs_inflight s \<longrightarrow> cs_outbox s \<noteq> [] \<and> cs_wire s \<noteq> [] \<and> last (cs_wire s) = hd (cs_outbox s)) \<and>
     (cs_open s \<longrightarrow> (cs_writing s \<longleftrightarrow> cs_inflight s) \<and> (cs_outbox s \<noteq> [] \<longrightarrow> cs_inflight s))"

definition session_ok :: "addr multiset \<Rightarrow> session_state \<Rightarrow> bool" where
  "session_ok X S \<longleftrightarrow> (case S of (s, E) \<Rightarrow> write_ok s \<and> subs_ok X (cs_active s) (cs_chains s) E \<and> length (cs_active s) \<le> MAX_SUBSCRIPTIONS)"

text \<open>The frames on the wire and those queued behind the one that is being written.\<close>

definition queued :: "ClientSession \<Rightarrow> json list" where
  "queued s = cs_wire s @ (if cs_inflight s then tl (cs_outbox s) else [])"

text \<open>A result keeps the invariant; with room in the queue it exists and has \<open>n\<close> more frames queued.\<close>

definition fine :: "addr multiset \<Rightarrow> nat \<Rightarrow> session_state \<Rightarrow> session_state option \<Rightarrow> bool" where
  "fine X n S R \<longleftrightarrow> (\<forall>S'. R = Some S' \<longrightarrow> session_ok X S') \<and>
     (cs_open (fst S) \<and> length (cs_outbox (fst S)) + n \<le> MAX_OUTBOX_SIZE \<longrightarrow>
       (\<exists>s' E' fs. R = Some (s', E') \<and> cs_open s' \<and> length (cs_outbox s') = length (cs_outbox (fst S)) + n \<and>
          queued s' = queued (fst S) @ fs \<and> length fs = n))"

lemma fine_Some: "session_ok X S \<Longrightarrow> fine X 0 S (Some S)"
  by (cases S) (simp add: fine_def)

lemma fine_bind:
  assumes "fine X n S R" "\<And>S1. R = Some S1 \<Longrightarrow> session_ok X S1 \<Longrightarrow> fine X m S1 (k S1)"
  shows "fine X (n + m) S (case R of None \<Rightarrow> None | Some S1 \<Rightarrow> k S1)"
proof (cases R)
  case None
  then show ?thesis using assms(1) by (auto simp: fine_def)
next
  case (Some S1)
  then have ok1: "session_ok X S1" using assms(1) by (simp add: fine_def)
  note k = assms(2) [OF Some ok1]
  have "\<exists>s' E' fs. k S1 = Some (s', E') \<and> cs_open s' \<and> length (cs_outbox s') = length (cs_outbox (fst S)) + (n + m) \<and>
      queued s' = queued (fst S) @ fs \<and> length fs = n + m"
    if room: "cs_open (fst S)" "length (cs_outbox (fst S)) + (n + m) \<le> MAX_OUTBOX_SIZE"
  proof -
    obtain fs where 1: "cs_open (fst S1)" "length (cs_outbox (fst S1)) = length (cs_outbox (fst S)) + n"
      "queued (fst S1) = queued (fst S) @ fs" "length fs = n"
      using assms(1) Some room by (auto simp: fine_def)
    then obtain s' E' gs where "k S1 = Some (s', E')" "cs_open s'" "length (cs_outbox s') = length (cs_outbox (fst S1)) + m"
      "queued s' = queued (fst S1) @ gs" "length gs = m"
      using k room by (auto simp: fine_def)
    then show ?thesis using 1 by (auto intro!: exI [of _ "fs @ gs"])
  qed
  then show ?thesis using k Some by (simp add: fine_def)
qed

lemma shutdown_each_ok:
  assumes "graph_ok E" "distinct as" "\<And>a. a \<in> set as \<Longrightarrow> \<exists>mid. live_at E a mid"
  shows "\<exists>E'. shutdown_each as E = Some E' \<and> graph_ok E' \<and> en_held E' = en_held E"
  using assms
proof (induction as arbitrary: E)
  case (Cons a as)
  obtain mid where a: "live_at E a mid" using Cons.prems(3) [of a] by auto
  obtain E1 where E1: "shutdown a E = Some E1" "en_held E1 = en_held E" "\<And>b m. b \<noteq> a \<Longrightarrow> live_at E b m \<Longrightarrow> live_at E1 b m"
    using shutdown_live [OF a] by metis
  have "graph_ok E1" using shutdown_ends [OF Cons.prems(1) live_at_bound [OF a]] E1(1) by auto
  moreover have "\<exists>mid. live_at E1 b mid" if "b \<in> set as" for b
    using Cons.prems(2) Cons.prems(3) [of b] that E1(3) [of b] by auto
  ultimately show ?case using Cons.IH [of E1] Cons.prems(2) E1 by auto
qed simp

lemma close_now_ok:
  assumes "session_ok X S"
  shows "\<exists>S'. close_now S = Some S' \<and> session_ok X S' \<and> \<not> cs_open (fst S')"
proof -
  obtain s E where S: "S = (s, E)" by (cases S)
  have ok: "write_ok s" "subs_ok X (cs_active s) (cs_chains s) E" using assms by (auto simp: session_ok_def S)
  have "distinct (map snd (cs_active s))"
    using ok(2) by (simp add: subs_ok_def distinct_map)
  moreover have "\<exists>mid. live_at E a mid" if a: "a \<in> set (map snd (cs_active s))" for a
  proof -
    obtain k where "(k, a) \<in> set (cs_active s)" using a by auto
    then show ?thesis using ok(2) unfolding subs_ok_def by blast
  qed
  ultimately obtain E1 where E1: "shutdown_each (map snd (cs_active s)) E = Some E1" "graph_ok E1" "en_held E1 = en_held E"
    using shutdown_each_ok [of E "map snd (cs_active s)"] ok(2) by (auto simp: subs_ok_def)
  have "X \<subseteq># mset (en_held (release (session_held s) E1))"
    using ok(2) E1(3) by (auto simp: mset_release mset_session_held subs_ok_def intro: mset_room)
  then have "subs_ok X [] [] (release (session_held s) E1)"
    using E1(2) by (simp add: subs_ok_def owns_def graph_ok_release)
  then show ?thesis using assms ok(1) E1(1) by (auto simp: S close_now_def session_ok_def write_ok_def)
qed

lemma sendText_room:
  assumes "write_ok s" "cs_open s" "length (cs_outbox s) < MAX_OUTBOX_SIZE"
  shows "\<exists>s'. sendText f (s, E) = Some (s', E) \<and> write_ok s' \<and> cs_open s' \<and> cs_active s' = cs_active s \<and>
    cs_chains s' = cs_chains s \<and> length (cs_outbox s') = Suc (length (cs_outbox s)) \<and> queued s' = queued s @ [f]"
proof (cases "cs_inflight s")
  case True
  then show ?thesis using assms by (simp add: sendText_def Let_def write_ok_def queued_def)
next
  case False
  then have "cs_outbox s = []" "\<not> cs_writing s" using assms by (auto simp: write_ok_def)
  then show ?thesis using assms False by (simp add: sendText_def Let_def startWrite_def write_ok_def queued_def)
qed

lemma sendText_fine:
  assumes "session_ok X S"
  shows "fine X 1 S (sendText f S)" and "\<exists>S'. sendText f S = Some S'"
proof -
  obtain s E where S: "S = (s, E)" by (cases S)
  have ok: "write_ok s" using assms by (auto simp: session_ok_def S)
  consider (closed) "\<not> cs_open s" | (full) "cs_open s" "length (cs_outbox s) \<ge> MAX_OUTBOX_SIZE"
    | (room) "cs_open s" "length (cs_outbox s) < MAX_OUTBOX_SIZE" by linarith
  then have "fine X 1 S (sendText f S) \<and> (\<exists>S'. sendText f S = Some S')"
  proof cases
    case closed
    then show ?thesis using assms by (auto simp: fine_def sendText_def S)
  next
    case full
    then have "sendText f S = close_now S" by (simp add: sendText_def S)
    then show ?thesis using close_now_ok [OF assms] full by (auto simp: fine_def S)
  next
    case room
    then obtain s' where "sendText f (s, E) = Some (s', E)" "write_ok s'" "cs_open s'" "cs_active s' = cs_active s"
      "cs_chains s' = cs_chains s" "length (cs_outbox s') = Suc (length (cs_outbox s))" "queued s' = queued s @ [f]"
      using sendText_room [OF ok] by blast
    then show ?thesis using assms by (auto simp: fine_def S session_ok_def)
  qed
  then show "fine X 1 S (sendText f S)" and "\<exists>S'. sendText f S = Some S'" by auto
qed

end
