(* ===== verification/Client_Session_Thms.thy ===== *)
theory Client_Session_Thms
  imports Client_Session_Inv
begin

text \<open>
  The handlers of a session keep its invariant and, as long as there is room in the write queue, return
  with one answer for each request; runs of a session with the engine around it; and what happens when
  the queue is full.
\<close>

section \<open>Subscribing\<close>

lemma subscribe_grown:
  assumes "subscribe session key rq deps E = (r, E')"
  shows "\<exists>E1. keeps E E1 \<and> (case r of Inl _ \<Rightarrow> E' = E1
    | Inr bc \<Rightarrow> E' = E1 \<lparr> en_held := bc_head bc # bc_keepAlive bc @ en_held E \<rparr> \<and> length (en_nodes E) \<le> bc_head bc)"
proof -
  let ?n = "NResponder \<lparr> rs_key = key, rs_send = Some session, rs_stopped = False \<rparr>"
  obtain t E1 where al: "alloc ?n E = (t, E1)" by (cases "alloc ?n E")
  then have g1: "keeps E E1" by (auto simp: alloc_def keeps_def node_at_def nth_append)
  obtain r1 E2 where b: "buildForRequest rq deps (Some t) E1 = (r1, E2)" by (cases "buildForRequest rq deps (Some t) E1")
  note g2 = buildForRequest_grown [OF b]
  have g: "keeps E E2" using keeps_trans [OF g1 grows_keeps [OF g2(1)]] .
  then have "en_held E2 = en_held E" by (simp add: keeps_def)
  moreover have "(r, E') = (case r1 of Inl e \<Rightarrow> (Inl e, E2) | Inr bc \<Rightarrow> (Inr bc, E2 \<lparr> en_held := bc_head bc # bc_keepAlive bc @ en_held E2 \<rparr>))"
    using assms al b by (simp add: subscribe_def split: sum.splits)
  ultimately show ?thesis using g g2(2) g1
    by (intro exI [of _ E2]) (auto simp: keeps_def split: sum.splits)
qed

lemma keeps_held_update: "keeps E E1 \<Longrightarrow> live_at E a mid \<Longrightarrow> live_at (E1 \<lparr> en_held := hs \<rparr>) a mid"
  using live_at_keeps by auto

text \<open>After a request is built, the session does not hold it yet but the engine counts its pointers.\<close>

lemma subscribe_pending:
  assumes ok: "subs_ok X ac ch E" and sub: "subscribe session key rq deps E = (Inr bc, E')"
  obtains mid where "subs_ok (X + {#bc_head bc#} + mset (bc_keepAlive bc)) ac ch E'" "mid \<in> set (bc_keepAlive bc)"
    "live_at E' (bc_head bc) mid" "bc_head bc \<notin> snd ` set ac"
proof -
  obtain E1 where E1: "keeps E E1" "E' = E1 \<lparr> en_held := bc_head bc # bc_keepAlive bc @ en_held E \<rparr>"
    "length (en_nodes E) \<le> bc_head bc"
    using subscribe_grown [OF sub] by auto
  have g: "graph_ok E" using ok by (simp add: subs_ok_def)
  obtain sk fl mid where "mid \<in> set (bc_keepAlive bc)" "live_head sk fl mid (bc_head bc) E'"
    using subscribe_built(2) [OF g sub refl] by blast
  then have live: "mid \<in> set (bc_keepAlive bc)" "live_at E' (bc_head bc) mid" by (simp_all add: live_head_at)
  have old: "\<exists>mid \<in> set (at_key k ch). live_at E' a mid" if "(k, a) \<in> set ac" for k a
  proof -
    obtain m where "m \<in> set (at_key k ch)" "live_at E a m" using ok \<open>(k, a) \<in> set ac\<close> unfolding subs_ok_def by blast
    then show ?thesis using live_at_keeps [OF _ E1(1)] E1(2) by auto
  qed
  have "mset (en_held E') = {#bc_head bc#} + mset (bc_keepAlive bc) + mset (en_held E)" using E1(2) by simp
  then have "subs_ok (X + {#bc_head bc#} + mset (bc_keepAlive bc)) ac ch E'"
    using subscribe_built(1) [OF g sub] ok old by (auto simp: subs_ok_def union_ac)
  moreover have "a < length (en_nodes E)" if a: "a \<in> snd ` set ac" for a
  proof -
    obtain k where "(k, a) \<in> set ac" using a by auto
    then obtain m where "live_at E a m" using ok unfolding subs_ok_def by blast
    then show ?thesis by (rule live_at_bound)
  qed
  then have "bc_head bc \<notin> snd ` set ac" using E1(3) by fastforce
  ultimately show thesis using live that by blast
qed

lemma release_release: "release as (release bs E) = release (bs @ as) E"
  by (simp add: release_def)

lemma at_key_absent: "k \<notin> fst ` set m \<Longrightarrow> at_key k m = []"
  by (simp add: at_key_def map_of_eq_None_iff [THEN iffD2])

lemma install_ok:
  assumes ok: "subs_ok (X + {#bc_head bc#} + mset (bc_keepAlive bc)) (cs_active s) (cs_chains s) E"
    and live: "mid \<in> set (bc_keepAlive bc)" "live_at E (bc_head bc) mid" and fresh: "bc_head bc \<notin> snd ` set (cs_active s)"
  shows "\<exists>E'. install key bc (s, E) = Some (s \<lparr> cs_active := AList.update key (bc_head bc) (cs_active s),
      cs_chains := AList.update key (bc_keepAlive bc) (cs_chains s) \<rparr>, E') \<and>
    subs_ok X (AList.update key (bc_head bc) (cs_active s)) (AList.update key (bc_keepAlive bc) (cs_chains s)) E'"
proof (cases "map_of (cs_active s) key")
  case None
  have "key \<notin> fst ` set (cs_chains s)" using None ok by (auto simp: subs_ok_def map_of_eq_None_iff)
  then have "at_key key (cs_chains s) = []" by (rule at_key_absent)
  then show ?thesis using None subs_ok_add [OF ok None live fresh] by (simp add: install_def release_def)
next
  case (Some old)
  obtain m where old: "live_at E old m" using subs_ok_live [OF ok Some] .
  have ne: "bc_head bc \<noteq> old" using fresh map_of_SomeD [OF Some] by force
  obtain E1 where E1: "shutdown old E = Some E1" "\<And>b m. b \<noteq> old \<Longrightarrow> live_at E b m \<Longrightarrow> live_at E1 b m"
    using shutdown_live [OF old] by metis
  let ?E = "release (old # at_key key (cs_chains s)) E1"
  let ?ac = "AList.delete key (cs_active s)" and ?ch = "AList.delete key (cs_chains s)"
  have "subs_ok (X + {#bc_head bc#} + mset (bc_keepAlive bc)) ?ac ?ch ?E" by (rule subs_ok_remove [OF ok Some E1(1)])
  moreover have "live_at ?E (bc_head bc) mid" using E1(2) [OF ne live(2)] by simp
  moreover have "map_of ?ac key = None" by (simp add: delete_conv')
  moreover have "bc_head bc \<notin> snd ` set ?ac" using fresh by (auto simp: AList.delete_eq)
  ultimately have "subs_ok X (AList.update key (bc_head bc) ?ac) (AList.update key (bc_keepAlive bc) ?ch) ?E"
    using live(1) by (intro subs_ok_add) auto
  then have "subs_ok X (AList.update key (bc_head bc) (cs_active s)) (AList.update key (bc_keepAlive bc) (cs_chains s)) ?E"
    by (rule subs_ok_order) (use ok in \<open>simp_all add: subs_ok_def mset_update distinct_delete delete_idem\<close>)
  then show ?thesis using Some E1(1) by (simp add: install_def)
qed

text \<open>The frame that is sent while the mutex is held.\<close>

lemma sendText_locked:
  assumes "\<not> cs_reqMu s"
  shows "map_option (\<lambda>(s1, E1). (s1 \<lparr> cs_reqMu := False \<rparr>, E1)) (sendText f (s \<lparr> cs_reqMu := True \<rparr>, E))
    = (if cs_open s \<and> length (cs_outbox s) \<ge> MAX_OUTBOX_SIZE then None else sendText f (s, E))"
  using assms
  by (cases s) (auto simp: sendText_def close_now_def startWrite_def Let_def split: list.split)

lemma fine_locked: "session_ok X (s, E) \<Longrightarrow> fine X 1 (s, E)
    (map_option (\<lambda>(s1, E1). (s1 \<lparr> cs_reqMu := False \<rparr>, E1)) (sendText f (s \<lparr> cs_reqMu := True \<rparr>, E)))"
  using sendText_fine(1) [of X "(s, E)" f] by (simp add: sendText_locked session_ok_def write_ok_def fine_def)

lemma fine_start: "session_ok X (s1, E1) \<Longrightarrow> cs_open s1 = cs_open s \<Longrightarrow> cs_outbox s1 = cs_outbox s \<Longrightarrow> queued s1 = queued s \<Longrightarrow>
    fine X n (s1, E1) R \<Longrightarrow> fine X n (s, E) R"
  by (simp add: fine_def)

lemma subscribe_one_fine:
  assumes ok: "session_ok X S"
  shows "fine X 1 S (subscribe_one exec r S)"
proof -
  obtain s E where S: "S = (s, E)" by (cases S)
  have s_ok: "write_ok s" "subs_ok X (cs_active s) (cs_chains s) E" "length (cs_active s) \<le> MAX_SUBSCRIPTIONS"
    using ok by (auto simp: session_ok_def S)
  have err: "fine X 1 (s, E) (sendError p m (s, E))" for p m using sendText_fine(1) [OF ok] by (simp add: sendError_def S)
  show ?thesis
  proof (cases "request_head r")
    case (Inl m)
    then show ?thesis using err by (simp add: subscribe_one_def S)
  next
    case (Inr q)
    obtain key sk fl where q: "q = (key, sk, fl)" by (cases q)
    consider (invalid) e where "validateSpec r = Some e"
      | (full) "validateSpec r = None" "map_of (cs_active s) key = None" "length (cs_active s) \<ge> MAX_SUBSCRIPTIONS"
      | (build) "validateSpec r = None" "map_of (cs_active s) key \<noteq> None \<or> length (cs_active s) < MAX_SUBSCRIPTIONS"
      by (meson not_le not_None_eq option.exhaust)
    then show ?thesis
    proof cases
      case invalid
      then show ?thesis using err Inr q by (simp add: subscribe_one_def S)
    next
      case full
      then show ?thesis using fine_locked [of X s E] ok Inr q by (simp add: subscribe_one_def S sendError_def)
    next
      case build
      define rq where "rq = request_spec sk fl r"
      define deps where "deps = \<lparr> dp_store = fst exec, dp_pool = snd exec, dp_dispatcher = True \<rparr>"
      obtain res E1 where sub: "subscribe (cs_self s) key rq deps E = (res, E1)" by (cases "subscribe (cs_self s) key rq deps E")
      have one: "subscribe_one exec r S = (case res of
          Inl m \<Rightarrow> sendError ''build'' m (s, E1)
        | Inr bc \<Rightarrow> (case install key bc (s, E1) of None \<Rightarrow> None | Some S2 \<Rightarrow> sendText (ack_frame ''subscribed'' key) S2))"
        using build Inr q sub by (auto simp: subscribe_one_def S rq_def deps_def split: sum.split)
      show ?thesis
      proof (cases res)
        case (Inl m)
        then have "keeps E E1" using subscribe_grown [OF sub] by auto
        moreover have "graph_ok E1" using s_ok(2) subscribe_built(1) [OF _ sub] by (simp add: subs_ok_def)
        ultimately have "subs_ok X (cs_active s) (cs_chains s) E1" by (rule subs_ok_keeps [OF s_ok(2)])
        then have ok1: "session_ok X (s, E1)" using s_ok by (simp add: session_ok_def)
        have "fine X 1 (s, E) (sendText f (s, E1))" for f by (rule fine_start [OF ok1 refl refl refl sendText_fine(1) [OF ok1]])
        then show ?thesis using one Inl by (simp add: S sendError_def)
      next
        case (Inr bc)
        obtain mid where p: "subs_ok (X + {#bc_head bc#} + mset (bc_keepAlive bc)) (cs_active s) (cs_chains s) E1"
          "mid \<in> set (bc_keepAlive bc)" "live_at E1 (bc_head bc) mid" "bc_head bc \<notin> snd ` set (cs_active s)"
          using subscribe_pending [OF s_ok(2) sub [unfolded Inr]] .
        define s2 where "s2 = s \<lparr> cs_active := AList.update key (bc_head bc) (cs_active s),
          cs_chains := AList.update key (bc_keepAlive bc) (cs_chains s) \<rparr>"
        obtain E2 where i: "install key bc (s, E1) = Some (s2, E2)" "subs_ok X (cs_active s2) (cs_chains s2) E2"
          using install_ok [OF p] by (auto simp: s2_def)
        have "length (cs_active s2) \<le> MAX_SUBSCRIPTIONS"
        proof (cases "map_of (cs_active s) key")
          case None
          then show ?thesis using build(2) by (simp add: s2_def length_update_new)
        next
          case (Some a)
          then show ?thesis using s_ok(3) by (simp add: s2_def length_update_old)
        qed
        then have "session_ok X (s2, E2)" using i(2) s_ok(1) by (simp add: session_ok_def write_ok_def s2_def)
        then have "fine X 1 (s, E) (sendText (ack_frame ''subscribed'' key) (s2, E2))"
          by (intro fine_start [OF _ _ _ _ sendText_fine(1)]) (auto simp: s2_def queued_def)
        then show ?thesis using one Inr i(1) by (simp add: S)
      qed
    qed
  qed
qed

lemma subscribe_all_fine: "session_ok X S \<Longrightarrow> fine X (length rs) S (subscribe_all exec rs S)"
proof (induction rs arbitrary: S)
  case (Cons r rs)
  have "fine X (1 + length rs) S (case subscribe_one exec r S of None \<Rightarrow> None | Some S1 \<Rightarrow> subscribe_all exec rs S1)"
    using subscribe_one_fine [OF Cons.prems] Cons.IH by (rule fine_bind)
  then show ?case by simp
qed (simp add: fine_Some)

end
