(* ===== verification/Ieee_Bounds.thy ===== *)
theory Ieee_Bounds
  imports Ieee_Double
begin

text \<open>
  Bounds on the results of double arithmetic that the components share: rounding is monotone, so a value between two
  representable numbers stays between them.
\<close>

section \<open>Doubles in a range\<close>

definition in_range :: "int \<Rightarrow> double \<Rightarrow> bool" where
  "in_range n d \<longleftrightarrow> isfinite d \<and> 0 \<le> dval d \<and> dval d \<le> of_int n"

lemma rnd_between_ints: "0 \<le> x \<Longrightarrow> x \<le> of_int n \<Longrightarrow> n < 2 ^ 53 \<Longrightarrow> 0 \<le> rnd x \<and> rnd x \<le> of_int n"
proof -
  assume a: "0 \<le> x" "x \<le> of_int n" "n < 2 ^ 53"
  then have "0 \<le> n" by linarith
  then show ?thesis using a rnd.between [of 0 "of_int n" x] representable_int [of n] rnd.exact_0 by auto
qed

lemma round_in_range: "0 \<le> x \<Longrightarrow> x \<le> of_int n \<Longrightarrow> n < 2 ^ 53 \<Longrightarrow> in_range n (round_double z x)"
proof -
  assume a: "0 \<le> x" "x \<le> of_int n" "n < 2 ^ 53"
  note r = rnd_between_ints [OF a]
  have "rnd x < 2 ^ 1024"
  proof -
    have "(of_int n :: rat) \<le> of_int (2 ^ 53)" using a(3) by (simp only: of_int_le_iff)
    then have "rnd x \<le> 2 ^ 53" using r by simp
    also have "(2 :: rat) ^ 53 < 2 ^ 1024" by (rule power_strict_increasing) auto
    finally show ?thesis .
  qed
  then show ?thesis using r a(1,2) by (auto simp: in_range_def round_double_def Let_def isfinite_def)
qed

lemma double_of_small: "0 < n \<Longrightarrow> n < 2 ^ 53 \<Longrightarrow> double_of_int n = DFin (of_int n)"
proof -
  assume n: "0 < n" "n < 2 ^ 53"
  have "rnd (of_int n) = of_int n" using n by (intro rnd_exact representable_int) auto
  moreover have "(of_int n :: rat) < of_int (2 ^ 1024)" using n(2) by (simp only: of_int_less_iff) simp
  ultimately show ?thesis using n(1) by (auto simp: double_of_int_def round_double_def Let_def)
qed

text \<open>What may be added to the bucket: nothing, a positive number, or infinity.\<close>

definition nonneg :: "double \<Rightarrow> bool" where
  "nonneg d \<longleftrightarrow> d = DInf False \<or> isfinite d \<and> 0 \<le> dval d"

lemma round_nonneg: "0 \<le> x \<Longrightarrow> nonneg (round_double z x)"
  using rnd.nonneg [of x] by (auto simp: nonneg_def round_double_def Let_def isfinite_def)

lemma nonneg_cases:
  assumes "nonneg d"
  obtains "d = DInf False" | z where "d = DZero z" | r where "d = DFin r" "0 \<le> r"
  using assms that by (cases d) (auto simp: nonneg_def isfinite_def)

lemma nonneg_simps [simp]: "nonneg (DInf False)" "nonneg (DZero z)" "nonneg (DFin r) \<longleftrightarrow> 0 \<le> r"
  by (simp_all add: nonneg_def isfinite_def)

lemma dadd_nonneg: "nonneg x \<Longrightarrow> nonneg y \<Longrightarrow> nonneg (dadd x y)"
  by (elim nonneg_cases) (simp_all add: round_nonneg)

lemma scale_nonneg: "nonneg x \<Longrightarrow> 0 < r \<Longrightarrow> nonneg (dmul x (DFin r))" "nonneg x \<Longrightarrow> 0 < r \<Longrightarrow> nonneg (ddiv x (DFin r))"
  by (elim nonneg_cases; simp add: round_nonneg)+

lemmas nonneg_ops = dadd_nonneg scale_nonneg

section \<open>Finite results\<close>

lemma round_finite: "\<bar>rnd x\<bar> < 2 ^ 1024 \<Longrightarrow> isfinite (round_double z x) \<and> dval (round_double z x) = rnd x"
  by (auto simp: round_double_def Let_def isfinite_def)

lemma finite_cases:
  assumes "isfinite d"
  obtains z where "d = DZero z" | r where "d = DFin r"
  using assms that by (cases d) (auto simp: isfinite_def)

lemma dadd_finite:
  assumes "isfinite x" "isfinite y"
  obtains z where "dadd x y = round_double z (dval x + dval y)"
proof -
  have "\<exists>z. dadd x y = round_double z (dval x + dval y)"
    using assms by (elim finite_cases) (auto simp: round_double_def Let_def)
  then show ?thesis using that by blast
qed

lemma rnd_abs_le: "\<bar>x\<bar> \<le> y \<Longrightarrow> \<bar>rnd x\<bar> \<le> rnd y"
  using rnd_mono [of x y] rnd_mono [of "- y" x] by (simp add: rnd_uminus abs_le_iff)

lemma dsub_finite:
  assumes "isfinite x" "isfinite y"
  obtains z where "dsub x y = round_double z (dval x - dval y)"
proof -
  have "\<exists>z. dsub x y = round_double z (dval x - dval y)"
    using assms by (elim finite_cases) (auto simp: dsub_def round_double_def Let_def)
  then show ?thesis using that by blast
qed

lemma dle_zero: "isfinite t \<Longrightarrow> dle t (DZero False) \<longleftrightarrow> dval t \<le> 0"
  by (elim finite_cases) (auto simp: dle_def)

end
