(* ===== verification/Rate_Limit.thy ===== *)
theory Rate_Limit
  imports Client_Session Ieee_Bounds
begin

text \<open>
  The token bucket of a session (\<^verbatim>\<open>ClientSession::rateLimitCheck\<close>) on IEEE doubles: rounding never
  lets the bucket overflow or go below zero, so the burst is bounded.
\<close>

section \<open>The bucket\<close>

lemma rate_constants:
  "RATE_LIMIT_BURST = DFin 20" "RATE_LIMIT_PER_SEC = DFin 5" "double_of_int 1 = DFin 1" "double_of_int 1000000000 = DFin 1000000000"
  by (simp_all add: RATE_LIMIT_BURST_def RATE_LIMIT_PER_SEC_def double_of_small)

text \<open>The tokens after the refill, and the check in terms of them.\<close>

definition refill :: "int \<Rightarrow> ClientSession \<Rightarrow> double" where
  "refill now s = (let r = dadd (cs_rateTokens s) (dmul (ddiv (double_of_int (now - cs_rateLastRefill s)) (DFin 1000000000)) (DFin 5))
     in if dlt r (DFin 20) then r else DFin 20)"

lemma rateLimitCheck_refill:
  "rateLimitCheck now s = (let t = refill now s; s1 = s \<lparr> cs_rateLastRefill := now, cs_rateTokens := t \<rparr>
     in if dlt t (DFin 1) then (False, s1) else (True, s1 \<lparr> cs_rateTokens := dsub t (DFin 1) \<rparr>))"
  unfolding rateLimitCheck_def refill_def rate_constants Let_def ..

lemma refill_in_range:
  assumes "nonneg r" "t = (if dlt r (DFin 20) then r else DFin 20)"
  shows "in_range 20 t"
  using assms by (cases r) (auto simp: nonneg_def in_range_def isfinite_def)

lemma spend:
  assumes "in_range n t" "n < 2 ^ 53" "\<not> dlt t (DFin 1)"
  shows "1 \<le> n \<and> in_range (n - 1) (dsub t (DFin 1))"
proof (cases t)
  case (DFin x)
  then have x: "1 \<le> x" "x \<le> of_int n" using assms by (auto simp: in_range_def)
  then have "1 \<le> n" using order_trans [of 1 x "of_int n"] by simp
  moreover have "in_range (n - 1) (round_double False (x - 1))" using x assms(2) by (intro round_in_range) auto
  ultimately show ?thesis by (simp add: DFin dsub_def)
qed (use assms in \<open>auto simp: in_range_def isfinite_def\<close>)

definition rate_ok :: "ClientSession \<Rightarrow> bool" where
  "rate_ok s \<longleftrightarrow> in_range 20 (cs_rateTokens s)"

text \<open>One check: the bucket stays in its range, and an accepted request costs a token.\<close>

lemma refill_range: "rate_ok s \<Longrightarrow> cs_rateLastRefill s \<le> now \<Longrightarrow> in_range 20 (refill now s)"
proof -
  assume a: "rate_ok s" "cs_rateLastRefill s \<le> now"
  have "nonneg (double_of_int (now - cs_rateLastRefill s))" unfolding double_of_int_def using a(2) by (intro round_nonneg) simp
  moreover have "nonneg (cs_rateTokens s)" using a(1) by (auto simp: rate_ok_def in_range_def nonneg_def)
  ultimately have "nonneg (dadd (cs_rateTokens s) (dmul (ddiv (double_of_int (now - cs_rateLastRefill s)) (DFin 1000000000)) (DFin 5)))"
    by (intro nonneg_ops) auto
  then show ?thesis by (rule refill_in_range) (simp add: refill_def Let_def)
qed

lemma in_range_mono: "in_range m d \<Longrightarrow> m \<le> n \<Longrightarrow> in_range n d"
  unfolding in_range_def by (meson of_int_le_iff order_trans)

lemma rateLimitCheck_spend:
  assumes "in_range n (refill now s)" "n \<le> 20" "rateLimitCheck now s = (b, s')"
  shows "cs_rateLastRefill s' = now \<and> (if b then 1 \<le> n \<and> in_range (n - 1) (cs_rateTokens s') else in_range n (cs_rateTokens s'))"
  using assms spend [OF assms(1)] by (auto simp: rateLimitCheck_refill Let_def split: if_splits)

lemma rateLimitCheck_range:
  assumes "rate_ok s" "cs_rateLastRefill s \<le> now" "rateLimitCheck now s = (b, s')"
  shows "rate_ok s' \<and> cs_rateLastRefill s' = now \<and> (b \<longrightarrow> in_range 19 (cs_rateTokens s'))"
  using rateLimitCheck_spend [OF refill_range [OF assms(1,2)] order_refl assms(3)]
  by (auto simp: rate_ok_def intro: in_range_mono split: if_splits)

lemma rateLimitCheck_same_instant:
  assumes "in_range n (cs_rateTokens s)" "n \<le> 20" "cs_rateLastRefill s = now" "rateLimitCheck now s = (b, s')"
  shows "cs_rateLastRefill s' = now \<and> (if b then 1 \<le> n \<and> in_range (n - 1) (cs_rateTokens s') else in_range n (cs_rateTokens s'))"
proof -
  have z: "dmul (ddiv (double_of_int 0) (DFin 1000000000)) (DFin 5) = DZero False"
    by (simp add: double_of_int_def [of 0] round_double_def)
  have r: "in_range n (dadd (cs_rateTokens s) (DZero False))"
  proof (cases "cs_rateTokens s")
    case (DFin x)
    then show ?thesis using assms(1,2) round_in_range [of x n] by (simp add: in_range_def)
  qed (use assms(1) in \<open>auto simp: in_range_def isfinite_def\<close>)
  have "refill now s = dadd (cs_rateTokens s) (DZero False) \<or> refill now s = DFin 20 \<and> \<not> dlt (dadd (cs_rateTokens s) (DZero False)) (DFin 20)"
    using assms(3) z by (simp add: refill_def Let_def)
  then have "in_range n (refill now s)"
    using r assms(2) by (cases "dadd (cs_rateTokens s) (DZero False)") (auto simp: in_range_def isfinite_def)
  then show ?thesis by (rule rateLimitCheck_spend [OF _ assms(2,4)])
qed

text \<open>Checks one after the other, with the number of those that were accepted.\<close>

fun run_checks :: "int list \<Rightarrow> ClientSession \<Rightarrow> nat \<times> ClientSession" where
  "run_checks [] s = (0, s)"
| "run_checks (now # nows) s = (case rateLimitCheck now s of (b, s1) \<Rightarrow>
     (case run_checks nows s1 of (n, s2) \<Rightarrow> ((if b then 1 else 0) + n, s2)))"

lemma run_checks_same_instant:
  "in_range n (cs_rateTokens s) \<Longrightarrow> n \<le> 20 \<Longrightarrow> cs_rateLastRefill s = now \<Longrightarrow> 0 \<le> n \<Longrightarrow>
     int (fst (run_checks (replicate k now) s)) \<le> n"
proof (induction k arbitrary: n s)
  case (Suc k)
  obtain b s1 where r: "rateLimitCheck now s = (b, s1)" by (cases "rateLimitCheck now s")
  note c = rateLimitCheck_same_instant [OF Suc.prems(1,2,3) r]
  show ?case using c Suc.IH [of "if b then n - 1 else n" s1] Suc.prems r by (auto simp: case_prod_unfold split: if_splits)
qed simp

lemma run_checks_ok:
  "rate_ok s \<Longrightarrow> sorted (cs_rateLastRefill s # nows) \<Longrightarrow>
     rate_ok (snd (run_checks nows s)) \<and> cs_rateLastRefill (snd (run_checks nows s)) = last (cs_rateLastRefill s # nows)"
proof (induction nows arbitrary: s)
  case (Cons now nows)
  obtain b s1 where r: "rateLimitCheck now s = (b, s1)" by (cases "rateLimitCheck now s")
  have "rate_ok s1 \<and> cs_rateLastRefill s1 = now" using rateLimitCheck_range [OF Cons.prems(1) _ r] Cons.prems(2) by simp
  then show ?case using Cons.IH [of s1] Cons.prems(2) r by (simp add: case_prod_unfold)
qed simp

text \<open>C23. The rate limiter bounds bursts: whatever subscriptions a session has checked before, at whatever
  (non-decreasing) times, of any number of checks made at one later instant at most 20 are accepted, and
  the number of tokens stays between 0 and 20; no rounding error of the refills adds up to an extra
  request.\<close>

theorem rate_limit_burst:
  assumes "sorted (now0 # nows @ [now])"
  shows "let s = snd (run_checks nows (ClientSession_new self server exec dispatcher now0))
    in 0 \<le> dval (cs_rateTokens s) \<and> dval (cs_rateTokens s) \<le> 20 \<and> fst (run_checks (replicate k now) s) \<le> 20"
proof -
  let ?s0 = "ClientSession_new self server exec dispatcher now0"
  define s where "s = snd (run_checks nows ?s0)"
  have s0: "rate_ok ?s0" "cs_rateLastRefill ?s0 = now0"
    by (simp_all add: rate_ok_def ClientSession_new_def in_range_def isfinite_def rate_constants)
  have "sorted (now0 # nows)" using assms by (simp add: sorted_append)
  then have s: "rate_ok s" "cs_rateLastRefill s = last (now0 # nows)"
    using run_checks_ok [OF s0(1), of nows] s0(2) by (auto simp: s_def)
  have "last (now0 # nows) \<le> now" using assms by (cases "nows = []") (auto simp: sorted_append)
  then have le: "cs_rateLastRefill s \<le> now" using s(2) by simp
  have "fst (run_checks (replicate k now) s) \<le> 20"
  proof (cases k)
    case (Suc j)
    obtain b s1 where r: "rateLimitCheck now s = (b, s1)" by (cases "rateLimitCheck now s")
    note c = rateLimitCheck_range [OF s(1) le r]
    have "int (fst (run_checks (replicate j now) s1)) \<le> (if b then 19 else 20)"
      using c by (intro run_checks_same_instant) (auto simp: rate_ok_def)
    then show ?thesis using r Suc by (auto simp: case_prod_unfold split: if_splits)
  qed simp
  then show ?thesis using s(1) unfolding s_def [symmetric] Let_def by (simp add: rate_ok_def in_range_def)
qed

theorem rate_limit_burst_witness:
  "fst (run_checks (replicate 25 2000000000) (snd (run_checks [0, 1000000000]
     (ClientSession_new 1 True (Some (True, True)) True 0)))) \<le> 20"
  using rate_limit_burst [of 0 "[0, 1000000000]" 2000000000 1 True "Some (True, True)" True 25] by (simp add: Let_def)

end
