(* ===== verification/Client_Session_Runs.thy ===== *)
theory Client_Session_Runs
  imports Client_Session_Thms Rate_Limit
begin

text \<open>
  The other handlers of a session, and its runs with the engine around it: messages arrive, writes
  complete, responders send updates from other threads, tasks and timers run.
\<close>

section \<open>Cancelling\<close>

lemma fold_remove1_commute: "fold remove1 as (remove1 a hs) = remove1 a (fold remove1 as hs)"
proof (induction as arbitrary: hs)
  case (Cons b as)
  have "remove1 b (remove1 a hs) = remove1 a (remove1 b hs)" by (rule remove1_commute)
  then show ?case using Cons [of "remove1 b hs"] by simp
qed simp

lemma cancel_one_head:
  assumes ok: "session_ok X (s, E)" and key: "map_of (cs_active s) key = Some a"
  obtains E' l where "node_at E a = Some (NListener l)" "\<not> ls_stopping l" "a \<in> registered E (ls_symbol l) (ls_field l)"
    "node_at E' a = Some (NListener (l \<lparr> ls_stopping := True, ls_downstream := None \<rparr>))"
    "a \<notin> registered E' (ls_symbol l) (ls_field l)"
    "cancel_one key (s, E) = sendText (ack_frame ''canceled'' key)
       (s \<lparr> cs_active := AList.delete key (cs_active s), cs_chains := AList.delete key (cs_chains s) \<rparr>, E')"
    "subs_ok X (AList.delete key (cs_active s)) (AList.delete key (cs_chains s)) E'"
proof -
  let ?as = "at_key key (cs_chains s)"
  have sub: "subs_ok X (cs_active s) (cs_chains s) E" using ok by (simp add: session_ok_def)
  obtain mid where live: "live_at E a mid" using subs_ok_live [OF sub key] .
  obtain E1 l where E1: "shutdown a E = Some E1" "node_at E a = Some (NListener l)"
    "node_at E1 a = Some (NListener (l \<lparr> ls_stopping := True, ls_downstream := None \<rparr>))"
    "a \<notin> registered E1 (ls_symbol l) (ls_field l)" "en_held E1 = en_held E"
    "\<And>hs. shutdown a (E \<lparr> en_held := hs \<rparr>) = Some (E1 \<lparr> en_held := hs \<rparr>)"
    using shutdown_live [OF live] by metis
  let ?E = "release (a # ?as) E1"
  have "shutdown a (release ?as E) = Some (release ?as E1)" using E1(5,6) by (simp add: release_def)
  moreover have "release [a] (release ?as E1) = ?E" by (simp add: release_def fold_remove1_commute)
  ultimately have "cancel_one key (s, E) = sendText (ack_frame ''canceled'' key)
      (s \<lparr> cs_active := AList.delete key (cs_active s), cs_chains := AList.delete key (cs_chains s) \<rparr>, ?E)"
    using key by (simp add: cancel_one_def)
  moreover have "node_at ?E a = node_at E1 a" "registered ?E s' f = registered E1 s' f" for s' f
    by (simp_all add: release_def node_at_def)
  moreover have "\<not> ls_stopping l" "a \<in> registered E (ls_symbol l) (ls_field l)" using live E1(2) by (auto simp: live_at_def)
  ultimately show thesis using that [OF E1(2)] E1(3,4) subs_ok_remove [OF sub key E1(1)] by simp
qed

lemma length_delete: "length (AList.delete k m) \<le> length m"
  by (simp add: AList.delete_eq)

lemma cancel_one_fine:
  assumes ok: "session_ok X S"
  shows "fine X 1 S (cancel_one key S)"
proof -
  obtain s E where S: "S = (s, E)" by (cases S)
  have s_ok: "write_ok s" "subs_ok X (cs_active s) (cs_chains s) E" "length (cs_active s) \<le> MAX_SUBSCRIPTIONS"
    using ok by (auto simp: session_ok_def S)
  define s1 where "s1 = s \<lparr> cs_active := AList.delete key (cs_active s), cs_chains := AList.delete key (cs_chains s) \<rparr>"
  obtain E2 where E2: "cancel_one key S = sendText (ack_frame ''canceled'' key) (s1, E2)" "subs_ok X (cs_active s1) (cs_chains s1) E2"
  proof (cases "map_of (cs_active s) key")
    case None
    then have k: "key \<notin> fst ` set (cs_active s)" "key \<notin> fst ` set (cs_chains s)"
      using s_ok(2) by (auto simp: subs_ok_def map_of_eq_None_iff)
    then have "cancel_one key S = sendText (ack_frame ''canceled'' key) (s1, E)"
      using None at_key_absent [OF k(2)] by (simp add: cancel_one_def S s1_def release_def)
    moreover have "subs_ok X (cs_active s1) (cs_chains s1) E" using s_ok(2) k by (simp add: s1_def delete_notin_dom)
    ultimately show thesis using that by blast
  next
    case (Some a)
    show thesis using that by (rule cancel_one_head [OF ok [unfolded S] Some]) (simp_all add: S s1_def)
  qed
  have "length (cs_active s1) \<le> MAX_SUBSCRIPTIONS"
    using s_ok(3) length_delete [of key "cs_active s"] by (simp add: s1_def)
  then have ok1: "session_ok X (s1, E2)" using E2(2) s_ok(1) by (simp add: session_ok_def write_ok_def s1_def)
  have "fine X 1 (s, E) (sendText (ack_frame ''canceled'' key) (s1, E2))"
    by (rule fine_start [OF ok1 _ _ _ sendText_fine(1) [OF ok1]]) (simp_all add: s1_def queued_def)
  then show ?thesis using E2(1) by (simp add: S)
qed

lemma cancel_all_fine: "session_ok X S \<Longrightarrow> fine X (length ks) S (cancel_all ks S)"
proof (induction ks arbitrary: S)
  case (Cons k ks)
  have "fine X (1 + length ks) S (case cancel_one k S of None \<Rightarrow> None | Some S1 \<Rightarrow> cancel_all ks S1)"
    using cancel_one_fine [OF Cons.prems] Cons.IH by (rule fine_bind)
  then show ?case by simp
qed (simp add: fine_Some)

text \<open>Every element of the array is answered: a wrong one at once, a key when it is cancelled.\<close>

lemma collect_fine:
  "session_ok X S \<Longrightarrow> fine X (length (filter (\<lambda>v. get v = None) vs)) S (map_option snd (collect get m vs S))"
proof (induction vs arbitrary: S)
  case (Cons v vs)
  show ?case
  proof (cases "get v")
    case None
    have "fine X (1 + length (filter (\<lambda>v. get v = None) vs)) S
        (case sendError ''cancel'' m S of None \<Rightarrow> None | Some S1 \<Rightarrow> map_option snd (collect get m vs S1))"
      unfolding sendError_def using sendText_fine(1) [OF Cons.prems] Cons.IH by (rule fine_bind)
    then show ?thesis using None by (cases "sendError ''cancel'' m S") simp_all
  next
    case (Some k)
    then show ?thesis using Cons.IH [OF Cons.prems] by (simp add: option.map_comp comp_def case_prod_unfold)
  qed
qed (simp add: fine_Some)

lemma collect_keys: "collect get m vs S = Some (keys, S1) \<Longrightarrow> length keys = length (filter (\<lambda>v. get v \<noteq> None) vs)"
  by (induction vs arbitrary: S keys) (auto split: option.splits)

lemma collect_cancel_fine:
  assumes ok: "session_ok X S"
  shows "fine X (length vs) S (case collect get m vs S of None \<Rightarrow> None | Some (keys, S1) \<Rightarrow> cancel_all keys S1)"
proof -
  let ?bad = "length (filter (\<lambda>v. get v = None) vs)" and ?good = "length (filter (\<lambda>v. get v \<noteq> None) vs)"
  let ?keys = "case collect get m vs S of Some (keys, _) \<Rightarrow> keys | None \<Rightarrow> []"
  have "fine X (?bad + ?good) S (case map_option snd (collect get m vs S) of None \<Rightarrow> None | Some S1 \<Rightarrow> cancel_all ?keys S1)"
  proof (rule fine_bind [OF collect_fine [OF ok]])
    fix S1 assume "map_option snd (collect get m vs S) = Some S1" "session_ok X S1"
    then obtain keys where "collect get m vs S = Some (keys, S1)" by auto
    then show "fine X ?good S1 (cancel_all ?keys S1)"
      using cancel_all_fine [OF \<open>session_ok X S1\<close>, of keys] collect_keys by simp
  qed
  moreover have "?bad + ?good = length vs" using sum_length_filter_compl [of "\<lambda>v. get v = None" vs] by simp
  ultimately show ?thesis by (cases "collect get m vs S") (auto simp: case_prod_unfold)
qed

section \<open>Messages\<close>

text \<open>The number of frames a message is answered with: one for each request or key, one for an error.\<close>

definition subscribe_due :: "int \<Rightarrow> json \<Rightarrow> ClientSession \<Rightarrow> nat" where
  "subscribe_due now doc s =
     (if cs_exec s \<noteq> None \<and> cs_dispatcher s \<and> fst (rateLimitCheck now s)
      then (case member ''requests'' doc of Some (JArray rs) \<Rightarrow> length rs | _ \<Rightarrow> 1) else 1)"

definition cancel_due :: "json \<Rightarrow> nat" where
  "cancel_due doc = (case (member ''keys'' doc, member ''ids'' doc) of
       (Some (JArray ks), Some (JArray is)) \<Rightarrow> 1
     | (Some (JArray ks), _) \<Rightarrow> length ks
     | (_, Some (JArray is)) \<Rightarrow> length is
     | _ \<Rightarrow> 1)"

definition frames_due :: "(string \<Rightarrow> json option) \<Rightarrow> int \<Rightarrow> string \<Rightarrow> ClientSession \<Rightarrow> nat" where
  "frames_due parse now text s = (case parse (c_str text) of
       None \<Rightarrow> 1
     | Some doc \<Rightarrow>
         if \<not> IsObject doc then 1
         else (case (case member ''type'' doc of None \<Rightarrow> None | Some w \<Rightarrow> GetString w) of
             None \<Rightarrow> 1
           | Some ty \<Rightarrow> if ty = ''subscribe'' then subscribe_due now doc s
                         else if ty = ''cancel'' then cancel_due doc else 1))"

lemma handleSubscribe_fine:
  assumes ok: "session_ok X (s, E)"
  shows "fine X (subscribe_due now doc s) (s, E) (handleSubscribe now doc (s, E))"
proof -
  obtain b s1 where r: "rateLimitCheck now s = (b, s1)" by (cases "rateLimitCheck now s")
  have same: "cs_open s1 = cs_open s" "cs_outbox s1 = cs_outbox s" "queued s1 = queued s"
    "session_ok X (s1, E)"
    using r ok by (auto simp: rateLimitCheck_def Let_def queued_def session_ok_def write_ok_def split: if_splits)
  have one: "fine X 1 (s, E) (sendError p m (s, E))" "fine X 1 (s, E) (sendError p m (s1, E))" for p m
    unfolding sendError_def using sendText_fine(1) [OF ok] fine_start [OF same(4,1,2,3) sendText_fine(1) [OF same(4)]] by auto
  have all: "fine X (length rs) (s, E) (subscribe_all ex rs (s1, E))" for ex rs
    by (rule fine_start [OF same(4,1,2,3) subscribe_all_fine [OF same(4)]])
  show ?thesis using r one all
    by (cases "cs_exec s"; cases b) (auto simp: handleSubscribe_def subscribe_due_def split: option.split json.split)
qed

lemma handleCancel_fine:
  assumes "session_ok X S"
  shows "fine X (cancel_due doc) S (handleCancel doc S)"
proof -
  define route where "route get m vs = (case collect get m vs S of None \<Rightarrow> None | Some (keys, S1) \<Rightarrow> cancel_all keys S1)" for get m vs
  have "fine X (length vs) S (route get m vs)" for get m vs
    unfolding route_def by (rule collect_cancel_fine [OF assms])
  moreover have "fine X 1 S (sendError p m S)" for p m using sendText_fine(1) [OF assms] by (simp add: sendError_def)
  ultimately show ?thesis unfolding handleCancel_def route_def [symmetric] cancel_due_def
    by (cases "member ''keys'' doc"; cases "member ''ids'' doc") (auto split: json.split)
qed

lemma handleMessage_fine:
  assumes "session_ok X (s, E)"
  shows "fine X (frames_due parse now text s) (s, E) (handleMessage parse now text (s, E))"
  using handleSubscribe_fine [OF assms] handleCancel_fine [OF assms] sendText_fine(1) [OF assms]
  by (auto simp: handleMessage_def frames_due_def sendError_def split: option.split)

section \<open>Runs\<close>

lemma close_now_inflight:
  "close_now (s \<lparr> cs_inflight := b \<rparr>, E) = map_option (\<lambda>(s1, E1). (s1 \<lparr> cs_inflight := b \<rparr>, E1)) (close_now (s, E))"
  by (cases s) (simp add: close_now_def session_held_def split: option.split)

lemma fine_ok: "fine X n S R \<Longrightarrow> R = Some S' \<Longrightarrow> session_ok X S'"
  by (simp add: fine_def)

lemma onWrite_ok:
  assumes ok: "session_ok X (s, E)" and fly: "cs_inflight s"
  shows "\<exists>S'. onWrite failed (s, E) = Some S' \<and> session_ok X S'"
proof (cases failed)
  case True
  obtain s1 E1 where c: "close_now (s, E) = Some (s1, E1)" "session_ok X (s1, E1)" "\<not> cs_open s1"
    using close_now_ok [OF ok] by auto
  then have "onWrite failed (s, E) = Some (s1 \<lparr> cs_inflight := False \<rparr>, E1)"
    using True by (simp add: onWrite_def close_now_inflight)
  moreover have "session_ok X (s1 \<lparr> cs_inflight := False \<rparr>, E1)" using c(2,3) by (simp add: session_ok_def write_ok_def)
  ultimately show ?thesis by blast
next
  case False
  obtain f os where "cs_outbox s = f # os" using ok fly by (cases "cs_outbox s") (auto simp: session_ok_def write_ok_def)
  then show ?thesis using ok fly False
    by (cases os) (auto simp: onWrite_def Let_def startWrite_def session_ok_def write_ok_def)
qed

lemma session_ok_posted: "session_ok X (s, E) \<Longrightarrow> session_ok X (s \<lparr> cs_posted := ps \<rparr>, E)"
  by (simp add: session_ok_def write_ok_def)

lemma run_posted_ok:
  assumes ok: "session_ok X (s, E)"
  shows "\<exists>S'. run_posted (s, E) = Some S' \<and> session_ok X S'"
proof -
  note posted = session_ok_posted [OF ok]
  have send: "\<exists>S'. sendText f (s \<lparr> cs_posted := ps \<rparr>, E) = Some S' \<and> session_ok X S'" for f ps
    using sendText_fine [OF posted] fine_ok by blast
  have close: "\<exists>S'. close_now (s \<lparr> cs_posted := ps \<rparr>, E) = Some S' \<and> session_ok X S'" for ps
    using close_now_ok [OF posted] by blast
  show ?thesis
  proof (cases "cs_posted s")
    case Nil
    then show ?thesis using ok by (simp add: run_posted_def)
  next
    case (Cons p ps)
    then show ?thesis using send [of _ ps] close [of ps] by (cases p) (auto simp: run_posted_def)
  qed
qed

text \<open>What goes on in the engine besides the session: values arrive, tasks and timers run.\<close>

inductive engine_activity :: "Engine \<Rightarrow> Engine \<Rightarrow> bool" where
  handed: "a < length (en_nodes E) \<Longrightarrow> engine_activity E (post (a, sv) E)"
| task_run: "run_task E = Some E' \<Longrightarrow> engine_activity E E'"
| timer_fired: "engine_activity E (timer_turn a E)"
| store_written: "engine_activity E (E \<lparr> en_store := st \<rparr>)"
| pool_stopped: "engine_activity E (E \<lparr> en_poolStopping := True \<rparr>)"

lemma activity_keeps: "engine_activity E E' \<Longrightarrow> keeps E E'"
proof (induction rule: engine_activity.induct)
  case (handed a E sv)
  show ?case by (rule keeps_outside) (simp_all add: post_def)
qed (simp_all add: run_task_keeps timer_turn_keeps keeps_outside)

lemma activity_graph_ok: "engine_activity E E' \<Longrightarrow> graph_ok E \<Longrightarrow> graph_ok E'"
  by (erule engine_activity.cases) (auto intro: step_graph_ok engine_step.intros)

inductive session_step :: "(string \<Rightarrow> json option) \<Rightarrow> session_state \<Rightarrow> session_state \<Rightarrow> bool" for parse where
  read: "onRead parse now data S = Some S' \<Longrightarrow> session_step parse S S'"
| written: "cs_inflight s \<Longrightarrow> onWrite failed (s, E) = Some S' \<Longrightarrow> session_step parse (s, E) S'"
| strand: "run_posted S = Some S' \<Longrightarrow> session_step parse S S'"
| updated: "session_step parse (s, E) (sendFn key sv s, E)"
| closed: "session_step parse (s, E) (close_posted s, E)"
| engine: "engine_activity E E' \<Longrightarrow> session_step parse (s, E) (s, E')"

lemma step_session_ok: "session_step parse S S' \<Longrightarrow> session_ok X S \<Longrightarrow> session_ok X S'"
proof (induction rule: session_step.induct)
  case (read now data S S')
  show ?case
  proof (cases data)
    case None
    then show ?thesis using close_now_ok [OF read.prems] read.hyps by (auto simp: onRead_def)
  next
    case (Some msg)
    have "fine X (frames_due parse now msg (fst S)) S (handleMessage parse now msg S)"
      using handleMessage_fine [of X "fst S" "snd S" parse now msg] read.prems by simp
    then show ?thesis using fine_ok read.hyps Some by (simp add: onRead_def)
  qed
next
  case (written s f E S')
  then show ?case using onWrite_ok [of X s E f] by simp
next
  case (strand S S')
  then show ?case using run_posted_ok [of X "fst S" "snd S"] by simp
next
  case (updated s E key sv)
  then show ?case by (simp add: sendFn_def sendText_posted_def session_ok_posted)
next
  case (closed s E)
  then show ?case by (simp add: close_posted_def session_ok_posted)
next
  case (engine E E' s)
  then have sub: "subs_ok X (cs_active s) (cs_chains s) E" by (simp add: session_ok_def)
  then have "graph_ok E'" using activity_graph_ok [OF engine.hyps] by (simp add: subs_ok_def)
  with sub have "subs_ok X (cs_active s) (cs_chains s) E'" by (rule subs_ok_keeps [OF _ activity_keeps [OF engine.hyps]])
  then show ?case using engine.prems by (simp add: session_ok_def)
qed

text \<open>A session whose handshake has completed (the handler of \<^verbatim>\<open>async_accept\<close> in \<^verbatim>\<open>run\<close>).\<close>

definition session_accepted :: "u64 \<Rightarrow> ClientSession \<Rightarrow> ClientSession" where
  "session_accepted newId s = s \<lparr> cs_open := True, cs_sessionId := (if cs_server s then newId else cs_sessionId s) \<rparr>"

definition opened :: "session_state \<Rightarrow> bool" where
  "opened S \<longleftrightarrow> (\<exists>self server exec dispatcher now newId E. S = (session_accepted newId (ClientSession_new self server exec dispatcher now), E) \<and> graph_ok E)"

abbreviation session_run :: "(string \<Rightarrow> json option) \<Rightarrow> session_state \<Rightarrow> session_state \<Rightarrow> bool" where
  "session_run parse \<equiv> (session_step parse)\<^sup>*\<^sup>*"

lemma run_session_ok:
  assumes "opened S0" "session_run parse S0 S"
  shows "session_ok {#} S"
  using assms(2)
proof (induction rule: rtranclp_induct)
  case base
  then show ?case using assms(1)
    by (auto simp: opened_def session_accepted_def ClientSession_new_def session_ok_def write_ok_def subs_ok_def owns_def)
qed (rule step_session_ok)

section \<open>A session\<close>

text \<open>A client that subscribes with one good and one malformed request, and one that cancels.\<close>

definition demo_requests :: "json list" where
  "demo_requests = [JObject ((''key'', JInt 7) # members demo_rq), JInt 1]"

definition demo_parse :: "string \<Rightarrow> json option" where
  "demo_parse t =
     (if t = ''sub'' then Some (JObject [(''type'', JString ''subscribe''), (''requests'', JArray demo_requests)])
      else if t = ''cancel'' then Some (JObject [(''type'', JString ''cancel''), (''keys'', JArray [JInt 7, JString ''x''])])
      else None)"

definition demo_open :: session_state where
  "demo_open = (session_accepted 1 (ClientSession_new 1 True (Some (True, True)) True 0), Engine_new FunctionMap_init)"

text \<open>The session after the first check of its rate.\<close>

definition demo_limited :: session_state where
  "demo_limited = (\<lparr> cs_self = 1, cs_server = True, cs_exec = Some (True, True), cs_dispatcher = True, cs_open = True,
     cs_sessionId = 1, cs_outbox = [], cs_writing = False, cs_reqMu = False, cs_active = [], cs_chains = [],
     cs_rateTokens = DFin 19, cs_rateLastRefill = 0, cs_posted = [], cs_wire = [], cs_inflight = False, cs_closing = False \<rparr>,
     Engine_new FunctionMap_init)"

definition demo_session :: session_state where
  "demo_session = the (subscribe_all (True, True) demo_requests demo_limited)"

lemma demo_first_check: "rateLimitCheck 0 (fst demo_open) = (True, fst demo_limited)"
proof -
  have "refill 0 (fst demo_open) = DFin 20"
    using double_of_small [of 20]
    by (simp add: refill_def Let_def demo_open_def session_accepted_def ClientSession_new_def rate_constants double_of_int_def round_double_def)
  moreover have "dsub (DFin 20) (DFin 1) = DFin 19" using double_of_small [of 19] by (simp add: dsub_def double_of_int_def)
  ultimately show ?thesis
    by (simp add: rateLimitCheck_refill Let_def demo_limited_def demo_open_def session_accepted_def ClientSession_new_def)
qed

lemma demo_subscribed: "subscribe_all (True, True) demo_requests demo_limited \<noteq> None"
  by code_simp

lemma demo_read: "onRead demo_parse 0 (Some ''sub'') demo_open = Some demo_session"
proof -
  obtain S where S: "subscribe_all (True, True) demo_requests demo_limited = Some S" using demo_subscribed by blast
  have "snd demo_open = snd demo_limited" "cs_exec (fst demo_open) = Some (True, True)" "cs_dispatcher (fst demo_open)"
    by (simp_all add: demo_open_def demo_limited_def session_accepted_def ClientSession_new_def)
  then show ?thesis
    using S demo_first_check
    by (simp add: onRead_def handleMessage_def demo_parse_def c_str_def member_def handleSubscribe_def demo_session_def
        case_prod_beta [of _ demo_open])
qed

lemma demo_opened: "opened demo_open"
proof -
  have "graph_ok (Engine_new FunctionMap_init)" by (rule run_graph_ok) (rule rtranclp.rtrancl_refl)
  then show ?thesis unfolding opened_def demo_open_def by blast
qed

lemma demo_run_session: "session_run demo_parse demo_open (fst demo_session, snd demo_session)"
  using session_step.read [OF demo_read] by (auto intro: r_into_rtranclp)

lemma demo_session_state:
  "cs_active (fst demo_session) = [(RKInt 7, 2)]" "length (cs_outbox (fst demo_session)) = 2" "cs_open (fst demo_session)"
  "cs_inflight (fst demo_session)"
  by code_simp+

section \<open>Properties\<close>

lemma live_at_forwards:
  assumes "live_at E a mid" "mid \<in> set (en_held E)"
  shows "call_node pins (a, sv) E = (Inr [], post (mid, sv) E)"
proof -
  obtain l where "node_at E a = Some (NListener l)" "ls_downstream l = Some mid" "a \<in> registered E (ls_symbol l) (ls_field l)"
    "ls_pool l" "ls_dispatcher l" "\<not> ls_stopping l"
    using assms(1) by (auto simp: live_at_def)
  then have "live_head (ls_symbol l) (ls_field l) mid a E" by (auto simp: live_head_def registered_def)
  then show ?thesis using assms(2) by (rule live_head_forwards)
qed

lemma held_by_session:
  assumes "subs_ok X ac ch E" "mid \<in> set (at_key k ch)"
  shows "mid \<in> set (en_held E)"
proof -
  have "mid \<in># owns ac ch" using assms(2) by (auto simp: owns_def dest!: at_key_in intro!: bexI)
  then show ?thesis using assms(1) by (auto simp: subs_ok_def dest: mset_subset_eqD)
qed

text \<open>C20. Whatever a client sends, however writes, updates and the engine interleave: a session never has more
  than 4096 frames queued or 256 subscriptions, writes one frame at a time and keeps that frame until it
  is written, the end of a write, a queued text and a close are handled without undefined behaviour, and
  every subscription it has acknowledged and not cancelled has a head that is in the dispatcher's table
  and passes each value on to the request's chain.\<close>

theorem session_safe:
  assumes "opened S0" "session_run parse S0 (s, E)"
  shows "length (cs_outbox s) \<le> 4096 \<and> length (cs_active s) \<le> 256 \<and>
    (cs_inflight s \<longrightarrow> cs_outbox s \<noteq> [] \<and> hd (cs_outbox s) = last (cs_wire s) \<and> (\<forall>failed. onWrite failed (s, E) \<noteq> None)) \<and>
    run_posted (s, E) \<noteq> None \<and> close_now (s, E) \<noteq> None \<and>
    (\<forall>(key, a) \<in> set (cs_active s). \<exists>l mid. node_at E a = Some (NListener l) \<and>
       a \<in> set (at_key (ls_field l) (fields_of (ls_symbol l) E)) \<and>
       (\<forall>pins sv. call_node pins (a, sv) E = (Inr [], post (mid, sv) E)))"
proof -
  have ok: "session_ok {#} (s, E)" by (rule run_session_ok [OF assms])
  then have s: "write_ok s" "subs_ok {#} (cs_active s) (cs_chains s) E" "length (cs_active s) \<le> 256"
    by (auto simp: session_ok_def MAX_SUBSCRIPTIONS_def)
  have "\<exists>l mid. node_at E a = Some (NListener l) \<and> a \<in> set (at_key (ls_field l) (fields_of (ls_symbol l) E)) \<and>
       (\<forall>pins sv. call_node pins (a, sv) E = (Inr [], post (mid, sv) E))" if "(key, a) \<in> set (cs_active s)" for key a
  proof -
    obtain mid where mid: "mid \<in> set (at_key key (cs_chains s))" "live_at E a mid"
      using s(2) \<open>(key, a) \<in> set (cs_active s)\<close> unfolding subs_ok_def by blast
    then obtain l where "node_at E a = Some (NListener l)" "a \<in> registered E (ls_symbol l) (ls_field l)"
      by (auto simp: live_at_def)
    then show ?thesis using live_at_forwards [OF mid(2) held_by_session [OF s(2) mid(1)]] by (auto simp: registered_def)
  qed
  moreover have "close_now (s, E) \<noteq> None" "run_posted (s, E) \<noteq> None" "cs_inflight s \<longrightarrow> (\<forall>failed. onWrite failed (s, E) \<noteq> None)"
    using close_now_ok [OF ok] run_posted_ok [OF ok] onWrite_ok [OF ok] by force+
  ultimately show ?thesis using s by (auto simp: write_ok_def MAX_OUTBOX_SIZE_def)
qed

theorem session_safe_witness:
  "length (cs_outbox (fst demo_session)) \<le> 4096 \<and> hd (cs_outbox (fst demo_session)) = last (cs_wire (fst demo_session)) \<and>
   onWrite True demo_session \<noteq> None \<and> close_now demo_session \<noteq> None \<and>
   (\<exists>mid. call_node [] (2, mkSV ''AAPL'' (ADouble d1)) (snd demo_session) = (Inr [], post (mid, mkSV ''AAPL'' (ADouble d1)) (snd demo_session)))"
  using session_safe [OF demo_opened demo_run_session] demo_session_state by auto

text \<open>C21. Every message is answered, request by request: in every reachable state of an open session in which
  the queue has room for the answers, handling a message returns, the session stays open, and exactly one
  frame is queued, behind those already there, for each request of a subscription, each key of a
  cancellation, and each error of the message itself.\<close>

theorem session_answers:
  assumes "opened S0" "session_run parse S0 (s, E)" "cs_open s"
    and "length (cs_outbox s) + frames_due parse now msg s \<le> MAX_OUTBOX_SIZE"
  shows "\<exists>s' E' fs. handleMessage parse now msg (s, E) = Some (s', E') \<and> cs_open s' \<and>
    queued s' = queued s @ fs \<and> length fs = frames_due parse now msg s"
  using handleMessage_fine [OF run_session_ok [OF assms(1,2)], of parse now msg] assms(3,4) by (auto simp: fine_def)

theorem session_answers_witness:
  "\<exists>s' E' fs. handleMessage demo_parse 5 ''cancel'' demo_session = Some (s', E') \<and> cs_open s' \<and>
     queued s' = queued (fst demo_session) @ fs \<and> length fs = 2"
proof -
  have "frames_due demo_parse 5 ''cancel'' (fst demo_session) = 2"
    by (simp add: frames_due_def cancel_due_def demo_parse_def c_str_def member_def)
  then show ?thesis
    using session_answers [OF demo_opened demo_run_session, of 5 "''cancel''"] demo_session_state by (simp add: MAX_OUTBOX_SIZE_def)
qed

text \<open>C22. A cancelled subscription is silent at its head: in every reachable state of an open session with room
  for the answer, cancelling an active key queues the acknowledgement, takes the key out of the session
  and the head out of the dispatcher's table, and the head drops every value it is still handed.\<close>

theorem cancel_silences:
  assumes "opened S0" "session_run parse S0 (s, E)" "cs_open s" "length (cs_outbox s) < MAX_OUTBOX_SIZE"
    and "map_of (cs_active s) key = Some a"
  shows "\<exists>s' E' l. cancel_one key (s, E) = Some (s', E') \<and> queued s' = queued s @ [ack_frame ''canceled'' key] \<and>
    map_of (cs_active s') key = None \<and> node_at E a = Some (NListener l) \<and>
    a \<in> set (at_key (ls_field l) (fields_of (ls_symbol l) E)) \<and>
    a \<notin> set (at_key (ls_field l) (fields_of (ls_symbol l) E')) \<and>
    (\<forall>pins sv. call_node pins (a, sv) E' = (Inr [], E'))"
proof -
  have ok: "session_ok {#} (s, E)" by (rule run_session_ok [OF assms(1,2)])
  let ?s = "s \<lparr> cs_active := AList.delete key (cs_active s), cs_chains := AList.delete key (cs_chains s) \<rparr>"
  obtain E' l where l: "node_at E a = Some (NListener l)" "a \<in> registered E (ls_symbol l) (ls_field l)"
    "node_at E' a = Some (NListener (l \<lparr> ls_stopping := True, ls_downstream := None \<rparr>))"
    "a \<notin> registered E' (ls_symbol l) (ls_field l)"
    "cancel_one key (s, E) = sendText (ack_frame ''canceled'' key) (?s, E')"
    using cancel_one_head [OF ok assms(5)] .
  have "write_ok ?s" using ok by (simp add: session_ok_def write_ok_def)
  then obtain s' where s': "sendText (ack_frame ''canceled'' key) (?s, E') = Some (s', E')" "cs_active s' = cs_active ?s"
    "queued s' = queued ?s @ [ack_frame ''canceled'' key]"
    using sendText_room [of ?s "ack_frame ''canceled'' key" E'] assms(3,4) by auto
  have "map_of (cs_active s') key = None" using s'(2) by (simp add: delete_conv')
  moreover have "queued ?s = queued s" by (simp add: queued_def)
  moreover have "call_node pins (a, sv) E' = (Inr [], E')" for pins sv
    using l(3) by (simp add: call_node_def Listener_onValue_def post_all_def)
  ultimately show ?thesis using l s' by (auto simp: registered_def)
qed

theorem cancel_silences_witness:
  "\<exists>s' E'. cancel_one (RKInt 7) demo_session = Some (s', E') \<and> map_of (cs_active s') (RKInt 7) = None \<and>
     call_node [] (2, mkSV ''AAPL'' (ADouble d1)) E' = (Inr [], E')"
  using cancel_silences [OF demo_opened demo_run_session, of "RKInt 7" 2] demo_session_state
  by (auto simp: MAX_OUTBOX_SIZE_def)

end
