(* ===== verification/Client_Session_Edges.thy ===== *)
theory Client_Session_Edges
  imports Client_Session_Runs
begin

text \<open>
  Three edges of the session protocol: the error that is sent while a mutex is held, requests that are
  still built after the session has closed itself, and timers that a cancellation does not stop.
\<close>

section \<open>A full queue\<close>

lemma subscribe_malformed: "subscribe_one exec (JInt n) S = sendText (error_frame ''subscribe'' ''request must be object'') S"
  by (cases S) (simp add: subscribe_one_def request_head_def sendError_def)

lemma subscribe_all_append:
  "subscribe_all exec (rs @ qs) S = (case subscribe_all exec rs S of None \<Rightarrow> None | Some S1 \<Rightarrow> subscribe_all exec qs S1)"
  by (induction rs arbitrary: S) (auto split: option.split)

text \<open>Malformed requests fill the queue: each is answered, and no write completes while the message is handled.\<close>

lemma malformed_fill:
  "write_ok s \<Longrightarrow> cs_open s \<Longrightarrow> length (cs_outbox s) + k \<le> MAX_OUTBOX_SIZE \<Longrightarrow>
     \<exists>s'. subscribe_all exec (replicate k (JInt 1)) (s, E) = Some (s', E) \<and> write_ok s' \<and> cs_open s' \<and>
       cs_active s' = cs_active s \<and> length (cs_outbox s') = length (cs_outbox s) + k"
proof (induction k arbitrary: s)
  case (Suc k)
  let ?f = "error_frame ''subscribe'' ''request must be object''"
  obtain s1 where s1: "sendText ?f (s, E) = Some (s1, E)" "write_ok s1" "cs_open s1" "cs_active s1 = cs_active s"
    "length (cs_outbox s1) = Suc (length (cs_outbox s))"
    using sendText_room [OF Suc.prems(1,2), of ?f E] Suc.prems(3) by auto
  show ?case using Suc.IH [OF s1(2,3)] s1 Suc.prems(3) by (simp add: subscribe_malformed)
qed simp

text \<open>
  The limit on subscriptions is checked, and its error sent, under the session's mutex. When the queue is
  full, sending closes the session at once, and closing locks the same mutex: the handler never returns.
  A client with 256 subscriptions brings this about with one message, by malformed requests up to the
  capacity of the queue followed by a good one.
\<close>

theorem subscribe_locks_up:
  assumes "session_ok X (s, E)" "cs_open s" "length (cs_active s) = MAX_SUBSCRIPTIONS"
    and "request_head r = Inr (key, streamKey, field)" "validateSpec r = None" "map_of (cs_active s) key = None"
  shows "subscribe_all exec (replicate (MAX_OUTBOX_SIZE - length (cs_outbox s)) (JInt 1) @ [r]) (s, E) = None"
proof -
  let ?k = "MAX_OUTBOX_SIZE - length (cs_outbox s)"
  have w: "write_ok s" using assms(1) by (simp add: session_ok_def)
  then have k: "length (cs_outbox s) + ?k = MAX_OUTBOX_SIZE" by (simp add: write_ok_def)
  obtain s' where s': "subscribe_all exec (replicate ?k (JInt 1)) (s, E) = Some (s', E)" "write_ok s'" "cs_open s'"
    "cs_active s' = cs_active s" "length (cs_outbox s') = MAX_OUTBOX_SIZE"
    using malformed_fill [OF w assms(2), where k = ?k and exec = exec and E = E] k by auto
  have "\<not> cs_reqMu s'" using s'(2) by (simp add: write_ok_def)
  then have "subscribe_one exec r (s', E) = None"
    using assms(3-6) s'(3-5) by (simp add: subscribe_one_def sendError_def sendText_locked)
  then show ?thesis using s'(1) by (simp add: subscribe_all_append)
qed

section \<open>After closing\<close>

text \<open>
  The loop over the requests of a message does not look whether the session is still open. A request that
  follows the one that closed it is built, registered and installed in a session that is gone: nothing
  shuts it down again, and the acknowledgement is dropped.
\<close>

theorem subscribe_after_close:
  assumes "session_ok X (s, E)" "\<not> cs_open s" "length (cs_active s) < MAX_SUBSCRIPTIONS"
    and "request_head r = Inr (key, streamKey, field)" "validateSpec r = None" "map_of (cs_active s) key = None"
    and "subscribe (cs_self s) key (request_spec streamKey field r)
      \<lparr> dp_store = fst exec, dp_pool = snd exec, dp_dispatcher = True \<rparr> E = (Inr bc, E1)"
  shows "\<exists>s' E'. subscribe_one exec r (s, E) = Some (s', E') \<and> \<not> cs_open s' \<and> map_of (cs_active s') key = Some (bc_head bc) \<and>
    close_now (s', E') = Some (s', E')"
proof -
  have "subs_ok X (cs_active s) (cs_chains s) E" using assms(1) by (simp add: session_ok_def)
  then obtain mid where p: "subs_ok (X + {#bc_head bc#} + mset (bc_keepAlive bc)) (cs_active s) (cs_chains s) E1"
    "mid \<in> set (bc_keepAlive bc)" "live_at E1 (bc_head bc) mid" "bc_head bc \<notin> snd ` set (cs_active s)"
    using subscribe_pending [OF _ assms(7)] by blast
  let ?s = "s \<lparr> cs_active := AList.update key (bc_head bc) (cs_active s), cs_chains := AList.update key (bc_keepAlive bc) (cs_chains s) \<rparr>"
  obtain E2 where "install key bc (s, E1) = Some (?s, E2)" using install_ok [OF p] by blast
  moreover have "\<not> MAX_SUBSCRIPTIONS \<le> length (cs_active s)" using assms(3) by simp
  ultimately have "subscribe_one exec r (s, E) = sendText (ack_frame ''subscribed'' key) (?s, E2)"
    using assms(4-7) by (simp add: subscribe_one_def)
  then show ?thesis using assms(2) by (simp add: sendText_def close_now_def update_conv')
qed

section \<open>Timers outlive a cancellation\<close>

text \<open>
  Cancelling shuts down the head of a request, not the nodes behind it. A timer in its pipeline keeps its
  thread, the thread keeps the chain, and updates for the cancelled key are sent as before.
\<close>

definition timer_request :: json where
  "timer_request = JObject [(''key'', JInt 7), (''streamKey'', JString ''AAPL''), (''field'', JString ''lastPrice''),
     (''pipeline'', JArray [JObject [(''type'', JString ''Interval''), (''ms'', JInt 100),
        (''child'', JObject [(''type'', JString ''AtomicAccessor''), (''field'', JString ''mean'')])]])]"

definition cancelled :: session_state where
  "cancelled = the (cancel_one (RKInt 7) (the (subscribe_one (True, True) timer_request demo_limited)))"

definition ticking :: Engine where
  "ticking = the (run_task (timer_turn 2 ((snd cancelled) \<lparr> en_store := store_set ''AAPL'' ''mean'' (ADouble d1) AtomicStore_init \<rparr>)))"

lemma cancelled_session:
  "cs_active (fst cancelled) = []" "cs_open (fst cancelled)"
  "map (\<lambda>f. member ''type'' f) (cs_outbox (fst cancelled)) = [Some (JString ''subscribed''), Some (JString ''canceled'')]"
  by code_simp+

theorem cancel_leaves_timers: "en_sent ticking = [(1, RKInt 7, mkSV ''AAPL'' (ADouble d1))]"
  by code_simp

end
