(* ===== verification/Ob_Key.thy ===== *)
theory Ob_Key
  imports Text_Format
begin

text \<open>
  The keys of order-book metrics (\<^verbatim>\<open>ob/ObKey.cpp\<close>), their parser and their text. The fields of a key that
  its metric does not use keep their defaults.
\<close>

section \<open>Data\<close>

datatype Mode = Per | Agg
datatype ObSide = OBid | OAsk
datatype Metric = MBest | MLevelIdx | MLevelPx | MRangeIdx | MRangePx | MCum | MVWAP | MImbalance | MSpread | MMid | MMeta
datatype Reduce = RSum | RAvg | RMin | RMax | RCount | RNone
datatype Target = TPrice | TSize | TOrders | TNotional | TNone

record Range =
  rg_a :: int
  rg_b :: int

record LevelIdx =
  li_side :: ObSide
  li_n :: int
  li_attr :: Target

record LevelPx =
  lp_side :: ObSide
  lp_px :: double
  lp_attr :: Target

record RangeIdxSpec =
  ri_side :: ObSide
  ri_lv :: Range
  ri_reduce :: Reduce
  ri_target :: Target

record RangePxSpec =
  rp_side :: ObSide
  rp_p1 :: double
  rp_p2 :: double
  rp_reduce :: Reduce
  rp_target :: Target

record ObKey =
  ok_metric :: Metric
  ok_mode :: Mode
  ok_bestSide :: ObSide
  ok_bestAttr :: Target
  ok_levelIdx :: LevelIdx
  ok_levelPx :: LevelPx
  ok_rangeIdx :: RangeIdxSpec
  ok_rangePx :: RangePxSpec
  ok_cumN :: int
  ok_cumSide :: ObSide
  ok_cumTarget :: Target
  ok_vwapSide :: ObSide
  ok_vwapLv :: Range
  ok_vwapP1 :: double
  ok_vwapP2 :: double
  ok_vwapByLevels :: bool
  ok_imbLv :: Range
  ok_imbP1 :: double
  ok_imbP2 :: double
  ok_imbByLevels :: bool
  ok_metaField :: string

definition Range_init :: Range where
  "Range_init = \<lparr> rg_a = 0, rg_b = 0 \<rparr>"

definition ObKey_init :: ObKey where
  "ObKey_init = \<lparr> ok_metric = MBest, ok_mode = Per, ok_bestSide = OBid, ok_bestAttr = TNone,
     ok_levelIdx = \<lparr> li_side = OBid, li_n = 0, li_attr = TNone \<rparr>,
     ok_levelPx = \<lparr> lp_side = OBid, lp_px = DZero False, lp_attr = TNone \<rparr>,
     ok_rangeIdx = \<lparr> ri_side = OBid, ri_lv = Range_init, ri_reduce = RNone, ri_target = TNone \<rparr>,
     ok_rangePx = \<lparr> rp_side = OBid, rp_p1 = DZero False, rp_p2 = DZero False, rp_reduce = RNone, rp_target = TNone \<rparr>,
     ok_cumN = 0, ok_cumSide = OBid, ok_cumTarget = TNone, ok_vwapSide = OBid, ok_vwapLv = Range_init,
     ok_vwapP1 = DZero False, ok_vwapP2 = DZero False, ok_vwapByLevels = True, ok_imbLv = Range_init,
     ok_imbP1 = DZero False, ok_imbP2 = DZero False, ok_imbByLevels = True, ok_metaField = [] \<rparr>"

section \<open>Tokens\<close>

text \<open>\<^verbatim>\<open>split\<close>: the non-empty parts between separators; \<open>cur\<close> is the part being read.\<close>

fun split_loop :: "char \<Rightarrow> string \<Rightarrow> string \<Rightarrow> string list" where
  "split_loop sep cur [] = (if cur = [] then [] else [cur])"
| "split_loop sep cur (c # cs) =
     (if c = sep then (if cur = [] then split_loop sep [] cs else cur # split_loop sep [] cs)
      else split_loop sep (cur @ [c]) cs)"

definition ob_split :: "char \<Rightarrow> string \<Rightarrow> string list" where
  "ob_split sep s = split_loop sep [] s"

definition lower :: "string \<Rightarrow> string" where
  "lower v = map tolower v"

text \<open>The conversion of a \<^verbatim>\<open>long\<close> to \<^verbatim>\<open>int\<close> keeps the low 32 bits.\<close>

definition int_of_long :: "int \<Rightarrow> int" where
  "int_of_long v = (v + 2 ^ 31) mod 2 ^ 32 - 2 ^ 31"

definition parseInt :: "string \<Rightarrow> int option" where
  "parseInt s = (case strtol (c_str s) of (v, rest) \<Rightarrow> if rest = [] then Some (int_of_long v) else None)"

definition parseDouble :: "string \<Rightarrow> double option" where
  "parseDouble s = (case strtod (c_str s) of (v, rest) \<Rightarrow> if rest = [] then Some v else None)"

definition parseSide :: "string \<Rightarrow> ObSide option" where
  "parseSide s = (let t = lower s in if t = ''bid'' then Some OBid else if t = ''ask'' then Some OAsk else None)"

definition parseTarget :: "string \<Rightarrow> Target option" where
  "parseTarget s = (let v = lower s
     in if v = ''price'' then Some TPrice else if v = ''size'' then Some TSize
        else if v = ''orders'' then Some TOrders else if v = ''notional'' then Some TNotional else None)"

definition parseReduce :: "string \<Rightarrow> Reduce option" where
  "parseReduce s = (let v = lower s
     in if v = ''sum'' then Some RSum else if v = ''avg'' then Some RAvg else if v = ''min'' then Some RMin
        else if v = ''max'' then Some RMax else if v = ''count'' then Some RCount else None)"

definition isObKey :: "string \<Rightarrow> bool" where
  "isObKey keyStr = (case ob_split (CHR ''.'') keyStr of [] \<Rightarrow> False | t # _ \<Rightarrow> t = ''ob'')"

section \<open>The parser\<close>

text \<open>\<^verbatim>\<open>A-B\<close>, as levels and as prices.\<close>

definition parse_levels :: "string \<Rightarrow> Range option" where
  "parse_levels s = (case ob_split (CHR ''-'') s of
       [x, y] \<Rightarrow> (case (parseInt x, parseInt y) of
           (Some a, Some b) \<Rightarrow> if a < 1 \<or> b < a then None else Some \<lparr> rg_a = a, rg_b = b \<rparr>
         | _ \<Rightarrow> None)
     | _ \<Rightarrow> None)"

definition parse_prices :: "string \<Rightarrow> (double \<times> double) option" where
  "parse_prices s = (case ob_split (CHR ''-'') s of
       [x, y] \<Rightarrow> (case (parseDouble x, parseDouble y) of
           (Some p1, Some p2) \<Rightarrow> if dlt p2 p1 then None else Some (p1, p2)
         | _ \<Rightarrow> None)
     | _ \<Rightarrow> None)"

text \<open>\<^verbatim>\<open>N\<close>, which stands for the levels 1 to N, or \<^verbatim>\<open>A-B\<close>.\<close>

definition parse_depth :: "string \<Rightarrow> Range option" where
  "parse_depth s = (case parseInt s of
       Some n \<Rightarrow> if n \<ge> 1 then Some \<lparr> rg_a = 1, rg_b = n \<rparr> else parse_levels s
     | None \<Rightarrow> parse_levels s)"

text \<open>The reduction of a range and its target, from the tokens after the range.\<close>

definition parse_reduction :: "string list \<Rightarrow> (Reduce \<times> Target) option" where
  "parse_reduction ts = (case ts of
       [] \<Rightarrow> None
     | r # rest \<Rightarrow> (case parseReduce r of
           None \<Rightarrow> None
         | Some rd \<Rightarrow> if rd = RCount then Some (rd, TNone)
                      else (case rest of [t] \<Rightarrow> map_option (\<lambda>tg. (rd, tg)) (parseTarget t) | _ \<Rightarrow> None)))"

definition parse_best :: "string list \<Rightarrow> ObKey \<Rightarrow> ObKey option" where
  "parse_best t k = (case (parseSide (t ! 2), parseTarget (t ! 3)) of
       (Some side, Some attr) \<Rightarrow> if attr = TPrice \<or> attr = TSize
          then Some (k \<lparr> ok_metric := MBest, ok_bestSide := side, ok_bestAttr := attr \<rparr>) else None
     | _ \<Rightarrow> None)"

definition parse_level :: "string list \<Rightarrow> ObKey \<Rightarrow> ObKey option" where
  "parse_level t k = (case (parseSide (t ! 2), parseInt (t ! 3), parseTarget (t ! 4)) of
       (Some side, Some n, Some attr) \<Rightarrow> if n < 1 then None
          else Some (k \<lparr> ok_metric := MLevelIdx, ok_levelIdx := \<lparr> li_side = side, li_n = n, li_attr = attr \<rparr> \<rparr>)
     | _ \<Rightarrow> None)"

definition parse_at :: "string list \<Rightarrow> ObKey \<Rightarrow> ObKey option" where
  "parse_at t k = (case (parseSide (t ! 2), parseDouble (t ! 3), parseTarget (t ! 4)) of
       (Some side, Some px, Some attr) \<Rightarrow>
          Some (k \<lparr> ok_metric := MLevelPx, ok_levelPx := \<lparr> lp_side = side, lp_px = px, lp_attr = attr \<rparr> \<rparr>)
     | _ \<Rightarrow> None)"

definition parse_range_levels :: "string list \<Rightarrow> ObKey \<Rightarrow> ObKey option" where
  "parse_range_levels t k = (case (parseSide (t ! 2), parse_levels (t ! 4), parse_reduction (drop 5 t)) of
       (Some side, Some lv, Some (rd, tg)) \<Rightarrow>
          Some (k \<lparr> ok_metric := MRangeIdx, ok_rangeIdx := \<lparr> ri_side = side, ri_lv = lv, ri_reduce = rd, ri_target = tg \<rparr> \<rparr>)
     | _ \<Rightarrow> None)"

definition parse_range_price :: "string list \<Rightarrow> ObKey \<Rightarrow> ObKey option" where
  "parse_range_price t k = (case (parseSide (t ! 2), parse_prices (t ! 4), parse_reduction (drop 5 t)) of
       (Some side, Some (p1, p2), Some (rd, tg)) \<Rightarrow>
          Some (k \<lparr> ok_metric := MRangePx,
                    ok_rangePx := \<lparr> rp_side = side, rp_p1 = p1, rp_p2 = p2, rp_reduce = rd, rp_target = tg \<rparr> \<rparr>)
     | _ \<Rightarrow> None)"

definition parse_cum :: "string list \<Rightarrow> ObKey \<Rightarrow> ObKey option" where
  "parse_cum t k = (case (parseSide (t ! 2), parseInt (t ! 4), parseTarget (t ! 5)) of
       (Some side, Some n, Some tg) \<Rightarrow> if n < 1 then None
          else Some (k \<lparr> ok_metric := MCum, ok_cumSide := side, ok_cumN := n, ok_cumTarget := tg \<rparr>)
     | _ \<Rightarrow> None)"

definition parse_vwap :: "string list \<Rightarrow> ObKey \<Rightarrow> ObKey option" where
  "parse_vwap t k = (case parseSide (t ! 2) of
       None \<Rightarrow> None
     | Some side \<Rightarrow>
         if t ! 3 = ''levels'' \<and> length t = 5 then
           (case parse_depth (t ! 4) of
              None \<Rightarrow> None
            | Some lv \<Rightarrow> Some (k \<lparr> ok_metric := MVWAP, ok_vwapSide := side, ok_vwapLv := lv, ok_vwapByLevels := True \<rparr>))
         else if t ! 3 = ''price'' \<and> length t = 5 then
           (case parse_prices (t ! 4) of
              None \<Rightarrow> None
            | Some (p1, p2) \<Rightarrow> Some (k \<lparr> ok_metric := MVWAP, ok_vwapSide := side, ok_vwapP1 := p1, ok_vwapP2 := p2,
                                         ok_vwapByLevels := False \<rparr>))
         else None)"

definition parse_imbalance :: "string list \<Rightarrow> ObKey \<Rightarrow> ObKey option" where
  "parse_imbalance t k =
     (if t ! 2 = ''levels'' \<and> length t = 4 then
        (case parse_depth (t ! 3) of
           None \<Rightarrow> None
         | Some lv \<Rightarrow> Some (k \<lparr> ok_metric := MImbalance, ok_imbLv := lv, ok_imbByLevels := True \<rparr>))
      else if t ! 2 = ''price'' \<and> length t = 4 then
        (case parse_prices (t ! 3) of
           None \<Rightarrow> None
         | Some (p1, p2) \<Rightarrow> Some (k \<lparr> ok_metric := MImbalance, ok_imbP1 := p1, ok_imbP2 := p2, ok_imbByLevels := False \<rparr>))
      else None)"

definition parse_meta :: "string list \<Rightarrow> ObKey \<Rightarrow> ObKey option" where
  "parse_meta t k =
     (if length t = 3 then Some (k \<lparr> ok_metric := MMeta, ok_metaField := t ! 2 \<rparr>)
      else if length t = 4 \<and> t ! 2 = ''levels'' then Some (k \<lparr> ok_metric := MMeta, ok_metaField := ''levels.'' @ t ! 3 \<rparr>)
      else None)"

text \<open>The mode at the end, then the metric by the second token.\<close>

definition parse_metric :: "string list \<Rightarrow> ObKey \<Rightarrow> ObKey option" where
  "parse_metric t k =
     (if length t < 2 then None
      else let m = t ! 1; n = length t
      in if n = 2 \<and> m = ''spread'' then Some (k \<lparr> ok_metric := MSpread \<rparr>)
         else if n = 2 \<and> m = ''mid'' then Some (k \<lparr> ok_metric := MMid \<rparr>)
         else if n = 4 \<and> m = ''best'' then parse_best t k
         else if n = 5 \<and> m = ''level'' then parse_level t k
         else if n = 5 \<and> m = ''at'' then parse_at t k
         else if (n = 7 \<or> n = 6) \<and> m = ''range'' \<and> t ! 3 = ''levels'' then parse_range_levels t k
         else if (n = 7 \<or> n = 6) \<and> m = ''range'' \<and> t ! 3 = ''price'' then parse_range_price t k
         else if n = 6 \<and> m = ''cum'' \<and> t ! 3 = ''levels'' then parse_cum t k
         else if n \<ge> 5 \<and> m = ''vwap'' then parse_vwap t k
         else if n \<ge> 3 \<and> m = ''imbalance'' then parse_imbalance t k
         else if take 4 m = ''meta'' then parse_meta t k
         else None)"

definition parseObKey :: "string \<Rightarrow> ObKey option" where
  "parseObKey keyStr = (let t = ob_split (CHR ''.'') keyStr
     in if t = [] \<or> hd t \<noteq> ''ob'' then None
        else if length t \<ge> 2 \<and> (last t = ''per'' \<or> last t = ''agg'')
        then parse_metric (butlast t) (ObKey_init \<lparr> ok_mode := (if last t = ''agg'' then Agg else Per) \<rparr>)
        else parse_metric t ObKey_init)"

section \<open>Text\<close>

fun side_text :: "ObSide \<Rightarrow> string" where
  "side_text OBid = ''bid''"
| "side_text OAsk = ''ask''"

text \<open>The inner switches of \<^verbatim>\<open>formatObKey\<close>; that of cumulative keys has another default.\<close>

fun target_text :: "Target \<Rightarrow> string" where
  "target_text TPrice = ''price''"
| "target_text TSize = ''size''"
| "target_text TOrders = ''orders''"
| "target_text _ = ''notional''"

fun cum_text :: "Target \<Rightarrow> string" where
  "cum_text TSize = ''size''"
| "cum_text TNotional = ''notional''"
| "cum_text TOrders = ''orders''"
| "cum_text _ = ''price''"

fun reduce_text :: "Reduce \<Rightarrow> string" where
  "reduce_text RSum = ''sum.''"
| "reduce_text RAvg = ''avg.''"
| "reduce_text RMin = ''min.''"
| "reduce_text RMax = ''max.''"
| "reduce_text RCount = ''count.''"
| "reduce_text RNone = []"

text \<open>
  \<^verbatim>\<open>operator<<\<close> of a \<^verbatim>\<open>double\<close> with the default precision: six significant digits, the shorter of
  fixed and exponent notation, no trailing zeros.
\<close>

definition decimal_exponent :: "rat \<Rightarrow> int" where
  "decimal_exponent x = (case quotient_of x of (n, d) \<Rightarrow>
     let e = int (length (nat_text (nat n))) - int (length (nat_text (nat d)))
     in if power_int 10 e \<le> x then e else e - 1)"

definition strip_zeros :: "string \<Rightarrow> string" where
  "strip_zeros ds = rev (dropWhile (\<lambda>c. c = CHR ''0'') (rev ds))"

definition point_text :: "string \<Rightarrow> string \<Rightarrow> string" where
  "point_text whole rest = (let f = strip_zeros rest in if f = [] then whole else whole @ ''.'' @ f)"

definition general_text :: "rat \<Rightarrow> string" where
  "general_text x =
     (let e0 = decimal_exponent x; m0 = round_even (x / power_int 10 (e0 - 5));
          e = (if m0 = 1000000 then e0 + 1 else e0); m = (if m0 = 1000000 then 100000 else m0);
          ds = nat_text (nat m)
      in if e < - 4 \<or> e \<ge> 6
         then point_text (take 1 ds) (drop 1 ds) @ ''e'' @ (if e < 0 then ''-'' else ''+'')
              @ (if \<bar>e\<bar> < 10 then ''0'' else []) @ nat_text (nat \<bar>e\<bar>)
         else if e < 0 then point_text ''0'' (replicate (nat (- e) - 1) (CHR ''0'') @ ds)
         else point_text (take (nat e + 1) ds) (drop (nat e + 1) ds))"

fun double_text :: "double \<Rightarrow> string" where
  "double_text DNaN = ''nan''"
| "double_text (DInf s) = (if s then ''-inf'' else ''inf'')"
| "double_text (DZero s) = (if s then ''-0'' else ''0'')"
| "double_text (DFin x) = (if x < 0 then ''-'' @ general_text (- x) else general_text x)"

definition range_text :: "Range \<Rightarrow> string" where
  "range_text r = to_string (rg_a r) @ ''-'' @ to_string (rg_b r)"

definition prices_text :: "double \<Rightarrow> double \<Rightarrow> string" where
  "prices_text p1 p2 = double_text p1 @ ''-'' @ double_text p2"

definition metric_text :: "ObKey \<Rightarrow> string" where
  "metric_text k = (case ok_metric k of
       MSpread \<Rightarrow> ''spread''
     | MMid \<Rightarrow> ''mid''
     | MBest \<Rightarrow> ''best.'' @ side_text (ok_bestSide k) @ ''.'' @ (if ok_bestAttr k = TPrice then ''price'' else ''size'')
     | MLevelIdx \<Rightarrow> (let l = ok_levelIdx k in
         ''level.'' @ side_text (li_side l) @ ''.'' @ to_string (li_n l) @ ''.'' @ target_text (li_attr l))
     | MLevelPx \<Rightarrow> (let l = ok_levelPx k in
         ''at.'' @ side_text (lp_side l) @ ''.'' @ double_text (lp_px l) @ ''.'' @ target_text (lp_attr l))
     | MRangeIdx \<Rightarrow> (let r = ok_rangeIdx k in
         ''range.'' @ side_text (ri_side r) @ ''.levels.'' @ range_text (ri_lv r) @ ''.'' @ reduce_text (ri_reduce r)
           @ (if ri_reduce r \<noteq> RCount then target_text (ri_target r) else []))
     | MRangePx \<Rightarrow> (let r = ok_rangePx k in
         ''range.'' @ side_text (rp_side r) @ ''.price.'' @ prices_text (rp_p1 r) (rp_p2 r) @ ''.'' @ reduce_text (rp_reduce r)
           @ (if rp_reduce r \<noteq> RCount then target_text (rp_target r) else []))
     | MCum \<Rightarrow> ''cum.'' @ side_text (ok_cumSide k) @ ''.levels.'' @ to_string (ok_cumN k) @ ''.'' @ cum_text (ok_cumTarget k)
     | MVWAP \<Rightarrow> ''vwap.'' @ side_text (ok_vwapSide k) @ ''.'' @
         (if ok_vwapByLevels k then ''levels.'' @ range_text (ok_vwapLv k) else ''price.'' @ prices_text (ok_vwapP1 k) (ok_vwapP2 k))
     | MImbalance \<Rightarrow> ''imbalance.'' @
         (if ok_imbByLevels k then ''levels.'' @ range_text (ok_imbLv k) else ''price.'' @ prices_text (ok_imbP1 k) (ok_imbP2 k))
     | MMeta \<Rightarrow> ''meta.'' @ ok_metaField k)"

definition formatObKey :: "ObKey \<Rightarrow> string" where
  "formatObKey k = ''ob.'' @ metric_text k @ (if ok_mode k = Agg then ''.agg'' else [])"

end
