(* ===== verification/Ob_Materializer.thy ===== *)
theory Ob_Materializer
  imports Ob_Key
begin

text \<open>
  Order-book metrics on a captured snapshot (\<^verbatim>\<open>ob/ObMaterializer.cpp\<close>, the data of
  \<^verbatim>\<open>ob/ObSnapshot.hpp\<close>). A ladder is the list of its levels, best first, and has fewer than
  \<^verbatim>\<open>2^31\<close> levels, so that its length is an \<^verbatim>\<open>int\<close>.
\<close>

section \<open>Snapshots\<close>

record Level =
  lv_price :: double
  lv_size :: double
  lv_orders :: double
  lv_notional :: double

type_synonym Ladder = "Level list"

record Meta =
  mt_seq :: "64 word"
  mt_epoch :: "32 word"
  mt_stale :: bool
  mt_bidLevels :: nat
  mt_askLevels :: nat
  mt_lastChangeMs :: int

record Snapshot =
  ss_bids :: Ladder
  ss_asks :: Ladder
  ss_meta :: Meta

fun bySide :: "Snapshot \<Rightarrow> ObSide \<Rightarrow> Ladder" where
  "bySide s OBid = ss_bids s"
| "bySide s OAsk = ss_asks s"

text \<open>The switch on the target of a metric; \<^const>\<open>None\<close> is its default branch.\<close>

fun level_attr :: "Target \<Rightarrow> Level \<Rightarrow> double option" where
  "level_attr TPrice l = Some (lv_price l)"
| "level_attr TSize l = Some (lv_size l)"
| "level_attr TOrders l = Some (lv_orders l)"
| "level_attr TNotional l = Some (lv_notional l)"
| "level_attr TNone l = None"

section \<open>The top of the book and single levels\<close>

definition bestPrice :: "Snapshot \<Rightarrow> ObSide \<Rightarrow> double" where
  "bestPrice s side = (case bySide s side of [] \<Rightarrow> DNaN | l # _ \<Rightarrow> lv_price l)"

definition bestSize :: "Snapshot \<Rightarrow> ObSide \<Rightarrow> double" where
  "bestSize s side = (case bySide s side of [] \<Rightarrow> DZero False | l # _ \<Rightarrow> lv_size l)"

definition spread :: "Snapshot \<Rightarrow> double" where
  "spread s = (if ss_bids s = [] \<or> ss_asks s = [] then DNaN
     else dsub (lv_price (hd (ss_asks s))) (lv_price (hd (ss_bids s))))"

definition mid :: "Snapshot \<Rightarrow> double" where
  "mid s = (if ss_bids s = [] \<or> ss_asks s = [] then DNaN
     else dmul (DFin (1 / 2)) (dadd (lv_price (hd (ss_asks s))) (lv_price (hd (ss_bids s)))))"

definition levelIdx :: "Snapshot \<Rightarrow> LevelIdx \<Rightarrow> double" where
  "levelIdx s spec = (let l = bySide s (li_side spec)
     in if li_n spec \<le> 0 \<or> li_n spec > int (length l) then DNaN
        else case level_attr (li_attr spec) (l ! nat (li_n spec - 1)) of Some v \<Rightarrow> v | None \<Rightarrow> DNaN)"

definition levelPx :: "Snapshot \<Rightarrow> LevelPx \<Rightarrow> double" where
  "levelPx s spec = (case find (\<lambda>l. deq (lv_price l) (lp_px spec)) (bySide s (lp_side spec)) of
       None \<Rightarrow> DNaN
     | Some l \<Rightarrow> (case level_attr (lp_attr spec) l of Some v \<Rightarrow> v | None \<Rightarrow> DNaN))"

section \<open>Ranges\<close>

text \<open>The loops \<^verbatim>\<open>for (i = lo - 1; i < hi; ++i)\<close> run over these indices.\<close>

definition level_indices :: "int \<Rightarrow> int \<Rightarrow> nat list" where
  "level_indices lo hi = [nat (lo - 1)..<nat hi]"

definition rangeIdxReduce :: "Snapshot \<Rightarrow> RangeIdxSpec \<Rightarrow> double" where
  "rangeIdxReduce s spec =
     (let l = bySide s (ri_side spec);
          lo = max 1 (rg_a (ri_lv spec)); hi = min (int (length l)) (rg_b (ri_lv spec))
      in if l = [] \<or> lo > hi then DNaN
         else let (acc, count) = fold (\<lambda>i (acc, count). case level_attr (ri_target spec) (l ! i) of
                      None \<Rightarrow> (acc, count)
                    | Some v \<Rightarrow> (dadd acc v, count + 1)) (level_indices lo hi) (DZero False, 0)
              in if ri_reduce spec = RAvg \<and> count > (0 :: int) then ddiv acc (double_of_int count) else acc)"

definition rangePxReduce :: "Snapshot \<Rightarrow> RangePxSpec \<Rightarrow> double" where
  "rangePxReduce s spec =
     (let (acc, count) = fold (\<lambda>l (acc, count).
            if dlt (lv_price l) (rp_p1 spec) \<or> dlt (rp_p2 spec) (lv_price l) then (acc, count)
            else case level_attr (rp_target spec) l of
                None \<Rightarrow> (acc, count)
              | Some v \<Rightarrow> if rp_reduce spec = RAvg then (dadd acc v, count + 1)
                           else if rp_reduce spec = RSum then (dadd acc v, count)
                           else if rp_reduce spec = RCount then (acc, count + 1) else (acc, count))
            (bySide s (rp_side spec)) (DZero False, 0)
      in if rp_reduce spec = RAvg \<and> count > (0 :: int) then ddiv acc (double_of_int count)
         else if rp_reduce spec = RCount then double_of_int count else acc)"

section \<open>Imbalance\<close>

definition imbalance_of :: "double \<Rightarrow> double \<Rightarrow> double" where
  "imbalance_of bidQty askQty = (let total = dadd bidQty askQty
     in if dle total (DZero False) then DZero False else ddiv (dsub bidQty askQty) total)"

definition imbalanceLevels :: "Snapshot \<Rightarrow> Range \<Rightarrow> double" where
  "imbalanceLevels s r =
     (let (bidQty, askQty) = fold (\<lambda>i (b, a).
            (if i < length (ss_bids s) then dadd b (lv_size (ss_bids s ! i)) else b,
             if i < length (ss_asks s) then dadd a (lv_size (ss_asks s ! i)) else a))
            (level_indices (max 1 (rg_a r)) (rg_b r)) (DZero False, DZero False)
      in imbalance_of bidQty askQty)"

definition band_size :: "Ladder \<Rightarrow> double \<Rightarrow> double \<Rightarrow> double" where
  "band_size ls p1 p2 =
     fold (\<lambda>l acc. if dle p1 (lv_price l) \<and> dle (lv_price l) p2 then dadd acc (lv_size l) else acc) ls (DZero False)"

definition imbalanceBand :: "Snapshot \<Rightarrow> double \<Rightarrow> double \<Rightarrow> double" where
  "imbalanceBand s p1 p2 = imbalance_of (band_size (ss_bids s) p1 p2) (band_size (ss_asks s) p1 p2)"

section \<open>Sums and averages\<close>

definition cumLevels :: "Snapshot \<Rightarrow> ObSide \<Rightarrow> int \<Rightarrow> Target \<Rightarrow> double" where
  "cumLevels s side n target =
     (let l = bySide s side
      in if l = [] \<or> n \<le> 0 then DZero False
         else fold (\<lambda>i acc. case level_attr target (l ! i) of None \<Rightarrow> acc | Some v \<Rightarrow> dadd acc v)
                   [0..<nat (min n (int (length l)))] (DZero False))"

text \<open>Both VWAPs accumulate price times size and size.\<close>

definition vwap_add :: "Level \<Rightarrow> double \<times> double \<Rightarrow> double \<times> double" where
  "vwap_add l a = (dadd (fst a) (dmul (lv_price l) (lv_size l)), dadd (snd a) (lv_size l))"

definition vwap_of :: "double \<times> double \<Rightarrow> double" where
  "vwap_of a = (if dle (snd a) (DZero False) then DNaN else ddiv (fst a) (snd a))"

definition vwapLevels :: "Snapshot \<Rightarrow> ObSide \<Rightarrow> Range \<Rightarrow> double" where
  "vwapLevels s side r =
     (let l = bySide s side; lo = max 1 (rg_a r); hi = min (int (length l)) (rg_b r)
      in if l = [] \<or> lo > hi then DNaN
         else vwap_of (fold (\<lambda>i. vwap_add (l ! i)) (level_indices lo hi) (DZero False, DZero False)))"

definition vwapPriceBand :: "Snapshot \<Rightarrow> ObSide \<Rightarrow> double \<Rightarrow> double \<Rightarrow> double" where
  "vwapPriceBand s side p1 p2 =
     vwap_of (fold (\<lambda>l a. if dlt (lv_price l) p1 \<or> dlt p2 (lv_price l) then a else vwap_add l a)
                (bySide s side) (DZero False, DZero False))"

section \<open>Meta data and the dispatch\<close>

definition meta :: "Snapshot \<Rightarrow> string \<Rightarrow> double" where
  "meta s field = (let m = ss_meta s
     in if field = ''seq'' then double_of_int (uint (mt_seq m))
        else if field = ''epoch'' then double_of_int (uint (mt_epoch m))
        else if field = ''is_stale'' then (if mt_stale m then DFin 1 else DZero False)
        else if field = ''levels.bid'' then double_of_int (int (mt_bidLevels m))
        else if field = ''levels.ask'' then double_of_int (int (mt_askLevels m))
        else if field = ''last_change_ms'' then double_of_int (mt_lastChangeMs m)
        else DNaN)"

definition eval :: "Snapshot \<Rightarrow> ObKey \<Rightarrow> double" where
  "eval s k = (case ok_metric k of
       MBest \<Rightarrow> if ok_bestAttr k = TSize then bestSize s (ok_bestSide k) else bestPrice s (ok_bestSide k)
     | MLevelIdx \<Rightarrow> levelIdx s (ok_levelIdx k)
     | MLevelPx \<Rightarrow> levelPx s (ok_levelPx k)
     | MRangeIdx \<Rightarrow> rangeIdxReduce s (ok_rangeIdx k)
     | MRangePx \<Rightarrow> rangePxReduce s (ok_rangePx k)
     | MCum \<Rightarrow> cumLevels s (ok_cumSide k) (ok_cumN k) (ok_cumTarget k)
     | MVWAP \<Rightarrow> if ok_vwapByLevels k then vwapLevels s (ok_vwapSide k) (ok_vwapLv k)
                 else vwapPriceBand s (ok_vwapSide k) (ok_vwapP1 k) (ok_vwapP2 k)
     | MImbalance \<Rightarrow> if ok_imbByLevels k then imbalanceLevels s (ok_imbLv k) else imbalanceBand s (ok_imbP1 k) (ok_imbP2 k)
     | MSpread \<Rightarrow> spread s
     | MMid \<Rightarrow> mid s
     | MMeta \<Rightarrow> meta s (ok_metaField k))"

end
