(* ===== verification/Ob_Provider.thy ===== *)
theory Ob_Provider
  imports Ob_Materializer Book_Manager
begin

text \<open>
  The provider of \<^verbatim>\<open>ob.*\<close> values (\<^verbatim>\<open>ob/ObProvider.cpp\<close>) over the snapshots that
  \<^verbatim>\<open>MarketConnector\<close> captures from the order-book manager.
\<close>

section \<open>Capturing\<close>

text \<open>The level built from a price in ticks and a size.\<close>

definition capture_level :: "double \<Rightarrow> Price \<times> u64 \<Rightarrow> Level" where
  "capture_level tick q = (let dpx = dmul (double_of_int (fst q)) tick; sz = double_of_int (uint (snd q))
     in \<lparr> lv_price = dpx, lv_size = sz, lv_orders = DNaN, lv_notional = dmul dpx sz \<rparr>)"

text \<open>The capture function of the connector; the mode and the price band are not used.\<close>

definition capture :: "OrderBookManager \<Rightarrow> string \<Rightarrow> u64 \<Rightarrow> Snapshot" where
  "capture m symbol maxLevels =
     (let ds = buildSnapshot symbol maxLevels m; tick = getTickSize symbol m;
          bids = map (capture_level tick) (sn_bids ds); asks = map (capture_level tick) (sn_asks ds)
      in \<lparr> ss_bids = bids, ss_asks = asks,
           ss_meta = \<lparr> mt_seq = sn_seq ds, mt_epoch = sn_epoch ds, mt_stale = False,
                       mt_bidLevels = length bids, mt_askLevels = length asks, mt_lastChangeMs = 0 \<rparr> \<rparr>)"

section \<open>The provider\<close>

text \<open>The split of the provider keeps empty parts.\<close>

fun provider_split :: "char \<Rightarrow> string \<Rightarrow> string \<Rightarrow> string list" where
  "provider_split d cur [] = [cur]"
| "provider_split d cur (c # cs) = (if c = d then cur # provider_split d [] cs else provider_split d (cur @ [c]) cs)"

text \<open>
  \<^verbatim>\<open>std::stoi\<close>: \<^const>\<open>None\<close> is the exception for text without a number and for a number that is no
  \<^verbatim>\<open>int\<close>; the text after the number is ignored.
\<close>

definition toInt :: "string \<Rightarrow> int option" where
  "toInt s = (case strtol (c_str s) of (v, rest) \<Rightarrow>
     if rest = c_str s then None else if int_min \<le> v \<and> v \<le> int_max then Some v else None)"

definition level_depth :: "u64 \<Rightarrow> int \<Rightarrow> u64" where
  "level_depth defPer n = max defPer (word_of_int n)"

definition level_metric :: "string \<Rightarrow> Level \<Rightarrow> double" where
  "level_metric metric l = (if metric = ''price'' then lv_price l else if metric = ''size'' then lv_size l
     else if metric = ''notional'' then lv_notional l else if metric = ''orders'' then lv_orders l else DNaN)"

text \<open>The loop of a cumulative key; an unknown metric ends it at the first level.\<close>

fun cum_loop :: "string \<Rightarrow> Level list \<Rightarrow> double \<Rightarrow> double" where
  "cum_loop metric [] acc = acc"
| "cum_loop metric (l # ls) acc =
     (if metric = ''size'' then cum_loop metric ls (dadd acc (lv_size l))
      else if metric = ''notional'' then cum_loop metric ls (dadd acc (lv_notional l))
      else if metric = ''orders'' then cum_loop metric ls (dadd acc (lv_orders l)) else DNaN)"

definition provider_imbalance :: "Snapshot \<Rightarrow> int \<Rightarrow> int \<Rightarrow> double" where
  "provider_imbalance snap m n =
     (let hi = min n (min (int (length (ss_bids snap))) (int (length (ss_asks snap))));
          (b, a) = fold (\<lambda>i (b, a). (dadd b (lv_size (ss_bids snap ! i)), dadd a (lv_size (ss_asks snap ! i))))
                     (level_indices m hi) (DZero False, DZero False);
          den = dadd b a
      in if dle den (DZero False) then DZero False else ddiv (dsub b a) den)"

text \<open>\<^verbatim>\<open>getImpl\<close> over a capture function; \<^const>\<open>None\<close> is an exception.\<close>

definition getImpl :: "(string \<Rightarrow> u64 \<Rightarrow> Snapshot) \<Rightarrow> u64 \<Rightarrow> string \<Rightarrow> string \<Rightarrow> double option" where
  "getImpl cap defPer symbol fullKey =
     (if fullKey = ''ob.spread'' then
        let snap = cap symbol 1
        in Some (if ss_bids snap = [] \<or> ss_asks snap = [] then DNaN
                 else dsub (lv_price (ss_asks snap ! 0)) (lv_price (ss_bids snap ! 0)))
      else
        let parts = provider_split (CHR ''.'') [] fullKey; n = length parts
        in if n = 5 \<and> parts ! 0 = ''ob'' \<and> parts ! 1 = ''level'' \<and> (parts ! 2 = ''bid'' \<or> parts ! 2 = ''ask'') then
             (case toInt (parts ! 3) of
                None \<Rightarrow> None
              | Some k \<Rightarrow> if k \<le> 0 then Some DNaN
                  else let snap = cap symbol (level_depth defPer k);
                           vec = (if parts ! 2 = ''bid'' then ss_bids snap else ss_asks snap)
                       in Some (if int (length vec) < k then DNaN else level_metric (parts ! 4) (vec ! nat (k - 1))))
           else if n = 6 \<and> parts ! 0 = ''ob'' \<and> parts ! 1 = ''cum'' \<and> (parts ! 2 = ''bid'' \<or> parts ! 2 = ''ask'')
                   \<and> parts ! 3 = ''levels'' then
             (case toInt (parts ! 4) of
                None \<Rightarrow> None
              | Some k \<Rightarrow> if k \<le> 0 then Some DNaN
                  else let snap = cap symbol (level_depth defPer k);
                           vec = (if parts ! 2 = ''bid'' then ss_bids snap else ss_asks snap)
                       in Some (cum_loop (parts ! 5) (take (nat (min k (int (length vec)))) vec) (DZero False)))
           else if n = 4 \<and> parts ! 0 = ''ob'' \<and> parts ! 1 = ''imbalance'' \<and> parts ! 2 = ''levels'' then
             (let range = parts ! 3
              in if CHR ''-'' \<notin> set range then Some DNaN
                 else let left = takeWhile (\<lambda>c. c \<noteq> CHR ''-'') range
                      in case (toInt left, toInt (drop (length left + 1) range)) of
                           (Some a, Some b) \<Rightarrow> if a \<le> 0 \<or> b < a then Some DNaN
                              else Some (provider_imbalance (cap symbol (level_depth defPer b)) a b)
                         | _ \<Rightarrow> None)
           else Some DNaN)"

definition Provider_get :: "(string \<Rightarrow> u64 \<Rightarrow> Snapshot) \<Rightarrow> u64 \<Rightarrow> string \<Rightarrow> string \<Rightarrow> double" where
  "Provider_get cap defPer symbol fullKey = (case getImpl cap defPer symbol fullKey of None \<Rightarrow> DNaN | Some v \<Rightarrow> v)"

text \<open>The namespace \<^verbatim>\<open>ob\<close> as the connector registers it.\<close>

definition ob_namespace :: "OrderBookManager \<Rightarrow> string \<Rightarrow> string \<Rightarrow> double" where
  "ob_namespace m symbol fullKey = Provider_get (capture m) 10 symbol fullKey"

end
