(* ===== verification/Ob_Key_Thms.thy ===== *)
theory Ob_Key_Thms
  imports Ob_Key
begin

text \<open>
  Keys that name levels by index are written and read back unchanged: \<open>key_spec\<close> lists what the parser can
  produce, \<open>spec_tokens\<close> the tokens of its text.
\<close>

section \<open>Splitting\<close>

lemma split_loop_token: "sep \<notin> set x \<Longrightarrow> cur @ x \<noteq> [] \<Longrightarrow> split_loop sep cur (x @ sep # r) = (cur @ x) # split_loop sep [] r"
  by (induction x arbitrary: cur) auto

lemma split_loop_end: "sep \<notin> set x \<Longrightarrow> split_loop sep cur x = (if cur @ x = [] then [] else [cur @ x])"
  by (induction x arbitrary: cur) auto

lemma split_token: "sep \<notin> set x \<Longrightarrow> x \<noteq> [] \<Longrightarrow> ob_split sep (x @ sep # r) = x # ob_split sep r"
  by (simp add: ob_split_def split_loop_token)

lemma split_single: "sep \<notin> set x \<Longrightarrow> x \<noteq> [] \<Longrightarrow> ob_split sep x = [x]"
  by (simp add: ob_split_def split_loop_end)

lemma split_empty [simp]: "ob_split sep [] = []" "ob_split sep (sep # r) = ob_split sep r"
  by (simp_all add: ob_split_def)

lemma split_loop_tokens: "sep \<notin> set cur \<Longrightarrow> t \<in> set (split_loop sep cur s) \<Longrightarrow> t \<noteq> [] \<and> sep \<notin> set t"
  by (induction sep cur s rule: split_loop.induct) (auto split: if_splits)

lemma split_tokens: "t \<in> set (ob_split sep s) \<Longrightarrow> t \<noteq> [] \<and> sep \<notin> set t"
  unfolding ob_split_def by (rule split_loop_tokens [of sep "[]"]) simp_all

section \<open>Numbers\<close>

definition level_number :: "int \<Rightarrow> bool" where
  "level_number n \<longleftrightarrow> 1 \<le> n \<and> n \<le> int_max"

lemma int_of_long_id: "int_min \<le> n \<Longrightarrow> n \<le> int_max \<Longrightarrow> int_of_long n = n"
  by (simp add: int_of_long_def int_min_def int_max_def)

lemma int_of_long_max: "int_of_long v \<le> int_max"
  using pos_mod_bound [of "2 ^ 32" "v + 2 ^ 31"] by (simp add: int_of_long_def int_max_def)

lemma to_string_digits: "0 \<le> n \<Longrightarrow> list_all isdigit (to_string n)"
  using nat_text_digits by (simp add: to_string_def)

lemma to_string_chars:
  assumes "0 \<le> n"
  shows "CHR ''.'' \<notin> set (to_string n)" "CHR ''-'' \<notin> set (to_string n)" "to_string n \<noteq> []" "c_str (to_string n) = to_string n"
proof -
  have d: "\<And>c. c \<in> set (to_string n) \<Longrightarrow> isdigit c" using to_string_digits [OF assms] by (simp add: list_all_iff)
  have "\<not> isdigit (CHR ''.'')" "\<not> isdigit (CHR ''-'')" "\<not> isdigit (CHR 0x00)" by (simp_all add: isdigit_def char_code_def)
  then show "CHR ''.'' \<notin> set (to_string n)" "CHR ''-'' \<notin> set (to_string n)" "c_str (to_string n) = to_string n"
    using d by (auto simp: c_str_def takeWhile_eq_all_conv)
  show "to_string n \<noteq> []" using assms by (simp add: to_string_def)
qed

lemma parseInt_to_string: "level_number n \<Longrightarrow> parseInt (to_string n) = Some n"
proof -
  assume n: "level_number n"
  then have "strtol (to_string n @ []) = (n, [])"
    by (intro strtol_to_string) (auto simp: level_number_def int_max_def long_min_def long_max_def)
  then show ?thesis using n to_string_chars(4) [of n] int_of_long_id [of n]
    by (simp add: parseInt_def level_number_def int_min_def)
qed

lemma parseInt_level: "parseInt s = Some n \<Longrightarrow> 1 \<le> n \<Longrightarrow> level_number n"
  using int_of_long_max by (auto simp: parseInt_def level_number_def split: prod.splits if_splits)

definition level_range :: "Range \<Rightarrow> bool" where
  "level_range r \<longleftrightarrow> level_number (rg_a r) \<and> level_number (rg_b r) \<and> rg_a r \<le> rg_b r"

lemma range_split: "level_range r \<Longrightarrow> ob_split (CHR ''-'') (range_text r) = [to_string (rg_a r), to_string (rg_b r)]"
  using to_string_chars [of "rg_a r"] to_string_chars [of "rg_b r"]
  by (simp add: range_text_def level_range_def level_number_def split_token split_single)

lemma parse_levels_text: "level_range r \<Longrightarrow> parse_levels (range_text r) = Some r"
  by (simp add: parse_levels_def range_split) (simp add: level_range_def parseInt_to_string level_number_def)

lemma parse_depth_text: "level_range r \<Longrightarrow> parse_depth (range_text r) = Some r"
proof -
  assume r: "level_range r"
  then have n: "0 \<le> rg_a r" "0 \<le> rg_b r" by (auto simp: level_range_def level_number_def)
  have "c_str (range_text r) = range_text r"
    using to_string_chars(4) [OF n(1)] to_string_chars(4) [OF n(2)]
    by (auto simp: range_text_def c_str_def takeWhile_eq_all_conv)
  moreover have "strtol (to_string (rg_a r) @ CHR ''-'' # to_string (rg_b r)) = (rg_a r, CHR ''-'' # to_string (rg_b r))"
    using r by (intro strtol_to_string)
      (auto simp: level_range_def level_number_def int_max_def long_min_def long_max_def isdigit_def char_code_def)
  ultimately have "parseInt (range_text r) = None" by (simp add: parseInt_def range_text_def)
  then show ?thesis using parse_levels_text [OF r] by (simp add: parse_depth_def)
qed

lemma parse_levels_range: "parse_levels s = Some r \<Longrightarrow> level_range r"
  by (auto simp: parse_levels_def level_range_def split: list.splits option.splits if_splits dest: parseInt_level)

lemma parse_depth_range: "parse_depth s = Some r \<Longrightarrow> level_range r"
  by (auto simp: parse_depth_def level_range_def level_number_def int_max_def split: option.splits if_splits
      dest: parse_levels_range [unfolded level_range_def level_number_def int_max_def] parseInt_level [unfolded level_number_def int_max_def])

lemma range_text_chars: "level_range r \<Longrightarrow> CHR ''.'' \<notin> set (range_text r) \<and> range_text r \<noteq> []"
  using to_string_chars [of "rg_a r"] to_string_chars [of "rg_b r"]
  by (simp add: range_text_def level_range_def level_number_def)

section \<open>Words\<close>

definition named :: "Target \<Rightarrow> bool" where
  "named t \<longleftrightarrow> t \<noteq> TNone"

lemmas word_case = lower_def tolower_def char_code_def Let_def

lemma parse_words:
  "parseSide (side_text s) = Some s"
  "named t \<Longrightarrow> parseTarget (target_text t) = Some t"
  "named t \<Longrightarrow> parseTarget (cum_text t) = Some t"
  by (cases s; simp add: parseSide_def word_case) (cases t; simp add: parseTarget_def named_def word_case)+

lemma parse_best_words: "parseTarget ''price'' = Some TPrice" "parseTarget ''size'' = Some TSize"
  by (simp_all add: parseTarget_def word_case)

lemma parse_words_named: "parseTarget x = Some t \<Longrightarrow> named t"
  by (auto simp: parseTarget_def named_def Let_def split: if_splits)

text \<open>The word of a reduction without its dot.\<close>

fun reduce_word :: "Reduce \<Rightarrow> string" where
  "reduce_word RSum = ''sum''"
| "reduce_word RAvg = ''avg''"
| "reduce_word RMin = ''min''"
| "reduce_word RMax = ''max''"
| "reduce_word _ = ''count''"

lemma reduce_words:
  "r \<noteq> RNone \<Longrightarrow> reduce_text r = reduce_word r @ ''.''"
  "r \<noteq> RNone \<Longrightarrow> parseReduce (reduce_word r) = Some r"
  by (cases r; simp add: parseReduce_def word_case)+

lemma parseReduce_named: "parseReduce x = Some r \<Longrightarrow> r \<noteq> RNone"
  by (auto simp: parseReduce_def Let_def split: if_splits)

section \<open>Keys by level\<close>

datatype key_spec =
    KSpread | KMid
  | KBest ObSide Target
  | KLevel ObSide int Target
  | KRange ObSide Range Reduce Target
  | KCum ObSide int Target
  | KVwap ObSide Range
  | KImb Range
  | KMeta string "string option"

fun spec_ok :: "key_spec \<Rightarrow> bool" where
  "spec_ok (KBest s t) \<longleftrightarrow> t = TPrice \<or> t = TSize"
| "spec_ok (KLevel s n t) \<longleftrightarrow> level_number n \<and> named t"
| "spec_ok (KRange s r rd t) \<longleftrightarrow> level_range r \<and> rd \<noteq> RNone \<and> (if rd = RCount then t = TNone else named t)"
| "spec_ok (KCum s n t) \<longleftrightarrow> level_number n \<and> named t"
| "spec_ok (KVwap s r) \<longleftrightarrow> level_range r"
| "spec_ok (KImb r) \<longleftrightarrow> level_range r"
| "spec_ok (KMeta f g) \<longleftrightarrow> f \<noteq> [] \<and> CHR ''.'' \<notin> set f \<and>
     (case g of None \<Rightarrow> True | Some x \<Rightarrow> f = ''levels'' \<and> x \<noteq> [] \<and> CHR ''.'' \<notin> set x)"
| "spec_ok _ \<longleftrightarrow> True"

fun fill_key :: "key_spec \<Rightarrow> ObKey \<Rightarrow> ObKey" where
  "fill_key KSpread k = k \<lparr> ok_metric := MSpread \<rparr>"
| "fill_key KMid k = k \<lparr> ok_metric := MMid \<rparr>"
| "fill_key (KBest s t) k = k \<lparr> ok_metric := MBest, ok_bestSide := s, ok_bestAttr := t \<rparr>"
| "fill_key (KLevel s n t) k = k \<lparr> ok_metric := MLevelIdx, ok_levelIdx := \<lparr> li_side = s, li_n = n, li_attr = t \<rparr> \<rparr>"
| "fill_key (KRange s r rd t) k =
     k \<lparr> ok_metric := MRangeIdx, ok_rangeIdx := \<lparr> ri_side = s, ri_lv = r, ri_reduce = rd, ri_target = t \<rparr> \<rparr>"
| "fill_key (KCum s n t) k = k \<lparr> ok_metric := MCum, ok_cumSide := s, ok_cumN := n, ok_cumTarget := t \<rparr>"
| "fill_key (KVwap s r) k = k \<lparr> ok_metric := MVWAP, ok_vwapSide := s, ok_vwapLv := r, ok_vwapByLevels := True \<rparr>"
| "fill_key (KImb r) k = k \<lparr> ok_metric := MImbalance, ok_imbLv := r, ok_imbByLevels := True \<rparr>"
| "fill_key (KMeta f g) k = k \<lparr> ok_metric := MMeta, ok_metaField := f @ (case g of None \<Rightarrow> [] | Some x \<Rightarrow> ''.'' @ x) \<rparr>"

definition moded :: "Mode \<Rightarrow> ObKey" where
  "moded m = ObKey_init \<lparr> ok_mode := m \<rparr>"

fun spec_tokens :: "key_spec \<Rightarrow> string list" where
  "spec_tokens KSpread = [''spread'']"
| "spec_tokens KMid = [''mid'']"
| "spec_tokens (KBest s t) = [''best'', side_text s, target_text t]"
| "spec_tokens (KLevel s n t) = [''level'', side_text s, to_string n, target_text t]"
| "spec_tokens (KRange s r rd t) =
     [''range'', side_text s, ''levels'', range_text r, reduce_word rd] @ (if rd = RCount then [] else [target_text t])"
| "spec_tokens (KCum s n t) = [''cum'', side_text s, ''levels'', to_string n, cum_text t]"
| "spec_tokens (KVwap s r) = [''vwap'', side_text s, ''levels'', range_text r]"
| "spec_tokens (KImb r) = [''imbalance'', ''levels'', range_text r]"
| "spec_tokens (KMeta f g) = [''meta'', f] @ (case g of None \<Rightarrow> [] | Some x \<Rightarrow> [x])"

text \<open>The tokens are read back.\<close>

lemma parse_spec_tokens: "spec_ok q \<Longrightarrow> parse_metric (''ob'' # spec_tokens q) k = Some (fill_key q k)"
  by (cases q)
    (auto simp: parse_metric_def Let_def parse_best_def parse_level_def parse_range_levels_def parse_cum_def parse_vwap_def
      parse_imbalance_def parse_meta_def parse_words parse_best_words parseInt_to_string parse_levels_text parse_depth_text parse_reduction_def
      reduce_words named_def level_number_def split: if_splits option.splits)

text \<open>Whatever is parsed is such a key, or names a price.\<close>

definition by_price :: "ObKey \<Rightarrow> bool" where
  "by_price k \<longleftrightarrow> ok_metric k = MLevelPx \<or> ok_metric k = MRangePx \<or>
     (ok_metric k = MVWAP \<and> \<not> ok_vwapByLevels k) \<or> (ok_metric k = MImbalance \<and> \<not> ok_imbByLevels k)"

lemma parse_reduction_ok:
  "parse_reduction ts = Some (rd, t) \<Longrightarrow> rd \<noteq> RNone \<and> (if rd = RCount then t = TNone else named t)"
  by (auto simp: parse_reduction_def split: list.splits option.splits if_splits dest: parseReduce_named parse_words_named)

definition specified :: "ObKey \<Rightarrow> ObKey \<Rightarrow> bool" where
  "specified k0 k \<longleftrightarrow> (\<exists>q. spec_ok q \<and> k = fill_key q k0)"

lemma specifiedI: "spec_ok q \<Longrightarrow> specified k0 (fill_key q k0)"
  unfolding specified_def by blast

lemmas specified_intros =
  specifiedI [of KSpread, simplified fill_key.simps] specifiedI [of KMid, simplified fill_key.simps]
  specifiedI [of "KBest s t" for s t, simplified fill_key.simps] specifiedI [of "KLevel s n t" for s n t, simplified fill_key.simps]
  specifiedI [of "KRange s r rd t" for s r rd t, simplified fill_key.simps] specifiedI [of "KCum s n t" for s n t, simplified fill_key.simps]
  specifiedI [of "KVwap s r" for s r, simplified fill_key.simps] specifiedI [of "KImb r" for r, simplified fill_key.simps]

lemma parse_best_specified: "parse_best t k0 = Some k \<Longrightarrow> specified k0 k"
  by (auto simp: parse_best_def split: option.splits if_splits intro!: specified_intros)

lemma parse_level_specified: "parse_level t k0 = Some k \<Longrightarrow> specified k0 k"
  by (auto simp: parse_level_def not_less split: option.splits if_splits intro!: specified_intros dest: parseInt_level parse_words_named)

lemma parse_range_specified: "parse_range_levels t k0 = Some k \<Longrightarrow> specified k0 k"
  by (auto simp: parse_range_levels_def split: option.splits prod.splits intro!: specified_intros
      dest: parse_levels_range dest!: parse_reduction_ok split: if_splits)

lemma parse_cum_specified: "parse_cum t k0 = Some k \<Longrightarrow> specified k0 k"
  by (auto simp: parse_cum_def not_less split: option.splits if_splits intro!: specified_intros dest: parseInt_level parse_words_named)

lemma parse_vwap_specified: "parse_vwap t k0 = Some k \<Longrightarrow> specified k0 k \<or> by_price k"
  by (auto simp: parse_vwap_def by_price_def split: option.splits if_splits prod.splits intro!: specified_intros dest: parse_depth_range)

lemma parse_imbalance_specified: "parse_imbalance t k0 = Some k \<Longrightarrow> specified k0 k \<or> by_price k"
  by (auto simp: parse_imbalance_def by_price_def split: option.splits if_splits prod.splits intro!: specified_intros dest: parse_depth_range)

lemmas parsers_specified =
  parse_best_specified parse_level_specified parse_range_specified parse_cum_specified parse_vwap_specified parse_imbalance_specified

lemma parse_at_price: "parse_at t k0 = Some k \<Longrightarrow> by_price k" "parse_range_price t k0 = Some k \<Longrightarrow> by_price k"
  by (auto simp: parse_at_def parse_range_price_def by_price_def split: option.splits)

lemma parse_meta_specified:
  assumes "parse_meta t k0 = Some k" "\<forall>x \<in> set t. x \<noteq> [] \<and> CHR ''.'' \<notin> set x"
  shows "specified k0 k"
proof (cases "length t = 3")
  case True
  then have "spec_ok (KMeta (t ! 2) None)" "k = fill_key (KMeta (t ! 2) None) k0" using assms by (auto simp: parse_meta_def)
  then show ?thesis by (metis specifiedI)
next
  case False
  then have t: "length t = 4" "t ! 2 = ''levels''" using assms(1) by (auto simp: parse_meta_def split: if_splits)
  then have "spec_ok (KMeta ''levels'' (Some (t ! 3)))" "k = fill_key (KMeta ''levels'' (Some (t ! 3))) k0"
    using assms False by (auto simp: parse_meta_def)
  then show ?thesis by (metis specifiedI)
qed

lemma parsed_is_spec:
  assumes "parse_metric t k0 = Some k" "\<forall>x \<in> set t. x \<noteq> [] \<and> CHR ''.'' \<notin> set x" "\<not> by_price k"
  shows "specified k0 k"
  using assms parsers_specified [of t k0 k] parse_at_price [of t k0 k] parse_meta_specified [of t k0 k]
  by (auto simp: parse_metric_def Let_def split: if_splits intro: specified_intros)

section \<open>The round trip\<close>

lemma key_words [simp]:
  "CHR ''.'' \<notin> set (side_text s)" "side_text s \<noteq> []" "CHR ''.'' \<notin> set (target_text t)" "target_text t \<noteq> []"
  "CHR ''.'' \<notin> set (cum_text t)" "cum_text t \<noteq> []" "CHR ''.'' \<notin> set (reduce_word r)" "reduce_word r \<noteq> []"
  by (cases s; simp; fail | cases t; simp; fail | cases r; simp; fail)+

text \<open>The tokens of a dotted text.\<close>

fun dotted :: "string list \<Rightarrow> string" where
  "dotted [] = []"
| "dotted [t] = t"
| "dotted (t # ts) = t @ ''.'' @ dotted ts"

definition token :: "string \<Rightarrow> bool" where
  "token t \<longleftrightarrow> t \<noteq> [] \<and> CHR ''.'' \<notin> set t"

lemma split_dotted: "list_all token ts \<Longrightarrow> ob_split (CHR ''.'') (dotted ts) = ts"
  by (induction ts rule: dotted.induct) (simp_all add: token_def split_token split_single)

lemma split_dotted_dot: "list_all token ts \<Longrightarrow> ts \<noteq> [] \<Longrightarrow> ob_split (CHR ''.'') (dotted ts @ CHR ''.'' # r) = ts @ ob_split (CHR ''.'') r"
  by (induction ts rule: dotted.induct) (simp_all add: token_def split_token)

lemma spec_tokens_ok: "spec_ok q \<Longrightarrow> list_all token (''ob'' # spec_tokens q)"
  by (cases q) (auto simp: token_def level_number_def to_string_chars range_text_chars split: option.splits)

text \<open>The text of a key is its tokens with dots between; that of a counted range has one dot more.\<close>

definition counted :: "key_spec \<Rightarrow> bool" where
  "counted q \<longleftrightarrow> (case q of KRange s r rd t \<Rightarrow> rd = RCount | _ \<Rightarrow> False)"

lemma metric_text_spec: "spec_ok q \<Longrightarrow>
    ''ob.'' @ metric_text (fill_key q k) = dotted (''ob'' # spec_tokens q) @ (if counted q then ''.'' else [])"
  by (cases q) (auto simp: metric_text_def counted_def Let_def reduce_words(1) split: option.splits)

lemma fill_mode [simp]: "ok_mode (fill_key q (moded m)) = m"
  by (cases q) (simp_all add: moded_def)

lemma format_tokens:
  assumes "spec_ok q"
  shows "ob_split (CHR ''.'') (formatObKey (fill_key q (moded m))) = ''ob'' # spec_tokens q @ (if m = Agg then [''agg''] else [])"
proof -
  have "formatObKey (fill_key q (moded m)) =
      dotted (''ob'' # spec_tokens q) @ (if counted q then ''.'' else []) @ (if m = Agg then ''.agg'' else [])"
    using metric_text_spec [OF assms, of "moded m"] by (simp add: formatObKey_def)
  moreover have "ob_split (CHR ''.'') ''agg'' = [''agg'']" by (simp add: ob_split_def)
  ultimately show ?thesis
    using split_dotted [OF spec_tokens_ok [OF assms]] split_dotted_dot [OF spec_tokens_ok [OF assms]] by auto
qed


text \<open>A field of the book's meta data that reads as a mode.\<close>

definition meta_mode :: "ObKey \<Rightarrow> bool" where
  "meta_mode k \<longleftrightarrow> ok_metric k = MMeta \<and> ok_mode k = Per \<and>
     last (ob_split (CHR ''.'') (ok_metaField k)) \<in> {''per'', ''agg''}"

lemma meta_field_split: "spec_ok (KMeta f g) \<Longrightarrow>
    last (ob_split (CHR ''.'') (f @ (case g of None \<Rightarrow> [] | Some x \<Rightarrow> ''.'' @ x))) = (case g of None \<Rightarrow> f | Some x \<Rightarrow> x)"
  by (auto simp: split_token split_single split: option.splits)

lemma range_text_mode: "range_text r \<noteq> ''per''" "range_text r \<noteq> ''agg''"
proof -
  have "CHR ''-'' \<in> set (range_text r)" by (simp add: range_text_def)
  then show "range_text r \<noteq> ''per''" "range_text r \<noteq> ''agg''" by auto
qed

lemma word_modes [simp]:
  "target_text t \<noteq> ''per''" "target_text t \<noteq> ''agg''" "cum_text t \<noteq> ''per''" "cum_text t \<noteq> ''agg''"
  by (cases t; simp)+

lemma spec_last_mode: "spec_ok q \<Longrightarrow> \<not> meta_mode (fill_key q (moded Per)) \<Longrightarrow> last (spec_tokens q) \<notin> {''per'', ''agg''}"
  by (cases q) (auto simp: meta_mode_def moded_def meta_field_split range_text_mode split: option.splits)

lemma moded_Per: "ObKey_init = moded Per"
  by (simp add: moded_def ObKey_init_def)

lemma spec_tokens_nonempty [simp]: "spec_tokens q \<noteq> []"
  by (cases q) simp_all

lemma parse_written:
  assumes "spec_ok q" "\<not> meta_mode (fill_key q (moded m))"
  shows "parseObKey (formatObKey (fill_key q (moded m))) = Some (fill_key q (moded m))"
proof (cases m)
  case Agg
  then show ?thesis using format_tokens [OF assms(1), of Agg] parse_spec_tokens [OF assms(1)]
    by (simp add: parseObKey_def Let_def moded_def butlast_append)
next
  case Per
  then show ?thesis using format_tokens [OF assms(1), of Per] parse_spec_tokens [OF assms(1)] spec_last_mode [OF assms(1)] assms(2)
    by (auto simp: parseObKey_def Let_def moded_Per)
qed

lemma parsed_specified:
  assumes "parseObKey s = Some k" "\<not> by_price k"
  shows "\<exists>m. specified (moded m) k"
proof -
  let ?t = "ob_split (CHR ''.'') s"
  obtain t m where "parse_metric t (moded m) = Some k" "set t \<subseteq> set ?t"
  proof (cases "2 \<le> length ?t \<and> last ?t \<in> {''per'', ''agg''}")
    case True
    then show ?thesis using assms(1) that [of "butlast ?t" "if last ?t = ''agg'' then Agg else Per"] in_set_butlastD
      by (fastforce simp: parseObKey_def Let_def moded_def split: if_splits)
  next
    case False
    then show ?thesis using assms(1) that [of ?t Per] by (auto simp: parseObKey_def Let_def moded_Per split: if_splits)
  qed
  then show ?thesis using parsed_is_spec assms(2) split_tokens by blast
qed

text \<open>C26. A parsed key that names its levels by number, written by \<^verbatim>\<open>formatObKey\<close>, is parsed as the same key:
  the mode, the metric and its parameters survive, whatever spelling they were read from. Excluded are the keys
  by price, and the fields of the meta data that read as a mode.\<close>

theorem obkey_roundtrip:
  assumes "parseObKey s = Some k" "\<not> by_price k" "\<not> meta_mode k"
  shows "parseObKey (formatObKey k) = Some k"
  using parsed_specified [OF assms(1,2)] parse_written assms(3) unfolding specified_def by metis

text \<open>The key \<^verbatim>\<open>ob.vwap.BID.levels.3.agg\<close> is written with its range and a lower-case side.\<close>

lemma demo_key: "parseObKey ''ob.vwap.BID.levels.3.agg'' =
    Some (moded Agg \<lparr> ok_metric := MVWAP, ok_vwapSide := OBid, ok_vwapLv := \<lparr> rg_a = 1, rg_b = 3 \<rparr>, ok_vwapByLevels := True \<rparr>)"
  by code_simp

lemma demo_key_text: "formatObKey (moded Agg \<lparr> ok_metric := MVWAP, ok_vwapSide := OBid,
    ok_vwapLv := \<lparr> rg_a = 1, rg_b = 3 \<rparr>, ok_vwapByLevels := True \<rparr>) = ''ob.vwap.bid.levels.1-3.agg''"
  by code_simp

theorem obkey_roundtrip_witness:
  "parseObKey ''ob.vwap.bid.levels.1-3.agg'' = parseObKey ''ob.vwap.BID.levels.3.agg''"
  using obkey_roundtrip [OF demo_key] demo_key demo_key_text by (simp add: by_price_def meta_mode_def moded_def)

section \<open>Keys that are not read as written\<close>

text \<open>A price with a decimal point is split at the point.\<close>

lemma decimal_price_rejected:
  "parseObKey ''ob.at.bid.100.25.size'' = None" "parseObKey ''ob.vwap.bid.price.99.5-100.5'' = None"
  by code_simp+

text \<open>A level of \<^verbatim>\<open>2^32 + 1\<close> is the first level.\<close>

lemma level_wraps: "parseObKey ''ob.level.bid.4294967297.size'' = parseObKey ''ob.level.bid.1.size''"
  by code_simp

end
