(* ===== verification/Ob_Imbalance.thy ===== *)
theory Ob_Imbalance
  imports Ob_Provider Ob_Key_Thms Ieee_Bounds
begin

text \<open>
  The imbalance of a book lies between minus one and one: sizes are 64-bit integers rounded to doubles, sums of
  fewer than \<^verbatim>\<open>2^53\<close> of them stay finite, and rounding is monotone, so the rounded difference never
  exceeds the rounded sum.
\<close>

section \<open>Sums of sizes\<close>

text \<open>A sum of \<open>n\<close> sizes.\<close>

definition qty :: "nat \<Rightarrow> double \<Rightarrow> bool" where
  "qty n d \<longleftrightarrow> isfinite d \<and> 0 \<le> dval d \<and> dval d \<le> of_int (int n) * pow2 64"

definition unit_double :: "double \<Rightarrow> bool" where
  "unit_double d \<longleftrightarrow> isfinite d \<and> - 1 \<le> dval d \<and> dval d \<le> 1"

lemma representable_qty: "n < 2 ^ 53 \<Longrightarrow> representable (of_int (int n) * pow2 64)"
proof -
  assume "n < 2 ^ 53"
  then have "\<bar>int n\<bar> < 2 ^ 53" by (metis abs_of_nat of_nat_less_iff of_nat_numeral of_nat_power)
  then show ?thesis unfolding representable_def by (intro exI [of _ "int n"] exI [of _ 64]) simp
qed

lemma qty_bound: "n < 2 ^ 53 \<Longrightarrow> of_int (int n) * pow2 64 < (2 ^ 1024 :: rat)"
proof -
  assume "n < 2 ^ 53"
  then have "(of_int (int n) :: rat) < 2 ^ 53" by (metis of_int_of_nat_eq of_nat_less_iff of_nat_numeral of_nat_power)
  then have "of_int (int n) * pow2 64 < 2 ^ 53 * pow2 64" by simp
  also have "(2 :: rat) ^ 53 * pow2 64 = 2 ^ 117" by (simp add: power_int_def)
  also have "(2 :: rat) ^ 117 < 2 ^ 1024" by (rule power_strict_increasing) auto
  finally show ?thesis .
qed

lemma round_qty:
  assumes "0 \<le> x" "x \<le> of_int (int n) * pow2 64" "n < 2 ^ 53"
  shows "qty n (round_double z x) \<and> dval (round_double z x) = rnd x"
proof -
  have r: "0 \<le> rnd x" "rnd x \<le> of_int (int n) * pow2 64"
    using rnd.between [OF rnd.exact_0 representable_qty [OF assms(3)] assms(1,2)] by auto
  then have "\<bar>rnd x\<bar> < 2 ^ 1024" using qty_bound [OF assms(3)] by linarith
  then show ?thesis using round_finite [of x z] r by (simp add: qty_def)
qed

lemma qty_mono: "qty n d \<Longrightarrow> n \<le> m \<Longrightarrow> qty m d"
proof -
  assume q: "qty n d" "n \<le> m"
  then have "of_int (int n) * pow2 64 \<le> of_int (int m) * pow2 64" by (intro mult_right_mono) auto
  then show ?thesis using q(1) by (auto simp: qty_def)
qed

lemma qty_add:
  assumes "qty a x" "qty b y" "a + b < 2 ^ 53"
  shows "qty (a + b) (dadd x y) \<and> dval (dadd x y) = rnd (dval x + dval y)"
proof -
  obtain z where z: "dadd x y = round_double z (dval x + dval y)"
    using assms(1,2) by (meson dadd_finite qty_def)
  have "dval x + dval y \<le> of_int (int (a + b)) * pow2 64" using assms(1,2) by (simp add: qty_def distrib_right)
  then show ?thesis using round_qty [of "dval x + dval y" "a + b" z] assms unfolding z by (simp add: qty_def)
qed

lemma qty_size: "qty 1 (double_of_int (uint (w :: u64)))"
proof -
  have "(of_int (uint w) :: rat) \<le> of_int (2 ^ 64)" using uint_bounded [of w] by (simp only: of_int_le_iff) simp
  moreover have "(0 :: rat) \<le> of_int (uint w)" by (simp only: of_int_0_le_iff) simp
  ultimately show ?thesis using round_qty [of "of_int (uint w)" 1 False] by (simp add: double_of_int_def power_int_def)
qed

section \<open>The quotient\<close>

lemma unit_quotient:
  assumes "isfinite d" "isfinite t" "0 < dval t" "\<bar>dval d\<bar> \<le> dval t"
  shows "unit_double (ddiv d t)"
proof -
  have "\<exists>z. ddiv d t = round_double z (dval d / dval t)"
    using assms by (elim finite_cases) (auto simp: round_double_def Let_def)
  then obtain z where z: "ddiv d t = round_double z (dval d / dval t)" by blast
  have q: "- 1 \<le> dval d / dval t" "dval d / dval t \<le> 1" using assms(3,4) by (auto simp: field_simps abs_le_iff)
  have "representable 1" "representable (- 1)" using representable_int [of 1] representable_int [of "- 1"] by auto
  then have r: "- 1 \<le> rnd (dval d / dval t)" "rnd (dval d / dval t) \<le> 1" using rnd.between q by blast+
  have "(1 :: rat) < 2 ^ 1024" by simp
  then have "\<bar>rnd (dval d / dval t)\<bar> < 2 ^ 1024" using r by linarith
  then show ?thesis using round_finite [of "dval d / dval t" z] r unfolding z unit_double_def by simp
qed

lemma imbalance_unit:
  assumes "qty n b" "qty k a" "n + k < 2 ^ 53"
  shows "unit_double (imbalance_of b a)"
proof -
  have t: "qty (n + k) (dadd b a)" "dval (dadd b a) = rnd (dval b + dval a)" using qty_add [OF assms] by auto
  obtain z where z: "dsub b a = round_double z (dval b - dval a)" using assms(1,2) by (meson dsub_finite qty_def)
  have "\<bar>dval b - dval a\<bar> \<le> dval b + dval a" using assms(1,2) by (auto simp: qty_def)
  then have le: "\<bar>rnd (dval b - dval a)\<bar> \<le> dval (dadd b a)" using rnd_abs_le t(2) by simp
  have "dval (dadd b a) < 2 ^ 1024" using t(1) qty_bound [OF assms(3)] by (simp add: qty_def)
  then have d: "isfinite (dsub b a)" "dval (dsub b a) = rnd (dval b - dval a)"
    using round_finite [of "dval b - dval a" z] le unfolding z by auto
  show ?thesis
  proof (cases "dle (dadd b a) (DZero False)")
    case True
    then show ?thesis by (simp add: imbalance_of_def unit_double_def isfinite_def)
  next
    case False
    then have "0 < dval (dadd b a)" using t(1) by (simp add: dle_zero qty_def)
    then show ?thesis using unit_quotient [OF d(1), of "dadd b a"] d(2) le t(1) False
      by (simp add: imbalance_of_def Let_def qty_def)
  qed
qed

section \<open>The loops\<close>

definition sized :: "Ladder \<Rightarrow> bool" where
  "sized ls \<longleftrightarrow> list_all (\<lambda>l. qty 1 (lv_size l)) ls"

text \<open>A loop that adds at most one size a turn.\<close>

lemma fold_qty:
  assumes "\<And>x acc n. x \<in> set xs \<Longrightarrow> qty n acc \<Longrightarrow> n + 1 < 2 ^ 53 \<Longrightarrow> qty (n + 1) (f x acc)" "qty n acc" "n + length xs < 2 ^ 53"
  shows "qty (n + length xs) (fold f xs acc)"
  using assms by (induction xs arbitrary: n acc) force+

lemma add_size: "qty 1 s \<Longrightarrow> qty n acc \<Longrightarrow> n + 1 < 2 ^ 53 \<Longrightarrow> qty (n + 1) (if c then dadd acc s else acc)"
  using qty_add [of n acc 1 s] qty_mono [of n acc "n + 1"] by auto

lemma qty_zero: "qty 0 (DZero z)"
  by (simp add: qty_def isfinite_def)

lemma fold_pair: "fold (\<lambda>i (b, a). (f i b, g i a)) xs (b, a) = (fold f xs b, fold g xs a)"
  by (induction xs arbitrary: b a) auto

lemma indexed_qty:
  assumes "sized ls" "length is < 2 ^ 53"
  shows "qty (length is) (fold (\<lambda>i acc. if i < length ls then dadd acc (lv_size (ls ! i)) else acc) is (DZero False))"
proof -
  have "qty (n + 1) (if i < length ls then dadd acc (lv_size (ls ! i)) else acc)" if "qty n acc" "n + 1 < 2 ^ 53" for i acc n
    using assms(1) add_size [of "lv_size (ls ! i)" n acc True] qty_mono [of n acc "n + 1"] that
    by (auto simp: sized_def list_all_length)
  then show ?thesis using fold_qty [of "is" _ 0 "DZero False"] qty_zero assms(2) by simp
qed

lemma band_qty: "sized ls \<Longrightarrow> length ls < 2 ^ 53 \<Longrightarrow> qty (length ls) (band_size ls p1 p2)"
  using fold_qty [of ls "\<lambda>l acc. if dle p1 (lv_price l) \<and> dle (lv_price l) p2 then dadd acc (lv_size l) else acc" 0 "DZero False"]
    add_size qty_zero by (auto simp: band_size_def sized_def list_all_iff)

lemma imbalanceLevels_unit:
  assumes "sized (ss_bids s)" "sized (ss_asks s)" "rg_b r \<le> int_max"
  shows "unit_double (imbalanceLevels s r)"
proof -
  let ?is = "level_indices (max 1 (rg_a r)) (rg_b r)"
  have "length ?is \<le> nat int_max" using assms(3) by (simp add: level_indices_def)
  then have n: "length ?is + length ?is < 2 ^ 53" by (simp add: int_max_def)
  show ?thesis
    using imbalance_unit [OF indexed_qty [OF assms(1)] indexed_qty [OF assms(2)] n] n
    by (simp add: imbalanceLevels_def fold_pair)
qed

lemma imbalanceBand_unit:
  assumes "sized (ss_bids s)" "sized (ss_asks s)" "length (ss_bids s) + length (ss_asks s) < 2 ^ 53"
  shows "unit_double (imbalanceBand s p1 p2)"
  unfolding imbalanceBand_def using imbalance_unit [OF band_qty [OF assms(1)] band_qty [OF assms(2)]] assms(3) by simp

section \<open>Captured books\<close>

lemma capture_sized: "sized (ss_bids (capture m symbol n))" "sized (ss_asks (capture m symbol n))"
  by (simp_all add: capture_def capture_level_def Let_def sized_def list_all_iff qty_size [unfolded One_nat_def])

lemma capture_length:
  "length (ss_bids (capture m symbol n)) \<le> unat n" "length (ss_asks (capture m symbol n)) \<le> unat n"
  by (simp_all add: capture_def Let_def buildSnapshot_def forEachLevel_def split: option.split)

lemma parsed_imbalance_range:
  assumes "parseObKey s = Some k" "ok_metric k = MImbalance" "ok_imbByLevels k"
  shows "level_range (ok_imbLv k)"
proof -
  obtain q m where q: "spec_ok q" "k = fill_key q (moded m)"
    using parsed_specified [OF assms(1)] assms(2,3) by (auto simp: by_price_def specified_def)
  then show ?thesis using assms(2) by (cases q) auto
qed

text \<open>C24. Whatever the book holds, the imbalance that a key asks for is a number between minus one and one: no
  overflow, no rounding and no empty side yields an infinity, a NaN or a value outside. The book is captured to
  fewer than \<^verbatim>\<open>2^52\<close> levels a side.\<close>

theorem imbalance_bounded:
  assumes "parseObKey key = Some k" "ok_metric k = MImbalance" "unat n < 2 ^ 52"
  shows "unit_double (eval (capture m symbol n) k)"
proof (cases "ok_imbByLevels k")
  case True
  then have "rg_b (ok_imbLv k) \<le> int_max"
    using parsed_imbalance_range [OF assms(1,2)] by (simp add: level_range_def level_number_def)
  then show ?thesis using imbalanceLevels_unit [OF capture_sized] True assms(2) by (simp add: eval_def)
next
  case False
  have "length (ss_bids (capture m symbol n)) + length (ss_asks (capture m symbol n)) < 2 ^ 53"
    using capture_length [where m = m and symbol = symbol and n = n] assms(3) by simp
  then show ?thesis using imbalanceBand_unit [OF capture_sized] False assms(2) by (simp add: eval_def)
qed

lemma demo_imbalance_key: "parseObKey ''ob.imbalance.levels.2-7'' =
    Some (moded Per \<lparr> ok_metric := MImbalance, ok_imbLv := \<lparr> rg_a = 2, rg_b = 7 \<rparr>, ok_imbByLevels := True \<rparr>)"
  by code_simp

theorem imbalance_bounded_witness:
  "unit_double (eval (capture OrderBookManager_init ''ACME'' 5)
     (moded Per \<lparr> ok_metric := MImbalance, ok_imbLv := \<lparr> rg_a = 2, rg_b = 7 \<rparr>, ok_imbByLevels := True \<rparr>))"
  by (rule imbalance_bounded [OF demo_imbalance_key]) simp_all

end
