(* ===== verification/Ob_Provider_Thms.thy ===== *)
theory Ob_Provider_Thms
  imports Ob_Imbalance
begin

text \<open>
  The provider answers the keys of spreads, single levels and cumulative levels as \<^verbatim>\<open>eval\<close> does on a deeper
  capture; its imbalance is another one. The reductions of ranges that \<^verbatim>\<open>eval\<close> does not compute.
\<close>

section \<open>Captures of different depth\<close>

text \<open>A ladder captured to a depth is a prefix of the whole ladder.\<close>

definition whole_ladder :: "OrderBookManager \<Rightarrow> string \<Rightarrow> ObSide \<Rightarrow> Ladder" where
  "whole_ladder m symbol side = (case findBook symbol m of None \<Rightarrow> []
     | Some b \<Rightarrow> map (capture_level (getTickSize symbol m))
         (map (\<lambda>(p, l). (p, totalSize l)) (ladder (case side of OBid \<Rightarrow> Bid | OAsk \<Rightarrow> Ask) b)))"

lemma capture_prefix: "bySide (capture m symbol n) side = take (unat n) (whole_ladder m symbol side)"
  by (cases side) (auto simp: capture_def whole_ladder_def Let_def buildSnapshot_def forEachLevel_def take_map split: option.split)

lemmas capture_sides = capture_prefix [of m symbol n OBid for m symbol n, simplified] capture_prefix [of m symbol n OAsk for m symbol n, simplified]

lemma fold_nth: "k \<le> length xs \<Longrightarrow> fold (\<lambda>i. f (xs ! i)) [0..<k] a = fold f (take k xs) a"
  by (induction k) (simp_all add: take_Suc_conv_app_nth)

lemma take_level: "0 < k \<Longrightarrow> nat k \<le> d \<Longrightarrow>
    (if int (length (take d w)) < k then v else f (take d w ! nat (k - 1))) = (if int (length w) < k then v else f (w ! nat (k - 1)))"
  by (auto simp: min_def)

lemma take_levels: "nat k \<le> d \<Longrightarrow> take (nat (min k (int (length (take d w))))) (take d w) = take (nat k) w"
  by (auto simp: min_def)

section \<open>What the metrics read\<close>

lemma levelIdx_take:
  "0 < li_n q \<Longrightarrow> bySide s (li_side q) = take d ls \<Longrightarrow> nat (li_n q) \<le> d \<Longrightarrow>
   levelIdx s q = (if int (length ls) < li_n q then DNaN
     else case level_attr (li_attr q) (ls ! nat (li_n q - 1)) of Some v \<Rightarrow> v | None \<Rightarrow> DNaN)"
  by (auto simp: levelIdx_def Let_def min_def split: if_splits)

definition add_attr :: "Target \<Rightarrow> Level \<Rightarrow> double \<Rightarrow> double" where
  "add_attr t l acc = (case level_attr t l of None \<Rightarrow> acc | Some v \<Rightarrow> dadd acc v)"

lemma cumLevels_take:
  assumes "0 < n" "bySide s side = take d ls" "nat n \<le> d"
  shows "cumLevels s side n t = fold (add_attr t) (take (nat n) ls) (DZero False)"
proof -
  let ?l = "bySide s side"
  have "nat (min n (int (length ?l))) = min (nat n) (length ?l)" by (auto simp: min_def)
  then have "cumLevels s side n t = fold (\<lambda>i. add_attr t (?l ! i)) [0..<min (nat n) (length ?l)] (DZero False)"
    using assms(1) by (simp add: cumLevels_def add_attr_def [abs_def] Let_def)
  also have "\<dots> = fold (add_attr t) (take (nat n) ?l) (DZero False)" by (subst fold_nth) (auto simp: min_def)
  finally show ?thesis using assms(2,3) by (simp add: min_absorb1)
qed

lemma cum_loop_fold: "named t \<Longrightarrow> t \<noteq> TPrice \<Longrightarrow> cum_loop (cum_text t) ls acc = fold (add_attr t) ls acc"
  by (induction ls arbitrary: acc; cases t) (simp_all add: add_attr_def named_def)

lemma level_metric_attr: "named t \<Longrightarrow> level_attr t l = Some (level_metric (target_text t) l)"
  by (cases t) (simp_all add: level_metric_def named_def)

section \<open>The parts of a key\<close>

lemma provider_split_token: "d \<notin> set x \<Longrightarrow> provider_split d cur (x @ d # r) = (cur @ x) # provider_split d [] r"
  by (induction x arbitrary: cur) auto

lemma provider_split_end: "d \<notin> set x \<Longrightarrow> provider_split d cur x = [cur @ x]"
  by (induction x arbitrary: cur) auto

lemma provider_split_dotted: "list_all token ts \<Longrightarrow> ts \<noteq> [] \<Longrightarrow> provider_split (CHR ''.'') [] (dotted ts) = ts"
  by (induction ts rule: dotted.induct) (simp_all add: token_def provider_split_token provider_split_end)

lemma toInt_to_string: "level_number n \<Longrightarrow> toInt (to_string n) = Some n"
proof -
  assume n: "level_number n"
  then have "strtol (to_string n @ []) = (n, [])"
    by (intro strtol_to_string) (auto simp: level_number_def int_max_def long_min_def long_max_def)
  then show ?thesis using n to_string_chars(3,4) [of n] by (simp add: toInt_def level_number_def int_min_def)
qed

lemma provider_parts:
  assumes "spec_ok q" "\<not> counted q"
  shows "provider_split (CHR ''.'') [] (formatObKey (fill_key q (moded Per))) = ''ob'' # spec_tokens q"
proof -
  have "formatObKey (fill_key q (moded Per)) = dotted (''ob'' # spec_tokens q)"
    using metric_text_spec [OF assms(1), of "moded Per"] assms(2) by (simp add: formatObKey_def)
  then show ?thesis using provider_split_dotted [OF spec_tokens_ok [OF assms(1)]] by simp
qed

lemma provider_not_spread:
  assumes "provider_split (CHR ''.'') [] key = parts" "3 \<le> length parts"
  shows "key \<noteq> ''ob.spread''"
proof
  assume "key = ''ob.spread''"
  then show False using assms by (auto simp: eval_nat_numeral)
qed

lemma provider_side [simp]: "side_text s = ''bid'' \<longleftrightarrow> s = OBid" "side_text s = ''ask'' \<longleftrightarrow> s = OAsk"
  by (cases s; simp)+

lemma depth_covers: "level_number k \<Longrightarrow> nat k \<le> unat (level_depth d k)"
proof -
  assume k: "level_number k"
  then have "unat (word_of_int k :: u64) = nat k"
    by (simp add: level_number_def int_max_def unat_eq_nat_uint uint_word_of_int_eq take_bit_int_eq_self)
  then show ?thesis by (simp add: level_depth_def max_def word_le_nat_alt)
qed

lemma get_level:
  assumes "provider_split (CHR ''.'') [] key = [''ob'', ''level'', side_text s, to_string k, metric]" "level_number k"
  shows "Provider_get cap d symbol key = (let vec = bySide (cap symbol (level_depth d k)) s
    in if int (length vec) < k then DNaN else level_metric metric (vec ! nat (k - 1)))"
  using assms provider_not_spread [OF assms(1)] toInt_to_string [OF assms(2)]
  by (cases s) (simp_all add: Provider_get_def getImpl_def Let_def level_number_def)

lemma get_cum:
  assumes "provider_split (CHR ''.'') [] key = [''ob'', ''cum'', side_text s, ''levels'', to_string k, metric]" "level_number k"
  shows "Provider_get cap d symbol key = (let vec = bySide (cap symbol (level_depth d k)) s
    in cum_loop metric (take (nat (min k (int (length vec)))) vec) (DZero False))"
  using assms provider_not_spread [OF assms(1)] toInt_to_string [OF assms(2)]
  by (cases s) (simp_all add: Provider_get_def getImpl_def Let_def level_number_def)

section \<open>Agreement\<close>

text \<open>The depth of the book that a key of these kinds reads.\<close>

fun spec_depth :: "key_spec \<Rightarrow> nat" where
  "spec_depth (KLevel s n t) = nat n"
| "spec_depth (KCum s n t) = nat n"
| "spec_depth _ = 1"

fun provider_spec :: "key_spec \<Rightarrow> bool" where
  "provider_spec KSpread \<longleftrightarrow> True"
| "provider_spec (KLevel s n t) \<longleftrightarrow> True"
| "provider_spec (KCum s n t) \<longleftrightarrow> t \<noteq> TPrice"
| "provider_spec _ \<longleftrightarrow> False"

lemma spread_agrees: "1 \<le> unat n \<Longrightarrow> ob_namespace m symbol ''ob.spread'' = eval (capture m symbol n) (fill_key KSpread k)"
  by (auto simp: ob_namespace_def Provider_get_def getImpl_def Let_def eval_def spread_def capture_sides hd_conv_nth take_eq_Nil)

lemma level_agrees:
  assumes "spec_ok (KLevel s k t)" "nat k \<le> unat n"
  shows "ob_namespace m symbol (formatObKey (fill_key (KLevel s k t) (moded Per))) =
    eval (capture m symbol n) (fill_key (KLevel s k t) (moded Per))"
proof -
  have p: "provider_split (CHR ''.'') [] (formatObKey (fill_key (KLevel s k t) (moded Per))) =
      [''ob'', ''level'', side_text s, to_string k, target_text t]"
    using provider_parts [OF assms(1)] by (simp add: counted_def)
  have k: "level_number k" "0 < k" "named t" using assms(1) by (auto simp: level_number_def)
  let ?d = "level_depth 10 k"
  have "ob_namespace m symbol (formatObKey (fill_key (KLevel s k t) (moded Per))) =
      (if int (length (take (unat ?d) (whole_ladder m symbol s))) < k then DNaN
       else level_metric (target_text t) (take (unat ?d) (whole_ladder m symbol s) ! nat (k - 1)))"
    by (simp only: ob_namespace_def get_level [OF p k(1)] capture_prefix Let_def)
  also have "\<dots> = (if int (length (whole_ladder m symbol s)) < k then DNaN
      else level_metric (target_text t) (whole_ladder m symbol s ! nat (k - 1)))"
    by (rule take_level [OF k(2) depth_covers [OF k(1)]])
  also have "\<dots> = levelIdx (capture m symbol n) \<lparr> li_side = s, li_n = k, li_attr = t \<rparr>"
    using k assms(2) level_metric_attr [OF k(3)] by (subst levelIdx_take) (auto simp: capture_prefix)
  finally show ?thesis by (simp add: eval_def)
qed

lemma cum_agrees:
  assumes "spec_ok (KCum s k t)" "t \<noteq> TPrice" "nat k \<le> unat n"
  shows "ob_namespace m symbol (formatObKey (fill_key (KCum s k t) (moded Per))) =
    eval (capture m symbol n) (fill_key (KCum s k t) (moded Per))"
proof -
  have p: "provider_split (CHR ''.'') [] (formatObKey (fill_key (KCum s k t) (moded Per))) =
      [''ob'', ''cum'', side_text s, ''levels'', to_string k, cum_text t]"
    using provider_parts [OF assms(1)] by (simp add: counted_def)
  have k: "level_number k" "0 < k" "named t" using assms(1) by (auto simp: level_number_def)
  let ?w = "whole_ladder m symbol s"
  have "ob_namespace m symbol (formatObKey (fill_key (KCum s k t) (moded Per))) = cum_loop (cum_text t) (take (nat k) ?w) (DZero False)"
    by (simp only: ob_namespace_def get_cum [OF p k(1)] capture_prefix Let_def take_levels [OF depth_covers [OF k(1)]])
  also have "\<dots> = cumLevels (capture m symbol n) s k t"
    using cum_loop_fold [OF k(3) assms(2)] cumLevels_take [OF k(2) capture_prefix assms(3)] by simp
  finally show ?thesis by (simp add: eval_def)
qed

definition provider_key :: "ObKey \<Rightarrow> bool" where
  "provider_key k \<longleftrightarrow> ok_mode k = Per \<and>
     (ok_metric k = MSpread \<or> ok_metric k = MLevelIdx \<or> ok_metric k = MCum \<and> ok_cumTarget k \<noteq> TPrice)"

definition key_depth :: "ObKey \<Rightarrow> int" where
  "key_depth k = (case ok_metric k of MLevelIdx \<Rightarrow> li_n (ok_levelIdx k) | MCum \<Rightarrow> ok_cumN k | _ \<Rightarrow> 1)"


text \<open>The key of the second bid on an empty book: both say NaN.\<close>

lemma demo_level_key: "parseObKey ''ob.level.Bid.2.size'' =
    Some (moded Per \<lparr> ok_metric := MLevelIdx, ok_levelIdx := \<lparr> li_side = OBid, li_n = 2, li_attr = TSize \<rparr> \<rparr>)"
  by code_simp


section \<open>The imbalance of the provider\<close>

lemma provider_imbalance_unit:
  assumes "sized (ss_bids s)" "sized (ss_asks s)" "n \<le> int_max"
  shows "unit_double (provider_imbalance s m n)"
proof -
  let ?k = "min n (min (int (length (ss_bids s))) (int (length (ss_asks s))))"
  let ?is = "level_indices m ?k"
  have "length ?is \<le> nat int_max" using assms(3) by (simp add: level_indices_def)
  then have n: "length ?is + length ?is < 2 ^ 53" by (simp add: int_max_def)
  define q where "q ls = fold (\<lambda>i acc. if i < length ls then dadd acc (lv_size (ls ! i)) else acc) ?is (DZero False)" for ls :: Ladder
  have e: "fold (\<lambda>i acc. dadd acc (lv_size (ls ! i))) ?is (DZero False) = q ls" if "ls = ss_bids s \<or> ls = ss_asks s" for ls
    unfolding q_def using that by (intro fold_cong) (auto simp: level_indices_def fun_eq_iff)
  have "provider_imbalance s m n = imbalance_of (q (ss_bids s)) (q (ss_asks s))"
    by (simp add: provider_imbalance_def fold_pair imbalance_of_def Let_def e)
  moreover have "qty (length ?is) (q (ss_bids s))" "qty (length ?is) (q (ss_asks s))"
    unfolding q_def using n by (intro indexed_qty assms; simp)+
  ultimately show ?thesis using imbalance_unit n by simp
qed

text \<open>It stops at the shallower side: a book with bids only is in balance for the provider, and not for \<open>eval\<close>.\<close>

definition demo_level :: Level where
  "demo_level = \<lparr> lv_price = DFin 9, lv_size = DFin 1, lv_orders = DNaN, lv_notional = DFin 9 \<rparr>"

definition demo_snapshot :: Snapshot where
  "demo_snapshot = \<lparr> ss_bids = [demo_level], ss_asks = [],
     ss_meta = \<lparr> mt_seq = 0, mt_epoch = 0, mt_stale = False, mt_bidLevels = 1, mt_askLevels = 0, mt_lastChangeMs = 0 \<rparr> \<rparr>"

lemma provider_one_sided: "ss_asks s = [] \<Longrightarrow> 0 < m \<Longrightarrow> 0 < n \<Longrightarrow> provider_imbalance s m n = DZero False"
  by (simp add: provider_imbalance_def level_indices_def dle_def min_def)

lemma round_one: "round_double z 1 = DFin 1"
proof -
  have "rnd 1 = 1" using representable_int [of 1] by (intro rnd_exact) simp
  then show ?thesis by (simp add: round_double_def)
qed

lemma imbalances_differ:
  "provider_imbalance demo_snapshot 1 1 = DZero False"
  "imbalanceLevels demo_snapshot \<lparr> rg_a = 1, rg_b = 1 \<rparr> = DFin 1"
proof -
  show "provider_imbalance demo_snapshot 1 1 = DZero False" by (rule provider_one_sided) (simp_all add: demo_snapshot_def)
  show "imbalanceLevels demo_snapshot \<lparr> rg_a = 1, rg_b = 1 \<rparr> = DFin 1"
    by (simp add: imbalanceLevels_def level_indices_def demo_snapshot_def demo_level_def imbalance_of_def dsub_def dle_def round_one)
qed

section \<open>Reductions of ranges\<close>

text \<open>A range by level is summed when its minimum or its maximum is asked for.\<close>

lemma range_extreme_is_sum:
  "r = RMin \<or> r = RMax \<Longrightarrow> rangeIdxReduce s (q \<lparr> ri_reduce := r \<rparr>) = rangeIdxReduce s (q \<lparr> ri_reduce := RSum \<rparr>)"
  by (auto simp: rangeIdxReduce_def Let_def)

lemma counted_target: "parse_reduction ts = Some (RCount, t) \<Longrightarrow> t = TNone"
  by (auto simp: parse_reduction_def split: list.splits option.splits if_splits)

lemma fold_skip: "(\<And>x a. f x a = a) \<Longrightarrow> fold f xs a = a"
  by (induction xs) auto

lemma untargeted_idx: "ri_target q = TNone \<Longrightarrow> ri_reduce q = RCount \<Longrightarrow> rangeIdxReduce s q \<in> {DZero False, DNaN}"
  by (simp add: rangeIdxReduce_def Let_def fold_skip)

lemma untargeted_px: "rp_target q = TNone \<Longrightarrow> rp_reduce q = RCount \<Longrightarrow> rangePxReduce s q = DZero False"
proof -
  assume q: "rp_target q = TNone" "rp_reduce q = RCount"
  then have "rangePxReduce s q = double_of_int 0" by (simp add: rangePxReduce_def fold_skip case_prod_beta)
  then show ?thesis by (simp add: double_of_int_def round_double_def)
qed

lemma parsed_counts_untargeted:
  assumes "parseObKey s = Some k"
  shows "ok_metric k = MRangeIdx \<Longrightarrow> ri_reduce (ok_rangeIdx k) = RCount \<Longrightarrow> ri_target (ok_rangeIdx k) = TNone"
    and "ok_metric k = MRangePx \<Longrightarrow> rp_reduce (ok_rangePx k) = RCount \<Longrightarrow> rp_target (ok_rangePx k) = TNone"
proof -
  obtain t k0 where p: "parse_metric t k0 = Some k" using assms by (auto simp: parseObKey_def Let_def split: if_splits)
  show "ok_metric k = MRangeIdx \<Longrightarrow> ri_reduce (ok_rangeIdx k) = RCount \<Longrightarrow> ri_target (ok_rangeIdx k) = TNone"
    "ok_metric k = MRangePx \<Longrightarrow> rp_reduce (ok_rangePx k) = RCount \<Longrightarrow> rp_target (ok_rangePx k) = TNone"
    using p by (auto simp: parse_metric_def parse_best_def parse_level_def parse_at_def parse_range_levels_def parse_range_price_def
        parse_cum_def parse_vwap_def parse_imbalance_def parse_meta_def Let_def counted_target split: if_splits option.splits prod.splits)
qed

text \<open>The levels of a range are never counted: the parser gives the reduction \<^verbatim>\<open>count\<close> no target, and
  both loops skip every level without one, so the answer is zero, or NaN where the range is empty.\<close>

theorem range_count_is_zero:
  assumes "parseObKey key = Some k"
  shows "(ok_metric k = MRangeIdx \<longrightarrow> ri_reduce (ok_rangeIdx k) = RCount \<longrightarrow> eval s k \<in> {DZero False, DNaN}) \<and>
    (ok_metric k = MRangePx \<longrightarrow> rp_reduce (ok_rangePx k) = RCount \<longrightarrow> eval s k = DZero False)"
  using parsed_counts_untargeted [OF assms] untargeted_idx untargeted_px by (simp add: eval_def)

lemma demo_count_key: "parseObKey ''ob.range.bid.levels.1-2.count'' = Some (moded Per
    \<lparr> ok_metric := MRangeIdx, ok_rangeIdx := \<lparr> ri_side = OBid, ri_lv = \<lparr> rg_a = 1, rg_b = 2 \<rparr>, ri_reduce = RCount, ri_target = TNone \<rparr> \<rparr>)"
  by code_simp

text \<open>The bid is not counted.\<close>

theorem range_count_is_zero_witness:
  "eval demo_snapshot (moded Per
     \<lparr> ok_metric := MRangeIdx, ok_rangeIdx := \<lparr> ri_side = OBid, ri_lv = \<lparr> rg_a = 1, rg_b = 2 \<rparr>, ri_reduce = RCount, ri_target = TNone \<rparr> \<rparr>)
   \<in> {DZero False, DNaN}"
  using range_count_is_zero [OF demo_count_key, of demo_snapshot] by (simp add: moded_def)

end
