(* ===== verification/Feed_Server.thy ===== *)
theory Feed_Server
  imports Itch_Adapter Book_Manager Dispatcher
begin

text \<open>
  The TCP feed server (\<^verbatim>\<open>server/FeedServer.cpp\<close>): framing of the byte stream into lines, routing of the
  JSON lines to the dispatcher and the order-book manager, and the table of sessions. The JSON parser is an
  argument. Sockets are modelled by the completions of their operations; log lines and metrics are left out.
\<close>

section \<open>The components behind a feed\<close>

text \<open>The pointers \<^verbatim>\<open>dispatcher_\<close> and \<^verbatim>\<open>obManager_\<close>, which may be null.\<close>

record 'c Market =
  mk_dispatcher :: "'c Dispatcher option"
  mk_obManager :: "OrderBookManager option"

definition on_books :: "(OrderBookManager \<Rightarrow> OrderBookManager option) \<Rightarrow> 'c Market \<Rightarrow> 'c Market outcome" where
  "on_books f w = (case mk_obManager w of
       None \<Rightarrow> Some (None, w)
     | Some m \<Rightarrow> map_option (\<lambda>m'. (None, w \<lparr> mk_obManager := Some m' \<rparr>)) (f m))"

definition on_dispatcher :: "Event \<Rightarrow> 'c Market \<Rightarrow> 'c Market outcome" where
  "on_dispatcher ev w = (case mk_dispatcher w of
       None \<Rightarrow> Some (None, w)
     | Some D \<Rightarrow> map_option (\<lambda>(e, D'). (e, w \<lparr> mk_dispatcher := Some D' \<rparr>)) (onTick ev D))"

section \<open>Messages\<close>

text \<open>A member that is there and has the type of its getter.\<close>

definition uint64Member :: "string \<Rightarrow> json \<Rightarrow> u64 option" where
  "uint64Member k doc = (case member k doc of Some v \<Rightarrow> GetUint64 v | None \<Rightarrow> None)"

definition doubleMember :: "string \<Rightarrow> json \<Rightarrow> double option" where
  "doubleMember k doc = (case member k doc of Some v \<Rightarrow> GetDouble v | None \<Rightarrow> None)"

definition handleTickMessage :: "json \<Rightarrow> 'c Market \<Rightarrow> 'c Market outcome" where
  "handleTickMessage doc w =
     (if mk_dispatcher w = None then Some (None, w)
      else case strMember ''symbol'' doc of
        None \<Rightarrow> Some (None, w)
      | Some symbol \<Rightarrow>
          if symbol = [] \<or> length symbol > 64 then Some (None, w)
          else on_dispatcher \<lparr> ev_symbol = symbol, ev_payload = Some doc, ev_type = ''tick'' \<rparr> w)"

text \<open>\<open>u\<close> is the value of the variable \<^verbatim>\<open>oldSide\<close> that \<^verbatim>\<open>onUpdate\<close> leaves uninitialised.\<close>

definition ob_add :: "string \<Rightarrow> json \<Rightarrow> 'c Market \<Rightarrow> 'c Market outcome" where
  "ob_add symbol doc w = (case (uint64Member ''id'' doc, strMember ''side'' doc, doubleMember ''price'' doc, uint64Member ''size'' doc) of
       (Some i, Some sideStr, Some price, Some sz) \<Rightarrow>
         let side = (if sideStr = ''ask'' then Ask else Bid);
             priority = (case uint64Member ''priority'' doc of Some p \<Rightarrow> p | None \<Rightarrow> 0)
         in on_books (\<lambda>m. map_option snd (onAdd symbol i side price sz priority scope0 False m)) w
     | _ \<Rightarrow> Some (None, w))"

definition ob_update :: "Side \<Rightarrow> string \<Rightarrow> json \<Rightarrow> 'c Market \<Rightarrow> 'c Market outcome" where
  "ob_update u symbol doc w = (case uint64Member ''id'' doc of
       None \<Rightarrow> Some (None, w)
     | Some i \<Rightarrow> on_books (\<lambda>m. map_option snd
         (onUpdate u symbol i scope0 (doubleMember ''price'' doc) (uint64Member ''size'' doc) False m)) w)"

definition ob_delete :: "string \<Rightarrow> json \<Rightarrow> 'c Market \<Rightarrow> 'c Market outcome" where
  "ob_delete symbol doc w = (case uint64Member ''id'' doc of
       None \<Rightarrow> Some (None, w)
     | Some i \<Rightarrow> on_books (\<lambda>m. map_option snd (onDelete symbol i scope0 False m)) w)"

definition ob_trade :: "string \<Rightarrow> json \<Rightarrow> 'c Market \<Rightarrow> 'c Market outcome" where
  "ob_trade symbol doc w = (case (doubleMember ''price'' doc, uint64Member ''size'' doc) of
       (Some price, Some sz) \<Rightarrow>
         let aggr = (case strMember ''aggressor'' doc of
               Some a \<Rightarrow> if a = ''buy'' then Buy else if a = ''sell'' then Sell else Unknown
             | None \<Rightarrow> Unknown)
         in on_books (\<lambda>m. map_option snd (onTrade symbol price sz aggr m)) w
     | _ \<Rightarrow> Some (None, w))"

definition handleObMessage :: "Side \<Rightarrow> json \<Rightarrow> 'c Market \<Rightarrow> 'c Market outcome" where
  "handleObMessage u doc w =
     (if mk_obManager w = None then Some (None, w)
      else case (strMember ''symbol'' doc, strMember ''action'' doc) of
        (Some symbol, Some action) \<Rightarrow>
          if symbol = [] \<or> length symbol > 64 then Some (None, w)
          else if action = ''ticksize'' then
            (case doubleMember ''tickSize'' doc of
               None \<Rightarrow> Some (None, w)
             | Some ts \<Rightarrow> on_books (\<lambda>m. Some (setTickSize symbol ts m)) w)
          else if action = ''add'' then ob_add symbol doc w
          else if action = ''update'' then ob_update u symbol doc w
          else if action = ''delete'' then ob_delete symbol doc w
          else if action = ''trade'' then ob_trade symbol doc w
          else Some (None, w)
      | _ \<Rightarrow> Some (None, w))"

definition handleControlMessage :: "json \<Rightarrow> 'c Market \<Rightarrow> 'c Market outcome" where
  "handleControlMessage doc w = (case strMember ''action'' doc of
       None \<Rightarrow> Some (None, w)
     | Some action \<Rightarrow>
         if action = ''reset'' then
           (case strMember ''symbol'' doc of
              None \<Rightarrow> Some (None, w)
            | Some symbol \<Rightarrow>
                let epoch = (case member ''epoch'' doc of
                      Some v \<Rightarrow> (case GetUint v of Some e \<Rightarrow> e | None \<Rightarrow> 0)
                    | None \<Rightarrow> 0)
                in on_books (\<lambda>m. Some (onReset symbol epoch m)) w)
         else Some (None, w))"

section \<open>Lines\<close>

definition MAX_LINE_SIZE :: nat where
  "MAX_LINE_SIZE = 64 * 1024"

definition MAX_PENDING :: nat where
  "MAX_PENDING = 128 * 1024"

text \<open>The routing by the member \<^verbatim>\<open>type\<close>; an exception of the dispatcher leaves it.\<close>

definition route_line :: "Side \<Rightarrow> json \<Rightarrow> 'c Market \<Rightarrow> 'c Market outcome" where
  "route_line u doc w = (case strMember ''type'' doc of
       Some ty \<Rightarrow> if ty = ''ob'' then handleObMessage u doc w
                  else if ty = ''control'' then handleControlMessage doc w
                  else handleTickMessage doc w
     | None \<Rightarrow> handleTickMessage doc w)"

text \<open>\<^verbatim>\<open>handleLine\<close> catches every exception.\<close>

definition handleLine :: "(string \<Rightarrow> json option) \<Rightarrow> Side \<Rightarrow> string \<Rightarrow> 'c Market \<Rightarrow> 'c Market option" where
  "handleLine parse u line w =
     (if length line > MAX_LINE_SIZE then Some w
      else case parse (c_str line) of
        None \<Rightarrow> Some w
      | Some doc \<Rightarrow> if \<not> IsObject doc then Some w else map_option snd (route_line u doc w))"

text \<open>A carriage return before the newline is not part of the line.\<close>

definition chop_cr :: "string \<Rightarrow> string" where
  "chop_cr line = (if line \<noteq> [] \<and> last line = CHR 0x0D then butlast line else line)"

text \<open>
  The loop over the pending bytes: \<open>cur\<close> are the bytes since \<^verbatim>\<open>start\<close>. What is left of it is what
  \<^verbatim>\<open>pending_.erase\<close> keeps.
\<close>

fun scan :: "(string \<Rightarrow> 'w \<Rightarrow> 'w option) \<Rightarrow> string \<Rightarrow> string \<Rightarrow> 'w \<Rightarrow> (string \<times> 'w) option" where
  "scan h cur [] w = Some (cur, w)"
| "scan h cur (c # cs) w =
     (if c = CHR 0x0A then (case h (chop_cr cur) w of None \<Rightarrow> None | Some w' \<Rightarrow> scan h [] cs w')
      else scan h (cur @ [c]) cs w)"

section \<open>Sessions\<close>

text \<open>A session has its bytes, and a read outstanding or not; its idle timer runs while it is open.\<close>

record FeedSession =
  fs_pending :: string
  fs_open :: bool
  fs_reading :: bool

definition FeedSession_init :: FeedSession where
  "FeedSession_init = \<lparr> fs_pending = [], fs_open = True, fs_reading = True \<rparr>"

text \<open>The server: the sessions ever accepted, and the members of \<^verbatim>\<open>sessions_\<close> among them by their position.\<close>

record 'c FeedServer =
  sv_accepting :: bool
  sv_all :: "FeedSession list"
  sv_sessions :: "nat list"
  sv_market :: "'c Market"

definition MAX_FEED_SESSIONS :: nat where
  "MAX_FEED_SESSIONS = 64"

definition FeedServer_new :: "'c Market \<Rightarrow> 'c FeedServer" where
  "FeedServer_new w = \<lparr> sv_accepting = False, sv_all = [], sv_sessions = [], sv_market = w \<rparr>"

definition feed_close :: "nat \<Rightarrow> 'c FeedServer \<Rightarrow> 'c FeedServer" where
  "feed_close i S = S \<lparr> sv_all := (sv_all S)[i := (sv_all S ! i) \<lparr> fs_open := False \<rparr>], sv_sessions := remove1 i (sv_sessions S) \<rparr>"

definition put_session :: "nat \<Rightarrow> (FeedSession \<Rightarrow> FeedSession) \<Rightarrow> 'c FeedServer \<Rightarrow> 'c FeedServer" where
  "put_session i f S = S \<lparr> sv_all := (sv_all S)[i := f (sv_all S ! i)] \<rparr>"

text \<open>The handler of a read: \<^const>\<open>None\<close> is an error, which also completes the read of a closed socket.\<close>

definition feed_onRead ::
  "(string \<Rightarrow> json option) \<Rightarrow> Side \<Rightarrow> nat \<Rightarrow> string option \<Rightarrow> 'c FeedServer \<Rightarrow> 'c FeedServer option" where
  "feed_onRead parse u i bytes S0 =
     (let S = put_session i (\<lambda>s. s \<lparr> fs_reading := False \<rparr>) S0
      in case bytes of
           None \<Rightarrow> Some (feed_close i S)
         | Some bs \<Rightarrow>
             let pending = fs_pending (sv_all S ! i) @ bs
             in if length pending > MAX_PENDING then Some (feed_close i (put_session i (\<lambda>s. s \<lparr> fs_pending := pending \<rparr>) S))
                else map_option (\<lambda>(rest, w). put_session i (\<lambda>s. s \<lparr> fs_pending := rest, fs_reading := True \<rparr>) (S \<lparr> sv_market := w \<rparr>))
                       (scan (handleLine parse u) [] pending (sv_market S)))"

text \<open>The handler of an accepted connection, or of an error of \<^verbatim>\<open>accept\<close>.\<close>

definition feed_onAccept :: "bool \<Rightarrow> 'c FeedServer \<Rightarrow> 'c FeedServer" where
  "feed_onAccept ok S =
     (if \<not> sv_accepting S \<or> \<not> ok then S
      else if length (sv_sessions S) \<ge> MAX_FEED_SESSIONS then S
      else S \<lparr> sv_all := sv_all S @ [FeedSession_init], sv_sessions := length (sv_all S) # sv_sessions S \<rparr>)"

text \<open>\<^verbatim>\<open>run\<close>, once the acceptor is open; \<^verbatim>\<open>stop\<close>.\<close>

definition feed_run :: "'c FeedServer \<Rightarrow> 'c FeedServer" where
  "feed_run S = S \<lparr> sv_accepting := True \<rparr>"

definition feed_stop :: "'c FeedServer \<Rightarrow> 'c FeedServer" where
  "feed_stop S = fold feed_close (sv_sessions S) (S \<lparr> sv_accepting := False, sv_sessions := [] \<rparr>)"

text \<open>The idle timer of an open session.\<close>

definition feed_idle :: "nat \<Rightarrow> 'c FeedServer \<Rightarrow> 'c FeedServer" where
  "feed_idle i S = feed_close i S"

section \<open>Runs\<close>

datatype feed_step = FRun | FStop | FAccept bool | FRead nat "string option" | FIdle nat

text \<open>The handlers that can run next: an outstanding read completes, the timer of an open session expires.\<close>

fun feed_enabled :: "feed_step \<Rightarrow> 'c FeedServer \<Rightarrow> bool" where
  "feed_enabled (FRead i bs) S \<longleftrightarrow> i < length (sv_all S) \<and> fs_reading (sv_all S ! i)"
| "feed_enabled (FIdle i) S \<longleftrightarrow> i < length (sv_all S) \<and> fs_open (sv_all S ! i)"
| "feed_enabled _ S \<longleftrightarrow> True"

fun feed_exec :: "(string \<Rightarrow> json option) \<Rightarrow> Side \<Rightarrow> feed_step \<Rightarrow> 'c FeedServer \<Rightarrow> 'c FeedServer option" where
  "feed_exec parse u FRun S = Some (feed_run S)"
| "feed_exec parse u FStop S = Some (feed_stop S)"
| "feed_exec parse u (FAccept ok) S = Some (feed_onAccept ok S)"
| "feed_exec parse u (FRead i bs) S = feed_onRead parse u i bs S"
| "feed_exec parse u (FIdle i) S = Some (feed_idle i S)"

end
