(* ===== verification/Feed_Market.thy ===== *)
theory Feed_Market
  imports Feed_Server Dispatcher_Thms Book_Manager_Thms
begin

text \<open>
  What a feed does to the dispatcher and the books, as a list of actions; a source whose messages are such lists
  keeps both well formed. The lines of the feed server are one such source.
\<close>

section \<open>Actions\<close>

datatype market_act = ABook mgr_op | ATick Event

fun market_exec :: "Side \<Rightarrow> market_act \<Rightarrow> 'c Market \<Rightarrow> 'c Market outcome" where
  "market_exec u (ABook op) w = on_books (mgr_exec u op) w"
| "market_exec u (ATick ev) w = on_dispatcher ev w"

text \<open>The actions of one message; an exception of the dispatcher ends them.\<close>

fun market_run :: "Side \<Rightarrow> market_act list \<Rightarrow> 'c Market \<Rightarrow> 'c Market outcome" where
  "market_run u [] w = Some (None, w)"
| "market_run u (a # as) w = and_then (market_exec u a w) (market_run u as)"

text \<open>An action fits when it is no book operation with an unspecified tick value or an overflowing level.\<close>

fun act_fits :: "market_act \<Rightarrow> 'c Market \<Rightarrow> bool" where
  "act_fits (ABook op) w \<longleftrightarrow> (case mk_obManager w of None \<Rightarrow> True | Some m \<Rightarrow> mgr_fits op m)"
| "act_fits (ATick ev) w \<longleftrightarrow> True"

fun acts_fit :: "Side \<Rightarrow> market_act list \<Rightarrow> 'c Market \<Rightarrow> bool" where
  "acts_fit u [] w \<longleftrightarrow> True"
| "acts_fit u (a # as) w \<longleftrightarrow> act_fits a w \<and> (case market_exec u a w of Some (None, w') \<Rightarrow> acts_fit u as w' | _ \<Rightarrow> True)"

definition market_ok :: "'c Market \<Rightarrow> bool" where
  "market_ok w \<longleftrightarrow> (\<forall>D. mk_dispatcher w = Some D \<longrightarrow> disp_ok D) \<and> (\<forall>m. mk_obManager w = Some m \<longrightarrow> mgr_inv m)"

lemma on_books_ok:
  assumes "market_ok w" "\<And>m. mk_obManager w = Some m \<Longrightarrow> \<exists>m'. f m = Some m' \<and> mgr_inv m'"
  shows "\<exists>w'. on_books f w = Some (None, w') \<and> market_ok w'"
  using assms by (cases "mk_obManager w") (fastforce simp: on_books_def market_ok_def)+

lemma on_dispatcher_ok: "market_ok w \<Longrightarrow> \<exists>e w'. on_dispatcher ev w = Some (e, w') \<and> market_ok w'"
proof (cases "mk_dispatcher w")
  case (Some D)
  assume w: "market_ok w"
  then obtain e D' where "onTick ev D = Some (e, D')" "disp_ok D'"
    using onTick_ok [of D ev] Some by (auto simp: tick_ok_def market_ok_def)
  then show ?thesis using w Some by (auto simp: on_dispatcher_def market_ok_def)
qed (simp add: on_dispatcher_def)

lemma mgr_exec_ok: "mgr_inv m \<Longrightarrow> mgr_fits op m \<Longrightarrow> \<exists>m'. mgr_exec u op m = Some m' \<and> mgr_inv m'"
  using mgr_exec_total [of m op u] by blast

lemma market_exec_ok: "market_ok w \<Longrightarrow> act_fits a w \<Longrightarrow> \<exists>e w'. market_exec u a w = Some (e, w') \<and> market_ok w'"
proof (cases a)
  case (ABook op)
  assume w: "market_ok w" "act_fits a w"
  then show ?thesis using on_books_ok [of w "mgr_exec u op"] mgr_exec_ok [of _ op u] ABook by (fastforce simp: market_ok_def)
qed (use on_dispatcher_ok in auto)

lemma market_run_ok: "market_ok w \<Longrightarrow> acts_fit u as w \<Longrightarrow> \<exists>e w'. market_run u as w = Some (e, w') \<and> market_ok w'"
proof (induction as arbitrary: w)
  case (Cons a as)
  obtain e w1 where x: "market_exec u a w = Some (e, w1)" "market_ok w1" using market_exec_ok [of w a u] Cons.prems by auto
  then show ?case using Cons.IH [of w1] Cons.prems(2) by (cases e) (auto simp: and_then_def)
qed simp

section \<open>Sources\<close>

text \<open>Messages one after the other.\<close>

fun handle_all :: "('m \<Rightarrow> 'w \<Rightarrow> 'w option) \<Rightarrow> 'm list \<Rightarrow> 'w \<Rightarrow> 'w option" where
  "handle_all h [] w = Some w"
| "handle_all h (msg # msgs) w = (case h msg w of None \<Rightarrow> None | Some w' \<Rightarrow> handle_all h msgs w')"

fun all_fit :: "Side \<Rightarrow> ('m \<Rightarrow> market_act list) \<Rightarrow> ('m \<Rightarrow> 'c Market \<Rightarrow> 'c Market option) \<Rightarrow> 'm list \<Rightarrow> 'c Market \<Rightarrow> bool" where
  "all_fit u acts h [] w \<longleftrightarrow> True"
| "all_fit u acts h (msg # msgs) w \<longleftrightarrow> acts_fit u (acts msg) w \<and> (case h msg w of None \<Rightarrow> True | Some w' \<Rightarrow> all_fit u acts h msgs w')"

text \<open>A source acts on the dispatcher and the books only through the actions of its messages.\<close>

locale feed_source =
  fixes u :: Side
    and acts :: "'m \<Rightarrow> market_act list"
    and handle :: "'m \<Rightarrow> 'c Market \<Rightarrow> 'c Market option"
  assumes handle_acts: "handle msg w = map_option snd (market_run u (acts msg) w)"
begin

lemma handle_ok: "market_ok w \<Longrightarrow> acts_fit u (acts msg) w \<Longrightarrow> \<exists>w'. handle msg w = Some w' \<and> market_ok w'"
  using market_run_ok [of w u "acts msg"] by (auto simp: handle_acts)

lemma handle_all_ok: "market_ok w \<Longrightarrow> all_fit u acts handle msgs w \<Longrightarrow> \<exists>w'. handle_all handle msgs w = Some w' \<and> market_ok w'"
proof (induction msgs arbitrary: w)
  case (Cons msg msgs)
  obtain w1 where "handle msg w = Some w1" "market_ok w1" using handle_ok [of w msg] Cons.prems by auto
  then show ?case using Cons.IH [of w1] Cons.prems(2) by simp
qed simp

end

section \<open>Lines of the feed server\<close>

definition add_act :: "string \<Rightarrow> json \<Rightarrow> market_act list" where
  "add_act s doc = (case (uint64Member ''id'' doc, strMember ''side'' doc, doubleMember ''price'' doc, uint64Member ''size'' doc) of
       (Some i, Some sd, Some px, Some z) \<Rightarrow>
         [ABook (MAdd s i (if sd = ''ask'' then Ask else Bid) px z
            (case uint64Member ''priority'' doc of Some p \<Rightarrow> p | None \<Rightarrow> 0) scope0 False)]
     | _ \<Rightarrow> [])"

definition trade_act :: "string \<Rightarrow> json \<Rightarrow> market_act list" where
  "trade_act s doc = (case (doubleMember ''price'' doc, uint64Member ''size'' doc) of
       (Some px, Some z) \<Rightarrow> [ABook (MTrade s px z
         (case strMember ''aggressor'' doc of
            Some a \<Rightarrow> if a = ''buy'' then Buy else if a = ''sell'' then Sell else Unknown
          | None \<Rightarrow> Unknown))]
     | _ \<Rightarrow> [])"

definition ob_acts :: "json \<Rightarrow> market_act list" where
  "ob_acts doc = (case (strMember ''symbol'' doc, strMember ''action'' doc) of
       (Some s, Some action) \<Rightarrow>
          if s = [] \<or> length s > 64 then []
          else if action = ''ticksize'' then (case doubleMember ''tickSize'' doc of None \<Rightarrow> [] | Some ts \<Rightarrow> [ABook (MSetTick s ts)])
          else if action = ''add'' then add_act s doc
          else if action = ''update'' then (case uint64Member ''id'' doc of None \<Rightarrow> []
            | Some i \<Rightarrow> [ABook (MUpdate s (makeKey i scope0 False) (doubleMember ''price'' doc) (uint64Member ''size'' doc))])
          else if action = ''delete'' then (case uint64Member ''id'' doc of None \<Rightarrow> [] | Some i \<Rightarrow> [ABook (MDelete s (makeKey i scope0 False))])
          else if action = ''trade'' then trade_act s doc
          else []
     | _ \<Rightarrow> [])"

definition control_acts :: "json \<Rightarrow> market_act list" where
  "control_acts doc = (case (strMember ''action'' doc, strMember ''symbol'' doc) of
       (Some action, Some s) \<Rightarrow> if action = ''reset''
         then [ABook (MReset s (case member ''epoch'' doc of Some v \<Rightarrow> (case GetUint v of Some e \<Rightarrow> e | None \<Rightarrow> 0) | None \<Rightarrow> 0))] else []
     | _ \<Rightarrow> [])"

definition tick_acts :: "json \<Rightarrow> market_act list" where
  "tick_acts doc = (case strMember ''symbol'' doc of
       Some s \<Rightarrow> if s = [] \<or> length s > 64 then [] else [ATick \<lparr> ev_symbol = s, ev_payload = Some doc, ev_type = ''tick'' \<rparr>]
     | None \<Rightarrow> [])"

definition line_acts :: "(string \<Rightarrow> json option) \<Rightarrow> string \<Rightarrow> market_act list" where
  "line_acts parse line =
     (if length line > MAX_LINE_SIZE then []
      else case parse (c_str line) of
        None \<Rightarrow> []
      | Some doc \<Rightarrow> if \<not> IsObject doc then []
          else if strMember ''type'' doc = Some ''ob'' then ob_acts doc
          else if strMember ''type'' doc = Some ''control'' then control_acts doc
          else tick_acts doc)"

lemma and_then_end [simp]: "and_then m (\<lambda>w. Some (None, w)) = m"
  by (auto simp: and_then_def split: option.split)

lemma market_run_single: "market_run u [a] w = market_exec u a w"
  by (cases "market_exec u a w") (auto simp: and_then_def split: option.splits)

lemma market_run_if: "market_run u (if c then xs else ys) w = (if c then market_run u xs w else market_run u ys w)"
  by simp

lemma market_run_option: "market_run u (case x of None \<Rightarrow> xs | Some y \<Rightarrow> f y) w = (case x of None \<Rightarrow> market_run u xs w | Some y \<Rightarrow> market_run u (f y) w)"
  by (cases x) simp_all

lemmas market_runs = market_run_single market_run.simps(1) market_run_if market_run_option

lemma mgr_exec_fun:
  "mgr_exec u (MSetTick s t) = (\<lambda>m. Some (setTickSize s t m))"
  "mgr_exec u (MReset s e) = (\<lambda>m. Some (onReset s e m))"
  "mgr_exec u (MAdd s i sd px z pr sc miss) = (\<lambda>m. map_option snd (onAdd s i sd px z pr sc miss m))"
  "mgr_exec u (MUpdate s (makeKey i sc y) np nz) = (\<lambda>m. map_option snd (onUpdate u s i sc np nz y m))"
  "mgr_exec u (MDelete s (makeKey i sc y)) = (\<lambda>m. map_option snd (onDelete s i sc y m))"
  "mgr_exec u (MTrade s px z a) = (\<lambda>m. map_option snd (onTrade s px z a m))"
  by (simp_all add: fun_eq_iff onUpdate_def onDelete_def)

lemma on_books_null: "mk_obManager w = None \<Longrightarrow> on_books f w = Some (None, w)"
  by (simp add: on_books_def)

lemma ob_actions:
  "ob_add s doc w = market_run u (add_act s doc) w"
  "ob_trade s doc w = market_run u (trade_act s doc) w"
  by (auto simp: ob_add_def add_act_def ob_trade_def trade_act_def market_runs mgr_exec_fun Let_def simp del: market_run.simps(2) split: option.split)

lemma ob_add_null: "mk_obManager w = None \<Longrightarrow> ob_add s doc w = Some (None, w)" "mk_obManager w = None \<Longrightarrow> ob_trade s doc w = Some (None, w)"
  by (simp_all add: ob_add_def ob_trade_def on_books_null Let_def split: option.split)

lemma ob_acts_null: "mk_obManager w = None \<Longrightarrow> market_run u (ob_acts doc) w = Some (None, w)"
  by (cases "strMember ''symbol'' doc"; cases "strMember ''action'' doc"; cases "uint64Member ''id'' doc"; cases "doubleMember ''tickSize'' doc")
    (simp_all add: ob_acts_def ob_actions [where u = u, symmetric] ob_add_null market_runs on_books_null del: market_run.simps(2) cong: if_cong)

lemma handleObMessage_acts: "handleObMessage u doc w = market_run u (ob_acts doc) w"
proof (cases "mk_obManager w")
  case (Some m)
  then show ?thesis
    by (cases "strMember ''symbol'' doc"; cases "strMember ''action'' doc")
      (simp_all add: handleObMessage_def ob_acts_def ob_update_def ob_delete_def ob_actions [where u = u]
        market_runs mgr_exec_fun del: market_run.simps(2) cong: if_cong option.case_cong)
qed (simp add: handleObMessage_def ob_acts_null)

lemma handleControlMessage_acts: "handleControlMessage doc w = market_run u (control_acts doc) w"
  by (simp add: handleControlMessage_def control_acts_def market_runs mgr_exec_fun Let_def del: market_run.simps(2) split: option.split)

lemma handleTickMessage_acts: "handleTickMessage doc w = market_run u (tick_acts doc) w"
  by (auto simp: handleTickMessage_def tick_acts_def market_runs on_dispatcher_def simp del: market_run.simps(2) split: option.split)

interpretation feed_line: feed_source u "line_acts parse" "handleLine parse u" for u parse
proof unfold_locales
  show "handleLine parse u line w = map_option snd (market_run u (line_acts parse line) w)" for line w
    by (simp add: handleLine_def line_acts_def route_line_def handleObMessage_acts handleControlMessage_acts [where u = u]
        handleTickMessage_acts [where u = u] del: market_run.simps(2) split: option.split)
qed

end
