(* ===== verification/Feed_Server_Thms.thy ===== *)
theory Feed_Server_Thms
  imports Feed_Market
begin

text \<open>
  The feed server frames its byte stream independently of how the bytes arrive, and its table of sessions stays
  within its bounds.
\<close>

section \<open>Framing\<close>

text \<open>The lines of a stream, and the bytes after the last newline.\<close>

fun stream_lines :: "string \<Rightarrow> string \<Rightarrow> string list \<times> string" where
  "stream_lines cur [] = ([], cur)"
| "stream_lines cur (c # cs) =
     (if c = CHR 0x0A then (case stream_lines [] cs of (ls, r) \<Rightarrow> (cur # ls, r)) else stream_lines (cur @ [c]) cs)"

lemma scan_lines: "scan h cur s w = map_option (\<lambda>w'. (snd (stream_lines cur s), w')) (handle_all h (map chop_cr (fst (stream_lines cur s))) w)"
  by (induction h cur s w rule: scan.induct) (auto split: prod.split option.split)

lemma scan_append: "scan h cur (a @ b) w = (case scan h cur a w of None \<Rightarrow> None | Some (cur', w') \<Rightarrow> scan h cur' b w')"
  by (induction h cur a w rule: scan.induct) (auto split: option.split)

lemma scan_quiet: "CHR 0x0A \<notin> set r \<Longrightarrow> scan h cur r w = Some (cur @ r, w)"
  by (induction r arbitrary: cur) auto

lemma stream_rest_quiet: "CHR 0x0A \<notin> set cur \<Longrightarrow> CHR 0x0A \<notin> set (snd (stream_lines cur s))"
  by (induction cur s rule: stream_lines.induct) (auto split: prod.split)

lemma stream_append:
  "stream_lines cur (a @ b) = (case stream_lines cur a of (ls, r) \<Rightarrow> case stream_lines r b of (ls', r') \<Rightarrow> (ls @ ls', r'))"
  by (induction cur a rule: stream_lines.induct) (auto split: prod.splits)

text \<open>The reads of one session.\<close>

fun feed_reads :: "(string \<Rightarrow> json option) \<Rightarrow> Side \<Rightarrow> nat \<Rightarrow> string list \<Rightarrow> 'c FeedServer \<Rightarrow> 'c FeedServer option" where
  "feed_reads parse u i [] S = Some S"
| "feed_reads parse u i (c # cs) S = (case feed_onRead parse u i (Some c) S of None \<Rightarrow> None | Some S' \<Rightarrow> feed_reads parse u i cs S')"

definition reading_state :: "nat \<Rightarrow> string \<Rightarrow> 'c Market \<Rightarrow> 'c FeedServer \<Rightarrow> 'c FeedServer" where
  "reading_state i r w S = put_session i (\<lambda>s. s \<lparr> fs_pending := r, fs_reading := True \<rparr>) (S \<lparr> sv_market := w \<rparr>)"

lemma read_chunk:
  assumes "i < length (sv_all S)" "CHR 0x0A \<notin> set r" "length (r @ c) \<le> MAX_PENDING"
  shows "feed_onRead parse u i (Some c) (reading_state i r w S) =
    map_option (\<lambda>(r', w'). reading_state i r' w' S) (scan (handleLine parse u) r c w)"
proof -
  have "scan (handleLine parse u) [] (r @ c) w = scan (handleLine parse u) r c w"
    using scan_quiet [OF assms(2), of "handleLine parse u" "[]" w] by (simp add: scan_append)
  then show ?thesis using assms(1,3)
    by (auto simp: feed_onRead_def reading_state_def put_session_def Let_def option.map_comp split: option.split)
qed

text \<open>The bytes pending between two reads are a prefix of a line of the stream.\<close>

definition short_lines :: "nat \<Rightarrow> string list \<times> string \<Rightarrow> bool" where
  "short_lines n p \<longleftrightarrow> list_all (\<lambda>l. length l \<le> n) (fst p) \<and> length (snd p) \<le> n"

lemma stream_lines_grow: "stream_lines r s = (ls, r') \<Longrightarrow> length r \<le> length (case ls of [] \<Rightarrow> r' | l # _ \<Rightarrow> l)"
  by (induction r s arbitrary: ls r' rule: stream_lines.induct) (force split: if_splits prod.splits list.splits)+

lemma short_pending: "short_lines n (stream_lines r s) \<Longrightarrow> length r \<le> n"
proof -
  assume s: "short_lines n (stream_lines r s)"
  obtain ls r' where l: "stream_lines r s = (ls, r')" by fastforce
  show ?thesis using stream_lines_grow [OF l] s by (cases ls) (auto simp: l short_lines_def)
qed

lemma short_lines_append: "short_lines n (stream_lines r (a @ b)) \<Longrightarrow> stream_lines r a = (ls, r') \<Longrightarrow> short_lines n (stream_lines r' b)"
  by (auto simp: short_lines_def stream_append split: prod.splits)

lemma feed_reads_scan:
  assumes "i < length (sv_all S)" "CHR 0x0A \<notin> set r" "\<forall>c \<in> set chunks. length c \<le> 8192"
    "short_lines (MAX_PENDING - 8192) (stream_lines r (concat chunks))"
  shows "feed_reads parse u i chunks (reading_state i r w S) =
    map_option (\<lambda>(r', w'). reading_state i r' w' S) (scan (handleLine parse u) r (concat chunks) w)"
  using assms
proof (induction chunks arbitrary: r w)
  case (Cons c cs)
  obtain ls r1 where l: "stream_lines r c = (ls, r1)" by fastforce
  have "length r \<le> MAX_PENDING - 8192" using short_pending Cons.prems(4) by blast
  then have "length (r @ c) \<le> MAX_PENDING" using Cons.prems(3) by (simp add: MAX_PENDING_def)
  note chunk = read_chunk [OF Cons.prems(1,2) this, of parse u w]
  show ?case
  proof (cases "scan (handleLine parse u) r c w")
    case None
    then show ?thesis by (simp add: chunk scan_append)
  next
    case (Some p)
    then obtain w1 where p: "scan (handleLine parse u) r c w = Some (r1, w1)" using l by (auto simp: scan_lines)
    have "CHR 0x0A \<notin> set r1" using stream_rest_quiet [OF Cons.prems(2), of c] l by simp
    moreover have "short_lines (MAX_PENDING - 8192) (stream_lines r1 (concat cs))"
      using short_lines_append [OF _ l, of _ "concat cs"] Cons.prems(4) by simp
    ultimately show ?thesis using Cons.IH [of r1 w1] Cons.prems(1,3) by (simp add: chunk p scan_append)
  qed
qed simp

lemma reading_state_id: "i < length (sv_all S) \<Longrightarrow> fs_pending (sv_all S ! i) = r \<Longrightarrow> fs_reading (sv_all S ! i) \<Longrightarrow>
    reading_state i r (sv_market S) S = S"
proof -
  assume a: "i < length (sv_all S)" "fs_pending (sv_all S ! i) = r" "fs_reading (sv_all S ! i)"
  then have "(sv_all S ! i) \<lparr> fs_pending := r, fs_reading := True \<rparr> = sv_all S ! i" by (cases "sv_all S ! i") simp
  then show ?thesis by (simp add: reading_state_def put_session_def)
qed

text \<open>C28. However the bytes of a connection are cut into reads, the server handles exactly the lines of the whole
  stream, in order and each once, without a trailing carriage return, and keeps the bytes after the last newline;
  this for reads of at most the 8192 bytes of the buffer and lines of at most 122880 bytes, which fit the
  limit of the pending bytes.\<close>

theorem feed_framing:
  assumes "i < length (sv_all S)" "fs_pending (sv_all S ! i) = []" "fs_reading (sv_all S ! i)"
    "\<forall>c \<in> set chunks. length c \<le> 8192" "short_lines 122880 (stream_lines [] (concat chunks))"
  shows "feed_reads parse u i chunks S =
    map_option (\<lambda>w. reading_state i (snd (stream_lines [] (concat chunks))) w S)
      (handle_all (handleLine parse u) (map chop_cr (fst (stream_lines [] (concat chunks)))) (sv_market S))"
  using feed_reads_scan [OF assms(1), of "[]" chunks parse u "sv_market S"] assms(4,5) reading_state_id [OF assms(1-3)]
  by (simp add: scan_lines option.map_comp comp_def MAX_PENDING_def)

text \<open>A line split over two reads.\<close>

definition demo_server :: "unit FeedServer" where
  "demo_server = FeedServer_new \<lparr> mk_dispatcher = None, mk_obManager = None \<rparr> \<lparr> sv_accepting := True, sv_all := [FeedSession_init], sv_sessions := [0] \<rparr>"

theorem feed_framing_witness:
  "map_option (\<lambda>S. fs_pending (sv_all S ! 0)) (feed_reads (\<lambda>_. None) Bid 0 [''a'', ''b'' @ [CHR 0x0A], ''c''] demo_server) = Some ''c''"
proof -
  have l: "stream_lines [] (concat [''a'', ''b'' @ [CHR 0x0A], ''c'']) = ([''ab''], ''c'')" by simp
  show ?thesis
    using feed_framing [of 0 demo_server "[''a'', ''b'' @ [CHR 0x0A], ''c'']" "\<lambda>_. None" Bid] unfolding l
    by (simp add: demo_server_def FeedServer_new_def FeedSession_init_def short_lines_def handleLine_def reading_state_def put_session_def)
qed

section \<open>The table of sessions\<close>

definition session_bytes_ok :: "FeedSession \<Rightarrow> bool" where
  "session_bytes_ok s \<longleftrightarrow> (fs_reading s \<longrightarrow> length (fs_pending s) \<le> MAX_PENDING \<and> CHR 0x0A \<notin> set (fs_pending s))"

definition server_ok :: "'c FeedServer \<Rightarrow> bool" where
  "server_ok S \<longleftrightarrow> length (sv_sessions S) \<le> MAX_FEED_SESSIONS \<and> distinct (sv_sessions S) \<and>
     (\<forall>i \<in> set (sv_sessions S). i < length (sv_all S) \<and> fs_open (sv_all S ! i)) \<and> list_all session_bytes_ok (sv_all S)"

lemma nth_update_if: "j < length xs \<Longrightarrow> xs[i := x] ! j = (if i = j then x else xs ! j)"
  by (auto simp: nth_list_update_neq)

lemma put_session_ok:
  assumes "server_ok S" "session_bytes_ok (f (sv_all S ! i))" "\<And>s. fs_open (f s) = fs_open s"
  shows "server_ok (put_session i f S)"
  using assms by (auto simp: server_ok_def put_session_def nth_update_if list_all_length)

lemma feed_close_ok: "server_ok S \<Longrightarrow> server_ok (feed_close i S)"
  by (auto simp: server_ok_def feed_close_def nth_update_if list_all_length session_bytes_ok_def length_remove1 dest: in_set_remove1)

lemma fold_close_ok: "server_ok S \<Longrightarrow> server_ok (fold feed_close is S)"
  by (induction "is" arbitrary: S) (auto simp: feed_close_ok)

lemma stream_rest_length: "length (snd (stream_lines cur s)) \<le> length cur + length s"
  by (induction cur s rule: stream_lines.induct) (auto split: prod.splits)

lemma scan_rest: "scan h [] s w = Some (r, w') \<Longrightarrow> CHR 0x0A \<notin> set r \<and> length r \<le> length s"
  using stream_rest_quiet [of "[]" s] stream_rest_length [of "[]" s] by (auto simp: scan_lines)

lemma feed_onRead_ok:
  assumes "server_ok S" "feed_onRead parse u i bytes S = Some S'"
  shows "server_ok S'"
proof -
  let ?S = "put_session i (\<lambda>s. s \<lparr> fs_reading := False \<rparr>) S"
  have s: "server_ok ?S" by (rule put_session_ok [OF assms(1)]) (simp_all add: session_bytes_ok_def)
  have m: "server_ok (?S \<lparr> sv_market := w \<rparr>)" for w using s by (simp add: server_ok_def)
  have p: "server_ok (put_session i (\<lambda>s. s \<lparr> fs_pending := r \<rparr>) ?S)" for r
    using assms(1) by (auto simp: server_ok_def put_session_def nth_update_if list_all_length session_bytes_ok_def)
  have q: "server_ok (put_session i (\<lambda>s. s \<lparr> fs_pending := r, fs_reading := True \<rparr>) (?S \<lparr> sv_market := w \<rparr>))"
    if "CHR 0x0A \<notin> set r" "length r \<le> MAX_PENDING" for r w
    by (rule put_session_ok [OF m]) (use that in \<open>simp_all add: session_bytes_ok_def\<close>)
  show ?thesis
  proof (cases bytes)
    case None
    then show ?thesis using assms(2) feed_close_ok [OF s] by (auto simp: feed_onRead_def)
  next
    case (Some bs)
    let ?pend = "fs_pending (sv_all ?S ! i) @ bs"
    show ?thesis
    proof (cases "MAX_PENDING < length ?pend")
      case True
      then show ?thesis using assms(2) feed_close_ok [OF p] Some by (auto simp: feed_onRead_def Let_def)
    next
      case False
      then obtain r w where r: "scan (handleLine parse u) [] ?pend (sv_market ?S) = Some (r, w)"
        and S': "S' = put_session i (\<lambda>s. s \<lparr> fs_pending := r, fs_reading := True \<rparr>) (?S \<lparr> sv_market := w \<rparr>)"
        using assms(2) Some by (auto simp: feed_onRead_def Let_def)
      show ?thesis unfolding S' using scan_rest [OF r] False by (intro q) auto
    qed
  qed
qed

lemma feed_exec_ok: "server_ok S \<Longrightarrow> feed_exec parse u x S = Some S' \<Longrightarrow> server_ok S'"
proof (cases x)
  case FStop
  assume "server_ok S" "feed_exec parse u x S = Some S'"
  then show ?thesis using FStop fold_close_ok [of "S \<lparr> sv_accepting := False, sv_sessions := [] \<rparr>" "sv_sessions S"]
    by (auto simp: feed_stop_def server_ok_def)
next
  case (FAccept ok)
  assume "server_ok S" "feed_exec parse u x S = Some S'"
  then show ?thesis using FAccept
    by (auto simp: feed_onAccept_def server_ok_def nth_append session_bytes_ok_def FeedSession_init_def less_SucI split: if_splits)
next
  case FRun
  assume "server_ok S" "feed_exec parse u x S = Some S'"
  then show ?thesis using FRun by (auto simp: feed_run_def server_ok_def)
qed (auto simp: feed_onRead_ok feed_close_ok feed_idle_def)

section \<open>Every handler returns\<close>

text \<open>The lines that a read completes fit the books.\<close>

fun read_fits :: "(string \<Rightarrow> json option) \<Rightarrow> Side \<Rightarrow> feed_step \<Rightarrow> 'c FeedServer \<Rightarrow> bool" where
  "read_fits parse u (FRead i (Some bs)) S \<longleftrightarrow>
     all_fit u (line_acts parse) (handleLine parse u)
       (map chop_cr (fst (stream_lines [] (fs_pending (sv_all S ! i) @ bs)))) (sv_market S)"
| "read_fits parse u _ S \<longleftrightarrow> True"

lemma close_market [simp]: "sv_market (feed_close i S) = sv_market S" "sv_market (put_session i f S) = sv_market S"
  by (simp_all add: feed_close_def put_session_def)

lemma fold_close_market: "sv_market (fold feed_close is S) = sv_market S"
  by (induction "is" arbitrary: S) auto

lemma feed_exec_total:
  assumes "market_ok (sv_market S)" "feed_enabled x S" "read_fits parse u x S"
  shows "\<exists>S'. feed_exec parse u x S = Some S' \<and> market_ok (sv_market S')"
proof (cases "\<exists>i bs. x = FRead i (Some bs)")
  case True
  then obtain i bs where x: "x = FRead i (Some bs)" by blast
  then have "i < length (sv_all S)" using assms(2) by simp
  then have p: "fs_pending (sv_all (put_session i (\<lambda>s. s \<lparr> fs_reading := False \<rparr>) S) ! i) = fs_pending (sv_all S ! i)"
    by (simp add: put_session_def)
  obtain w' where "handle_all (handleLine parse u) (map chop_cr (fst (stream_lines [] (fs_pending (sv_all S ! i) @ bs)))) (sv_market S) = Some w'"
    "market_ok w'" using feed_line.handle_all_ok assms(1,3) x by fastforce
  then show ?thesis using assms(1) x p by (auto simp: feed_onRead_def Let_def scan_lines)
next
  case False
  then show ?thesis using assms(1)
    by (cases "(parse, u, x, S)" rule: read_fits.cases)
      (auto simp: feed_onRead_def feed_onAccept_def feed_run_def feed_stop_def feed_idle_def fold_close_market)
qed

inductive feed_reach_fit :: "(string \<Rightarrow> json option) \<Rightarrow> Side \<Rightarrow> 'c FeedServer \<Rightarrow> 'c FeedServer \<Rightarrow> bool"
  for parse u S0 where
  start_fit: "feed_reach_fit parse u S0 S0"
| step_fit: "feed_reach_fit parse u S0 S \<Longrightarrow> feed_enabled x S \<Longrightarrow> read_fits parse u x S \<Longrightarrow> feed_exec parse u x S = Some S'
    \<Longrightarrow> feed_reach_fit parse u S0 S'"

text \<open>C27. Whatever connections are accepted, bytes arrive, timers expire and stops are made, in any order: the server
  keeps at most 64 sessions, each open; the bytes kept for a session that is read are at most 131072 and hold
  no complete line; the dispatcher and every book stay well formed; and every handler runs to its end. The book
  operations on the lines have a specified tick value and overflow no level total.\<close>

theorem feed_server_safe:
  assumes "market_ok w" "feed_reach_fit parse u (FeedServer_new w) S"
  shows "server_ok S \<and> market_ok (sv_market S) \<and>
    (\<forall>x. feed_enabled x S \<longrightarrow> read_fits parse u x S \<longrightarrow> (\<exists>S'. feed_exec parse u x S = Some S'))"
proof -
  have "server_ok S \<and> market_ok (sv_market S)"
    using assms(2)
  proof induction
    case start_fit
    then show ?case using assms(1) by (simp add: server_ok_def FeedServer_new_def)
  next
    case (step_fit S x S')
    then show ?case using feed_exec_ok feed_exec_total [of S x parse u] by fastforce
  qed
  then show ?thesis using feed_exec_total by blast
qed

lemma demo_market_ok: "market_ok \<lparr> mk_dispatcher = None, mk_obManager = Some OrderBookManager_init \<rparr>"
  by (simp add: market_ok_def init_mgr_inv)

lemma demo_feed_reach:
  "feed_reach_fit (\<lambda>_. None) Bid (FeedServer_new \<lparr> mk_dispatcher = None, mk_obManager = Some OrderBookManager_init \<rparr>)
     (feed_onAccept True (feed_run (FeedServer_new \<lparr> mk_dispatcher = None, mk_obManager = Some OrderBookManager_init \<rparr>)))"
  by (rule step_fit [where x = "FAccept True"], rule step_fit [where x = FRun], rule start_fit) simp_all

theorem feed_server_safe_witness:
  "server_ok (feed_onAccept True (feed_run (FeedServer_new \<lparr> mk_dispatcher = None, mk_obManager = Some OrderBookManager_init \<rparr> :: unit FeedServer)))"
  using feed_server_safe [OF demo_market_ok demo_feed_reach] by blast

end
