(* ===== verification/Feed_Client.thy ===== *)
theory Feed_Client
  imports Feed_Server
begin

text \<open>
  The WebSocket feed client (\<^verbatim>\<open>ws/WsFeedClient.cpp\<close>): its address, the chain of asynchronous operations that
  connects, reads and reconnects, and the events of the adapter applied to the dispatcher and the books. The
  handlers run on one strand; an operation that was started is a member of \<open>wf_waits\<close> until its handler runs.
  Using the stream when there is none is the result \<^const>\<open>None\<close>, as is a typed getter of the adapter on another
  type. Whether the build has TLS is the argument \<open>ssl\<close>; time limits, log lines and metrics are left out.
\<close>

section \<open>Addresses\<close>

record Url =
  ur_tls :: bool
  ur_host :: string
  ur_port :: string
  ur_target :: string

text \<open>Before the last colon and after it.\<close>

definition split_last :: "char \<Rightarrow> string \<Rightarrow> (string \<times> string) option" where
  "split_last c s = (if c \<in> set s
     then Some (rev (tl (dropWhile (\<lambda>x. x \<noteq> c) (rev s))), rev (takeWhile (\<lambda>x. x \<noteq> c) (rev s))) else None)"

text \<open>\<^const>\<open>None\<close> is the exception for another scheme.\<close>

definition parse_authority :: "bool \<Rightarrow> string \<Rightarrow> Url" where
  "parse_authority tls rest =
     (let hostPort = takeWhile (\<lambda>c. c \<noteq> CHR ''/'') rest;
          target = (if CHR ''/'' \<in> set rest then dropWhile (\<lambda>c. c \<noteq> CHR ''/'') rest else ''/'')
      in case split_last (CHR '':'') hostPort of
           Some (host, port) \<Rightarrow> \<lparr> ur_tls = tls, ur_host = host, ur_port = port, ur_target = target \<rparr>
         | None \<Rightarrow> \<lparr> ur_tls = tls, ur_host = hostPort, ur_port = (if tls then ''443'' else ''80''), ur_target = target \<rparr>)"

definition parseUrl :: "string \<Rightarrow> Url option" where
  "parseUrl url =
     (if take 6 url = ''wss://'' then Some (parse_authority True (drop 6 url))
      else if take 5 url = ''ws://'' then Some (parse_authority False (drop 5 url))
      else None)"

section \<open>State\<close>

datatype wait = WStart | WStop | WResolve | WConnect | WTls | WHandshake | WWrite | WRead | WTimer

record 'c WsFeedClient =
  wf_url :: Url
  wf_symbols :: "string list"
  wf_adapter :: ItchAdapter
  wf_market :: "'c Market"
  wf_stopping :: bool
  wf_reconnectAttempts :: int
  wf_stream :: bool
  wf_delay :: int
  wf_waits :: "wait list"
  wf_sent :: "json list"

text \<open>Starting an operation.\<close>

definition await :: "wait \<Rightarrow> 'c WsFeedClient \<Rightarrow> 'c WsFeedClient" where
  "await x C = C \<lparr> wf_waits := wf_waits C @ [x] \<rparr>"

text \<open>An operation of the stream.\<close>

definition on_stream :: "wait \<Rightarrow> 'c WsFeedClient \<Rightarrow> 'c WsFeedClient option" where
  "on_stream x C = (if wf_stream C then Some (await x C) else None)"

definition WsFeedClient_new :: "string \<Rightarrow> string list \<Rightarrow> 'c Market \<Rightarrow> 'c WsFeedClient option" where
  "WsFeedClient_new url symbols w = map_option (\<lambda>u. \<lparr> wf_url = u, wf_symbols = symbols, wf_adapter = ItchAdapter_init,
     wf_market = w, wf_stopping = False, wf_reconnectAttempts = 0, wf_stream = False, wf_delay = 0, wf_waits = [], wf_sent = [] \<rparr>)
     (parseUrl url)"

definition client_start :: "'c WsFeedClient \<Rightarrow> 'c WsFeedClient" where
  "client_start C = await WStart (C \<lparr> wf_stopping := False, wf_reconnectAttempts := 0 \<rparr>)"

definition client_stop :: "'c WsFeedClient \<Rightarrow> 'c WsFeedClient" where
  "client_stop C = await WStop (C \<lparr> wf_stopping := True \<rparr>)"

section \<open>Connecting\<close>

definition doResolve :: "'c WsFeedClient \<Rightarrow> 'c WsFeedClient" where
  "doResolve C = (if wf_stopping C then C else await WResolve (C \<lparr> wf_stream := False \<rparr>))"

text \<open>\<open>sni\<close>: whether the host name was accepted for the TLS stream.\<close>

definition onResolve :: "bool \<Rightarrow> bool \<Rightarrow> bool \<Rightarrow> 'c WsFeedClient \<Rightarrow> 'c WsFeedClient" where
  "onResolve ssl sni ok C =
     (if \<not> ok \<or> wf_stopping C then C
      else if ur_tls (wf_url C)
      then (if \<not> ssl then C
            else if \<not> sni then C \<lparr> wf_stream := True \<rparr>
            else await WConnect (C \<lparr> wf_stream := True \<rparr>))
      else await WConnect (C \<lparr> wf_stream := True \<rparr>))"

definition onSslHandshake :: "bool \<Rightarrow> 'c WsFeedClient \<Rightarrow> 'c WsFeedClient option" where
  "onSslHandshake ok C = (if \<not> ok \<or> wf_stopping C then Some C else on_stream WHandshake C)"

definition onTcpConnect :: "bool \<Rightarrow> 'c WsFeedClient \<Rightarrow> 'c WsFeedClient option" where
  "onTcpConnect ok C =
     (if \<not> ok \<or> wf_stopping C then Some C
      else if ur_tls (wf_url C) then on_stream WTls C
      else onSslHandshake True C)"

definition subscribeMessage :: "string list \<Rightarrow> json" where
  "subscribeMessage symbols = JObject [(''action'', JString ''subscribe''), (''symbols'', JArray (map (\<lambda>s. JString (c_str s)) symbols))]"

definition onWsHandshake :: "bool \<Rightarrow> 'c WsFeedClient \<Rightarrow> 'c WsFeedClient option" where
  "onWsHandshake ok C =
     (if \<not> ok \<or> wf_stopping C then Some C
      else on_stream WWrite (C \<lparr> wf_reconnectAttempts := 0, wf_sent := wf_sent C @ [subscribeMessage (wf_symbols C)] \<rparr>))"

section \<open>Events\<close>

fun dispatchEvent :: "Side \<Rightarrow> FeedEvent \<Rightarrow> 'c Market \<Rightarrow> 'c Market outcome" where
  "dispatchEvent u (TickEvent symbol payload _) w =
     on_dispatcher \<lparr> ev_symbol = symbol, ev_payload = Some payload, ev_type = ''tick'' \<rparr> w"
| "dispatchEvent u (ObAddEvent symbol i side price sz priority) w =
     on_books (\<lambda>m. map_option snd (onAdd symbol i side price sz priority scope0 False m)) w"
| "dispatchEvent u (ObUpdateEvent symbol i newPrice newSize) w =
     on_books (\<lambda>m. map_option snd (onUpdate u symbol i scope0 newPrice newSize False m)) w"
| "dispatchEvent u (ObDeleteEvent symbol i) w = on_books (\<lambda>m. map_option snd (onDelete symbol i scope0 False m)) w"
| "dispatchEvent u (ObTradeEvent symbol price sz aggr _) w = on_books (\<lambda>m. map_option snd (onTrade symbol price sz aggr m)) w"
| "dispatchEvent u (ObTickSizeEvent symbol ts) w = on_books (\<lambda>m. Some (setTickSize symbol ts m)) w"
| "dispatchEvent u (ObResetEvent symbol epoch) w = on_books (\<lambda>m. Some (onReset symbol epoch m)) w"

text \<open>The loop over the events of a message; an exception of the dispatcher leaves it.\<close>

fun dispatch_all :: "Side \<Rightarrow> FeedEvent list \<Rightarrow> 'c Market \<Rightarrow> 'c Market outcome" where
  "dispatch_all u [] w = Some (None, w)"
| "dispatch_all u (e # es) w = and_then (dispatchEvent u e w) (dispatch_all u es)"

text \<open>\<^verbatim>\<open>handleMessage\<close> with the handler of \<^verbatim>\<open>onRead\<close> that catches exceptions.\<close>

definition client_handleMessage ::
  "(string \<Rightarrow> json option) \<Rightarrow> Side \<Rightarrow> string \<Rightarrow> 'c WsFeedClient \<Rightarrow> 'c WsFeedClient option" where
  "client_handleMessage parse u msg C = (case translate parse msg (wf_adapter C) of
       None \<Rightarrow> None
     | Some (es, a) \<Rightarrow> map_option (\<lambda>(_, w). C \<lparr> wf_adapter := a, wf_market := w \<rparr>) (dispatch_all u es (wf_market C)))"

section \<open>Reading and reconnecting\<close>

definition MAX_RECONNECT_DELAY_SEC :: int where
  "MAX_RECONNECT_DELAY_SEC = 30"

text \<open>The timer has one wait: \<^verbatim>\<open>expires_after\<close> cancels the wait before.\<close>

definition scheduleReconnect :: "'c WsFeedClient \<Rightarrow> 'c WsFeedClient" where
  "scheduleReconnect C =
     (if wf_stopping C then C
      else let capped = min (wf_reconnectAttempts C) 30; delaySec = min (2 ^ nat capped) MAX_RECONNECT_DELAY_SEC
           in await WTimer (C \<lparr> wf_reconnectAttempts := wf_reconnectAttempts C + 1, wf_delay := delaySec,
                               wf_waits := filter (\<lambda>x. x \<noteq> WTimer) (wf_waits C) \<rparr>))"

definition client_doRead :: "'c WsFeedClient \<Rightarrow> 'c WsFeedClient option" where
  "client_doRead C = (if wf_stopping C then Some C else on_stream WRead C)"

definition onSubscribed :: "bool \<Rightarrow> 'c WsFeedClient \<Rightarrow> 'c WsFeedClient option" where
  "onSubscribed ok C = (if \<not> ok then Some C else client_doRead C)"

text \<open>\<^const>\<open>None\<close> is a read that failed, closed connections included.\<close>

definition client_onRead ::
  "(string \<Rightarrow> json option) \<Rightarrow> Side \<Rightarrow> string option \<Rightarrow> 'c WsFeedClient \<Rightarrow> 'c WsFeedClient option" where
  "client_onRead parse u msg C = (case msg of
       None \<Rightarrow> Some (if wf_stopping C then C else scheduleReconnect C)
     | Some m \<Rightarrow> (case client_handleMessage parse u m C of None \<Rightarrow> None | Some C' \<Rightarrow> client_doRead C'))"

definition onReconnectTimer :: "bool \<Rightarrow> 'c WsFeedClient \<Rightarrow> 'c WsFeedClient" where
  "onReconnectTimer ok C = (if \<not> ok \<or> wf_stopping C then C else doResolve C)"

text \<open>What \<^verbatim>\<open>stop\<close> posts: the wait of the timer is cancelled, the stream closed.\<close>

definition onStop :: "'c WsFeedClient \<Rightarrow> 'c WsFeedClient" where
  "onStop C = C \<lparr> wf_waits := filter (\<lambda>x. x \<noteq> WTimer) (wf_waits C) \<rparr>"

section \<open>Completions\<close>

text \<open>The handler of an outstanding operation; \<open>msg\<close> is what a read delivers.\<close>

definition client_complete ::
  "bool \<Rightarrow> (string \<Rightarrow> json option) \<Rightarrow> Side \<Rightarrow> wait \<Rightarrow> bool \<Rightarrow> bool \<Rightarrow> string \<Rightarrow> 'c WsFeedClient \<Rightarrow> 'c WsFeedClient option" where
  "client_complete ssl parse u x ok sni msg C0 =
     (let C = C0 \<lparr> wf_waits := remove1 x (wf_waits C0) \<rparr>
      in case x of
           WStart \<Rightarrow> Some (doResolve C)
         | WStop \<Rightarrow> Some (onStop C)
         | WResolve \<Rightarrow> Some (onResolve ssl sni ok C)
         | WConnect \<Rightarrow> onTcpConnect ok C
         | WTls \<Rightarrow> onSslHandshake ok C
         | WHandshake \<Rightarrow> onWsHandshake ok C
         | WWrite \<Rightarrow> onSubscribed ok C
         | WRead \<Rightarrow> client_onRead parse u (if ok then Some msg else None) C
         | WTimer \<Rightarrow> Some (onReconnectTimer ok C))"

end
