(* ===== verification/Feed_Client_Thms.thy ===== *)
theory Feed_Client_Thms
  imports Feed_Client Feed_Market Itch_Thms
begin

text \<open>
  The feed client has one operation outstanding at a time, uses its stream only while it has one, and keeps the
  dispatcher and the books well formed; but it never backs off, and a failed attempt to connect ends it.
\<close>

section \<open>Events\<close>

fun event_act :: "FeedEvent \<Rightarrow> market_act" where
  "event_act (TickEvent s p _) = ATick \<lparr> ev_symbol = s, ev_payload = Some p, ev_type = ''tick'' \<rparr>"
| "event_act (ObAddEvent s i sd px z pr) = ABook (MAdd s i sd px z pr scope0 False)"
| "event_act (ObUpdateEvent s i np nz) = ABook (MUpdate s (makeKey i scope0 False) np nz)"
| "event_act (ObDeleteEvent s i) = ABook (MDelete s (makeKey i scope0 False))"
| "event_act (ObTradeEvent s px z a _) = ABook (MTrade s px z a)"
| "event_act (ObTickSizeEvent s ts) = ABook (MSetTick s ts)"
| "event_act (ObResetEvent s e) = ABook (MReset s e)"

lemma dispatchEvent_act: "dispatchEvent u e w = market_exec u (event_act e) w"
  by (cases e) (simp_all add: mgr_exec_fun)

lemma dispatch_all_acts:
  fixes w :: "'c Market"
  shows "dispatch_all u es w = market_run u (map event_act es) w"
proof (induction es arbitrary: w)
  case (Cons e es)
  then have "dispatch_all u es = (market_run u (map event_act es) :: 'c Market \<Rightarrow> 'c Market outcome)" by (simp add: fun_eq_iff)
  then show ?case by (simp add: dispatchEvent_act)
qed simp

interpretation feed_events: feed_source u "map event_act" "\<lambda>es w. map_option snd (dispatch_all u es w)" for u
  by unfold_locales (simp add: dispatch_all_acts)

section \<open>Runs\<close>

text \<open>What a read delivers can be translated, and its book operations fit the books.\<close>

definition message_fits :: "(string \<Rightarrow> json option) \<Rightarrow> Side \<Rightarrow> string \<Rightarrow> 'c WsFeedClient \<Rightarrow> bool" where
  "message_fits parse u msg C \<longleftrightarrow> (\<forall>doc. parse (c_str msg) = Some doc \<longrightarrow> itch_numbers_ok doc) \<and>
     (case translate parse msg (wf_adapter C) of None \<Rightarrow> True | Some (es, a) \<Rightarrow> acts_fit u (map event_act es) (wf_market C))"

inductive client_reach :: "bool \<Rightarrow> (string \<Rightarrow> json option) \<Rightarrow> Side \<Rightarrow> 'c WsFeedClient \<Rightarrow> 'c WsFeedClient \<Rightarrow> bool"
  for ssl parse u C0 where
  init: "client_reach ssl parse u C0 C0"
| stop: "client_reach ssl parse u C0 C \<Longrightarrow> client_reach ssl parse u C0 (client_stop C)"
| complete: "client_reach ssl parse u C0 C \<Longrightarrow> x \<in> set (wf_waits C) \<Longrightarrow> message_fits parse u msg C
    \<Longrightarrow> client_complete ssl parse u x ok sni msg C = Some C' \<Longrightarrow> client_reach ssl parse u C0 C'"

section \<open>The invariant\<close>

definition stream_waits :: "wait set" where
  "stream_waits = {WConnect, WTls, WHandshake, WWrite, WRead}"

text \<open>The operations that are not the posted stop.\<close>

definition chain :: "'c WsFeedClient \<Rightarrow> wait list" where
  "chain C = filter (\<lambda>x. x \<noteq> WStop) (wf_waits C)"

definition client_ok :: "'c WsFeedClient \<Rightarrow> bool" where
  "client_ok C \<longleftrightarrow> length (chain C) \<le> 1 \<and>
     (set (chain C) \<inter> stream_waits \<noteq> {} \<longrightarrow> wf_stream C) \<and>
     (WWrite \<in> set (chain C) \<or> WRead \<in> set (chain C) \<longrightarrow> wf_reconnectAttempts C = 0) \<and>
     0 \<le> wf_reconnectAttempts C \<and> wf_delay C \<in> {0, 1} \<and> market_ok (wf_market C)"

text \<open>With the one operation of the chain taken out.\<close>

definition between :: "'c WsFeedClient \<Rightarrow> bool" where
  "between C \<longleftrightarrow> chain C = [] \<and> 0 \<le> wf_reconnectAttempts C \<and> wf_delay C \<in> {0, 1} \<and> market_ok (wf_market C)"

lemma chain_await: "chain (await x C) = (if x = WStop then chain C else chain C @ [x])"
  by (simp add: chain_def await_def)

lemma between_ok: "between C \<Longrightarrow> client_ok C"
  by (simp add: between_def client_ok_def)

lemma await_ok:
  assumes "between C" "x \<in> stream_waits \<Longrightarrow> wf_stream C" "x = WWrite \<or> x = WRead \<Longrightarrow> wf_reconnectAttempts C = 0"
  shows "client_ok (await x C)"
  using assms by (auto simp: between_def client_ok_def chain_await) (auto simp: await_def)

lemma doResolve_ok: "between C \<Longrightarrow> client_ok (doResolve C)"
proof -
  assume b: "between C"
  then have "between (C \<lparr> wf_stream := False \<rparr>)" by (simp add: between_def chain_def)
  then show ?thesis using b await_ok [of "C \<lparr> wf_stream := False \<rparr>" WResolve] between_ok
    by (auto simp: doResolve_def stream_waits_def)
qed

lemma onResolve_ok: "between C \<Longrightarrow> client_ok (onResolve ssl sni ok C)"
proof -
  assume b: "between C"
  then have s: "between (C \<lparr> wf_stream := True \<rparr>)" by (simp add: between_def chain_def)
  then show ?thesis using b await_ok [OF s, of WConnect] between_ok by (auto simp: onResolve_def)
qed

lemma on_stream_ok: "between C \<Longrightarrow> wf_stream C \<Longrightarrow> x = WWrite \<or> x = WRead \<longrightarrow> wf_reconnectAttempts C = 0 \<Longrightarrow>
    \<exists>C'. on_stream x C = Some C' \<and> client_ok C'"
  using await_ok by (auto simp: on_stream_def)

lemma handshakes_ok:
  assumes "between C" "wf_stream C"
  shows "\<exists>C'. onSslHandshake ok C = Some C' \<and> client_ok C'" "\<exists>C'. onTcpConnect ok C = Some C' \<and> client_ok C'"
    "\<exists>C'. onWsHandshake ok C = Some C' \<and> client_ok C'"
proof -
  show "\<exists>C'. onSslHandshake ok C = Some C' \<and> client_ok C'" "\<exists>C'. onTcpConnect ok C = Some C' \<and> client_ok C'"
    using assms on_stream_ok [of C] between_ok by (auto simp: onSslHandshake_def onTcpConnect_def)
  have "between (C \<lparr> wf_reconnectAttempts := 0, wf_sent := wf_sent C @ [subscribeMessage (wf_symbols C)] \<rparr>)"
    using assms by (simp add: between_def chain_def)
  then show "\<exists>C'. onWsHandshake ok C = Some C' \<and> client_ok C'"
    using assms on_stream_ok [of "C \<lparr> wf_reconnectAttempts := 0, wf_sent := wf_sent C @ [subscribeMessage (wf_symbols C)] \<rparr>" WWrite] between_ok
    by (auto simp: onWsHandshake_def)
qed

lemma client_doRead_ok: "between C \<Longrightarrow> wf_stream C \<Longrightarrow> wf_reconnectAttempts C = 0 \<Longrightarrow> \<exists>C'. client_doRead C = Some C' \<and> client_ok C'"
  using on_stream_ok [of C WRead] between_ok by (auto simp: client_doRead_def)

lemma scheduleReconnect_ok: "between C \<Longrightarrow> wf_reconnectAttempts C = 0 \<Longrightarrow> client_ok (scheduleReconnect C)"
proof -
  assume b: "between C" "wf_reconnectAttempts C = 0"
  let ?C = "C \<lparr> wf_reconnectAttempts := 1, wf_delay := 1, wf_waits := filter (\<lambda>x. x \<noteq> WTimer) (wf_waits C) \<rparr>"
  have "between ?C" using b by (auto simp: between_def chain_def filter_empty_conv)
  then show ?thesis using b await_ok [of ?C WTimer] between_ok
    by (auto simp: scheduleReconnect_def Let_def MAX_RECONNECT_DELAY_SEC_def stream_waits_def)
qed

lemma client_handleMessage_ok:
  assumes "between C" "message_fits parse u msg C"
  obtains C' where "client_handleMessage parse u msg C = Some C'" "between C'" "wf_stream C' = wf_stream C"
    "wf_reconnectAttempts C' = wf_reconnectAttempts C"
proof -
  obtain es a where t: "translate parse msg (wf_adapter C) = Some (es, a)"
    using translate_defined [of parse msg "wf_adapter C"] assms(2) by (auto simp: message_fits_def)
  then have "acts_fit u (map event_act es) (wf_market C)" using assms(2) by (simp add: message_fits_def)
  then obtain e w where "dispatch_all u es (wf_market C) = Some (e, w)" "market_ok w"
    using feed_events.handle_ok [of "wf_market C" u es] assms(1) by (auto simp: between_def)
  then show ?thesis using that [of "C \<lparr> wf_adapter := a, wf_market := w \<rparr>"] assms(1) t
    by (simp add: client_handleMessage_def between_def chain_def)
qed

lemma client_onRead_ok:
  assumes "between C" "wf_stream C" "wf_reconnectAttempts C = 0" "\<And>m. msg = Some m \<Longrightarrow> message_fits parse u m C"
  shows "\<exists>C'. client_onRead parse u msg C = Some C' \<and> client_ok C'"
proof (cases msg)
  case None
  then show ?thesis using assms scheduleReconnect_ok between_ok by (auto simp: client_onRead_def)
next
  case (Some m)
  obtain C1 where "client_handleMessage parse u m C = Some C1" "between C1" "wf_stream C1" "wf_reconnectAttempts C1 = 0"
    using client_handleMessage_ok [OF assms(1) assms(4) [OF Some]] assms(2,3) by metis
  then show ?thesis using client_doRead_ok Some by (auto simp: client_onRead_def)
qed

section \<open>Every completion\<close>

lemma filter_remove1_eq: "filter P (remove1 x xs) = remove1 x (filter P xs)"
  by (induction xs) auto

definition taken :: "wait \<Rightarrow> 'c WsFeedClient \<Rightarrow> 'c WsFeedClient" where
  "taken x C = C \<lparr> wf_waits := remove1 x (wf_waits C) \<rparr>"

lemma single_chain: "client_ok C \<Longrightarrow> x \<in> set (wf_waits C) \<Longrightarrow> x \<noteq> WStop \<Longrightarrow> chain C = [x]"
proof -
  assume c: "client_ok C" "x \<in> set (wf_waits C)" "x \<noteq> WStop"
  then have "x \<in> set (chain C)" "length (chain C) \<le> 1" by (auto simp: chain_def client_ok_def)
  then show ?thesis by (cases "chain C") auto
qed

lemma taken_between: "client_ok C \<Longrightarrow> x \<in> set (wf_waits C) \<Longrightarrow> x \<noteq> WStop \<Longrightarrow> between (taken x C)"
  using single_chain [of C x] by (auto simp: between_def client_ok_def taken_def chain_def filter_remove1_eq)

lemma onStop_ok: "client_ok C \<Longrightarrow> client_ok (onStop (taken WStop C))"
proof -
  assume c: "client_ok C"
  have "chain (onStop (taken WStop C)) = filter (\<lambda>x. x \<noteq> WTimer) (chain C)"
    by (simp add: chain_def onStop_def taken_def filter_remove1_eq remove1_idem conj_commute)
  moreover have "length (filter (\<lambda>x. x \<noteq> WTimer) (chain C)) \<le> 1"
    by (rule le_trans [OF length_filter_le]) (use c in \<open>simp add: client_ok_def\<close>)
  ultimately show ?thesis using c by (auto simp: client_ok_def onStop_def taken_def)
qed

lemma stop_ok: "client_ok C \<Longrightarrow> client_ok (client_stop C)"
  by (simp add: client_ok_def client_stop_def chain_def await_def)

lemma complete_ok:
  assumes "client_ok C" "x \<in> set (wf_waits C)" "message_fits parse u msg C"
  shows "\<exists>C'. client_complete ssl parse u x ok sni msg C = Some C' \<and> client_ok C'"
proof (cases "x = WStop")
  case True
  then show ?thesis using onStop_ok [OF assms(1)] by (simp add: client_complete_def taken_def)
next
  case False
  note b = taken_between [OF assms(1,2) False]
  have s: "wf_stream (taken x C)" if "x \<in> stream_waits"
    using single_chain [OF assms(1,2) False] assms(1) that by (auto simp: client_ok_def taken_def)
  have z: "wf_reconnectAttempts (taken x C) = 0" if "x = WWrite \<or> x = WRead"
    using single_chain [OF assms(1,2) False] assms(1) that by (auto simp: client_ok_def taken_def)
  have m: "message_fits parse u msg (taken x C)" using assms(3) by (auto simp: message_fits_def taken_def split: option.splits)
  have e: "client_complete ssl parse u x ok sni msg C = (case x of
       WStart \<Rightarrow> Some (doResolve (taken x C)) | WStop \<Rightarrow> Some (onStop (taken x C)) | WResolve \<Rightarrow> Some (onResolve ssl sni ok (taken x C))
     | WConnect \<Rightarrow> onTcpConnect ok (taken x C) | WTls \<Rightarrow> onSslHandshake ok (taken x C) | WHandshake \<Rightarrow> onWsHandshake ok (taken x C)
     | WWrite \<Rightarrow> onSubscribed ok (taken x C) | WRead \<Rightarrow> client_onRead parse u (if ok then Some msg else None) (taken x C)
     | WTimer \<Rightarrow> Some (onReconnectTimer ok (taken x C)))"
    by (simp only: client_complete_def taken_def Let_def)
  show ?thesis unfolding e
    using False b s z m handshakes_ok [of "taken x C"] client_doRead_ok [of "taken x C"] doResolve_ok onResolve_ok between_ok
      client_onRead_ok [of "taken x C" "if ok then Some msg else None" parse u]
    by (cases x) (auto simp: stream_waits_def onSubscribed_def onReconnectTimer_def split: if_splits)
qed

lemma start_ok: "WsFeedClient_new url symbols w = Some C \<Longrightarrow> market_ok w \<Longrightarrow> client_ok (client_start C)"
  by (auto simp: WsFeedClient_new_def client_start_def client_ok_def chain_def await_def stream_waits_def)

lemma reach_ok:
  assumes "WsFeedClient_new url symbols w = Some C0" "market_ok w" "client_reach ssl parse u (client_start C0) C"
  shows "client_ok C"
  using assms(3)
proof induction
  case (complete C x msg ok sni C')
  then show ?case using complete_ok [of C x parse u msg ssl ok sni] by auto
qed (simp_all add: start_ok [OF assms(1,2)] stop_ok)

text \<open>C29. A feed client that is started once, whatever its operations return and whatever messages arrive, in any
  order with stops: it has at most one operation outstanding, it uses its stream only while it has one, the
  events of every message are applied to the end, and the dispatcher and every book stay well formed. Messages
  have numbers in range, and their book operations have a specified tick value and overflow no level total.\<close>

theorem feed_client_safe:
  assumes "WsFeedClient_new url symbols w = Some C0" "market_ok w" "client_reach ssl parse u (client_start C0) C"
  shows "length (chain C) \<le> 1 \<and> market_ok (wf_market C) \<and>
    (\<forall>x \<in> set (wf_waits C). \<forall>ok sni msg. message_fits parse u msg C \<longrightarrow>
       (\<exists>C'. client_complete ssl parse u x ok sni msg C = Some C'))"
proof -
  note c = reach_ok [OF assms]
  then have "length (chain C) \<le> 1" "market_ok (wf_market C)" by (simp_all add: client_ok_def)
  then show ?thesis using complete_ok [OF c] by blast
qed

text \<open>The operations before the first read.\<close>

definition connecting :: "wait set" where
  "connecting = {WResolve, WConnect, WTls, WHandshake, WWrite}"

text \<open>The reconnection of the client: it never waits longer than one second, since every read follows a handshake
  that sets the number of attempts back; and when resolving, connecting, a handshake or the subscription fails,
  no operation is left outstanding, so that nothing happens any more until the client is started again.\<close>

theorem feed_client_gives_up:
  assumes "WsFeedClient_new url symbols w = Some C0" "market_ok w" "client_reach ssl parse u (client_start C0) C"
  shows "wf_delay C \<le> 1 \<and>
    (\<forall>x \<in> set (wf_waits C) \<inter> connecting. \<exists>C'. client_complete ssl parse u x False sni msg C = Some C' \<and> chain C' = [])"
proof -
  note c = reach_ok [OF assms]
  have "\<exists>C'. client_complete ssl parse u x False sni msg C = Some C' \<and> chain C' = []" if "x \<in> set (wf_waits C)" "x \<in> connecting" for x
  proof -
    have "x \<noteq> WStop" using that(2) by (auto simp: connecting_def)
    then have "chain (taken x C) = []" using taken_between [OF c that(1)] by (simp add: between_def)
    then show ?thesis using that(2)
      by (auto simp: connecting_def client_complete_def taken_def onResolve_def onTcpConnect_def onSslHandshake_def onWsHandshake_def onSubscribed_def)
  qed
  then show ?thesis using c by (auto simp: client_ok_def)
qed

definition demo_client :: "unit WsFeedClient" where
  "demo_client = the (WsFeedClient_new ''ws://feed:9000/v1'' [''*''] \<lparr> mk_dispatcher = None, mk_obManager = Some OrderBookManager_init \<rparr>)"

lemma demo_client_new:
  "WsFeedClient_new ''ws://feed:9000/v1'' [''*''] \<lparr> mk_dispatcher = None, mk_obManager = Some OrderBookManager_init \<rparr> = Some demo_client"
  by (simp add: demo_client_def WsFeedClient_new_def parseUrl_def)

lemma demo_client_market: "market_ok (\<lparr> mk_dispatcher = None, mk_obManager = Some OrderBookManager_init \<rparr> :: unit Market)"
  by (simp add: market_ok_def init_mgr_inv)

theorem feed_client_safe_witness: "length (chain (client_start demo_client)) \<le> 1"
  using feed_client_safe [OF demo_client_new demo_client_market init [of False "\<lambda>_. None" Bid "client_start demo_client"]] by blast

theorem feed_client_gives_up_witness: "wf_delay (client_start demo_client) \<le> 1"
  using feed_client_gives_up [OF demo_client_new demo_client_market init [of False "\<lambda>_. None" Bid "client_start demo_client"]] by blast

section \<open>Addresses\<close>

lemma while_not: "c \<notin> set xs \<Longrightarrow> takeWhile (\<lambda>x. x \<noteq> c) (xs @ c # ys) = xs" "c \<notin> set xs \<Longrightarrow> dropWhile (\<lambda>x. x \<noteq> c) (xs @ c # ys) = c # ys"
  "c \<notin> set xs \<Longrightarrow> takeWhile (\<lambda>x. x \<noteq> c) xs = xs" "c \<notin> set xs \<Longrightarrow> dropWhile (\<lambda>x. x \<noteq> c) xs = []"
  by (induction xs) auto

lemma split_last_append: "c \<notin> set b \<Longrightarrow> split_last c (a @ c # b) = Some (a, b)"
  using while_not(1,2) [of c "rev b" "rev a"] by (simp add: split_last_def)

lemma parse_authority_parts:
  assumes "CHR ''/'' \<notin> set host" "CHR ''/'' \<notin> set port" "CHR '':'' \<notin> set port" "target = [] \<or> hd target = CHR ''/''"
  shows "parse_authority tls (host @ CHR '':'' # port @ target) =
    \<lparr> ur_tls = tls, ur_host = host, ur_port = port, ur_target = (if target = [] then ''/'' else target) \<rparr>"
proof -
  have "CHR ''/'' \<notin> set (host @ CHR '':'' # port)" using assms by simp
  note w = while_not [OF this]
  show ?thesis
  proof (cases target)
    case Nil
    then show ?thesis using assms split_last_append [of "CHR '':''" port host]
      by (simp add: parse_authority_def Let_def while_not(3))
  next
    case (Cons c t)
    then have "c = CHR ''/''" using assms by simp
    then show ?thesis using w(1,2) [of t] Cons split_last_append [OF assms(3), of host] by (simp add: parse_authority_def Let_def)
  qed
qed

text \<open>The address of a feed is read back from its parts.\<close>

lemma url_parts:
  assumes "CHR ''/'' \<notin> set host" "CHR ''/'' \<notin> set port" "CHR '':'' \<notin> set port" "target = [] \<or> hd target = CHR ''/''"
  shows "parseUrl ((if tls then ''wss://'' else ''ws://'') @ host @ CHR '':'' # port @ target) =
    Some \<lparr> ur_tls = tls, ur_host = host, ur_port = port, ur_target = (if target = [] then ''/'' else target) \<rparr>"
  using parse_authority_parts [OF assms] by (simp add: parseUrl_def)

end
