(* ===== verification/Engine_Config.thy ===== *)
theory Engine_Config
  imports Text_Format Gma_Prelude "HOL-Library.AList"
begin

text \<open>
  The configuration (\<^verbatim>\<open>util/Config.cpp\<close>): the reader of the key-value file on the bytes of the file, the
  synthesis of ingress entries from older keys, and the keys passed on to the readers of the connectors
  (\<^verbatim>\<open>engine/ConfigNamespaceRegistry.hpp\<close>). The result \<^const>\<open>None\<close> is a number that is no \<^verbatim>\<open>int\<close>,
  for which \<^verbatim>\<open>atoi\<close> has no specified value.
\<close>

section \<open>Data\<close>

record FeedConfig =
  fg_url :: string
  fg_adapter :: string
  fg_symbols :: "string list"

record Ingress =
  ig_kind :: string
  ig_params :: "(string, string) umap"

record Config =
  taMACD_fast :: int
  taMACD_slow :: int
  taBBands_n :: int
  taBBands_stdK :: double
  taSMA :: "int list"
  taEMA :: "int list"
  taRSI :: int
  taATR :: int
  taMomentum :: int
  taMACD_signal :: int
  taVolAvg :: int
  wsPort :: int
  feedPort :: int
  threadPoolSize :: int
  taHistoryMax :: int
  cfg_maxSymbols :: int
  cfg_maxFieldsPerSymbol :: int
  metricsEnabled :: bool
  metricsIntervalSec :: int
  logLevel :: string
  feedUrl :: string
  feedSymbols :: "string list"
  cfg_allowNegativePrices :: bool
  feeds :: "FeedConfig list"
  ingress :: "Ingress list"
  forumUrl :: string
  forumTenantId :: string
  forumAuthToken :: string
  pendingKeys :: "(string \<times> string) list"

definition FeedConfig_init :: FeedConfig where
  "FeedConfig_init = \<lparr> fg_url = [], fg_adapter = ''itch'', fg_symbols = [''*''] \<rparr>"

definition Ingress_init :: Ingress where
  "Ingress_init = \<lparr> ig_kind = [], ig_params = [] \<rparr>"

definition Config_init :: Config where
  "Config_init = \<lparr> taMACD_fast = 12, taMACD_slow = 26, taBBands_n = 20, taBBands_stdK = DFin 2, taSMA = [5, 20], taEMA = [12, 26],
     taRSI = 14, taATR = 14, taMomentum = 10, taMACD_signal = 9, taVolAvg = 20, wsPort = 8080, feedPort = 9001, threadPoolSize = 0,
     taHistoryMax = 1000, cfg_maxSymbols = 10000, cfg_maxFieldsPerSymbol = 200, metricsEnabled = False, metricsIntervalSec = 15,
     logLevel = ''info'', feedUrl = [], feedSymbols = [''*''], cfg_allowNegativePrices = False, feeds = [], ingress = [],
     forumUrl = [], forumTenantId = [], forumAuthToken = [], pendingKeys = [] \<rparr>"

section \<open>Keys and values\<close>

definition parseLineKV :: "string \<Rightarrow> (string \<times> string) option" where
  "parseLineKV line =
     (if CHR ''='' \<notin> set line then None
      else let k = trim (takeWhile (\<lambda>c. c \<noteq> CHR ''='') line); v = trim (tl (dropWhile (\<lambda>c. c \<noteq> CHR ''='') line))
           in if k = [] then None else Some (k, v))"

text \<open>\<^verbatim>\<open>std::max(1, std::atoi(...))\<close>, and a value that is kept only in a range.\<close>

definition at_least_one :: "string \<Rightarrow> (int \<Rightarrow> Config) \<Rightarrow> Config option" where
  "at_least_one val f = map_option (\<lambda>v. f (max 1 v)) (atoi (c_str val))"

definition kept_if :: "(int \<Rightarrow> bool) \<Rightarrow> string \<Rightarrow> (int \<Rightarrow> Config) \<Rightarrow> Config \<Rightarrow> Config option" where
  "kept_if ok val f cfg = map_option (\<lambda>v. if ok v then f v else cfg) (atoi (c_str val))"

definition truthy :: "string \<Rightarrow> bool" where
  "truthy val \<longleftrightarrow> val = ''true'' \<or> val = ''1'' \<or> val = ''yes''"

definition symbol_list :: "string \<Rightarrow> string list" where
  "symbol_list val = (let ts = filter (\<lambda>t. t \<noteq> []) (map trim (getlines (CHR '','') val)) in if ts = [] then [''*''] else ts)"

fun positive_ints :: "string list \<Rightarrow> int list option" where
  "positive_ints [] = Some []"
| "positive_ints (t # ts) = (case atoi (c_str (trim t)) of
       None \<Rightarrow> None
     | Some v \<Rightarrow> map_option (\<lambda>vs. if v > 0 then v # vs else vs) (positive_ints ts))"

definition period_list :: "int list \<Rightarrow> string \<Rightarrow> int list option" where
  "period_list dflt val = map_option (\<lambda>vs. if vs = [] then dflt else vs) (positive_ints (getlines (CHR '','') val))"

section \<open>Indexed keys\<close>

text \<open>The index and the field of \<^verbatim>\<open>prefix.N.field\<close>; the outer \<^const>\<open>None\<close> is an index that is no \<^verbatim>\<open>int\<close>.\<close>

definition indexed :: "nat \<Rightarrow> string \<Rightarrow> (nat \<times> string) option option" where
  "indexed n key =
     (let rest = drop n key
      in if CHR ''.'' \<notin> set rest then Some None
         else let idxStr = takeWhile (\<lambda>c. c \<noteq> CHR ''.'') rest; field = tl (dropWhile (\<lambda>c. c \<noteq> CHR ''.'') rest)
              in if idxStr = [] \<or> \<not> isdigit (hd idxStr) then Some None
                 else map_option (\<lambda>idx. if 0 \<le> idx \<and> idx < 64 then Some (nat idx, field) else None) (atoi idxStr))"

definition grow :: "'a \<Rightarrow> nat \<Rightarrow> 'a list \<Rightarrow> 'a list" where
  "grow d idx xs = xs @ replicate (Suc idx - length xs) d"

definition set_ingress :: "nat \<Rightarrow> string \<Rightarrow> string \<Rightarrow> Config \<Rightarrow> Config" where
  "set_ingress idx field val cfg =
     (let xs = grow Ingress_init idx (ingress cfg); e = xs ! idx
      in cfg \<lparr> ingress := xs[idx := if field = ''kind'' then e \<lparr> ig_kind := val \<rparr>
                                    else e \<lparr> ig_params := AList.update field val (ig_params e) \<rparr>] \<rparr>)"

definition set_feed :: "nat \<Rightarrow> string \<Rightarrow> string \<Rightarrow> Config \<Rightarrow> Config" where
  "set_feed idx field val cfg =
     (let xs = grow FeedConfig_init idx (feeds cfg); e = xs ! idx
      in cfg \<lparr> feeds := xs[idx := if field = ''url'' then e \<lparr> fg_url := val \<rparr>
                                  else if field = ''adapter'' then e \<lparr> fg_adapter := val \<rparr>
                                  else if field = ''symbols'' then e \<lparr> fg_symbols := symbol_list val \<rparr> else e] \<rparr>)"

section \<open>One key\<close>

definition apply_ta :: "string \<Rightarrow> string \<Rightarrow> Config \<Rightarrow> Config option option" where
  "apply_ta key val cfg =
     (if key = ''taMACD_fast'' then Some (at_least_one val (\<lambda>v. cfg \<lparr> taMACD_fast := v \<rparr>))
      else if key = ''taMACD_slow'' then Some (at_least_one val (\<lambda>v. cfg \<lparr> taMACD_slow := v \<rparr>))
      else if key = ''taBBands_n'' then Some (at_least_one val (\<lambda>v. cfg \<lparr> taBBands_n := v \<rparr>))
      else if key = ''taBBands_stdK'' then Some (Some (cfg \<lparr> taBBands_stdK := fst (strtod (c_str val)) \<rparr>))
      else if key = ''taRSI'' then Some (at_least_one val (\<lambda>v. cfg \<lparr> taRSI := v \<rparr>))
      else if key = ''taATR'' then Some (at_least_one val (\<lambda>v. cfg \<lparr> taATR := v \<rparr>))
      else if key = ''taMomentum'' then Some (at_least_one val (\<lambda>v. cfg \<lparr> taMomentum := v \<rparr>))
      else if key = ''taMACD_signal'' then Some (at_least_one val (\<lambda>v. cfg \<lparr> taMACD_signal := v \<rparr>))
      else if key = ''taVolAvg'' then Some (at_least_one val (\<lambda>v. cfg \<lparr> taVolAvg := v \<rparr>))
      else if key = ''taSMA'' then Some (map_option (\<lambda>vs. cfg \<lparr> taSMA := vs \<rparr>) (period_list [5, 20] val))
      else if key = ''taEMA'' then Some (map_option (\<lambda>vs. cfg \<lparr> taEMA := vs \<rparr>) (period_list [12, 26] val))
      else None)"

definition apply_engine :: "string \<Rightarrow> string \<Rightarrow> Config \<Rightarrow> Config option option" where
  "apply_engine key val cfg =
     (if key = ''wsPort'' then Some (kept_if (\<lambda>p. p > 0 \<and> p \<le> 65535) val (\<lambda>p. cfg \<lparr> wsPort := p \<rparr>) cfg)
      else if key = ''feedPort'' then Some (kept_if (\<lambda>p. p > 0 \<and> p \<le> 65535) val (\<lambda>p. cfg \<lparr> feedPort := p \<rparr>) cfg)
      else if key = ''threadPoolSize'' then Some (kept_if (\<lambda>v. v \<ge> 0) val (\<lambda>v. cfg \<lparr> threadPoolSize := v \<rparr>) cfg)
      else if key = ''taHistoryMax'' then Some (kept_if (\<lambda>v. v > 0) val (\<lambda>v. cfg \<lparr> taHistoryMax := v \<rparr>) cfg)
      else if key = ''maxSymbols'' then Some (kept_if (\<lambda>v. v > 0) val (\<lambda>v. cfg \<lparr> cfg_maxSymbols := v \<rparr>) cfg)
      else if key = ''maxFieldsPerSymbol'' then Some (kept_if (\<lambda>v. v > 0) val (\<lambda>v. cfg \<lparr> cfg_maxFieldsPerSymbol := v \<rparr>) cfg)
      else if key = ''allowNegativePrices'' then Some (Some (cfg \<lparr> cfg_allowNegativePrices := truthy val \<rparr>))
      else if key = ''metricsEnabled'' then Some (Some (cfg \<lparr> metricsEnabled := truthy val \<rparr>))
      else if key = ''metricsIntervalSec'' then Some (kept_if (\<lambda>v. v > 0) val (\<lambda>v. cfg \<lparr> metricsIntervalSec := v \<rparr>) cfg)
      else if key = ''logLevel'' then Some (Some (cfg \<lparr> logLevel := val \<rparr>))
      else if key = ''forumUrl'' then Some (Some (cfg \<lparr> forumUrl := val \<rparr>))
      else if key = ''forumTenantId'' then Some (Some (cfg \<lparr> forumTenantId := val \<rparr>))
      else if key = ''forumAuthToken'' then Some (Some (cfg \<lparr> forumAuthToken := val \<rparr>))
      else if key = ''feedUrl'' then Some (Some (cfg \<lparr> feedUrl := val \<rparr>))
      else if key = ''feedSymbols'' then Some (Some (cfg \<lparr> feedSymbols := symbol_list val \<rparr>))
      else None)"

definition apply_indexed :: "string \<Rightarrow> string \<Rightarrow> Config \<Rightarrow> Config option option" where
  "apply_indexed key val cfg =
     (if take 8 key = ''ingress.'' \<and> length key > 8
      then Some (map_option (\<lambda>p. case p of None \<Rightarrow> cfg | Some (i, field) \<Rightarrow> set_ingress i field val cfg) (indexed 8 key))
      else if take 5 key = ''feed.'' \<and> length key > 5
      then Some (map_option (\<lambda>p. case p of None \<Rightarrow> cfg | Some (i, field) \<Rightarrow> set_feed i field val cfg) (indexed 5 key))
      else None)"

text \<open>The chain of comparisons; keys that the engine does not know are kept.\<close>

definition apply_key :: "string \<Rightarrow> string \<Rightarrow> Config \<Rightarrow> Config option" where
  "apply_key key val cfg = (case apply_ta key val cfg of Some r \<Rightarrow> r | None \<Rightarrow>
     (case apply_engine key val cfg of Some r \<Rightarrow> r | None \<Rightarrow>
     (case apply_indexed key val cfg of Some r \<Rightarrow> r | None \<Rightarrow>
        Some (cfg \<lparr> pendingKeys := pendingKeys cfg @ [(key, val)] \<rparr>))))"

section \<open>The file\<close>

definition LINE_BUFFER :: nat where
  "LINE_BUFFER = 1023"

text \<open>\<^verbatim>\<open>fgets\<close>: up to the newline, at most \<open>n\<close> bytes.\<close>

fun fgets :: "nat \<Rightarrow> string \<Rightarrow> string \<times> string" where
  "fgets n [] = ([], [])"
| "fgets n (c # cs) =
     (if n = 0 then ([], c # cs)
      else if c = CHR 0x0A then ([c], cs) else (case fgets (n - 1) cs of (a, r) \<Rightarrow> (c # a, r)))"

lemma fgets_rest: "length (snd (fgets n s)) \<le> length s"
  by (induction n s rule: fgets.induct) (auto split: prod.splits)

lemma fgets_less: "0 < n \<Longrightarrow> s \<noteq> [] \<Longrightarrow> length (snd (fgets n s)) < length s"
proof (induction n s rule: fgets.induct)
  case (2 n c cs)
  then show ?case using fgets_rest [of "n - 1" cs] by (auto simp: le_imp_less_Suc split: prod.splits)
qed auto

text \<open>The rest of an oversized line.\<close>

function discard :: "string \<Rightarrow> string" where
  "discard s = (if s = [] then []
     else let p = fgets LINE_BUFFER s in if CHR 0x0A \<in> set (c_str (fst p)) then snd p else discard (snd p))"
  by pat_completeness auto

termination
  by (relation "measure length") (auto intro: fgets_less simp: LINE_BUFFER_def)

declare discard.simps [simp del]

lemma discard_rest: "length (discard s) \<le> length s"
proof (induction s rule: discard.induct)
  case (1 s)
  show ?case
  proof (cases "s = [] \<or> CHR 0x0A \<in> set (c_str (fst (fgets LINE_BUFFER s)))")
    case True
    then show ?thesis using fgets_rest [of LINE_BUFFER s] by (subst discard.simps) (auto simp: Let_def)
  next
    case False
    then have "length (discard (snd (fgets LINE_BUFFER s))) \<le> length (snd (fgets LINE_BUFFER s))" using "1.IH" by auto
    then show ?thesis using False fgets_rest [of LINE_BUFFER s] by (subst discard.simps) (simp add: Let_def)
  qed
qed

definition strip_eol :: "string \<Rightarrow> string" where
  "strip_eol line = rev (dropWhile (\<lambda>c. c = CHR 0x0A \<or> c = CHR 0x0D) (rev line))"

definition handle_config_line :: "string \<Rightarrow> Config \<Rightarrow> Config option" where
  "handle_config_line line cfg =
     (let s = trim (strip_eol line)
      in if s = [] \<or> hd s = CHR ''#'' \<or> hd s = CHR '';'' then Some cfg
         else case parseLineKV s of None \<Rightarrow> Some cfg | Some (k, v) \<Rightarrow> apply_key k v cfg)"

definition oversized :: "string \<Rightarrow> bool" where
  "oversized line \<longleftrightarrow> length line = LINE_BUFFER \<and> last line \<noteq> CHR 0x0A"

function read_lines :: "string \<Rightarrow> Config \<Rightarrow> Config option" where
  "read_lines s cfg = (if s = [] then Some cfg
     else let p = fgets LINE_BUFFER s; line = c_str (fst p)
          in if oversized line then read_lines (discard (snd p)) cfg
             else case handle_config_line line cfg of None \<Rightarrow> None | Some cfg' \<Rightarrow> read_lines (snd p) cfg')"
  by pat_completeness auto

termination
proof (relation "measure (\<lambda>(s, _). length s)")
  fix s cfg p line
  assume a: "s \<noteq> []" "p = fgets LINE_BUFFER s"
  then have "length (snd p) < length s" by (simp add: fgets_less LINE_BUFFER_def)
  then show "((discard (snd p), cfg), s, cfg) \<in> measure (\<lambda>(s, _). length s)" "\<And>c. ((snd p, c), s, cfg) \<in> measure (\<lambda>(s, _). length s)"
    using discard_rest [of "snd p"] by auto
qed simp

declare read_lines.simps [simp del]

section \<open>After the file\<close>

definition ws_entry :: "string \<Rightarrow> string \<Rightarrow> string list \<Rightarrow> Ingress" where
  "ws_entry url adapter symbols = \<lparr> ig_kind = ''market.wsclient'',
     ig_params = [(''url'', url), (''adapter'', adapter)] @ (if symbols = [] then [] else [(''symbols'', join '','' symbols)]) \<rparr>"

definition synthesizeIngressFromLegacy :: "Config \<Rightarrow> Config" where
  "synthesizeIngressFromLegacy cfg =
     (if ingress cfg \<noteq> [] then cfg
      else cfg \<lparr> ingress :=
        [\<lparr> ig_kind = ''market.feedserver'', ig_params = [(''port'', to_string (feedPort cfg))] \<rparr>]
        @ (if feedUrl cfg = [] then [] else [ws_entry (feedUrl cfg) ''itch'' (feedSymbols cfg)])
        @ map (\<lambda>fc. ws_entry (fg_url fc) (fg_adapter fc) (fg_symbols fc)) (filter (\<lambda>fc. fg_url fc \<noteq> []) (feeds cfg)) \<rparr>)"

definition sanity :: "Config \<Rightarrow> Config" where
  "sanity cfg0 =
     (let cfg = (if taMACD_slow cfg0 < taMACD_fast cfg0
                 then cfg0 \<lparr> taMACD_slow := taMACD_fast cfg0, taMACD_fast := taMACD_slow cfg0 \<rparr> else cfg0)
      in if dle (taBBands_stdK cfg) (DZero False) then cfg \<lparr> taBBands_stdK := DFin 2 \<rparr> else cfg)"

text \<open>The contents of the file, \<^const>\<open>None\<close> when it cannot be opened.\<close>

definition loadFromFile :: "string option \<Rightarrow> Config \<Rightarrow> (bool \<times> Config) option" where
  "loadFromFile file cfg = (case file of
       None \<Rightarrow> Some (False, cfg)
     | Some s \<Rightarrow> map_option (\<lambda>c. (True, sanity (synthesizeIngressFromLegacy c))) (read_lines s cfg))"

section \<open>Namespaces\<close>

text \<open>A reader changes the state of its connector; an exception is the answer false.\<close>

type_synonym 's reader = "string \<Rightarrow> string \<Rightarrow> 's \<Rightarrow> bool \<times> 's"

definition ns_register :: "string \<Rightarrow> 's reader \<Rightarrow> (string, 's reader) umap \<Rightarrow> (string, 's reader) umap" where
  "ns_register prefix reader reg = (if map_of reg prefix = None then reg @ [(prefix, reader)] else reg)"

definition ns_dispatch :: "(string, 's reader) umap \<Rightarrow> string \<Rightarrow> string \<Rightarrow> 's \<Rightarrow> bool \<times> 's" where
  "ns_dispatch reg fullKey val s =
     (if CHR ''.'' \<notin> set fullKey then (False, s)
      else case map_of reg (takeWhile (\<lambda>c. c \<noteq> CHR ''.'') fullKey) of
        None \<Rightarrow> (False, s)
      | Some reader \<Rightarrow> reader (tl (dropWhile (\<lambda>c. c \<noteq> CHR ''.'') fullKey)) val s)"

definition dispatchPendingKeys :: "(string, 's reader) umap \<Rightarrow> Config \<Rightarrow> 's \<Rightarrow> nat \<times> Config \<times> 's" where
  "dispatchPendingKeys reg cfg s =
     (case fold (\<lambda>(k, v) (n, s). case ns_dispatch reg k v s of (b, s') \<Rightarrow> (if b then Suc n else n, s')) (pendingKeys cfg) (0, s) of
        (n, s') \<Rightarrow> (n, cfg \<lparr> pendingKeys := [] \<rparr>, s'))"

end
