(* ===== verification/Market_TA.thy ===== *)
theory Market_TA
  imports Engine_Config Dispatcher
begin

text \<open>
  The technical analysis of market ticks (\<^verbatim>\<open>MarketTA.cpp\<close>): the indicators over the history of a symbol, on
  IEEE doubles, and the computer that the dispatcher runs on every tick. The median is taken with
  \<^verbatim>\<open>std::nth_element\<close>, which has no specified effect when a price is NaN: the result \<^const>\<open>None\<close>.
\<close>

section \<open>Data\<close>

record TickEntry =
  te_price :: double
  te_volume :: double
  te_bid :: double
  te_ask :: double
  te_timestampNs :: u64

record MarketFieldMap =
  fm_name :: string
  fm_priceFields :: "string list"
  fm_volumeFields :: "string list"
  fm_bidFields :: "string list"
  fm_askFields :: "string list"
  fm_timestampField :: string
  fm_taEnabled :: bool

definition MarketFieldMap_init :: MarketFieldMap where
  "MarketFieldMap_init = \<lparr> fm_name = ''default'', fm_priceFields = [''lastPrice'', ''price'', ''last'', ''px''],
     fm_volumeFields = [''volume'', ''vol'', ''qty'', ''size''], fm_bidFields = [], fm_askFields = [], fm_timestampField = [], fm_taEnabled = True \<rparr>"

type_synonym ta_results = "(string \<times> ArgType) list"

definition TA_EPSILON :: double where
  "TA_EPSILON = dlit (1 / 10 ^ 6)"

definition of_size :: "nat \<Rightarrow> double" where
  "of_size n = double_of_int (int n)"

definition dsum :: "double list \<Rightarrow> double" where
  "dsum xs = fold (\<lambda>x s. dadd s x) xs (DZero False)"

text \<open>The last \<open>n\<close> elements.\<close>

definition last_n :: "nat \<Rightarrow> 'a list \<Rightarrow> 'a list" where
  "last_n n xs = drop (length xs - n) xs"

section \<open>Indicators\<close>

definition computeMedian :: "double list \<Rightarrow> double option" where
  "computeMedian ps = (if ps = [] then Some DNaN
     else case dsort ps of
         None \<Rightarrow> None
       | Some vals \<Rightarrow> let n = length vals
           in Some (if n mod 2 = 1 then vals ! (n div 2) else dmul (dadd (vals ! (n div 2 - 1)) (vals ! (n div 2))) (DFin (1 / 2))))"

text \<open>One step of an exponential average.\<close>

definition ema_step :: "double \<Rightarrow> double \<Rightarrow> double \<Rightarrow> double" where
  "ema_step k x v = dadd (dmul k x) (dmul (dsub (DFin 1) k) v)"

definition ema_weight :: "nat \<Rightarrow> double" where
  "ema_weight period = ddiv (DFin 2) (of_size (period + 1))"

definition emaOverSeries :: "double list \<Rightarrow> nat \<Rightarrow> double" where
  "emaOverSeries series period =
     (if length series < period \<or> period = 0 then DNaN
      else let xs = last_n period series in fold (ema_step (ema_weight period)) (tl xs) (hd xs))"

definition ta_sma :: "double list \<Rightarrow> nat \<Rightarrow> double" where
  "ta_sma ps period = (if length ps < period then DNaN else ddiv (dsum (last_n period ps)) (of_size period))"

definition ta_ema :: "double list \<Rightarrow> nat \<Rightarrow> double" where
  "ta_ema ps period = (if length ps < period then DNaN else fold (ema_step (ema_weight period)) (tl ps) (hd ps))"

text \<open>The differences of the last \<open>n\<close> prices to the price before.\<close>

definition deltas :: "nat \<Rightarrow> double list \<Rightarrow> double list" where
  "deltas n ps = map (\<lambda>i. dsub (ps ! i) (ps ! (i - 1))) [length ps - n..<length ps]"

definition rsi_value :: "double list \<Rightarrow> nat \<Rightarrow> double" where
  "rsi_value ps rsiP =
     (let (gain, loss) = fold (\<lambda>d (g, l). if dlt (DZero False) d then (dadd g d, l) else (g, dadd l (dminus d)))
            (deltas rsiP ps) (DZero False, DZero False);
          avgGain = ddiv gain (of_size rsiP); avgLoss = ddiv loss (of_size rsiP);
          rs = ddiv avgGain (if dlt TA_EPSILON avgLoss then avgLoss else TA_EPSILON)
      in dsub (DFin 100) (ddiv (DFin 100) (dadd (DFin 1) rs)))"

text \<open>The loop of the MACD over the indices from 1.\<close>

definition macd_loop :: "double list \<Rightarrow> nat \<Rightarrow> nat \<Rightarrow> double \<times> double \<times> double list" where
  "macd_loop ps fast slow = fold (\<lambda>i (f, s, series).
       let f' = ema_step (ema_weight fast) (ps ! i) f; s' = ema_step (ema_weight slow) (ps ! i) s
       in (f', s', if i \<ge> slow - 1 then series @ [dsub f' s'] else series))
     [1..<length ps] (hd ps, hd ps, [])"

definition macd_results :: "double list \<Rightarrow> nat \<Rightarrow> nat \<Rightarrow> nat \<Rightarrow> ta_results" where
  "macd_results ps fast slow sig =
     (if length ps \<ge> slow then
        (case macd_loop ps fast slow of (_, _, series) \<Rightarrow>
           if series \<noteq> [] then
             let macdLine = last series; signal = emaOverSeries series sig
             in [(''macd_line'', ADouble macdLine), (''macd_signal'', ADouble signal), (''macd_histogram'', ADouble (dsub macdLine signal))]
           else [(''macd_line'', ADouble (DZero False)), (''macd_signal'', ADouble (DZero False)), (''macd_histogram'', ADouble (DZero False))])
      else [(''macd_line'', ADouble (dsub (ta_ema ps fast) (ta_ema ps slow))), (''macd_signal'', ADouble (DZero False)),
            (''macd_histogram'', ADouble (DZero False))])"

definition ta_stddev :: "double list \<Rightarrow> nat \<Rightarrow> double" where
  "ta_stddev ps n = (let m = ta_sma ps n
     in dsqrt (ddiv (fold (\<lambda>p a. let d = dsub p m in dadd a (dmul d d)) (last_n n ps) (DZero False)) (of_size n)))"

definition momentum_results :: "double list \<Rightarrow> int \<Rightarrow> ta_results" where
  "momentum_results ps mom =
     (if length ps \<ge> nat mom + 1 then
        let prevM = ps ! (length ps - nat mom - 1); change = dsub (last ps) prevM
        in [(''momentum_'' @ to_string mom, ADouble change),
            (''roc_'' @ to_string mom, ADouble (if dlt TA_EPSILON (dabs prevM) then ddiv (dmul (DFin 100) change) prevM else DNaN))]
      else [])"

definition obv_value :: "TickEntry list \<Rightarrow> double" where
  "obv_value hist = fold (\<lambda>i a.
       let p = te_price (hist ! i); q = te_price (hist ! (i - 1)); v = te_volume (hist ! i)
       in dadd a (if dlt q p then v else if dlt p q then dminus v else DZero False))
     [1..<length hist] (DZero False)"

definition ta_vwap :: "TickEntry list \<Rightarrow> double" where
  "ta_vwap hist =
     (let (pv, v) = fold (\<lambda>e (pv, v). (dadd pv (dmul (te_price e) (te_volume e)), dadd v (te_volume e))) hist (DZero False, DZero False)
      in if dlt (DZero False) v then ddiv pv v else DNaN)"

section \<open>All values\<close>

definition periods_valid :: "Config \<Rightarrow> bool" where
  "periods_valid cfg \<longleftrightarrow> \<not> (taBBands_n cfg \<le> 0 \<or> taRSI cfg \<le> 0 \<or> taMACD_fast cfg \<le> 0 \<or> taMACD_slow cfg \<le> 0 \<or> taMACD_signal cfg \<le> 0
     \<or> taMomentum cfg \<le> 0 \<or> taATR cfg \<le> 0 \<or> taVolAvg cfg \<le> 0)"

definition high_of :: "double list \<Rightarrow> double" where
  "high_of ps = fold (\<lambda>p h. dmax h p) ps (hd ps)"

definition low_of :: "double list \<Rightarrow> double" where
  "low_of ps = fold (\<lambda>p l. dmin l p) ps (hd ps)"

definition basic_results :: "double list \<Rightarrow> double \<Rightarrow> ta_results" where
  "basic_results ps median = [(''lastPrice'', ADouble (last ps)), (''openPrice'', ADouble (hd ps)), (''highPrice'', ADouble (high_of ps)),
     (''lowPrice'', ADouble (low_of ps)), (''mean'', ADouble (ddiv (dsum ps) (of_size (length ps)))), (''median'', ADouble median)]"

definition average_results :: "double list \<Rightarrow> Config \<Rightarrow> ta_results" where
  "average_results ps cfg =
     map (\<lambda>p. (''sma_'' @ to_string p, ADouble (ta_sma ps (nat p)))) (filter (\<lambda>p. p > 0) (taSMA cfg)) @
     map (\<lambda>p. (''ema_'' @ to_string p, ADouble (ta_ema ps (nat p)))) (filter (\<lambda>p. p > 0) (taEMA cfg))"

definition rsi_results :: "double list \<Rightarrow> int \<Rightarrow> ta_results" where
  "rsi_results ps p = (if length ps \<ge> nat p + 1 then [(''rsi_'' @ to_string p, ADouble (rsi_value ps (nat p)))] else [])"

definition band_results :: "double list \<Rightarrow> Config \<Rightarrow> ta_results" where
  "band_results ps cfg =
     (let n = nat (taBBands_n cfg); m = ta_sma ps n; w = dmul (taBBands_stdK cfg) (ta_stddev ps n)
      in if length ps \<ge> n then [(''bollinger_upper'', ADouble (dadd m w)), (''bollinger_lower'', ADouble (dsub m w))] else [])"

definition atr_results :: "double list \<Rightarrow> int \<Rightarrow> ta_results" where
  "atr_results ps p = (if length ps \<ge> nat p + 1
     then [(''atr_'' @ to_string p, ADouble (ddiv (dsum (map dabs (deltas (nat p) ps))) (of_size (nat p))))] else [])"

definition volume_results :: "TickEntry list \<Rightarrow> int \<Rightarrow> ta_results" where
  "volume_results hist p = (let vs = map te_volume hist
     in (''volume'', ADouble (last vs)) #
        (if length vs \<ge> nat p then [(''volume_avg_'' @ to_string p, ADouble (ddiv (dsum (last_n (nat p) vs)) (of_size (nat p))))] else []))"

definition rank_results :: "double list \<Rightarrow> Config \<Rightarrow> ta_results" where
  "rank_results ps cfg =
     (let n = nat (taBBands_n cfg); mean = ddiv (dsum ps) (of_size (length ps))
      in if \<not> deq mean (DZero False) \<and> length ps \<ge> n
         then [(''volatility_rank'', ADouble (dmin (ddiv (ta_stddev ps n) (dabs mean)) (DFin 1)))] else [])"

text \<open>
  The values in the order of the code; the empty list is returned without a write to the store, every other list
  after \<^verbatim>\<open>setBatch\<close>.
\<close>

definition computeAllAtomicValues :: "TickEntry list \<Rightarrow> Config \<Rightarrow> ta_results option" where
  "computeAllAtomicValues hist cfg =
     (let ps = map te_price hist
      in if hist = [] \<or> \<not> periods_valid cfg then Some []
         else map_option (\<lambda>median.
           basic_results ps median @
           (if length hist = 1 then []
            else [(''prevClose'', ADouble (ps ! (length ps - 2))), (''vwap'', ADouble (ta_vwap hist))] @ average_results ps cfg
                 @ rsi_results ps (taRSI cfg) @ macd_results ps (nat (taMACD_fast cfg)) (nat (taMACD_slow cfg)) (nat (taMACD_signal cfg))
                 @ band_results ps cfg @ momentum_results ps (taMomentum cfg) @ atr_results ps (taATR cfg)
                 @ volume_results hist (taVolAvg cfg) @ [(''obv'', ADouble (obv_value hist))] @ rank_results ps cfg))
           (computeMedian ps))"

section \<open>The computer\<close>

record MarketTickComputer =
  mc_cfg :: Config
  mc_fieldMap :: MarketFieldMap
  mc_symbolHistories :: "(string, TickEntry list) umap"
  mc_skipFields :: "string list"
  mc_maxHistory :: nat
  mc_maxSymbols :: nat

text \<open>\<^verbatim>\<open>initSkipFields\<close>, with the names of the registered functions.\<close>

definition skip_fields :: "string list \<Rightarrow> string list" where
  "skip_fields fns = [''lastPrice'', ''openPrice'', ''highPrice'', ''lowPrice'', ''mean'', ''median'', ''prevClose'', ''vwap'',
     ''volume'', ''obv'', ''volatility_rank''] @ fns"

definition MarketTickComputer_new :: "string list \<Rightarrow> Config \<Rightarrow> MarketFieldMap \<Rightarrow> MarketTickComputer" where
  "MarketTickComputer_new fns cfg fm = \<lparr> mc_cfg = cfg, mc_fieldMap = fm, mc_symbolHistories = [], mc_skipFields = skip_fields fns,
     mc_maxHistory = nat (max 1 (taHistoryMax cfg)), mc_maxSymbols = nat (max 1 (cfg_maxSymbols cfg)) \<rparr>"

text \<open>The first of the aliases that is a number.\<close>

fun first_number :: "string list \<Rightarrow> json \<Rightarrow> double option" where
  "first_number [] doc = None"
| "first_number (f # fs) doc = (case member (c_str f) doc of
       Some v \<Rightarrow> (case GetDouble v of Some d \<Rightarrow> Some d | None \<Rightarrow> first_number fs doc)
     | None \<Rightarrow> first_number fs doc)"

definition or_zero :: "double option \<Rightarrow> double" where
  "or_zero d = (case d of Some v \<Rightarrow> v | None \<Rightarrow> DZero False)"

definition timestamp_of :: "string \<Rightarrow> json \<Rightarrow> u64" where
  "timestamp_of f doc = (if f = [] then 0
     else case member (c_str f) doc of Some v \<Rightarrow> (case GetUint64 v of Some t \<Rightarrow> t | None \<Rightarrow> 0) | None \<Rightarrow> 0)"

definition quote_effects :: "string \<Rightarrow> double \<Rightarrow> double \<Rightarrow> u64 \<Rightarrow> effect list" where
  "quote_effects symbol bid ask ts =
     (let b = dlt (DZero False) bid; a = dlt (DZero False) ask
      in (if b then [EStoreSet symbol ''bid'' (ADouble bid)] else []) @ (if a then [EStoreSet symbol ''ask'' (ADouble ask)] else [])
         @ (if b \<and> a then [EStoreSet symbol ''spread'' (ADouble (dsub ask bid))] else [])
         @ (if ts > 0 then [EStoreSet symbol ''timestamp'' (AString (to_string (uint ts)))] else []))"

definition push_tick :: "string \<Rightarrow> TickEntry \<Rightarrow> MarketTickComputer \<Rightarrow> (TickEntry list \<times> MarketTickComputer) option" where
  "push_tick symbol e mc =
     (let hs = mc_symbolHistories mc
      in if map_of hs symbol = None \<and> length hs \<ge> mc_maxSymbols mc then None
         else let h = at_key symbol hs @ [e]; hist = (if length h > mc_maxHistory mc then tl h else h)
              in Some (hist, mc \<lparr> mc_symbolHistories := AList.update symbol hist hs \<rparr>))"

text \<open>The results without technical analysis.\<close>

definition light_results :: "double \<Rightarrow> double \<Rightarrow> TickEntry list \<Rightarrow> ta_results" where
  "light_results price volume hist = (let ps = map te_price hist
     in [(''lastPrice'', ADouble price), (''volume'', ADouble volume)] @
        (if hist = [] then [] else [(''openPrice'', ADouble (hd ps)), (''highPrice'', ADouble (high_of ps)), (''lowPrice'', ADouble (low_of ps))]))"

definition notify_value :: "ArgType \<Rightarrow> double" where
  "notify_value v = (case v of ADouble d \<Rightarrow> d | AInt i \<Rightarrow> double_of_int i | _ \<Rightarrow> DZero False)"

definition result_effects :: "string \<Rightarrow> ta_results \<Rightarrow> MarketTickComputer \<Rightarrow> effect list" where
  "result_effects symbol results mc =
     (if results = [] then []
      else EStoreBatch symbol results # map (\<lambda>(k, v). ENotify symbol k (notify_value v))
        (filter (\<lambda>(k, _). \<not> (fm_taEnabled (mc_fieldMap mc) \<and> k \<in> set (mc_skipFields mc))) results))"

text \<open>\<^verbatim>\<open>compute\<close> with a dispatcher; \<open>store\<close> tells whether there is a store.\<close>

definition tick_compute :: "bool \<Rightarrow> Event \<Rightarrow> MarketTickComputer \<Rightarrow> (effect list \<times> MarketTickComputer) option" where
  "tick_compute store tick mc = (case ev_payload tick of
       None \<Rightarrow> Some ([], mc)
     | Some doc \<Rightarrow>
         if \<not> store then Some ([], mc)
         else let fm = mc_fieldMap mc; symbol = ev_symbol tick
              in case first_number (fm_priceFields fm) doc of
                   None \<Rightarrow> Some ([], mc)
                 | Some price \<Rightarrow>
                     let volume = or_zero (first_number (fm_volumeFields fm) doc);
                         bid = or_zero (first_number (fm_bidFields fm) doc); ask = or_zero (first_number (fm_askFields fm) doc);
                         ts = timestamp_of (fm_timestampField fm) doc; quotes = quote_effects symbol bid ask ts
                     in case push_tick symbol \<lparr> te_price = price, te_volume = volume, te_bid = bid, te_ask = ask, te_timestampNs = ts \<rparr> mc of
                          None \<Rightarrow> Some (quotes, mc)
                        | Some (hist, mc') \<Rightarrow>
                            map_option (\<lambda>results. (quotes @ result_effects symbol results mc', mc'))
                              (if fm_taEnabled fm then computeAllAtomicValues hist (mc_cfg mc) else Some (light_results price volume hist)))"

end
