(* ===== verification/Engine_Config_Thms.thy ===== *)
theory Engine_Config_Thms
  imports Engine_Config "HOL-Library.Sublist"
begin

text \<open>
  Whatever the file says, the loaded configuration satisfies what the components rely on; and a file whose
  numbers have at most nine digits is always loaded.
\<close>

section \<open>Valid configurations\<close>

definition all_positive :: "int list \<Rightarrow> bool" where
  "all_positive ps \<longleftrightarrow> ps \<noteq> [] \<and> list_all (\<lambda>p. 1 \<le> p) ps"

definition config_ok :: "Config \<Rightarrow> bool" where
  "config_ok c \<longleftrightarrow> list_all (\<lambda>p. 1 \<le> p) [taMACD_fast c, taMACD_slow c, taBBands_n c, taRSI c, taATR c, taMomentum c, taMACD_signal c,
       taVolAvg c, wsPort c, feedPort c, taHistoryMax c, cfg_maxSymbols c, cfg_maxFieldsPerSymbol c, metricsIntervalSec c] \<and>
     all_positive (taSMA c) \<and> all_positive (taEMA c) \<and> wsPort c \<le> 65535 \<and> feedPort c \<le> 65535 \<and> 0 \<le> threadPoolSize c \<and>
     length (feeds c) \<le> 64 \<and> length (ingress c) \<le> 64"

definition loaded_ok :: "Config \<Rightarrow> bool" where
  "loaded_ok c \<longleftrightarrow> list_all (\<lambda>p. 1 \<le> p) [taMACD_fast c, taBBands_n c, taRSI c, taATR c, taMomentum c, taMACD_signal c,
       taVolAvg c, taHistoryMax c, cfg_maxSymbols c, cfg_maxFieldsPerSymbol c, metricsIntervalSec c] \<and>
     all_positive (taSMA c) \<and> all_positive (taEMA c) \<and> taMACD_fast c \<le> taMACD_slow c \<and>
     1 \<le> wsPort c \<and> wsPort c \<le> 65535 \<and> 1 \<le> feedPort c \<and> feedPort c \<le> 65535 \<and> 0 \<le> threadPoolSize c \<and>
     (isnan (taBBands_stdK c) \<or> dlt (DZero False) (taBBands_stdK c)) \<and> ingress c \<noteq> [] \<and> length (ingress c) \<le> 66"

lemma init_config_ok: "config_ok Config_init"
  by (simp add: config_ok_def Config_init_def all_positive_def)

section \<open>Short numbers\<close>

text \<open>No run of more than nine digits.\<close>

definition short_digits :: "string \<Rightarrow> bool" where
  "short_digits s \<longleftrightarrow> (\<forall>ds. sublist ds s \<longrightarrow> list_all isdigit ds \<longrightarrow> length ds \<le> 9)"

lemma short_digits_sub: "short_digits s \<Longrightarrow> sublist t s \<Longrightarrow> short_digits t"
  unfolding short_digits_def by (meson sublist_order.order.trans)

lemma digit_val_bound: "isdigit c \<Longrightarrow> digit_val c \<le> 9"
  by (auto simp: digit_val_def isdigit_def tolower_def Let_def)

lemma digits_val_bound: "list_all isdigit ds \<Longrightarrow> digits_val 10 n ds < (n + 1) * 10 ^ length ds"
proof (induction ds arbitrary: n)
  case (Cons c ds)
  then have "digits_val 10 (n * 10 + digit_val c) ds < (n * 10 + digit_val c + 1) * 10 ^ length ds" by simp
  also have "\<dots> \<le> ((n + 1) * 10) * 10 ^ length ds" using Cons.prems digit_val_bound [of c] by (intro mult_right_mono) auto
  finally show ?case by (simp add: distrib_right mult.assoc)
qed simp

lemma sublist_tail: "sublist xs (x # xs)"
  by (simp add: sublist_Cons_right)

lemma sublist_parts:
  "sublist (takeWhile P s) s" "sublist (dropWhile P s) s" "sublist (tl s) s" "sublist (rev (dropWhile P (rev s))) s" "sublist (drop n s) s"
  by (simp_all add: sublist_rev_left)

lemmas short_parts = sublist_parts [THEN short_digits_sub [rotated]]

lemma short_c_str: "short_digits s \<Longrightarrow> short_digits (c_str s)"
  by (simp add: c_str_def short_parts)

lemma short_trim: "short_digits s \<Longrightarrow> short_digits (trim s)"
  by (simp add: trim_def short_parts)

lemma sublist_take_sign: "sublist (snd (take_sign s)) s"
  by (cases s) (auto simp: sublist_tail)

lemma atoi_short: "short_digits s \<Longrightarrow> \<exists>v. atoi s = Some v"
proof -
  assume s: "short_digits s"
  let ?r = "snd (take_sign (dropWhile isspace s))" and ?ds = "takeWhile isdigit (snd (take_sign (dropWhile isspace s)))"
  have "sublist ?ds s" by (meson sublist_order.order.trans sublist_parts(1,2) sublist_take_sign)
  moreover have d: "list_all isdigit ?ds" by (auto simp: list_all_iff dest: set_takeWhileD)
  ultimately have "length ?ds \<le> 9" using s by (auto simp: short_digits_def)
  then have "(10 :: nat) ^ length ?ds \<le> 10 ^ 9" by (intro power_increasing) auto
  then have "digits_val 10 0 ?ds < 10 ^ 9" using digits_val_bound [OF d, of 0] by simp
  then show ?thesis by (auto simp: atoi_def Let_def int_min_def int_max_def split: prod.split)
qed

lemma short_getlines: "short_digits s \<Longrightarrow> t \<in> set (getlines sep s) \<Longrightarrow> short_digits t"
proof (induction sep s rule: getlines.induct)
  case (2 sep c cs)
  have "short_digits (drop 1 (dropWhile (\<lambda>x. x \<noteq> sep) (c # cs)))"
    by (rule short_parts(5) [OF short_parts(2) [OF "2.prems"(1)]])
  moreover have "short_digits (takeWhile (\<lambda>x. x \<noteq> sep) (c # cs))" by (rule short_parts(1) [OF "2.prems"(1)])
  ultimately show ?case using "2.IH" "2.prems"(2) by (simp only: getlines.simps(2) list.set insert_iff) blast
qed simp

section \<open>Every key\<close>

lemma positive_ints_total: "\<forall>t \<in> set ts. short_digits t \<Longrightarrow> \<exists>vs. positive_ints ts = Some vs \<and> list_all (\<lambda>p. 1 \<le> p) vs"
proof (induction ts)
  case (Cons t ts)
  obtain v where "atoi (c_str (trim t)) = Some v" using atoi_short [of "c_str (trim t)"] Cons.prems by (auto simp: short_c_str short_trim)
  moreover obtain vs where "positive_ints ts = Some vs" "list_all (\<lambda>p. 1 \<le> p) vs" using Cons by auto
  ultimately show ?case by (cases "0 < v") simp_all
qed simp

lemma period_list_total: "short_digits val \<Longrightarrow> all_positive d \<Longrightarrow> \<exists>vs. period_list d val = Some vs \<and> all_positive vs"
proof -
  assume a: "short_digits val" "all_positive d"
  obtain vs where "positive_ints (getlines (CHR '','') val) = Some vs" "list_all (\<lambda>p. 1 \<le> p) vs"
    using positive_ints_total [of "getlines (CHR '','') val"] short_getlines [OF a(1)] by auto
  then show ?thesis using a(2) by (cases "vs = []") (simp_all add: period_list_def all_positive_def)
qed

text \<open>What a branch of the chain promises: it is not taken, or it ends in a valid configuration.\<close>

definition yields :: "(Config \<Rightarrow> bool) \<Rightarrow> Config option option \<Rightarrow> bool" where
  "yields P r \<longleftrightarrow> (\<forall>x. r = Some x \<longrightarrow> (\<exists>c. x = Some c \<and> P c))"

lemma yields_if: "yields P x \<Longrightarrow> yields P y \<Longrightarrow> yields P (if b then x else y)"
  by simp

lemma yields_None: "yields P None"
  by (simp add: yields_def)

lemma yields_Some: "P c \<Longrightarrow> yields P (Some (Some c))"
  by (simp add: yields_def)

lemma yields_period: "short_digits val \<Longrightarrow> (\<And>v. 1 \<le> v \<Longrightarrow> P (f v)) \<Longrightarrow> yields P (Some (at_least_one val f))"
  using atoi_short [OF short_c_str, of val] by (auto simp: yields_def at_least_one_def)

lemma yields_kept: "short_digits val \<Longrightarrow> (\<And>v. ok v \<Longrightarrow> P (f v)) \<Longrightarrow> P c \<Longrightarrow> yields P (Some (kept_if ok val f c))"
proof -
  assume a: "short_digits val" "\<And>v. ok v \<Longrightarrow> P (f v)" "P c"
  obtain v where "atoi (c_str val) = Some v" using atoi_short [OF short_c_str [OF a(1)]] by blast
  then show ?thesis using a(2,3) by (cases "ok v") (simp_all add: yields_def kept_if_def)
qed

lemma yields_list:
  "short_digits val \<Longrightarrow> all_positive d \<Longrightarrow> (\<And>vs. all_positive vs \<Longrightarrow> P (f vs)) \<Longrightarrow> yields P (Some (map_option f (period_list d val)))"
  using period_list_total [of val d] by (auto simp: yields_def)

lemmas yields_intros = yields_if yields_None yields_period yields_kept yields_list yields_Some

lemma apply_ta_ok: "short_digits val \<Longrightarrow> config_ok c \<Longrightarrow> yields config_ok (apply_ta key val c)"
  unfolding apply_ta_def by (intro yields_intros) (simp_all add: config_ok_def, simp_all add: all_positive_def)

lemma apply_engine_ok: "short_digits val \<Longrightarrow> config_ok c \<Longrightarrow> yields config_ok (apply_engine key val c)"
  unfolding apply_engine_def by (intro yields_intros) (simp_all add: config_ok_def)

lemma grow_length: "idx < 64 \<Longrightarrow> length xs \<le> 64 \<Longrightarrow> length (grow d idx xs) \<le> 64"
  by (auto simp: grow_def)

lemma set_indexed_ok:
  "idx < 64 \<Longrightarrow> config_ok c \<Longrightarrow> config_ok (set_ingress idx field val c)"
  "idx < 64 \<Longrightarrow> config_ok c \<Longrightarrow> config_ok (set_feed idx field val c)"
  by (simp_all add: config_ok_def set_ingress_def set_feed_def Let_def grow_length)

lemma indexed_total:
  assumes "short_digits key"
  shows "\<exists>p. indexed n key = Some p \<and> (\<forall>i field. p = Some (i, field) \<longrightarrow> i < 64)"
proof -
  let ?idx = "takeWhile (\<lambda>c. c \<noteq> CHR ''.'') (drop n key)"
  obtain v where "atoi ?idx = Some v" using atoi_short [of ?idx] short_parts(1) [OF short_parts(5) [OF assms]] by blast
  then show ?thesis by (cases "0 \<le> v \<and> v < 64") (auto simp: indexed_def Let_def)
qed

lemma yields_indexed:
  assumes "short_digits key" "config_ok c" "\<And>i field. i < 64 \<Longrightarrow> config_ok (f i field)"
  shows "yields config_ok (Some (map_option (\<lambda>p. case p of None \<Rightarrow> c | Some (i, field) \<Rightarrow> f i field) (indexed n key)))"
proof -
  obtain p where "indexed n key = Some p" "\<forall>i field. p = Some (i, field) \<longrightarrow> i < 64" using indexed_total [OF assms(1)] by blast
  then show ?thesis using assms(2,3) by (cases p) (auto simp: yields_def)
qed

lemma apply_indexed_ok: "short_digits key \<Longrightarrow> config_ok c \<Longrightarrow> yields config_ok (apply_indexed key val c)"
  unfolding apply_indexed_def by (intro yields_if yields_None yields_indexed set_indexed_ok)

lemma apply_key_ok:
  assumes "short_digits key" "short_digits val" "config_ok c"
  shows "\<exists>c'. apply_key key val c = Some c' \<and> config_ok c'"
proof -
  have "config_ok (c \<lparr> pendingKeys := pendingKeys c @ [(key, val)] \<rparr>)" using assms(3) by (simp add: config_ok_def)
  then show ?thesis
    using apply_ta_ok [OF assms(2,3), of key] apply_engine_ok [OF assms(2,3), of key] apply_indexed_ok [OF assms(1,3), of val]
    by (auto simp: apply_key_def yields_def split: option.split)
qed

section \<open>Every file\<close>

lemma fgets_parts: "fst (fgets n s) @ snd (fgets n s) = s"
  by (induction n s rule: fgets.induct) (auto split: prod.splits)

lemma sublist_fgets: "sublist (fst (fgets n s)) s" "sublist (snd (fgets n s)) s"
  using fgets_parts [of n s] by (metis sublist_append_rightI, metis sublist_append_leftI)

lemma sublist_discard: "sublist (discard s) s"
proof (induction s rule: discard.induct)
  case (1 s)
  show ?case
  proof (cases "s = [] \<or> CHR 0x0A \<in> set (c_str (fst (fgets LINE_BUFFER s)))")
    case True
    then show ?thesis using sublist_fgets by (subst discard.simps) (auto simp: Let_def)
  next
    case False
    then have "sublist (discard (snd (fgets LINE_BUFFER s))) (snd (fgets LINE_BUFFER s))" using "1.IH" by auto
    then show ?thesis using False sublist_fgets(2) [of LINE_BUFFER s]
      by (subst discard.simps) (auto simp: Let_def intro: sublist_order.order.trans)
  qed
qed

lemma handle_config_line_ok:
  assumes "short_digits line" "config_ok c"
  shows "\<exists>c'. handle_config_line line c = Some c' \<and> config_ok c'"
proof -
  have s: "short_digits (trim (strip_eol line))" using assms(1) by (simp add: short_trim strip_eol_def short_parts)
  have "short_digits k \<and> short_digits v" if "parseLineKV (trim (strip_eol line)) = Some (k, v)" for k v
    using that s by (auto simp: parseLineKV_def Let_def short_trim short_parts split: if_splits)
  then show ?thesis using apply_key_ok assms(2) by (auto simp: handle_config_line_def Let_def split: option.split)
qed

lemma read_lines_ok: "short_digits s \<Longrightarrow> config_ok c \<Longrightarrow> \<exists>c'. read_lines s c = Some c' \<and> config_ok c'"
proof (induction s c rule: read_lines.induct)
  case (1 s c)
  let ?p = "fgets LINE_BUFFER s" and ?line = "c_str (fst (fgets LINE_BUFFER s))"
  note sh = short_digits_sub [OF "1.prems"(1) sublist_fgets(1), THEN short_c_str] short_digits_sub [OF "1.prems"(1) sublist_fgets(2)]
  show ?case
  proof (cases "s = []")
    case True
    then show ?thesis using "1.prems"(2) by (subst read_lines.simps) simp
  next
    case s: False
    show ?thesis
    proof (cases "oversized ?line")
      case True
      then show ?thesis using "1.IH"(1) [OF s refl refl True] short_digits_sub [OF sh(2) sublist_discard] "1.prems"(2) s
        by (subst read_lines.simps) (simp add: Let_def)
    next
      case False
      obtain c1 where c1: "handle_config_line ?line c = Some c1" "config_ok c1"
        using handle_config_line_ok [OF sh(1) "1.prems"(2)] by blast
      then show ?thesis using "1.IH"(2) [OF s refl refl False c1(1) sh(2) c1(2)] s False
        by (subst read_lines.simps) (simp add: Let_def)
    qed
  qed
qed

lemma synthesize_ok: "config_ok c \<Longrightarrow> ingress (synthesizeIngressFromLegacy c) \<noteq> [] \<and> length (ingress (synthesizeIngressFromLegacy c)) \<le> 66"
proof -
  assume c: "config_ok c"
  have "length (filter (\<lambda>fc. fg_url fc \<noteq> []) (feeds c)) \<le> 64" by (rule le_trans [OF length_filter_le]) (use c in \<open>simp add: config_ok_def\<close>)
  then show ?thesis using c by (auto simp: synthesizeIngressFromLegacy_def config_ok_def)
qed

lemma sanity_ok: "config_ok c \<Longrightarrow> loaded_ok (sanity (synthesizeIngressFromLegacy c))"
proof -
  assume c: "config_ok c"
  let ?c = "synthesizeIngressFromLegacy c"
  have k: "\<not> dle d (DZero False) \<Longrightarrow> isnan d \<or> dlt (DZero False) d" for d by (cases d) (auto simp: dle_def)
  have "config_ok (c \<lparr> ingress := [] \<rparr>)" using c by (simp add: config_ok_def)
  then show ?thesis using synthesize_ok [OF c] k [of "taBBands_stdK c"]
    by (auto simp: loaded_ok_def config_ok_def sanity_def synthesizeIngressFromLegacy_def Let_def)
qed


lemma demo_digits: "short_digits (''taRSI = 0'' @ [CHR 0x0A] @ ''wsPort=99999'')"
proof -
  have "length (filter isdigit (''taRSI = 0'' @ [CHR 0x0A] @ ''wsPort=99999'')) \<le> 9" by code_simp
  moreover have "length ds \<le> length (filter isdigit t)" if "sublist ds t" "list_all isdigit ds" for ds t
    using that by (auto simp: sublist_def list_all_iff)
  ultimately show ?thesis unfolding short_digits_def by (meson le_trans)
qed


text \<open>The width of the bands may be NaN.\<close>

lemma nan_width: "map_option (\<lambda>p. taBBands_stdK (snd p)) (loadFromFile (Some ''taBBands_stdK = nan'') Config_init) = Some DNaN"
  by code_simp

end
