(* ===== verification/Spsc_Queue.thy ===== *)
theory Spsc_Queue
  imports Main
begin

text \<open>
  The ring buffer between one producer and one consumer (\<^verbatim>\<open>rt/SPSCQueue.hpp\<close>): its operations as functions, its
  operations as sequences of atomic accesses that the two threads interleave, and the queue it implements. An index is
  below the capacity, so that adding one to it does not wrap. A slot that is moved from keeps a value that the language
  does not specify; \<open>moved\<close> stands for it.
\<close>

section \<open>The operations\<close>

record 'a SPSCQueue =
  sq_cap :: nat
  sq_buf :: "'a list"
  sq_head :: nat
  sq_tail :: nat

text \<open>The constructor throws for the capacity 0 and fills the buffer with default values.\<close>

definition SPSCQueue_new :: "'a \<Rightarrow> nat \<Rightarrow> 'a SPSCQueue option" where
  "SPSCQueue_new dflt capacity =
     (if capacity = 0 then None
      else Some \<lparr> sq_cap = capacity, sq_buf = replicate capacity dflt, sq_head = 0, sq_tail = 0 \<rparr>)"

definition next_index :: "'a SPSCQueue \<Rightarrow> nat \<Rightarrow> nat" where
  "next_index q i = (i + 1) mod sq_cap q"

definition try_push :: "'a \<Rightarrow> 'a SPSCQueue \<Rightarrow> bool \<times> 'a SPSCQueue" where
  "try_push v q =
     (let h = sq_head q; n = next_index q h
      in if n = sq_tail q then (False, q)
         else (True, q \<lparr> sq_buf := (sq_buf q)[h := v], sq_head := n \<rparr>))"

definition try_pop :: "('a \<Rightarrow> 'a) \<Rightarrow> 'a SPSCQueue \<Rightarrow> 'a option \<times> 'a SPSCQueue" where
  "try_pop moved q =
     (let t = sq_tail q
      in if t = sq_head q then (None, q)
         else let out = sq_buf q ! t
              in (Some out, q \<lparr> sq_buf := (sq_buf q)[t := moved out], sq_tail := next_index q t \<rparr>))"

definition drop_one :: "'a SPSCQueue \<Rightarrow> bool \<times> 'a SPSCQueue" where
  "drop_one q = (let t = sq_tail q in if t = sq_head q then (False, q) else (True, q \<lparr> sq_tail := next_index q t \<rparr>))"

definition q_empty :: "'a SPSCQueue \<Rightarrow> bool" where
  "q_empty q \<longleftrightarrow> sq_head q = sq_tail q"

definition q_full :: "'a SPSCQueue \<Rightarrow> bool" where
  "q_full q \<longleftrightarrow> next_index q (sq_head q) = sq_tail q"

text \<open>The loop of \<^verbatim>\<open>drain\<close> with the count it keeps and the state \<open>s\<close> of the callback.\<close>

partial_function (option) drain_loop ::
  "('a \<Rightarrow> 'a) \<Rightarrow> ('a \<Rightarrow> 's \<Rightarrow> 's) \<Rightarrow> nat \<Rightarrow> nat \<Rightarrow> 'a SPSCQueue \<Rightarrow> 's \<Rightarrow> (nat \<times> 'a SPSCQueue \<times> 's) option" where
  "drain_loop moved fn mx cnt q s = (case try_pop moved q of
       (None, q') \<Rightarrow> Some (cnt, q', s)
     | (Some v, q') \<Rightarrow>
         if mx \<noteq> 0 then (if cnt + 1 \<ge> mx then Some (cnt + 1, q', fn v s) else drain_loop moved fn mx (cnt + 1) q' (fn v s))
         else drain_loop moved fn mx cnt q' (fn v s))"

definition drain_queue :: "('a \<Rightarrow> 'a) \<Rightarrow> ('a \<Rightarrow> 's \<Rightarrow> 's) \<Rightarrow> nat \<Rightarrow> 'a SPSCQueue \<Rightarrow> 's \<Rightarrow> (nat \<times> 'a SPSCQueue \<times> 's) option" where
  "drain_queue moved fn mx q s = drain_loop moved fn mx 0 q s"

section \<open>The atomic accesses\<close>

text \<open>
  Where a thread is inside an operation. The producer reads its own index, then the index of the consumer, writes
  the slot, and publishes the new index; the consumer likewise. \<open>True\<close> in a consumer state is \<^verbatim>\<open>try_pop\<close>, \<open>False\<close>
  is \<^verbatim>\<open>drop_one\<close>.
\<close>

datatype 'a producer = PIdle | PCheck 'a nat | PWrite 'a nat | PStore 'a nat
datatype 'a consumer = CIdle | CCheck bool nat | CRead nat | CStore bool 'a nat

record 'a spsc =
  rb :: "'a SPSCQueue"
  prod_pc :: "'a producer"
  cons_pc :: "'a consumer"
  sent :: "'a list"
  taken :: "(bool \<times> 'a) list"

text \<open>
  The steps. \<open>sent\<close> are the values whose push returned true, \<open>taken\<close> the values that left the queue, marked with whether
  they were handed out or dropped; the two lists are not part of the program.
\<close>

inductive spsc_step :: "('a \<Rightarrow> 'a) \<Rightarrow> 'a spsc \<Rightarrow> 'a spsc \<Rightarrow> bool" for moved where
  push_begin: "prod_pc s = PIdle \<Longrightarrow> spsc_step moved s (s \<lparr> prod_pc := PCheck v (sq_head (rb s)) \<rparr>)"
| push_full: "prod_pc s = PCheck v h \<Longrightarrow> next_index (rb s) h = sq_tail (rb s) \<Longrightarrow> spsc_step moved s (s \<lparr> prod_pc := PIdle \<rparr>)"
| push_room: "prod_pc s = PCheck v h \<Longrightarrow> next_index (rb s) h \<noteq> sq_tail (rb s) \<Longrightarrow> spsc_step moved s (s \<lparr> prod_pc := PWrite v h \<rparr>)"
| push_write: "prod_pc s = PWrite v h \<Longrightarrow>
    spsc_step moved s (s \<lparr> rb := (rb s) \<lparr> sq_buf := (sq_buf (rb s))[h := v] \<rparr>, prod_pc := PStore v h \<rparr>)"
| push_store: "prod_pc s = PStore v h \<Longrightarrow>
    spsc_step moved s (s \<lparr> rb := (rb s) \<lparr> sq_head := next_index (rb s) h \<rparr>, prod_pc := PIdle, sent := sent s @ [v] \<rparr>)"
| take_begin: "cons_pc s = CIdle \<Longrightarrow> spsc_step moved s (s \<lparr> cons_pc := CCheck b (sq_tail (rb s)) \<rparr>)"
| take_empty: "cons_pc s = CCheck b t \<Longrightarrow> t = sq_head (rb s) \<Longrightarrow> spsc_step moved s (s \<lparr> cons_pc := CIdle \<rparr>)"
| pop_found: "cons_pc s = CCheck True t \<Longrightarrow> t \<noteq> sq_head (rb s) \<Longrightarrow> spsc_step moved s (s \<lparr> cons_pc := CRead t \<rparr>)"
| pop_read: "cons_pc s = CRead t \<Longrightarrow>
    spsc_step moved s (s \<lparr> rb := (rb s) \<lparr> sq_buf := (sq_buf (rb s))[t := moved (sq_buf (rb s) ! t)] \<rparr>,
                           cons_pc := CStore True (sq_buf (rb s) ! t) t \<rparr>)"
| drop_found: "cons_pc s = CCheck False t \<Longrightarrow> t \<noteq> sq_head (rb s) \<Longrightarrow> spsc_step moved s (s \<lparr> cons_pc := CStore False (sq_buf (rb s) ! t) t \<rparr>)"
| take_store: "cons_pc s = CStore b v t \<Longrightarrow>
    spsc_step moved s (s \<lparr> rb := (rb s) \<lparr> sq_tail := next_index (rb s) t \<rparr>, cons_pc := CIdle, taken := taken s @ [(b, v)] \<rparr>)"

definition spsc_start :: "'a SPSCQueue \<Rightarrow> 'a spsc" where
  "spsc_start q = \<lparr> rb = q, prod_pc = PIdle, cons_pc = CIdle, sent = [], taken = [] \<rparr>"

section \<open>The invariant\<close>

lemma mod_window: "a mod n = b mod n \<Longrightarrow> a \<le> b \<Longrightarrow> b < a + n \<Longrightarrow> a = (b :: nat)"
proof (rule ccontr)
  assume a: "a mod n = b mod n" "a \<le> b" "b < a + n" "a \<noteq> b"
  then have "n dvd b - a" by (metis mod_eq_dvd_iff_nat)
  then show False using a dvd_imp_le [of n "b - a"] by auto
qed

text \<open>The indices count the values sent and taken, and the slots between them hold what was sent and not yet taken.\<close>

definition pending :: "'a spsc \<Rightarrow> 'a list" where
  "pending s = drop (length (taken s)) (sent s)"

definition indices_ok :: "'a spsc \<Rightarrow> bool" where
  "indices_ok s \<longleftrightarrow> 0 < sq_cap (rb s) \<and> length (sq_buf (rb s)) = sq_cap (rb s) \<and>
     sq_head (rb s) = length (sent s) mod sq_cap (rb s) \<and> sq_tail (rb s) = length (taken s) mod sq_cap (rb s) \<and>
     length (taken s) \<le> length (sent s) \<and> length (sent s) < length (taken s) + sq_cap (rb s) \<and>
     map snd (taken s) = take (length (taken s)) (sent s)"

text \<open>The slot at the tail is the consumer's once it has read it.\<close>

definition slots_ok :: "'a spsc \<Rightarrow> bool" where
  "slots_ok s \<longleftrightarrow> (\<forall>k. length (taken s) \<le> k \<and> k < length (sent s) \<and> (k = length (taken s) \<longrightarrow> \<not> (\<exists>b v t. cons_pc s = CStore b v t))
     \<longrightarrow> sq_buf (rb s) ! (k mod sq_cap (rb s)) = sent s ! k)"

definition producer_ok :: "'a spsc \<Rightarrow> bool" where
  "producer_ok s = (case prod_pc s of
       PIdle \<Rightarrow> True
     | PCheck v h \<Rightarrow> h = sq_head (rb s)
     | PWrite v h \<Rightarrow> h = sq_head (rb s) \<and> length (sent s) + 1 < length (taken s) + sq_cap (rb s)
     | PStore v h \<Rightarrow> h = sq_head (rb s) \<and> length (sent s) + 1 < length (taken s) + sq_cap (rb s) \<and> sq_buf (rb s) ! h = v)"

definition consumer_ok :: "'a spsc \<Rightarrow> bool" where
  "consumer_ok s = (case cons_pc s of
       CIdle \<Rightarrow> True
     | CCheck b t \<Rightarrow> t = sq_tail (rb s)
     | CRead t \<Rightarrow> t = sq_tail (rb s) \<and> length (taken s) < length (sent s)
     | CStore b v t \<Rightarrow> t = sq_tail (rb s) \<and> length (taken s) < length (sent s) \<and> v = sent s ! length (taken s))"

definition spsc_ok :: "'a spsc \<Rightarrow> bool" where
  "spsc_ok s \<longleftrightarrow> indices_ok s \<and> slots_ok s \<and> producer_ok s \<and> consumer_ok s"

end
