(* ===== verification/Spsc_Queue_Thms.thy ===== *)
theory Spsc_Queue_Thms
  imports Spsc_Queue
begin

text \<open>
  Every interleaving of the producer and the consumer keeps the invariant of the ring buffer; the sequential operations
  are runs of the steps and implement a bounded queue.
\<close>

section \<open>Steps\<close>

lemmas spsc_defs = spsc_ok_def indices_ok_def slots_ok_def producer_ok_def consumer_ok_def next_index_def

lemma slot_apart: "k < b \<Longrightarrow> b < k + n \<Longrightarrow> k mod n \<noteq> b mod (n :: nat)"
  using mod_window [of k n b] by auto

lemma next_mod: "0 < n \<Longrightarrow> (k mod n + 1) mod n = (k + 1) mod (n :: nat)"
  by (simp add: mod_Suc_eq)

lemma room_to_push:
  assumes "spsc_ok s" "next_index (rb s) (sq_head (rb s)) \<noteq> sq_tail (rb s)"
  shows "length (sent s) + 1 < length (taken s) + sq_cap (rb s)"
proof (rule ccontr)
  assume "\<not> ?thesis"
  then have "length (sent s) + 1 = length (taken s) + sq_cap (rb s)" using assms(1) by (auto simp: spsc_defs)
  then have "next_index (rb s) (sq_head (rb s)) = (length (taken s) + sq_cap (rb s)) mod sq_cap (rb s)"
    using assms(1) by (simp add: spsc_defs mod_Suc_eq)
  then show False using assms by (simp add: spsc_defs)
qed

lemma something_to_take: "spsc_ok s \<Longrightarrow> sq_tail (rb s) \<noteq> sq_head (rb s) \<Longrightarrow> length (taken s) < length (sent s)"
  by (cases "length (taken s) = length (sent s)") (auto simp: spsc_defs)

lemma slot_value:
  "spsc_ok s \<Longrightarrow> length (taken s) \<le> k \<Longrightarrow> k < length (sent s) \<Longrightarrow> (\<And>b v t. cons_pc s \<noteq> CStore b v t) \<Longrightarrow>
     sq_buf (rb s) ! (k mod sq_cap (rb s)) = sent s ! k"
  by (auto simp: spsc_ok_def slots_ok_def)

lemma spsc_step_ok:
  assumes "spsc_step moved s s'" "spsc_ok s"
  shows "spsc_ok s'"
  using assms(1)
proof (cases rule: spsc_step.cases)
  case (push_room v h)
  then show ?thesis using room_to_push [OF assms(2)] assms(2) by (auto simp: spsc_defs split: consumer.splits)
next
  case (push_write v h)
  let ?C = "sq_cap (rb s)"
  have h: "h = length (sent s) mod ?C" "h < length (sq_buf (rb s))" using push_write assms(2) by (auto simp: spsc_defs)
  have "(sq_buf (rb s))[h := v] ! (k mod ?C) = sq_buf (rb s) ! (k mod ?C)" if "length (taken s) \<le> k" "k < length (sent s)" for k
    using that assms(2) h(1) slot_apart [of k "length (sent s)" ?C] by (auto simp: spsc_defs)
  then show ?thesis using push_write h(2) assms(2) by (auto simp: spsc_defs split: consumer.splits)
next
  case (push_store v h)
  then show ?thesis using assms(2) by (auto simp: spsc_defs nth_append less_Suc_eq mod_Suc_eq split: consumer.splits)
next
  case (pop_read t)
  let ?C = "sq_cap (rb s)"
  have a: "t = length (taken s) mod ?C" "length (taken s) < length (sent s)" "length (sent s) < length (taken s) + ?C"
    "t < length (sq_buf (rb s))" using pop_read assms(2) by (auto simp: spsc_defs)
  have v: "sq_buf (rb s) ! t = sent s ! length (taken s)" using slot_value [OF assms(2), of "length (taken s)"] pop_read(2) a(1,2) by simp
  have o: "(sq_buf (rb s))[t := w] ! (k mod ?C) = sq_buf (rb s) ! (k mod ?C)" if "length (taken s) < k" "k \<le> length (sent s)" for k w
    using that a slot_apart [of "length (taken s)" k ?C] by auto
  have "indices_ok s'" using assms(2) unfolding pop_read(1) spsc_ok_def indices_ok_def by simp
  moreover have "slots_ok s'" using o slot_value [OF assms(2)] pop_read(2) unfolding pop_read(1) slots_ok_def
    by (clarsimp simp: le_less) metis
  moreover have "producer_ok s'" using assms(2) o [of "length (sent s)"] a(2)
    unfolding pop_read(1) spsc_ok_def indices_ok_def producer_ok_def by (simp split: producer.splits)
  moreover have "consumer_ok s'" using a v assms(2) unfolding pop_read(1) spsc_ok_def indices_ok_def consumer_ok_def by simp
  ultimately show ?thesis by (simp add: spsc_ok_def)
next
  case (drop_found t)
  then show ?thesis using something_to_take [OF assms(2)] assms(2) by (auto simp: spsc_defs split: producer.splits)
next
  case (pop_found t)
  then show ?thesis using something_to_take [OF assms(2)] assms(2) by (auto simp: spsc_defs split: producer.splits)
next
  case (take_store b v t)
  then show ?thesis using assms(2) by (auto simp: spsc_defs take_Suc_conv_app_nth mod_Suc_eq split: producer.splits)
qed (use assms(2) in \<open>auto simp: spsc_defs split: producer.splits consumer.splits\<close>)

lemma spsc_start_ok: "SPSCQueue_new d n = Some q \<Longrightarrow> spsc_ok (spsc_start q)"
  by (auto simp: SPSCQueue_new_def spsc_start_def spsc_defs split: if_splits)

lemma spsc_run_ok: "(spsc_step moved)\<^sup>*\<^sup>* s s' \<Longrightarrow> spsc_ok s \<Longrightarrow> spsc_ok s'"
  by (induction rule: rtranclp_induct) (auto intro: spsc_step_ok)

lemma spsc_step_cap: "spsc_step moved s s' \<Longrightarrow> sq_cap (rb s') = sq_cap (rb s)"
  by (induction rule: spsc_step.cases) simp_all

lemma spsc_run_cap: "(spsc_step moved)\<^sup>*\<^sup>* s s' \<Longrightarrow> sq_cap (rb s') = sq_cap (rb s)"
  by (induction rule: rtranclp_induct) (simp_all add: spsc_step_cap)

text \<open>The comparisons of the two operations mean what they are for.\<close>

lemma full_test:
  assumes "spsc_ok s" "prod_pc s = PCheck v h"
  shows "next_index (rb s) h = sq_tail (rb s) \<longleftrightarrow> length (pending s) + 1 = sq_cap (rb s)"
proof -
  have h: "h = sq_head (rb s)" "length (sent s) < length (taken s) + sq_cap (rb s)" "length (taken s) \<le> length (sent s)"
    using assms by (auto simp: spsc_defs)
  have "next_index (rb s) h = sq_tail (rb s)" if "length (sent s) + 1 = length (taken s) + sq_cap (rb s)"
  proof -
    have "next_index (rb s) h = (length (sent s) + 1) mod sq_cap (rb s)" using assms(1) h(1) by (simp add: spsc_defs mod_Suc_eq)
    also have "\<dots> = sq_tail (rb s)" using assms(1) unfolding that by (simp add: spsc_defs)
    finally show ?thesis .
  qed
  moreover have "length (sent s) + 1 < length (taken s) + sq_cap (rb s)" if "next_index (rb s) h \<noteq> sq_tail (rb s)"
    using room_to_push [OF assms(1)] that h(1) by simp
  moreover have "next_index (rb s) h \<noteq> sq_tail (rb s)" if "length (sent s) + 1 < length (taken s) + sq_cap (rb s)"
  proof -
    have "(length (sent s) + 1) mod sq_cap (rb s) \<noteq> length (taken s) mod sq_cap (rb s)"
      using slot_apart [of "length (taken s)" "length (sent s) + 1" "sq_cap (rb s)"] that h(3) by simp
    then show ?thesis using assms(1) h(1) by (simp add: spsc_defs mod_Suc_eq)
  qed
  moreover have "length (pending s) + length (taken s) = length (sent s)" using h(3) by (simp add: pending_def)
  ultimately show ?thesis using h(2) by linarith
qed

lemma empty_test:
  assumes "spsc_ok s" "cons_pc s = CCheck b t"
  shows "t = sq_head (rb s) \<longleftrightarrow> pending s = []"
  using assms something_to_take [OF assms(1)] slot_apart [of "length (taken s)" "length (sent s)" "sq_cap (rb s)"]
  by (cases "length (taken s) = length (sent s)") (auto simp: spsc_defs pending_def)

text \<open>C33. Whatever the order in which one producer and one consumer make their atomic accesses, the values that leave the
  queue are those that were pushed, in that order and without a gap; at most the capacity less one are inside; a push is
  refused exactly when that many are, and a pop or a drop finds nothing exactly when none is; and the two threads never
  access one slot at the same time.\<close>

theorem spsc_fifo:
  assumes "SPSCQueue_new d n = Some q" "(spsc_step moved)\<^sup>*\<^sup>* (spsc_start q) s"
  shows "sent s = map snd (taken s) @ pending s \<and> length (pending s) < n \<and>
    (\<forall>v h. prod_pc s = PCheck v h \<longrightarrow> (next_index (rb s) h = sq_tail (rb s) \<longleftrightarrow> length (pending s) = n - 1)) \<and>
    (\<forall>b t. cons_pc s = CCheck b t \<longrightarrow> (t = sq_head (rb s) \<longleftrightarrow> pending s = [])) \<and>
    (\<forall>v h t. prod_pc s = PWrite v h \<and> cons_pc s = CRead t \<longrightarrow> h \<noteq> t)"
proof -
  have ok: "spsc_ok s" using spsc_run_ok [OF assms(2) spsc_start_ok [OF assms(1)]] .
  have n: "sq_cap (rb s) = n" "0 < n" using spsc_run_cap [OF assms(2)] assms(1) by (auto simp: SPSCQueue_new_def spsc_start_def split: if_splits)
  have "sent s = map snd (taken s) @ pending s" "length (pending s) < n" using ok n by (auto simp: spsc_defs pending_def)
  moreover have "next_index (rb s) h = sq_tail (rb s) \<longleftrightarrow> length (pending s) = n - 1" if "prod_pc s = PCheck v h" for v h
    using full_test [OF ok that] n by auto
  moreover have "h \<noteq> t" if "prod_pc s = PWrite v h" "cons_pc s = CRead t" for v h t
    using that ok slot_apart [of "length (taken s)" "length (sent s)" "sq_cap (rb s)"] by (auto simp: spsc_defs)
  ultimately show ?thesis using empty_test [OF ok] by blast
qed

theorem spsc_fifo_witness:
  "\<exists>q s. SPSCQueue_new (0 :: nat) 2 = Some q \<and> (spsc_step id)\<^sup>*\<^sup>* (spsc_start q) s \<and> prod_pc s = PWrite 7 0 \<and> length (pending s) < 2"
proof -
  obtain q where q: "SPSCQueue_new (0 :: nat) 2 = Some q" by (simp add: SPSCQueue_new_def)
  let ?s1 = "spsc_start q \<lparr> prod_pc := PCheck 7 (sq_head (rb (spsc_start q))) \<rparr>"
  have "spsc_step id (spsc_start q) ?s1" by (rule push_begin) (simp add: spsc_start_def)
  moreover have "spsc_step id ?s1 (?s1 \<lparr> prod_pc := PWrite 7 0 \<rparr>)"
    by (rule push_room) (use q in \<open>auto simp: spsc_start_def SPSCQueue_new_def next_index_def\<close>)
  ultimately have r: "(spsc_step id)\<^sup>*\<^sup>* (spsc_start q) (?s1 \<lparr> prod_pc := PWrite 7 0 \<rparr>)" by simp
  show ?thesis using spsc_fifo [OF q r] q r by (intro exI [of _ q] exI [of _ "?s1 \<lparr> prod_pc := PWrite 7 0 \<rparr>"]) simp
qed

text \<open>An operation that is not interrupted is a run of its accesses.\<close>

lemma try_push_run:
  assumes "prod_pc s = PIdle"
  shows "(spsc_step moved)\<^sup>*\<^sup>* s (s \<lparr> rb := snd (try_push v (rb s)), sent := sent s @ (if fst (try_push v (rb s)) then [v] else []) \<rparr>)"
proof -
  let ?h = "sq_head (rb s)" let ?s1 = "s \<lparr> prod_pc := PCheck v ?h \<rparr>" let ?s2 = "s \<lparr> prod_pc := PWrite v ?h \<rparr>"
  let ?s3 = "s \<lparr> rb := (rb s) \<lparr> sq_buf := (sq_buf (rb s))[?h := v] \<rparr>, prod_pc := PStore v ?h \<rparr>"
  have 1: "spsc_step moved s ?s1" by (rule push_begin [OF assms])
  show ?thesis
  proof (cases "next_index (rb s) ?h = sq_tail (rb s)")
    case True
    have "s \<lparr> prod_pc := PIdle \<rparr> = s" using assms by (cases s) simp
    then have "spsc_step moved ?s1 s" using push_full [of ?s1 v ?h moved] True by simp
    then show ?thesis using 1 True by (simp add: try_push_def)
  next
    case False
    then have "spsc_step moved ?s1 ?s2" using push_room [of ?s1 v ?h moved] by simp
    moreover have "spsc_step moved ?s2 ?s3" using push_write [of ?s2 v ?h moved] by simp
    moreover have "spsc_step moved ?s3 (s \<lparr> rb := snd (try_push v (rb s)), sent := sent s @ [v] \<rparr>)"
      using push_store [of ?s3 v ?h moved] False assms by (cases s) (simp add: try_push_def next_index_def Let_def)
    ultimately show ?thesis using 1 False by (simp add: try_push_def Let_def)
  qed
qed

section \<open>The operations alone\<close>

text \<open>The queue \<open>xs\<close> that a ring buffer holds.\<close>

definition holds :: "'a SPSCQueue \<Rightarrow> 'a list \<Rightarrow> bool" where
  "holds q xs \<longleftrightarrow> (\<exists>a. 0 < sq_cap q \<and> length (sq_buf q) = sq_cap q \<and> length xs < sq_cap q \<and>
     sq_tail q = a mod sq_cap q \<and> sq_head q = (a + length xs) mod sq_cap q \<and>
     (\<forall>i < length xs. sq_buf q ! ((a + i) mod sq_cap q) = xs ! i))"

lemma new_holds: "SPSCQueue_new d n = Some q \<Longrightarrow> holds q [] \<and> sq_cap q = n"
  by (auto simp: SPSCQueue_new_def holds_def split: if_splits intro!: exI [of _ 0])

lemma try_push_holds:
  assumes "holds q xs"
  shows "if length xs + 1 < sq_cap q then \<exists>q'. try_push v q = (True, q') \<and> holds q' (xs @ [v]) \<and> sq_cap q' = sq_cap q
         else try_push v q = (False, q)"
proof -
  obtain a where a: "0 < sq_cap q" "length (sq_buf q) = sq_cap q" "length xs < sq_cap q" "sq_tail q = a mod sq_cap q"
    "sq_head q = (a + length xs) mod sq_cap q" "\<And>i. i < length xs \<Longrightarrow> sq_buf q ! ((a + i) mod sq_cap q) = xs ! i"
    using assms by (auto simp: holds_def)
  have n: "next_index q (sq_head q) = (a + length xs + 1) mod sq_cap q" using a(5) by (simp add: next_index_def mod_Suc_eq)
  show ?thesis
  proof (cases "length xs + 1 < sq_cap q")
    case True
    have "(a + length xs + 1) mod sq_cap q \<noteq> a mod sq_cap q" using slot_apart [of a "a + length xs + 1" "sq_cap q"] True by simp
    then have p: "try_push v q = (True, q \<lparr> sq_buf := (sq_buf q)[sq_head q := v], sq_head := (a + length xs + 1) mod sq_cap q \<rparr>)"
      using n a(4) by (simp add: try_push_def Let_def)
    have "sq_head q < sq_cap q" using a(1,5) by simp
    moreover have "sq_head q \<noteq> (a + i) mod sq_cap q" if "i < length xs" for i
      using slot_apart [of "a + i" "a + length xs" "sq_cap q"] that a(3,5) by auto
    ultimately have "holds (snd (try_push v q)) (xs @ [v])" using p True a
      by (auto simp: holds_def nth_append less_Suc_eq intro!: exI [of _ a])
    then show ?thesis using p True by simp
  next
    case False
    then have e: "a + length xs + 1 = a + sq_cap q" using a(3) by simp
    have "next_index q (sq_head q) = sq_tail q" unfolding n e a(4) by simp
    then show ?thesis using False by (simp add: try_push_def)
  qed
qed

lemma try_pop_holds:
  assumes "holds q (x # xs)"
  shows "\<exists>q'. try_pop moved q = (Some x, q') \<and> holds q' xs \<and> sq_cap q' = sq_cap q"
    "\<exists>q'. drop_one q = (True, q') \<and> holds q' xs \<and> sq_cap q' = sq_cap q"
proof -
  obtain a where a: "0 < sq_cap q" "length (sq_buf q) = sq_cap q" "length xs + 1 < sq_cap q" "sq_tail q = a mod sq_cap q"
    "sq_head q = (a + length xs + 1) mod sq_cap q" "\<And>i. i < length xs + 1 \<Longrightarrow> sq_buf q ! ((a + i) mod sq_cap q) = (x # xs) ! i"
    using assms by (auto simp: holds_def)
  have ne: "sq_tail q \<noteq> sq_head q" using slot_apart [of a "a + length xs + 1" "sq_cap q"] a by simp
  have n: "next_index q (sq_tail q) = (a + 1) mod sq_cap q" using a(4) by (simp add: next_index_def mod_Suc_eq)
  have v: "sq_buf q ! sq_tail q = x" using a(6) [of 0] a(4) by simp
  have later: "sq_buf q ! ((a + 1 + i) mod sq_cap q) = xs ! i" if "i < length xs" for i using a(6) [of "i + 1"] that by (simp add: add.commute add.left_commute)
  have apart: "sq_tail q \<noteq> (a + 1 + i) mod sq_cap q" if "i < length xs" for i
    using slot_apart [of a "a + 1 + i" "sq_cap q"] that a(3,4) by simp
  show "\<exists>q'. try_pop moved q = (Some x, q') \<and> holds q' xs \<and> sq_cap q' = sq_cap q"
    using ne n v a later apart by (auto simp: try_pop_def holds_def Let_def intro!: exI [of _ "a + 1"])
  show "\<exists>q'. drop_one q = (True, q') \<and> holds q' xs \<and> sq_cap q' = sq_cap q"
    using ne n a later by (auto simp: drop_one_def holds_def Let_def intro!: exI [of _ "a + 1"])
qed

lemma try_pop_empty: "holds q [] \<Longrightarrow> try_pop moved q = (None, q) \<and> drop_one q = (False, q)"
  by (auto simp: holds_def try_pop_def drop_one_def Let_def)

text \<open>Draining without a limit hands out everything in order, and reports 0.\<close>

lemma drain_done: "try_pop moved q = (None, q') \<Longrightarrow> drain_loop moved fn m c q s = Some (c, q', s)"
  by (subst drain_loop.simps) simp

lemma drain_next:
  "try_pop moved q = (Some v, q') \<Longrightarrow> drain_loop moved fn m c q s =
     (if m = 0 then drain_loop moved fn m c q' (fn v s)
      else if c + 1 \<ge> m then Some (c + 1, q', fn v s) else drain_loop moved fn m (c + 1) q' (fn v s))"
  by (subst drain_loop.simps) simp

lemma drain_all: "holds q xs \<Longrightarrow> \<exists>q'. drain_loop moved fn 0 c q s = Some (c, q', fold fn xs s) \<and> holds q' []"
proof (induction xs arbitrary: q s)
  case Nil
  then show ?case using try_pop_empty [of q moved] by (auto simp: drain_done)
next
  case (Cons x xs)
  obtain q1 where q1: "try_pop moved q = (Some x, q1)" "holds q1 xs" using try_pop_holds(1) [OF Cons.prems] by blast
  then show ?case using Cons.IH [of q1 "fn x s"] by (simp add: drain_next [OF q1(1)])
qed

lemma drain_reports_zero: "holds q xs \<Longrightarrow> \<exists>q'. drain_queue moved fn 0 q s = Some (0, q', fold fn xs s)"
  using drain_all [of q xs moved fn 0 s] by (auto simp: drain_queue_def)

lemma drain_limited:
  "holds q xs \<Longrightarrow> c < m \<Longrightarrow> \<exists>q'. drain_loop moved fn m c q s = Some (min m (c + length xs), q', fold fn (take (m - c) xs) s) \<and> holds q' (drop (m - c) xs)"
proof (induction xs arbitrary: q s c)
  case Nil
  then show ?case using try_pop_empty [of q moved] by (auto simp: drain_done)
next
  case (Cons x xs)
  obtain q1 where q1: "try_pop moved q = (Some x, q1)" "holds q1 xs" using try_pop_holds(1) [OF Cons.prems(1)] by blast
  show ?case
  proof (cases "c + 1 < m")
    case True
    then have "m - c = Suc (m - (c + 1))" by simp
    then show ?thesis using Cons.IH [OF q1(2) True, of "fn x s"] True by (simp add: drain_next [OF q1(1)])
  next
    case False
    then have "m = c + 1" using Cons.prems(2) by simp
    then show ?thesis using q1 by (simp add: drain_next [OF q1(1)])
  qed
qed

text \<open>A queue of capacity 1 is accepted by the constructor and refuses every push.\<close>

lemma capacity_one_refuses: "\<exists>q. SPSCQueue_new d 1 = Some q \<and> try_push v q = (False, q)"
  using new_holds [of d 1] try_push_holds [of _ "[]" v] by (fastforce simp: SPSCQueue_new_def)

end
