(* ===== verification/Market_Connector.thy ===== *)
theory Market_Connector
  imports Market_TA Feed_Client Ob_Provider
begin

text \<open>
  The market connector (\<^verbatim>\<open>market/MarketConnector.cpp\<close>): the readers of its configuration keys, what it registers with the engine,
  and the factories of the two kinds of ingress with their wrappers (\<^verbatim>\<open>MarketIngress.cpp\<close>). Registered closures capture the
  field map and the books by pointer, so they are functions of their current values. An exception is \<^const>\<open>Inl\<close> with its
  message, or \<^const>\<open>None\<close> where only its occurrence matters.
\<close>

section \<open>Configuration keys\<close>

definition blank :: "char \<Rightarrow> bool" where
  "blank c \<longleftrightarrow> c = CHR '' '' \<or> c = CHR 0x09"

definition strip_blanks :: "string \<Rightarrow> string" where
  "strip_blanks s = rev (dropWhile blank (rev (dropWhile blank s)))"

definition splitCSV :: "string \<Rightarrow> string list" where
  "splitCSV val = filter (\<lambda>t. t \<noteq> []) (map strip_blanks (getlines (CHR '','') val))"

definition or_default :: "'a list \<Rightarrow> 'a list \<Rightarrow> 'a list" where
  "or_default d xs = (if xs = [] then d else xs)"

definition applyMarketSourceKey :: "string \<Rightarrow> string \<Rightarrow> MarketFieldMap \<Rightarrow> bool \<times> MarketFieldMap" where
  "applyMarketSourceKey key val fm =
     (if key = ''name'' then (True, fm \<lparr> fm_name := val \<rparr>)
      else if key = ''priceFields'' then (True, fm \<lparr> fm_priceFields := or_default [''lastPrice'', ''price'', ''last'', ''px''] (splitCSV val) \<rparr>)
      else if key = ''volumeFields'' then (True, fm \<lparr> fm_volumeFields := or_default [''volume'', ''vol'', ''qty'', ''size''] (splitCSV val) \<rparr>)
      else if key = ''bidFields'' then (True, fm \<lparr> fm_bidFields := splitCSV val \<rparr>)
      else if key = ''askFields'' then (True, fm \<lparr> fm_askFields := splitCSV val \<rparr>)
      else if key = ''timestampField'' then (True, fm \<lparr> fm_timestampField := val \<rparr>)
      else if key = ''taEnabled'' then (True, fm \<lparr> fm_taEnabled := truthy val \<rparr>)
      else (False, fm))"

definition market_reader :: "MarketFieldMap reader" where
  "market_reader key val fm = (if take 7 key = ''source.'' then applyMarketSourceKey (drop 7 key) val fm else (False, fm))"

section \<open>Ingress\<close>

text \<open>\<^verbatim>\<open>std::stoi\<close>, \<^const>\<open>None\<close> for its exceptions.\<close>

definition stoi :: "string \<Rightarrow> int option" where
  "stoi s = (case strtol (c_str s) of (v, rest) \<Rightarrow> if rest = c_str s \<or> v < int_min \<or> v > int_max then None else Some v)"

text \<open>A source with the flag \<^verbatim>\<open>started_\<close>, and the port of a server.\<close>

datatype 'c Source =
    FeedServerIngress "16 word" "'c FeedServer" bool
  | WsFeedClientIngress "'c WsFeedClient" bool

fun ingress_start :: "'c Source \<Rightarrow> 'c Source" where
  "ingress_start (FeedServerIngress p S started) = (if started then FeedServerIngress p S started else FeedServerIngress p (feed_run S) True)"
| "ingress_start (WsFeedClientIngress C started) = (if started then WsFeedClientIngress C started else WsFeedClientIngress (client_start C) True)"

fun ingress_stop :: "'c Source \<Rightarrow> 'c Source" where
  "ingress_stop (FeedServerIngress p S started) = (if \<not> started then FeedServerIngress p S started else FeedServerIngress p (feed_stop S) False)"
| "ingress_stop (WsFeedClientIngress C started) = (if \<not> started then WsFeedClientIngress C started else WsFeedClientIngress (client_stop C) False)"

type_synonym 'c IngressFactory = "'c Market \<Rightarrow> (string, string) umap \<Rightarrow> 'c Source option"

definition feedserver_port :: "(string, string) umap \<Rightarrow> 16 word" where
  "feedserver_port params = (case map_of params ''port'' of
       None \<Rightarrow> 9001
     | Some s \<Rightarrow> (case stoi s of None \<Rightarrow> 9001 | Some v \<Rightarrow> word_of_int v))"

text \<open>\<open>can_bind\<close> tells for which ports the acceptor can be opened; otherwise the constructor throws.\<close>

definition feedserver_factory :: "(16 word \<Rightarrow> bool) \<Rightarrow> 'c IngressFactory" where
  "feedserver_factory can_bind w params =
     (let port = feedserver_port params in if can_bind port then Some (FeedServerIngress port (FeedServer_new w) False) else None)"

definition wsclient_symbols :: "(string, string) umap \<Rightarrow> string list" where
  "wsclient_symbols params = or_default [''*''] (case map_of params ''symbols'' of None \<Rightarrow> [] | Some s \<Rightarrow> splitCSV s)"

text \<open>Both values of the adapter make an ITCH adapter.\<close>

definition wsclient_factory :: "'c IngressFactory" where
  "wsclient_factory w params =
     map_option (\<lambda>C. WsFeedClientIngress C False)
       (WsFeedClient_new (case map_of params ''url'' of None \<Rightarrow> [] | Some u \<Rightarrow> u) (wsclient_symbols params) w)"

section \<open>Registration\<close>

record 'c Registries =
  rg_configNs :: "(string, MarketFieldMap reader) umap"
  rg_ingress :: "(string, 'c IngressFactory) umap"
  rg_computers :: "(string, Config \<Rightarrow> MarketFieldMap \<Rightarrow> MarketTickComputer) umap"
  rg_providers :: "(string, OrderBookManager \<Rightarrow> string \<Rightarrow> string \<Rightarrow> double) umap"

definition Registries_init :: "'c Registries" where
  "Registries_init = \<lparr> rg_configNs = [], rg_ingress = [], rg_computers = [], rg_providers = [] \<rparr>"

text \<open>\<^verbatim>\<open>IngressRegistry::registerIngress\<close> keeps the first factory of a kind.\<close>

definition registerIngress :: "string \<Rightarrow> 'c IngressFactory \<Rightarrow> (string, 'c IngressFactory) umap \<Rightarrow> (string, 'c IngressFactory) umap" where
  "registerIngress kind f reg = (if map_of reg kind = None then reg @ [(kind, f)] else reg)"

record MarketConnector =
  co_fieldMap :: MarketFieldMap
  co_obManager :: OrderBookManager

text \<open>\<open>given\<close> tells whether the registries the connector needs are given; \<open>fns\<close> are the names of the registered functions.\<close>

definition registerWith :: "bool \<Rightarrow> string list \<Rightarrow> (16 word \<Rightarrow> bool) \<Rightarrow> Config \<Rightarrow> 'c Registries \<Rightarrow> string + (MarketConnector \<times> 'c Registries)" where
  "registerWith given fns can_bind cfg reg =
     (if \<not> given then Inl ''MarketConnector: incomplete EngineRegistries''
      else Inr (\<lparr> co_fieldMap = MarketFieldMap_init,
                  co_obManager = (if cfg_allowNegativePrices cfg then setAllowNegativePrices True OrderBookManager_init else OrderBookManager_init) \<rparr>,
                reg \<lparr> rg_configNs := ns_register ''source'' applyMarketSourceKey (ns_register ''market'' market_reader (rg_configNs reg)),
                      rg_providers := AList.update ''ob'' ob_namespace (rg_providers reg),
                      rg_ingress := registerIngress ''market.wsclient'' wsclient_factory
                        (registerIngress ''market.feedserver'' (feedserver_factory can_bind) (rg_ingress reg)),
                      rg_computers := rg_computers reg @ [(''tick'', MarketTickComputer_new fns)] \<rparr>))"

definition connector_stop :: "'c Registries \<Rightarrow> 'c Registries" where
  "connector_stop reg = reg \<lparr> rg_providers := [] \<rparr>"

section \<open>Symbols survive the way through the parameters\<close>

definition plain_symbol :: "string \<Rightarrow> bool" where
  "plain_symbol t \<longleftrightarrow> t \<noteq> [] \<and> CHR '','' \<notin> set t \<and> \<not> blank (hd t) \<and> \<not> blank (last t)"

lemma dropWhile_id: "\<not> P (hd xs) \<Longrightarrow> dropWhile P xs = xs"
  by (cases xs) auto

lemma strip_plain: "plain_symbol t \<Longrightarrow> strip_blanks t = t"
  by (simp add: plain_symbol_def strip_blanks_def dropWhile_id hd_rev)

lemma splitCSV_join:
  assumes "list_all plain_symbol ts"
  shows "splitCSV (join '','' ts) = ts"
proof -
  have "list_all (\<lambda>x. CHR '','' \<notin> set x) ts" "ts = [] \<or> last ts \<noteq> []"
    using assms by (auto simp: list_all_iff plain_symbol_def last_in_set)
  then have "getlines (CHR '','') (join '','' ts) = ts" by (rule getlines_join)
  moreover have "map strip_blanks ts = ts" using assms by (simp add: list_all_iff strip_plain map_idI)
  moreover have "filter (\<lambda>t. t \<noteq> []) ts = ts" using assms by (auto simp: list_all_iff plain_symbol_def filter_id_conv)
  ultimately show ?thesis by (simp only: splitCSV_def)
qed

text \<open>A list of symbols that the configuration read is such a list.\<close>

lemma trim_ends: "trim s \<noteq> [] \<Longrightarrow> \<not> isspace (hd (trim s)) \<and> \<not> isspace (last (trim s))"
proof -
  assume ne: "trim s \<noteq> []"
  have l: "\<not> isspace (last (trim s))"
    using ne hd_dropWhile [of isspace "rev (dropWhile isspace s)"] by (simp add: trim_def last_rev)
  have "dropWhile isspace (trim (trim s)) = trim (trim s)"
  proof -
    have "trim s = trim (trim s)" by (simp add: trim_idem)
    moreover have "dropWhile isspace (trim s) = trim s \<or> length (dropWhile isspace (trim s)) < length (trim s)"
      by (cases "trim s") (auto simp: length_dropWhile_le le_imp_less_Suc)
    moreover have "length (trim (trim s)) \<le> length (dropWhile isspace (trim s))"
      unfolding trim_def [of "trim s"] by (metis length_dropWhile_le length_rev)
    ultimately show ?thesis by auto
  qed
  then have "\<not> isspace (hd (trim s))" using ne hd_dropWhile [of isspace "trim s"] by (simp add: trim_idem)
  then show ?thesis using l by simp
qed

lemma blank_isspace: "blank c \<Longrightarrow> isspace c"
  by (auto simp: blank_def isspace_def)

lemma getlines_no_sep: "x \<in> set (getlines sep s) \<Longrightarrow> sep \<notin> set x"
  by (induction sep s rule: getlines.induct) (auto dest: set_takeWhileD split: if_splits)

lemma trim_subset: "set (trim s) \<subseteq> set s"
  unfolding trim_def by (metis set_rev set_dropWhileD subsetI)

lemma symbol_list_plain: "list_all plain_symbol (symbol_list val)"
proof -
  have "plain_symbol (trim x)" if "x \<in> set (getlines (CHR '','') val)" "trim x \<noteq> []" for x
    using that trim_ends [of x] getlines_no_sep [of x] trim_subset [of x] blank_isspace by (auto simp: plain_symbol_def)
  moreover have "plain_symbol ''*''" by (simp add: plain_symbol_def blank_def)
  ultimately show ?thesis by (auto simp: symbol_list_def list_all_iff Let_def)
qed

end
