(* ===== verification/Connectors_Client.thy ===== *)
theory Connectors_Client
  imports Engine_Config Json_Dom
begin

text \<open>
  The client of the forum service (\<^verbatim>\<open>forum/ConnectorsClient.cpp\<close>): the address, the request, the retries and the
  translation of the answer into ingress entries. An exception is its message, \<^const>\<open>Inl\<close>. The network is the parameter
  \<open>http\<close>: for the number of the attempt, TLS or not, host, port and request it gives the text of an exception or the
  status and the body of the response. The JSON parser is a parameter, which gives the text of its error.
\<close>

section \<open>Address and request\<close>

record ParsedURL =
  pu_tls :: bool
  pu_host :: string
  pu_port :: string
  pu_target :: string

text \<open>
  The regular expression \<^verbatim>\<open>^(http|https)://([^/:?]+)(?::(\d+))?(/[^?]*)?(\?.*)?$\<close>; its parts start with characters that the
  part before them cannot contain, so that there is one way to match. The point matches no line end.
\<close>

definition url_scheme :: "string \<Rightarrow> (bool \<times> string) option" where
  "url_scheme url =
     (if take 7 url = ''http://'' then Some (False, drop 7 url)
      else if take 8 url = ''https://'' then Some (True, drop 8 url) else None)"

definition url_port :: "string \<Rightarrow> (string option \<times> string) option" where
  "url_port rest = (case rest of
       [] \<Rightarrow> Some (None, [])
     | c # cs \<Rightarrow> if c \<noteq> CHR '':'' then Some (None, rest)
         else if takeWhile isdigit cs = [] then None else Some (Some (takeWhile isdigit cs), dropWhile isdigit cs))"

definition url_path :: "string \<Rightarrow> string option \<times> string" where
  "url_path rest = (if rest \<noteq> [] \<and> hd rest = CHR ''/'' then (Some (takeWhile (\<lambda>c. c \<noteq> CHR ''?'') rest), dropWhile (\<lambda>c. c \<noteq> CHR ''?'') rest)
     else (None, rest))"

definition url_query :: "string \<Rightarrow> string option option" where
  "url_query rest = (case rest of
       [] \<Rightarrow> Some None
     | c # cs \<Rightarrow> if c = CHR ''?'' \<and> CHR 0x0A \<notin> set cs \<and> CHR 0x0D \<notin> set cs then Some (Some rest) else None)"

definition forum_parseUrl :: "string \<Rightarrow> string + ParsedURL" where
  "forum_parseUrl url =
     (let bad = Inl (''ConnectorsClient: malformed forumUrl: '' @ url) :: string + ParsedURL
      in case url_scheme url of None \<Rightarrow> bad | Some (tls, rest) \<Rightarrow>
         let host = takeWhile (\<lambda>c. c \<notin> {CHR ''/'', CHR '':'', CHR ''?''}) rest;
             after = dropWhile (\<lambda>c. c \<notin> {CHR ''/'', CHR '':'', CHR ''?''}) rest
         in if host = [] then bad
            else case url_port after of None \<Rightarrow> bad | Some (port, after2) \<Rightarrow>
                 case url_path after2 of (path, after3) \<Rightarrow>
                 case url_query after3 of None \<Rightarrow> bad | Some query \<Rightarrow>
                   Inr \<lparr> pu_tls = tls, pu_host = host,
                         pu_port = (case port of Some p \<Rightarrow> p | None \<Rightarrow> if tls then ''443'' else ''80''),
                         pu_target = (case path of Some p \<Rightarrow> p | None \<Rightarrow> ''/'') @ (case query of Some q \<Rightarrow> q | None \<Rightarrow> []) \<rparr>)"

text \<open>The fields that depend on the arguments; the user agent and the accepted type are constants.\<close>

record HttpRequest =
  rq_target :: string
  rq_host :: string
  rq_tenant :: "string option"
  rq_authorization :: "string option"

definition buildRequest :: "ParsedURL \<Rightarrow> string \<Rightarrow> string \<Rightarrow> HttpRequest" where
  "buildRequest url tenantId bearer =
     (let t = pu_target url; base = (if t \<noteq> [] \<and> last t = CHR ''/'' then butlast t else t)
      in \<lparr> rq_target = base @ ''/api/connectors'',
           rq_host = pu_host url @ (if pu_port url = ''80'' \<or> pu_port url = ''443'' then [] else '':'' @ pu_port url),
           rq_tenant = (if tenantId = [] then None else Some tenantId),
           rq_authorization = (if bearer = [] then None else Some (''Bearer '' @ bearer)) \<rparr>)"

section \<open>Fetching\<close>

type_synonym network = "nat \<Rightarrow> bool \<Rightarrow> string \<Rightarrow> string \<Rightarrow> HttpRequest \<Rightarrow> string + (nat \<times> string)"

text \<open>\<^verbatim>\<open>fetchPlain\<close> and \<^verbatim>\<open>fetchTls\<close>, which differ in the stream.\<close>

definition http_fetch :: "network \<Rightarrow> bool \<Rightarrow> ParsedURL \<Rightarrow> string \<Rightarrow> string \<Rightarrow> nat \<Rightarrow> string + string" where
  "http_fetch http ssl url tenantId bearer attempt =
     (if pu_tls url \<and> \<not> ssl then Inl ''ConnectorsClient: https forumUrl but binary built without GMA_HAS_SSL''
      else case http attempt (pu_tls url) (pu_host url) (pu_port url) (buildRequest url tenantId bearer) of
             Inl err \<Rightarrow> Inl err
           | Inr (status, body) \<Rightarrow>
               if status \<noteq> 200 then Inl (''ConnectorsClient: HTTP '' @ to_string (int status) @ '' from forum: '' @ take 200 body)
               else Inr body)"

text \<open>The result and the pauses in seconds; there is a pause after the last failure too.\<close>

fun retry_from :: "nat \<Rightarrow> (nat \<Rightarrow> string + string) \<Rightarrow> nat \<Rightarrow> string \<Rightarrow> (string + string) \<times> nat list" where
  "retry_from 0 fetch attempt lastErr = (Inl (''ConnectorsClient: exhausted retries: '' @ lastErr), [])"
| "retry_from (Suc n) fetch attempt lastErr = (case fetch attempt of
       Inr body \<Rightarrow> (Inr body, [])
     | Inl err \<Rightarrow> (case retry_from n fetch (attempt + 1) err of (r, ps) \<Rightarrow> (r, 2 ^ (attempt + 1) # ps)))"

definition fetchWithRetry :: "(nat \<Rightarrow> string + string) \<Rightarrow> (string + string) \<times> nat list" where
  "fetchWithRetry fetch = retry_from 3 fetch 0 []"

section \<open>The answer\<close>

definition string_or_empty :: "string \<Rightarrow> json \<Rightarrow> string" where
  "string_or_empty k row = (case member k row of Some v \<Rightarrow> (case GetString v of Some s \<Rightarrow> c_str s | None \<Rightarrow> []) | None \<Rightarrow> [])"

text \<open>The comma is left out as long as the text is empty.\<close>

fun symbols_csv :: "json list \<Rightarrow> string \<Rightarrow> string" where
  "symbols_csv [] csv = csv"
| "symbols_csv (v # vs) csv = (case GetString v of
       None \<Rightarrow> symbols_csv vs csv
     | Some s \<Rightarrow> symbols_csv vs ((if csv = [] then [] else csv @ '','') @ c_str s))"

definition row_symbols :: "json \<Rightarrow> string" where
  "row_symbols row = (let csv = (case member ''symbols'' row of Some v \<Rightarrow> if IsArray v then symbols_csv (elements v) [] else [] | None \<Rightarrow> [])
     in if csv = [] then ''*'' else csv)"

definition row_ingress :: "json \<Rightarrow> Ingress option" where
  "row_ingress row =
     (let protocol = string_or_empty ''protocol'' row; endpoint = string_or_empty ''endpointUrl'' row
      in if \<not> IsObject row \<or> protocol = [] \<or> endpoint = [] \<or> protocol \<noteq> ''itch'' then None
         else Some \<lparr> ig_kind = ''market.wsclient'', ig_params = [(''url'', endpoint), (''adapter'', protocol), (''symbols'', row_symbols row)] \<rparr>)"

definition parseConnectorsJson :: "(string \<Rightarrow> string + json) \<Rightarrow> string \<Rightarrow> string + Ingress list" where
  "parseConnectorsJson parse body = (case parse (c_str body) of
       Inl err \<Rightarrow> Inl (''ConnectorsClient: JSON parse error: '' @ err)
     | Inr doc \<Rightarrow> if \<not> IsArray doc then Inl ''ConnectorsClient: expected JSON array at top level''
         else Inr (List.map_filter row_ingress (elements doc)))"

definition fetchIngresses :: "(string \<Rightarrow> string + json) \<Rightarrow> network \<Rightarrow> bool \<Rightarrow> string \<Rightarrow> string \<Rightarrow> string \<Rightarrow> string + Ingress list" where
  "fetchIngresses parse http ssl address tenantId bearer = (case forum_parseUrl address of
       Inl err \<Rightarrow> Inl (''ConnectorsClient: bad URL: '' @ err)
     | Inr url \<Rightarrow> (case fst (fetchWithRetry (http_fetch http ssl url tenantId bearer)) of
           Inl err \<Rightarrow> Inl err
         | Inr body \<Rightarrow> parseConnectorsJson parse body))"

section \<open>What an entry is\<close>

definition client_entry :: "Ingress \<Rightarrow> bool" where
  "client_entry e \<longleftrightarrow> ig_kind e = ''market.wsclient'' \<and> (\<exists>u. map_of (ig_params e) ''url'' = Some u \<and> u \<noteq> []) \<and>
     map_of (ig_params e) ''adapter'' = Some ''itch'' \<and> (\<exists>s. map_of (ig_params e) ''symbols'' = Some s \<and> s \<noteq> [])"

lemma row_symbols_nonempty: "row_symbols row \<noteq> []"
  by (simp add: row_symbols_def Let_def)

lemma row_ingress_entry: "row_ingress row = Some e \<Longrightarrow> client_entry e"
  using row_symbols_nonempty [of row] by (auto simp: row_ingress_def client_entry_def Let_def split: if_splits)

lemma fetched_entries: "fetchIngresses parse http ssl u t b = Inr es \<Longrightarrow> list_all client_entry es"
  by (auto simp: fetchIngresses_def parseConnectorsJson_def list_all_iff List.map_filter_def row_ingress_entry
      split: sum.splits if_splits)

text \<open>The three attempts and their pauses.\<close>

lemma retries:
  "fetchWithRetry fetch = (case fetch 0 of Inr b \<Rightarrow> (Inr b, []) | Inl e0 \<Rightarrow>
     (case fetch 1 of Inr b \<Rightarrow> (Inr b, [2]) | Inl e1 \<Rightarrow>
     (case fetch 2 of Inr b \<Rightarrow> (Inr b, [2, 4]) | Inl e2 \<Rightarrow> (Inl (''ConnectorsClient: exhausted retries: '' @ e2), [2, 4, 8]))))"
  by (auto simp: fetchWithRetry_def numeral_3_eq_3 numeral_2_eq_2 split: sum.split)

text \<open>A query in the address ends up before the path of the request.\<close>

lemma query_before_path:
  "case forum_parseUrl ''http://forum:8000/?key=1'' of
     Inr u \<Rightarrow> rq_target (buildRequest u [] []) = ''/?key=1/api/connectors'' | Inl _ \<Rightarrow> False"
  by code_simp

end
