(* ===== verification/Shutdown_Coordinator.thy ===== *)
theory Shutdown_Coordinator
  imports Gma_Prelude "HOL-Library.Multiset"
begin

text \<open>
  The shutdown coordinator (\<^verbatim>\<open>runtime/ShutdownCoordinator.hpp\<close>). A step is a function of the state of the process; it returns the
  text of the exception it throws, if any, and the state it leaves.
\<close>

record 's Step =
  sp_name :: string
  sp_order :: int
  sp_fn :: "'s \<Rightarrow> string option \<times> 's"

record 's ShutdownCoordinator =
  sc_steps :: "'s Step list"
  sc_stopping :: bool
  sc_sorted :: bool

definition ShutdownCoordinator_init :: "'s ShutdownCoordinator" where
  "ShutdownCoordinator_init = \<lparr> sc_steps = [], sc_stopping = False, sc_sorted = False \<rparr>"

definition registerStep :: "'s Step \<Rightarrow> 's ShutdownCoordinator \<Rightarrow> 's ShutdownCoordinator" where
  "registerStep st sc = (if sc_stopping sc then sc else sc \<lparr> sc_steps := sc_steps sc @ [st], sc_sorted := False \<rparr>)"

text \<open>An exception ends its step and no other.\<close>

definition run_step :: "'s Step \<Rightarrow> 's \<Rightarrow> 's" where
  "run_step st s = snd (sp_fn st s)"

definition sc_stop :: "'s ShutdownCoordinator \<Rightarrow> 's \<Rightarrow> 's ShutdownCoordinator \<times> 's" where
  "sc_stop sc s =
     (if sc_stopping sc then (sc, s)
      else let steps = (if sc_sorted sc then sc_steps sc else sort_key sp_order (sc_steps sc))
           in (sc \<lparr> sc_steps := steps, sc_stopping := True, sc_sorted := True \<rparr>, fold run_step steps s))"

text \<open>The calls made to a coordinator, from any thread; each takes effect at once.\<close>

datatype 's sc_call = Register "'s Step" | Stop

fun sc_exec :: "'s sc_call list \<Rightarrow> 's ShutdownCoordinator \<Rightarrow> 's \<Rightarrow> 's ShutdownCoordinator \<times> 's" where
  "sc_exec [] sc s = (sc, s)"
| "sc_exec (Register st # cs) sc s = sc_exec cs (registerStep st sc) s"
| "sc_exec (Stop # cs) sc s = (case sc_stop sc s of (sc', s') \<Rightarrow> sc_exec cs sc' s')"

fun steps_before_stop :: "'s sc_call list \<Rightarrow> 's Step list" where
  "steps_before_stop (Register st # cs) = st # steps_before_stop cs"
| "steps_before_stop _ = []"

section \<open>Once, in order\<close>

lemma stopped_stays: "sc_stopping sc \<Longrightarrow> sc_exec cs sc s = (sc, s)"
  by (induction cs sc s rule: sc_exec.induct) (simp_all add: registerStep_def sc_stop_def)

lemma sc_exec_state:
  "\<not> sc_stopping sc \<Longrightarrow> \<not> sc_sorted sc \<Longrightarrow>
     snd (sc_exec cs sc s) = (if Stop \<in> set cs then fold run_step (sort_key sp_order (sc_steps sc @ steps_before_stop cs)) s else s)"
proof (induction cs sc s rule: sc_exec.induct)
  case (3 cs sc s)
  then show ?case by (simp add: sc_stop_def stopped_stays Let_def)
qed (simp_all add: registerStep_def)

text \<open>Whatever calls are made, in whatever order, the steps registered before the first stop are run, each exactly once,
  in ascending order and in order of registration where the order is the same, whether or not steps throw; steps
  registered later are ignored and further stops do nothing.\<close>

theorem shutdown_once_in_order:
  "\<exists>steps. snd (sc_exec cs ShutdownCoordinator_init s) = (if Stop \<in> set cs then fold run_step steps s else s) \<and>
     mset steps = mset (steps_before_stop cs) \<and> sorted (map sp_order steps) \<and>
     (\<forall>k. filter (\<lambda>st. sp_order st = k) steps = filter (\<lambda>st. sp_order st = k) (steps_before_stop cs))"
proof -
  let ?steps = "sort_key sp_order (steps_before_stop cs)"
  have "snd (sc_exec cs ShutdownCoordinator_init s) = (if Stop \<in> set cs then fold run_step ?steps s else s)"
    using sc_exec_state [of ShutdownCoordinator_init cs s] by (simp add: ShutdownCoordinator_init_def)
  then show ?thesis by (intro exI [of _ ?steps]) (simp add: sort_key_stable)
qed

end
