(* ===== verification/Program_Start.thy ===== *)
theory Program_Start
  imports Market_Connector Connectors_Client Shutdown_Coordinator
begin

text \<open>
  The start and the end of the process (\<^verbatim>\<open>main.cpp\<close>): the configuration from the file, the command line, the environment and the
  forum service; the sources made for the ingress entries; and the steps of the shutdown. The contents of files, the
  environment, the network and the ports that can be opened are parameters. \<^const>\<open>None\<close> is a number in the file for which
  \<^verbatim>\<open>atoi\<close> has no specified value.
\<close>

section \<open>Ports and arguments\<close>

text \<open>\<^verbatim>\<open>std::stoul\<close>: a minus sign negates the unsigned value; \<^const>\<open>None\<close> for its exceptions.\<close>

definition stoul :: "string \<Rightarrow> u64 option" where
  "stoul s = (case take_sign (dropWhile isspace (c_str s)) of (neg, r) \<Rightarrow>
     let ds = takeWhile isdigit r; v = digits_val 10 0 ds
     in if ds = [] \<or> v \<ge> 2 ^ 64 then None else Some (if neg then - word_of_nat v else word_of_nat v))"

definition parsePort :: "string \<Rightarrow> 16 word \<Rightarrow> 16 word" where
  "parsePort s fallback = (case stoul s of None \<Rightarrow> fallback | Some p \<Rightarrow> if p = 0 \<or> p > 65535 then fallback else ucast p)"

definition valid_port :: "int \<Rightarrow> int \<Rightarrow> int" where
  "valid_port dflt p = (if p \<le> 0 \<or> p > 65535 then dflt else p)"

text \<open>\<open>argv\<close> with the name of the program at 0.\<close>

definition boot_config :: "string list \<Rightarrow> (string \<Rightarrow> string option) \<Rightarrow> Config option" where
  "boot_config argv files =
     map_option (\<lambda>cfg.
       let ws = word_of_int (valid_port 8080 (wsPort cfg)); feed = word_of_int (valid_port 9001 (feedPort cfg));
           ws' = (if length argv > 1 then parsePort (argv ! 1) ws else ws);
           feed' = (if length argv > 3 then parsePort (argv ! 3) feed else feed)
       in cfg \<lparr> wsPort := uint ws', feedPort := uint feed' \<rparr>)
     (if length argv > 2 then map_option snd (loadFromFile (files (argv ! 2)) Config_init) else Some Config_init)"

section \<open>Ingress\<close>

definition envOr :: "(string \<Rightarrow> string option) \<Rightarrow> string \<Rightarrow> string \<Rightarrow> string" where
  "envOr env val name = (if val \<noteq> [] then val else case env name of Some v \<Rightarrow> v | None \<Rightarrow> [])"

text \<open>\<^const>\<open>None\<close> is the exit of the process after a failed fetch.\<close>

definition pull_ingress ::
  "(string \<Rightarrow> string + json) \<Rightarrow> network \<Rightarrow> bool \<Rightarrow> (string \<Rightarrow> string option) \<Rightarrow> Config \<Rightarrow> Config option" where
  "pull_ingress parse http ssl env cfg =
     (let url = envOr env (forumUrl cfg) ''FORUM_URL''; tenant = envOr env (forumTenantId cfg) ''FORUM_TENANT_ID'';
          token = envOr env (forumAuthToken cfg) ''FORUM_AGENT_TOKEN''
      in if url = [] then Some cfg
         else case fetchIngresses parse http ssl url tenant token of Inl _ \<Rightarrow> None | Inr es \<Rightarrow> Some (cfg \<lparr> ingress := es \<rparr>))"

text \<open>An entry of an unknown kind or whose factory throws is skipped.\<close>

definition make_source :: "'c Registries \<Rightarrow> 'c Market \<Rightarrow> Ingress \<Rightarrow> 'c Source option" where
  "make_source reg w e = (case map_of (rg_ingress reg) (ig_kind e) of None \<Rightarrow> None | Some f \<Rightarrow> f w (ig_params e))"

definition make_sources :: "'c Registries \<Rightarrow> 'c Market \<Rightarrow> Config \<Rightarrow> 'c Source list" where
  "make_sources reg w cfg = map ingress_start (List.map_filter (make_source reg w) (ingress cfg))"

section \<open>Shutdown\<close>

datatype pool_state = PoolRunning | PoolDrained | PoolGone

record 'c Process =
  ps_cfg :: Config
  ps_connector :: MarketConnector
  ps_registries :: "'c Registries"
  ps_sources :: "'c Source list"
  ps_accepting :: bool
  ps_sessions_closing :: bool
  ps_io_stopped :: bool
  ps_pool :: pool_state
  ps_poolSize :: nat
  ps_store :: AtomicStore
  ps_reporter :: bool

definition shutdown_step :: "string \<Rightarrow> int \<Rightarrow> ('c Process \<Rightarrow> 'c Process) \<Rightarrow> 'c Process Step" where
  "shutdown_step name order f = \<lparr> sp_name = name, sp_order = order, sp_fn = \<lambda>p. (None, f p) \<rparr>"

text \<open>The steps in the order of their registration.\<close>

definition shutdown_steps :: "bool \<Rightarrow> 'c Process Step list" where
  "shutdown_steps reporting =
     [shutdown_step ''pool-drain'' 80 (\<lambda>p. if ps_pool p = PoolGone then p else p \<lparr> ps_pool := PoolDrained \<rparr>),
      shutdown_step ''pool-destroy'' 85 (\<lambda>p. p \<lparr> ps_pool := PoolGone \<rparr>)]
     @ (if reporting then [shutdown_step ''metrics-stop'' 10 (\<lambda>p. p \<lparr> ps_reporter := False \<rparr>)] else []) @
     [shutdown_step ''ws-stop-accept'' 5 (\<lambda>p. p \<lparr> ps_accepting := False \<rparr>),
      shutdown_step ''ws-close-sessions'' 40 (\<lambda>p. p \<lparr> ps_sessions_closing := True \<rparr>),
      shutdown_step ''asio-stop'' 60 (\<lambda>p. p \<lparr> ps_io_stopped := True \<rparr>),
      shutdown_step ''ingress-stop'' 35 (\<lambda>p. p \<lparr> ps_sources := map ingress_stop (ps_sources p) \<rparr>),
      shutdown_step ''connectors-stop'' 30 (\<lambda>p. p \<lparr> ps_registries := connector_stop (ps_registries p) \<rparr>)]"

section \<open>The program\<close>

datatype 'c start = Exited | Running "'c Process"

definition pool_size :: "nat \<Rightarrow> Config \<Rightarrow> nat" where
  "pool_size hw cfg = (let n = (if threadPoolSize cfg > 0 then nat (threadPoolSize cfg) else hw) in if n = 0 then 4 else n)"

definition capped_store :: "Config \<Rightarrow> AtomicStore" where
  "capped_store cfg = setCaps (word_of_int (max 0 (cfg_maxSymbols cfg))) (word_of_int (max 0 (cfg_maxFieldsPerSymbol cfg))) AtomicStore_init"

text \<open>
  \<open>w\<close> gives the market of the sources for the books of the connector: the dispatcher made before and these books. \<open>hw\<close> is the
  number of hardware threads. The constructor of the WebSocket server throws when its port cannot be opened, which ends the process.
\<close>

definition boot ::
  "nat \<Rightarrow> (string \<Rightarrow> string + json) \<Rightarrow> network \<Rightarrow> bool \<Rightarrow> string list \<Rightarrow> (16 word \<Rightarrow> bool) \<Rightarrow> (OrderBookManager \<Rightarrow> 'c Market) \<Rightarrow>
   string list \<Rightarrow> (string \<Rightarrow> string option) \<Rightarrow> (string \<Rightarrow> string option) \<Rightarrow> 'c start option" where
  "boot hw parse http ssl fns can_bind w argv files env = (case boot_config argv files of
       None \<Rightarrow> None
     | Some cfg0 \<Rightarrow> if \<not> can_bind (word_of_int (wsPort cfg0)) then Some Exited else (case registerWith True fns can_bind cfg0 Registries_init of
           Inl _ \<Rightarrow> Some Exited
         | Inr (conn, reg) \<Rightarrow> (case pull_ingress parse http ssl env (synthesizeIngressFromLegacy cfg0) of
               None \<Rightarrow> Some Exited
             | Some cfg1 \<Rightarrow> (case dispatchPendingKeys (rg_configNs reg) cfg1 (co_fieldMap conn) of
                   (_, cfg2, fm) \<Rightarrow>
                     let conn' = conn \<lparr> co_fieldMap := fm \<rparr>
                     in Some (Running \<lparr> ps_cfg = cfg2, ps_connector = conn', ps_registries = reg,
                          ps_sources = make_sources reg (w (co_obManager conn')) cfg2, ps_accepting = True, ps_sessions_closing = False,
                          ps_io_stopped = False, ps_pool = PoolRunning,
                          ps_poolSize = pool_size hw cfg0, ps_store = capped_store cfg0, ps_reporter = metricsEnabled cfg2 \<rparr>)))))"

definition process_stop :: "'c Process \<Rightarrow> 'c Process" where
  "process_stop p = snd (sc_exec (map Register (shutdown_steps (ps_reporter p)) @ [Stop]) ShutdownCoordinator_init p)"

end
