(* ===== verification/Program_Start_Thms.thy ===== *)
theory Program_Start_Thms
  imports Program_Start Engine_Config_Thms
begin

text \<open>
  From the bytes of the configuration file to the sources that are running, and from running to the end of the process.
\<close>

section \<open>What the file leaves in the configuration\<close>

definition startable :: "Config \<Rightarrow> bool" where
  "startable c \<longleftrightarrow> 1 \<le> feedPort c \<and> feedPort c \<le> 65535 \<and> list_all plain_symbol (feedSymbols c) \<and>
     list_all (\<lambda>f. list_all plain_symbol (fg_symbols f)) (feeds c)"

text \<open>A branch of the chain of keys that is taken and ends keeps \<open>P\<close>.\<close>

definition allows :: "(Config \<Rightarrow> bool) \<Rightarrow> Config option option \<Rightarrow> bool" where
  "allows P r \<longleftrightarrow> (\<forall>c. r = Some (Some c) \<longrightarrow> P c)"

lemma allows_if: "allows P x \<Longrightarrow> allows P y \<Longrightarrow> allows P (if b then x else y)"
  by simp

lemma allows_None: "allows P None"
  by (simp add: allows_def)

lemma allows_Some: "P c \<Longrightarrow> allows P (Some (Some c))"
  by (simp add: allows_def)

lemma allows_map: "(\<And>v. P (f v)) \<Longrightarrow> allows P (Some (map_option f r))"
  by (auto simp: allows_def)

lemma allows_period: "(\<And>v. P (f v)) \<Longrightarrow> allows P (Some (at_least_one val f))"
  by (auto simp: allows_def at_least_one_def)

lemma allows_kept: "(\<And>v. ok v \<Longrightarrow> P (f v)) \<Longrightarrow> P c \<Longrightarrow> allows P (Some (kept_if ok val f c))"
  by (auto simp: allows_def kept_if_def)

lemmas allows_intros = allows_if allows_None allows_period allows_kept allows_Some allows_map

lemma set_feed_startable:
  assumes "startable c"
  shows "startable (set_feed idx field val c)"
proof -
  let ?xs = "grow FeedConfig_init idx (feeds c)"
  have "list_all plain_symbol (fg_symbols FeedConfig_init)" by (simp add: FeedConfig_init_def plain_symbol_def blank_def)
  then have xs: "\<forall>f \<in> set ?xs. list_all plain_symbol (fg_symbols f)" using assms by (auto simp: startable_def grow_def list_all_iff)
  have "idx < length ?xs" by (simp add: grow_def)
  then have "list_all plain_symbol (fg_symbols (?xs ! idx))" using xs by simp
  then show ?thesis using assms xs symbol_list_plain [of val]
    by (auto simp: startable_def set_feed_def Let_def list_all_iff dest!: set_update_subset_insert [THEN subsetD])
qed

lemma apply_key_startable:
  assumes "startable c" "apply_key key val c = Some c'"
  shows "startable c'"
proof -
  have "allows startable (apply_ta key val c)" unfolding apply_ta_def using assms(1)
    by (intro allows_intros) (simp_all add: startable_def)
  moreover have "allows startable (apply_engine key val c)" unfolding apply_engine_def using assms(1)
    by (intro allows_intros) (simp_all add: startable_def symbol_list_plain)
  moreover have "startable (set_ingress i f val c)" for i f using assms(1) by (simp add: startable_def set_ingress_def Let_def)
  then have "allows startable (apply_indexed key val c)" unfolding apply_indexed_def using assms(1) set_feed_startable [OF assms(1)]
    by (intro allows_intros) (auto split: option.split)
  moreover have "startable (c \<lparr> pendingKeys := pendingKeys c @ [(key, val)] \<rparr>)" using assms(1) by (simp add: startable_def)
  ultimately show ?thesis using assms(2) by (auto simp: apply_key_def allows_def split: option.splits)
qed

lemma read_lines_startable: "startable c \<Longrightarrow> read_lines s c = Some c' \<Longrightarrow> startable c'"
proof (induction s c rule: read_lines.induct)
  case (1 s c)
  let ?p = "fgets LINE_BUFFER s"
  show ?case
  proof (cases "s = []")
    case True
    then show ?thesis using "1.prems" by (simp add: read_lines.simps)
  next
    case False
    show ?thesis
    proof (cases "oversized (c_str (fst ?p))")
      case True
      then have "read_lines (discard (snd ?p)) c = Some c'" using "1.prems"(2) False by (subst (asm) read_lines.simps) (simp add: Let_def)
      then show ?thesis using "1.IH"(1) [OF False refl refl True "1.prems"(1)] by simp
    next
      case nov: False
      then obtain c1 where c1: "handle_config_line (c_str (fst ?p)) c = Some c1" "read_lines (snd ?p) c1 = Some c'"
        using "1.prems"(2) False by (subst (asm) read_lines.simps) (auto simp: Let_def split: option.splits)
      have "startable c1" using c1(1) "1.prems"(1) apply_key_startable
        by (auto simp: handle_config_line_def Let_def split: if_splits option.splits)
      then show ?thesis using "1.IH"(2) [OF False refl refl nov c1(1)] c1(2) by simp
    qed
  qed
qed

lemma init_startable: "startable Config_init"
  by (simp add: startable_def Config_init_def plain_symbol_def blank_def)

section \<open>Parameters of the sources\<close>

lemma c_str_to_string: "0 \<le> v \<Longrightarrow> c_str (to_string v) = to_string v"
  using nat_text_digits [of "nat v"] by (auto simp: c_str_def to_string_def takeWhile_eq_all_conv list_all_iff isdigit_def char_code_def)

lemma stoi_to_string:
  assumes "0 \<le> v" "v \<le> int_max"
  shows "stoi (to_string v) = Some v"
proof -
  have "strtol (to_string v) = (v, [])"
    using strtol_to_string [of v "[]"] assms by (simp add: int_max_def long_min_def long_max_def)
  moreover have "to_string v \<noteq> []" using assms(1) by (simp add: to_string_def)
  ultimately show ?thesis using assms by (simp add: stoi_def c_str_to_string int_min_def)
qed

lemma feedserver_param: "startable c \<Longrightarrow> feedserver_port [(''port'', to_string (feedPort c))] = word_of_int (feedPort c)"
  by (simp add: feedserver_port_def startable_def stoi_to_string int_max_def)

lemma wsclient_param:
  "list_all plain_symbol symbols \<Longrightarrow> wsclient_symbols (ig_params (ws_entry url adapter symbols)) = or_default [''*''] symbols"
  by (auto simp: wsclient_symbols_def ws_entry_def or_default_def splitCSV_join)

section \<open>The sources\<close>

text \<open>The clients that the older keys ask for: their addresses and symbols.\<close>

definition configured_clients :: "Config \<Rightarrow> (string \<times> string list) list" where
  "configured_clients c = (if feedUrl c = [] then [] else [(feedUrl c, feedSymbols c)])
     @ map (\<lambda>f. (fg_url f, fg_symbols f)) (filter (\<lambda>f. fg_url f \<noteq> []) (feeds c))"

definition configured_sources :: "(16 word \<Rightarrow> bool) \<Rightarrow> 'c Market \<Rightarrow> Config \<Rightarrow> 'c Source list" where
  "configured_sources can_bind w c =
     (if can_bind (word_of_int (feedPort c)) then [FeedServerIngress (word_of_int (feedPort c)) (FeedServer_new w) False] else [])
     @ List.map_filter (\<lambda>(url, symbols). map_option (\<lambda>C. WsFeedClientIngress C False) (WsFeedClient_new url (or_default [''*''] symbols) w))
         (configured_clients c)"

definition market_registries :: "string list \<Rightarrow> (16 word \<Rightarrow> bool) \<Rightarrow> 'c Registries" where
  "market_registries fns can_bind = \<lparr> rg_configNs = [(''market'', market_reader), (''source'', applyMarketSourceKey)],
     rg_ingress = [(''market.feedserver'', feedserver_factory can_bind), (''market.wsclient'', wsclient_factory)],
     rg_computers = [(''tick'', MarketTickComputer_new fns)], rg_providers = [(''ob'', ob_namespace)] \<rparr>"

lemma registerWith_registries: "\<exists>conn. registerWith True fns can_bind cfg Registries_init = Inr (conn, market_registries fns can_bind)"
  by (simp add: registerWith_def Registries_init_def market_registries_def ns_register_def registerIngress_def)

lemma source_of_client:
  "list_all plain_symbol symbols \<Longrightarrow> make_source (market_registries fns can_bind) w (ws_entry url adapter symbols) =
     map_option (\<lambda>C. WsFeedClientIngress C False) (WsFeedClient_new url (or_default [''*''] symbols) w)"
  using wsclient_param [of symbols url adapter]
  by (simp add: make_source_def market_registries_def wsclient_factory_def) (simp add: ws_entry_def)

lemma map_filter_append: "List.map_filter f (xs @ ys) = List.map_filter f xs @ List.map_filter f ys"
  by (simp add: List.map_filter_def)

lemma map_filter_map: "List.map_filter f (map g xs) = List.map_filter (f \<circ> g) xs"
  by (induction xs) (simp_all add: List.map_filter_def)

lemma map_filter_cong: "(\<And>x. x \<in> set xs \<Longrightarrow> f x = g x) \<Longrightarrow> List.map_filter f xs = List.map_filter g xs"
  by (induction xs) (simp_all add: List.map_filter_def)

lemma synthesized_sources:
  assumes "startable c" "ingress c = []"
  shows "List.map_filter (make_source (market_registries fns can_bind) w) (ingress (synthesizeIngressFromLegacy c)) = configured_sources can_bind w c"
proof -
  let ?f = "make_source (market_registries fns can_bind) w" and ?g = "\<lambda>(url, symbols). map_option (\<lambda>C. WsFeedClientIngress C False) (WsFeedClient_new url (or_default [''*''] symbols) w)"
  have fs: "?f \<lparr> ig_kind = ''market.feedserver'', ig_params = [(''port'', to_string (feedPort c))] \<rparr>
      = (if can_bind (word_of_int (feedPort c)) then Some (FeedServerIngress (word_of_int (feedPort c)) (FeedServer_new w) False) else None)"
    using feedserver_param [OF assms(1)] by (simp add: make_source_def market_registries_def feedserver_factory_def Let_def)
  have url: "List.map_filter ?f (if feedUrl c = [] then [] else [ws_entry (feedUrl c) ''itch'' (feedSymbols c)])
      = List.map_filter ?g (if feedUrl c = [] then [] else [(feedUrl c, feedSymbols c)])"
    using assms(1) by (simp add: List.map_filter_def source_of_client startable_def)
  have "List.map_filter ?f (map (\<lambda>x. ws_entry (fg_url x) (fg_adapter x) (fg_symbols x)) (filter (\<lambda>x. fg_url x \<noteq> []) (feeds c)))
      = List.map_filter ?g (map (\<lambda>f. (fg_url f, fg_symbols f)) (filter (\<lambda>f. fg_url f \<noteq> []) (feeds c)))"
    unfolding map_filter_map using assms(1) by (intro map_filter_cong) (auto simp: startable_def list_all_iff intro!: source_of_client)
  then show ?thesis using assms(2) fs url
    by (simp add: synthesizeIngressFromLegacy_def configured_sources_def configured_clients_def map_filter_append List.map_filter_def)
qed

section \<open>From the file to the sources\<close>

lemma sanity_frame:
  "ingress (sanity c) = ingress c" "feedPort (sanity c) = feedPort c" "forumUrl (sanity c) = forumUrl c" "pendingKeys (sanity c) = pendingKeys c"
  by (simp_all add: sanity_def Let_def)

lemma synthesized_frame:
  "feedPort (synthesizeIngressFromLegacy c) = feedPort c" "forumUrl (synthesizeIngressFromLegacy c) = forumUrl c"
  "ingress (synthesizeIngressFromLegacy c) \<noteq> []"
  by (simp_all add: synthesizeIngressFromLegacy_def)

lemma boot_config_of_file:
  assumes "2 < length argv" "files (argv ! 2) = Some s" "read_lines s Config_init = Some c"
  shows "\<exists>cfg. boot_config argv files = Some cfg \<and> ingress cfg = ingress (synthesizeIngressFromLegacy c) \<and> forumUrl cfg = forumUrl c"
  using assms by (simp add: boot_config_def loadFromFile_def Let_def sanity_frame synthesized_frame)

lemma dispatch_keeps_ingress: "dispatchPendingKeys reg cfg s = (n, cfg', s') \<Longrightarrow> ingress cfg' = ingress cfg"
  by (auto simp: dispatchPendingKeys_def split: prod.splits)

lemma boot_sources:
  fixes w :: "OrderBookManager \<Rightarrow> 'c Market"
  assumes "2 < length argv" "files (argv ! 2) = Some s" "read_lines s Config_init = Some c" "ingress c = []"
    "forumUrl c = []" "env ''FORUM_URL'' = None" "\<And>cfg. boot_config argv files = Some cfg \<Longrightarrow> can_bind (word_of_int (wsPort cfg))"
  shows "\<exists>p. boot hw parse http ssl fns can_bind w argv files env = Some (Running p) \<and>
    ps_sources p = map ingress_start (configured_sources can_bind (w (co_obManager (ps_connector p))) c)"
proof -
  obtain cfg where cfg: "boot_config argv files = Some cfg" "ingress cfg = ingress (synthesizeIngressFromLegacy c)" "forumUrl cfg = []"
    using boot_config_of_file [of argv files, OF assms(1-3)] assms(5) by auto
  let ?reg = "market_registries fns can_bind :: 'c Registries"
  obtain conn where reg: "registerWith True fns can_bind cfg Registries_init = Inr (conn, ?reg)"
    using registerWith_registries by blast
  have "synthesizeIngressFromLegacy cfg = cfg" using cfg(2) synthesized_frame(3) by (simp add: synthesizeIngressFromLegacy_def)
  then have pull: "pull_ingress parse http ssl env (synthesizeIngressFromLegacy cfg) = Some cfg"
    using cfg(3) assms(6) by (simp add: pull_ingress_def envOr_def Let_def)
  obtain n cfg2 fm where d: "dispatchPendingKeys (rg_configNs ?reg) cfg (co_fieldMap conn) = (n, cfg2, fm)"
    by (metis prod_cases3)
  have "startable c" using read_lines_startable [OF init_startable assms(3)] .
  then have "make_sources ?reg (w (co_obManager conn)) cfg2 =
      map ingress_start (configured_sources can_bind (w (co_obManager conn)) c)"
    using dispatch_keeps_ingress [OF d] cfg(2) by (simp add: make_sources_def synthesized_sources [OF _ assms(4)])
  then show ?thesis using cfg(1) assms(7) [OF cfg(1)] reg pull d by (simp add: boot_def Let_def)
qed


definition demo_file :: string where
  "demo_file = ''feedUrl = ws://h:1/f'' @ [CHR 0x0A] @ ''feedSymbols= A , B,''"

lemma demo_boot_read: "map_option (\<lambda>c. (ingress c, forumUrl c, configured_clients c, feedPort c)) (read_lines demo_file Config_init)
    = Some ([], [], [(''ws://h:1/f'', [''A'', ''B''])], 9001)"
  by code_simp


text \<open>The port given on the command line does not reach the feed server when a file is loaded: the entry was made from the file.\<close>

lemma cli_feed_port_ignored:
  assumes "files path = Some s" "read_lines s Config_init = Some c" "ingress c = []" "forumUrl c = []" "env ''FORUM_URL'' = None"
    "\<And>p. can_bind p"
  shows "\<exists>p. boot hw parse http ssl fns can_bind w [name, ws, path, port] files env = Some (Running p) \<and>
    ps_sources p = map ingress_start (configured_sources can_bind (w (co_obManager (ps_connector p))) c)"
  using boot_sources [of "[name, ws, path, port]" files s c env can_bind] assms by simp

text \<open>A port parameter out of range is cut to 16 bits.\<close>

lemma ingress_port_wraps: "feedserver_port [(''port'', ''70000'')] = 4464"
  by code_simp

section \<open>Shutdown\<close>

fun source_stopped :: "'c Source \<Rightarrow> bool" where
  "source_stopped (FeedServerIngress p S started) \<longleftrightarrow> \<not> started \<and> \<not> sv_accepting S \<and> sv_sessions S = []"
| "source_stopped (WsFeedClientIngress C started) \<longleftrightarrow> \<not> started \<and> wf_stopping C"

fun source_started :: "'c Source \<Rightarrow> bool" where
  "source_started (FeedServerIngress p S started) \<longleftrightarrow> started"
| "source_started (WsFeedClientIngress C started) \<longleftrightarrow> started"

lemma started: "source_started (ingress_start src)"
  by (cases src) simp_all

lemma fold_close_sessions: "sv_sessions S = [] \<Longrightarrow> sv_sessions (fold feed_close is S) = [] \<and> sv_accepting (fold feed_close is S) = sv_accepting S"
  by (induction "is" arbitrary: S) (simp_all add: feed_close_def)

lemma stopped: "source_started src \<Longrightarrow> source_stopped (ingress_stop src)"
  by (cases src) (simp_all add: feed_stop_def fold_close_sessions client_stop_def await_def)

lemma shutdown_effect:
  "process_stop p = p \<lparr> ps_accepting := False, ps_reporter := False, ps_registries := connector_stop (ps_registries p),
     ps_sources := map ingress_stop (ps_sources p), ps_sessions_closing := True, ps_io_stopped := True, ps_pool := PoolGone \<rparr>"
proof -
  have regs: "steps_before_stop (map Register ss @ [Stop]) = ss" for ss :: "'a Process Step list" by (induction ss) simp_all
  have "process_stop p = fold run_step (sort_key sp_order (shutdown_steps (ps_reporter p))) p"
    using sc_exec_state [of ShutdownCoordinator_init "map Register (shutdown_steps (ps_reporter p)) @ [Stop]" p]
    by (simp add: process_stop_def ShutdownCoordinator_init_def regs)
  then show ?thesis by (cases "ps_reporter p") (simp_all add: shutdown_steps_def shutdown_step_def run_step_def)
qed

end
