(* ===== verification/Client_Connection.thy ===== *)
theory Client_Connection
  imports Main
begin

text \<open>
  The WebSocket client (\<^verbatim>\<open>ws/ClientConnection.cpp\<close>): connecting, reading, the queue of outgoing texts and closing. All handlers run
  on one strand, one after the other. An operation that was started and a task that was posted are members of \<open>cc_waits\<close> until
  their handler runs. The stream is modelled by whether it is open and by the completions of its operations: a write succeeds only
  on an open stream. The callbacks are the list of the events they were called with; time limits, options and log lines are left out.
\<close>

section \<open>State\<close>

datatype cwait = CResolve | CConnect | CHandshake | CRead | CWrite | CClose | CSendTask string | CCloseTask

datatype cevent = COpened | CMessage string | CClosed | CFailed string

record ClientConnection =
  cc_outbox :: "string list"
  cc_writing :: bool
  cc_closing :: bool
  cc_open :: bool
  cc_waits :: "cwait list"
  cc_events :: "cevent list"
  cc_written :: "string list"
  cc_accepted :: "string list"

text \<open>\<open>cc_written\<close> are the texts whose write succeeded, \<open>cc_accepted\<close> those whose task has run; neither is part of the program.\<close>

definition ClientConnection_new :: ClientConnection where
  "ClientConnection_new = \<lparr> cc_outbox = [], cc_writing = False, cc_closing = False, cc_open = False, cc_waits = [],
     cc_events = [], cc_written = [], cc_accepted = [] \<rparr>"

definition cc_await :: "cwait \<Rightarrow> ClientConnection \<Rightarrow> ClientConnection" where
  "cc_await x C = C \<lparr> cc_waits := cc_waits C @ [x] \<rparr>"

definition cc_event :: "cevent \<Rightarrow> ClientConnection \<Rightarrow> ClientConnection" where
  "cc_event e C = C \<lparr> cc_events := cc_events C @ [e] \<rparr>"

definition cc_fail :: "string \<Rightarrow> ClientConnection \<Rightarrow> ClientConnection" where
  "cc_fail location C = cc_event (CFailed location) C"

section \<open>Operations of the owner\<close>

definition cc_connect :: "ClientConnection \<Rightarrow> ClientConnection" where
  "cc_connect C = cc_await CResolve (C \<lparr> cc_closing := False \<rparr>)"

definition cc_send :: "string \<Rightarrow> ClientConnection \<Rightarrow> ClientConnection" where
  "cc_send msg C = cc_await (CSendTask msg) C"

definition cc_close :: "ClientConnection \<Rightarrow> ClientConnection" where
  "cc_close C = cc_await CCloseTask C"

section \<open>Handlers\<close>

definition cc_onResolve :: "bool \<Rightarrow> ClientConnection \<Rightarrow> ClientConnection" where
  "cc_onResolve ok C = (if ok then cc_await CConnect C else cc_fail ''resolve'' C)"

definition cc_onConnect :: "bool \<Rightarrow> ClientConnection \<Rightarrow> ClientConnection" where
  "cc_onConnect ok C = (if ok then cc_await CHandshake C else cc_fail ''connect'' C)"

definition cc_doRead :: "ClientConnection \<Rightarrow> ClientConnection" where
  "cc_doRead C = cc_await CRead C"

definition cc_doWrite :: "ClientConnection \<Rightarrow> ClientConnection" where
  "cc_doWrite C = (if cc_outbox C = [] then C \<lparr> cc_writing := False \<rparr> else cc_await CWrite C)"

definition cc_onHandshake :: "bool \<Rightarrow> ClientConnection \<Rightarrow> ClientConnection" where
  "cc_onHandshake ok C =
     (if \<not> ok then cc_fail ''handshake'' C
      else let C1 = cc_doRead (cc_event COpened (C \<lparr> cc_open := True \<rparr>))
           in if cc_outbox C1 \<noteq> [] \<and> \<not> cc_writing C1 then cc_doWrite (C1 \<lparr> cc_writing := True \<rparr>) else C1)"

text \<open>A text, the end of the connection, or another error.\<close>

datatype read_result = ReadText string | ReadClosed | ReadError

fun cc_onRead :: "read_result \<Rightarrow> ClientConnection \<Rightarrow> ClientConnection" where
  "cc_onRead (ReadText m) C = cc_doRead (cc_event (CMessage m) C)"
| "cc_onRead ReadClosed C = cc_event CClosed C"
| "cc_onRead ReadError C = cc_fail ''read'' C"

definition cc_onSend :: "string \<Rightarrow> ClientConnection \<Rightarrow> ClientConnection" where
  "cc_onSend msg C =
     (let C1 = C \<lparr> cc_outbox := cc_outbox C @ [msg], cc_accepted := cc_accepted C @ [msg] \<rparr>
      in if cc_writing C1 then C1 else cc_doWrite (C1 \<lparr> cc_writing := True \<rparr>))"

definition cc_onWrite :: "bool \<Rightarrow> ClientConnection \<Rightarrow> ClientConnection" where
  "cc_onWrite ok C =
     (if \<not> ok then cc_fail ''write'' C
      else let C1 = C \<lparr> cc_outbox := tl (cc_outbox C), cc_written := cc_written C @ [hd (cc_outbox C)] \<rparr>
           in if cc_outbox C1 \<noteq> [] then cc_doWrite C1 else C1 \<lparr> cc_writing := False \<rparr>)"

definition cc_onCloseTask :: "ClientConnection \<Rightarrow> ClientConnection" where
  "cc_onCloseTask C = (if cc_closing C \<or> \<not> cc_open C then C else cc_await CClose (C \<lparr> cc_closing := True \<rparr>))"

definition cc_onClose :: "bool \<Rightarrow> ClientConnection \<Rightarrow> ClientConnection" where
  "cc_onClose ok C = cc_event CClosed (if ok then C else cc_fail ''close'' C)"

section \<open>Runs\<close>

definition finish :: "cwait \<Rightarrow> ClientConnection \<Rightarrow> ClientConnection" where
  "finish x C = C \<lparr> cc_waits := remove1 x (cc_waits C) \<rparr>"

text \<open>The owner connects once; the stream may be lost at any time.\<close>

inductive cc_step :: "ClientConnection \<Rightarrow> ClientConnection \<Rightarrow> bool" where
  "cc_step C (cc_send m C)"
| "cc_step C (cc_close C)"
| "cc_step C (C \<lparr> cc_open := False \<rparr>)"
| "CResolve \<in> set (cc_waits C) \<Longrightarrow> cc_step C (cc_onResolve ok (finish CResolve C))"
| "CConnect \<in> set (cc_waits C) \<Longrightarrow> cc_step C (cc_onConnect ok (finish CConnect C))"
| "CHandshake \<in> set (cc_waits C) \<Longrightarrow> cc_step C (cc_onHandshake ok (finish CHandshake C))"
| "CRead \<in> set (cc_waits C) \<Longrightarrow> cc_step C (cc_onRead r (finish CRead C))"
| "CSendTask m \<in> set (cc_waits C) \<Longrightarrow> cc_step C (cc_onSend m (finish (CSendTask m) C))"
| "CWrite \<in> set (cc_waits C) \<Longrightarrow> ok \<longrightarrow> cc_open C \<Longrightarrow> cc_step C (cc_onWrite ok (finish CWrite C))"
| "CCloseTask \<in> set (cc_waits C) \<Longrightarrow> cc_step C (cc_onCloseTask (finish CCloseTask C))"
| "CClose \<in> set (cc_waits C) \<Longrightarrow> cc_step C (cc_onClose ok (finish CClose C))"

section \<open>The invariant\<close>

abbreviation waiting :: "cwait \<Rightarrow> ClientConnection \<Rightarrow> nat" where
  "waiting x C \<equiv> count_list (cc_waits C) x"

abbreviation connecting :: "ClientConnection \<Rightarrow> nat" where
  "connecting C \<equiv> waiting CResolve C + waiting CConnect C + waiting CHandshake C + waiting CRead C"

definition cc_ok :: "ClientConnection \<Rightarrow> bool" where
  "cc_ok C \<longleftrightarrow> cc_accepted C = cc_written C @ cc_outbox C \<and> connecting C \<le> 1 \<and> waiting CWrite C \<le> 1 \<and>
     (waiting CWrite C = 1 \<longrightarrow> cc_writing C \<and> cc_outbox C \<noteq> []) \<and> (\<not> cc_writing C \<longrightarrow> cc_outbox C = [])"

lemma count_remove1: "count_list (remove1 x xs) y = (if x = y then count_list xs y - 1 else count_list xs y)"
  by (induction xs) auto

lemma count_pos: "x \<in> set xs \<Longrightarrow> 1 \<le> count_list xs x"
  by (simp add: Suc_le_eq count_list_0_iff flip: neq0_conv)

lemmas cc_handlers = cc_send_def cc_close_def cc_onResolve_def cc_onConnect_def cc_onHandshake_def cc_onSend_def cc_onWrite_def
  cc_onCloseTask_def cc_onClose_def cc_doRead_def cc_doWrite_def cc_await_def cc_event_def cc_fail_def finish_def Let_def

lemma cc_step_ok: "cc_step C C' \<Longrightarrow> cc_ok C \<Longrightarrow> cc_ok C'"
proof (induction rule: cc_step.induct)
  case (7 C r)
  then show ?case using count_pos [OF 7(1)] by (cases r) (auto simp: cc_ok_def cc_handlers count_remove1)
next
  case (9 C ok)
  then show ?case using count_pos [OF 9(1)] by (cases "cc_outbox C") (auto simp: cc_ok_def cc_handlers count_remove1)
qed (auto simp: cc_ok_def cc_handlers count_remove1 dest!: count_pos)

text \<open>C35. A client that connects once keeps, whatever its owner and its stream do: the texts written are those accepted for sending,
  in order and none twice; at most one write is outstanding, and then the writing flag is set; at most one of the operations of the
  chain that resolves, connects, shakes hands and reads is outstanding.\<close>

theorem client_connection_ordered:
  assumes "cc_step\<^sup>*\<^sup>* (cc_connect ClientConnection_new) C"
  shows "cc_accepted C = cc_written C @ cc_outbox C \<and> waiting CWrite C \<le> 1 \<and> connecting C \<le> 1 \<and>
    (CWrite \<in> set (cc_waits C) \<longrightarrow> cc_writing C \<and> cc_outbox C \<noteq> [])"
proof -
  have "cc_ok (cc_connect ClientConnection_new)" by (simp add: cc_ok_def cc_connect_def ClientConnection_new_def cc_await_def)
  with assms have "cc_ok C" by (induction rule: rtranclp_induct) (auto intro: cc_step_ok)
  then show ?thesis using count_pos [of CWrite "cc_waits C"] by (auto simp: cc_ok_def)
qed

section \<open>Sending before the connection is open\<close>

text \<open>A write that failed leaves the flag set, and nothing clears it: no later text is written.\<close>

definition stuck :: "string list \<Rightarrow> ClientConnection \<Rightarrow> bool" where
  "stuck ws C \<longleftrightarrow> cc_writing C \<and> CWrite \<notin> set (cc_waits C) \<and> cc_outbox C \<noteq> [] \<and> cc_written C = ws"

lemma stuck_step: "cc_step C C' \<Longrightarrow> stuck ws C \<Longrightarrow> stuck ws C'"
proof (induction rule: cc_step.induct)
  case (7 C r)
  then show ?case by (cases r) (auto simp: stuck_def cc_handlers dest: in_set_remove1 [THEN iffD1, rotated])
qed (auto simp: stuck_def cc_handlers notin_set_remove1)

lemma stuck_for_ever: "cc_step\<^sup>*\<^sup>* C C' \<Longrightarrow> stuck ws C \<Longrightarrow> stuck ws C'"
  by (induction rule: rtranclp_induct) (auto intro: stuck_step)

text \<open>A text sent before the handshake is handed to a stream that is not open; the write fails and the queue is stuck.\<close>

definition early_send :: "ClientConnection" where
  "early_send = cc_onWrite False (finish CWrite (cc_onSend ''hi'' (finish (CSendTask ''hi'') (cc_send ''hi'' (cc_connect ClientConnection_new)))))"

lemma early_send_reachable: "cc_step\<^sup>*\<^sup>* (cc_connect ClientConnection_new) early_send"
proof -
  let ?a = "cc_connect ClientConnection_new" let ?b = "cc_send ''hi'' ?a" let ?c = "cc_onSend ''hi'' (finish (CSendTask ''hi'') ?b)"
  have "cc_step ?a ?b" by (rule cc_step.intros)
  moreover have "cc_step ?b ?c" by (rule cc_step.intros) (simp add: cc_send_def cc_await_def)
  moreover have "cc_step ?c early_send" unfolding early_send_def
    by (rule cc_step.intros) (simp_all add: cc_connect_def ClientConnection_new_def cc_handlers)
  ultimately show ?thesis by (meson converse_rtranclp_into_rtranclp r_into_rtranclp)
qed

lemma early_send_blocks: "cc_step\<^sup>*\<^sup>* early_send C \<Longrightarrow> cc_written C = []"
proof -
  have "stuck [] early_send" by (simp add: stuck_def early_send_def cc_connect_def ClientConnection_new_def cc_handlers)
  then show "cc_step\<^sup>*\<^sup>* early_send C \<Longrightarrow> cc_written C = []" using stuck_for_ever by (auto simp: stuck_def)
qed

text \<open>Closing is reported twice: by the read that ends and by the close that completes.\<close>

lemma closed_twice:
  assumes "CRead \<in> set (cc_waits C)" "CClose \<in> set (cc_waits C)"
  shows "\<exists>C'. cc_step\<^sup>*\<^sup>* C C' \<and> cc_events C' = cc_events C @ [CClosed, CClosed]"
proof -
  let ?D = "cc_onRead ReadClosed (finish CRead C)"
  have "cc_step C ?D" using assms(1) by (rule cc_step.intros)
  moreover have "cc_step ?D (cc_onClose True (finish CClose ?D))"
    by (rule cc_step.intros) (use assms(2) in \<open>simp add: cc_event_def finish_def\<close>)
  ultimately show ?thesis
    by (intro exI [of _ "cc_onClose True (finish CClose ?D)"]) (auto simp: cc_onClose_def cc_event_def finish_def)
qed

theorem client_connection_ordered_witness: "waiting CWrite early_send \<le> 1"
  using client_connection_ordered [OF early_send_reachable] by simp

end
