(* ===== verification/Web_Socket_Server.thy ===== *)
theory Web_Socket_Server
  imports Gma_Prelude "HOL-Library.AList"
begin

text \<open>
  The WebSocket server (\<^verbatim>\<open>server/WebSocketServer.cpp\<close>): accepting connections, the table of sessions and closing them all, with the
  parts of a session's life that the server sees (\<^verbatim>\<open>ClientSession::run\<close> and \<^verbatim>\<open>close\<close>): the handshake, which registers the session,
  and the end of \<^verbatim>\<open>async_close\<close>, which takes it out. The port, the sockets, log lines and metrics are left out.
\<close>

section \<open>State\<close>

text \<open>A session by its number in the order of acceptance: in the handshake, open or closing under its identifier, or gone.\<close>

datatype ws_conn = Shaking | Live u64 | Leaving u64 | Over

record WebSocketServer =
  wv_accepting :: bool
  wv_waiting :: nat
  wv_sessions :: "(u64, nat) umap"
  wv_next :: u64
  wv_all :: "ws_conn list"

definition MAX_WS_SESSIONS :: nat where
  "MAX_WS_SESSIONS = 1024"

definition WebSocketServer_new :: WebSocketServer where
  "WebSocketServer_new = \<lparr> wv_accepting = False, wv_waiting = 0, wv_sessions = [], wv_next = 1, wv_all = [] \<rparr>"

section \<open>Accepting\<close>

definition ws_doAccept :: "WebSocketServer \<Rightarrow> WebSocketServer" where
  "ws_doAccept V = (if wv_accepting V then V \<lparr> wv_waiting := wv_waiting V + 1 \<rparr> else V)"

definition ws_run :: "WebSocketServer \<Rightarrow> WebSocketServer" where
  "ws_run V = (if wv_accepting V then V else ws_doAccept (V \<lparr> wv_accepting := True \<rparr>))"

definition ws_stopAccept :: "WebSocketServer \<Rightarrow> WebSocketServer" where
  "ws_stopAccept V = V \<lparr> wv_accepting := False \<rparr>"

text \<open>The completion of an accept; \<open>ok\<close> tells whether there is a socket.\<close>

definition ws_onAccept :: "bool \<Rightarrow> WebSocketServer \<Rightarrow> WebSocketServer" where
  "ws_onAccept ok V0 =
     (let V = V0 \<lparr> wv_waiting := wv_waiting V0 - 1 \<rparr>
      in if \<not> wv_accepting V then V
         else if ok \<and> length (wv_sessions V) < MAX_WS_SESSIONS then ws_doAccept (V \<lparr> wv_all := wv_all V @ [Shaking] \<rparr>)
         else ws_doAccept V)"

section \<open>The table\<close>

text \<open>\<^verbatim>\<open>emplace\<close> keeps an entry that exists.\<close>

definition registerSession :: "nat \<Rightarrow> WebSocketServer \<Rightarrow> u64 \<times> WebSocketServer" where
  "registerSession i V = (let n = wv_next V
     in (n, V \<lparr> wv_next := n + 1, wv_sessions := (if map_of (wv_sessions V) n = None then wv_sessions V @ [(n, i)] else wv_sessions V) \<rparr>))"

definition unregisterSession :: "u64 \<Rightarrow> WebSocketServer \<Rightarrow> WebSocketServer" where
  "unregisterSession n V = V \<lparr> wv_sessions := AList.delete n (wv_sessions V) \<rparr>"

definition set_conn :: "nat \<Rightarrow> ws_conn \<Rightarrow> WebSocketServer \<Rightarrow> WebSocketServer" where
  "set_conn i c V = V \<lparr> wv_all := (wv_all V)[i := c] \<rparr>"

text \<open>The end of the handshake of a session, its \<^verbatim>\<open>close\<close>, and the end of its close.\<close>

definition session_shaken :: "bool \<Rightarrow> nat \<Rightarrow> WebSocketServer \<Rightarrow> WebSocketServer" where
  "session_shaken ok i V = (if \<not> ok then set_conn i Over V else case registerSession i V of (n, V1) \<Rightarrow> set_conn i (Live n) V1)"

definition session_close :: "nat \<Rightarrow> WebSocketServer \<Rightarrow> WebSocketServer" where
  "session_close i V = (case wv_all V ! i of Live n \<Rightarrow> set_conn i (Leaving n) V | _ \<Rightarrow> V)"

definition session_closed :: "nat \<Rightarrow> u64 \<Rightarrow> WebSocketServer \<Rightarrow> WebSocketServer" where
  "session_closed i n V = set_conn i Over (if n \<noteq> 0 then unregisterSession n V else V)"

definition ws_closeAll :: "WebSocketServer \<Rightarrow> WebSocketServer" where
  "ws_closeAll V = fold session_close (map snd (wv_sessions V)) V"

inductive ws_step :: "WebSocketServer \<Rightarrow> WebSocketServer \<Rightarrow> bool" where
  run: "ws_step V (ws_run V)"
| stop: "ws_step V (ws_stopAccept V)"
| closeAll: "ws_step V (ws_closeAll V)"
| accept: "0 < wv_waiting V \<Longrightarrow> ws_step V (ws_onAccept ok V)"
| shaken: "i < length (wv_all V) \<Longrightarrow> wv_all V ! i = Shaking \<Longrightarrow> ws_step V (session_shaken ok i V)"
| close: "i < length (wv_all V) \<Longrightarrow> ws_step V (session_close i V)"
| closed: "i < length (wv_all V) \<Longrightarrow> wv_all V ! i = Leaving n \<Longrightarrow> ws_step V (session_closed i n V)"

section \<open>The invariant\<close>

text \<open>The identifier of a session that has one.\<close>

fun conn_id :: "ws_conn \<Rightarrow> u64 option" where
  "conn_id (Live n) = Some n"
| "conn_id (Leaving n) = Some n"
| "conn_id _ = None"

definition shaking :: "WebSocketServer \<Rightarrow> nat" where
  "shaking V = length (filter (\<lambda>c. c = Shaking) (wv_all V))"

text \<open>Sessions in the table are those with an identifier; identifiers have been given out in order from 1.\<close>

definition ws_ok :: "WebSocketServer \<Rightarrow> bool" where
  "ws_ok V \<longleftrightarrow> distinct (map fst (wv_sessions V)) \<and> unat (wv_next V) + shaking V \<le> length (wv_all V) + 1 \<and> 0 < wv_next V \<and>
     (\<forall>n i. (n, i) \<in> set (wv_sessions V) \<longleftrightarrow> i < length (wv_all V) \<and> conn_id (wv_all V ! i) = Some n) \<and>
     (\<forall>n \<in> fst ` set (wv_sessions V). 0 < n \<and> n < wv_next V)"

lemma filter_update:
  "i < length xs \<Longrightarrow> length (filter P (xs[i := c])) + (if P (xs ! i) then 1 else 0) = length (filter P xs) + (if P c then 1 else 0)"
proof (induction xs arbitrary: i)
  case (Cons x xs)
  then show ?case by (cases i) auto
qed simp

lemma shaking_update:
  "i < length (wv_all V) \<Longrightarrow> shaking (set_conn i c V) + (if wv_all V ! i = Shaking then 1 else 0) = shaking V + (if c = Shaking then 1 else 0)"
  unfolding shaking_def set_conn_def using filter_update [of i "wv_all V" "\<lambda>c. c = Shaking" c] by simp

lemma set_conn_frame [simp]:
  "wv_sessions (set_conn i c V) = wv_sessions V" "wv_next (set_conn i c V) = wv_next V"
  "length (wv_all (set_conn i c V)) = length (wv_all V)"
  by (simp_all add: set_conn_def)

lemma set_conn_nth: "i < length (wv_all V) \<Longrightarrow> wv_all (set_conn i c V) ! j = (if j = i then c else wv_all V ! j)"
  by (simp add: set_conn_def nth_list_update)

text \<open>A change that keeps the identifier of a session and does not make it shake hands again.\<close>

lemma set_conn_ok:
  assumes "ws_ok V" "i < length (wv_all V)" "conn_id c = conn_id (wv_all V ! i)" "c \<noteq> Shaking"
  shows "ws_ok (set_conn i c V)"
proof -
  have "conn_id (wv_all (set_conn i c V) ! j) = conn_id (wv_all V ! j)" for j using assms(2,3) by (simp add: set_conn_nth)
  moreover have "shaking (set_conn i c V) \<le> shaking V" using shaking_update [OF assms(2), of c] assms(4) by simp
  ultimately show ?thesis using assms(1) unfolding ws_ok_def by simp
qed

lemma shaken_ok:
  assumes "ws_ok V" "i < length (wv_all V)" "wv_all V ! i = Shaking" "length (wv_all V) + 1 < 2 ^ 64"
  shows "ws_ok (session_shaken True i V)"
proof -
  let ?n = "wv_next V" let ?V = "session_shaken True i V"
  have sh: "shaking (set_conn i (Live ?n) V) + 1 = shaking V" using shaking_update [OF assms(2), of "Live ?n"] assms(3) by simp
  then have n: "unat ?n < 2 ^ 64 - 1" using assms(1,4) by (simp add: ws_ok_def)
  then have n1: "unat (?n + 1) = unat ?n + 1" by (simp add: unat_word_ariths)
  have fresh: "?n \<notin> fst ` set (wv_sessions V)" using assms(1) by (auto simp: ws_ok_def)
  then have none: "map_of (wv_sessions V) ?n = None" by (simp add: map_of_eq_None_iff)
  have V: "wv_sessions ?V = wv_sessions V @ [(?n, i)]" "wv_next ?V = ?n + 1" "wv_all ?V = (wv_all V)[i := Live ?n]"
    by (simp_all add: session_shaken_def registerSession_def none Let_def) (simp add: set_conn_def)
  have "shaking ?V + 1 = shaking V" using sh by (simp add: shaking_def V(3)) (simp add: set_conn_def)
  moreover have "(n, j) \<in> set (wv_sessions ?V) \<longleftrightarrow> j < length (wv_all ?V) \<and> conn_id (wv_all ?V ! j) = Some n" for n j
  proof -
    have "(n, j) \<in> set (wv_sessions V) \<longleftrightarrow> j < length (wv_all V) \<and> conn_id (wv_all V ! j) = Some n" using assms(1) by (auto simp: ws_ok_def)
    then show ?thesis using assms(2,3) by (auto simp: V nth_list_update)
  qed
  moreover have "0 < m \<and> m < ?n + 1" if "m \<in> fst ` set (wv_sessions ?V)" for m
  proof -
    have "?n < ?n + 1" "0 < ?n" using n1 assms(1) by (simp_all add: word_less_nat_alt ws_ok_def)
    then show ?thesis using that assms(1) by (auto simp: V(1) ws_ok_def dest: less_trans)
  qed
  moreover have "distinct (map fst (wv_sessions ?V))" using assms(1) fresh by (simp add: V(1) ws_ok_def)
  moreover have "unat (wv_next ?V) + shaking ?V \<le> length (wv_all ?V) + 1" using assms(1) n1 calculation(1) by (simp add: V ws_ok_def)
  moreover have "0 < wv_next ?V" using n1 by (simp add: V(2) word_less_nat_alt)
  ultimately show ?thesis unfolding ws_ok_def by (simp add: V(2))
qed

lemma closed_ok:
  assumes "ws_ok V" "i < length (wv_all V)" "wv_all V ! i = Leaving n"
  shows "ws_ok (session_closed i n V)"
proof -
  have ni: "(n, i) \<in> set (wv_sessions V)" using assms by (auto simp: ws_ok_def)
  then have "n \<noteq> 0" using assms(1) by (force simp: ws_ok_def)
  then have V: "session_closed i n V = set_conn i Over (V \<lparr> wv_sessions := AList.delete n (wv_sessions V) \<rparr>)"
    by (simp add: session_closed_def unregisterSession_def)
  have tab: "(m, j) \<in> set (wv_sessions V) \<longleftrightarrow> j < length (wv_all V) \<and> conn_id (wv_all V ! j) = Some m" for m j
    using assms(1) by (auto simp: ws_ok_def)
  have d: "distinct (map fst (wv_sessions V))" using assms(1) by (simp add: ws_ok_def)
  have "m = n \<longleftrightarrow> j = i" if "(m, j) \<in> set (wv_sessions V)" for m j
    using that ni eq_key_imp_eq_value [OF d, of n i j] tab [of m j] assms(3) by auto
  then have t: "(m, j) \<in> set (AList.delete n (wv_sessions V)) \<longleftrightarrow> j < length (wv_all V) \<and> conn_id ((wv_all V)[i := Over] ! j) = Some m" for m j
    using tab [of m j] assms(2) by (cases "j = i") (auto simp: AList.delete_eq)
  let ?V = "session_closed i n V"
  have fr: "wv_sessions ?V = AList.delete n (wv_sessions V)" "wv_next ?V = wv_next V" "wv_all ?V = (wv_all V)[i := Over]"
    unfolding V by (simp_all add: set_conn_def)
  have sh: "shaking ?V = shaking V"
    using shaking_update [OF assms(2), of Over] assms(3) by (simp add: shaking_def fr) (simp add: set_conn_def)
  show ?thesis unfolding ws_ok_def fr sh
  proof (intro conjI allI ballI)
    show "distinct (map fst (AList.delete n (wv_sessions V)))" using d by (rule distinct_delete)
    show "unat (wv_next V) + shaking V \<le> length ((wv_all V)[i := Over]) + 1" "0 < wv_next V" using assms(1) by (simp_all add: ws_ok_def)
    show "((m, j) \<in> set (AList.delete n (wv_sessions V))) = (j < length ((wv_all V)[i := Over]) \<and> conn_id ((wv_all V)[i := Over] ! j) = Some m)" for m j
      using t [of m j] by simp
    show "0 < m" "m < wv_next V" if "m \<in> fst ` set (AList.delete n (wv_sessions V))" for m
      using that assms(1) by (auto simp: ws_ok_def AList.delete_eq)
  qed
qed

lemma session_close_ok: "ws_ok V \<Longrightarrow> i < length (wv_all V) \<Longrightarrow> ws_ok (session_close i V) \<and> length (wv_all (session_close i V)) = length (wv_all V)"
  by (cases "wv_all V ! i") (auto simp: session_close_def intro: set_conn_ok)

lemma close_list_ok:
  "ws_ok V \<Longrightarrow> \<forall>i \<in> set is. i < length (wv_all V) \<Longrightarrow>
     ws_ok (fold session_close is V) \<and> length (wv_all (fold session_close is V)) = length (wv_all V)"
  by (induction "is" arbitrary: V) (simp_all add: session_close_ok)

lemma closeAll_ok: "ws_ok V \<Longrightarrow> ws_ok (ws_closeAll V) \<and> length (wv_all (ws_closeAll V)) = length (wv_all V)"
  unfolding ws_closeAll_def by (rule close_list_ok) (auto simp: ws_ok_def)

lemma accept_ok: "ws_ok V \<Longrightarrow> ws_ok (ws_onAccept ok V)"
  by (auto simp: ws_onAccept_def ws_doAccept_def ws_ok_def shaking_def nth_append Let_def)

lemma session_close_length [simp]: "length (wv_all (session_close i V)) = length (wv_all V)"
  by (simp add: session_close_def split: ws_conn.split)

lemma close_list_length [simp]: "length (wv_all (fold session_close is V)) = length (wv_all V)"
  by (induction "is" arbitrary: V) simp_all

lemma ws_step_grows: "ws_step V V' \<Longrightarrow> length (wv_all V) \<le> length (wv_all V')"
  by (induction rule: ws_step.cases)
    (simp_all add: ws_run_def ws_stopAccept_def ws_doAccept_def ws_onAccept_def session_shaken_def registerSession_def
      session_closed_def unregisterSession_def ws_closeAll_def Let_def)

lemma ws_step_ok: "ws_step V V' \<Longrightarrow> ws_ok V \<Longrightarrow> length (wv_all V) + 1 < 2 ^ 64 \<Longrightarrow> ws_ok V'"
proof (induction rule: ws_step.cases)
  case (shaken i V ok)
  then show ?case using shaken_ok [of V i] set_conn_ok [of V i Over] by (cases ok) (simp_all add: session_shaken_def)
qed (auto simp: ws_run_def ws_stopAccept_def ws_doAccept_def closeAll_ok accept_ok closed_ok session_close_ok, auto simp: ws_ok_def shaking_def)

lemma session_close_live:
  "j < length (wv_all V) \<Longrightarrow> wv_all (session_close i V) ! j = Live n \<Longrightarrow> j \<noteq> i \<and> wv_all V ! j = Live n"
  by (cases "i = j") (auto simp: session_close_def set_conn_def split: ws_conn.splits)

lemma closes_live:
  "i < length (wv_all V) \<Longrightarrow> wv_all (fold session_close is V) ! i = Live n \<Longrightarrow> i \<notin> set is \<and> wv_all V ! i = Live n"
proof (induction "is" arbitrary: V)
  case (Cons k ks)
  have "i \<notin> set ks \<and> wv_all (session_close k V) ! i = Live n" using Cons.IH [of "session_close k V"] Cons.prems by simp
  then show ?case using Cons.prems(1) session_close_live [of i V k n] by simp
qed simp

lemma ws_run_ok: "ws_step\<^sup>*\<^sup>* WebSocketServer_new V \<Longrightarrow> length (wv_all V) + 1 < 2 ^ 64 \<Longrightarrow> ws_ok V"
proof (induction rule: rtranclp_induct)
  case base
  show ?case by (simp add: ws_ok_def WebSocketServer_new_def shaking_def)
next
  case (step V V')
  then have "length (wv_all V) + 1 < 2 ^ 64" using ws_step_grows [of V V'] by linarith
  then show ?case using step ws_step_ok by blast
qed

text \<open>C36. In every run of the server with fewer than \<open>2\<^sup>6\<^sup>4 - 1\<close> connections the table of sessions holds exactly the sessions that are open
  or still closing, each once and under its own identifier; so \<^verbatim>\<open>closeAll\<close> reaches every open session, and a session that has closed is
  in the table no more.\<close>

theorem ws_sessions_exact:
  assumes "ws_step\<^sup>*\<^sup>* WebSocketServer_new V" "length (wv_all V) + 1 < 2 ^ 64"
  shows "(\<forall>n i. map_of (wv_sessions V) n = Some i \<longleftrightarrow> i < length (wv_all V) \<and> conn_id (wv_all V ! i) = Some n) \<and>
    distinct (map fst (wv_sessions V)) \<and> distinct (map snd (wv_sessions V)) \<and>
    (\<forall>i n. i < length (wv_all V) \<longrightarrow> wv_all (ws_closeAll V) ! i \<noteq> Live n)"
proof -
  have ok: "ws_ok V" using ws_run_ok [OF assms] .
  have tab: "(n, i) \<in> set (wv_sessions V) \<longleftrightarrow> i < length (wv_all V) \<and> conn_id (wv_all V ! i) = Some n" for n i
    using ok by (auto simp: ws_ok_def)
  have d: "distinct (map fst (wv_sessions V))" using ok by (simp add: ws_ok_def)
  have "inj_on snd (set (wv_sessions V))" using tab by (force intro: inj_onI)
  then have "distinct (map snd (wv_sessions V))" using d by (simp add: distinct_map)
  moreover have "map_of (wv_sessions V) n = Some i \<longleftrightarrow> i < length (wv_all V) \<and> conn_id (wv_all V ! i) = Some n" for n i
    using tab [of n i] d by (metis map_of_SomeD map_of_is_SomeI)
  moreover have "wv_all (ws_closeAll V) ! i \<noteq> Live n" if "i < length (wv_all V)" for i n
  proof
    assume "wv_all (ws_closeAll V) ! i = Live n"
    then have "i \<notin> set (map snd (wv_sessions V))" "wv_all V ! i = Live n"
      using closes_live [OF that, of "map snd (wv_sessions V)" n] by (simp_all add: ws_closeAll_def)
    then show False using tab [of n i] that by force
  qed
  ultimately show ?thesis using d by blast
qed

section \<open>The limit counts only sessions after their handshake\<close>

lemma handshakes_complete:
  "ws_ok V \<Longrightarrow> length (wv_all V) + 1 < 2 ^ 64 \<Longrightarrow> \<exists>V'. ws_step\<^sup>*\<^sup>* V V' \<and> length (wv_sessions V') = length (wv_sessions V) + shaking V"
proof (induction "shaking V" arbitrary: V)
  case 0
  then show ?case by auto
next
  case (Suc k)
  then have "filter (\<lambda>c. c = Shaking) (wv_all V) \<noteq> []" by (auto simp: shaking_def)
  then obtain i where i: "i < length (wv_all V)" "wv_all V ! i = Shaking" by (auto simp: filter_empty_conv in_set_conv_nth)
  let ?V = "session_shaken True i V"
  have ok: "ws_ok ?V" using shaken_ok [OF Suc.prems(1) i Suc.prems(2)] .
  have none: "map_of (wv_sessions V) (wv_next V) = None" using Suc.prems(1) by (auto simp: ws_ok_def map_of_eq_None_iff)
  then have len: "length (wv_sessions ?V) = length (wv_sessions V) + 1" "length (wv_all ?V) = length (wv_all V)"
    by (simp_all add: session_shaken_def registerSession_def Let_def)
  have all: "wv_all ?V = wv_all (set_conn i (Live (wv_next V)) V)" by (simp add: session_shaken_def registerSession_def set_conn_def Let_def)
  have sh: "shaking ?V + 1 = shaking V" using shaking_update [OF i(1), of "Live (wv_next V)"] i(2) by (simp add: shaking_def all)
  obtain V' where "ws_step\<^sup>*\<^sup>* ?V V'" "length (wv_sessions V') = length (wv_sessions ?V) + shaking ?V"
    using Suc.hyps(1) [of ?V] Suc.hyps(2) sh ok Suc.prems(2) len(2) by auto
  then show ?case using converse_rtranclp_into_rtranclp [of ws_step V ?V V'] ws_step.shaken [OF i, of True] len(1) sh by auto
qed

definition ws_crowd :: "nat \<Rightarrow> WebSocketServer" where
  "ws_crowd n = \<lparr> wv_accepting = True, wv_waiting = 1, wv_sessions = [], wv_next = 1, wv_all = replicate n Shaking \<rparr>"

lemma crowd_reachable: "ws_step\<^sup>*\<^sup>* WebSocketServer_new (ws_crowd n)"
proof (induction n)
  case 0
  have "ws_run WebSocketServer_new = ws_crowd 0" by (simp add: ws_run_def ws_doAccept_def WebSocketServer_new_def ws_crowd_def)
  then show ?case using ws_step.run [of WebSocketServer_new] by auto
next
  case (Suc n)
  have "ws_onAccept True (ws_crowd n) = ws_crowd (Suc n)"
    by (simp add: ws_onAccept_def ws_doAccept_def ws_crowd_def MAX_WS_SESSIONS_def Let_def replicate_append_same)
  then show ?case using Suc ws_step.accept [of "ws_crowd n" True] by (simp add: ws_crowd_def)
qed

text \<open>Connections that are still shaking hands are not counted, so there may be any number of sessions.\<close>

lemma ws_cap_exceeded: "n + 1 < 2 ^ 64 \<Longrightarrow> \<exists>V. ws_step\<^sup>*\<^sup>* WebSocketServer_new V \<and> length (wv_sessions V) = n"
proof -
  assume n: "n + 1 < 2 ^ 64"
  then have "ws_ok (ws_crowd n)" using ws_run_ok [OF crowd_reachable] by (simp add: ws_crowd_def)
  then obtain V where v: "ws_step\<^sup>*\<^sup>* (ws_crowd n) V" "length (wv_sessions V) = n"
    using handshakes_complete [of "ws_crowd n"] n by (auto simp: ws_crowd_def shaking_def)
  then show ?thesis using rtranclp_trans [OF crowd_reachable v(1)] by blast
qed

theorem ws_sessions_exact_witness: "distinct (map snd (wv_sessions (ws_crowd 3)))"
  using ws_sessions_exact [OF crowd_reachable, of 3] by (simp add: ws_crowd_def)

end
