(* ===== verification/Ws_Bridge.thy ===== *)
theory Ws_Bridge
  imports Client_Session
begin

text \<open>
  The bridge between WebSocket connections and the engine (\<^verbatim>\<open>ws/WsBridge.cpp\<close>) with its terminal node
  (\<^verbatim>\<open>ws/WSResponder.cpp\<close>): a table of connections with their send functions, the subscriptions of each connection and the
  nodes kept alive for them. A send function is a number; \<open>br_out\<close> are the frames handed to send functions by the bridge itself,
  the updates of the terminal nodes are in the engine's \<^const>\<open>en_sent\<close>. An exception of a send function is caught and changes
  nothing. An operation returns \<^const>\<open>None\<close> when a shutdown does not end. Log lines are left out.
\<close>

section \<open>The terminal node\<close>

record WSResponder =
  wr_reqId :: string
  wr_stopped :: bool
  wr_send :: "nat option"

definition ws_update_frame :: "string \<Rightarrow> StreamValue \<Rightarrow> json" where
  "ws_update_frame reqId sv = JObject [(''type'', JString ''update''), (''id'', JString (c_str reqId)),
     (''streamKey'', JString (c_str (sv_symbol sv))), (''value'', writeArgTypeJson (sv_value sv))]"

definition WSResponder_onValue :: "StreamValue \<Rightarrow> WSResponder \<Rightarrow> (nat \<times> json) list" where
  "WSResponder_onValue sv n =
     (if wr_stopped n then [] else case wr_send n of None \<Rightarrow> [] | Some f \<Rightarrow> [(f, ws_update_frame (wr_reqId n) sv)])"

definition WSResponder_shutdown :: "WSResponder \<Rightarrow> WSResponder" where
  "WSResponder_shutdown n = n \<lparr> wr_stopped := True, wr_send := None \<rparr>"

text \<open>In the graph the terminal node is a \<^typ>\<open>Responder\<close> with the identifier as its key: it has the same state and takes the same steps.\<close>

definition as_responder :: "WSResponder \<Rightarrow> Responder" where
  "as_responder n = \<lparr> rs_key = RKStr (wr_reqId n), rs_send = wr_send n, rs_stopped = wr_stopped n \<rparr>"

fun ws_sent_frame :: "nat \<times> RequestKey \<times> StreamValue \<Rightarrow> nat \<times> json" where
  "ws_sent_frame (f, RKStr reqId, sv) = (f, ws_update_frame reqId sv)"
| "ws_sent_frame (f, RKInt n, sv) = (f, update_frame (RKInt n) sv)"

lemma as_responder_steps:
  "map ws_sent_frame (Responder_onValue sv (as_responder n)) = WSResponder_onValue sv n"
  "Responder_shutdown (as_responder n) = as_responder (WSResponder_shutdown n)"
  by (simp_all add: Responder_onValue_def WSResponder_onValue_def Responder_shutdown_def WSResponder_shutdown_def as_responder_def
      split: option.split)

section \<open>State\<close>

record WsBridge =
  br_store :: bool
  br_pool :: bool
  br_dispatcher :: bool
  br_connections :: "(string, nat option) umap"
  br_active :: "(string, (string, addr) umap) umap"
  br_chains :: "(string, (string, addr list) umap) umap"
  br_out :: "(nat \<times> json) list"

type_synonym bridge_state = "WsBridge \<times> Engine"

definition MAX_SUBS_PER_CONN :: nat where
  "MAX_SUBS_PER_CONN = 100"

definition WsBridge_new :: "bool \<Rightarrow> bool \<Rightarrow> bool \<Rightarrow> WsBridge" where
  "WsBridge_new dispatcher store pool = \<lparr> br_store = store, br_pool = pool, br_dispatcher = dispatcher,
     br_connections = [], br_active = [], br_chains = [], br_out = [] \<rparr>"

definition bridge_onOpen :: "string \<Rightarrow> nat option \<Rightarrow> WsBridge \<Rightarrow> WsBridge" where
  "bridge_onOpen connId send B = B \<lparr> br_connections := AList.update connId send (br_connections B) \<rparr>"

definition send_function :: "string \<Rightarrow> WsBridge \<Rightarrow> nat option" where
  "send_function connId B = (case map_of (br_connections B) connId of None \<Rightarrow> None | Some send \<Rightarrow> send)"

definition sendTo :: "string \<Rightarrow> json \<Rightarrow> WsBridge \<Rightarrow> WsBridge" where
  "sendTo connId msg B = (case send_function connId B of
       None \<Rightarrow> B
     | Some f \<Rightarrow> B \<lparr> br_out := br_out B @ [(f, msg)] \<rparr>)"

definition bridge_error :: "string \<Rightarrow> json" where
  "bridge_error message = JObject [(''type'', JString ''error''), (''message'', JString (c_str message))]"

definition bridge_ack :: "string \<Rightarrow> string \<Rightarrow> json" where
  "bridge_ack ty reqId = JObject [(''type'', JString ty), (''id'', JString (c_str reqId))]"

section \<open>Subscribe\<close>

text \<open>An identifier is a string or an \<^verbatim>\<open>int\<close>, written as text.\<close>

definition bridge_id :: "json \<Rightarrow> string option" where
  "bridge_id v = (case GetString v of Some s \<Rightarrow> Some s | None \<Rightarrow> map_option to_string (GetInt v))"

definition bridge_head :: "json \<Rightarrow> string + (string \<times> string \<times> string)" where
  "bridge_head r =
     (case (case member ''id'' r of None \<Rightarrow> None | Some v \<Rightarrow> bridge_id v) of
        None \<Rightarrow> Inl (''request missing '' @ quoted ''id'')
      | Some reqId \<Rightarrow>
          (case (case member ''streamKey'' r of None \<Rightarrow> None | Some v \<Rightarrow> GetString v, case member ''field'' r of None \<Rightarrow> None | Some v \<Rightarrow> GetString v) of
             (Some streamKey, Some field) \<Rightarrow>
               if streamKey = [] \<or> length streamKey > MAX_STREAM_KEY_LEN then Inl (''invalid '' @ quoted ''streamKey'' @ '' (empty or too long)'')
               else if field = [] \<or> length field > MAX_FIELD_LEN then Inl (''invalid '' @ quoted ''field'' @ '' (empty or too long)'')
               else Inr (reqId, streamKey, field)
           | _ \<Rightarrow> Inl (''request missing '' @ quoted ''streamKey'' @ '' or '' @ quoted ''field'')))"

definition over_limit :: "string \<Rightarrow> string \<Rightarrow> WsBridge \<Rightarrow> bool" where
  "over_limit connId reqId B = (case map_of (br_active B) connId of
       None \<Rightarrow> False
     | Some sm \<Rightarrow> map_of sm reqId = None \<and> length sm \<ge> MAX_SUBS_PER_CONN)"

definition head_of :: "string \<Rightarrow> string \<Rightarrow> WsBridge \<Rightarrow> addr list" where
  "head_of connId reqId B = (case map_of (at_key connId (br_active B)) reqId of None \<Rightarrow> [] | Some head \<Rightarrow> [head])"

definition chain_of :: "string \<Rightarrow> string \<Rightarrow> WsBridge \<Rightarrow> addr list" where
  "chain_of connId reqId B = at_key reqId (at_key connId (br_chains B))"

text \<open>The new nodes replace those of a subscription with the same identifier, which are shut down and given up.\<close>

definition bridge_install :: "string \<Rightarrow> string \<Rightarrow> BuiltChain \<Rightarrow> bridge_state \<Rightarrow> bridge_state option" where
  "bridge_install connId reqId built S = (case S of (B, E) \<Rightarrow>
     map_option (\<lambda>E1. (B \<lparr> br_active := AList.update connId (AList.update reqId (bc_head built) (at_key connId (br_active B))) (br_active B),
                        br_chains := AList.update connId (AList.update reqId (bc_keepAlive built) (at_key connId (br_chains B))) (br_chains B) \<rparr>,
                    release (head_of connId reqId B @ chain_of connId reqId B) E1))
       (shutdown_each (head_of connId reqId B @ chain_of connId reqId B) E))"

definition bridge_deps :: "WsBridge \<Rightarrow> Engine \<Rightarrow> Deps" where
  "bridge_deps B E = \<lparr> dp_store = br_store B, dp_pool = (br_pool B \<or> en_globalPool E), dp_dispatcher = br_dispatcher B \<rparr>"

text \<open>The terminal node is the first object the subscription makes; it is shut down when building fails.\<close>

definition bridge_build :: "string \<Rightarrow> string \<Rightarrow> json \<Rightarrow> nat \<Rightarrow> bridge_state \<Rightarrow> bridge_state option" where
  "bridge_build connId reqId rq connSend S = (case S of (B, E) \<Rightarrow>
     (case subscribe connSend (RKStr reqId) rq (bridge_deps B E) E of
        (Inl message, E1) \<Rightarrow> map_option (\<lambda>E2. (sendTo connId (bridge_error message) B, E2)) (shutdown (length (en_nodes E)) E1)
      | (Inr built, E1) \<Rightarrow> map_option (\<lambda>(B2, E2). (sendTo connId (bridge_ack ''subscribed'' reqId) B2, E2)) (bridge_install connId reqId built (B, E1))))"

definition bridge_request :: "string \<Rightarrow> json \<Rightarrow> bridge_state \<Rightarrow> bridge_state option" where
  "bridge_request connId r S = (case S of (B, E) \<Rightarrow>
     if \<not> IsObject r then Some (B, E)
     else case bridge_head r of
         Inl message \<Rightarrow> Some (sendTo connId (bridge_error message) B, E)
       | Inr (reqId, streamKey, field) \<Rightarrow>
           if over_limit connId reqId B then Some (sendTo connId (bridge_error ''max subscriptions reached'') B, E)
           else case send_function connId B of
               None \<Rightarrow> Some (B, E)
             | Some connSend \<Rightarrow> (case validateSpec r of
                   Some e \<Rightarrow> Some (sendTo connId (bridge_error (verr_what e)) B, E)
                 | None \<Rightarrow> bridge_build connId reqId (request_spec streamKey field r) connSend (B, E)))"

fun bridge_requests :: "string \<Rightarrow> json list \<Rightarrow> bridge_state \<Rightarrow> bridge_state option" where
  "bridge_requests connId [] S = Some S"
| "bridge_requests connId (r # rs) S = (case bridge_request connId r S of None \<Rightarrow> None | Some S1 \<Rightarrow> bridge_requests connId rs S1)"

definition bridge_subscribe :: "string \<Rightarrow> json \<Rightarrow> bridge_state \<Rightarrow> bridge_state option" where
  "bridge_subscribe connId doc S = (case member ''requests'' doc of
       Some (JArray rs) \<Rightarrow> bridge_requests connId rs S
     | _ \<Rightarrow> Some (sendTo connId (bridge_error (''missing '' @ quoted ''requests'' @ '' array'')) (fst S), snd S))"

section \<open>Cancel\<close>

text \<open>A connection without chains loses its entry in \<^verbatim>\<open>chains_\<close>, its entry in \<^verbatim>\<open>active_\<close> stays.\<close>

definition without :: "string \<Rightarrow> string \<Rightarrow> WsBridge \<Rightarrow> WsBridge" where
  "without connId reqId B = B \<lparr>
     br_active := (case map_of (br_active B) connId of
         None \<Rightarrow> br_active B
       | Some sm \<Rightarrow> AList.update connId (AList.delete reqId sm) (br_active B)),
     br_chains := (case map_of (br_chains B) connId of
         None \<Rightarrow> br_chains B
       | Some cm \<Rightarrow> (if AList.delete reqId cm = [] then AList.delete connId (br_chains B)
                          else AList.update connId (AList.delete reqId cm) (br_chains B))) \<rparr>"

definition bridge_cancel_one :: "string \<Rightarrow> json \<Rightarrow> bridge_state \<Rightarrow> bridge_state option" where
  "bridge_cancel_one connId v S = (case S of (B, E) \<Rightarrow> (case bridge_id v of
       None \<Rightarrow> Some (B, E)
     | Some reqId \<Rightarrow>
         (let nodes = head_of connId reqId B @ chain_of connId reqId B
          in map_option (\<lambda>E1. (sendTo connId (bridge_ack ''canceled'' reqId) (without connId reqId B), release nodes E1))
               (shutdown_each nodes E))))"

fun bridge_cancel_all :: "string \<Rightarrow> json list \<Rightarrow> bridge_state \<Rightarrow> bridge_state option" where
  "bridge_cancel_all connId [] S = Some S"
| "bridge_cancel_all connId (v # vs) S = (case bridge_cancel_one connId v S of None \<Rightarrow> None | Some S1 \<Rightarrow> bridge_cancel_all connId vs S1)"

definition bridge_cancel :: "string \<Rightarrow> json \<Rightarrow> bridge_state \<Rightarrow> bridge_state option" where
  "bridge_cancel connId doc S = (case member ''ids'' doc of
       Some (JArray vs) \<Rightarrow> bridge_cancel_all connId vs S
     | _ \<Rightarrow> Some (sendTo connId (bridge_error (''missing '' @ quoted ''ids'' @ '' array'')) (fst S), snd S))"

section \<open>Messages and close\<close>

definition bridge_onMessage :: "(string \<Rightarrow> json option) \<Rightarrow> string \<Rightarrow> string \<Rightarrow> bridge_state \<Rightarrow> bridge_state option" where
  "bridge_onMessage parse connId text S =
     (let answer = (\<lambda>message. Some (sendTo connId (bridge_error message) (fst S), snd S))
      in case parse (c_str text) of
          None \<Rightarrow> answer ''invalid JSON''
        | Some doc \<Rightarrow>
            if \<not> IsObject doc then answer ''invalid JSON''
            else (case (case member ''type'' doc of None \<Rightarrow> None | Some v \<Rightarrow> GetString v) of
                None \<Rightarrow> answer (''missing '' @ quoted ''type'')
              | Some ty \<Rightarrow> if ty = ''subscribe'' then bridge_subscribe connId doc S
                            else if ty = ''cancel'' then bridge_cancel connId doc S
                            else answer ''unknown type''))"

text \<open>The heads of all subscriptions are shut down first, then the nodes of their chains.\<close>

definition bridge_nodes :: "string \<Rightarrow> WsBridge \<Rightarrow> addr list" where
  "bridge_nodes connId B = map snd (at_key connId (br_active B)) @ concat (map snd (at_key connId (br_chains B)))"

definition bridge_onClose :: "string \<Rightarrow> bridge_state \<Rightarrow> bridge_state option" where
  "bridge_onClose connId S = (case S of (B, E) \<Rightarrow>
     map_option (\<lambda>E1. (B \<lparr> br_connections := AList.delete connId (br_connections B), br_active := AList.delete connId (br_active B),
                        br_chains := AList.delete connId (br_chains B) \<rparr>, release (bridge_nodes connId B) E1))
       (shutdown_each (bridge_nodes connId B) E))"

end
