(* ===== verification/Ws_Bridge_Thms.thy ===== *)
theory Ws_Bridge_Thms
  imports Ws_Bridge Client_Session_Runs
begin

text \<open>
  What the bridge promises to its connections. A responder that is not stopped is a sender: the engine sends an update only from a
  sender. Tasks, timers and shutdowns make no senders, a subscription makes one. In every run the senders are the terminal nodes of
  the subscriptions that are active, so nothing is sent for a subscription that was cancelled, replaced or whose connection is closed.
\<close>

section \<open>Senders\<close>

definition senders :: "Engine \<Rightarrow> (addr \<times> nat \<times> RequestKey) set" where
  "senders E = {(t, s, k). \<exists>n. node_at E t = Some (NResponder n) \<and> \<not> rs_stopped n \<and> rs_send n = Some s \<and> rs_key n = k}"

lemma senders_put:
  "(\<And>m. n = NResponder m \<Longrightarrow> rs_stopped m \<or> node_at E a = Some (NResponder m)) \<Longrightarrow> senders (put_node a n E) \<subseteq> senders E"
  by (auto simp: senders_def node_at_put split: if_splits)

lemma senders_put_other [simp]: "\<not> is_responder n \<Longrightarrow> senders (put_node a n E) \<subseteq> senders E"
  by (rule senders_put) auto

lemma senders_outside: "en_nodes E' = en_nodes E \<Longrightarrow> senders E' = senders E"
  by (simp add: senders_def node_at_def cong: if_cong)

lemma senders_grows: "grows E E' \<Longrightarrow> senders E' = senders E"
proof -
  assume g: "grows E E'"
  then obtain ns where ns: "en_nodes E' = en_nodes E @ ns" "\<forall>n \<in> set ns. \<not> is_responder n" by (auto simp: grows_def)
  have "node_at E' t = Some (NResponder n) \<longleftrightarrow> node_at E t = Some (NResponder n)" for t n
    using ns by (auto simp: node_at_def nth_append dest: nth_mem)
      (metis add_diff_inverse_nat is_responder.simps(1) nat_add_left_cancel_less nth_mem)+
  then show ?thesis by (simp add: senders_def)
qed

text \<open>A step sends only from senders and makes none.\<close>

definition quiet :: "Engine \<Rightarrow> Engine \<Rightarrow> bool" where
  "quiet E E' \<longleftrightarrow> senders E' \<subseteq> senders E \<and>
     (\<exists>zs. en_sent E' = en_sent E @ zs \<and> (\<forall>(s, k, sv) \<in> set zs. \<exists>t. (t, s, k) \<in> senders E))"

lemma quiet_refl [simp]: "quiet E E"
  by (simp add: quiet_def)

lemma quiet_trans:
  assumes "quiet E1 E2" "quiet E2 E3"
  shows "quiet E1 E3"
proof -
  obtain ys zs where "en_sent E2 = en_sent E1 @ ys" "\<forall>(s, k, sv) \<in> set ys. \<exists>t. (t, s, k) \<in> senders E1"
    "en_sent E3 = en_sent E2 @ zs" "\<forall>(s, k, sv) \<in> set zs. \<exists>t. (t, s, k) \<in> senders E2"
    using assms by (auto simp: quiet_def)
  then show ?thesis using assms unfolding quiet_def by (intro conjI exI [of _ "ys @ zs"]) (auto, blast)
qed

lemma quiet_same: "en_sent E' = en_sent E \<Longrightarrow> senders E' \<subseteq> senders E \<Longrightarrow> quiet E E'"
  by (simp add: quiet_def)

lemma sent_put [simp]: "en_sent (put_node a n E) = en_sent E"
  by (simp add: put_node_def)

lemma quiet_put: "\<not> is_responder n \<Longrightarrow> quiet E (put_node a n E)"
  by (rule quiet_same) simp_all

lemma quiet_outside: "en_sent E' = en_sent E \<Longrightarrow> en_nodes E' = en_nodes E \<Longrightarrow> quiet E E'"
  by (rule quiet_same) (simp_all add: senders_outside [of E' E])

lemma quiet_post_all [simp]: "quiet E (post_all cs E)"
  unfolding post_all_def
proof (induction cs arbitrary: E)
  case (Cons c cs)
  have "quiet E (post c E)" by (rule quiet_outside) (simp_all add: post_def)
  then show ?case using Cons [of "post c E"] by (auto intro: quiet_trans)
qed simp

lemma quiet_grows: "grows E E' \<Longrightarrow> quiet E E'"
  using senders_grows by (intro quiet_same) (auto simp: grows_def)

lemma call_node_quiet: "quiet E (snd (call_node pins (a, sv) E))"
proof (cases "node_at E a")
  case None
  then show ?thesis by (simp add: call_node_def)
next
  case (Some n)
  show ?thesis
  proof (cases n)
    case (NGroupSplit g)
    let ?key = "if sv_symbol sv = [] then gs_defaultStreamKey g else sv_symbol sv"
    obtain r E1 where b: "buildOne (gs_child g) ?key (gs_deps g) (gs_downstream g) E = (r, E1)"
      by (cases "buildOne (gs_child g) ?key (gs_deps g) (gs_downstream g) E")
    then have g: "quiet E E1"
      using buildOne_grown [of E "gs_child g" ?key "gs_deps g" "gs_downstream g"] by (auto simp: grown_def intro: quiet_grows)
    then have "quiet E (put_node a (NGroupSplit g') E1)" for g' by (rule quiet_trans) (simp add: quiet_put)
    then show ?thesis using Some NGroupSplit b g
      by (auto simp: call_node_def GroupSplit_onValue_def Let_def simp del: if_split split: option.split sum.split)
  next
    case (NResponder m)
    have "\<forall>(s, k, sv) \<in> set (Responder_onValue sv m). \<exists>t. (t, s, k) \<in> senders E"
      using Some NResponder by (auto simp: Responder_onValue_def senders_def split: option.splits)
    moreover have "senders (E \<lparr> en_sent := zs \<rparr>) = senders E" for zs by (rule senders_outside) simp
    ultimately show ?thesis using Some NResponder by (auto simp: call_node_def quiet_def)
  qed (use Some in \<open>auto simp: call_node_def intro!: quiet_put quiet_outside split: prod.split\<close>)
qed

lemma run_task_quiet: "run_task E = Some E' \<Longrightarrow> quiet E E'"
proof (cases "en_tasks E")
  case (Cons c cs)
  assume "run_task E = Some E'"
  then obtain e where d: "drain (call_node [fst c]) [c] (E \<lparr> en_tasks := cs \<rparr>) = Some (e, E')"
    using Cons by (auto simp: run_task_def deliver_def)
  have step: "quiet E E2" if "quiet E E1" "call_node [fst c] d E1 = (r, E2)" for d E1 r E2
    using that call_node_quiet [of E1 "[fst c]" "fst d" "snd d"] by (auto intro: quiet_trans)
  have start: "quiet E (E \<lparr> en_tasks := cs \<rparr>)" by (rule quiet_outside) simp_all
  have "quiet E (snd (e, E'))" by (rule drain_keeps [where P = "quiet E", OF d step start])
  then show ?thesis by simp
qed (simp add: run_task_def)

lemma timer_turn_quiet: "quiet E (timer_turn a E)"
proof -
  have leave: "quiet E (leave_loop a E)" by (rule quiet_outside) (simp_all add: leave_loop_def)
  have put: "quiet E (post_all cs (put_node a (NTumblingWindow t) E))" for cs t
    by (rule quiet_trans [OF quiet_put quiet_post_all]) simp
  show ?thesis by (auto simp: timer_turn_def leave put split: option.split inode.split prod.split)
qed

lemma activity_quiet: "engine_activity E E' \<Longrightarrow> quiet E E'"
proof (induction rule: engine_activity.induct)
  case (handed a E sv)
  show ?case by (rule quiet_outside) (simp_all add: post_def)
qed (simp_all add: run_task_quiet timer_turn_quiet quiet_outside)

section \<open>Shutdown\<close>

lemma shutdown_node_senders: "senders (snd (shutdown_node a E)) \<subseteq> senders E"
proof -
  have "senders (put_node a n (unregisterListener s f a E)) \<subseteq> senders E" if "\<not> is_responder n" for n s f
    using senders_put_other [OF that, of a "unregisterListener s f a E"] senders_outside [of "unregisterListener s f a E" E] by simp
  moreover have "senders (leave_loop a (put_node a n E)) \<subseteq> senders E" if "\<not> is_responder n" for n
    using senders_put_other [OF that, of a E] senders_outside [of "leave_loop a (put_node a n E)" "put_node a n E"]
    by (simp add: leave_loop_def)
  moreover have "senders (put_node a (NResponder (Responder_shutdown n)) E) \<subseteq> senders E" for n
    by (rule senders_put) (simp add: Responder_shutdown_def)
  ultimately show ?thesis
    by (simp add: shutdown_node_def Let_def split: option.split inode.split)
qed

lemma shutdown_senders:
  assumes "shutdown a E = Some E'"
  shows "senders E' \<subseteq> senders E - {a} \<times> UNIV"
proof -
  obtain e where d: "drain shutdown_node [a] E = Some (e, E')" using assms by (auto simp: shutdown_def)
  have step: "senders E2 \<subseteq> senders E" if "senders E1 \<subseteq> senders E" "shutdown_node c E1 = (r, E2)" for c E1 r E2
    using that shutdown_node_senders [of c E1] by auto
  have "senders (snd (e, E')) \<subseteq> senders E" by (rule drain_keeps [where P = "\<lambda>E'. senders E' \<subseteq> senders E", OF d step order_refl])
  moreover have "(a, s, k) \<notin> senders E'" for s k
  proof (cases "\<exists>n. node_at E a = Some (NResponder n)")
    case True
    then have "\<exists>n. E' = put_node a (NResponder (Responder_shutdown n)) E" "a < length (en_nodes E)"
      using d by (auto simp: drain_Cons shutdown_node_def node_at_def split: if_splits)
    then show ?thesis by (auto simp: senders_def node_at_put Responder_shutdown_def)
  next
    case False
    then have "(a, s, k) \<notin> senders E" by (auto simp: senders_def)
    then show ?thesis using calculation by auto
  qed
  ultimately show ?thesis by auto
qed

lemma shutdown_each_ends:
  assumes "graph_ok E" "\<forall>a \<in> set as. a < length (en_nodes E)"
  shows "\<exists>E'. shutdown_each as E = Some E' \<and> graph_ok E' \<and> length (en_nodes E) \<le> length (en_nodes E') \<and>
    senders E' \<subseteq> senders E - set as \<times> UNIV"
  using assms
proof (induction as arbitrary: E)
  case (Cons a as)
  obtain E1 where E1: "shutdown a E = Some E1" "graph_ok E1" "length (en_nodes E) \<le> length (en_nodes E1)"
    using shutdown_ends [of E a] Cons.prems by auto
  moreover obtain E2 where "shutdown_each as E1 = Some E2" "graph_ok E2" "length (en_nodes E1) \<le> length (en_nodes E2)"
    "senders E2 \<subseteq> senders E1 - set as \<times> UNIV"
    using Cons.IH [of E1] Cons.prems(2) E1(2,3) by fastforce
  ultimately show ?case using shutdown_senders [OF E1(1)] by (intro exI [of _ E2]) auto
qed simp

section \<open>Subscriptions\<close>

lemma buildNodePart_terminal: "buildNodePart rq key deps t E = (Inr (mid, keep), E1) \<Longrightarrow> t \<in> set keep"
  by (auto simp: buildNodePart_def split: option.splits json.splits sum.splits prod.splits)

lemma buildPipe_terminal: "buildPipe xs key deps t keep E = (Inr (mid, keep'), E1) \<Longrightarrow> t \<in> set keep \<Longrightarrow> t \<in> set keep'"
  by (auto simp: buildPipe_def split: sum.splits prod.splits)

lemma buildMiddle_terminal:
  assumes "buildMiddle rq key deps t E = (Inr (mid, keep), E1)"
  shows "t \<in> set keep"
proof -
  obtain mid1 keep1 E2 where part: "buildNodePart rq key deps t E = (Inr (mid1, keep1), E2)"
    using assms by (auto simp: buildMiddle_def split: sum.splits prod.splits)
  have "(\<exists>xs. buildPipe xs key deps t keep1 E2 = (Inr (mid, keep), E1)) \<or> keep = keep1"
    using assms unfolding buildMiddle_def part by (auto split: option.splits json.splits)
  then show ?thesis using buildNodePart_terminal [OF part] buildPipe_terminal by blast
qed

lemma buildForRequest_terminal: "buildForRequest rq deps (Some t) E = (Inr bc, E1) \<Longrightarrow> t \<in> set (bc_keepAlive bc)"
  by (auto simp: buildForRequest_def dest: buildMiddle_terminal split: if_splits option.splits sum.splits prod.splits)

lemma held_bounded: "graph_ok E \<Longrightarrow> a \<in> set (en_held E) \<Longrightarrow> a < length (en_nodes E)"
  by (auto simp: graph_ok_def ranked_def refs_ok_def engine_roots_def)

text \<open>A subscription makes one sender, the terminal node, which is among the nodes kept alive.\<close>

lemma subscribe_sender:
  assumes ok: "graph_ok E" and sub: "subscribe s key rq deps E = (r, E')"
  shows "senders E' \<subseteq> insert (length (en_nodes E), s, key) (senders E)" and "length (en_nodes E) < length (en_nodes E')"
    and "r = Inr bc \<Longrightarrow> length (en_nodes E) \<in> set (bc_keepAlive bc)"
    and "r = Inr bc \<Longrightarrow> a = bc_head bc \<or> a \<in> set (bc_keepAlive bc) \<Longrightarrow> a < length (en_nodes E')"
proof -
  let ?n = "NResponder \<lparr> rs_key = key, rs_send = Some s, rs_stopped = False \<rparr>"
  let ?t = "length (en_nodes E)" and ?E1 = "E \<lparr> en_nodes := en_nodes E @ [?n] \<rparr>"
  obtain r1 E2 where b: "buildForRequest rq deps (Some ?t) ?E1 = (r1, E2)" by (cases "buildForRequest rq deps (Some ?t) ?E1")
  have res: "(r, E') = (case r1 of Inl e \<Rightarrow> (Inl e, E2) | Inr bc \<Rightarrow> (Inr bc, E2 \<lparr> en_held := bc_head bc # bc_keepAlive bc @ en_held E2 \<rparr>))"
    using sub b by (simp add: subscribe_def alloc_def split: sum.splits)
  then have nodes: "en_nodes E' = en_nodes E2" by (auto split: sum.splits)
  have "senders ?E1 \<subseteq> insert (?t, s, key) (senders E)"
    by (auto simp: senders_def node_at_def nth_append less_Suc_eq split: if_splits)
  moreover have g: "grows ?E1 E2" by (rule buildForRequest_grown [OF b])
  then have "senders E' = senders ?E1" using senders_outside [OF nodes] senders_grows by simp
  ultimately show "senders E' \<subseteq> insert (?t, s, key) (senders E)" by simp
  show "?t < length (en_nodes E')" using grows_length [OF g] nodes by simp
  show "?t \<in> set (bc_keepAlive bc)" if "r = Inr bc"
    using that res b buildForRequest_terminal by (auto split: sum.splits)
  show "a < length (en_nodes E')" if "r = Inr bc" "a = bc_head bc \<or> a \<in> set (bc_keepAlive bc)"
  proof (rule held_bounded)
    show "graph_ok E'" by (rule subscribe_built(1) [OF ok sub])
    show "a \<in> set (en_held E')" using that res by (auto split: sum.splits)
  qed
qed

section \<open>The tables of the bridge\<close>

lemma at_key_delete: "at_key k (AList.delete k' m) = (if k = k' then [] else at_key k m)"
  by (simp add: at_key_def delete_conv')

lemma set_update_sub: "set (AList.update k v m) \<subseteq> insert (k, v) (set m)"
  by (induction m) auto

lemma without_at:
  "at_key c' (br_active (without c i B)) = (if c' = c then AList.delete i (at_key c (br_active B)) else at_key c' (br_active B))"
  "at_key c' (br_chains (without c i B)) = (if c' = c then AList.delete i (at_key c (br_chains B)) else at_key c' (br_chains B))"
  by (auto simp: without_def at_key_def update_conv' delete_conv' split: option.split)

lemma sendTo_frame [simp]:
  "br_active (sendTo c f B) = br_active B" "br_chains (sendTo c f B) = br_chains B" "br_connections (sendTo c f B) = br_connections B"
  by (simp_all add: sendTo_def split: option.split)

lemma chain_in_nodes: "set (head_of c i B) \<subseteq> set (bridge_nodes c B)" "set (chain_of c i B) \<subseteq> set (bridge_nodes c B)"
proof -
  have in_map: "map_of m i = Some v \<Longrightarrow> v \<in> snd ` set m" for m :: "(string, 'v) umap" and v by (metis image_eqI map_of_SomeD snd_conv)
  show "set (head_of c i B) \<subseteq> set (bridge_nodes c B)"
    by (auto simp: head_of_def bridge_nodes_def dest: in_map [OF sym] split: option.split)
  show "set (chain_of c i B) \<subseteq> set (bridge_nodes c B)"
    by (fastforce simp: chain_of_def bridge_nodes_def at_key_def [of i] dest: in_map [OF sym] split: option.split)
qed

lemma over_limit_eq: "over_limit c i B \<longleftrightarrow> map_of (at_key c (br_active B)) i = None \<and> length (at_key c (br_active B)) \<ge> MAX_SUBS_PER_CONN"
  by (simp add: over_limit_def at_key_def MAX_SUBS_PER_CONN_def split: option.split)

definition bridge_ok :: "bridge_state \<Rightarrow> bool" where
  "bridge_ok S \<longleftrightarrow> (case S of (B, E) \<Rightarrow> graph_ok E \<and>
     (\<forall>c. length (at_key c (br_active B)) \<le> MAX_SUBS_PER_CONN) \<and>
     (\<forall>c. \<forall>a \<in> set (bridge_nodes c B). a < length (en_nodes E)) \<and>
     (\<forall>c i. chain_of c i B \<noteq> [] \<longrightarrow> head_of c i B \<noteq> []) \<and>
     (\<forall>(t, s, k) \<in> senders E. \<exists>c i. k = RKStr i \<and> send_function c B = Some s \<and> t \<in> set (chain_of c i B)))"

lemma bridge_okI:
  assumes "graph_ok E" "\<And>c. length (at_key c (br_active B)) \<le> MAX_SUBS_PER_CONN"
    "\<And>c a. a \<in> set (bridge_nodes c B) \<Longrightarrow> a < length (en_nodes E)"
    "\<And>c i. chain_of c i B \<noteq> [] \<Longrightarrow> head_of c i B \<noteq> []"
    "\<And>t s k. (t, s, k) \<in> senders E \<Longrightarrow> \<exists>c i. k = RKStr i \<and> send_function c B = Some s \<and> t \<in> set (chain_of c i B)"
  shows "bridge_ok (B, E)"
  using assms by (auto simp: bridge_ok_def)

lemma bridge_okD:
  assumes "bridge_ok (B, E)"
  shows "graph_ok E" "length (at_key c (br_active B)) \<le> MAX_SUBS_PER_CONN"
    "a \<in> set (bridge_nodes c B) \<Longrightarrow> a < length (en_nodes E)"
    "chain_of c i B \<noteq> [] \<Longrightarrow> head_of c i B \<noteq> []"
    "(t, s, k) \<in> senders E \<Longrightarrow> \<exists>c i. k = RKStr i \<and> send_function c B = Some s \<and> t \<in> set (chain_of c i B)"
  using assms by (auto simp: bridge_ok_def)

lemma bridge_ok_mono:
  assumes "bridge_ok (B, E)" "graph_ok E'" "length (en_nodes E) \<le> length (en_nodes E')" "senders E' \<subseteq> senders E"
  shows "bridge_ok (B, E')"
proof (rule bridge_okI)
  note okD = bridge_okD [OF assms(1)]
  show "graph_ok E'" by (rule assms(2))
  show "length (at_key c (br_active B)) \<le> MAX_SUBS_PER_CONN" for c by (rule okD(2))
  show "a < length (en_nodes E')" if "a \<in> set (bridge_nodes c B)" for c a using okD(3) [OF that] assms(3) by simp
  show "head_of c i B \<noteq> []" if "chain_of c i B \<noteq> []" for c i using that by (rule okD(4))
  show "\<exists>c i. k = RKStr i \<and> send_function c B = Some s \<and> t \<in> set (chain_of c i B)" if "(t, s, k) \<in> senders E'" for t s k
    using that assms(4) by (intro okD(5)) blast
qed

lemma bridge_ok_sendTo [simp]: "bridge_ok (sendTo c f B, E) = bridge_ok (B, E)"
  by (simp add: bridge_ok_def bridge_nodes_def chain_of_def head_of_def send_function_def)

lemma release_frame [simp]: "en_nodes (release as E) = en_nodes E" "senders (release as E) = senders E"
  using senders_outside [of "release as E" E] by (simp_all add: release_def)

section \<open>Handlers\<close>

lemma install_bridge_ok:
  assumes ok: "bridge_ok (B, E)" and send: "send_function c B = Some s" and room: "\<not> over_limit c i B"
    and sub: "subscribe s (RKStr i) rq deps E = (Inr built, E1)"
  shows "\<exists>S'. bridge_install c i built (B, E1) = Some S' \<and> bridge_ok S'"
proof -
  note okD = bridge_okD [OF ok] and new = subscribe_sender [OF okD(1) sub]
  let ?old = "head_of c i B @ chain_of c i B"
  have g1: "graph_ok E1" by (rule subscribe_built(1) [OF okD(1) sub])
  have old: "\<forall>a \<in> set ?old. a < length (en_nodes E1)" using chain_in_nodes [of c i B] okD(3) new(2) by fastforce
  obtain E2 where E2: "shutdown_each ?old E1 = Some E2" "graph_ok E2" "length (en_nodes E1) \<le> length (en_nodes E2)"
    "senders E2 \<subseteq> senders E1 - set ?old \<times> UNIV"
    using shutdown_each_ends [OF g1 old] by blast
  define B' where "B' = B \<lparr> br_active := AList.update c (AList.update i (bc_head built) (at_key c (br_active B))) (br_active B),
    br_chains := AList.update c (AList.update i (bc_keepAlive built) (at_key c (br_chains B))) (br_chains B) \<rparr>"
  have chain: "chain_of c' i' B' = (if c' = c \<and> i' = i then bc_keepAlive built else chain_of c' i' B)" for c' i'
    by (simp add: B'_def chain_of_def at_key_update)
  have head: "head_of c' i' B' = (if c' = c \<and> i' = i then [bc_head built] else head_of c' i' B)" for c' i'
    by (simp add: B'_def head_of_def at_key_update update_conv')
  have "bridge_ok (B', release ?old E2)"
  proof (rule bridge_okI)
    show "graph_ok (release ?old E2)" using E2(2) by (rule graph_ok_release)
    show "length (at_key c' (br_active B')) \<le> MAX_SUBS_PER_CONN" for c'
      using okD(2) [of c'] room
      by (cases "map_of (at_key c (br_active B)) i")
        (auto simp: B'_def at_key_update length_update_new length_update_old over_limit_eq MAX_SUBS_PER_CONN_def)
    show "a < length (en_nodes (release ?old E2))" if "a \<in> set (bridge_nodes c' B')" for c' a
    proof -
      have "a \<in> set (bridge_nodes c' B) \<or> a = bc_head built \<or> a \<in> set (bc_keepAlive built)"
        using that set_update_sub [of i "bc_head built" "at_key c (br_active B)"] set_update_sub [of i "bc_keepAlive built" "at_key c (br_chains B)"]
        by (fastforce simp: bridge_nodes_def B'_def at_key_update split: if_splits)
      then show ?thesis using okD(3) [of a c'] new(2) new(4) [OF refl, of a] E2(3) by auto
    qed
    show "head_of c' i' B' \<noteq> []" if "chain_of c' i' B' \<noteq> []" for c' i' using that okD(4) by (auto simp: chain head split: if_splits)
    show "\<exists>c i. k = RKStr i \<and> send_function c B' = Some s' \<and> t \<in> set (chain_of c i B')"
      if "(t, s', k) \<in> senders (release ?old E2)" for t s' k
    proof -
      have sf: "send_function c' B' = send_function c' B" for c' by (simp add: send_function_def B'_def)
      have "(t, s', k) = (length (en_nodes E), s, RKStr i) \<or> (t, s', k) \<in> senders E \<and> t \<notin> set (chain_of c i B)"
        using that E2(4) new(1) by auto
      then show ?thesis
      proof
        assume "(t, s', k) = (length (en_nodes E), s, RKStr i)"
        then show ?thesis using new(3) [OF refl] send sf by (intro exI [of _ c] exI [of _ i]) (simp add: chain)
      next
        assume "(t, s', k) \<in> senders E \<and> t \<notin> set (chain_of c i B)"
        then show ?thesis using okD(5) [of t s' k] sf by (fastforce simp: chain)
      qed
    qed
  qed
  then show ?thesis using E2(1) by (simp add: bridge_install_def B'_def)
qed

lemma build_bridge_ok:
  assumes ok: "bridge_ok (B, E)" and send: "send_function c B = Some s" and room: "\<not> over_limit c i B"
  shows "\<exists>S'. bridge_build c i rq s (B, E) = Some S' \<and> bridge_ok S'"
proof -
  note okD = bridge_okD [OF ok]
  obtain r E1 where sub: "subscribe s (RKStr i) rq (bridge_deps B E) E = (r, E1)" by (cases "subscribe s (RKStr i) rq (bridge_deps B E) E")
  note new = subscribe_sender [OF okD(1) sub]
  show ?thesis
  proof (cases r)
    case (Inl message)
    obtain E2 where E2: "shutdown (length (en_nodes E)) E1 = Some E2" "graph_ok E2" "length (en_nodes E1) \<le> length (en_nodes E2)"
      using shutdown_ends [OF subscribe_built(1) [OF okD(1) sub] new(2)] by blast
    then have "senders E2 \<subseteq> senders E" using shutdown_senders new(1) by blast
    then have "bridge_ok (B, E2)" using E2(3) new(2) by (intro bridge_ok_mono [OF ok E2(2)]) simp_all
    then show ?thesis using E2(1) Inl sub by (simp add: bridge_build_def)
  next
    case (Inr built)
    obtain B' E' where "bridge_install c i built (B, E1) = Some (B', E')" "bridge_ok (B', E')"
      using install_bridge_ok [OF ok send room sub [unfolded Inr]] by auto
    then show ?thesis using Inr sub by (simp add: bridge_build_def)
  qed
qed

lemma request_bridge_ok:
  assumes ok: "bridge_ok S"
  shows "\<exists>S'. bridge_request c r S = Some S' \<and> bridge_ok S'"
proof -
  obtain B E where S: "S = (B, E)" by (cases S)
  show ?thesis using ok build_bridge_ok [of B E c] unfolding S
    by (auto simp: bridge_request_def split: sum.split option.split)
qed

lemma requests_bridge_ok: "bridge_ok S \<Longrightarrow> \<exists>S'. bridge_requests c rs S = Some S' \<and> bridge_ok S'"
proof (induction rs arbitrary: S)
  case (Cons r rs)
  obtain S1 where S1: "bridge_request c r S = Some S1" "bridge_ok S1" using request_bridge_ok [OF Cons.prems] by blast
  show ?case using Cons.IH [OF S1(2)] S1(1) by simp
qed simp

text \<open>Shutting down nodes and taking away their entries.\<close>

lemma removed_bridge_ok:
  assumes ok: "bridge_ok (B, E)" and nodes: "set as \<subseteq> set (bridge_nodes c B)"
    and fewer: "\<And>c'. length (at_key c' (br_active B')) \<le> length (at_key c' (br_active B))"
      "\<And>c'. set (bridge_nodes c' B') \<subseteq> set (bridge_nodes c' B)"
    and heads: "\<And>c' i'. chain_of c' i' B' \<noteq> [] \<Longrightarrow> chain_of c' i' B' = chain_of c' i' B \<and> head_of c' i' B' = head_of c' i' B"
    and gone: "\<And>c' i' s. send_function c' B = Some s \<Longrightarrow> set (chain_of c' i' B) \<subseteq> set as \<or>
      chain_of c' i' B' = chain_of c' i' B \<and> send_function c' B' = Some s"
  shows "\<exists>E'. shutdown_each as E = Some E' \<and> bridge_ok (B', release as E')"
proof -
  note okD = bridge_okD [OF ok]
  have "\<forall>a \<in> set as. a < length (en_nodes E)" using nodes okD(3) by blast
  then obtain E' where E': "shutdown_each as E = Some E'" "graph_ok E'" "length (en_nodes E) \<le> length (en_nodes E')"
    "senders E' \<subseteq> senders E - set as \<times> UNIV"
    using shutdown_each_ends [OF okD(1)] by blast
  have "bridge_ok (B', release as E')"
  proof (rule bridge_okI)
    show "graph_ok (release as E')" using E'(2) by (rule graph_ok_release)
    show "length (at_key c' (br_active B')) \<le> MAX_SUBS_PER_CONN" for c' using fewer(1) [of c'] okD(2) [of c'] by linarith
    show "a < length (en_nodes (release as E'))" if "a \<in> set (bridge_nodes c' B')" for c' a
      using that fewer(2) [of c'] okD(3) [of a c'] E'(3) by auto
    show "head_of c' i' B' \<noteq> []" if "chain_of c' i' B' \<noteq> []" for c' i' using that heads [of c' i'] okD(4) [of c' i'] by simp
    show "\<exists>c i. k = RKStr i \<and> send_function c B' = Some s \<and> t \<in> set (chain_of c i B')" if "(t, s, k) \<in> senders (release as E')" for t s k
    proof -
      have t: "(t, s, k) \<in> senders E" "t \<notin> set as" using that E'(4) by auto
      obtain c' i' where "k = RKStr i'" "send_function c' B = Some s" "t \<in> set (chain_of c' i' B)" using okD(5) [OF t(1)] by blast
      then show ?thesis using gone [of c' s i'] t(2) by (intro exI [of _ c'] exI [of _ i']) auto
    qed
  qed
  then show ?thesis using E'(1) by blast
qed

lemma without_frames:
  "head_of c' i' (without c i B) = (if c' = c \<and> i' = i then [] else head_of c' i' B)"
  "chain_of c' i' (without c i B) = (if c' = c \<and> i' = i then [] else chain_of c' i' B)"
  "send_function c' (without c i B) = send_function c' B"
  "length (at_key c' (br_active (without c i B))) \<le> length (at_key c' (br_active B))"
  "set (bridge_nodes c' (without c i B)) \<subseteq> set (bridge_nodes c' B)"
proof -
  show "head_of c' i' (without c i B) = (if c' = c \<and> i' = i then [] else head_of c' i' B)" by (simp add: head_of_def without_at delete_conv')
  show "chain_of c' i' (without c i B) = (if c' = c \<and> i' = i then [] else chain_of c' i' B)" by (simp add: chain_of_def without_at at_key_delete)
  show "send_function c' (without c i B) = send_function c' B" by (simp add: send_function_def without_def)
  show "length (at_key c' (br_active (without c i B))) \<le> length (at_key c' (br_active B))" by (simp add: without_at length_delete)
  show "set (bridge_nodes c' (without c i B)) \<subseteq> set (bridge_nodes c' B)" by (auto simp: bridge_nodes_def without_at AList.delete_eq)
qed

lemma cancel_bridge_ok:
  assumes ok: "bridge_ok S"
  shows "\<exists>S'. bridge_cancel_one c v S = Some S' \<and> bridge_ok S'"
proof -
  obtain B E where S: "S = (B, E)" by (cases S)
  show ?thesis
  proof (cases "bridge_id v")
    case None
    then show ?thesis using ok by (simp add: bridge_cancel_one_def S)
  next
    case (Some i)
    have "\<exists>E'. shutdown_each (head_of c i B @ chain_of c i B) E = Some E' \<and>
        bridge_ok (without c i B, release (head_of c i B @ chain_of c i B) E')"
      by (rule removed_bridge_ok [OF ok [unfolded S], of _ c])
        (use chain_in_nodes [of c i B] without_frames [where B = B and c = c and i = i] in \<open>auto split: if_splits\<close>)
    then show ?thesis using Some by (auto simp: bridge_cancel_one_def S Let_def)
  qed
qed

lemma cancels_bridge_ok: "bridge_ok S \<Longrightarrow> \<exists>S'. bridge_cancel_all c vs S = Some S' \<and> bridge_ok S'"
proof (induction vs arbitrary: S)
  case (Cons v vs)
  obtain S1 where S1: "bridge_cancel_one c v S = Some S1" "bridge_ok S1" using cancel_bridge_ok [OF Cons.prems] by blast
  show ?case using Cons.IH [OF S1(2)] S1(1) by simp
qed simp

lemma message_bridge_ok:
  assumes "bridge_ok S"
  shows "\<exists>S'. bridge_onMessage parse c msg S = Some S' \<and> bridge_ok S'"
proof -
  have answer: "bridge_ok (sendTo c f (fst S), snd S)" for f using assms by simp
  have sub: "\<exists>S'. bridge_subscribe c doc S = Some S' \<and> bridge_ok S'" for doc
    using requests_bridge_ok [OF assms] answer unfolding bridge_subscribe_def by (simp split: option.split json.split)
  have can: "\<exists>S'. bridge_cancel c doc S = Some S' \<and> bridge_ok S'" for doc
    using cancels_bridge_ok [OF assms] answer unfolding bridge_cancel_def by (simp split: option.split json.split)
  show ?thesis using sub can answer unfolding bridge_onMessage_def Let_def by (simp split: option.split)
qed

lemma close_bridge_ok:
  assumes ok: "bridge_ok S"
  shows "\<exists>S'. bridge_onClose c S = Some S' \<and> bridge_ok S'"
proof -
  obtain B E where S: "S = (B, E)" by (cases S)
  define B' where "B' = B \<lparr> br_connections := AList.delete c (br_connections B), br_active := AList.delete c (br_active B),
    br_chains := AList.delete c (br_chains B) \<rparr>"
  have at: "at_key c' (br_active B') = (if c' = c then [] else at_key c' (br_active B))"
    "at_key c' (br_chains B') = (if c' = c then [] else at_key c' (br_chains B))" for c' by (simp_all add: B'_def at_key_delete)
  have frames: "head_of c' i' B' = (if c' = c then [] else head_of c' i' B)" "chain_of c' i' B' = (if c' = c then [] else chain_of c' i' B)"
    "send_function c' B' = (if c' = c then None else send_function c' B)" "set (bridge_nodes c' B') \<subseteq> set (bridge_nodes c' B)"
    "length (at_key c' (br_active B')) \<le> length (at_key c' (br_active B))" for c' i'
    by (simp_all add: head_of_def chain_of_def bridge_nodes_def at) (simp_all add: at_key_def send_function_def B'_def delete_conv')
  have "\<exists>E'. shutdown_each (bridge_nodes c B) E = Some E' \<and> bridge_ok (B', release (bridge_nodes c B) E')"
    by (rule removed_bridge_ok [OF ok [unfolded S], of _ c])
      (use chain_in_nodes [of c _ B] frames in \<open>auto split: if_splits\<close>)
  then show ?thesis by (auto simp: bridge_onClose_def S B'_def)
qed

section \<open>Runs\<close>

text \<open>A connection is opened under an identifier that is not in use.\<close>

inductive bridge_step :: "(string \<Rightarrow> json option) \<Rightarrow> bridge_state \<Rightarrow> bridge_state \<Rightarrow> bool" for parse where
  open_conn: "map_of (br_connections B) c = None \<Longrightarrow> bridge_step parse (B, E) (bridge_onOpen c send B, E)"
| message: "bridge_onMessage parse c msg S = Some S' \<Longrightarrow> bridge_step parse S S'"
| close_conn: "bridge_onClose c S = Some S' \<Longrightarrow> bridge_step parse S S'"
| engine: "engine_activity E E' \<Longrightarrow> bridge_step parse (B, E) (B, E')"

lemma step_bridge_ok: "bridge_step parse S S' \<Longrightarrow> bridge_ok S \<Longrightarrow> bridge_ok S'"
proof (induction rule: bridge_step.induct)
  case (open_conn B c E send)
  have "send_function c' (bridge_onOpen c send B) = (if c' = c then send else send_function c' B)" for c'
    by (simp add: send_function_def bridge_onOpen_def update_conv')
  moreover have "send_function c B = None" using open_conn.hyps by (simp add: send_function_def)
  ultimately have send: "send_function c' B = Some s \<Longrightarrow> send_function c' (bridge_onOpen c send B) = Some s" for c' s by auto
  have frames: "br_active (bridge_onOpen c send B) = br_active B" "bridge_nodes c' (bridge_onOpen c send B) = bridge_nodes c' B"
    "chain_of c' i (bridge_onOpen c send B) = chain_of c' i B" "head_of c' i (bridge_onOpen c send B) = head_of c' i B" for c' i
    by (simp_all add: bridge_onOpen_def bridge_nodes_def chain_of_def head_of_def)
  note okD = bridge_okD [OF open_conn.prems]
  show ?case
  proof (rule bridge_okI, unfold frames)
    show "\<exists>c' i. k = RKStr i \<and> send_function c' (bridge_onOpen c send B) = Some s \<and> t \<in> set (chain_of c' i B)"
      if "(t, s, k) \<in> senders E" for t s k
      using okD(5) [OF that] send by blast
  qed (rule okD; assumption?)+
next
  case (engine E E' B)
  note okD = bridge_okD [OF engine.prems]
  have "length (en_nodes E) \<le> length (en_nodes E')" using activity_keeps [OF engine.hyps] by (simp add: keeps_def)
  moreover have "senders E' \<subseteq> senders E" using activity_quiet [OF engine.hyps] by (simp add: quiet_def)
  ultimately show ?case by (rule bridge_ok_mono [OF engine.prems activity_graph_ok [OF engine.hyps okD(1)]])
qed (metis message_bridge_ok option.inject, metis close_bridge_ok option.inject)

abbreviation bridge_start :: bridge_state where
  "bridge_start \<equiv> (WsBridge_new True True True, Engine_new FunctionMap_init)"

lemma run_bridge_ok:
  assumes "(bridge_step parse)\<^sup>*\<^sup>* (WsBridge_new d st p, Engine_new fm) S"
  shows "bridge_ok S"
  using assms
proof (induction rule: rtranclp_induct)
  case base
  have "graph_ok (Engine_new fm)" by (rule run_graph_ok) (rule rtranclp.rtrancl_refl)
  then show ?case
    by (auto simp: bridge_ok_def WsBridge_new_def at_key_def bridge_nodes_def chain_of_def senders_def node_at_def Engine_new_def)
qed (rule step_bridge_ok)


text \<open>A connection that subscribes, is refused a second request without an identifier, and cancels.\<close>

definition demo_bridge_parse :: "string \<Rightarrow> json option" where
  "demo_bridge_parse t =
     (if t = ''sub'' then Some (JObject [(''type'', JString ''subscribe''),
        (''requests'', JArray [JObject ((''id'', JInt 7) # members demo_rq), JObject []])])
      else if t = ''cancel'' then Some (JObject [(''type'', JString ''cancel''), (''ids'', JArray [JString ''7''])])
      else None)"

definition demo_bridge :: bridge_state where
  "demo_bridge = the (bridge_onMessage demo_bridge_parse ''c'' ''sub'' (bridge_onOpen ''c'' (Some 5) (fst bridge_start), snd bridge_start))"

lemma demo_bridge_tables:
  "bridge_onMessage demo_bridge_parse ''c'' ''sub'' (bridge_onOpen ''c'' (Some 5) (fst bridge_start), snd bridge_start) \<noteq> None"
  "map_of (at_key ''c'' (br_active (fst demo_bridge))) ''7'' \<noteq> None" "length (br_out (fst demo_bridge)) = 2"
  by code_simp+

lemma demo_bridge_run: "(bridge_step demo_bridge_parse)\<^sup>*\<^sup>* bridge_start (fst demo_bridge, snd demo_bridge)"
proof -
  let ?S = "(bridge_onOpen ''c'' (Some 5) (fst bridge_start), snd bridge_start)"
  have "bridge_step demo_bridge_parse bridge_start ?S" using bridge_step.open_conn [of "fst bridge_start" "''c''"] by (simp add: WsBridge_new_def)
  moreover have "bridge_step demo_bridge_parse ?S demo_bridge"
    by (rule bridge_step.message [of _ "''c''" "''sub''"]) (use demo_bridge_tables(1) in \<open>auto simp: demo_bridge_def\<close>)
  ultimately show ?thesis by (simp add: converse_rtranclp_into_rtranclp)
qed


end
