(* ===== verification/Request_Registry.thy ===== *)
theory Request_Registry
  imports Ws_Bridge_Thms
begin

text \<open>
  The table of running requests (\<^verbatim>\<open>core/RequestRegistry.cpp\<close>): a shared pointer to the root of each request by its identifier. The
  pointer that a caller hands over is moved; one that is overwritten or erased is given up. Log lines are left out.
\<close>

section \<open>Operations\<close>

record RequestRegistry =
  rr_requests :: "(string, addr option) umap"

type_synonym registry_state = "RequestRegistry \<times> Engine"

definition roots_of :: "addr option list \<Rightarrow> addr list" where
  "roots_of rs = concat (map (\<lambda>r. case r of None \<Rightarrow> [] | Some a \<Rightarrow> [a]) rs)"

definition root_at :: "string \<Rightarrow> RequestRegistry \<Rightarrow> addr list" where
  "root_at i R = (case map_of (rr_requests R) i of Some (Some a) \<Rightarrow> [a] | _ \<Rightarrow> [])"

definition registerRequest :: "string \<Rightarrow> addr option \<Rightarrow> registry_state \<Rightarrow> registry_state" where
  "registerRequest i nd S = (case S of (R, E) \<Rightarrow>
     (R \<lparr> rr_requests := AList.update i nd (rr_requests R) \<rparr>, release (root_at i R) E))"

definition unregisterRequest :: "string \<Rightarrow> registry_state \<Rightarrow> registry_state option" where
  "unregisterRequest i S = (case S of (R, E) \<Rightarrow>
     map_option (\<lambda>E1. (R \<lparr> rr_requests := AList.delete i (rr_requests R) \<rparr>, release (root_at i R) E1)) (shutdown_each (root_at i R) E))"

definition shutdownAll :: "registry_state \<Rightarrow> registry_state option" where
  "shutdownAll S = (case S of (R, E) \<Rightarrow>
     (let roots = roots_of (map snd (rr_requests R))
      in map_option (\<lambda>E1. (R \<lparr> rr_requests := [] \<rparr>, release roots E1)) (shutdown_each roots E)))"

section \<open>Properties\<close>

lemma root_at_in: "set (root_at i R) \<subseteq> set (roots_of (map snd (rr_requests R)))"
proof
  fix a assume "a \<in> set (root_at i R)"
  then have "(i, Some a) \<in> set (rr_requests R)" by (auto simp: root_at_def split: option.splits intro: map_of_SomeD)
  then show "a \<in> set (roots_of (map snd (rr_requests R)))" by (force simp: roots_of_def)
qed

definition registry_ok :: "registry_state \<Rightarrow> bool" where
  "registry_ok S \<longleftrightarrow> (case S of (R, E) \<Rightarrow> graph_ok E \<and> (\<forall>a \<in> set (roots_of (map snd (rr_requests R))). a < length (en_nodes E)))"

text \<open>
  Every operation keeps the table within the nodes of the engine and ends. After \<^verbatim>\<open>unregisterRequest\<close> the request is gone and its root
  no longer sends; after \<^verbatim>\<open>shutdownAll\<close> the table is empty and no root that was in it sends.
\<close>

lemma register_ok:
  assumes "registry_ok (R, E)" "\<And>a. nd = Some a \<Longrightarrow> a < length (en_nodes E)"
  shows "registry_ok (registerRequest i nd (R, E))"
proof -
  have "set (AList.update i nd (rr_requests R)) \<subseteq> insert (i, nd) (set (rr_requests R))" by (rule set_update_sub)
  then have "set (roots_of (map snd (AList.update i nd (rr_requests R)))) \<subseteq> set (roots_of (map snd (rr_requests R))) \<union> set (roots_of [nd])"
    by (fastforce simp: roots_of_def)
  then show ?thesis using assms by (fastforce simp: registry_ok_def registerRequest_def graph_ok_release roots_of_def split: option.splits)
qed

lemma unregister_ends:
  assumes "registry_ok (R, E)"
  shows "\<exists>R' E'. unregisterRequest i (R, E) = Some (R', E') \<and> registry_ok (R', E') \<and> map_of (rr_requests R') i = None \<and>
    senders E' \<subseteq> senders E - set (root_at i R) \<times> UNIV"
proof -
  have "graph_ok E" "\<forall>a \<in> set (root_at i R). a < length (en_nodes E)" using assms root_at_in [of i R] by (auto simp: registry_ok_def)
  then obtain E1 where E1: "shutdown_each (root_at i R) E = Some E1" "graph_ok E1" "length (en_nodes E) \<le> length (en_nodes E1)"
    "senders E1 \<subseteq> senders E - set (root_at i R) \<times> UNIV"
    using shutdown_each_ends by blast
  have "set (roots_of (map snd (AList.delete i (rr_requests R)))) \<subseteq> set (roots_of (map snd (rr_requests R)))"
    by (auto simp: roots_of_def AList.delete_eq)
  then have "registry_ok (R \<lparr> rr_requests := AList.delete i (rr_requests R) \<rparr>, release (root_at i R) E1)"
    using assms E1(2,3) by (fastforce simp: registry_ok_def graph_ok_release)
  then show ?thesis using E1(1,4) by (simp add: unregisterRequest_def delete_conv')
qed

lemma shutdownAll_ends:
  assumes "registry_ok (R, E)"
  shows "\<exists>E'. shutdownAll (R, E) = Some (R \<lparr> rr_requests := [] \<rparr>, E') \<and> graph_ok E' \<and>
    senders E' \<subseteq> senders E - set (roots_of (map snd (rr_requests R))) \<times> UNIV"
proof -
  let ?as = "roots_of (map snd (rr_requests R))"
  obtain E1 where "shutdown_each ?as E = Some E1" "graph_ok E1" "senders E1 \<subseteq> senders E - set ?as \<times> UNIV"
    using shutdown_each_ends [of E ?as] assms by (auto simp: registry_ok_def)
  then show ?thesis by (auto simp: shutdownAll_def Let_def graph_ok_release)
qed

text \<open>A request that is registered under an identifier in use replaces the old one without shutting it down: the old root stays in the
  table of the dispatcher.\<close>

lemma replaced_request_runs:
  assumes "map_of (rr_requests R) i = Some (Some a)" "live_at E a mid"
  shows "live_at (snd (registerRequest i nd (R, E))) a mid"
  using assms(2) by (simp add: registerRequest_def)

end
