(* ===== verification/Thread_Pool.thy ===== *)
theory Thread_Pool
  imports Main "HOL-Library.Multiset"
begin

text \<open>
  The thread pool (\<^verbatim>\<open>rt/ThreadPool.cpp\<close>) at the level of its mutex, its two condition variables and its counter of running
  tasks: any number of threads post tasks, the workers take and run them, one owner drains the pool, shuts it down or destroys it.
  A section under the mutex is one step, except that \<^verbatim>\<open>wait\<close> tests its predicate and goes to sleep in two steps with the mutex
  held in between; notifications and the counter are outside the mutex, as in the code. A sleeping thread may also wake up
  for no reason. A task is a number; what it does, its exceptions and the log are left out.
\<close>

section \<open>State\<close>

text \<open>A worker before its test, between test and sleep, asleep, running a task, before and after the decrement, or returned.\<close>

datatype worker = WTop | WHold | WAsleep | WRun nat | WFinished | WNote | WExit

text \<open>The owner outside the pool, in \<^verbatim>\<open>drain\<close> before its test, between test and sleep, asleep; setting \<^verbatim>\<open>stopping_\<close>, notifying, joining.\<close>

datatype owner = OIdle | ODrain | OHold | OAsleep | OStop | OWake | OJoin

record ThreadPool =
  tp_threads :: "worker list"
  tp_mutex :: bool
  tp_q :: "nat list"
  tp_stopping :: bool
  tp_inFlight :: nat
  tp_notify :: nat
  tp_owner :: owner
  tp_shutting :: bool
  tp_accepted :: "nat list"
  tp_started :: "nat list"
  tp_ended :: "nat list"

text \<open>
  \<open>tp_mutex\<close> tells whether a thread holds the mutex between two steps, \<open>tp_notify\<close> counts the calls of \<^verbatim>\<open>notify_one\<close> that are due,
  \<open>tp_shutting\<close> whether the owner drains as a part of \<^verbatim>\<open>shutdown\<close>. The last three, the tasks accepted, started and ended so far, are not
  part of the program.
\<close>

definition ThreadPool_new :: "nat \<Rightarrow> ThreadPool" where
  "ThreadPool_new nThreads = \<lparr> tp_threads = replicate (max 1 nThreads) WTop, tp_mutex = False, tp_q = [], tp_stopping = False, tp_inFlight = 0,
     tp_notify = 0, tp_owner = OIdle, tp_shutting = False, tp_accepted = [], tp_started = [], tp_ended = [] \<rparr>"

section \<open>Operations\<close>

definition tp_post :: "nat \<Rightarrow> ThreadPool \<Rightarrow> ThreadPool" where
  "tp_post fn P = (if tp_stopping P then P
     else P \<lparr> tp_q := tp_q P @ [fn], tp_notify := tp_notify P + 1, tp_accepted := tp_accepted P @ [fn] \<rparr>)"

definition set_worker :: "nat \<Rightarrow> worker \<Rightarrow> ThreadPool \<Rightarrow> ThreadPool" where
  "set_worker i w P = P \<lparr> tp_threads := (tp_threads P)[i := w] \<rparr>"

text \<open>The worker takes the mutex and tests: it goes on to sleep, returns or takes the oldest task.\<close>

definition worker_test :: "nat \<Rightarrow> ThreadPool \<Rightarrow> ThreadPool" where
  "worker_test i P =
     (if \<not> tp_stopping P \<and> tp_q P = [] then set_worker i WHold (P \<lparr> tp_mutex := True \<rparr>)
      else case tp_q P of
          [] \<Rightarrow> set_worker i WExit P
        | fn # q \<Rightarrow> set_worker i (WRun fn) (P \<lparr> tp_q := q, tp_inFlight := tp_inFlight P + 1, tp_started := tp_started P @ [fn] \<rparr>))"

definition worker_sleep :: "nat \<Rightarrow> ThreadPool \<Rightarrow> ThreadPool" where
  "worker_sleep i P = set_worker i WAsleep (P \<lparr> tp_mutex := False \<rparr>)"

definition worker_ran :: "nat \<Rightarrow> nat \<Rightarrow> ThreadPool \<Rightarrow> ThreadPool" where
  "worker_ran i fn P = set_worker i WFinished (P \<lparr> tp_ended := tp_ended P @ [fn] \<rparr>)"

definition worker_decrement :: "nat \<Rightarrow> ThreadPool \<Rightarrow> ThreadPool" where
  "worker_decrement i P = set_worker i WNote (P \<lparr> tp_inFlight := tp_inFlight P - 1 \<rparr>)"

definition worker_notify :: "nat \<Rightarrow> ThreadPool \<Rightarrow> ThreadPool" where
  "worker_notify i P = set_worker i WTop (P \<lparr> tp_owner := (if tp_owner P = OAsleep then ODrain else tp_owner P) \<rparr>)"

definition drain_test :: "ThreadPool \<Rightarrow> ThreadPool" where
  "drain_test P = (if tp_q P = [] \<and> tp_inFlight P = 0 then P \<lparr> tp_owner := (if tp_shutting P then OStop else OIdle) \<rparr>
     else P \<lparr> tp_mutex := True, tp_owner := OHold \<rparr>)"

definition drain_sleep :: "ThreadPool \<Rightarrow> ThreadPool" where
  "drain_sleep P = P \<lparr> tp_mutex := False, tp_owner := OAsleep \<rparr>"

definition stop_pool :: "ThreadPool \<Rightarrow> ThreadPool" where
  "stop_pool P = P \<lparr> tp_stopping := True, tp_owner := OWake \<rparr>"

fun awake :: "worker \<Rightarrow> worker" where
  "awake WAsleep = WTop"
| "awake w = w"

definition wake_all :: "ThreadPool \<Rightarrow> ThreadPool" where
  "wake_all P = P \<lparr> tp_threads := map awake (tp_threads P), tp_owner := OJoin \<rparr>"

section \<open>Steps\<close>

abbreviation worker_is :: "ThreadPool \<Rightarrow> nat \<Rightarrow> worker \<Rightarrow> bool" where
  "worker_is P i w \<equiv> i < length (tp_threads P) \<and> tp_threads P ! i = w"

text \<open>The steps of the threads themselves.\<close>

inductive tp_step :: "ThreadPool \<Rightarrow> ThreadPool \<Rightarrow> bool" where
  test: "worker_is P i WTop \<Longrightarrow> \<not> tp_mutex P \<Longrightarrow> tp_step P (worker_test i P)"
| sleep: "worker_is P i WHold \<Longrightarrow> tp_step P (worker_sleep i P)"
| ran: "worker_is P i (WRun fn) \<Longrightarrow> tp_step P (worker_ran i fn P)"
| decrement: "worker_is P i WFinished \<Longrightarrow> tp_step P (worker_decrement i P)"
| notify_idle: "worker_is P i WNote \<Longrightarrow> tp_step P (worker_notify i P)"
| notify_one: "0 < tp_notify P \<Longrightarrow> worker_is P i WAsleep \<Longrightarrow> tp_step P (set_worker i WTop (P \<lparr> tp_notify := tp_notify P - 1 \<rparr>))"
| notify_none: "0 < tp_notify P \<Longrightarrow> WAsleep \<notin> set (tp_threads P) \<Longrightarrow> tp_step P (P \<lparr> tp_notify := tp_notify P - 1 \<rparr>)"
| drain: "tp_owner P = ODrain \<Longrightarrow> \<not> tp_mutex P \<Longrightarrow> tp_step P (drain_test P)"
| drain_waits: "tp_owner P = OHold \<Longrightarrow> tp_step P (drain_sleep P)"
| stop: "tp_owner P = OStop \<Longrightarrow> \<not> tp_mutex P \<Longrightarrow> tp_step P (stop_pool P)"
| wake: "tp_owner P = OWake \<Longrightarrow> tp_step P (wake_all P)"
| join: "tp_owner P = OJoin \<Longrightarrow> set (tp_threads P) \<subseteq> {WExit} \<Longrightarrow> tp_step P (P \<lparr> tp_owner := OIdle \<rparr>)"

text \<open>What the users of the pool do, and waking up without a notification.\<close>

inductive tp_event :: "ThreadPool \<Rightarrow> ThreadPool \<Rightarrow> bool" where
  post: "\<not> tp_mutex P \<Longrightarrow> tp_event P (tp_post fn P)"
| call_drain: "tp_owner P = OIdle \<Longrightarrow> tp_event P (P \<lparr> tp_owner := ODrain, tp_shutting := False \<rparr>)"
| call_shutdown: "tp_owner P = OIdle \<Longrightarrow> tp_event P (P \<lparr> tp_owner := ODrain, tp_shutting := True \<rparr>)"
| destroy: "tp_owner P = OIdle \<Longrightarrow> tp_event P (P \<lparr> tp_owner := OStop \<rparr>)"
| worker_spurious: "worker_is P i WAsleep \<Longrightarrow> tp_event P (set_worker i WTop P)"
| owner_spurious: "tp_owner P = OAsleep \<Longrightarrow> tp_event P (P \<lparr> tp_owner := ODrain \<rparr>)"

abbreviation tp_run :: "ThreadPool \<Rightarrow> ThreadPool \<Rightarrow> bool" where
  "tp_run \<equiv> (sup tp_step tp_event)\<^sup>*\<^sup>*"

end
