(* ===== verification/Thread_Pool_Thms.thy ===== *)
theory Thread_Pool_Thms
  imports Thread_Pool
begin

text \<open>
  The pool runs every accepted task exactly once, in the order of posting, returns from \<^verbatim>\<open>drain\<close> and \<^verbatim>\<open>shutdown\<close> only when all of them
  have ended, and never leaves a task in the queue with all workers asleep. The wake-up of \<^verbatim>\<open>drain\<close>, however, can be missed.
\<close>

section \<open>Counting workers\<close>

lemma sum_update:
  fixes f :: "'a \<Rightarrow> 'b::comm_monoid_add"
  shows "i < length xs \<Longrightarrow> sum_list (map f (xs[i := w])) + f (xs ! i) = sum_list (map f xs) + f w"
proof (induction xs arbitrary: i)
  case (Cons x xs)
  show ?case
  proof (cases i)
    case (Suc j)
    then have "sum_list (map f (xs[j := w])) + f (xs ! j) = sum_list (map f xs) + f w" using Cons by simp
    then show ?thesis using Suc by (simp add: add.assoc)
  qed (simp add: add.commute add.left_commute)
qed simp

fun task_of :: "worker \<Rightarrow> nat multiset" where
  "task_of (WRun fn) = {#fn#}"
| "task_of _ = {#}"

fun is_busy :: "worker \<Rightarrow> nat" where
  "is_busy (WRun fn) = 1"
| "is_busy WFinished = 1"
| "is_busy _ = 0"

fun is_holding :: "worker \<Rightarrow> nat" where
  "is_holding WHold = 1"
| "is_holding _ = 0"

fun is_active :: "worker \<Rightarrow> bool" where
  "is_active WHold = False"
| "is_active WAsleep = False"
| "is_active WExit = False"
| "is_active _ = True"

definition running :: "ThreadPool \<Rightarrow> nat multiset" where
  "running P = sum_list (map task_of (tp_threads P))"

definition busy :: "ThreadPool \<Rightarrow> nat" where
  "busy P = sum_list (map is_busy (tp_threads P))"

definition holding :: "ThreadPool \<Rightarrow> nat" where
  "holding P = sum_list (map is_holding (tp_threads P))"

lemma no_tasks: "\<forall>w \<in> set ws. task_of w = {#} \<Longrightarrow> sum_list (map task_of ws) = {#}"
  by (induction ws) auto

lemma set_worker_sums:
  assumes "worker_is P i v"
  shows "running (set_worker i w P) + task_of v = running P + task_of w" "busy (set_worker i w P) + is_busy v = busy P + is_busy w"
    "holding (set_worker i w P) + is_holding v = holding P + is_holding w"
  using assms sum_update [of i "tp_threads P" task_of w] sum_update [of i "tp_threads P" is_busy w]
    sum_update [of i "tp_threads P" is_holding w]
  by (simp_all add: running_def busy_def holding_def set_worker_def)

lemma set_worker_frame [simp]:
  "tp_q (set_worker i w P) = tp_q P" "tp_mutex (set_worker i w P) = tp_mutex P" "tp_stopping (set_worker i w P) = tp_stopping P"
  "tp_inFlight (set_worker i w P) = tp_inFlight P" "tp_notify (set_worker i w P) = tp_notify P" "tp_owner (set_worker i w P) = tp_owner P"
  "tp_shutting (set_worker i w P) = tp_shutting P" "tp_accepted (set_worker i w P) = tp_accepted P"
  "tp_started (set_worker i w P) = tp_started P" "tp_ended (set_worker i w P) = tp_ended P"
  by (simp_all add: set_worker_def)

lemma counts_outside [simp]:
  "running (P \<lparr> tp_mutex := b \<rparr>) = running P" "busy (P \<lparr> tp_mutex := b \<rparr>) = busy P" "holding (P \<lparr> tp_mutex := b \<rparr>) = holding P"
  "running (P \<lparr> tp_q := q \<rparr>) = running P" "busy (P \<lparr> tp_q := q \<rparr>) = busy P" "holding (P \<lparr> tp_q := q \<rparr>) = holding P"
  "running (P \<lparr> tp_stopping := b \<rparr>) = running P" "busy (P \<lparr> tp_stopping := b \<rparr>) = busy P" "holding (P \<lparr> tp_stopping := b \<rparr>) = holding P"
  "running (P \<lparr> tp_inFlight := n \<rparr>) = running P" "busy (P \<lparr> tp_inFlight := n \<rparr>) = busy P" "holding (P \<lparr> tp_inFlight := n \<rparr>) = holding P"
  "running (P \<lparr> tp_notify := n \<rparr>) = running P" "busy (P \<lparr> tp_notify := n \<rparr>) = busy P" "holding (P \<lparr> tp_notify := n \<rparr>) = holding P"
  "running (P \<lparr> tp_owner := pc \<rparr>) = running P" "busy (P \<lparr> tp_owner := pc \<rparr>) = busy P" "holding (P \<lparr> tp_owner := pc \<rparr>) = holding P"
  "running (P \<lparr> tp_shutting := b \<rparr>) = running P" "busy (P \<lparr> tp_shutting := b \<rparr>) = busy P" "holding (P \<lparr> tp_shutting := b \<rparr>) = holding P"
  "running (P \<lparr> tp_accepted := ts \<rparr>) = running P" "busy (P \<lparr> tp_accepted := ts \<rparr>) = busy P" "holding (P \<lparr> tp_accepted := ts \<rparr>) = holding P"
  "running (P \<lparr> tp_started := ts \<rparr>) = running P" "busy (P \<lparr> tp_started := ts \<rparr>) = busy P" "holding (P \<lparr> tp_started := ts \<rparr>) = holding P"
  "running (P \<lparr> tp_ended := ts \<rparr>) = running P" "busy (P \<lparr> tp_ended := ts \<rparr>) = busy P" "holding (P \<lparr> tp_ended := ts \<rparr>) = holding P"
  by (simp_all add: running_def busy_def holding_def)

lemma holding_pos: "worker_is P i WHold \<Longrightarrow> 0 < holding P"
  using member_le_sum_list [of 1 "map is_holding (tp_threads P)"] by (force simp: holding_def in_set_conv_nth)

lemma busy_pos: "worker_is P i w \<Longrightarrow> is_busy w = 1 \<Longrightarrow> 0 < busy P"
  using member_le_sum_list [of 1 "map is_busy (tp_threads P)"] by (force simp: busy_def in_set_conv_nth)

section \<open>The invariant\<close>

definition counted :: "ThreadPool \<Rightarrow> bool" where
  "counted P \<longleftrightarrow> tp_accepted P = tp_started P @ tp_q P \<and> mset (tp_started P) = mset (tp_ended P) + running P \<and>
     tp_inFlight P = busy P \<and> holding P + of_bool (tp_owner P = OHold) = of_bool (tp_mutex P)"

definition rested :: "ThreadPool \<Rightarrow> bool" where
  "rested P \<longleftrightarrow> tp_threads P \<noteq> [] \<and> (WHold \<in> set (tp_threads P) \<longrightarrow> tp_q P = [] \<and> \<not> tp_stopping P) \<and>
     (WExit \<in> set (tp_threads P) \<longrightarrow> tp_q P = [] \<and> tp_stopping P) \<and>
     (tp_q P \<noteq> [] \<longrightarrow> 0 < tp_notify P \<or> (\<exists>w \<in> set (tp_threads P). is_active w))"

definition stopped :: "ThreadPool \<Rightarrow> bool" where
  "stopped P \<longleftrightarrow> (tp_owner P \<in> {OWake, OJoin} \<longrightarrow> tp_stopping P) \<and> (tp_owner P = OJoin \<longrightarrow> WAsleep \<notin> set (tp_threads P))"

lemma awake_counts [simp]: "task_of (awake w) = task_of w" "is_busy (awake w) = is_busy w" "is_holding (awake w) = is_holding w"
  by (cases w; simp)+

lemma awake_all_counts [simp]:
  "running (P \<lparr> tp_threads := map awake (tp_threads P) \<rparr>) = running P" "busy (P \<lparr> tp_threads := map awake (tp_threads P) \<rparr>) = busy P"
  "holding (P \<lparr> tp_threads := map awake (tp_threads P) \<rparr>) = holding P"
  by (simp_all add: running_def busy_def holding_def comp_def)

lemma counted_step: "tp_step P P' \<Longrightarrow> counted P \<Longrightarrow> counted P'"
proof (induction rule: tp_step.induct)
  case (test P i)
  show ?case
  proof (cases "tp_q P")
    case Nil
    then show ?thesis using test set_worker_sums [of i "P \<lparr> tp_mutex := True \<rparr>" WTop WHold] set_worker_sums [of i P WTop WExit]
      by (auto simp: worker_test_def counted_def)
  next
    case (Cons fn q)
    let ?P = "P \<lparr> tp_q := q, tp_inFlight := tp_inFlight P + 1, tp_started := tp_started P @ [fn] \<rparr>"
    show ?thesis using test Cons set_worker_sums [of i ?P WTop "WRun fn"] by (auto simp: worker_test_def counted_def)
  qed
next
  case (sleep P i)
  then show ?case using set_worker_sums [of i "P \<lparr> tp_mutex := False \<rparr>" WHold WAsleep] holding_pos [of i P]
    by (auto simp: worker_sleep_def counted_def of_bool_def split: if_splits)
next
  case (ran P i fn)
  then show ?case using set_worker_sums [of i "P \<lparr> tp_ended := tp_ended P @ [fn] \<rparr>" "WRun fn" WFinished]
    by (auto simp: worker_ran_def counted_def)
next
  case (decrement P i)
  then show ?case
    using set_worker_sums [of i "P \<lparr> tp_inFlight := tp_inFlight P - 1 \<rparr>" WFinished WNote] busy_pos [of i P WFinished]
    by (auto simp: worker_decrement_def counted_def)
next
  case (notify_idle P i)
  then show ?case
    using set_worker_sums [of i "P \<lparr> tp_owner := (if tp_owner P = OAsleep then ODrain else tp_owner P) \<rparr>" WNote WTop]
    by (auto simp: worker_notify_def counted_def)
next
  case (notify_one P i)
  then show ?case using set_worker_sums [of i "P \<lparr> tp_notify := tp_notify P - 1 \<rparr>" WAsleep WTop] by (auto simp: counted_def)
qed (auto simp: counted_def drain_test_def drain_sleep_def stop_pool_def wake_all_def of_bool_def split: if_splits)

lemma counted_event: "tp_event P P' \<Longrightarrow> counted P \<Longrightarrow> counted P'"
proof (induction rule: tp_event.induct)
  case (worker_spurious P i)
  then show ?case using set_worker_sums [of i P WAsleep WTop] by (auto simp: counted_def)
qed (auto simp: counted_def tp_post_def)

text \<open>A worker changes its state: what becomes of the others stays.\<close>

lemma rested_put:
  assumes "rested P" "worker_is P i u" "tp_threads P1 = tp_threads P" "tp_stopping P1 = tp_stopping P" "set (tp_q P1) \<subseteq> set (tp_q P)"
    "v = WHold \<Longrightarrow> tp_q P1 = [] \<and> \<not> tp_stopping P1" "v = WExit \<Longrightarrow> tp_q P1 = [] \<and> tp_stopping P1"
    "tp_q P1 \<noteq> [] \<Longrightarrow> is_active v"
  shows "rested (set_worker i v P1)"
proof -
  have sub: "set ((tp_threads P)[i := v]) \<subseteq> insert v (set (tp_threads P))" by (rule set_update_subset_insert)
  have v: "v \<in> set ((tp_threads P)[i := v])" using assms(2) by (simp add: set_update_memI)
  have q: "tp_q P = [] \<Longrightarrow> tp_q P1 = []" using assms(5) by auto
  show ?thesis using assms sub v q by (auto simp: rested_def set_worker_def)
qed

lemma nobody_sleeps:
  assumes "rested P" "WAsleep \<notin> set (tp_threads P)" "tp_q P \<noteq> []"
  shows "\<exists>w \<in> set (tp_threads P). is_active w"
proof -
  obtain w where w: "w \<in> set (tp_threads P)" using assms(1) by (cases "tp_threads P") (auto simp: rested_def)
  have "is_active w" by (cases w) (use assms w in \<open>auto simp: rested_def\<close>)
  then show ?thesis using w by blast
qed

lemma nobody_holds: "counted P \<Longrightarrow> \<not> tp_mutex P \<Longrightarrow> WHold \<notin> set (tp_threads P)"
  using holding_pos by (fastforce simp: counted_def in_set_conv_nth)

lemma rested_step: "tp_step P P' \<Longrightarrow> counted P \<Longrightarrow> rested P \<Longrightarrow> rested P'"
proof (induction rule: tp_step.induct)
  case (test P i)
  then show ?case unfolding worker_test_def
    by (cases "tp_q P") (auto intro!: rested_put [of P i WTop] simp del: set_worker_frame)
next
  case (sleep P i)
  then have "WHold \<in> set (tp_threads P)" by (metis nth_mem)
  then have "tp_q P = []" using sleep by (auto simp: rested_def)
  then show ?case using sleep unfolding worker_sleep_def by (intro rested_put [of P i WHold]) auto
next
  case (ran P i fn)
  then show ?case unfolding worker_ran_def by (intro rested_put [of P i "WRun fn"]) auto
next
  case (decrement P i)
  then show ?case unfolding worker_decrement_def by (intro rested_put [of P i WFinished]) auto
next
  case (notify_idle P i)
  then show ?case unfolding worker_notify_def by (intro rested_put [of P i WNote]) auto
next
  case (notify_one P i)
  then show ?case by (intro rested_put [of P i WAsleep]) auto
next
  case (notify_none P)
  then show ?case using nobody_sleeps [of P] by (auto simp: rested_def)
next
  case (stop P)
  then show ?case using nobody_holds [of P] by (auto simp: rested_def stop_pool_def)
next
  case (wake P)
  have active: "is_active w \<Longrightarrow> is_active (awake w)" and same: "WHold = awake w \<longleftrightarrow> w = WHold" "WExit = awake w \<longleftrightarrow> w = WExit" for w
    by (cases w; simp)+
  show ?case using wake.prems active by (auto simp: rested_def wake_all_def same)
qed (auto simp: rested_def drain_test_def drain_sleep_def)

lemma rested_event: "tp_event P P' \<Longrightarrow> counted P \<Longrightarrow> rested P \<Longrightarrow> rested P'"
proof (induction rule: tp_event.induct)
  case (post P fn)
  then show ?case using nobody_holds [of P] by (auto simp: rested_def tp_post_def)
next
  case (worker_spurious P i)
  then show ?case by (intro rested_put [of P i WAsleep]) auto
qed (auto simp: rested_def)

lemma stopped_step: "tp_step P P' \<Longrightarrow> rested P \<Longrightarrow> stopped P \<Longrightarrow> stopped P'"
proof (induction rule: tp_step.induct)
  case (sleep P i)
  then have "WHold \<in> set (tp_threads P)" by (metis nth_mem)
  then have "\<not> tp_stopping P" using sleep by (auto simp: rested_def)
  then show ?case using sleep by (auto simp: stopped_def worker_sleep_def set_worker_def)
next
  case (wake P)
  have "awake w \<noteq> WAsleep" for w by (cases w) simp_all
  then show ?case using wake by (auto simp: stopped_def wake_all_def image_iff) (metis)
qed (auto simp: stopped_def worker_test_def worker_ran_def worker_decrement_def worker_notify_def set_worker_def drain_test_def
    drain_sleep_def stop_pool_def split: list.splits if_splits dest!: set_update_subset_insert [THEN subsetD])

lemma stopped_event: "tp_event P P' \<Longrightarrow> stopped P \<Longrightarrow> stopped P'"
  by (induction rule: tp_event.induct)
    (auto simp: stopped_def tp_post_def set_worker_def dest!: set_update_subset_insert [THEN subsetD])

lemma new_pool_ok: "counted (ThreadPool_new n) \<and> rested (ThreadPool_new n) \<and> stopped (ThreadPool_new n)"
  using no_tasks [of "replicate (max 1 n) WTop"]
  by (simp add: ThreadPool_new_def counted_def rested_def stopped_def running_def busy_def holding_def sum_list_replicate)

lemma run_pool_ok: "tp_run (ThreadPool_new n) P \<Longrightarrow> counted P \<and> rested P \<and> stopped P"
proof (induction rule: rtranclp_induct)
  case base
  show ?case by (rule new_pool_ok)
next
  case (step P P')
  then consider "tp_step P P'" | "tp_event P P'" by auto
  then show ?case
    by cases (use step.IH counted_step rested_step stopped_step counted_event rested_event stopped_event in blast)+
qed

section \<open>Properties\<close>

text \<open>C38. However posting threads, workers and the owner of the pool interleave, and whenever threads wake up: the tasks are started in the
  order in which they were accepted and each once; a task that was started is running or has ended, once; a task in the queue never
  waits with nobody to take it, for some worker is on its way to the queue or a wake-up is due; and when \<^verbatim>\<open>drain\<close> or \<^verbatim>\<open>shutdown\<close> returns,
  every task accepted so far has ended.\<close>

theorem pool_runs_each_task_once:
  assumes "tp_run (ThreadPool_new n) P"
  shows "tp_accepted P = tp_started P @ tp_q P \<and> mset (tp_started P) = mset (tp_ended P) + running P \<and>
    (tp_q P \<noteq> [] \<longrightarrow> 0 < tp_notify P \<or> (\<exists>w \<in> set (tp_threads P). is_active w)) \<and>
    (tp_owner P = ODrain \<and> tp_owner (drain_test P) \<in> {OIdle, OStop} \<longrightarrow> mset (tp_ended P) = mset (tp_accepted P)) \<and>
    (tp_owner P = OJoin \<and> set (tp_threads P) \<subseteq> {WExit} \<longrightarrow> mset (tp_ended P) = mset (tp_accepted P))"
proof -
  have ok: "counted P" "rested P" using run_pool_ok [OF assms] by auto
  have idle: "running P = {#}" if "busy P = 0"
  proof -
    have "is_busy w = 0 \<Longrightarrow> task_of w = {#}" for w by (cases w) auto
    then have "\<forall>w \<in> set (tp_threads P). task_of w = {#}" using that by (simp add: busy_def)
    then show ?thesis unfolding running_def by (rule no_tasks)
  qed
  have "mset (tp_ended P) = mset (tp_accepted P)" if "tp_owner P = ODrain" "tp_owner (drain_test P) \<in> {OIdle, OStop}"
    using that ok(1) idle by (auto simp: drain_test_def counted_def split: if_splits)
  moreover have "mset (tp_ended P) = mset (tp_accepted P)" if exit: "set (tp_threads P) \<subseteq> {WExit}"
  proof -
    obtain w where w: "w \<in> set (tp_threads P)" using ok(2) by (cases "tp_threads P") (auto simp: rested_def)
    then have "WExit \<in> set (tp_threads P)" using exit by auto
    then have "tp_q P = []" using ok(2) by (auto simp: rested_def)
    moreover have "busy P = 0" using exit by (auto simp: busy_def)
    ultimately show ?thesis using ok(1) idle by (simp add: counted_def)
  qed
  ultimately show ?thesis using ok by (auto simp: counted_def rested_def)
qed

section \<open>A missed wake-up\<close>

text \<open>
  The worker counts down and notifies without the mutex. When it does both between the test of \<^verbatim>\<open>drain\<close> and its going to sleep, the
  owner sleeps although nothing is queued or running, and no thread will wake it.
\<close>

definition before_test :: ThreadPool where
  "before_test = (tp_post 7 (ThreadPool_new 1)) \<lparr> tp_owner := ODrain, tp_shutting := False \<rparr>"

definition missed :: ThreadPool where
  "missed = worker_sleep 0 (worker_test 0 (drain_sleep (worker_notify 0 (worker_decrement 0 (worker_ran 0 7
     (drain_test ((worker_test 0 before_test) \<lparr> tp_notify := 0 \<rparr>)))))))"

lemmas pool_ops = worker_test_def worker_sleep_def worker_ran_def worker_decrement_def worker_notify_def drain_test_def drain_sleep_def
  tp_post_def set_worker_def ThreadPool_new_def before_test_def

lemma missed_state:
  "missed = \<lparr> tp_threads = [WAsleep], tp_mutex = False, tp_q = [], tp_stopping = False, tp_inFlight = 0, tp_notify = 0,
     tp_owner = OAsleep, tp_shutting = False, tp_accepted = [7], tp_started = [7], tp_ended = [7] \<rparr>"
  by (simp add: missed_def pool_ops)

lemma run_step: "tp_run P Q \<Longrightarrow> tp_step Q R \<Longrightarrow> tp_run P R" and run_event: "tp_run P Q \<Longrightarrow> tp_event Q R \<Longrightarrow> tp_run P R"
  by (simp_all add: rtranclp.rtrancl_into_rtrancl)

lemma missed_reached: "tp_run (ThreadPool_new 1) missed"
proof -
  let ?a = "worker_test 0 before_test"
  let ?b = "?a \<lparr> tp_notify := 0 \<rparr>" let ?c = "drain_test ?b" let ?d = "worker_ran 0 7 ?c" let ?e = "worker_decrement 0 ?d"
  let ?f = "worker_notify 0 ?e" let ?g = "drain_sleep ?f" let ?h = "worker_test 0 ?g"
  have "tp_run (ThreadPool_new 1) (tp_post 7 (ThreadPool_new 1))"
    by (rule run_event [OF rtranclp.rtrancl_refl tp_event.post]) (simp add: pool_ops)
  then have "tp_run (ThreadPool_new 1) before_test" unfolding before_test_def
    by (rule run_event [OF _ tp_event.call_drain]) (simp add: pool_ops)
  then have "tp_run (ThreadPool_new 1) ?a"
    by (rule run_step [OF _ tp_step.test]) (simp_all add: pool_ops)
  moreover have "tp_step ?a ?b"
    using tp_step.notify_none [of "?a"] by (simp add: pool_ops)
  ultimately have "tp_run (ThreadPool_new 1) ?b" by (rule run_step)
  then have "tp_run (ThreadPool_new 1) ?c"
    by (rule run_step [OF _ tp_step.drain]) (simp_all add: pool_ops)
  then have "tp_run (ThreadPool_new 1) ?d"
    by (rule run_step [OF _ tp_step.ran]) (simp_all add: pool_ops)
  then have "tp_run (ThreadPool_new 1) ?e"
    by (rule run_step [OF _ tp_step.decrement]) (simp_all add: pool_ops)
  then have "tp_run (ThreadPool_new 1) ?f"
    by (rule run_step [OF _ tp_step.notify_idle]) (simp_all add: pool_ops)
  then have "tp_run (ThreadPool_new 1) ?g"
    by (rule run_step [OF _ tp_step.drain_waits]) (simp add: pool_ops)
  then have "tp_run (ThreadPool_new 1) ?h"
    by (rule run_step [OF _ tp_step.test]) (simp_all add: pool_ops)
  then show ?thesis unfolding missed_def by (rule run_step [OF _ tp_step.sleep]) (simp add: pool_ops)
qed

lemma drain_wakeup_missed:
  "tp_run (ThreadPool_new 1) missed \<and> tp_q missed = [] \<and> tp_inFlight missed = 0 \<and> tp_owner missed = OAsleep \<and> (\<nexists>P'. tp_step missed P')"
  using missed_reached by (auto simp: missed_state elim!: tp_step.cases)

theorem pool_runs_each_task_once_witness: "tp_accepted missed = tp_started missed @ tp_q missed \<and> mset (tp_started missed) = mset (tp_ended missed) + running missed"
  using pool_runs_each_task_once [OF missed_reached] by blast

end
