(* ===== verification/Log_Lines.thy ===== *)
theory Log_Lines
  imports Text_Format
begin

text \<open>
  The logger (\<^verbatim>\<open>util/Logger.cpp\<close>): levels, the context of a thread, the escaping of texts and the two formats of a line. The time is
  a text given from outside; a file is its path, the standard output is \<^const>\<open>None\<close>, and the lines written so far are listed with the
  file they went to. The mutex makes a line one step; flushing and closing files are left out.
\<close>

section \<open>Levels\<close>

datatype LogLevel = LTrace | LDebug | LInfo | LWarn | LError

fun level_int :: "LogLevel \<Rightarrow> nat" where
  "level_int LTrace = 0" | "level_int LDebug = 1" | "level_int LInfo = 2" | "level_int LWarn = 3" | "level_int LError = 4"

fun lvlStr :: "LogLevel \<Rightarrow> string" where
  "lvlStr LTrace = ''TRACE''" | "lvlStr LDebug = ''DEBUG''" | "lvlStr LInfo = ''INFO''" | "lvlStr LWarn = ''WARN''" | "lvlStr LError = ''ERROR''"

definition parseLevel :: "string \<Rightarrow> LogLevel" where
  "parseLevel s = (let x = map tolower s
     in if x = ''trace'' then LTrace else if x = ''debug'' then LDebug else if x = ''info'' then LInfo
        else if x = ''warn'' then LWarn else if x = ''error'' then LError else LInfo)"

section \<open>Lines\<close>

abbreviation dquote :: char where "dquote \<equiv> CHR 0x22"
abbreviation backslash :: char where "backslash \<equiv> CHR 0x5C"
abbreviation newline :: char where "newline \<equiv> CHR 0x0A"

definition hex_digit :: "nat \<Rightarrow> char" where
  "hex_digit n = (if n < 10 then char_of (48 + n) else char_of (87 + n))"

definition escape_char :: "char \<Rightarrow> string" where
  "escape_char c =
     (if c = dquote then [backslash, dquote]
      else if c = backslash then [backslash, backslash]
      else if c = newline then [backslash, CHR ''n'']
      else if c = CHR 0x0D then [backslash, CHR ''r'']
      else if c = CHR 0x09 then [backslash, CHR ''t'']
      else if char_code c < 32 then backslash # ''u00'' @ [hex_digit (char_code c div 16), hex_digit (char_code c mod 16)]
      else [c])"

definition escapeJson :: "string \<Rightarrow> string" where
  "escapeJson s = concat (map escape_char s)"

definition json_field :: "string \<times> string \<Rightarrow> string" where
  "json_field kv = [CHR '','', dquote] @ escapeJson (fst kv) @ [dquote, CHR '':'', dquote] @ escapeJson (snd kv) @ [dquote]"

definition json_line :: "string \<Rightarrow> LogLevel \<Rightarrow> string \<Rightarrow> (string \<times> string) list \<Rightarrow> (string \<times> string) list \<Rightarrow> string" where
  "json_line ts lvl msg ctx kvs =
     [CHR ''{'', dquote] @ ''ts'' @ [dquote, CHR '':'', dquote] @ ts @ [dquote, CHR '','', dquote] @ ''lvl'' @ [dquote, CHR '':'', dquote] @ lvlStr lvl
     @ [dquote, CHR '','', dquote] @ ''msg'' @ [dquote, CHR '':'', dquote] @ escapeJson msg @ [dquote]
     @ concat (map json_field ctx) @ concat (map json_field kvs) @ [CHR ''}'', newline]"

definition pad_left5 :: "string \<Rightarrow> string" where
  "pad_left5 s = s @ replicate (5 - length s) (CHR '' '')"

definition text_field :: "string \<times> string \<Rightarrow> string" where
  "text_field kv = CHR '' '' # c_str (fst kv) @ CHR ''='' # c_str (snd kv)"

definition text_line :: "string \<Rightarrow> LogLevel \<Rightarrow> string \<Rightarrow> (string \<times> string) list \<Rightarrow> (string \<times> string) list \<Rightarrow> string" where
  "text_line ts lvl msg ctx kvs = [CHR ''[''] @ c_str ts @ [CHR '']'', CHR '' ''] @ pad_left5 (lvlStr lvl) @ [CHR '' ''] @ c_str msg
     @ concat (map text_field ctx) @ concat (map text_field kvs) @ [newline]"

section \<open>The logger\<close>

record Logger =
  lg_file :: "string option"
  lg_lvl :: LogLevel
  lg_json :: bool
  lg_out :: "(string option \<times> string) list"

definition Logger_new :: Logger where
  "Logger_new = \<lparr> lg_file = None, lg_lvl = LInfo, lg_json = False, lg_out = [] \<rparr>"

definition setLevel :: "LogLevel \<Rightarrow> Logger \<Rightarrow> Logger" where
  "setLevel lvl L = L \<lparr> lg_lvl := lvl \<rparr>"

definition setFormatJson :: "bool \<Rightarrow> Logger \<Rightarrow> Logger" where
  "setFormatJson json L = L \<lparr> lg_json := json \<rparr>"

text \<open>\<open>opens\<close> tells whether \<^verbatim>\<open>fopen\<close> succeeds.\<close>

definition setFile :: "bool \<Rightarrow> string \<Rightarrow> Logger \<Rightarrow> Logger" where
  "setFile opens path L = L \<lparr> lg_file := (if path = [] \<or> \<not> opens then None else Some (c_str path)) \<rparr>"

definition writeLine :: "string \<Rightarrow> (string \<times> string) list \<Rightarrow> LogLevel \<Rightarrow> string \<Rightarrow> (string \<times> string) list \<Rightarrow> Logger \<Rightarrow> Logger" where
  "writeLine now ctx lvl msg kvs L =
     L \<lparr> lg_out := lg_out L @ [(lg_file L, if lg_json L then json_line now lvl msg ctx kvs else text_line now lvl msg ctx kvs)] \<rparr>"

definition log_message :: "string \<Rightarrow> (string \<times> string) list \<Rightarrow> LogLevel \<Rightarrow> string \<Rightarrow> (string \<times> string) list \<Rightarrow> Logger \<Rightarrow> Logger" where
  "log_message now ctx lvl msg kvs L = (if level_int lvl < level_int (lg_lvl L) then L else writeLine now ctx lvl msg kvs L)"

section \<open>Scopes\<close>

text \<open>A scope sets its fields in the ordered map of the thread; its end takes its keys out.\<close>

definition Scoped_begin :: "(string \<times> string) list \<Rightarrow> (string \<times> string) list \<Rightarrow> string list \<times> (string \<times> string) list" where
  "Scoped_begin add ctx = (map fst add, fold (\<lambda>(k, v) m. om_set str_lt k v m) add ctx)"

definition Scoped_end :: "string list \<Rightarrow> (string \<times> string) list \<Rightarrow> (string \<times> string) list" where
  "Scoped_end addedKeys ctx = fold AList.delete addedKeys ctx"

end
