(* ===== verification/Log_Lines_Thms.thy ===== *)
theory Log_Lines_Thms
  imports Log_Lines
begin

text \<open>
  A reader of log lines in the JSON format, after the grammar of JSON strings, and the round trip: every line can be read back, whatever
  the message and the fields contain. The text format does not have this property, and a nested scope loses fields of the outer one.
\<close>

section \<open>Reading a line\<close>

text \<open>The rest of an escape sequence; of the sequences with hexadecimal digits those of the characters below 32.\<close>

fun read_hex :: "string \<Rightarrow> (char \<times> string) option" where
  "read_hex (a # b # x # y # s) =
     (if a = CHR ''0'' \<and> b = CHR ''0'' \<and> digit_val x < 16 \<and> digit_val y < 16 then Some (char_of (16 * digit_val x + digit_val y), s) else None)"
| "read_hex _ = None"

fun read_escape :: "string \<Rightarrow> (char \<times> string) option" where
  "read_escape [] = None"
| "read_escape (c # s) =
     (if c = dquote \<or> c = backslash then Some (c, s)
      else if c = CHR ''n'' then Some (newline, s)
      else if c = CHR ''r'' then Some (CHR 0x0D, s)
      else if c = CHR ''t'' then Some (CHR 0x09, s)
      else if c = CHR ''u'' then read_hex s
      else None)"

lemma read_hex_length: "read_hex s = Some (c, r) \<Longrightarrow> length r < length s"
  by (induction s rule: read_hex.induct) (auto split: if_splits)

lemma read_escape_length: "read_escape s = Some (c, r) \<Longrightarrow> length r < length s"
  by (cases s) (auto split: if_splits dest: read_hex_length)

text \<open>The rest of a string up to its closing quote.\<close>

function read_string :: "string \<Rightarrow> (string \<times> string) option" where
  "read_string [] = None"
| "read_string (c # s) =
     (if c = dquote then Some ([], s)
      else if c = backslash then (case read_escape s of
          None \<Rightarrow> None
        | Some (d, r) \<Rightarrow> map_option (apfst (Cons d)) (read_string r))
      else if char_code c < 32 then None
      else map_option (apfst (Cons c)) (read_string s))"
  by pat_completeness auto
termination by (relation "measure length") (auto dest: read_escape_length)

lemma read_string_length: "read_string s = Some (v, r) \<Longrightarrow> length r < length s"
proof (induction s arbitrary: v rule: read_string.induct)
  case (2 c s)
  then show ?case by (fastforce split: if_splits option.splits dest: read_escape_length)
qed simp

fun read_quoted :: "string \<Rightarrow> (string \<times> string) option" where
  "read_quoted (c # s) = (if c = dquote then read_string s else None)"
| "read_quoted [] = None"

definition read_member :: "string \<Rightarrow> ((string \<times> string) \<times> string) option" where
  "read_member s = (case read_quoted s of
       Some (k, c # r) \<Rightarrow> (if c = CHR '':'' then map_option (\<lambda>(v, r'). ((k, v), r')) (read_quoted r) else None)
     | _ \<Rightarrow> None)"

lemma read_quoted_length: "read_quoted s = Some (v, r) \<Longrightarrow> length r < length s"
  by (cases s) (auto split: if_splits dest: read_string_length)

lemma read_member_length: "read_member s = Some (kv, r) \<Longrightarrow> length r < length s"
  by (fastforce simp: read_member_def split: option.splits list.splits if_splits dest: read_quoted_length)

function read_members :: "string \<Rightarrow> ((string \<times> string) list \<times> string) option" where
  "read_members s = (case read_member s of
       Some (kv, c # r) \<Rightarrow>
         (if c = CHR ''}'' then Some ([kv], r)
          else if c = CHR '','' then map_option (apfst (Cons kv)) (read_members r)
          else None)
     | _ \<Rightarrow> None)"
  by auto
termination by (relation "measure length") (auto dest: read_member_length)

declare read_members.simps [simp del]

definition read_line :: "string \<Rightarrow> (string \<times> string) list option" where
  "read_line s = (case s of
       c # r \<Rightarrow> if c = CHR ''{'' then (case read_members r of Some (kvs, e) \<Rightarrow> if e = [newline] then Some kvs else None | None \<Rightarrow> None) else None
     | [] \<Rightarrow> None)"

section \<open>The round trip\<close>

lemma low_char: "char_code c < 32 \<Longrightarrow> c \<in> set (map char_of [0..<32::nat])"
  by (auto simp: char_code_def intro!: image_eqI [of _ char_of "of_char c"])

lemma hex_roundtrip: "char_code c < 32 \<Longrightarrow>
    digit_val (hex_digit (char_code c div 16)) < 16 \<and> digit_val (hex_digit (char_code c mod 16)) < 16 \<and>
    char_of (16 * digit_val (hex_digit (char_code c div 16)) + digit_val (hex_digit (char_code c mod 16))) = c \<and>
    hex_digit (char_code c div 16) \<noteq> dquote"
proof -
  have all: "\<forall>c \<in> set (map char_of [0..<32::nat]). digit_val (hex_digit (char_code c div 16)) < 16 \<and> digit_val (hex_digit (char_code c mod 16)) < 16 \<and>
    char_of (16 * digit_val (hex_digit (char_code c div 16)) + digit_val (hex_digit (char_code c mod 16))) = c \<and>
    hex_digit (char_code c div 16) \<noteq> dquote"
    by code_simp
  assume "char_code c < 32"
  then show ?thesis using low_char all by blast
qed

lemma read_escaped_char: "read_string (escape_char c @ s) = map_option (apfst (Cons c)) (read_string s)"
  using hex_roundtrip [of c] by (auto simp: escape_char_def char_code_def)

lemma read_escaped: "read_string (escapeJson v @ dquote # s) = Some (v, s)"
  by (induction v) (simp_all add: escapeJson_def read_escaped_char)

definition plain :: "string \<Rightarrow> bool" where
  "plain s \<longleftrightarrow> list_all (\<lambda>c. c \<noteq> dquote \<and> c \<noteq> backslash \<and> 32 \<le> char_code c) s"

lemma plain_escaped: "plain s \<Longrightarrow> escapeJson s = s"
  by (induction s) (auto simp: plain_def escapeJson_def escape_char_def char_code_def)

lemma read_member_written:
  "read_member (dquote # escapeJson k @ dquote # CHR '':'' # dquote # escapeJson v @ dquote # s) = Some ((k, v), s)"
  by (simp add: read_member_def read_escaped)

lemma read_members_written:
  "read_members (tl (concat (map json_field (kv # kvs))) @ CHR ''}'' # s) = Some (kv # kvs, s)"
proof (induction kvs arbitrary: kv)
  case Nil
  show ?case by (subst read_members.simps) (simp add: json_field_def read_member_written)
next
  case (Cons kv' kvs)
  have "tl (concat (map json_field (kv # kv' # kvs))) @ CHR ''}'' # s
      = dquote # escapeJson (fst kv) @ dquote # CHR '':'' # dquote # escapeJson (snd kv) @ dquote # CHR '','' # tl (concat (map json_field (kv' # kvs))) @ CHR ''}'' # s"
    by (simp add: json_field_def)
  then show ?case using Cons [of kv'] by (subst read_members.simps) (simp add: read_member_written)
qed

lemma json_line_fields:
  assumes "plain ts"
  shows "json_line ts lvl msg ctx kvs
    = CHR ''{'' # tl (concat (map json_field ([(''ts'', ts), (''lvl'', lvlStr lvl), (''msg'', msg)] @ ctx @ kvs))) @ [CHR ''}'', newline]"
proof -
  have "plain ''ts''" "plain ''lvl''" "plain ''msg''" "plain (lvlStr lvl)" by (cases lvl; simp add: plain_def char_code_def)+
  then show ?thesis using assms by (simp add: json_line_def json_field_def plain_escaped)
qed

text \<open>C40. A line in the JSON format can be read back: whatever the message, the context and the fields contain, quotes, backslashes, line
  breaks and control characters included, the reader finds the time, the level, the message and all fields in order, and the end of
  the line. No text can forge a field or a second line.\<close>

theorem log_line_roundtrip:
  assumes "plain ts"
  shows "read_line (json_line ts lvl msg ctx kvs) = Some ([(''ts'', ts), (''lvl'', lvlStr lvl), (''msg'', msg)] @ ctx @ kvs)"
proof -
  have "read_members (tl (concat (map json_field ((''ts'', ts) # [(''lvl'', lvlStr lvl), (''msg'', msg)] @ ctx @ kvs))) @ CHR ''}'' # [newline])
      = Some ((''ts'', ts) # [(''lvl'', lvlStr lvl), (''msg'', msg)] @ ctx @ kvs, [newline])"
    by (rule read_members_written)
  then show ?thesis unfolding json_line_fields [OF assms] read_line_def by simp
qed

theorem log_line_roundtrip_witness:
  "read_line (json_line ''2024-01-01T00:00:00.000'' LInfo [newline, dquote] [] [(''id'', ''7'')])
     = Some [(''ts'', ''2024-01-01T00:00:00.000''), (''lvl'', ''INFO''), (''msg'', [newline, dquote]), (''id'', ''7'')]"
  using log_line_roundtrip [of "''2024-01-01T00:00:00.000''" LInfo "[newline, dquote]" "[]" "[(''id'', ''7'')]"]
  by (simp add: plain_def char_code_def)

section \<open>What the other parts do not promise\<close>

text \<open>In the text format a message can write a second line that looks like any other.\<close>

lemma text_line_forged:
  "\<exists>msg. text_line ts LInfo msg [] [] = text_line ts LInfo ''a'' [] [] @ text_line ts LError ''b'' [] []"
  if "c_str ts = ts"
proof -
  let ?second = "text_line ts LError ''b'' [] []"
  have no_nul: "CHR 0x00 \<notin> set ts" using that unfolding c_str_def takeWhile_eq_all_conv by blast
  have "c_str ''b'' = ''b''" by (simp add: c_str_def)
  then have "CHR 0x00 \<notin> set ?second" using no_nul by (simp add: text_line_def pad_left5_def that)
  then have "CHR 0x00 \<notin> set (butlast ?second)" by (meson in_set_butlastD)
  then have "c_str (''a'' @ newline # butlast ?second) = ''a'' @ newline # butlast ?second"
    unfolding c_str_def takeWhile_eq_all_conv by auto
  moreover have "butlast ?second @ [newline] = ?second" by (simp add: text_line_def butlast_append)
  ultimately have "text_line ts LInfo (''a'' @ newline # butlast ?second) [] [] = text_line ts LInfo ''a'' [] [] @ ?second"
    by (simp add: text_line_def [of ts LInfo] c_str_def [of "''a''"])
  then show ?thesis by blast
qed

text \<open>A scope inside another with the same key takes the outer field away at its end.\<close>

lemma inner_scope_erases:
  "case Scoped_begin [(''conn'', ''1'')] [] of (outer, ctx) \<Rightarrow> (case Scoped_begin [(''conn'', ''2'')] ctx of (inner, ctx') \<Rightarrow>
     map_of ctx ''conn'' = Some ''1'' \<and> map_of (Scoped_end inner ctx') ''conn'' = None)"
  by (simp add: Scoped_begin_def Scoped_end_def)

end
