(* ===== verification/Ta_Indicators.thy ===== *)
theory Ta_Indicators
  imports Market_TA_Thms
begin

text \<open>
  The header of incremental indicators (\<^verbatim>\<open>ta/Indicators.hpp\<close>) on IEEE doubles: aggregations of the last values of a history and the
  smoothed relative strength index with its state. Sorting a sequence with a NaN and reading behind the end of a deque have no
  specified effect, the result \<^const>\<open>None\<close>.
\<close>

section \<open>Aggregations of the last values\<close>

definition sma_lastN :: "double list \<Rightarrow> nat \<Rightarrow> double" where
  "sma_lastN xs N = (if N = 0 \<or> length xs < N then DNaN else ddiv (dsum (last_n N xs)) (of_size N))"

definition min_lastN :: "double list \<Rightarrow> nat \<Rightarrow> double" where
  "min_lastN xs N = (if N = 0 \<or> length xs < N then DNaN else fold (\<lambda>x m. dmin m x) (tl (last_n N xs)) (hd (last_n N xs)))"

definition max_lastN :: "double list \<Rightarrow> nat \<Rightarrow> double" where
  "max_lastN xs N = (if N = 0 \<or> length xs < N then DNaN else fold (\<lambda>x m. dmax m x) (tl (last_n N xs)) (hd (last_n N xs)))"

definition stddev_lastN :: "double list \<Rightarrow> nat \<Rightarrow> double" where
  "stddev_lastN xs N =
     (if N = 0 \<or> length xs < N then DNaN
      else let mean = sma_lastN xs N
           in if \<not> isfinite mean then DNaN
              else dsqrt (ddiv (fold (\<lambda>x acc. let d = dsub x mean in dadd acc (dmul d d)) (last_n N xs) (DZero False)) (of_size N)))"

definition median_lastN :: "double list \<Rightarrow> nat \<Rightarrow> double option" where
  "median_lastN xs N =
     (if N = 0 \<or> length xs < N then Some DNaN
      else case dsort (last_n N xs) of
          None \<Rightarrow> None
        | Some tmp \<Rightarrow> Some (if odd N then tmp ! (N div 2) else dmul (DFin (1 / 2)) (dadd (tmp ! (N div 2 - 1)) (tmp ! (N div 2)))))"

definition ema_next :: "double \<Rightarrow> double \<Rightarrow> double list \<Rightarrow> nat \<Rightarrow> double" where
  "ema_next prevEMA newX xs N =
     (if N = 0 then DNaN
      else let alpha = ddiv (DFin 2) (dadd (of_size N) (DFin 1))
           in if \<not> isfinite prevEMA then (if length xs < N then DNaN else sma_lastN xs N)
              else dadd (dmul alpha newX) (dmul (dsub (DFin 1) alpha) prevEMA))"

text \<open>The volume at the index of the price.\<close>

definition vwap_lastN :: "double list \<Rightarrow> double list \<Rightarrow> nat \<Rightarrow> double option" where
  "vwap_lastN px vol N =
     (if N = 0 \<or> length px < N \<or> length vol < N then Some DNaN
      else if length vol < length px then None
      else let (pv, v) = fold (\<lambda>i (pv, v). (dadd pv (dmul (px ! i) (vol ! i)), dadd v (vol ! i)))
                 [length px - N..<length px] (DZero False, DZero False)
           in Some (if dle v (DZero False) then DNaN else ddiv pv v))"

section \<open>The smoothed relative strength index\<close>

record RsiState =
  rsi_avgGain :: double
  rsi_avgLoss :: double
  rsi_init :: bool
  rsi_lastPx :: double
  rsi_count :: nat

definition RsiState_new :: RsiState where
  "RsiState_new = \<lparr> rsi_avgGain = DNaN, rsi_avgLoss = DNaN, rsi_init = False, rsi_lastPx = DNaN, rsi_count = 0 \<rparr>"

definition smooth :: "nat \<Rightarrow> double \<Rightarrow> double \<Rightarrow> double" where
  "smooth n avg x = ddiv (dadd (dmul avg (of_size (n - 1))) x) (of_size n)"

definition rsi_of :: "double \<Rightarrow> double \<Rightarrow> double" where
  "rsi_of avgGain avgLoss = (if dle avgLoss (DZero False) then DFin 100
     else dsub (DFin 100) (ddiv (DFin 100) (dadd (DFin 1) (ddiv avgGain avgLoss))))"

definition rsi_update :: "RsiState \<Rightarrow> double \<Rightarrow> nat \<Rightarrow> double \<times> RsiState" where
  "rsi_update st newPx n =
     (if n = 0 then (DNaN, st)
      else if \<not> isfinite (rsi_lastPx st) then (DNaN, st \<lparr> rsi_lastPx := newPx \<rparr>)
      else let chg = dsub newPx (rsi_lastPx st);
               gain = (if dlt (DZero False) chg then chg else DZero False);
               loss = (if dlt chg (DZero False) then dminus chg else DZero False);
               seed = (\<lambda>a. if isfinite a then a else DZero False)
           in if \<not> rsi_init st then
                let g = smooth n (seed (rsi_avgGain st)) gain; l = smooth n (seed (rsi_avgLoss st)) loss;
                    st1 = st \<lparr> rsi_lastPx := newPx, rsi_avgGain := g, rsi_avgLoss := l, rsi_count := rsi_count st + 1 \<rparr>
                in if rsi_count st1 < n then (DNaN, st1) else (rsi_of g l, st1 \<lparr> rsi_init := True \<rparr>)
              else let g = smooth n (rsi_avgGain st) gain; l = smooth n (rsi_avgLoss st) loss
                   in (rsi_of g l, st \<lparr> rsi_lastPx := newPx, rsi_avgGain := g, rsi_avgLoss := l \<rparr>))"

fun rsi_stream :: "nat \<Rightarrow> double list \<Rightarrow> RsiState \<Rightarrow> double list" where
  "rsi_stream n [] st = []"
| "rsi_stream n (x # xs) st = (case rsi_update st x n of (v, st') \<Rightarrow> v # rsi_stream n xs st')"

section \<open>Properties\<close>

text \<open>The averages are not negative, or NaN.\<close>

definition average :: "double \<Rightarrow> bool" where
  "average d \<longleftrightarrow> d = DNaN \<or> nonneg d"

lemma average_scaled: "average d \<Longrightarrow> n < 2 ^ 53 \<Longrightarrow> average (dmul d (of_size n))"
proof (cases "n = 0")
  case True
  assume "average d"
  then show ?thesis using True by (cases d) (auto simp: average_def of_size_def double_of_int_def nonneg_def isfinite_def round_double_def)
next
  case False
  assume d: "average d" "n < 2 ^ 53"
  then have "of_size n = DFin (of_int (int n))" using False by (intro of_size_pos) auto
  then show ?thesis using d False scale_nonneg(1) [of d "of_int (int n)"] by (auto simp: average_def)
qed

lemma average_smooth:
  assumes "average a" "nonneg x" "0 < n" "n < 2 ^ 53"
  shows "average (smooth n a x)"
proof -
  have "average (dmul a (of_size (n - 1)))" using assms by (intro average_scaled) auto
  then have "average (dadd (dmul a (of_size (n - 1))) x)" using assms(2) dadd_nonneg by (auto simp: average_def)
  then show ?thesis using of_size_pos [OF assms(3,4)] scale_nonneg(2) assms(3) by (auto simp: smooth_def average_def)
qed

lemma rsi_of_range:
  assumes "average g" "average l"
  shows "isnan (rsi_of g l) \<or> in_range 100 (rsi_of g l)"
proof (cases "dle l (DZero False)")
  case True
  then show ?thesis by (simp add: rsi_of_def in_range_def isfinite_def)
next
  case False
  show ?thesis
  proof (cases "g = DNaN \<or> l = DNaN")
    case True
    then have "ddiv g l = DNaN" by (cases g) auto
    then show ?thesis using False by (simp add: rsi_of_def dsub_def)
  next
    case nan: False
    then have "\<exists>e > 0. l = DFin e \<or> l = DInf False" using False assms(2)
      by (cases l) (auto simp: average_def nonneg_def isfinite_def dle_def intro: exI [of _ 1])
    then have "ddiv g l = DNaN \<or> nonneg (ddiv g l)" using ratio_nonneg assms(1) nan by (auto simp: average_def)
    then show ?thesis using False percent_of_ratio by (auto simp: rsi_of_def dsub_def)
  qed
qed

lemma changes_nonneg: "nonneg (if dlt (DZero False) c then c else DZero False)" "nonneg (if dlt c (DZero False) then dminus c else DZero False)"
  by (cases c; auto)+

lemma seeded: "average a \<Longrightarrow> average (if isfinite a then a else DZero False)"
  by (simp add: average_def)

lemma rsi_update_range:
  assumes "average (rsi_avgGain st)" "average (rsi_avgLoss st)" "0 < n" "n < 2 ^ 53" "rsi_update st x n = (v, st')"
  shows "(isnan v \<or> in_range 100 v) \<and> average (rsi_avgGain st') \<and> average (rsi_avgLoss st')"
proof -
  define c where "c = dsub x (rsi_lastPx st)"
  define gain where "gain = (if dlt (DZero False) c then c else DZero False)"
  define loss where "loss = (if dlt c (DZero False) then dminus c else DZero False)"
  define seed where "seed a = (if isfinite a then a else DZero False)" for a
  have change: "nonneg gain" "nonneg loss" unfolding gain_def loss_def by (rule changes_nonneg)+
  have seeds: "average (seed (rsi_avgGain st))" "average (seed (rsi_avgLoss st))" unfolding seed_def using assms(1,2) seeded by blast+
  note avg = average_smooth [OF assms(1) change(1) assms(3,4)] average_smooth [OF assms(2) change(2) assms(3,4)]
    average_smooth [OF seeds(1) change(1) assms(3,4)] average_smooth [OF seeds(2) change(2) assms(3,4)]
  have "rsi_update st x n =
     (if \<not> isfinite (rsi_lastPx st) then (DNaN, st \<lparr> rsi_lastPx := x \<rparr>)
      else if \<not> rsi_init st then
        let g = smooth n (seed (rsi_avgGain st)) gain; l = smooth n (seed (rsi_avgLoss st)) loss;
            st1 = st \<lparr> rsi_lastPx := x, rsi_avgGain := g, rsi_avgLoss := l, rsi_count := rsi_count st + 1 \<rparr>
        in if rsi_count st1 < n then (DNaN, st1) else (rsi_of g l, st1 \<lparr> rsi_init := True \<rparr>)
      else let g = smooth n (rsi_avgGain st) gain; l = smooth n (rsi_avgLoss st) loss
           in (rsi_of g l, st \<lparr> rsi_lastPx := x, rsi_avgGain := g, rsi_avgLoss := l \<rparr>))"
    unfolding rsi_update_def Let_def c_def [symmetric] gain_def [symmetric] loss_def [symmetric] seed_def [symmetric]
    using assms(3) by simp
  then show ?thesis using assms(1,2,5) avg rsi_of_range by (auto simp: Let_def split: if_splits)
qed

text \<open>Whatever prices arrive, infinite and NaN ones included, every value of the smoothed relative strength index is between 0 and 100, or
  NaN while there are too few prices and after prices that have no difference.\<close>

theorem rsi_stream_percentage:
  assumes "0 < n" "n < 2 ^ 53"
  shows "\<forall>v \<in> set (rsi_stream n xs RsiState_new). isnan v \<or> in_range 100 v"
proof -
  have "\<forall>v \<in> set (rsi_stream n xs st). isnan v \<or> in_range 100 v" if "average (rsi_avgGain st)" "average (rsi_avgLoss st)" for st
    using that
  proof (induction xs arbitrary: st)
    case (Cons x xs)
    obtain v st' where u: "rsi_update st x n = (v, st')" by (cases "rsi_update st x n")
    note r = rsi_update_range [OF Cons.prems assms u]
    then show ?case using Cons.IH [of st'] u by simp
  qed simp
  moreover have "average (rsi_avgGain RsiState_new)" "average (rsi_avgLoss RsiState_new)" by (simp_all add: RsiState_new_def average_def)
  ultimately show ?thesis by blast
qed

theorem rsi_stream_percentage_witness:
  "\<forall>v \<in> set (rsi_stream 2 [DFin 3, DFin 5, DNaN, DFin 4] RsiState_new). isnan v \<or> in_range 100 v"
  by (rule rsi_stream_percentage) simp_all

text \<open>The average over a history is the one of the tick computer.\<close>

lemma sma_lastN_ta: "0 < N \<Longrightarrow> sma_lastN xs N = ta_sma xs N"
  by (simp add: sma_lastN_def ta_sma_def)

text \<open>With fewer volumes than prices the volumes are read behind their end, although the guard asks only for \<open>N\<close> of each.\<close>

lemma vwap_reads_behind: "vwap_lastN [DFin 1, DFin 2, DFin 3] [DFin 1, DFin 1] 2 = None"
  by (simp add: vwap_lastN_def)

end
