(* ===== verification/Synthetic_Connector.thy ===== *)
theory Synthetic_Connector
  imports Dispatcher_Thms
begin

text \<open>
  The synthetic connector (\<^verbatim>\<open>connectors/synthetic\<close>): a computer that stores the sine and cosine of a counter, and a timer that dispatches
  one event with the counter per tick. The transcendental functions are a parameter. The timer is one object, so setting it anew ends a
  wait that is pending; \<open>sy_pending\<close> is the counter of the handler that waits.
\<close>

section \<open>The computer\<close>

definition synthetic_compute :: "Libm \<Rightarrow> bool \<Rightarrow> Event \<Rightarrow> 'c \<Rightarrow> effect list \<times> 'c" where
  "synthetic_compute lm store e st = (case ev_payload e of
       None \<Rightarrow> ([], st)
     | Some payload \<Rightarrow>
         if \<not> store then ([], st)
         else (case (case member ''counter'' payload of None \<Rightarrow> None | Some v \<Rightarrow> GetDouble v) of
             None \<Rightarrow> ([], st)
           | Some n \<Rightarrow> ([EStoreSet (ev_symbol e) ''synthetic.sin'' (ADouble (lm_sin lm (dmul n (dlit (1 / 10))))),
                         EStoreSet (ev_symbol e) ''synthetic.cos'' (ADouble (lm_cos lm (dmul n (dlit (1 / 10)))))], st)))"

definition SyntheticEventComputer :: "Libm \<Rightarrow> bool \<Rightarrow> 'c \<Rightarrow> 'c Computer" where
  "SyntheticEventComputer lm store st = \<lparr> cp_eventType = ''synthetic.tick'', cp_compute = synthetic_compute lm store, cp_state = st \<rparr>"

section \<open>The connector\<close>

record SyntheticConnector =
  sy_streamKey :: string
  sy_tickMs :: int
  sy_maxTicks :: int
  sy_timer :: bool
  sy_dispatcher :: bool
  sy_pending :: "u64 option"
  sy_sent :: "Event list"

text \<open>\<open>sy_sent\<close> are the events dispatched since the last start; it is not part of the program.\<close>

definition SyntheticConnector_new :: "string \<Rightarrow> int \<Rightarrow> int \<Rightarrow> SyntheticConnector" where
  "SyntheticConnector_new streamKey tickMs maxTicks = \<lparr> sy_streamKey = streamKey, sy_tickMs = tickMs, sy_maxTicks = maxTicks, sy_timer = False,
     sy_dispatcher = False, sy_pending = None, sy_sent = [] \<rparr>"

text \<open>Registration needs the dispatcher, the event loop and the registry of computers.\<close>

definition synthetic_registerWith :: "bool \<Rightarrow> bool \<Rightarrow> bool \<Rightarrow> 'c Computer \<Rightarrow> SyntheticConnector \<Rightarrow> 'c registry
    \<Rightarrow> string + (SyntheticConnector \<times> 'c registry)" where
  "synthetic_registerWith dispatcher io computers cpt C reg =
     (if \<not> dispatcher \<or> \<not> io \<or> \<not> computers then Inl ''SyntheticConnector: incomplete EngineRegistries''
      else Inr (C \<lparr> sy_timer := True, sy_dispatcher := True, sy_pending := None \<rparr>, registerFactory ''synthetic.tick'' (Some cpt) reg))"

definition synthetic_start :: "SyntheticConnector \<Rightarrow> SyntheticConnector" where
  "synthetic_start C = (if \<not> sy_timer C \<or> \<not> sy_dispatcher C then C else C \<lparr> sy_pending := Some 0, sy_sent := [] \<rparr>)"

definition synthetic_stop :: "SyntheticConnector \<Rightarrow> SyntheticConnector" where
  "synthetic_stop C = (if \<not> sy_timer C then C else C \<lparr> sy_pending := None \<rparr>)"

definition synthetic_event :: "string \<Rightarrow> u64 \<Rightarrow> Event" where
  "synthetic_event streamKey counter = \<lparr> ev_symbol = streamKey, ev_payload = Some (JObject [(''counter'', JDouble (double_of_int (uint counter)))]),
     ev_type = ''synthetic.tick'' \<rparr>"

text \<open>The handler of the timer; an exception of the dispatcher leaves it before the timer is set again.\<close>

definition synthetic_fire :: "SyntheticConnector \<Rightarrow> 'c Dispatcher \<Rightarrow> (string option \<times> SyntheticConnector \<times> 'c Dispatcher) option" where
  "synthetic_fire C D = (case sy_pending C of
       None \<Rightarrow> Some (None, C, D)
     | Some counter \<Rightarrow>
         if sy_maxTicks C > 0 \<and> uint counter \<ge> sy_maxTicks C then Some (None, C \<lparr> sy_pending := None \<rparr>, D)
         else let ev = synthetic_event (sy_streamKey C) counter; C1 = C \<lparr> sy_pending := None, sy_sent := sy_sent C @ [ev] \<rparr>
              in (case onTick ev D of
                    None \<Rightarrow> None
                  | Some (Some e, D1) \<Rightarrow> Some (Some e, C1, D1)
                  | Some (None, D1) \<Rightarrow> Some (None, C1 \<lparr> sy_pending := Some (counter + 1) \<rparr>, D1)))"

section \<open>Runs\<close>

inductive synthetic_step :: "SyntheticConnector \<times> 'c Dispatcher \<Rightarrow> SyntheticConnector \<times> 'c Dispatcher \<Rightarrow> bool" where
  start: "synthetic_step (C, D) (synthetic_start C, D)"
| stop: "synthetic_step (C, D) (synthetic_stop C, D)"
| fire: "synthetic_fire C D = Some (e, S) \<Longrightarrow> synthetic_step (C, D) S"

text \<open>The events so far carry the numbers from 0 in order.\<close>

definition ticking :: "SyntheticConnector \<times> 'c Dispatcher \<Rightarrow> bool" where
  "ticking S \<longleftrightarrow> (case S of (C, D) \<Rightarrow> disp_ok D \<and> length (sy_sent C) < 2 ^ 64 \<and>
     sy_sent C = map (\<lambda>k. synthetic_event (sy_streamKey C) (of_nat k)) [0..<length (sy_sent C)] \<and>
     (sy_maxTicks C > 0 \<longrightarrow> length (sy_sent C) \<le> nat (sy_maxTicks C)) \<and>
     (\<forall>counter. sy_pending C = Some counter \<longrightarrow> unat counter = length (sy_sent C)))"

lemma ticking_fire:
  assumes ok: "ticking (C, D)" and room: "Suc (length (sy_sent C)) < 2 ^ 64"
  shows "\<exists>e S. synthetic_fire C D = Some (e, S) \<and> ticking S"
proof (cases "\<exists>counter. sy_pending C = Some counter \<and> \<not> (sy_maxTicks C > 0 \<and> uint counter \<ge> sy_maxTicks C)")
  case False
  then have "\<exists>e C'. synthetic_fire C D = Some (e, C', D) \<and> (C' = C \<or> C' = C \<lparr> sy_pending := None \<rparr>)"
    by (auto simp: synthetic_fire_def split: option.split)
  then show ?thesis using ok by (auto simp: ticking_def)
next
  case True
  then obtain counter where c: "sy_pending C = Some counter" "\<not> (sy_maxTicks C > 0 \<and> uint counter \<ge> sy_maxTicks C)" by blast
  define n where "n = length (sy_sent C)"
  let ?ev = "synthetic_event (sy_streamKey C) counter"
  have n: "unat counter = n" using ok c(1) by (auto simp: ticking_def n_def)
  then have cn: "counter = of_nat n" by (simp add: flip: n)
  have "uint counter = int n" using n by (simp add: uint_nat del: of_nat_unat)
  then have small: "sy_maxTicks C > 0 \<Longrightarrow> Suc n \<le> nat (sy_maxTicks C)" using c(2) by linarith
  have nxt: "unat (counter + 1) = Suc n" using room n unat_add_no_overflow [of counter 1] by (simp add: n_def)
  obtain e D1 where D1: "onTick ?ev D = Some (e, D1)" "disp_ok D1" using onTick_ok [of D ?ev] ok by (auto simp: tick_ok_def ticking_def)
  have sent: "sy_sent C @ [?ev] = map (\<lambda>k. synthetic_event (sy_streamKey C) (of_nat k)) [0..<Suc n]"
    using ok cn by (simp add: ticking_def n_def)
  show ?thesis
  proof (cases e)
    case None
    then show ?thesis using D1 c sent small nxt room by (auto simp: synthetic_fire_def ticking_def n_def)
  next
    case (Some m)
    then show ?thesis using D1 c sent small room by (auto simp: synthetic_fire_def ticking_def n_def)
  qed
qed

lemma ticking_step:
  assumes "synthetic_step S S'" "ticking S" "Suc (length (sy_sent (fst S))) < 2 ^ 64"
  shows "ticking S'"
  using assms
proof (induction rule: synthetic_step.induct)
  case (fire C D e S)
  then show ?case using ticking_fire [of C D] by auto
qed (auto simp: ticking_def synthetic_start_def synthetic_stop_def)

lemma sent_step:
  assumes "synthetic_step S S'"
  shows "length (sy_sent (fst S')) \<le> Suc (length (sy_sent (fst S)))"
  using assms
proof (induction rule: synthetic_step.induct)
  case (fire C D e S)
  then show ?case by (auto simp: synthetic_fire_def Let_def split: option.splits if_splits prod.splits)
qed (auto simp: synthetic_start_def synthetic_stop_def)

lemma ticking_run:
  "(synthetic_step ^^ n) S S' \<Longrightarrow> ticking S \<Longrightarrow> length (sy_sent (fst S)) + n < 2 ^ 64 \<Longrightarrow> ticking S'"
proof (induction n arbitrary: S)
  case (Suc n)
  then obtain S1 where S1: "synthetic_step S S1" "(synthetic_step ^^ n) S1 S'" using relpowp_Suc_D2 [of n synthetic_step S S'] by blast
  then show ?case using Suc.IH [OF S1(2)] Suc.prems ticking_step [OF S1(1)] sent_step [OF S1(1)] by simp
qed simp

text \<open>
  In every run of fewer than \<open>2\<^sup>6\<^sup>4\<close> steps of a connector on a well-formed dispatcher, the events since the last start carry the numbers
  from 0 in order, they are at most \<open>maxTicks\<close> when that is positive, and the next firing of the timer is handled to its end.
\<close>

theorem synthetic_ticks_in_order:
  assumes "(synthetic_step ^^ n) (SyntheticConnector_new key ms most \<lparr> sy_timer := True, sy_dispatcher := True \<rparr>, D0) (C, D)"
    "disp_ok D0" "n + 1 < 2 ^ 64"
  shows "sy_sent C = map (\<lambda>k. synthetic_event (sy_streamKey C) (of_nat k)) [0..<length (sy_sent C)] \<and>
    (sy_maxTicks C > 0 \<longrightarrow> length (sy_sent C) \<le> nat (sy_maxTicks C)) \<and> synthetic_fire C D \<noteq> None"
proof -
  let ?S = "(SyntheticConnector_new key ms most \<lparr> sy_timer := True, sy_dispatcher := True \<rparr>, D0)"
  have "ticking ?S" using assms(2) by (simp add: ticking_def SyntheticConnector_new_def)
  then have ok: "ticking (C, D)" using ticking_run [OF assms(1)] assms(3) by (simp add: SyntheticConnector_new_def)
  have "length (sy_sent (fst S')) \<le> length (sy_sent (fst S)) + m" if "(synthetic_step ^^ m) S S'" for m S S'
    using that
  proof (induction m arbitrary: S')
    case (Suc m)
    then obtain S1 where "(synthetic_step ^^ m) S S1" "synthetic_step S1 S'" by (elim relpowp_Suc_E)
    then show ?case using Suc.IH [of S1] sent_step [of S1 S'] by linarith
  qed simp
  then have "length (sy_sent C) \<le> n" using assms(1) by (fastforce simp: SyntheticConnector_new_def)
  then have "Suc (length (sy_sent C)) < 2 ^ 64" using assms(3) by simp
  then show ?thesis using ok ticking_fire [OF ok] by (auto simp: ticking_def)
qed

text \<open>What the computer stores for such an event.\<close>

lemma synthetic_values:
  "synthetic_compute lm True (synthetic_event key counter) st =
     ([EStoreSet key ''synthetic.sin'' (ADouble (lm_sin lm (dmul (double_of_int (uint counter)) (dlit (1 / 10))))),
       EStoreSet key ''synthetic.cos'' (ADouble (lm_cos lm (dmul (double_of_int (uint counter)) (dlit (1 / 10)))))], st)"
  by (simp add: synthetic_compute_def synthetic_event_def member_def)

end
