(* ===== verification/Process_Registries.thy ===== *)
theory Process_Registries
  imports Market_Connector Ieee_Bounds
begin

text \<open>
  The registries of the process: event types and node types (\<^verbatim>\<open>engine/EventTypeRegistry.hpp\<close>, \<^verbatim>\<open>engine/NodeTypeRegistry.hpp\<close>), and the
  registry of metrics (\<^verbatim>\<open>util/Metrics.hpp\<close>). Each operation holds the mutex of its registry and is one step. What the registries of
  named things have in common, that the first registration of a name stays, is a locale; it is interpreted on event types, node
  types, ingress kinds and configuration namespaces.
\<close>

section \<open>Event types\<close>

record EventSchema =
  es_name :: string
  es_knownFields :: "string list"
  es_dispatchable :: bool

definition registerEvent :: "EventSchema \<Rightarrow> (string, EventSchema) umap \<Rightarrow> bool \<times> (string, EventSchema) umap" where
  "registerEvent schema m = (map_of m (es_name schema) = None, um_emplace (es_name schema) schema m)"

definition findEvent :: "string \<Rightarrow> (string, EventSchema) umap \<Rightarrow> EventSchema option" where
  "findEvent name m = map_of m name"

definition containsEvent :: "string \<Rightarrow> (string, EventSchema) umap \<Rightarrow> bool" where
  "containsEvent name m \<longleftrightarrow> length (filter (\<lambda>kv. fst kv = name) m) > 0"

definition eventNames :: "(string, EventSchema) umap \<Rightarrow> string list" where
  "eventNames m = map fst m"

definition clearEvents :: "(string, EventSchema) umap \<Rightarrow> (string, EventSchema) umap" where
  "clearEvents m = []"

section \<open>Node types\<close>

definition registerNodeType :: "string \<Rightarrow> 'b \<Rightarrow> (string, 'b) umap \<Rightarrow> bool \<times> (string, 'b) umap" where
  "registerNodeType name fn m = (map_of m name = None, um_emplace name fn m)"

definition findNodeType :: "string \<Rightarrow> (string, 'b) umap \<Rightarrow> 'b option" where
  "findNodeType name m = map_of m name"

definition containsNodeType :: "string \<Rightarrow> (string, 'b) umap \<Rightarrow> bool" where
  "containsNodeType name m \<longleftrightarrow> length (filter (\<lambda>kv. fst kv = name) m) > 0"

definition nodeTypeNames :: "(string, 'b) umap \<Rightarrow> string list" where
  "nodeTypeNames m = map fst m"

definition clearNodeTypes :: "(string, 'b) umap \<Rightarrow> (string, 'b) umap" where
  "clearNodeTypes m = []"

section \<open>Registries of named things\<close>

locale first_registry =
  fixes enter :: "'v \<Rightarrow> 'm \<Rightarrow> 'm" and key_of :: "'v \<Rightarrow> 'k" and look :: "'k \<Rightarrow> 'm \<Rightarrow> 'v option"
  assumes look_enter: "look k (enter v m) = (if k = key_of v \<and> look k m = None then Some v else look k m)"
begin

text \<open>After any sequence of registrations a name stands for the first thing that was given it.\<close>

lemma first_stays: "look k (fold enter vs m) = (case look k m of Some v \<Rightarrow> Some v | None \<Rightarrow> find (\<lambda>v. key_of v = k) vs)"
proof (induction vs arbitrary: m)
  case (Cons v vs)
  then show ?case using look_enter [of k v m] by (auto split: option.split)
qed (simp split: option.split)

end

lemma filter_key: "length (filter (\<lambda>kv. fst kv = k) m) > 0 \<longleftrightarrow> map_of m k \<noteq> None"
  by (induction m) auto

lemma names_key: "k \<in> set (map fst m) \<longleftrightarrow> map_of m k \<noteq> None"
  by (simp add: map_of_eq_None_iff)

interpretation events: first_registry "\<lambda>v m. snd (registerEvent v m)" es_name findEvent
  by unfold_locales (auto simp: registerEvent_def findEvent_def um_find_emplace split: option.split)

interpretation node_types: first_registry "\<lambda>v m. snd (registerNodeType (fst v) (snd v) m)" fst "\<lambda>k m. map_option (Pair k) (findNodeType k m)"
  by unfold_locales (auto simp: registerNodeType_def findNodeType_def um_find_emplace split: option.split)

interpretation ingress_kinds: first_registry "\<lambda>v. registerIngress (fst v) (snd v)" fst "\<lambda>k m. map_option (Pair k) (map_of m k)"
  by unfold_locales (auto simp: registerIngress_def map_add_def split: option.split)

interpretation namespaces: first_registry "\<lambda>v. ns_register (fst v) (snd v)" fst "\<lambda>k m. map_option (Pair k) (map_of m k)"
  by unfold_locales (auto simp: ns_register_def map_add_def split: option.split)

text \<open>
  What the registry of event types answers after it was cleared and any schemas were registered: the first schema of a name, and the
  other queries agree with it.
\<close>

lemma event_types_first:
  assumes "m = fold (\<lambda>v m. snd (registerEvent v m)) vs (clearEvents m0)"
  shows "findEvent k m = find (\<lambda>v. es_name v = k) vs \<and> containsEvent k m = (findEvent k m \<noteq> None) \<and>
    (k \<in> set (eventNames m) \<longleftrightarrow> findEvent k m \<noteq> None) \<and> fst (registerEvent v m) = (findEvent (es_name v) m = None)"
proof -
  have "findEvent k m = find (\<lambda>v. es_name v = k) vs"
    using events.first_stays [of k vs "clearEvents m0"] assms by (simp add: findEvent_def clearEvents_def)
  moreover have "containsEvent k m = (findEvent k m \<noteq> None)" unfolding containsEvent_def findEvent_def by (rule filter_key)
  moreover have "k \<in> set (eventNames m) \<longleftrightarrow> findEvent k m \<noteq> None" unfolding eventNames_def findEvent_def by (rule names_key)
  ultimately show ?thesis by (simp add: registerEvent_def findEvent_def)
qed

lemma node_types_first:
  assumes "m = fold (\<lambda>v m. snd (registerNodeType (fst v) (snd v) m)) vs (clearNodeTypes m0)"
  shows "findNodeType k m = map_of vs k \<and> containsNodeType k m = (findNodeType k m \<noteq> None) \<and>
    (k \<in> set (nodeTypeNames m) \<longleftrightarrow> findNodeType k m \<noteq> None)"
proof -
  have "find (\<lambda>v. fst v = k) vs = map_option (Pair k) (map_of vs k)" by (induction vs) auto
  moreover have "map_option (Pair k) (findNodeType k m) = find (\<lambda>v. fst v = k) vs"
    using node_types.first_stays [of k vs "clearNodeTypes m0"] assms by (simp add: findNodeType_def clearNodeTypes_def)
  ultimately have "findNodeType k m = map_of vs k" by (auto simp: map_option_case split: option.splits)
  moreover have "containsNodeType k m = (findNodeType k m \<noteq> None)" unfolding containsNodeType_def findNodeType_def by (rule filter_key)
  moreover have "k \<in> set (nodeTypeNames m) \<longleftrightarrow> findNodeType k m \<noteq> None" unfolding nodeTypeNames_def findNodeType_def by (rule names_key)
  ultimately show ?thesis by blast
qed

section \<open>Metrics\<close>

text \<open>The reporter is a thread that runs or not; a report is the list of fields it logs, with the formatting of a gauge as a parameter.
  A counter is written as a 64-bit integer, which is defined only within its range.\<close>

record MetricRegistry =
  mt_counters :: "(string, double) umap"
  mt_gauges :: "(string, double) umap"
  mt_running :: bool

definition MetricRegistry_new :: MetricRegistry where
  "MetricRegistry_new = \<lparr> mt_counters = [], mt_gauges = [], mt_running = False \<rparr>"

definition metric_increment :: "string \<Rightarrow> double \<Rightarrow> MetricRegistry \<Rightarrow> MetricRegistry" where
  "metric_increment name v M = M \<lparr> mt_counters := AList.update name
     (dadd (case map_of (mt_counters M) name of None \<Rightarrow> DZero False | Some d \<Rightarrow> d) v) (mt_counters M) \<rparr>"

definition setGauge :: "string \<Rightarrow> double \<Rightarrow> MetricRegistry \<Rightarrow> MetricRegistry" where
  "setGauge name v M = M \<lparr> mt_gauges := AList.update name v (mt_gauges M) \<rparr>"

definition startReporter :: "MetricRegistry \<Rightarrow> bool \<times> MetricRegistry" where
  "startReporter M = (\<not> mt_running M, M \<lparr> mt_running := True \<rparr>)"

definition stopReporter :: "MetricRegistry \<Rightarrow> MetricRegistry" where
  "stopReporter M = M \<lparr> mt_running := False \<rparr>"

definition int64_of_double :: "double \<Rightarrow> int option" where
  "int64_of_double d = (case d of
       DNaN \<Rightarrow> None
     | DInf _ \<Rightarrow> None
     | _ \<Rightarrow> let n = (if dval d < 0 then \<lceil>dval d\<rceil> else \<lfloor>dval d\<rfloor>) in if - (2 ^ 63) \<le> n \<and> n < 2 ^ 63 then Some n else None)"

definition report_fields :: "(double \<Rightarrow> string) \<Rightarrow> MetricRegistry \<Rightarrow> (string \<times> string option) list" where
  "report_fields fmt M = map (\<lambda>(k, v). (''c:'' @ k, map_option to_string (int64_of_double v))) (mt_counters M)
     @ map (\<lambda>(k, v). (''g:'' @ k, Some (fmt v))) (mt_gauges M)"

text \<open>A counter that is hit \<open>n\<close> times has the value \<open>n\<close>, as long as doubles count, and is reported as that number.\<close>

lemma counts_up: "int n < 2 ^ 53 - 1 \<Longrightarrow> dadd (double_of_int (int n)) (DFin 1) = double_of_int (int n + 1)"
proof (cases "n = 0")
  case False
  assume "int n < 2 ^ 53 - 1"
  then have "double_of_int (int n) = DFin (of_int (int n))" using False by (intro double_of_small) auto
  then show ?thesis by (simp add: double_of_int_def)
qed (simp add: double_of_int_def round_double_def)

lemma metric_hits:
  assumes "int n < 2 ^ 53" "0 < n"
  shows "map_of (mt_counters ((metric_increment name (DFin 1) ^^ n) MetricRegistry_new)) name = Some (double_of_int (int n))"
  using assms
proof (induction n)
  case (Suc n)
  show ?case
  proof (cases "n = 0")
    case True
    then show ?thesis by (simp add: metric_increment_def MetricRegistry_new_def double_of_int_def)
  next
    case False
    then show ?thesis using Suc counts_up [of n] by (simp add: metric_increment_def update_conv' add.commute)
  qed
qed simp

lemma metric_reported: "int n < 2 ^ 53 \<Longrightarrow> 0 < n \<Longrightarrow> int64_of_double (double_of_int (int n)) = Some (int n)"
  using double_of_small [of "int n"] by (simp add: int64_of_double_def Let_def)

end
