(* ===== verification/Timer_Threads.thy ===== *)
theory Timer_Threads
  imports Stream_Node_Thms
begin

text \<open>
  The threads behind \<^verbatim>\<open>Interval\<close>, \<^verbatim>\<open>BucketTime\<close> and \<^verbatim>\<open>TumblingWindow\<close> (\<^verbatim>\<open>nodes/Interval.cpp\<close>, \<^verbatim>\<open>nodes/BucketTime.cpp\<close>,
  \<^verbatim>\<open>nodes/TumblingWindow.cpp\<close>): the timer thread, the callers of \<^verbatim>\<open>onValue\<close> and the owner that starts, shuts down and drops the
  node, interleaved at the level of the mutex, the condition variable and the atomic flag. The clock is in nanoseconds
  and never goes back. The nodes have a pool, as \<^verbatim>\<open>TreeBuilder\<close> makes sure, so that their values are posted to it and \<^verbatim>\<open>shutdown\<close> is
  not called by the timer thread. Log lines are left out.
\<close>

section \<open>State\<close>

datatype timed = Ticking Timer | Bucketing Timer | Windowing TumblingWindow

primrec stopping_of :: "timed \<Rightarrow> bool" where
  "stopping_of (Ticking n) = tm_stopping n"
| "stopping_of (Bucketing n) = tm_stopping n"
| "stopping_of (Windowing n) = tw_stopping n"

primrec started_of :: "timed \<Rightarrow> bool" where
  "started_of (Ticking n) = tm_started n"
| "started_of (Bucketing n) = tm_started n"
| "started_of (Windowing n) = tw_started n"

primrec period_of :: "timed \<Rightarrow> int" where
  "period_of (Ticking n) = tm_period n"
| "period_of (Bucketing n) = tm_period n"
| "period_of (Windowing n) = tw_period n"

primrec aligned :: "timed \<Rightarrow> bool" where
  "aligned (Ticking n) = False"
| "aligned (Bucketing n) = True"
| "aligned (Windowing n) = True"

primrec set_stopping :: "timed \<Rightarrow> timed" where
  "set_stopping (Ticking n) = Ticking (n \<lparr> tm_stopping := True \<rparr>)"
| "set_stopping (Bucketing n) = Bucketing (n \<lparr> tm_stopping := True \<rparr>)"
| "set_stopping (Windowing n) = Windowing (n \<lparr> tw_stopping := True \<rparr>)"

primrec set_started :: "timed \<Rightarrow> timed" where
  "set_started (Ticking n) = Ticking (n \<lparr> tm_started := True \<rparr>)"
| "set_started (Bucketing n) = Bucketing (n \<lparr> tm_started := True \<rparr>)"
| "set_started (Windowing n) = Windowing (n \<lparr> tw_started := True \<rparr>)"

text \<open>
  Where the timer thread is: not started, at the top of the loop, before it reads the clock, before it takes the mutex for the
  test of the wait until the given time, between test and sleep, asleep, woken by the time, after the wait, before it
  collects the values, with values left to post, before and after its return.
\<close>

datatype turn = TNone | TTop | TClock | TLock int | THold int | TAsleep int | TTimeout int | TAfter int | TFire int
  | TPost "call list" | TLeave | TExit

text \<open>The owner outside \<^verbatim>\<open>shutdown\<close>, before the notification, in the join, before the buffers are dropped.\<close>

datatype stopper = SIdle | SNotify | SJoin | SClear

record TimerThread =
  tt_node :: timed
  tt_now :: int
  tt_mutex :: bool
  tt_turn :: turn
  tt_joinable :: bool
  tt_owned :: bool
  tt_stopper :: stopper
  tt_puts :: "StreamValue list"
  tt_down :: bool
  tt_fired :: "(int \<times> int) list"
  tt_posted :: "call list"

text \<open>
  \<open>tt_mutex\<close> tells whether a thread holds the mutex between two steps, \<open>tt_owned\<close> whether a pointer to the node exists besides the
  one of its thread, \<open>tt_puts\<close> the calls of \<^verbatim>\<open>onValue\<close> that are past their test of \<^verbatim>\<open>stopping_\<close>. The last three, whether
  a shutdown has returned, the turns taken (the time waited for and the time when it was taken) and the values posted,
  are not part of the program.
\<close>

definition TimerThread_new :: "timed \<Rightarrow> int \<Rightarrow> TimerThread" where
  "TimerThread_new n now = \<lparr> tt_node = n, tt_now = now, tt_mutex = False, tt_turn = TNone, tt_joinable = False, tt_owned = True,
     tt_stopper = SIdle, tt_puts = [], tt_down = False, tt_fired = [], tt_posted = [] \<rparr>"

section \<open>The timer loop\<close>

primrec wait_target :: "int \<Rightarrow> timed \<Rightarrow> int" where
  "wait_target now (Ticking n) = now + tm_period n * 1000000"
| "wait_target now (Bucketing n) = nextAlignedAfter now (tm_period n)"
| "wait_target now (Windowing n) = nextAlignedAfter now (tw_period n)"

text \<open>\<^verbatim>\<open>Interval\<close> has no test at the top of its loop.\<close>

definition loop_top :: "TimerThread \<Rightarrow> TimerThread" where
  "loop_top T = T \<lparr> tt_turn := (if aligned (tt_node T) \<and> stopping_of (tt_node T) then TLeave else TClock) \<rparr>"

definition loop_clock :: "TimerThread \<Rightarrow> TimerThread" where
  "loop_clock T = T \<lparr> tt_turn := TLock (wait_target (tt_now T) (tt_node T)) \<rparr>"

definition loop_wait :: "int \<Rightarrow> TimerThread \<Rightarrow> TimerThread" where
  "loop_wait d T = (if stopping_of (tt_node T) then T \<lparr> tt_turn := TLeave \<rparr> else T \<lparr> tt_mutex := True, tt_turn := THold d \<rparr>)"

definition loop_sleep :: "int \<Rightarrow> TimerThread \<Rightarrow> TimerThread" where
  "loop_sleep d T = T \<lparr> tt_mutex := False, tt_turn := TAsleep d \<rparr>"

definition loop_timeout :: "int \<Rightarrow> TimerThread \<Rightarrow> TimerThread" where
  "loop_timeout d T = T \<lparr> tt_turn := (if stopping_of (tt_node T) then TLeave else TAfter d) \<rparr>"

definition loop_after :: "int \<Rightarrow> TimerThread \<Rightarrow> TimerThread" where
  "loop_after d T = T \<lparr> tt_turn := (if stopping_of (tt_node T) then TLeave else TFire d) \<rparr>"

text \<open>The values of a turn; \<^const>\<open>None\<close> when there is nowhere to send them.\<close>

primrec collect_turn :: "timed \<Rightarrow> (call list \<times> timed) option" where
  "collect_turn (Ticking n) = map_option (\<lambda>c. ([(c, mkSV [] (ADouble d0))], Ticking n)) (tm_child n)"
| "collect_turn (Bucketing n) = map_option (\<lambda>c. ([(c, mkSV [] (ADouble d0))], Bucketing n)) (tm_child n)"
| "collect_turn (Windowing n) = map_option (\<lambda>ds. (map (\<lambda>(s, vec). (ds, mkSV s (ADoubleVec vec))) (filter (\<lambda>(s, vec). vec \<noteq> []) (tw_acc n)),
     Windowing (n \<lparr> tw_acc := map (\<lambda>(s, vec). (s, [])) (tw_acc n) \<rparr>))) (tw_downstream n)"

definition loop_fire :: "int \<Rightarrow> TimerThread \<Rightarrow> TimerThread" where
  "loop_fire d T = (case collect_turn (tt_node T) of
       None \<Rightarrow> T \<lparr> tt_turn := TLeave \<rparr>
     | Some (cs, n) \<Rightarrow> T \<lparr> tt_node := n, tt_turn := TPost cs, tt_fired := tt_fired T @ [(d, tt_now T)] \<rparr>)"

fun loop_post :: "call list \<Rightarrow> TimerThread \<Rightarrow> TimerThread" where
  "loop_post [] T = T \<lparr> tt_turn := TTop \<rparr>"
| "loop_post (c # cs) T = T \<lparr> tt_turn := TPost cs, tt_posted := tt_posted T @ [c] \<rparr>"

text \<open>The thread gives up its pointer; when it was the last, the destructor runs on this thread and detaches it.\<close>

definition loop_leave :: "TimerThread \<Rightarrow> TimerThread" where
  "loop_leave T = (if tt_owned T then T \<lparr> tt_turn := TExit \<rparr>
     else T \<lparr> tt_turn := TExit, tt_node := set_stopping (tt_node T), tt_joinable := False \<rparr>)"

section \<open>The owner and the callers of onValue\<close>

definition timer_start :: "TimerThread \<Rightarrow> TimerThread" where
  "timer_start T = (if started_of (tt_node T) then T
     else T \<lparr> tt_node := set_started (tt_node T), tt_turn := TTop, tt_joinable := True \<rparr>)"

definition shutdown_stop :: "TimerThread \<Rightarrow> TimerThread" where
  "shutdown_stop T = T \<lparr> tt_node := set_stopping (tt_node T), tt_stopper := SNotify \<rparr>"

fun woken :: "turn \<Rightarrow> turn" where
  "woken (TAsleep d) = TLock d"
| "woken t = t"

definition shutdown_notify :: "TimerThread \<Rightarrow> TimerThread" where
  "shutdown_notify T = T \<lparr> tt_turn := woken (tt_turn T), tt_stopper := (if tt_joinable T then SJoin else SClear) \<rparr>"

definition shutdown_join :: "TimerThread \<Rightarrow> TimerThread" where
  "shutdown_join T = T \<lparr> tt_joinable := False, tt_stopper := SClear \<rparr>"

primrec drop_buffers :: "timed \<Rightarrow> timed" where
  "drop_buffers (Ticking n) = Ticking n"
| "drop_buffers (Bucketing n) = Bucketing n"
| "drop_buffers (Windowing n) = Windowing (n \<lparr> tw_downstream := None, tw_acc := [] \<rparr>)"

definition shutdown_clear :: "TimerThread \<Rightarrow> TimerThread" where
  "shutdown_clear T = T \<lparr> tt_node := drop_buffers (tt_node T), tt_stopper := SIdle, tt_down := True \<rparr>"

text \<open>The last pointer besides the thread's is given up; without a thread the destructor runs, and its join returns at once.\<close>

definition drop_owner :: "TimerThread \<Rightarrow> TimerThread" where
  "drop_owner T = (if tt_turn T = TNone \<or> tt_turn T = TExit
     then T \<lparr> tt_owned := False, tt_node := set_stopping (tt_node T), tt_joinable := False \<rparr> else T \<lparr> tt_owned := False \<rparr>)"

text \<open>\<^verbatim>\<open>onValue\<close> in two steps: the test of the flag, and the section under the mutex.\<close>

definition put_test :: "StreamValue \<Rightarrow> TimerThread \<Rightarrow> TimerThread" where
  "put_test sv T = (if stopping_of (tt_node T) then T else T \<lparr> tt_puts := sv # tt_puts T \<rparr>)"

definition window_put :: "StreamValue \<Rightarrow> TumblingWindow \<Rightarrow> TumblingWindow" where
  "window_put sv n = (let s = sv_symbol sv in if symbol_cap s (tw_acc n) then n
     else n \<lparr> tw_acc := AList.update s (at_key s (tw_acc n) @ [arg_toDouble (sv_value sv)]) (tw_acc n) \<rparr>)"

primrec timed_put :: "StreamValue \<Rightarrow> timed \<Rightarrow> timed" where
  "timed_put sv (Ticking n) = Ticking n"
| "timed_put sv (Bucketing n) = Bucketing n"
| "timed_put sv (Windowing n) = Windowing (window_put sv n)"

definition put_value :: "StreamValue \<Rightarrow> TimerThread \<Rightarrow> TimerThread" where
  "put_value sv T = T \<lparr> tt_node := timed_put sv (tt_node T), tt_puts := remove1 sv (tt_puts T) \<rparr>"

section \<open>Steps\<close>

text \<open>The steps of the timer thread and of a shutdown under way.\<close>

inductive tt_step :: "TimerThread \<Rightarrow> TimerThread \<Rightarrow> bool" where
  top: "tt_turn T = TTop \<Longrightarrow> tt_step T (loop_top T)"
| clock: "tt_turn T = TClock \<Longrightarrow> tt_step T (loop_clock T)"
| wait: "tt_turn T = TLock d \<Longrightarrow> \<not> tt_mutex T \<Longrightarrow> tt_step T (loop_wait d T)"
| sleep: "tt_turn T = THold d \<Longrightarrow> tt_step T (loop_sleep d T)"
| expire: "tt_turn T = TAsleep d \<Longrightarrow> d \<le> tt_now T \<Longrightarrow> tt_step T (T \<lparr> tt_turn := TTimeout d \<rparr>)"
| timeout: "tt_turn T = TTimeout d \<Longrightarrow> \<not> tt_mutex T \<Longrightarrow> tt_step T (loop_timeout d T)"
| after: "tt_turn T = TAfter d \<Longrightarrow> tt_step T (loop_after d T)"
| fire: "tt_turn T = TFire d \<Longrightarrow> \<not> tt_mutex T \<Longrightarrow> tt_step T (loop_fire d T)"
| post: "tt_turn T = TPost cs \<Longrightarrow> tt_step T (loop_post cs T)"
| leave: "tt_turn T = TLeave \<Longrightarrow> tt_step T (loop_leave T)"
| notify: "tt_stopper T = SNotify \<Longrightarrow> tt_step T (shutdown_notify T)"
| join: "tt_stopper T = SJoin \<Longrightarrow> tt_turn T = TExit \<Longrightarrow> tt_step T (shutdown_join T)"
| clear: "tt_stopper T = SClear \<Longrightarrow> \<not> tt_mutex T \<Longrightarrow> tt_step T (shutdown_clear T)"

text \<open>What the users of the node do, time that passes, and waking up without a notification.\<close>

inductive tt_event :: "TimerThread \<Rightarrow> TimerThread \<Rightarrow> bool" where
  pass: "tt_now T \<le> t \<Longrightarrow> tt_event T (T \<lparr> tt_now := t \<rparr>)"
| spurious: "tt_turn T = TAsleep d \<Longrightarrow> tt_event T (T \<lparr> tt_turn := TLock d \<rparr>)"
| start: "tt_owned T \<Longrightarrow> tt_stopper T = SIdle \<Longrightarrow> tt_event T (timer_start T)"
| shutdown: "tt_owned T \<Longrightarrow> tt_stopper T = SIdle \<Longrightarrow> tt_event T (shutdown_stop T)"
| drop: "tt_owned T \<Longrightarrow> tt_stopper T = SIdle \<Longrightarrow> tt_puts T = [] \<Longrightarrow> tt_event T (drop_owner T)"
| put: "tt_owned T \<Longrightarrow> tt_event T (put_test sv T)"
| put_locked: "sv \<in> set (tt_puts T) \<Longrightarrow> \<not> tt_mutex T \<Longrightarrow> tt_event T (put_value sv T)"

abbreviation tt_run :: "TimerThread \<Rightarrow> TimerThread \<Rightarrow> bool" where
  "tt_run \<equiv> (sup tt_step tt_event)\<^sup>*\<^sup>*"

end
