(* ===== verification/Timer_Threads_Thms.thy ===== *)
theory Timer_Threads_Thms
  imports Timer_Threads
begin

text \<open>
  What the timer threads promise: turns at the boundaries of the period, each boundary at most once and never early; after a
  shutdown nothing is posted; and a shutdown that is under way ends. It may take as long as a wait of the thread, because the flag is
  set without the mutex and the notification can be missed.
\<close>

section \<open>One turn\<close>

text \<open>Undisturbed, the test after the wait and the collection are the turn of the sequential model.\<close>

lemma turn_is_Timer_tick:
  "Timer_tick n = (if tm_stopping n then ([], False) else case collect_turn (Ticking n) of None \<Rightarrow> ([], False) | Some (cs, m) \<Rightarrow> (cs, True))"
  "Timer_tick n = (if tm_stopping n then ([], False) else case collect_turn (Bucketing n) of None \<Rightarrow> ([], False) | Some (cs, m) \<Rightarrow> (cs, True))"
  by (simp_all add: Timer_tick_def split: option.split)

lemma turn_is_TumblingWindow_timer:
  "TumblingWindow_timer n = (if tw_stopping n then ([], n, False)
     else case collect_turn (Windowing n) of Some (cs, Windowing m) \<Rightarrow> (cs, m, True) | _ \<Rightarrow> ([], n, False))"
  by (simp add: TumblingWindow_timer_def split: option.split)

lemma put_is_TumblingWindow_onValue:
  "TumblingWindow_onValue sv n = ([], if tw_stopping n then n else window_put sv n)"
  by (simp add: TumblingWindow_onValue_def window_put_def Let_def)

section \<open>Invariant\<close>

text \<open>What no operation changes of a node, and the flags.\<close>

definition kind_of :: "timed \<Rightarrow> int \<times> bool" where
  "kind_of n = (period_of n, aligned n)"

lemma timed_simps [simp]:
  "kind_of (set_stopping n) = kind_of n" "kind_of (set_started n) = kind_of n" "kind_of (drop_buffers n) = kind_of n"
  "kind_of (timed_put sv n) = kind_of n"
  "stopping_of (set_stopping n)" "stopping_of (set_started n) = stopping_of n" "stopping_of (drop_buffers n) = stopping_of n"
  "stopping_of (timed_put sv n) = stopping_of n"
  "started_of (set_stopping n) = started_of n" "started_of (set_started n)" "started_of (drop_buffers n) = started_of n"
  "started_of (timed_put sv n) = started_of n"
  by (cases n; simp add: kind_of_def window_put_def Let_def)+

lemma collect_keeps:
  assumes "collect_turn n = Some (cs, m)"
  shows "kind_of m = kind_of n" "stopping_of m = stopping_of n" "started_of m = started_of n"
  using assms by (cases n; auto simp: kind_of_def)+

fun target_of :: "turn \<Rightarrow> int option" where
  "target_of (TLock d) = Some d"
| "target_of (THold d) = Some d"
| "target_of (TAsleep d) = Some d"
| "target_of (TTimeout d) = Some d"
| "target_of (TAfter d) = Some d"
| "target_of (TFire d) = Some d"
| "target_of t = None"

definition reached :: "turn \<Rightarrow> int \<Rightarrow> bool" where
  "reached t now = (case t of TTimeout d \<Rightarrow> d \<le> now | TAfter d \<Rightarrow> d \<le> now | TFire d \<Rightarrow> d \<le> now | _ \<Rightarrow> True)"

text \<open>The time waited for is a boundary, and lies after the turns before: by a whole period for an \<^verbatim>\<open>Interval\<close>.\<close>

definition due :: "int \<times> bool \<Rightarrow> int \<Rightarrow> int \<Rightarrow> bool" where
  "due k t d = (t < d \<and> (if snd k then fst k * 1000000 dvd d else t + fst k * 1000000 \<le> d))"

definition turns_ok :: "int \<times> bool \<Rightarrow> int \<Rightarrow> (int \<times> int) list \<Rightarrow> bool" where
  "turns_ok k now fs = (sorted_wrt (\<lambda>(d, t) (d', t'). due k t d') fs \<and> (\<forall>(d, t) \<in> set fs. d \<le> t \<and> t \<le> now \<and> (snd k \<longrightarrow> fst k * 1000000 dvd d)))"

definition quiet_turn :: "turn \<Rightarrow> bool" where
  "quiet_turn t = (case t of TNone \<Rightarrow> True | TTop \<Rightarrow> True | TClock \<Rightarrow> True | TLock d \<Rightarrow> True | TLeave \<Rightarrow> True | TExit \<Rightarrow> True | _ \<Rightarrow> False)"

definition gone :: "turn \<Rightarrow> bool" where
  "gone t = (t = TNone \<or> t = TExit)"

definition turn_ok :: "int \<times> bool \<Rightarrow> TimerThread \<Rightarrow> bool" where
  "turn_ok k T = (kind_of (tt_node T) = k \<and> 0 \<le> tt_now T \<and> turns_ok k (tt_now T) (tt_fired T) \<and> reached (tt_turn T) (tt_now T) \<and>
     (\<forall>d. target_of (tt_turn T) = Some d \<longrightarrow> (\<forall>(d', t) \<in> set (tt_fired T). due k t d) \<and> (snd k \<longrightarrow> fst k * 1000000 dvd d) \<and>
       d \<le> tt_now T + fst k * 1000000))"

definition stop_ok :: "TimerThread \<Rightarrow> bool" where
  "stop_ok T = ((tt_turn T = TNone \<longleftrightarrow> \<not> started_of (tt_node T)) \<and> (\<not> tt_joinable T \<longrightarrow> gone (tt_turn T)) \<and>
     (tt_joinable T \<longrightarrow> tt_turn T \<noteq> TNone) \<and>
     (tt_stopper T \<noteq> SIdle \<or> tt_down T \<longrightarrow> stopping_of (tt_node T)) \<and> (tt_stopper T = SClear \<longrightarrow> gone (tt_turn T)) \<and>
     (tt_stopper T \<noteq> SIdle \<longrightarrow> tt_owned T) \<and> (tt_stopper T = SJoin \<longrightarrow> tt_joinable T) \<and> (tt_down T \<longrightarrow> quiet_turn (tt_turn T)) \<and> (tt_mutex T \<longleftrightarrow> (\<exists>d. tt_turn T = THold d)))"

lemmas tt_defs = loop_top_def loop_clock_def loop_wait_def loop_sleep_def loop_timeout_def loop_after_def loop_leave_def
  timer_start_def shutdown_stop_def shutdown_notify_def shutdown_join_def shutdown_clear_def drop_owner_def put_test_def put_value_def

lemma woken_cases: "woken t = t \<or> (\<exists>d. t = TAsleep d \<and> woken t = TLock d)"
  by (cases t) auto

lemma due_target:
  assumes "kind_of n = k" "0 \<le> now" "0 < fst k" "t \<le> now"
  shows "due k t (wait_target now n)" "snd k \<longrightarrow> fst k * 1000000 dvd wait_target now n"
    "wait_target now n \<le> now + fst k * 1000000"
proof -
  have "let d = nextAlignedAfter now p in now < d \<and> d - now \<le> p * 1000000 \<and> p * 1000000 dvd d" if "0 < p" for p
    by (rule next_boundary_aligned [OF assms(2) that])
  then show "due k t (wait_target now n)" "snd k \<longrightarrow> fst k * 1000000 dvd wait_target now n"
    "wait_target now n \<le> now + fst k * 1000000"
    using assms by (cases n; force simp: kind_of_def due_def Let_def)+
qed

lemma turns_ok_later: "turns_ok k now fs \<Longrightarrow> now \<le> now' \<Longrightarrow> turns_ok k now' fs"
  by (fastforce simp: turns_ok_def)

lemma turns_ok_snoc:
  "turns_ok k now fs \<Longrightarrow> \<forall>(d', t) \<in> set fs. due k t d \<Longrightarrow> snd k \<longrightarrow> fst k * 1000000 dvd d \<Longrightarrow> d \<le> now \<Longrightarrow> turns_ok k now (fs @ [(d, now)])"
  by (auto simp: turns_ok_def sorted_wrt_append)

lemma reached_later: "reached t now \<Longrightarrow> now \<le> now' \<Longrightarrow> reached t now'"
  by (auto simp: reached_def split: turn.splits)

lemma turn_ok_step:
  assumes "tt_step T T'" "turn_ok k T" "0 < fst k"
  shows "turn_ok k T'"
  using assms(1)
proof cases
  case clock
  then show ?thesis using assms(2,3) due_target [of "tt_node T" k "tt_now T"]
    by (auto simp: turn_ok_def loop_clock_def reached_def turns_ok_def)
next
  case (fire d)
  have "turns_ok k (tt_now T) (tt_fired T @ [(d, tt_now T)])"
    using assms(2) fire by (intro turns_ok_snoc) (auto simp: turn_ok_def reached_def)
  then show ?thesis using assms(2) fire collect_keeps [of "tt_node T"]
    by (auto simp: turn_ok_def loop_fire_def reached_def split: option.split)
next
  case (post cs)
  then show ?thesis using assms(2) by (cases cs) (auto simp: turn_ok_def reached_def)
next
  case notify
  then show ?thesis using assms(2) woken_cases [of "tt_turn T"] by (auto simp: turn_ok_def shutdown_notify_def reached_def)
qed (use assms(2) in \<open>auto simp: turn_ok_def tt_defs reached_def\<close>)

lemma turn_ok_event:
  assumes "tt_event T T'" "turn_ok k T"
  shows "turn_ok k T'"
  using assms
proof cases
  case (pass t)
  then show ?thesis using assms(2) by (fastforce simp: turn_ok_def elim: turns_ok_later reached_later)
next
  case (spurious d)
  then show ?thesis using assms(2) by (auto simp: turn_ok_def reached_def)
next
  case start
  then show ?thesis using assms(2) by (auto simp: turn_ok_def timer_start_def reached_def)
qed (auto simp: turn_ok_def tt_defs)

lemma stop_ok_step:
  assumes "tt_step T T'" "stop_ok T"
  shows "stop_ok T'"
  using assms(1)
proof cases
  case (fire d)
  then show ?thesis using assms(2) collect_keeps [of "tt_node T"]
    by (auto simp: stop_ok_def loop_fire_def gone_def quiet_turn_def split: option.split)
next
  case (post cs)
  then show ?thesis using assms(2) by (cases cs) (auto simp: stop_ok_def gone_def quiet_turn_def)
next
  case notify
  then show ?thesis using assms(2) by (cases "tt_turn T") (auto simp: stop_ok_def shutdown_notify_def gone_def quiet_turn_def)
qed (use assms(2) in \<open>auto simp: stop_ok_def tt_defs gone_def quiet_turn_def\<close>)

lemma stop_ok_event: "tt_event T T' \<Longrightarrow> stop_ok T \<Longrightarrow> stop_ok T'"
  by (cases rule: tt_event.cases, assumption) (auto simp: stop_ok_def tt_defs gone_def quiet_turn_def)

lemma tt_new_ok:
  assumes "\<not> started_of n" "0 \<le> now"
  shows "turn_ok (kind_of n) (TimerThread_new n now)" "stop_ok (TimerThread_new n now)"
  using assms by (simp_all add: turn_ok_def stop_ok_def TimerThread_new_def turns_ok_def reached_def gone_def)

lemma stop_ok_run: "tt_run T T' \<Longrightarrow> stop_ok T \<Longrightarrow> stop_ok T'"
  by (induction rule: rtranclp_induct) (auto intro: stop_ok_step stop_ok_event)

lemma turn_ok_run: "tt_run T T' \<Longrightarrow> turn_ok k T \<Longrightarrow> 0 < fst k \<Longrightarrow> turn_ok k T'"
  by (induction rule: rtranclp_induct) (auto intro: turn_ok_step turn_ok_event)

section \<open>After the flag is set\<close>

lemma stopping_stays:
  assumes "sup tt_step tt_event T T'" "stopping_of (tt_node T)"
  shows "stopping_of (tt_node T')"
proof -
  have "stopping_of (tt_node T')" if "tt_step T T'"
    using that
  proof cases
    case (fire d)
    then show ?thesis using assms(2) collect_keeps [of "tt_node T"] by (auto simp: loop_fire_def split: option.split)
  next
    case (post cs)
    then show ?thesis using assms(2) by (cases cs) auto
  qed (use assms(2) in \<open>auto simp: tt_defs\<close>)
  moreover have "stopping_of (tt_node T')" if "tt_event T T'"
    using that assms(2) by cases (auto simp: tt_defs)
  ultimately show ?thesis using assms(1) by auto
qed

text \<open>The turns taken and the one that is past its last test.\<close>

definition turns_bound :: "TimerThread \<Rightarrow> nat" where
  "turns_bound T = length (tt_fired T) + (case tt_turn T of TFire d \<Rightarrow> 1 | _ \<Rightarrow> 0)"

lemma turns_bound_step:
  assumes "sup tt_step tt_event T T'" "stopping_of (tt_node T)"
  shows "turns_bound T' \<le> turns_bound T"
proof -
  have "turns_bound T' \<le> turns_bound T" if "tt_step T T'"
    using that
  proof cases
    case (fire d)
    then show ?thesis by (auto simp: loop_fire_def turns_bound_def split: option.split)
  next
    case (post cs)
    then show ?thesis by (cases cs) (auto simp: turns_bound_def)
  next
    case notify
    then show ?thesis by (cases "tt_turn T") (auto simp: shutdown_notify_def turns_bound_def)
  qed (use assms(2) in \<open>auto simp: tt_defs turns_bound_def\<close>)
  moreover have "turns_bound T' \<le> turns_bound T" if "tt_event T T'"
    using that assms(2) by cases (auto simp: tt_defs turns_bound_def)
  ultimately show ?thesis using assms(1) by auto
qed

lemma turns_bound_run: "tt_run T T' \<Longrightarrow> stopping_of (tt_node T) \<Longrightarrow> stopping_of (tt_node T') \<and> turns_bound T' \<le> turns_bound T"
proof (induction rule: rtranclp_induct)
  case (step U V)
  then show ?case using stopping_stays [of U V] turns_bound_step [of U V] by simp
qed simp

lemma one_turn_after_stop:
  assumes "tt_run T T'" "stopping_of (tt_node T)"
  shows "length (tt_fired T') \<le> length (tt_fired T) + 1"
  using turns_bound_run [OF assms] by (auto simp: turns_bound_def split: turn.splits)

lemma quiet_after_shutdown:
  assumes "tt_run T T'" "stop_ok T" "tt_down T"
  shows "tt_posted T' = tt_posted T \<and> tt_fired T' = tt_fired T \<and> tt_down T'"
  using assms(1)
proof (induction rule: rtranclp_induct)
  case (step U V)
  have ok: "stop_ok U" by (rule stop_ok_run [OF step.hyps(1) assms(2)])
  have "tt_posted V = tt_posted U \<and> tt_fired V = tt_fired U \<and> tt_down V" if "tt_step U V"
    using that step.IH ok by cases (auto simp: tt_defs stop_ok_def quiet_turn_def)
  moreover have "tt_posted V = tt_posted U \<and> tt_fired V = tt_fired U \<and> tt_down V" if "tt_event U V"
    using that step.IH by cases (auto simp: tt_defs)
  ultimately show ?case using step.IH step.hyps(2) by auto
qed (simp add: assms(3))

section \<open>A shutdown ends\<close>

fun turn_rank :: "timed \<Rightarrow> turn \<Rightarrow> nat" where
  "turn_rank n TNone = 0"
| "turn_rank n TExit = 0"
| "turn_rank n TLeave = 1"
| "turn_rank n (TLock d) = 2"
| "turn_rank n (TTimeout d) = 2"
| "turn_rank n (TAfter d) = 2"
| "turn_rank n (TAsleep d) = 3"
| "turn_rank n (THold d) = 4"
| "turn_rank n TClock = 3"
| "turn_rank n TTop = 4"
| "turn_rank n (TPost cs) = 5 + length cs"
| "turn_rank n (TFire d) = (case collect_turn n of None \<Rightarrow> 2 | Some (cs, m) \<Rightarrow> 6 + length cs)"

primrec stopper_rank :: "stopper \<Rightarrow> nat" where
  "stopper_rank SIdle = 0"
| "stopper_rank SClear = 1"
| "stopper_rank SJoin = 2"
| "stopper_rank SNotify = 3"

definition stop_rank :: "TimerThread \<Rightarrow> nat" where
  "stop_rank T = turn_rank (tt_node T) (tt_turn T) + stopper_rank (tt_stopper T)"

lemma stop_rank_step:
  assumes "tt_step T T'" "stopping_of (tt_node T)" "stop_ok T"
  shows "stop_rank T' < stop_rank T"
  using assms(1)
proof cases
  case (fire d)
  then show ?thesis by (auto simp: loop_fire_def stop_rank_def split: option.split)
next
  case (post cs)
  then show ?thesis by (cases cs) (auto simp: stop_rank_def)
next
  case notify
  then show ?thesis by (cases "tt_turn T") (auto simp: shutdown_notify_def stop_rank_def)
next
  case clear
  then show ?thesis using assms(3) by (auto simp: shutdown_clear_def stop_rank_def stop_ok_def gone_def)
qed (use assms(2) in \<open>auto simp: tt_defs stop_rank_def\<close>)

lemma stop_not_stuck:
  assumes "stop_ok T" "tt_stopper T \<noteq> SIdle" "\<forall>d. tt_turn T = TAsleep d \<longrightarrow> d \<le> tt_now T"
  shows "\<exists>T'. tt_step T T'"
proof (cases "tt_stopper T")
  case SJoin
  then show ?thesis using assms by (cases "tt_turn T") (auto simp: stop_ok_def intro: tt_step.intros)
qed (use assms in \<open>auto simp: stop_ok_def gone_def intro: tt_step.intros\<close>)

text \<open>A shutdown is under way or done, and the time of the wait before it is over.\<close>

definition stopping_late :: "TimerThread \<Rightarrow> bool" where
  "stopping_late T = (stop_ok T \<and> stopping_of (tt_node T) \<and> (tt_stopper T = SIdle \<longrightarrow> tt_down T) \<and>
     (\<forall>d. tt_turn T = THold d \<or> tt_turn T = TAsleep d \<longrightarrow> d \<le> tt_now T))"

lemma stopping_late_step:
  assumes "tt_step T T'" "stopping_late T"
  shows "stopping_late T'"
proof -
  have "stop_ok T'" "stopping_of (tt_node T')"
    using assms stop_ok_step stopping_stays [of T T'] by (auto simp: stopping_late_def)
  moreover have "(tt_stopper T' = SIdle \<longrightarrow> tt_down T') \<and> (\<forall>d. tt_turn T' = THold d \<or> tt_turn T' = TAsleep d \<longrightarrow> d \<le> tt_now T')"
    using assms(1)
  proof cases
    case (fire d)
    then show ?thesis using assms(2) by (auto simp: loop_fire_def stopping_late_def split: option.split)
  next
    case (post cs)
    then show ?thesis using assms(2) by (cases cs) (auto simp: stopping_late_def)
  next
    case notify
    then show ?thesis using assms(2) woken_cases [of "tt_turn T"] by (auto simp: shutdown_notify_def stopping_late_def)
  qed (use assms(2) in \<open>auto simp: tt_defs stopping_late_def\<close>)
  ultimately show ?thesis by (simp add: stopping_late_def)
qed

lemma stopping_late_ends:
  "(tt_step ^^ j) T T' \<Longrightarrow> stopping_late T \<Longrightarrow> j + stop_rank T' \<le> stop_rank T \<and> stopping_late T'"
proof (induction j arbitrary: T')
  case (Suc j)
  then obtain U where U: "(tt_step ^^ j) T U" "tt_step U T'" by auto
  then have "j + stop_rank U \<le> stop_rank T" "stopping_late U" using Suc by auto
  then show ?case using U(2) stop_rank_step [OF U(2)] stopping_late_step by (fastforce simp: stopping_late_def [of U])
qed simp

section \<open>A run\<close>

text \<open>A bucket of one second, started at time 0, takes its first turn and is shut down.\<close>

definition demo_bucket :: "bool \<Rightarrow> bool \<Rightarrow> timed" where
  "demo_bucket b c = Bucketing \<lparr> tm_period = 1000, tm_child = Some 7, tm_stopping = b, tm_started = c \<rparr>"

abbreviation demo_thread :: "bool \<Rightarrow> int \<Rightarrow> turn \<Rightarrow> stopper \<Rightarrow> bool \<Rightarrow> (int \<times> int) list \<Rightarrow> call list \<Rightarrow> TimerThread" where
  "demo_thread b now t s m fs ps \<equiv> \<lparr> tt_node = demo_bucket b True, tt_now = now, tt_mutex = m, tt_turn = t, tt_joinable = True, tt_owned = True,
     tt_stopper = s, tt_puts = [], tt_down = False, tt_fired = fs, tt_posted = ps \<rparr>"

lemma demo_bucket_simps [simp]:
  "stopping_of (demo_bucket b c) = b" "started_of (demo_bucket b c) = c" "aligned (demo_bucket b c)" "period_of (demo_bucket b c) = 1000"
  "set_stopping (demo_bucket b c) = demo_bucket True c" "set_started (demo_bucket b c) = demo_bucket b True"
  "drop_buffers (demo_bucket b c) = demo_bucket b c"
  "collect_turn (demo_bucket b c) = Some ([(7, mkSV [] (ADouble d0))], demo_bucket b c)"
  "wait_target 0 (demo_bucket b c) = 1000000000"
  by (simp_all add: demo_bucket_def nextAlignedAfter_def tdiv_def)

lemma tt_run_step: "tt_run S T \<Longrightarrow> tt_step T U \<Longrightarrow> tt_run S U"
  by (rule rtranclp.rtrancl_into_rtrancl) auto

lemma tt_run_event: "tt_run S T \<Longrightarrow> tt_event T U \<Longrightarrow> tt_run S U"
  by (rule rtranclp.rtrancl_into_rtrancl) auto

lemma demo_waits: "tt_run (TimerThread_new (demo_bucket False False) 0) (demo_thread False 0 (THold 1000000000) SIdle True [] [])"
proof -
  let ?S = "TimerThread_new (demo_bucket False False) 0"
  have "tt_run ?S (demo_thread False 0 TTop SIdle False [] [])"
    using tt_run_event [OF rtranclp.rtrancl_refl tt_event.start, of ?S] by (simp add: TimerThread_new_def timer_start_def)
  from tt_run_step [OF this tt_step.top] have "tt_run ?S (demo_thread False 0 TClock SIdle False [] [])" by (simp add: loop_top_def)
  from tt_run_step [OF this tt_step.clock] have "tt_run ?S (demo_thread False 0 (TLock 1000000000) SIdle False [] [])"
    by (simp add: loop_clock_def)
  from tt_run_step [OF this tt_step.wait] show ?thesis by (simp add: loop_wait_def)
qed

lemma demo_fires:
  "tt_run (TimerThread_new (demo_bucket False False) 0)
     (demo_thread False 1000000000 (TPost []) SIdle False [(1000000000, 1000000000)] [(7, mkSV [] (ADouble d0))])"
proof -
  let ?S = "TimerThread_new (demo_bucket False False) 0"
  from tt_run_step [OF demo_waits tt_step.sleep] have "tt_run ?S (demo_thread False 0 (TAsleep 1000000000) SIdle False [] [])"
    by (simp add: loop_sleep_def)
  from tt_run_event [OF this tt_event.pass, of 1000000000]
  have "tt_run ?S (demo_thread False 1000000000 (TAsleep 1000000000) SIdle False [] [])" by simp
  from tt_run_step [OF this tt_step.expire] have "tt_run ?S (demo_thread False 1000000000 (TTimeout 1000000000) SIdle False [] [])" by simp
  from tt_run_step [OF this tt_step.timeout] have "tt_run ?S (demo_thread False 1000000000 (TAfter 1000000000) SIdle False [] [])"
    by (simp add: loop_timeout_def)
  from tt_run_step [OF this tt_step.after] have "tt_run ?S (demo_thread False 1000000000 (TFire 1000000000) SIdle False [] [])"
    by (simp add: loop_after_def)
  from tt_run_step [OF this tt_step.fire]
  have "tt_run ?S (demo_thread False 1000000000 (TPost [(7, mkSV [] (ADouble d0))]) SIdle False [(1000000000, 1000000000)] [])"
    by (simp add: loop_fire_def)
  from tt_run_step [OF this tt_step.post] show ?thesis by simp
qed

text \<open>
  The flag is set between the test of the thread and its sleep, and the notification comes before the sleep: the thread sleeps until
  the end of its wait, and \<^verbatim>\<open>shutdown\<close>, which joins it, cannot go on before. The wait of the code is up to an hour.
\<close>

lemma shutdown_misses_sleeper:
  "\<exists>T. tt_run (TimerThread_new (demo_bucket False False) 0) T \<and> tt_stopper T = SJoin \<and> tt_turn T = TAsleep 1000000000 \<and> tt_now T = 0 \<and>
     (\<nexists>U. tt_step T U)"
proof -
  let ?S = "TimerThread_new (demo_bucket False False) 0" and ?T = "demo_thread True 0 (TAsleep 1000000000) SJoin False [] []"
  from tt_run_event [OF demo_waits tt_event.shutdown] have "tt_run ?S (demo_thread True 0 (THold 1000000000) SNotify True [] [])"
    by (simp add: shutdown_stop_def)
  from tt_run_step [OF this tt_step.notify] have "tt_run ?S (demo_thread True 0 (THold 1000000000) SJoin True [] [])"
    by (simp add: shutdown_notify_def)
  from tt_run_step [OF this tt_step.sleep] have "tt_run ?S ?T" by (simp add: loop_sleep_def)
  moreover have "\<nexists>U. tt_step ?T U" by (auto elim: tt_step.cases)
  ultimately show ?thesis by (intro exI [of _ ?T]) simp
qed

text \<open>
  A value whose \<^verbatim>\<open>onValue\<close> tested the flag before it was set and takes the mutex after the buffers were dropped is stored in the window
  that is shut down: being in flight does not make it see the flag.
\<close>

lemma put_outlives_shutdown:
  fixes sv :: StreamValue
  defines "w \<equiv> \<lparr> tw_period = 1000, tw_downstream = Some 7, tw_stopping = False, tw_started = False, tw_acc = [] \<rparr>"
  shows "\<exists>T n. tt_run (TimerThread_new (Windowing w) 0) T \<and> tt_down T \<and> tt_node T = Windowing n \<and> map fst (tw_acc n) = [sv_symbol sv]"
proof -
  let ?S = "TimerThread_new (Windowing w) 0" and ?W = "Windowing (w \<lparr> tw_stopping := True \<rparr>)"
  have "tt_run ?S (?S \<lparr> tt_puts := [sv] \<rparr>)"
    using tt_run_event [OF rtranclp.rtrancl_refl tt_event.put, of ?S sv] by (simp add: put_test_def TimerThread_new_def w_def)
  from tt_run_event [OF this tt_event.shutdown]
  have "tt_run ?S (?S \<lparr> tt_puts := [sv], tt_node := ?W, tt_stopper := SNotify \<rparr>)" by (simp add: shutdown_stop_def TimerThread_new_def)
  from tt_run_step [OF this tt_step.notify]
  have "tt_run ?S (?S \<lparr> tt_puts := [sv], tt_node := ?W, tt_stopper := SClear \<rparr>)" by (simp add: shutdown_notify_def TimerThread_new_def)
  from tt_run_step [OF this tt_step.clear]
  have "tt_run ?S (?S \<lparr> tt_puts := [sv], tt_node := drop_buffers ?W, tt_down := True \<rparr>)" by (simp add: shutdown_clear_def TimerThread_new_def)
  from tt_run_event [OF this tt_event.put_locked, of sv]
  have "tt_run ?S (?S \<lparr> tt_node := timed_put sv (drop_buffers ?W), tt_down := True \<rparr>)" by (simp add: put_value_def TimerThread_new_def)
  then show ?thesis by (intro exI conjI) (auto simp: window_put_def w_def symbol_cap_def MAX_SYMBOLS_def at_key_def Let_def)
qed

section \<open>Properties\<close>

text \<open>C39. In every run of a timer thread with its users, whatever they do and however they interleave, if the clock does not go back: a
  turn is never taken before the time it waits for; for \<^verbatim>\<open>BucketTime\<close> and \<^verbatim>\<open>TumblingWindow\<close> that time is a multiple of the period, and lies
  after the turn before, so that no boundary is served twice; the turns of an \<^verbatim>\<open>Interval\<close> are at least a period apart. Once
  \<^verbatim>\<open>stopping_\<close> is set at most one more turn is taken, and after \<^verbatim>\<open>shutdown\<close> has returned nothing is posted.\<close>

theorem timer_turns:
  assumes "tt_run (TimerThread_new n now) T" "\<not> started_of n" "0 < period_of n" "0 \<le> now" "tt_run T T'"
  shows "(\<forall>(d, t) \<in> set (tt_fired T). d \<le> t \<and> (aligned n \<longrightarrow> period_of n * 1000000 dvd d)) \<and>
    sorted_wrt (\<lambda>(d, t) (d', t'). t < d' \<and> (\<not> aligned n \<longrightarrow> t + period_of n * 1000000 \<le> d')) (tt_fired T) \<and>
    (stopping_of (tt_node T) \<longrightarrow> length (tt_fired T') \<le> length (tt_fired T) + 1) \<and>
    (tt_down T \<longrightarrow> tt_posted T' = tt_posted T \<and> tt_fired T' = tt_fired T)"
proof -
  have "turn_ok (kind_of n) T" "stop_ok T"
    using turn_ok_run [OF assms(1)] stop_ok_run [OF assms(1)] tt_new_ok [OF assms(2,4)] assms(3) by (auto simp: kind_of_def)
  moreover from this(1) have "turns_ok (period_of n, aligned n) (tt_now T) (tt_fired T)" by (simp add: turn_ok_def kind_of_def)
  then have "sorted_wrt (\<lambda>(d, t) (d', t'). t < d' \<and> (\<not> aligned n \<longrightarrow> t + period_of n * 1000000 \<le> d')) (tt_fired T)"
    by (auto simp: turns_ok_def due_def elim!: sorted_wrt_mono_rel [rotated] split: if_splits)
  ultimately show ?thesis using one_turn_after_stop [OF assms(5)] quiet_after_shutdown [OF assms(5)]
    by (auto simp: turn_ok_def turns_ok_def kind_of_def)
qed

theorem timer_turns_witness:
  "\<exists>T T'. tt_run T T' \<and> tt_down T \<and> tt_fired T = [(1000000000, 1000000000)] \<and>
     tt_posted T' = tt_posted T \<and> tt_fired T' = tt_fired T \<and> (1000 * 1000000 :: int) dvd 1000000000"
proof -
  let ?S = "TimerThread_new (demo_bucket False False) 0" and ?f = "[(1000000000, 1000000000)]" and ?p = "[(7, mkSV [] (ADouble d0))]"
  from tt_run_step [OF demo_fires tt_step.post] have "tt_run ?S (demo_thread False 1000000000 TTop SIdle False ?f ?p)" by simp
  from tt_run_event [OF this tt_event.shutdown] have "tt_run ?S (demo_thread True 1000000000 TTop SNotify False ?f ?p)"
    by (simp add: shutdown_stop_def)
  from tt_run_step [OF this tt_step.notify] have "tt_run ?S (demo_thread True 1000000000 TTop SJoin False ?f ?p)"
    by (simp add: shutdown_notify_def)
  from tt_run_step [OF this tt_step.top] have "tt_run ?S (demo_thread True 1000000000 TLeave SJoin False ?f ?p)" by (simp add: loop_top_def)
  from tt_run_step [OF this tt_step.leave] have "tt_run ?S (demo_thread True 1000000000 TExit SJoin False ?f ?p)" by (simp add: loop_leave_def)
  from tt_run_step [OF this tt_step.join]
  have "tt_run ?S ((demo_thread True 1000000000 TExit SClear False ?f ?p) \<lparr> tt_joinable := False \<rparr>)" by (simp add: shutdown_join_def)
  from tt_run_step [OF this tt_step.clear]
  have run: "tt_run ?S ((demo_thread True 1000000000 TExit SIdle False ?f ?p) \<lparr> tt_joinable := False, tt_down := True \<rparr>)" (is "tt_run _ ?T")
    by (simp add: shutdown_clear_def)
  have "tt_run ?T ?T" by simp
  from timer_turns [OF run _ _ _ this] show ?thesis by (intro exI [of _ ?T]) simp
qed

text \<open>A shutdown ends once a period has passed: from then on the thread and the shutdown take only so many steps, and where they
  have no more, the shutdown has returned.\<close>

theorem timer_shutdown_ends:
  assumes "tt_run (TimerThread_new n now) T" "\<not> started_of n" "0 < period_of n" "0 \<le> now" "tt_stopper T \<noteq> SIdle"
    "tt_now T + period_of n * 1000000 \<le> t"
  shows "\<exists>m. \<forall>j T'. (tt_step ^^ j) (T \<lparr> tt_now := t \<rparr>) T' \<longrightarrow>
    j \<le> m \<and> ((\<nexists>U. tt_step T' U) \<longrightarrow> tt_down T' \<and> tt_stopper T' = SIdle)"
proof -
  have ok: "turn_ok (kind_of n) T" "stop_ok T"
    using turn_ok_run [OF assms(1)] stop_ok_run [OF assms(1)] tt_new_ok [OF assms(2,4)] assms(3) by (auto simp: kind_of_def)
  have "stop_ok (T \<lparr> tt_now := t \<rparr>)" using ok(2) by (auto simp: stop_ok_def)
  moreover have "stopping_of (tt_node T)" using ok(2) assms(5) by (simp add: stop_ok_def)
  moreover have "d \<le> t" if "tt_turn T = THold d \<or> tt_turn T = TAsleep d" for d
    using ok(1) that assms(6) by (auto simp: turn_ok_def kind_of_def)
  ultimately have late: "stopping_late (T \<lparr> tt_now := t \<rparr>)" using assms(5) by (simp add: stopping_late_def)
  have "tt_down T' \<and> tt_stopper T' = SIdle" if "(tt_step ^^ j) (T \<lparr> tt_now := t \<rparr>) T'" "\<nexists>U. tt_step T' U" for j T'
    using stopping_late_ends [OF that(1) late] stop_not_stuck [of T'] that(2) by (auto simp: stopping_late_def)
  then show ?thesis using stopping_late_ends [OF _ late] by (intro exI [of _ "stop_rank (T \<lparr> tt_now := t \<rparr>)"]) fastforce
qed

end
