(* ===== verification/Spec2Isabelle.thy ===== *)
theory Spec2Isabelle
  imports Manager_Edges Itch_Thms Json_Validator Stream_Node_Thms Dispatcher_Thms
    Client_Session_Edges Ob_Provider_Thms Feed_Server_Thms Feed_Client_Thms Market_TA_Thms Spsc_Queue_Thms Program_Start_Thms
    Client_Connection Web_Socket_Server
    Request_Registry Thread_Pool_Thms Log_Lines_Thms Ta_Indicators Synthetic_Connector Process_Registries Timer_Threads_Thms
begin

text \<open>
  \<^bold>\<open>GMA, a streaming engine for market data.\<close> Feeds deliver events (ticks, order-book messages); a
  connector keeps one limit order book per symbol; the dispatcher records histories, computes derived
  values into a store and hands values to listeners; clients subscribe over WebSocket with a JSON
  request that is built into a chain of processing nodes, whose results are sent back as updates. This
  development models that program from the feed messages to the frames queued for a client.

  \<^bold>\<open>Layers and theories.\<close>

  \<^item> \<open>Gma_Prelude\<close>: shared lemmas on words, association lists (\<^verbatim>\<open>std::unordered_map\<close>) and sorted
    association lists (\<^verbatim>\<open>std::map\<close>, with the comparator contract as the locale \<open>key_order\<close>).
    \<open>Ieee_Double\<close>, \<open>Ieee_Math\<close>: the type \<^verbatim>\<open>double\<close> with correct rounding, and the facts on rounding the
    components use (locale \<open>rounding\<close>). \<open>C_Library\<close>, \<open>Text_Format\<close>, \<open>Json_Dom\<close>: the C and C++ string
    functions and the RapidJSON document interface; a parser of JSON text is always a parameter.

  \<^item> \<open>Order_Book\<close> (\<^verbatim>\<open>book/OrderBook.cpp\<close>): the per-order and the aggregated ladder, with list iterators
    as node addresses; an operation that uses a dangling iterator returns \<^const>\<open>None\<close>. \<open>Order_Book_Inv\<close>
    has the representation invariant, \<open>Order_Book_Spec\<close> the abstract book (a queue of orders for each
    side and price) and the refinement of each operation, \<open>Order_Book_Thms\<close> the properties.

  \<^item> \<open>Book_Manager\<close> (\<^verbatim>\<open>book/OrderBookManager.cpp\<close>): books by symbol, tick quantization, validation, sequence
    gaps, the venue-key cache (\<open>Lru_Cache\<close>, locale and interpretation), snapshots and the delta bus.
    \<open>Book_Manager_Inv\<close> and \<open>Book_Manager_Thms\<close>: runs of all its operations as a step relation; \<open>Book_Delta\<close>:
    a subscriber that applies deltas keeps an exact copy; \<open>Tick_Quantization\<close>: prices and ticks;
    \<open>Manager_Edges\<close>: round trips and the corner cases where the code loses information.

  \<^item> \<open>Itch_Adapter\<close>, \<open>Itch_Thms\<close> (\<^verbatim>\<open>feed/ItchAdapter.cpp\<close>): the translation of feed messages to events,
    whose replay reproduces the adapter's table of orders.

  \<^item> \<open>Atomic_Store\<close> (\<^verbatim>\<open>core/AtomicStore.cpp\<close>), \<open>Builtin_Functions\<close> (\<^verbatim>\<open>core/FunctionMap.cpp\<close>,
    \<^verbatim>\<open>core/BuiltinFunctions.cpp\<close>), \<open>Stream_Nodes\<close> and \<open>Stream_Node_Thms\<close> (\<^verbatim>\<open>src/nodes\<close>): the store, the
    reducers on doubles, and every node class with its buffers and caps.

  \<^item> \<open>Node_Graph\<close>, \<open>Tree_Builder\<close> (\<^verbatim>\<open>core/TreeBuilder.cpp\<close>), \<open>Node_Run\<close>: the running engine as one state of
    objects with shared and weak pointers; building requests, calling nodes, timers, tasks and shutdown.
    \<open>Worklist\<close> runs nested calls with a partial function and proves, in a locale, that it is total where
    calls have ranks; \<open>Node_Graph_Inv\<close> and \<open>Node_Graph_Thms\<close> show that every request builds a ranked graph
    and interpret the locale for calls and for shutdowns; \<open>Engine_Runs\<close> has the step relation of the engine.

  \<^item> \<open>Json_Validator\<close> (\<^verbatim>\<open>core/JsonValidator.cpp\<close>): the request validator, with what it accepts.

  \<^item> \<open>Dispatcher\<close>, \<open>Dispatcher_Thms\<close> (\<^verbatim>\<open>core/Dispatcher.cpp\<close>, \<^verbatim>\<open>engine/EventComputerRegistry.hpp\<close>): an event is
    given to its computers, recorded, reduced into the store and handed to the listeners.

  \<^item> \<open>Request_Key\<close>, \<open>Client_Session\<close> (\<^verbatim>\<open>server/RequestKey.hpp\<close>, \<^verbatim>\<open>server/ClientSession.cpp\<close>): a session's
    protocol, subscriptions, rate limit and write queue, with its mutex, its strand and the outstanding
    write made explicit. \<open>Engine_Growth\<close>: what the engine never takes away from a session;
    \<open>Client_Session_Inv\<close>, \<open>Client_Session_Thms\<close>, \<open>Client_Session_Runs\<close>: the invariant, the handlers and the
    runs; \<open>Rate_Limit\<close>: the token bucket on doubles; \<open>Client_Session_Edges\<close>: three faults.

  \<^item> \<open>Ob_Key\<close>, \<open>Ob_Materializer\<close>, \<open>Ob_Provider\<close> (\<^verbatim>\<open>ob/\<close>): the keys of order-book metrics, their values on a
    captured snapshot, and the provider that captures snapshots from the manager; \<open>Ob_Key_Thms\<close>,
    \<open>Ob_Provider_Thms\<close> and \<open>Ob_Imbalance\<close> have the round trip, the agreement with the book and the bounds.
    \<open>Ieee_Bounds\<close> holds the bounds on double arithmetic that these and the indicators share.

  \<^item> \<open>Feed_Server\<close> (\<^verbatim>\<open>server/FeedServer.cpp\<close>) and \<open>Feed_Client\<close> (\<^verbatim>\<open>ws/WsFeedClient.cpp\<close>): the two sources of market
    data, as machines whose steps are the completions of asynchronous operations. What both do to the
    dispatcher and the books is a list of actions in \<open>Feed_Market\<close>, whose locale is interpreted on each of them.

  \<^item> \<open>Market_TA\<close>, \<open>Market_TA_Thms\<close> (\<^verbatim>\<open>MarketTA.cpp\<close>) and \<open>Ta_Indicators\<close> (\<^verbatim>\<open>ta/Indicators.hpp\<close>): the technical indicators on
    doubles, and the computer of ticks that writes them. \<open>Market_Connector\<close> (\<^verbatim>\<open>MarketConnector.cpp\<close>,
    \<^verbatim>\<open>MarketIngress.cpp\<close>) and \<open>Synthetic_Connector\<close>: what the connectors register and run.

  \<^item> \<open>Engine_Config\<close> (\<^verbatim>\<open>util/Config.cpp\<close>), \<open>Connectors_Client\<close> (\<^verbatim>\<open>forum/ConnectorsClient.cpp\<close>), \<open>Shutdown_Coordinator\<close> and
    \<open>Program_Start\<close> (\<^verbatim>\<open>main.cpp\<close>): the configuration from its four origins, the sources made from it, and the ordered end.

  \<^item> \<open>Web_Socket_Server\<close>, \<open>Client_Connection\<close> (\<^verbatim>\<open>server/WebSocketServer.cpp\<close>, \<^verbatim>\<open>ws/ClientConnection.cpp\<close>): the table of sessions
    and the client side of a connection. \<open>Ws_Bridge\<close>, \<open>Ws_Bridge_Thms\<close> (\<^verbatim>\<open>ws/WsBridge.cpp\<close>, \<^verbatim>\<open>ws/WSResponder.cpp\<close>): the bridge
    between connections and the engine. \<open>Request_Registry\<close> (\<^verbatim>\<open>core/RequestRegistry.cpp\<close>): the table of running requests.

  \<^item> \<open>Spsc_Queue\<close>, \<open>Thread_Pool\<close> (\<^verbatim>\<open>rt/SPSCQueue.hpp\<close>, \<^verbatim>\<open>rt/ThreadPool.cpp\<close>): the two concurrent parts of the runtime, as
    interleavings of atomic accesses and of critical sections, with their properties in \<open>Spsc_Queue_Thms\<close> and
    \<open>Thread_Pool_Thms\<close>; \<open>Timer_Threads\<close>, \<open>Timer_Threads_Thms\<close> (\<^verbatim>\<open>nodes/Interval.cpp\<close>, \<^verbatim>\<open>nodes/BucketTime.cpp\<close>,
    \<^verbatim>\<open>nodes/TumblingWindow.cpp\<close>): the threads of the timer nodes in the same way. \<open>Log_Lines\<close>, \<open>Log_Lines_Thms\<close> (\<^verbatim>\<open>util/Logger.cpp\<close>): the lines of the log. \<open>Process_Registries\<close>: event types, node types
    and metrics; one locale covers every registry in which the first registration of a name stays.

  \<^bold>\<open>What is shown.\<close> The book and its manager refine a price-time queue, never use a dangling iterator, and
  publish deltas that reconstruct the book, as long as no level total exceeds 64 bits; the gap detector, the
  stale gate and the caches do what they promise. The adapter's events describe its orders. The store, the
  histories and the queues stay within their caps. Aggregates, windows and workers neither lose nor
  reorder values. Requests are validated exactly as the walk prescribes; whatever requests are built, tasks,
  deliveries and shutdowns end; an acknowledged subscription is registered and alive until it is cancelled;
  a session answers every request once and has one write outstanding. The metrics of the order book agree with the
  manager's levels, their keys survive printing and parsing, and imbalances and strength indices stay in their ranges. Both feeds
  keep the books and the dispatcher well formed, however the bytes arrive and however a connection fails, and the framing
  does not depend on how the bytes are cut. A configuration file gives a valid configuration whatever its
  lines hold, and the process makes exactly the sources the configuration names. Connections of the bridge do not see each other's
  updates. The ring buffer is a queue and the pool runs each posted task once, under every interleaving; timer nodes take
  their turns at the boundaries of the period and stop. A line of the
  log can be read back. Where a theorem needs an assumption (no overflow, representable ticks, room in a queue), the
  lemmas next to it show what happens without it; these cases are the findings of the development.

  \<^bold>\<open>Bounds.\<close> Machine integers are words or have their range written out; caps (4096 cached keys, 10000 symbols,
  1000 values, 256 subscriptions of a session and 100 of a bridge connection, 4096 frames, depth 32) are those of
  the code. The only loop without an evident bound is the chain of calls between nodes, \<open>drain\<close>; the rank of a node
  bounds it, and \<open>engine_always_finishes\<close> states that it ends in every reachable engine.

  \<^bold>\<open>Not modelled.\<close> Sockets, TLS, HTTP and WebSocket framing (Boost.Asio and Beast) appear only as completions and
  as the frames handed over. The JSON parser and writer and the transcendental functions of libm are parameters, as are
  the contents of files, the environment and the network at the start. Tasks of the engine run one after the other: each
  node locks its own state and forwards after unlocking, so the steps of the model are the critical sections of the
  code; the threads that run them are in \<open>Thread_Pool\<close>, those of the timers in \<open>Timer_Threads\<close>. Signal
  handling and the event loop of \<^verbatim>\<open>main.cpp\<close>, calls of the logger, most increments of metrics, text
  dumps for debugging, name constants and forwarding headers, tests and benchmarks are left out.
\<close>

end
